(* ===== verification/Prelude.thy ===== *)
theory Prelude
  imports Main "HOL-Library.Word" "HOL-Library.Monad_Syntax"
begin

text \<open>
  Shared vocabulary of the development: the machine types of the program, the vector
  operations (\<open>SnapVector\<close> / \<open>ModelVector\<close>) the components use, the collections of
  theorems their proofs draw on, and the generic lemmas on lists and relations.
\<close>

unbundle bit_operations_syntax

section \<open>Types and collections\<close>

text \<open>
  \<open>modelclock_t\<close> is \<open>unsigned int\<close>; \<open>thread_id_t\<close> is an \<open>int\<close> that is never
  negative for a thread that exists (ids come from the counter \<open>next_thread_id\<close>), so it is a
  \<open>nat\<close> here and \<open>id_to_int\<close> / \<open>int_to_id\<close> are identities.
  Objects the program shares by pointer (actions, promises, graph nodes) are numbered by
  \<open>nat\<close>; the null pointer is \<open>None\<close>.
\<close>

type_synonym modelclock_t = "32 word"
type_synonym thread_id_t = nat
type_synonym uint64 = "64 word"
type_synonym aid = nat
type_synonym pid = nat

named_theorems action_defs "definitions of the ModelAction predicates"
named_theorems clock_simps "observations of clock vectors"
named_theorems vec_simps "vector operations"
named_theorems graph_simps "observations of the cycle graph's node heap"
named_theorems graph_intros "preservation lemmas of the cycle graph"
named_theorems node_defs "definitions of the Node operations"

section \<open>Vectors\<close>

text \<open>\<open>std::vector::resize(n, d)\<close> truncates or pads with \<open>d\<close>.\<close>

definition vec_resize :: "'a list \<Rightarrow> nat \<Rightarrow> 'a \<Rightarrow> 'a list" where
  "vec_resize xs n d = take n xs @ replicate (n - length xs) d"

definition vec_erase :: "'a list \<Rightarrow> nat \<Rightarrow> 'a list" where
  "vec_erase xs i = take i xs @ drop (Suc i) xs"

definition vec_get :: "'a list \<Rightarrow> nat \<Rightarrow> 'a \<Rightarrow> 'a" where
  "vec_get xs i d = (if i < length xs then xs ! i else d)"

lemma length_vec_resize [vec_simps, simp]: "length (vec_resize xs n d) = n"
  by (simp add: vec_resize_def)

lemma vec_resize_nth [vec_simps, simp]:
  "i < n \<Longrightarrow> vec_resize xs n d ! i = (if i < length xs then xs ! i else d)"
  by (auto simp: vec_resize_def nth_append)

lemma vec_get_resize [vec_simps]:
  "length xs \<le> n \<Longrightarrow> vec_get (vec_resize xs n d) i d = vec_get xs i d"
  by (auto simp: vec_get_def)

lemma vec_get_update [vec_simps]:
  "i < length xs \<Longrightarrow> vec_get (xs[i := x]) j d = (if i = j then x else vec_get xs j d)"
  by (auto simp: vec_get_def)

lemma nth_update_in [vec_simps]:
  "i < length xs \<Longrightarrow> xs[j := x] ! i = (if i = j then x else xs ! i)"
  by simp

lemma vec_get_Nil [vec_simps, simp]: "vec_get [] i d = d"
  by (simp add: vec_get_def)

text \<open>The number of entries of a \<open>vector<bool>\<close> that are set.\<close>

abbreviation count_true :: "bool list \<Rightarrow> nat" where
  "count_true bs \<equiv> count_list bs True"

lemma count_list_update:
  "i < length xs \<Longrightarrow>
   count_list (xs[i := y]) x + (if xs ! i = x then 1 else 0)
     = count_list xs x + (if y = x then 1 else 0)"
proof (induction xs arbitrary: i)
  case Nil
  then show ?case by simp
next
  case (Cons a xs)
  then show ?case
  proof (cases i)
    case 0
    then show ?thesis by simp
  next
    case (Suc j)
    with Cons.prems have "j < length xs" by simp
    from Cons.IH [OF this] show ?thesis by (auto simp: Suc)
  qed
qed

lemma count_true_set:
  "i < length bs \<Longrightarrow> \<not> bs ! i \<Longrightarrow> count_true (bs[i := True]) = Suc (count_true bs)"
  using count_list_update [of i bs True True] by simp

lemma count_true_clear:
  "i < length bs \<Longrightarrow> bs ! i \<Longrightarrow> Suc (count_true (bs[i := False])) = count_true bs"
  using count_list_update [of i bs False True] by simp

lemma count_true_replicate_False [simp]: "count_true (replicate n False) = 0"
  by (induction n) auto

lemma count_true_zero: "count_true bs = 0 \<longleftrightarrow> (\<forall>i < length bs. \<not> bs ! i)"
  by (metis (full_types) count_list_0_iff in_set_conv_nth)

lemma count_true_card: "count_true bs = card {i. i < length bs \<and> bs ! i}"
proof (induction bs rule: rev_induct)
  case Nil
  then show ?case by simp
next
  case (snoc b bs)
  have "{i. i < length (bs @ [b]) \<and> (bs @ [b]) ! i}
      = {i. i < length bs \<and> bs ! i} \<union> (if b then {length bs} else {})"
    by (auto simp: nth_append less_Suc_eq)
  moreover have "length bs \<notin> {i. i < length bs \<and> bs ! i}" by simp
  ultimately show ?case using snoc by (simp add: count_list_append)
qed

lemma count_true_resize_False:
  "length bs \<le> n \<Longrightarrow> count_true (vec_resize bs n False) = count_true bs"
  by (simp add: vec_resize_def)

section \<open>Loops that may fail\<close>

text \<open>A search loop that stops at the first hit, and a loop that threads a state.\<close>

primrec exists_opt :: "('a \<Rightarrow> bool option) \<Rightarrow> 'a list \<Rightarrow> bool option" where
  "exists_opt f [] = Some False"
| "exists_opt f (x # xs) = do { b \<leftarrow> f x; if b then Some True else exists_opt f xs }"

primrec fold_opt :: "('a \<Rightarrow> 's \<Rightarrow> 's option) \<Rightarrow> 'a list \<Rightarrow> 's \<Rightarrow> 's option" where
  "fold_opt f [] s = Some s"
| "fold_opt f (x # xs) s = do { s1 \<leftarrow> f x s; fold_opt f xs s1 }"

lemma fold_opt_append:
  "fold_opt f (xs @ ys) s = Option.bind (fold_opt f xs s) (fold_opt f ys)"
  by (induction xs arbitrary: s) (simp_all add: Option.bind_assoc)

text \<open>What every step of a loop keeps, the loop keeps.\<close>

lemma fold_opt_invariant:
  assumes "fold_opt f xs s = Some s'" and "P s"
    and "\<And>x t t'. x \<in> set xs \<Longrightarrow> P t \<Longrightarrow> f x t = Some t' \<Longrightarrow> P t'"
  shows "P s'"
  using assms
proof (induction xs arbitrary: s)
  case Nil
  then show ?case by simp
next
  case (Cons x xs)
  from Cons.prems(1) obtain s1 where "f x s = Some s1" and rest: "fold_opt f xs s1 = Some s'"
    by (auto simp: bind_eq_Some_conv)
  then have "P s1" using Cons.prems(3) [of x s s1] Cons.prems(2) by simp
  from rest this show ?case
    by (rule Cons.IH) (rule Cons.prems(3), simp_all)
qed

text \<open>The loop over an index range, cut at one index.\<close>

lemma fold_opt_at:
  assumes "fold_opt f [0 ..< n] st = Some st'" and "i < n"
  obtains st1 st2 where "fold_opt f [0 ..< i] st = Some st1" and "f i st1 = Some st2"
    and "fold_opt f [Suc i ..< n] st2 = Some st'"
proof -
  have "[0 ..< n] = [0 ..< i] @ [i ..< n]"
    using upt_add_eq_append [of 0 i "n - i"] assms(2) by simp
  then have "[0 ..< n] = [0 ..< i] @ i # [Suc i ..< n]"
    using assms(2) by (simp add: upt_conv_Cons)
  with assms(1) that show ?thesis by (auto simp: fold_opt_append bind_eq_Some_conv)
qed

lemma exists_opt_iff:
  "(\<And>x. x \<in> set xs \<Longrightarrow> f x \<noteq> None) \<Longrightarrow>
   exists_opt f xs = Some (\<exists>x \<in> set xs. f x = Some True)"
proof (induction xs)
  case Nil
  then show ?case by simp
next
  case (Cons x xs)
  then obtain b where "f x = Some b" by fastforce
  then show ?case using Cons by (cases b) auto
qed

section \<open>Relations\<close>

lemma rtrancl_closed_Image:
  assumes "r `` X \<subseteq> X" and "x \<in> X" and "(x, y) \<in> r\<^sup>*"
  shows "y \<in> X"
  using assms(3,2) by induction (use assms(1) in auto)

lemma acyclic_insert_iff:
  "acyclic (insert (a, b) r) \<longleftrightarrow> acyclic r \<and> (b, a) \<notin> r\<^sup>*"
  by (simp add: acyclic_insert)

lemma acyclic_source:
  assumes "acyclic E" and "\<And>x. (x, r) \<notin> E" and "r \<notin> T"
  shows "acyclic (E \<union> {r} \<times> T)"
proof (rule acyclicI, intro allI notI)
  fix x
  assume cyc: "(x, x) \<in> (E \<union> {r} \<times> T)\<^sup>+"
  have into: "y \<noteq> r" if "(x, y) \<in> (E \<union> {r} \<times> T)\<^sup>+" for x y
    using that assms(2,3) by (cases rule: trancl.cases) auto
  have "(x, y) \<in> E\<^sup>+" if "(x, y) \<in> (E \<union> {r} \<times> T)\<^sup>+" "x \<noteq> r" for x y
    using that
  proof (induction rule: trancl_induct)
    case (base y)
    then show ?case by auto
  next
    case (step y z)
    then have "y \<noteq> r" using into by blast
    then have "(y, z) \<in> E" using step by auto
    then show ?case using step by (meson trancl.trancl_into_trancl)
  qed
  with cyc into [OF cyc] have "(x, x) \<in> E\<^sup>+" by blast
  then show False using assms(1) by (simp add: acyclic_def)
qed

text \<open>Every finite acyclic relation has a topological order of any finite set of points.\<close>

lemma topological_order:
  assumes "finite A" and "acyclic r"
  obtains xs where "set xs = A" and "distinct xs"
    and "\<And>i j. i < length xs \<Longrightarrow> j < length xs \<Longrightarrow> (xs ! i, xs ! j) \<in> r \<Longrightarrow> i < j"
proof -
  have "\<exists>xs. set xs = A \<and> distinct xs \<and>
      (\<forall>i < length xs. \<forall>j < length xs. (xs ! i, xs ! j) \<in> r \<longrightarrow> i < j)"
    using assms(1)
  proof (induction "card A" arbitrary: A)
    case 0
    then show ?case by (intro exI [of _ "[]"]) auto
  next
    case (Suc n)
    have "finite (r \<inter> A \<times> A)" and "acyclic (r \<inter> A \<times> A)"
      using Suc.prems assms(2) by (auto intro: acyclic_subset)
    then have "wf (r \<inter> A \<times> A)" by (rule finite_acyclic_wf)
    moreover from Suc.hyps(2) obtain a where "a \<in> A" by fastforce
    ultimately obtain m where m: "m \<in> A" and min: "\<And>y. (y, m) \<in> r \<inter> A \<times> A \<Longrightarrow> y \<notin> A"
      using wfE_min [of "r \<inter> A \<times> A" a A] by metis
    obtain ys where ys: "set ys = A - {m}" "distinct ys"
      and ord: "\<forall>i < length ys. \<forall>j < length ys. (ys ! i, ys ! j) \<in> r \<longrightarrow> i < j"
      using Suc.hyps(1) [of "A - {m}"] Suc.hyps(2) Suc.prems m
      by (metis card_Diff_singleton diff_Suc_1 finite_Diff)
    have setm: "set (m # ys) = A" using ys(1) m by auto
    have "i < j" if ij: "i < length (m # ys)" "j < length (m # ys)"
      and r: "((m # ys) ! i, (m # ys) ! j) \<in> r" for i j
    proof (cases j)
      case 0
      have "(m # ys) ! i \<in> A" using nth_mem [OF ij(1)] unfolding setm .
      with r 0 m min [of "(m # ys) ! i"] show ?thesis by simp
    next
      case (Suc j')
      then show ?thesis using ord r ij by (cases i) auto
    qed
    with setm ys m show ?case by (intro exI [of _ "m # ys"]) auto
  qed
  then show ?thesis using that by blast
qed

section \<open>Frames\<close>

text \<open>
  The contract of operations that change only some part of a state: a reflexive and transitive
  relation between the state before and after. A loop keeps the contract of its body; the state
  of the loop may carry more than the state the contract is about (\<open>p\<close> projects it out).
\<close>

locale frame =
  fixes R :: "'s \<Rightarrow> 's \<Rightarrow> bool"
  assumes refl: "R s s"
    and trans: "R s t \<Longrightarrow> R t u \<Longrightarrow> R s u"
begin

lemma fold:
  assumes "fold_opt f xs st = Some st'"
    and "\<And>x t t'. x \<in> set xs \<Longrightarrow> f x t = Some t' \<Longrightarrow> R (p t) (p t')"
  shows "R (p st) (p st')"
  by (rule fold_opt_invariant [OF assms(1), of "\<lambda>t. R (p st) (p t)"])
    (auto intro: refl trans assms(2))

lemma guarded:
  "(if b then f s else Some s) = Some s' \<Longrightarrow> (f s = Some s' \<Longrightarrow> R s s') \<Longrightarrow> R s s'"
  by (auto intro: refl split: if_splits)

lemma bind:
  assumes "Option.bind (f s) g = Some s'"
    and "\<And>t. f s = Some t \<Longrightarrow> R s (p t)" and "\<And>t. g t = Some s' \<Longrightarrow> R (p t) s'"
  shows "R s s'"
  using assms by (auto simp: bind_eq_Some_conv intro: trans)

end

end
