(* ===== verification/HashTable.thy ===== *)
theory HashTable
  imports Prelude
begin

text \<open>
  \<open>hashtable.h\<close>: the open-addressing hash table behind every table of the checker. Keys are
  pointers (64-bit words), the null key marks an empty slot, the capacity is a power of two
  and a probe walks the slots cyclically from the home slot of the key. Every table of the
  program is built with the default load factor 0.5, so the threshold is half the capacity.
  A probe that finds neither the key nor an empty slot never ends: the loop is a
  \<open>partial_function (option)\<close> and \<open>None\<close> is a run that does not return (or, in
  \<open>put\<close>, \<open>get\<close> and \<open>contains\<close>, the failing \<open>ASSERT (key)\<close>).
\<close>

record 'v hashlistnode =
  hn_key :: uint64
  hn_val :: 'v

record 'v hash_table =
  table :: "'v hashlistnode list"
  capacity :: "32 word"
  ht_size :: "32 word"
  capacitymask :: "32 word"
  threshold :: "32 word"
  ht_shift :: nat

definition ht_calloc :: "32 word \<Rightarrow> ('v::zero) hashlistnode list" where
  "ht_calloc n = replicate (unat n) \<lparr>hn_key = 0, hn_val = 0\<rparr>"

definition ht_new :: "nat \<Rightarrow> 32 word \<Rightarrow> ('v::zero) hash_table" where
  "ht_new shift initialcapacity =
     \<lparr>table = ht_calloc initialcapacity, capacity = initialcapacity, ht_size = 0,
      capacitymask = initialcapacity - 1, threshold = drop_bit 1 initialcapacity,
      ht_shift = shift\<rparr>"

definition ht_reset :: "('v::zero) hash_table \<Rightarrow> 'v hash_table" where
  "ht_reset t = t\<lparr>table := ht_calloc (capacity t), ht_size := 0\<rparr>"

definition ht_home :: "nat \<Rightarrow> uint64 \<Rightarrow> 32 word" where
  "ht_home shift key = ucast (drop_bit shift key)"

text \<open>
  The do-while loop of \<open>put\<close>, \<open>get\<close>, \<open>contains\<close> and \<open>resize\<close>: it stops at the first
  slot whose key satisfies \<open>stop\<close> or is null.
\<close>

partial_function (option) ht_probe ::
  "(uint64 \<Rightarrow> bool) \<Rightarrow> 'v hashlistnode list \<Rightarrow> 32 word \<Rightarrow> 32 word \<Rightarrow> nat option" where
  "ht_probe stop tbl cmask index =
     (let i = index AND cmask; k = hn_key (tbl ! unat i)
      in if stop k then Some (unat i)
         else if k = 0 then Some (unat i)
         else ht_probe stop tbl cmask (i + 1))"

text \<open>The loop over the old bins at lines 194--208; empty bins are copied too.\<close>

fun ht_rehash ::
  "nat \<Rightarrow> 32 word \<Rightarrow> ('v::zero) hashlistnode list \<Rightarrow> 'v hashlistnode list \<Rightarrow> 'v hashlistnode list option"
  where
  "ht_rehash shift cmask [] tbl = Some tbl"
| "ht_rehash shift cmask (bin # bins) tbl =
     (case ht_probe (\<lambda>_. False) tbl cmask (ht_home shift (hn_key bin)) of
        None \<Rightarrow> None
      | Some i \<Rightarrow> ht_rehash shift cmask bins
          (tbl[i := \<lparr>hn_key = hn_key bin, hn_val = hn_val bin\<rparr>]))"

definition ht_resize :: "32 word \<Rightarrow> ('v::zero) hash_table \<Rightarrow> 'v hash_table option" where
  "ht_resize newsize t =
     map_option
       (\<lambda>tbl. t\<lparr>table := tbl, capacity := newsize, capacitymask := newsize - 1,
                threshold := drop_bit 1 newsize\<rparr>)
       (ht_rehash (ht_shift t) (newsize - 1) (table t) (ht_calloc newsize))"

definition ht_put :: "uint64 \<Rightarrow> 'v \<Rightarrow> ('v::zero) hash_table \<Rightarrow> 'v hash_table option" where
  "ht_put key val t =
     (if key = 0 then None
      else do {
        t1 \<leftarrow> (if ht_size t > threshold t then ht_resize (push_bit 1 (capacity t)) t else Some t);
        i \<leftarrow> ht_probe (\<lambda>k. k = key) (table t1) (capacitymask t1) (ht_home (ht_shift t1) key);
        (if hn_key (table t1 ! i) = key
         then Some (t1\<lparr>table := (table t1)[i := (table t1 ! i)\<lparr>hn_val := val\<rparr>]\<rparr>)
         else Some (t1\<lparr>table := (table t1)[i := \<lparr>hn_key = key, hn_val = val\<rparr>],
                       ht_size := ht_size t1 + 1\<rparr>))
      })"

definition ht_get :: "uint64 \<Rightarrow> ('v::zero) hash_table \<Rightarrow> 'v option" where
  "ht_get key t =
     (if key = 0 then None
      else do {
        i \<leftarrow> ht_probe (\<lambda>k. k = key) (table t) (capacitymask t) (ht_home (ht_shift t) key);
        (if hn_key (table t ! i) = key then Some (hn_val (table t ! i)) else Some 0)
      })"

definition ht_contains :: "uint64 \<Rightarrow> ('v::zero) hash_table \<Rightarrow> bool option" where
  "ht_contains key t =
     (if key = 0 then None
      else do {
        i \<leftarrow> ht_probe (\<lambda>k. k = key) (table t) (capacitymask t) (ht_home (ht_shift t) key);
        Some (hn_key (table t ! i) = key)
      })"

section \<open>Probing\<close>

text \<open>Masking an index with \<open>2 ^ k - 1\<close> is reduction modulo the capacity.\<close>

lemma unat_mask_index:
  "unat (w AND (2 ^ k - 1)) = unat w mod 2 ^ k" for w :: "32 word"
proof -
  have "w AND (2 ^ k - 1) = take_bit k w"
    by (simp only: take_bit_eq_mask mask_eq_exp_minus_1)
  then have "unat (w AND (2 ^ k - 1)) = take_bit k (unat w)"
    by (simp only: unsigned_take_bit_eq)
  then show ?thesis by (simp only: take_bit_eq_mod)
qed

lemma unat_Suc_index:
  assumes "k < 32" and "i < 2 ^ k" and "unat w = i"
  shows "unat (w + 1 :: 32 word) = i + 1"
proof -
  have "(2::nat) ^ k \<le> 2 ^ 31" using assms(1) by (intro power_increasing) auto
  with assms(2,3) show ?thesis by (simp add: unat_word_ariths)
qed

lemma ht_probe_spec:
  assumes "cmask = 2 ^ k - 1" and "k < 32"
    and "\<And>e. e < d \<Longrightarrow> let q = hn_key (tbl ! ((unat index + e) mod 2 ^ k)) in \<not> stop q \<and> q \<noteq> 0"
    and "let q = hn_key (tbl ! ((unat index + d) mod 2 ^ k)) in stop q \<or> q = 0"
  shows "ht_probe stop tbl cmask index = Some ((unat index + d) mod 2 ^ k)"
  using assms(3,4)
proof (induction d arbitrary: index)
  case 0
  then show ?case
    by (subst ht_probe.simps) (auto simp: assms(1) unat_mask_index Let_def)
next
  case (Suc d)
  let ?i = "index AND cmask"
  have i: "unat ?i = unat index mod 2 ^ k" by (simp add: assms(1) unat_mask_index)
  have n: "unat (?i + 1) = unat index mod 2 ^ k + 1"
    by (rule unat_Suc_index [OF assms(2) _ i]) simp
  have shift: "(unat (?i + 1) + e) mod 2 ^ k = (unat index + Suc e) mod 2 ^ k" for e
    unfolding n by (metis add.commute add_Suc_right mod_add_left_eq plus_1_eq_Suc add.assoc)
  have "ht_probe stop tbl cmask (?i + 1) = Some ((unat (?i + 1) + d) mod 2 ^ k)"
    by (rule Suc.IH) (use Suc.prems in \<open>simp_all only: shift Suc_less_eq\<close>)
  moreover have "\<not> stop (hn_key (tbl ! unat ?i))" "hn_key (tbl ! unat ?i) \<noteq> 0"
    using Suc.prems(1) [of 0] by (simp_all add: i Let_def)
  ultimately show ?case by (subst ht_probe.simps) (simp add: Let_def shift)
qed

text \<open>
  A table of \<open>2 ^ k\<close> slots is well formed when no key occurs twice and every key can be reached
  from its home slot without crossing an empty slot.
\<close>

definition reaches :: "'v hashlistnode list \<Rightarrow> nat \<Rightarrow> nat \<Rightarrow> bool" where
  "reaches tbl h j \<longleftrightarrow> (\<exists>d. j = (h + d) mod length tbl \<and>
     (\<forall>e < d. hn_key (tbl ! ((h + e) mod length tbl)) \<noteq> 0 \<and> (h + e) mod length tbl \<noteq> j))"

definition tbl_ok :: "nat \<Rightarrow> nat \<Rightarrow> 'v hashlistnode list \<Rightarrow> bool" where
  "tbl_ok shift k tbl \<longleftrightarrow> k < 32 \<and> length tbl = 2 ^ k \<and>
     (\<forall>i < length tbl. \<forall>j < length tbl.
        hn_key (tbl ! i) = hn_key (tbl ! j) \<longrightarrow> hn_key (tbl ! i) \<noteq> 0 \<longrightarrow> i = j) \<and>
     (\<forall>j < length tbl. hn_key (tbl ! j) \<noteq> 0 \<longrightarrow>
        reaches tbl (unat (ht_home shift (hn_key (tbl ! j)))) j)"

definition used :: "'v hashlistnode list \<Rightarrow> nat" where
  "used tbl = count_true (map (\<lambda>e. hn_key e \<noteq> 0) tbl)"

definition tbl_map :: "'v hashlistnode list \<Rightarrow> uint64 \<Rightarrow> 'v option" where
  "tbl_map tbl key =
     (if key = 0 then None else map_option hn_val (find (\<lambda>e. hn_key e = key) tbl))"

lemma tbl_ok_length: "tbl_ok shift k tbl \<Longrightarrow> length tbl = 2 ^ k \<and> k < 32"
  by (simp add: tbl_ok_def)

lemma tbl_ok_unique:
  "tbl_ok shift k tbl \<Longrightarrow> i < length tbl \<Longrightarrow> j < length tbl \<Longrightarrow>
   hn_key (tbl ! i) = hn_key (tbl ! j) \<Longrightarrow> hn_key (tbl ! j) \<noteq> 0 \<Longrightarrow> i = j"
  by (simp add: tbl_ok_def)

lemma tbl_ok_reaches:
  "tbl_ok shift k tbl \<Longrightarrow> j < length tbl \<Longrightarrow> hn_key (tbl ! j) \<noteq> 0 \<Longrightarrow>
   reaches tbl (unat (ht_home shift (hn_key (tbl ! j)))) j"
  by (simp add: tbl_ok_def)

lemma tbl_map_present:
  assumes "tbl_ok shift k tbl" and "j < length tbl" and "hn_key (tbl ! j) = key" and "key \<noteq> 0"
  shows "tbl_map tbl key = Some (hn_val (tbl ! j))"
proof -
  have "hn_key (tbl ! i) \<noteq> key" if "i < j" for i
    using tbl_ok_unique [OF assms(1) _ assms(2), of i] that assms(2-4) by auto
  then have "find (\<lambda>e. hn_key e = key) tbl = Some (tbl ! j)"
    unfolding find_Some_iff using assms(2,3) by blast
  with assms(4) show ?thesis by (simp add: tbl_map_def)
qed

lemma tbl_map_absent:
  "(\<And>j. j < length tbl \<Longrightarrow> hn_key (tbl ! j) \<noteq> key) \<Longrightarrow> tbl_map tbl key = None"
  by (auto simp: tbl_map_def find_None_iff in_set_conv_nth)

lemma tbl_map_cases:
  assumes "tbl_ok shift k tbl" and "key \<noteq> 0"
  obtains j where "j < length tbl" "hn_key (tbl ! j) = key" "tbl_map tbl key = Some (hn_val (tbl ! j))"
  | "\<And>j. j < length tbl \<Longrightarrow> hn_key (tbl ! j) \<noteq> key" "tbl_map tbl key = None"
proof (cases "\<exists>j < length tbl. hn_key (tbl ! j) = key")
  case True
  then show ?thesis using that(1) tbl_map_present [OF assms(1)] assms(2) by blast
next
  case False
  then have a: "\<And>j. j < length tbl \<Longrightarrow> hn_key (tbl ! j) \<noteq> key" by blast
  show ?thesis by (rule that(2) [OF a tbl_map_absent [OF a]])
qed

text \<open>A probe ends as soon as there is one empty slot, wherever it starts.\<close>

lemma offset_exists: "j < (n::nat) \<Longrightarrow> \<exists>d. (h + d) mod n = j"
proof (intro exI)
  assume "j < n"
  then have "h \<le> n * h" by simp
  then have "h + (j + (n * h - h)) = j + n * h" by linarith
  with \<open>j < n\<close> show "(h + (j + (n * h - h))) mod n = j" by simp
qed

lemma ht_probe_ends:
  assumes "length tbl = 2 ^ k" and "k < 32" and "j < length tbl" and "hn_key (tbl ! j) = 0"
  shows "\<exists>d. ht_probe stop tbl (2 ^ k - 1) index = Some ((unat index + d) mod length tbl)
    \<and> (\<forall>e < d. \<not> stop (hn_key (tbl ! ((unat index + e) mod length tbl)))
              \<and> hn_key (tbl ! ((unat index + e) mod length tbl)) \<noteq> 0)
    \<and> (stop (hn_key (tbl ! ((unat index + d) mod length tbl)))
         \<or> hn_key (tbl ! ((unat index + d) mod length tbl)) = 0)"
proof -
  let ?q = "\<lambda>e. hn_key (tbl ! ((unat index + e) mod length tbl))"
  let ?P = "\<lambda>d. stop (?q d) \<or> ?q d = 0"
  obtain d0 where "(unat index + d0) mod length tbl = j"
    using offset_exists [OF assms(3)] by blast
  with assms(4) have "?P d0" by simp
  then obtain d where P: "?P d" and least: "\<forall>e < d. \<not> ?P e"
    using exists_least_iff [of ?P] by blast
  have "ht_probe stop tbl (2 ^ k - 1) index = Some ((unat index + d) mod length tbl)"
    unfolding assms(1)
    by (rule ht_probe_spec [OF refl assms(2)]) (use P least in \<open>simp_all add: assms(1) Let_def\<close>)
  with P least show ?thesis by blast
qed

lemma used_length: "used tbl < length tbl \<Longrightarrow> \<exists>j < length tbl. hn_key (tbl ! j) = 0"
proof (rule ccontr)
  assume "used tbl < length tbl" and full: "\<not> (\<exists>j < length tbl. hn_key (tbl ! j) = 0)"
  from full have "map (\<lambda>e. hn_key e \<noteq> 0) tbl = replicate (length tbl) True"
    by (intro nth_equalityI) auto
  then have "used tbl = count_true (replicate (length tbl) True)" by (simp add: used_def)
  moreover have "count_true (replicate n True) = n" for n by (induction n) auto
  ultimately show False using \<open>used tbl < length tbl\<close> by simp
qed

text \<open>A present key is found in its slot; an absent one leads to an empty slot.\<close>

lemma ht_probe_present:
  assumes ok: "tbl_ok shift k tbl" and "j < length tbl" and "hn_key (tbl ! j) = key" and "key \<noteq> 0"
  shows "ht_probe (\<lambda>q. q = key) tbl (2 ^ k - 1) (ht_home shift key) = Some j"
proof -
  have len: "length tbl = 2 ^ k" and k: "k < 32" using ok by (auto simp: tbl_ok_def)
  have "reaches tbl (unat (ht_home shift key)) j"
    using tbl_ok_reaches [OF ok assms(2)] assms(3,4) by simp
  then obtain d where d: "j = (unat (ht_home shift key) + d) mod length tbl"
    and before: "\<And>e. e < d \<Longrightarrow> hn_key (tbl ! ((unat (ht_home shift key) + e) mod length tbl)) \<noteq> 0
        \<and> (unat (ht_home shift key) + e) mod length tbl \<noteq> j"
    by (auto simp: reaches_def)
  have other: "hn_key (tbl ! i) \<noteq> key" if "i < length tbl" "i \<noteq> j" for i
    using tbl_ok_unique [OF ok that(1) assms(2)] that(2) assms(3,4) by auto
  have "ht_probe (\<lambda>q. q = key) tbl (2 ^ k - 1) (ht_home shift key)
      = Some ((unat (ht_home shift key) + d) mod 2 ^ k)"
  proof (rule ht_probe_spec [OF refl k])
    fix e
    assume e: "e < d"
    have "(unat (ht_home shift key) + e) mod length tbl < length tbl" by (simp add: len)
    with before [OF e] other show "let q = hn_key (tbl ! ((unat (ht_home shift key) + e) mod 2 ^ k))
        in q \<noteq> key \<and> q \<noteq> 0"
      by (simp add: len Let_def)
  qed (use d assms(3) in \<open>simp add: len Let_def\<close>)
  then show ?thesis by (simp add: d len)
qed

lemma ht_probe_absent:
  assumes ok: "tbl_ok shift k tbl" and "used tbl < length tbl"
    and no: "\<And>j. j < length tbl \<Longrightarrow> \<not> stop (hn_key (tbl ! j))"
  obtains j where "ht_probe stop tbl (2 ^ k - 1) index = Some j"
    and "j < length tbl" and "hn_key (tbl ! j) = 0" and "reaches tbl (unat index) j"
proof -
  have len: "length tbl = 2 ^ k" and k: "k < 32" using ok by (auto simp: tbl_ok_def)
  obtain j0 where "j0 < length tbl" "hn_key (tbl ! j0) = 0"
    using used_length [OF assms(2)] by blast
  then obtain d where p: "ht_probe stop tbl (2 ^ k - 1) index = Some ((unat index + d) mod length tbl)"
    and before: "\<And>e. e < d \<Longrightarrow> \<not> stop (hn_key (tbl ! ((unat index + e) mod length tbl)))
                   \<and> hn_key (tbl ! ((unat index + e) mod length tbl)) \<noteq> 0"
    and at: "stop (hn_key (tbl ! ((unat index + d) mod length tbl)))
         \<or> hn_key (tbl ! ((unat index + d) mod length tbl)) = 0"
    using ht_probe_ends [OF len k, of j0 stop index] by blast
  have lt: "(unat index + d) mod length tbl < length tbl" by (simp add: len)
  with at no have z: "hn_key (tbl ! ((unat index + d) mod length tbl)) = 0" by blast
  have "reaches tbl (unat index) ((unat index + d) mod length tbl)"
    unfolding reaches_def using before z by (intro exI [of _ d]) force
  then show ?thesis by (rule that [OF p lt z])
qed

section \<open>Changing one slot\<close>

lemma reaches_mono:
  "length tbl' = length tbl \<Longrightarrow>
   (\<And>i. i < length tbl \<Longrightarrow> hn_key (tbl ! i) \<noteq> 0 \<Longrightarrow> hn_key (tbl' ! i) \<noteq> 0) \<Longrightarrow>
   tbl \<noteq> [] \<Longrightarrow> reaches tbl h j \<Longrightarrow> reaches tbl' h j"
  unfolding reaches_def by (metis length_greater_0_conv mod_less_divisor)

lemma tbl_ok_keys_cong:
  assumes "tbl_ok shift k tbl" and "length tbl' = length tbl"
    and keys: "\<And>i. i < length tbl \<Longrightarrow> hn_key (tbl' ! i) = hn_key (tbl ! i)"
  shows "tbl_ok shift k tbl'"
proof -
  have len: "length tbl = 2 ^ k" "k < 32" using tbl_ok_length [OF assms(1)] by auto
  then have ne: "tbl \<noteq> []" by auto
  have "reaches tbl' (unat (ht_home shift (hn_key (tbl ! j)))) j"
    if "j < length tbl" "hn_key (tbl ! j) \<noteq> 0" for j
    by (rule reaches_mono [OF assms(2) _ ne tbl_ok_reaches [OF assms(1) that]]) (simp add: keys)
  with len tbl_ok_unique [OF assms(1)] show ?thesis
    by (simp add: tbl_ok_def assms(2) keys)
qed

lemma tbl_ok_insert:
  assumes ok: "tbl_ok shift k tbl" and j: "j < length tbl" "hn_key (tbl ! j) = 0"
    and "reaches tbl (unat (ht_home shift (hn_key e))) j"
    and new: "\<And>i. i < length tbl \<Longrightarrow> hn_key (tbl ! i) \<noteq> hn_key e"
  shows "tbl_ok shift k (tbl[j := e])"
proof -
  have len: "length tbl = 2 ^ k" "k < 32" using tbl_ok_length [OF ok] by auto
  then have ne: "tbl \<noteq> []" by auto
  have e: "hn_key e \<noteq> 0" using new [OF j(1)] j(2) by simp
  have mono: "hn_key (tbl[j := e] ! i) \<noteq> 0" if "i < length tbl" "hn_key (tbl ! i) \<noteq> 0" for i
    using that e by (cases "i = j") auto
  have "reaches (tbl[j := e]) (unat (ht_home shift (hn_key (tbl[j := e] ! i)))) i"
    if "i < length tbl" "hn_key (tbl[j := e] ! i) \<noteq> 0" for i
  proof -
    have "reaches tbl (unat (ht_home shift (hn_key (tbl[j := e] ! i)))) i"
      using assms(4) tbl_ok_reaches [OF ok that(1)] that by (cases "i = j") auto
    then show ?thesis by (rule reaches_mono [rotated 3]) (use mono ne in auto)
  qed
  moreover have "a = b" if "a < length tbl" "b < length tbl"
    "hn_key (tbl[j := e] ! a) = hn_key (tbl[j := e] ! b)" "hn_key (tbl[j := e] ! a) \<noteq> 0" for a b
    using that tbl_ok_unique [OF ok that(1,2)] new
    by (cases "a = j"; cases "b = j") auto
  ultimately show ?thesis using len by (simp add: tbl_ok_def)
qed

lemma tbl_map_update:
  assumes ok: "tbl_ok shift k tbl" and ok': "tbl_ok shift k (tbl[j := e])" and j: "j < length tbl"
    and "hn_key (tbl ! j) = 0 \<or> hn_key (tbl ! j) = hn_key e"
  shows "tbl_map (tbl[j := e]) key =
     (if key = hn_key e \<and> key \<noteq> 0 then Some (hn_val e) else tbl_map tbl key)"
proof (cases "key = 0")
  case True
  then show ?thesis by (simp add: tbl_map_def)
next
  case nz: False
  show ?thesis
  proof (cases "key = hn_key e")
    case True
    then show ?thesis using tbl_map_present [OF ok', of j key] j nz by simp
  next
    case False
    from ok nz show ?thesis
    proof (cases rule: tbl_map_cases)
      case (1 i)
      then have "i \<noteq> j" using assms(4) nz False by auto
      then show ?thesis using tbl_map_present [OF ok', of i key] 1 nz False by simp
    next
      case 2
      then have "hn_key (tbl[j := e] ! i) \<noteq> key" if "i < length (tbl[j := e])" for i
        using that False by (cases "i = j") auto
      from tbl_map_absent [OF this] 2 False show ?thesis by simp
    qed
  qed
qed

lemma used_update:
  assumes "j < length tbl"
  shows "used (tbl[j := e]) + (if hn_key (tbl ! j) \<noteq> 0 then 1 else 0)
     = used tbl + (if hn_key e \<noteq> 0 then 1 else 0)"
  using count_list_update [of j "map (\<lambda>e. hn_key e \<noteq> 0) tbl" "hn_key e \<noteq> 0" True] assms
  by (auto simp: used_def map_update)

section \<open>Rehashing\<close>

lemma tbl_map_Cons:
  "tbl_map (b # bs) key =
     (if key \<noteq> 0 \<and> hn_key b = key then Some (hn_val b) else tbl_map bs key)"
  by (simp add: tbl_map_def)

lemma used_Cons: "used (b # bs) = (if hn_key b \<noteq> 0 then 1 else 0) + used bs"
  by (simp add: used_def)

lemma ht_rehash_correct:
  assumes "tbl_ok shift k tbl" and "used tbl + used bins < length tbl"
    and "distinct (filter (\<lambda>q. q \<noteq> 0) (map hn_key bins))"
    and "\<And>b. b \<in> set bins \<Longrightarrow> hn_key b \<noteq> 0 \<Longrightarrow> tbl_map tbl (hn_key b) = None"
  shows "\<exists>tbl'. ht_rehash shift (2 ^ k - 1) bins tbl = Some tbl' \<and> tbl_ok shift k tbl' \<and>
     used tbl' = used tbl + used bins \<and>
     (\<forall>key. tbl_map tbl' key = (case tbl_map bins key of Some v \<Rightarrow> Some v | None \<Rightarrow> tbl_map tbl key))"
  using assms
proof (induction bins arbitrary: tbl)
  case Nil
  then show ?case by (simp add: used_def tbl_map_def)
next
  case (Cons b bins)
  obtain j where p: "ht_probe (\<lambda>_. False) tbl (2 ^ k - 1) (ht_home shift (hn_key b)) = Some j"
    and j: "j < length tbl" "hn_key (tbl ! j) = 0"
    and r: "reaches tbl (unat (ht_home shift (hn_key b))) j"
    using ht_probe_absent [OF Cons.prems(1), of "\<lambda>_. False" "ht_home shift (hn_key b)"]
      Cons.prems(2) by force
  let ?e = "\<lparr>hn_key = hn_key b, hn_val = hn_val b\<rparr>"
  let ?t = "tbl[j := ?e]"
  have ok: "tbl_ok shift k ?t"
  proof (cases "hn_key b = 0")
    case True
    then show ?thesis
      by (intro tbl_ok_keys_cong [OF Cons.prems(1)]) (auto simp: nth_list_update j)
  next
    case False
    have "hn_key (tbl ! i) \<noteq> hn_key b" if "i < length tbl" for i
      using Cons.prems(4) [of b] False tbl_map_present [OF Cons.prems(1) that] by force
    then show ?thesis using r j by (intro tbl_ok_insert [OF Cons.prems(1)]) auto
  qed
  have m: "tbl_map ?t key = (if key = hn_key b \<and> key \<noteq> 0 then Some (hn_val b) else tbl_map tbl key)"
    for key using tbl_map_update [OF Cons.prems(1) ok j(1), of key] j(2) by auto
  have u: "used ?t = used tbl + (if hn_key b \<noteq> 0 then 1 else 0)"
    using used_update [OF j(1), of ?e] j(2) by simp
  have later: "tbl_map ?t (hn_key c) = None" if "c \<in> set bins" "hn_key c \<noteq> 0" for c
    using that Cons.prems(3,4) by (auto simp: m) (metis image_eqI)
  obtain tbl' where "ht_rehash shift (2 ^ k - 1) bins ?t = Some tbl'" "tbl_ok shift k tbl'"
    "used tbl' = used ?t + used bins"
    "\<forall>key. tbl_map tbl' key = (case tbl_map bins key of Some v \<Rightarrow> Some v | None \<Rightarrow> tbl_map ?t key)"
    using Cons.IH [OF ok _ _ later] Cons.prems(2,3) u
    by (auto simp: used_Cons split: if_splits)
  moreover have "tbl_map bins (hn_key b) = None" if "hn_key b \<noteq> 0"
    using that Cons.prems(3) by (auto simp: tbl_map_def find_None_iff image_iff)
  ultimately show ?case
    by (auto simp: p u m used_Cons tbl_map_Cons split: option.splits)
qed

lemma distinct_filter_nth:
  "(\<And>i j. i < length xs \<Longrightarrow> j < length xs \<Longrightarrow> xs ! i = xs ! j \<Longrightarrow> P (xs ! j) \<Longrightarrow> i = j) \<Longrightarrow>
   distinct (filter P xs)"
proof (induction xs)
  case Nil
  then show ?case by simp
next
  case (Cons x xs)
  have "distinct (filter P xs)"
    by (rule Cons.IH) (use Cons.prems [of "Suc _" "Suc _"] in auto)
  moreover have "x \<notin> set xs" if "P x"
    using that Cons.prems [of "Suc _" 0] by (auto simp: in_set_conv_nth)
  ultimately show ?case by auto
qed

lemma tbl_ok_distinct:
  "tbl_ok shift k tbl \<Longrightarrow> distinct (filter (\<lambda>q. q \<noteq> 0) (map hn_key tbl))"
  by (rule distinct_filter_nth) (auto dest: tbl_ok_unique)

lemma unat_two_power:
  assumes "k < 32"
  shows "unat (2 ^ k :: 32 word) = 2 ^ k"
proof -
  have "unat (of_nat (2 ^ k) :: 32 word) = 2 ^ k mod 2 ^ 32" by (simp only: unat_of_nat) simp
  also have "(2::nat) ^ k < 2 ^ 32" using assms by (intro power_strict_increasing) auto
  then have "(2::nat) ^ k mod 2 ^ 32 = 2 ^ k" by simp
  finally show ?thesis by simp
qed

lemma tbl_ok_calloc:
  assumes "k < 32"
  shows "tbl_ok shift k (ht_calloc (2 ^ k))" and "used (ht_calloc (2 ^ k)) = 0"
    and "tbl_map (ht_calloc (2 ^ k)) key = None"
proof -
  note n = unat_two_power [OF assms]
  have z: "hn_key (ht_calloc (2 ^ k) ! i) = 0" if "i < 2 ^ k" for i
    using that by (simp add: ht_calloc_def n)
  show "tbl_ok shift k (ht_calloc (2 ^ k))"
    using assms z by (auto simp: tbl_ok_def ht_calloc_def n)
  show "used (ht_calloc (2 ^ k)) = 0"
    by (simp add: used_def ht_calloc_def)
  show "tbl_map (ht_calloc (2 ^ k)) key = None"
    by (auto simp: tbl_map_def ht_calloc_def find_None_iff)
qed

section \<open>The table as a map\<close>

text \<open>
  The invariant of a table: its slots are well formed, the derived fields agree with the
  capacity, \<open>size\<close> counts the occupied slots, and at most one entry more than half of the
  slots is occupied, so a probe always ends.
\<close>

definition ht_ok :: "('v::zero) hash_table \<Rightarrow> bool" where
  "ht_ok t \<longleftrightarrow> (\<exists>k. 2 \<le> k \<and> tbl_ok (ht_shift t) k (table t) \<and> capacity t = 2 ^ k \<and>
     capacitymask t = 2 ^ k - 1 \<and> threshold t = 2 ^ (k - 1) \<and>
     unat (ht_size t) = used (table t) \<and> used (table t) \<le> 2 ^ (k - 1) + 1)"

definition ht_map :: "('v::zero) hash_table \<Rightarrow> uint64 \<Rightarrow> 'v option" where
  "ht_map t = tbl_map (table t)"

lemma half_capacity: "1 \<le> k \<Longrightarrow> drop_bit 1 (2 ^ k :: 32 word) = 2 ^ (k - 1)" if "k < 32"
proof -
  assume "1 \<le> k"
  have "unat (drop_bit 1 (2 ^ k :: 32 word)) = drop_bit 1 (unat (2 ^ k :: 32 word))"
    by (rule unat_drop_bit_eq)
  also have "\<dots> = 2 ^ k div 2" using that by (simp add: unat_two_power drop_bit_eq_div)
  also have "\<dots> = 2 ^ (k - 1)" using \<open>1 \<le> k\<close> by (cases k) auto
  also have "\<dots> = unat (2 ^ (k - 1) :: 32 word)" using that by (simp add: unat_two_power)
  finally show ?thesis by (simp add: word_unat_eq_iff)
qed

lemma ht_ok_elim:
  assumes "ht_ok t"
  obtains k where "2 \<le> k" "k < 32" "tbl_ok (ht_shift t) k (table t)" "capacity t = 2 ^ k"
    "capacitymask t = 2 ^ k - 1" "threshold t = 2 ^ (k - 1)" "length (table t) = 2 ^ k"
    "unat (ht_size t) = used (table t)" "used (table t) \<le> 2 ^ (k - 1) + 1"
    "used (table t) < length (table t)"
proof -
  from assms obtain k where k: "2 \<le> k" "tbl_ok (ht_shift t) k (table t)" "capacity t = 2 ^ k"
    "capacitymask t = 2 ^ k - 1" "threshold t = 2 ^ (k - 1)"
    "unat (ht_size t) = used (table t)" "used (table t) \<le> 2 ^ (k - 1) + 1"
    by (auto simp: ht_ok_def)
  obtain m where m: "k = Suc (Suc m)" using k(1) by (metis Suc_le_D numeral_2_eq_2 Suc_le_mono)
  have "(2::nat) ^ (k - 1) + 1 < 2 ^ k"
    using one_le_power [of "2::nat" m] unfolding m power_Suc diff_Suc_1 by linarith
  with k tbl_ok_length [OF k(2)] show ?thesis by (intro that [of k]) auto
qed

lemma ht_ok_new:
  assumes "2 \<le> k" and "k < 32"
  shows "ht_ok (ht_new shift (2 ^ k) :: ('v::zero) hash_table)"
    and "ht_map (ht_new shift (2 ^ k) :: 'v hash_table) = Map.empty"
proof -
  have "drop_bit 1 (2 ^ k :: 32 word) = 2 ^ (k - 1)" using half_capacity [OF assms(2)] assms(1) by simp
  then show "ht_ok (ht_new shift (2 ^ k) :: 'v hash_table)"
    using tbl_ok_calloc [OF assms(2)] assms
    by (auto simp: ht_ok_def ht_new_def intro!: exI [of _ k])
  show "ht_map (ht_new shift (2 ^ k) :: 'v hash_table) = Map.empty"
    using tbl_ok_calloc [OF assms(2)] by (auto simp: ht_map_def ht_new_def fun_eq_iff)
qed

lemma ht_ok_reset:
  assumes "ht_ok t"
  shows "ht_ok (ht_reset t) \<and> ht_map (ht_reset t) = Map.empty"
proof -
  from assms obtain k where "2 \<le> k" "k < 32" "capacity t = 2 ^ k" "capacitymask t = 2 ^ k - 1"
    "threshold t = 2 ^ (k - 1)" by (rule ht_ok_elim)
  then show ?thesis
    using tbl_ok_calloc [of k]
    by (auto simp: ht_ok_def ht_map_def ht_reset_def fun_eq_iff intro!: exI [of _ k])
qed

lemma ht_probe_lookup:
  assumes "ht_ok t" and "key \<noteq> 0"
  obtains i where
    "ht_probe (\<lambda>q. q = key) (table t) (capacitymask t) (ht_home (ht_shift t) key) = Some i"
    "hn_key (table t ! i) = key" "ht_map t key = Some (hn_val (table t ! i))"
  | i where
    "ht_probe (\<lambda>q. q = key) (table t) (capacitymask t) (ht_home (ht_shift t) key) = Some i"
    "hn_key (table t ! i) = 0" "ht_map t key = None"
proof -
  from assms(1) obtain k where ok: "tbl_ok (ht_shift t) k (table t)"
    and m: "capacitymask t = 2 ^ k - 1" and u: "used (table t) < length (table t)"
    by (rule ht_ok_elim)
  show ?thesis
  proof (rule tbl_map_cases [OF ok assms(2)])
    fix j
    assume "j < length (table t)" "hn_key (table t ! j) = key"
      "tbl_map (table t) key = Some (hn_val (table t ! j))"
    then show ?thesis
      using that(1) ht_probe_present [OF ok _ _ assms(2)] by (simp add: m ht_map_def)
  next
    assume no: "\<And>j. j < length (table t) \<Longrightarrow> hn_key (table t ! j) \<noteq> key"
      and "tbl_map (table t) key = None"
    then show ?thesis
      using that(2) ht_probe_absent [OF ok u, of "\<lambda>q. q = key" "ht_home (ht_shift t) key"]
      by (simp add: m ht_map_def) metis
  qed
qed

lemma ht_get_correct:
  "ht_ok t \<Longrightarrow> key \<noteq> 0 \<Longrightarrow>
   ht_get key t = Some (case ht_map t key of None \<Rightarrow> 0 | Some v \<Rightarrow> v)"
  by (erule (1) ht_probe_lookup) (auto simp: ht_get_def)

lemma ht_contains_correct:
  "ht_ok t \<Longrightarrow> key \<noteq> 0 \<Longrightarrow> ht_contains key t = Some (key \<in> dom (ht_map t))"
  by (erule (1) ht_probe_lookup) (auto simp: ht_contains_def)

lemma case_option_Some: "(case x of None \<Rightarrow> None | Some v \<Rightarrow> Some v) = x"
  by (cases x) auto

lemma ht_resize_correct:
  assumes "ht_ok t" and "capacity t = 2 ^ k" and "k < 31"
  shows "\<exists>t'. ht_resize (push_bit 1 (capacity t)) t = Some t' \<and> ht_ok t' \<and>
     ht_map t' = ht_map t \<and> ht_size t' = ht_size t \<and> threshold t' = capacity t"
proof -
  from assms(1) obtain k' where k': "2 \<le> k'" "k' < 32" "capacity t = 2 ^ k'"
    and ok: "tbl_ok (ht_shift t) k' (table t)" and len: "length (table t) = 2 ^ k'"
    and sz: "unat (ht_size t) = used (table t)" and u: "used (table t) \<le> 2 ^ (k' - 1) + 1"
    "used (table t) < length (table t)" by (rule ht_ok_elim)
  have "k' = k"
    using k' assms(2,3) unat_two_power [of k] unat_two_power [of k'] by (simp add: word_unat_eq_iff)
  have new: "push_bit 1 (capacity t) = 2 ^ Suc k" by (simp add: assms(2) push_bit_eq_mult)
  have k1: "Suc k < 32" using assms(3) by simp
  let ?c = "ht_calloc (2 ^ Suc k) :: 'a hashlistnode list"
  note calloc = tbl_ok_calloc [OF k1]
  have lenc: "length ?c = 2 ^ Suc k" using tbl_ok_length [OF calloc(1)] by blast
  have "\<exists>tbl'. ht_rehash (ht_shift t) (2 ^ Suc k - 1) (table t) ?c = Some tbl' \<and>
      tbl_ok (ht_shift t) (Suc k) tbl' \<and> used tbl' = used ?c + used (table t) \<and>
      (\<forall>key. tbl_map tbl' key =
        (case tbl_map (table t) key of Some v \<Rightarrow> Some v | None \<Rightarrow> tbl_map ?c key))"
  proof (rule ht_rehash_correct [OF calloc(1) _ tbl_ok_distinct [OF ok]])
    show "used ?c + used (table t) < length ?c"
      unfolding calloc(2) lenc using u(2) len \<open>k' = k\<close> by simp
  qed (rule calloc(3))
  then obtain tbl' where tbl': "ht_rehash (ht_shift t) (2 ^ Suc k - 1) (table t) ?c = Some tbl'"
      "tbl_ok (ht_shift t) (Suc k) tbl'" "used tbl' = used (table t)"
    and m: "\<And>key. tbl_map tbl' key = tbl_map (table t) key"
    unfolding calloc(2,3) case_option_Some by auto
  have half: "drop_bit 1 (2 ^ Suc k :: 32 word) = 2 ^ k" using half_capacity [OF k1] by simp
  let ?t = "t\<lparr>table := tbl', capacity := 2 ^ Suc k, capacitymask := 2 ^ Suc k - 1,
              threshold := 2 ^ k\<rparr>"
  have res: "ht_resize (push_bit 1 (capacity t)) t = Some ?t"
    unfolding ht_resize_def new half tbl'(1) by simp
  have "used tbl' \<le> 2 ^ k + 1" using u(2) len \<open>k' = k\<close> tbl'(3) by simp
  then have "ht_ok ?t"
    unfolding ht_ok_def using tbl'(2,3) k'(1) \<open>k' = k\<close> sz
    by (intro exI [of _ "Suc k"]) simp
  moreover have "ht_map ?t = ht_map t" by (simp add: ht_map_def fun_eq_iff m)
  ultimately show ?thesis using res assms(2) by simp
qed

lemma ht_insert_correct:
  assumes "ht_ok t" and "key \<noteq> 0" and "ht_size t \<le> threshold t"
  shows "\<exists>t'. ht_put key val t = Some t' \<and> ht_ok t' \<and> ht_map t' = (ht_map t)(key \<mapsto> val)
     \<and> unat (ht_size t') \<le> Suc (unat (ht_size t))"
proof -
  from assms(1) obtain k where k: "2 \<le> k" "k < 32" "capacity t = 2 ^ k"
    "capacitymask t = 2 ^ k - 1" "threshold t = 2 ^ (k - 1)"
    and ok: "tbl_ok (ht_shift t) k (table t)" and sz: "unat (ht_size t) = used (table t)"
    and len: "length (table t) = 2 ^ k" and u: "used (table t) < length (table t)"
    by (rule ht_ok_elim)
  have le: "used (table t) \<le> 2 ^ (k - 1)"
    using assms(3) k(2) sz by (simp add: k(5) word_le_nat_alt unat_two_power)
  from ok assms(2) show ?thesis
  proof (cases rule: tbl_map_cases)
    case (1 j)
    let ?e = "(table t ! j)\<lparr>hn_val := val\<rparr>"
    let ?t = "t\<lparr>table := (table t)[j := ?e]\<rparr>"
    have p: "ht_probe (\<lambda>q. q = key) (table t) (capacitymask t) (ht_home (ht_shift t) key) = Some j"
      using ht_probe_present [OF ok 1(1,2) assms(2)] k(4) by simp
    have ok': "tbl_ok (ht_shift t) k ((table t)[j := ?e])"
      by (rule tbl_ok_keys_cong [OF ok]) (auto simp: nth_list_update 1(1))
    have "used ((table t)[j := ?e]) = used (table t)"
      using used_update [OF 1(1), of ?e] by (simp split: if_splits)
    then have "ht_ok ?t" unfolding ht_ok_def using k ok' sz le by (intro exI [of _ k]) simp
    moreover have "ht_map ?t = (ht_map t)(key \<mapsto> val)"
      using tbl_map_update [OF ok ok' 1(1)] 1(2) assms(2) by (auto simp: ht_map_def fun_eq_iff)
    moreover have "ht_put key val t = Some ?t"
      using assms(2,3) p 1(2) by (simp add: ht_put_def leD)
    ultimately show ?thesis by auto
  next
    case 2
    obtain j where p: "ht_probe (\<lambda>q. q = key) (table t) (2 ^ k - 1) (ht_home (ht_shift t) key) = Some j"
      and j: "j < length (table t)" "hn_key (table t ! j) = 0"
      and r: "reaches (table t) (unat (ht_home (ht_shift t) key)) j"
      using ht_probe_absent [OF ok u, of "\<lambda>q. q = key" "ht_home (ht_shift t) key"] 2(1) by blast
    let ?e = "\<lparr>hn_key = key, hn_val = val\<rparr>"
    let ?t = "t\<lparr>table := (table t)[j := ?e], ht_size := ht_size t + 1\<rparr>"
    have ok': "tbl_ok (ht_shift t) k ((table t)[j := ?e])"
      using tbl_ok_insert [OF ok j, of ?e] r 2(1) by simp
    have u': "used ((table t)[j := ?e]) = Suc (used (table t))"
      using used_update [OF j(1), of ?e] j(2) assms(2) by simp
    have "used (table t) < 2 ^ 32 - 1"
    proof -
      have "(2::nat) ^ (k - 1) \<le> 2 ^ 31" using k(2) by (intro power_increasing) auto
      with le show ?thesis by simp
    qed
    then have sz': "unat (ht_size t + 1) = Suc (used (table t))"
      using sz by (simp add: unat_word_ariths)
    have "ht_ok ?t" unfolding ht_ok_def using k ok' sz' u' le by (intro exI [of _ k]) simp
    moreover have "ht_map ?t = (ht_map t)(key \<mapsto> val)"
      using tbl_map_update [OF ok ok' j(1)] j(2) assms(2) by (auto simp: ht_map_def fun_eq_iff)
    moreover have "ht_put key val t = Some ?t"
      using assms(2,3) p j(2) k(4) by (simp add: ht_put_def leD)
    ultimately show ?thesis using sz sz' by auto
  qed
qed

lemma ht_put_resize:
  "threshold t < ht_size t \<Longrightarrow> ht_resize (push_bit 1 (capacity t)) t = Some t' \<Longrightarrow>
   ht_size t' \<le> threshold t' \<Longrightarrow> ht_put key val t = ht_put key val t'"
  by (simp add: ht_put_def leD del: push_bit_Suc push_bit_numeral)

lemma ht_put_correct:
  assumes "ht_ok t" and "key \<noteq> 0" and "unat (ht_size t) \<le> 2 ^ 30"
  shows "\<exists>t'. ht_put key val t = Some t' \<and> ht_ok t' \<and> ht_map t' = (ht_map t)(key \<mapsto> val)
     \<and> unat (ht_size t') \<le> Suc (unat (ht_size t))"
proof (cases "ht_size t \<le> threshold t")
  case True
  then show ?thesis by (rule ht_insert_correct [OF assms(1,2)])
next
  case False
  from assms(1) obtain k where k: "2 \<le> k" "k < 32" "capacity t = 2 ^ k"
    "threshold t = 2 ^ (k - 1)" "unat (ht_size t) = used (table t)"
    "used (table t) \<le> 2 ^ (k - 1) + 1" by (rule ht_ok_elim)
  have "k \<noteq> 31"
  proof
    assume "k = 31"
    with k(4) have "unat (threshold t) = 2 ^ 30" by (simp only: unat_two_power) simp
    with False assms(3) show False by (simp add: word_le_nat_alt)
  qed
  with k(2) have k31: "k < 31" by simp
  obtain t1 where t1: "ht_resize (push_bit 1 (capacity t)) t = Some t1" "ht_ok t1"
    "ht_map t1 = ht_map t" "ht_size t1 = ht_size t" "threshold t1 = capacity t"
    using ht_resize_correct [OF assms(1) k(3) k31] by blast
  have "(1::nat) \<le> 2 ^ (k - 1)" by simp
  moreover have "(2::nat) ^ k = 2 * 2 ^ (k - 1)" using k(1) by (cases k) auto
  ultimately have "used (table t) \<le> 2 ^ k" using k(6) by linarith
  then have "ht_size t1 \<le> threshold t1"
    using k(2,5) by (simp add: t1(4,5) k(3) word_le_nat_alt unat_two_power)
  then show ?thesis
    using ht_put_resize [OF _ t1(1)] ht_insert_correct [OF t1(2) assms(2)] False t1(3,4)
    by (simp add: not_le)
qed

section \<open>The interface the clients rely on\<close>

text \<open>
  The clients (\<open>actionToNode\<close>, \<open>obj_map\<close>, \<open>obj_thrd_map\<close>, \<dots>) see a partial map from
  non-null keys. \<open>put_all\<close> is a run of insertions, \<open>get_or_create\<close> the idiom of
  \<open>get_safe_ptr_action\<close> and \<open>CycleGraph::getNode\<close>: look the key up and store a fresh object
  when there is none.
\<close>

fun put_all :: "(uint64 \<Rightarrow> 'v \<Rightarrow> 't \<Rightarrow> 't option) \<Rightarrow> (uint64 \<times> 'v) list \<Rightarrow> 't \<Rightarrow> 't option" where
  "put_all put [] t = Some t"
| "put_all put ((k, v) # kvs) t = Option.bind (put k v t) (put_all put kvs)"

definition get_or_create ::
  "(uint64 \<Rightarrow> 't \<Rightarrow> 'v option) \<Rightarrow> (uint64 \<Rightarrow> 'v \<Rightarrow> 't \<Rightarrow> 't option) \<Rightarrow> uint64 \<Rightarrow> ('v::zero)
    \<Rightarrow> 't \<Rightarrow> ('v \<times> 't) option" where
  "get_or_create get put key fresh t =
     do { tmp \<leftarrow> get key t;
          (if tmp = 0 then do { t' \<leftarrow> put key fresh t; Some (fresh, t') }
           else Some (tmp, t)) }"

definition get_safe_ptr_action ::
  "('v::zero) hash_table \<Rightarrow> uint64 \<Rightarrow> 'v \<Rightarrow> ('v \<times> 'v hash_table) option" where
  "get_safe_ptr_action hash ptr fresh = get_or_create ht_get ht_put ptr fresh hash"

locale pointer_table =
  fixes invar :: "'t \<Rightarrow> bool"
    and get :: "uint64 \<Rightarrow> 't \<Rightarrow> ('v::zero) option"
    and contains :: "uint64 \<Rightarrow> 't \<Rightarrow> bool option"
    and put :: "uint64 \<Rightarrow> 'v \<Rightarrow> 't \<Rightarrow> 't option"
    and abs :: "'t \<Rightarrow> uint64 \<Rightarrow> 'v option"
    and load :: "'t \<Rightarrow> nat"
    and limit :: nat
  assumes get_abs: "invar t \<Longrightarrow> key \<noteq> 0 \<Longrightarrow>
      get key t = Some (case abs t key of None \<Rightarrow> 0 | Some v \<Rightarrow> v)"
    and contains_abs: "invar t \<Longrightarrow> key \<noteq> 0 \<Longrightarrow> contains key t = Some (key \<in> dom (abs t))"
    and put_abs: "invar t \<Longrightarrow> key \<noteq> 0 \<Longrightarrow> load t \<le> limit \<Longrightarrow>
      \<exists>t'. put key v t = Some t' \<and> invar t' \<and> abs t' = (abs t)(key \<mapsto> v)
         \<and> load t' \<le> Suc (load t)"
begin

lemma put_all_abs:
  "invar t \<Longrightarrow> 0 \<notin> fst ` set kvs \<Longrightarrow> load t + length kvs \<le> Suc limit \<Longrightarrow>
   \<exists>t'. put_all put kvs t = Some t' \<and> invar t' \<and> abs t' = abs t ++ map_of (rev kvs)"
proof (induction kvs arbitrary: t)
  case Nil
  then show ?case by simp
next
  case (Cons kv kvs)
  obtain k v where kv: "kv = (k, v)" by force
  with Cons.prems have "k \<noteq> 0" "load t \<le> limit" by auto
  then obtain t1 where t1: "put k v t = Some t1" "invar t1" "abs t1 = (abs t)(k \<mapsto> v)"
    "load t1 \<le> Suc (load t)"
    using put_abs [OF Cons.prems(1)] by blast
  have "0 \<notin> fst ` set kvs" "load t1 + length kvs \<le> Suc limit"
    using Cons.prems(2,3) t1(4) by auto
  from Cons.IH [OF t1(2) this] obtain t2 where "put_all put kvs t1 = Some t2" "invar t2"
    "abs t2 = abs t1 ++ map_of (rev kvs)"
    by blast
  then show ?case by (simp add: kv t1(1,3) del: fun_upd_apply)
qed

lemma get_or_create_abs:
  assumes "invar t" and "key \<noteq> 0" and "load t \<le> limit" and "fresh \<noteq> 0"
    and nonnull: "\<And>k v. abs t k = Some v \<Longrightarrow> v \<noteq> 0"
  shows "\<exists>v t'. get_or_create get put key fresh t = Some (v, t') \<and> invar t' \<and>
     abs t' key = Some v \<and> (v = fresh \<or> t' = t) \<and>
     abs t' = (case abs t key of None \<Rightarrow> (abs t)(key \<mapsto> fresh) | Some _ \<Rightarrow> abs t) \<and>
     get_or_create get put key fresh' t' = Some (v, t')"
proof (cases "abs t key")
  case None
  then have g: "get key t = Some 0" using get_abs [OF assms(1,2)] by simp
  obtain t' where t': "put key fresh t = Some t'" "invar t'" "abs t' = (abs t)(key \<mapsto> fresh)"
    using put_abs [OF assms(1-3)] by blast
  have "get key t' = Some fresh" using get_abs [OF t'(2) assms(2)] t'(3) by simp
  then show ?thesis using g t' None assms(4) by (simp add: get_or_create_def)
next
  case (Some v)
  then have "get key t = Some v" "v \<noteq> 0" using get_abs [OF assms(1,2)] nonnull by simp_all
  then show ?thesis using Some assms(1) by (simp add: get_or_create_def)
qed

end

interpretation ht: pointer_table ht_ok ht_get ht_contains ht_put ht_map
    "\<lambda>t. unat (ht_size t)" "2 ^ 30"
  by unfold_locales
    (erule (1) ht_get_correct, erule (1) ht_contains_correct, erule (2) ht_put_correct)

text \<open>
  C38: the hash table refines a partial map. On every well-formed table with fewer than
  2^30 entries an insertion returns (its probe loop ends, also when it has to grow the table),
  the table stays well formed, the key is bound to the new value and every other key keeps what
  it had.
\<close>

theorem hash_table_put_refines_map:
  assumes "ht_ok t" and "key \<noteq> 0" and "unat (ht_size t) \<le> 2 ^ 30"
  shows "\<exists>t'. ht_put key val t = Some t' \<and> ht_ok t' \<and> ht_get key t' = Some val \<and>
     (\<forall>k. k \<noteq> 0 \<longrightarrow> k \<noteq> key \<longrightarrow> ht_get k t' = ht_get k t \<and> ht_contains k t' = ht_contains k t) \<and>
     ht_contains key t' = Some True"
proof -
  obtain t' where t': "ht_put key val t = Some t'" "ht_ok t'" "ht_map t' = (ht_map t)(key \<mapsto> val)"
    using ht.put_abs [OF assms] by blast
  then show ?thesis
    using ht.get_abs [OF t'(2)] ht.contains_abs [OF t'(2)] ht.get_abs [OF assms(1)]
      ht.contains_abs [OF assms(1)] assms(2)
    by auto
qed

theorem hash_table_put_refines_map_witness:
  "\<exists>t' :: uint64 hash_table. ht_put 0x20 7 (ht_new 4 16) = Some t' \<and> ht_get 0x20 t' = Some 7"
proof -
  have "ht_ok (ht_new 4 16 :: uint64 hash_table)"
    using ht_ok_new(1) [of 4 4] by simp
  moreover have "unat (ht_size (ht_new 4 16 :: uint64 hash_table)) \<le> 2 ^ 30"
    by (simp add: ht_new_def)
  ultimately show ?thesis
    using hash_table_put_refines_map [of "ht_new 4 16 :: uint64 hash_table" "0x20" 7] by auto
qed

text \<open>
  Round trip through a run of insertions. Any sequence of at most 2^30 insertions of
  non-null keys into a fresh table of a power-of-two capacity of at least 4 returns, and a
  lookup then gives exactly what the sequence says: the value of the last insertion of that
  key, or 0 if there was none.
\<close>

theorem hash_table_round_trip:
  assumes "2 \<le> k" and "k < 32" and "0 \<notin> fst ` set kvs" and "length kvs \<le> 2 ^ 30"
  shows "\<exists>t. put_all ht_put kvs (ht_new shift (2 ^ k)) = Some t \<and>
     (\<forall>key. key \<noteq> 0 \<longrightarrow>
        ht_get key t = Some (case map_of (rev kvs) key of None \<Rightarrow> 0 | Some v \<Rightarrow> v) \<and>
        ht_contains key t = Some (key \<in> fst ` set kvs))"
proof -
  note new = ht_ok_new [OF assms(1,2)]
  have "unat (ht_size (ht_new shift (2 ^ k))) + length kvs \<le> Suc (2 ^ 30)"
    using assms(4) by (simp add: ht_new_def)
  then obtain t where t: "put_all ht_put kvs (ht_new shift (2 ^ k)) = Some t" "ht_ok t"
    "ht_map t = map_of (rev kvs)"
    using ht.put_all_abs [OF new(1) assms(3)] by (auto simp: new(2))
  have "ht_contains key t = Some (key \<in> fst ` set kvs)" if "key \<noteq> 0" for key
    using ht.contains_abs [OF t(2) that] by (simp add: t(3) dom_map_of_conv_image_fst)
  then show ?thesis using t ht.get_abs [OF t(2)] by auto
qed

theorem hash_table_round_trip_witness:
  "\<exists>t :: uint64 hash_table. put_all ht_put [(0x20, 1), (0x120, 2), (0x20, 3)] (ht_new 4 (2 ^ 2)) = Some t
     \<and> ht_get 0x20 t = Some 3 \<and> ht_get 0x30 t = Some 0"
proof -
  let ?kvs = "[(0x20, 1), (0x120, 2), (0x20, 3)] :: (uint64 \<times> uint64) list"
  have "0 \<notin> fst ` set ?kvs" by simp
  then obtain t where "put_all ht_put ?kvs (ht_new 4 (2 ^ 2)) = Some t"
    "\<forall>key. key \<noteq> 0 \<longrightarrow>
        ht_get key t = Some (case map_of (rev ?kvs) key of None \<Rightarrow> 0 | Some v \<Rightarrow> v)"
    using hash_table_round_trip [of 2 ?kvs 4] by auto
  then show ?thesis by (auto intro!: exI [of _ t])
qed

text \<open>
  The get-or-create idiom behind the per-object action lists. It always returns a non-null
  object bound to the key, creates one only when there was none, leaves every other key
  alone, and a second call for the same key returns the same object and changes nothing.
\<close>

theorem get_safe_ptr_action_idempotent:
  assumes "ht_ok t" and "ptr \<noteq> 0" and "unat (ht_size t) \<le> 2 ^ 30" and "fresh \<noteq> 0"
    and "\<forall>k v. ht_map t k = Some v \<longrightarrow> v \<noteq> 0"
  shows "\<exists>v t'. get_safe_ptr_action t ptr fresh = Some (v, t') \<and> ht_ok t' \<and> v \<noteq> 0 \<and>
     ht_get ptr t' = Some v \<and>
     (\<forall>k. k \<noteq> ptr \<longrightarrow> ht_map t' k = ht_map t k) \<and>
     (ht_get ptr t \<noteq> Some 0 \<longrightarrow> t' = t) \<and>
     get_safe_ptr_action t' ptr fresh' = Some (v, t')"
proof -
  obtain v t' where r: "get_or_create ht_get ht_put ptr fresh t = Some (v, t')" "ht_ok t'"
    "ht_map t' ptr = Some v" "v = fresh \<or> t' = t"
    "ht_map t' = (case ht_map t ptr of None \<Rightarrow> (ht_map t)(ptr \<mapsto> fresh) | Some _ \<Rightarrow> ht_map t)"
    "get_or_create ht_get ht_put ptr fresh' t' = Some (v, t')"
    using ht.get_or_create_abs [OF assms(1-4), of fresh'] assms(5) by blast
  have "v \<noteq> 0" using r(3,4) assms(4,5) by auto
  moreover have "t' = t" if "ht_get ptr t \<noteq> Some 0"
    using that r(1) ht.get_abs [OF assms(1,2)] by (auto simp: get_or_create_def)
  ultimately show ?thesis
    using r ht.get_abs [OF r(2) assms(2)]
    by (auto simp: get_safe_ptr_action_def split: option.splits)
qed

theorem get_safe_ptr_action_idempotent_witness:
  "\<exists>v t'. get_safe_ptr_action (ht_new 4 16 :: uint64 hash_table) 0x40 9 = Some (v, t') \<and>
     get_safe_ptr_action t' 0x40 11 = Some (v, t')"
proof -
  have "ht_ok (ht_new 4 16 :: uint64 hash_table)" "ht_map (ht_new 4 16 :: uint64 hash_table) = Map.empty"
    using ht_ok_new [of 4 4] by simp_all
  moreover have "unat (ht_size (ht_new 4 16 :: uint64 hash_table)) \<le> 2 ^ 30"
    by (simp add: ht_new_def)
  ultimately show ?thesis
    using get_safe_ptr_action_idempotent [of "ht_new 4 16 :: uint64 hash_table" "0x40" 9 11] by auto
qed

end
