(* ===== verification/ClockVector.thy ===== *)
theory ClockVector
  imports Prelude
begin

text \<open>
  \<open>clockvector.cc\<close>: vector clocks. A \<open>ClockVector\<close> holds \<open>num_threads\<close> clocks in a
  heap array of exactly that length, so the object is the list of its clocks and
  \<open>num_threads\<close> is its length. The action passed to the constructor and to
  \<open>synchronized_since\<close> is read only through its thread id and its sequence number.
\<close>

type_synonym clock_vector = "modelclock_t list"

definition cv_new :: "clock_vector option \<Rightarrow> thread_id_t \<Rightarrow> modelclock_t \<Rightarrow> clock_vector" where
  "cv_new parent tid seq =
     (let n0 = tid + 1;
          n = (case parent of None \<Rightarrow> n0 | Some p \<Rightarrow> if length p > n0 then length p else n0);
          clock = (case parent of None \<Rightarrow> replicate n 0 | Some p \<Rightarrow> p @ replicate (n - length p) 0)
      in clock[tid := seq])"

definition getClock :: "clock_vector \<Rightarrow> thread_id_t \<Rightarrow> modelclock_t" where
  "getClock cv tid = (if tid < length cv then cv ! tid else 0)"

definition synchronized_since :: "clock_vector \<Rightarrow> thread_id_t \<Rightarrow> modelclock_t \<Rightarrow> bool" where
  "synchronized_since cv tid seq = (if tid < length cv then seq \<le> cv ! tid else False)"

text \<open>The element-wise maximum: the loop at lines 54--58, with the flag \<open>changed\<close>.\<close>

fun merge_loop :: "clock_vector \<Rightarrow> clock_vector \<Rightarrow> bool \<times> clock_vector" where
  "merge_loop clock [] = (False, clock)"
| "merge_loop [] (c # cs) = (False, [])"
| "merge_loop (k # ks) (c # cs) =
     (let (changed, rest) = merge_loop ks cs
      in if c > k then (True, c # rest) else (changed, k # rest))"

definition cv_merge :: "clock_vector \<Rightarrow> clock_vector \<Rightarrow> bool \<times> clock_vector" where
  "cv_merge clock cv =
     merge_loop (if length cv > length clock
                 then clock @ replicate (length cv - length clock) 0 else clock) cv"

section \<open>Observations\<close>

lemma getClock_Nil [clock_simps, simp]: "getClock [] t = 0"
  by (simp add: getClock_def)

lemma getClock_Cons [clock_simps]:
  "getClock (k # ks) t = (case t of 0 \<Rightarrow> k | Suc u \<Rightarrow> getClock ks u)"
  by (simp add: getClock_def split: nat.splits)

lemma getClock_pad [clock_simps]: "getClock (cv @ replicate n 0) t = getClock cv t"
  by (auto simp: getClock_def nth_append)

lemma getClock_update [clock_simps]:
  "i < length cv \<Longrightarrow> getClock (cv[i := c]) t = (if i = t then c else getClock cv t)"
  by (auto simp: getClock_def)

lemma getClock_zeros [clock_simps]: "getClock (replicate n 0) t = 0"
  by (simp add: getClock_def)

lemma length_cv_new [clock_simps]:
  "length (cv_new parent tid seq)
     = max (Suc tid) (case parent of None \<Rightarrow> 0 | Some p \<Rightarrow> length p)"
  by (auto simp: cv_new_def Let_def max_def split: option.splits)

lemma getClock_cv_new [clock_simps]:
  "getClock (cv_new parent tid seq) t =
     (if t = tid then seq else case parent of None \<Rightarrow> 0 | Some p \<Rightarrow> getClock p t)"
  by (auto simp: cv_new_def Let_def getClock_update getClock_pad getClock_zeros
      simp del: replicate_Suc split: option.splits)

lemma synchronized_since_getClock:
  "tid < length cv \<or> seq \<noteq> 0 \<Longrightarrow> synchronized_since cv tid seq \<longleftrightarrow> seq \<le> getClock cv tid"
  by (auto simp: synchronized_since_def getClock_def)

lemma length_merge_loop: "length (snd (merge_loop ks cs)) = length ks"
  by (induction ks cs rule: merge_loop.induct) (auto split: prod.splits)

lemma getClock_merge_loop:
  "length cs \<le> length ks \<Longrightarrow>
   getClock (snd (merge_loop ks cs)) t = max (getClock ks t) (getClock cs t)"
proof (induction ks cs arbitrary: t rule: merge_loop.induct)
  case (3 k ks c cs)
  then show ?case
    by (cases t) (auto simp: getClock_Cons max_def split: prod.splits)
qed auto

lemma merge_loop_changed:
  "length cs \<le> length ks \<Longrightarrow> fst (merge_loop ks cs) \<longleftrightarrow> snd (merge_loop ks cs) \<noteq> ks"
  by (induction ks cs rule: merge_loop.induct) (auto split: prod.splits)

lemma length_cv_merge [clock_simps]:
  "length (snd (cv_merge a b)) = max (length a) (length b)"
  by (simp add: cv_merge_def length_merge_loop max_def)

lemma getClock_cv_merge [clock_simps]:
  "getClock (snd (cv_merge a b)) t = max (getClock a t) (getClock b t)"
  by (simp add: cv_merge_def getClock_merge_loop getClock_pad)

text \<open>Two vectors with the same length and the same clocks are the same object state.\<close>

lemma clock_vector_eqI:
  assumes "length a = length b" and "\<And>t. getClock a t = getClock b t"
  shows "a = b"
proof (rule nth_equalityI)
  show "length a = length b" by (rule assms(1))
  show "a ! i = b ! i" if "i < length a" for i
    using assms(2) [of i] that assms(1) by (simp add: getClock_def)
qed

lemma clock_vector_eq_iff:
  "length a = length b \<Longrightarrow> a = b \<longleftrightarrow> (\<forall>t. getClock a t = getClock b t)"
  by (auto intro: clock_vector_eqI)

text \<open>The pointwise order of clock vectors, the order in which happens-before grows.\<close>

definition cv_le :: "clock_vector \<Rightarrow> clock_vector \<Rightarrow> bool" where
  "cv_le a b \<longleftrightarrow> (\<forall>t. getClock a t \<le> getClock b t)"

lemma cv_le_refl [simp, intro]: "cv_le a a"
  by (simp add: cv_le_def)

lemma cv_le_trans [trans]: "cv_le a b \<Longrightarrow> cv_le b c \<Longrightarrow> cv_le a c"
  by (meson cv_le_def order_trans)

lemma cv_le_merge1 [intro]: "cv_le a (snd (cv_merge a b))"
  by (simp add: cv_le_def getClock_cv_merge)

lemma cv_le_merge2 [intro]: "cv_le b (snd (cv_merge a b))"
  by (simp add: cv_le_def getClock_cv_merge)

lemma cv_merge_least: "cv_le a c \<Longrightarrow> cv_le b c \<Longrightarrow> cv_le (snd (cv_merge a b)) c"
  by (simp add: cv_le_def getClock_cv_merge)

lemma cv_le_iff: "cv_le a b \<longleftrightarrow> (\<forall>i < length a. a ! i \<le> getClock b i)"
  by (force simp: cv_le_def getClock_def)

lemma cv_merge_changed: "fst (cv_merge a b) \<longleftrightarrow> \<not> cv_le b a"
proof -
  let ?a = "if length b > length a then a @ replicate (length b - length a) 0 else a"
  have m: "cv_merge a b = merge_loop ?a b" by (simp add: cv_merge_def)
  have pad: "getClock ?a t = getClock a t" for t by (simp add: getClock_pad)
  have g: "getClock (snd (merge_loop ?a b)) t = max (getClock a t) (getClock b t)" for t
    using getClock_cv_merge [of a b t] by (simp only: m)
  have mx: "max x y = x \<longleftrightarrow> y \<le> x" for x y :: modelclock_t
    by (rule max.absorb_iff1 [symmetric])
  have "fst (cv_merge a b) \<longleftrightarrow> snd (merge_loop ?a b) \<noteq> ?a"
    unfolding m by (rule merge_loop_changed) simp
  also have "snd (merge_loop ?a b) = ?a
      \<longleftrightarrow> (\<forall>t. getClock (snd (merge_loop ?a b)) t = getClock ?a t)"
    by (rule clock_vector_eq_iff) (rule length_merge_loop)
  also have "\<dots> \<longleftrightarrow> cv_le b a" unfolding g pad mx cv_le_def ..
  finally show ?thesis .
qed

text \<open>
  \<open>ClockVector::merge\<close> computes the least upper bound of the two vectors in the
  pointwise order, its length is the larger of the two, and it returns \<open>changed\<close> exactly
  when the argument was not already below the receiver.
\<close>

theorem cv_merge_lub:
  "cv_le a (snd (cv_merge a b)) \<and> cv_le b (snd (cv_merge a b)) \<and>
   (\<forall>c. cv_le a c \<longrightarrow> cv_le b c \<longrightarrow> cv_le (snd (cv_merge a b)) c) \<and>
   length (snd (cv_merge a b)) = max (length a) (length b) \<and>
   (fst (cv_merge a b) \<longleftrightarrow> \<not> cv_le b a)"
  by (simp add: cv_merge_changed cv_le_merge1 cv_le_merge2 cv_merge_least length_cv_merge)

theorem cv_merge_lub_witness:
  "fst (cv_merge [1, 5] [2, 3, 4 :: modelclock_t]) \<and>
   cv_le (snd (cv_merge [1, 5] [2, 3, 4])) [2, 5, 4, 0]"
proof -
  have "cv_le [1, 5] [2, 5, 4, 0 :: modelclock_t]" "cv_le [2, 3, 4] [2, 5, 4, 0 :: modelclock_t]"
    "\<not> cv_le [2, 3, 4] [1, 5 :: modelclock_t]"
    by (auto simp: cv_le_iff getClock_def less_Suc_eq nth_Cons split: nat.splits)
  then show ?thesis using cv_merge_lub [of "[1, 5]" "[2, 3, 4]"] by blast
qed

end
