(* ===== verification/Actions.thy ===== *)
theory Actions
  imports ClockVector
begin

text \<open>
  \<open>action.h\<close> / \<open>action.cc\<close>: the \<open>ModelAction\<close> object, its predicates and the
  operations on a single action. An action is a record; the pointers it holds to other
  actions and promises are their numbers, so functions that follow such a pointer take the
  store of actions (\<open>aid \<rightharpoonup> model_action\<close>) they are read from. A failing \<open>ASSERT\<close> is
  the result \<open>None\<close>.
\<close>

section \<open>Data\<close>

datatype action_type =
    MODEL_FIXUP_RELSEQ
  | THREAD_CREATE | THREAD_START | THREAD_YIELD | THREAD_JOIN | THREAD_FINISH
  | ATOMIC_UNINIT | ATOMIC_READ | ATOMIC_WRITE | ATOMIC_RMWR | ATOMIC_RMW | ATOMIC_RMWC
  | ATOMIC_INIT | ATOMIC_FENCE | ATOMIC_LOCK | ATOMIC_TRYLOCK | ATOMIC_UNLOCK
  | ATOMIC_NOTIFY_ONE | ATOMIC_NOTIFY_ALL | ATOMIC_WAIT | ATOMIC_ANNOTATION

text \<open>
  \<open>memory_order\<close> has the five enumerators of \<open>memoryorder.h\<close>; \<open>wildcard.h\<close> casts further
  integers to the type (\<open>0x1000 + x\<close>, \<open>0x2000\<close> and \<open>-1\<close>), which are constructors here.
  \<open>mo_val\<close> is the integer value.
\<close>

datatype memory_order =
    memory_order_relaxed | memory_order_acquire | memory_order_release
  | memory_order_acq_rel | memory_order_seq_cst
  | memory_order_normal | memory_order_wildcard nat | WILDCARD_NONEXIST

fun mo_val :: "memory_order \<Rightarrow> 32 word" where
  "mo_val memory_order_relaxed = 0"
| "mo_val memory_order_acquire = 1"
| "mo_val memory_order_release = 2"
| "mo_val memory_order_acq_rel = 3"
| "mo_val memory_order_seq_cst = 4"
| "mo_val memory_order_normal = 0x2000"
| "mo_val (memory_order_wildcard x) = 0x1000 + of_nat x"
| "mo_val WILDCARD_NONEXIST = - 1"

definition VALUE_NONE :: uint64 where "VALUE_NONE = 0xdeadbeef"
definition FENCE_LOCATION :: uint64 where "FENCE_LOCATION = 7"
definition ACTION_INITIAL_CLOCK :: modelclock_t where "ACTION_INITIAL_CLOCK = 0"
definition VALUE_TRYSUCCESS :: uint64 where "VALUE_TRYSUCCESS = 1"
definition VALUE_TRYFAILED :: uint64 where "VALUE_TRYFAILED = 0"

record model_action =
  act_type :: action_type
  order :: memory_order
  original_order :: memory_order
  location :: uint64
  tid :: thread_id_t
  act_value :: uint64
  reads_from :: "aid option"
  reads_from_promise :: "pid option"
  last_fence_release :: "aid option"
  act_node :: "nat option"
  seq_number :: modelclock_t
  cv :: "clock_vector option"
  sleep_flag :: bool

type_synonym action_store = "aid \<rightharpoonup> model_action"

definition ModelAction_new ::
  "action_type \<Rightarrow> memory_order \<Rightarrow> uint64 \<Rightarrow> uint64 \<Rightarrow> thread_id_t \<Rightarrow> model_action option" where
  "ModelAction_new ty ord loc val t =
     (if loc \<noteq> 0 \<or> ty = ATOMIC_FENCE \<or> ty = MODEL_FIXUP_RELSEQ
      then Some \<lparr>act_type = ty, order = ord, original_order = ord, location = loc, tid = t,
                 act_value = val, reads_from = None, reads_from_promise = None,
                 last_fence_release = None, act_node = None,
                 seq_number = ACTION_INITIAL_CLOCK, cv = None, sleep_flag = False\<rparr>
      else None)"

section \<open>Classification\<close>

definition is_thread_start :: "model_action \<Rightarrow> bool" where
  "is_thread_start a \<longleftrightarrow> act_type a = THREAD_START"
definition is_thread_join :: "model_action \<Rightarrow> bool" where
  "is_thread_join a \<longleftrightarrow> act_type a = THREAD_JOIN"
definition is_relseq_fixup :: "model_action \<Rightarrow> bool" where
  "is_relseq_fixup a \<longleftrightarrow> act_type a = MODEL_FIXUP_RELSEQ"
definition is_mutex_op :: "model_action \<Rightarrow> bool" where
  "is_mutex_op a \<longleftrightarrow> act_type a = ATOMIC_LOCK \<or> act_type a = ATOMIC_TRYLOCK
     \<or> act_type a = ATOMIC_UNLOCK \<or> act_type a = ATOMIC_WAIT
     \<or> act_type a = ATOMIC_NOTIFY_ONE \<or> act_type a = ATOMIC_NOTIFY_ALL"
definition is_lock :: "model_action \<Rightarrow> bool" where
  "is_lock a \<longleftrightarrow> act_type a = ATOMIC_LOCK"
definition is_wait :: "model_action \<Rightarrow> bool" where
  "is_wait a \<longleftrightarrow> act_type a = ATOMIC_WAIT"
definition is_notify :: "model_action \<Rightarrow> bool" where
  "is_notify a \<longleftrightarrow> act_type a = ATOMIC_NOTIFY_ONE \<or> act_type a = ATOMIC_NOTIFY_ALL"
definition is_notify_one :: "model_action \<Rightarrow> bool" where
  "is_notify_one a \<longleftrightarrow> act_type a = ATOMIC_NOTIFY_ONE"
definition is_unlock :: "model_action \<Rightarrow> bool" where
  "is_unlock a \<longleftrightarrow> act_type a = ATOMIC_UNLOCK"
definition is_trylock :: "model_action \<Rightarrow> bool" where
  "is_trylock a \<longleftrightarrow> act_type a = ATOMIC_TRYLOCK"
definition is_success_lock :: "model_action \<Rightarrow> bool" where
  "is_success_lock a \<longleftrightarrow> act_type a = ATOMIC_LOCK
     \<or> (act_type a = ATOMIC_TRYLOCK \<and> act_value a = VALUE_TRYSUCCESS)"
definition is_failed_trylock :: "model_action \<Rightarrow> bool" where
  "is_failed_trylock a \<longleftrightarrow> act_type a = ATOMIC_TRYLOCK \<and> act_value a = VALUE_TRYFAILED"
definition is_uninitialized :: "model_action \<Rightarrow> bool" where
  "is_uninitialized a \<longleftrightarrow> act_type a = ATOMIC_UNINIT"
definition is_read :: "model_action \<Rightarrow> bool" where
  "is_read a \<longleftrightarrow> act_type a = ATOMIC_READ \<or> act_type a = ATOMIC_RMWR \<or> act_type a = ATOMIC_RMW"
definition is_write :: "model_action \<Rightarrow> bool" where
  "is_write a \<longleftrightarrow> act_type a = ATOMIC_WRITE \<or> act_type a = ATOMIC_RMW
     \<or> act_type a = ATOMIC_INIT \<or> act_type a = ATOMIC_UNINIT"
definition is_rmwr :: "model_action \<Rightarrow> bool" where
  "is_rmwr a \<longleftrightarrow> act_type a = ATOMIC_RMWR"
definition could_be_write :: "model_action \<Rightarrow> bool" where
  "could_be_write a \<longleftrightarrow> is_write a \<or> is_rmwr a"
definition is_atomic_var :: "model_action \<Rightarrow> bool" where
  "is_atomic_var a \<longleftrightarrow> is_read a \<or> could_be_write a"
definition is_yield :: "model_action \<Rightarrow> bool" where
  "is_yield a \<longleftrightarrow> act_type a = THREAD_YIELD"
definition is_rmw :: "model_action \<Rightarrow> bool" where
  "is_rmw a \<longleftrightarrow> act_type a = ATOMIC_RMW"
definition is_rmwc :: "model_action \<Rightarrow> bool" where
  "is_rmwc a \<longleftrightarrow> act_type a = ATOMIC_RMWC"
definition is_fence :: "model_action \<Rightarrow> bool" where
  "is_fence a \<longleftrightarrow> act_type a = ATOMIC_FENCE"
definition is_initialization :: "model_action \<Rightarrow> bool" where
  "is_initialization a \<longleftrightarrow> act_type a = ATOMIC_INIT"
definition is_annotation :: "model_action \<Rightarrow> bool" where
  "is_annotation a \<longleftrightarrow> act_type a = ATOMIC_ANNOTATION"
definition is_relaxed :: "model_action \<Rightarrow> bool" where
  "is_relaxed a \<longleftrightarrow> order a = memory_order_relaxed"
definition is_acquire :: "model_action \<Rightarrow> bool" where
  "is_acquire a = (case order a of
       memory_order_acquire \<Rightarrow> True | memory_order_acq_rel \<Rightarrow> True
     | memory_order_seq_cst \<Rightarrow> True | _ \<Rightarrow> False)"
definition is_release :: "model_action \<Rightarrow> bool" where
  "is_release a = (case order a of
       memory_order_release \<Rightarrow> True | memory_order_acq_rel \<Rightarrow> True
     | memory_order_seq_cst \<Rightarrow> True | _ \<Rightarrow> False)"
definition is_seqcst :: "model_action \<Rightarrow> bool" where
  "is_seqcst a \<longleftrightarrow> order a = memory_order_seq_cst"

lemmas [action_defs] =
  is_thread_start_def is_thread_join_def is_relseq_fixup_def is_mutex_op_def is_lock_def
  is_wait_def is_notify_def is_notify_one_def is_unlock_def is_trylock_def is_success_lock_def
  is_failed_trylock_def is_uninitialized_def is_read_def is_write_def is_rmwr_def
  could_be_write_def is_atomic_var_def is_yield_def is_rmw_def is_rmwc_def is_fence_def
  is_initialization_def is_annotation_def is_relaxed_def is_acquire_def is_release_def
  is_seqcst_def

lemma is_rmw_read_write: "is_rmw a \<Longrightarrow> is_read a \<and> is_write a"
  by (simp add: action_defs)

lemma is_seqcst_acquire_release: "is_seqcst a \<Longrightarrow> is_acquire a \<and> is_release a"
  by (simp add: action_defs)

section \<open>Relations between two actions\<close>

definition same_var :: "model_action \<Rightarrow> model_action \<Rightarrow> bool" where
  "same_var this act =
     (if is_wait act \<or> is_wait this then
        if is_wait act \<and> is_wait this \<and> act_value this = act_value act then True
        else if \<not> (is_wait act \<and> is_wait this) \<and> is_wait this \<and> act_value this = location act
          then True
        else if \<not> (is_wait act \<and> is_wait this) \<and> \<not> is_wait this \<and> is_wait act
            \<and> location this = act_value act then True
        else location this = location act
      else location this = location act)"

definition same_thread :: "model_action \<Rightarrow> model_action \<Rightarrow> bool" where
  "same_thread this act \<longleftrightarrow> tid this = tid act"

definition could_synchronize_with :: "model_action \<Rightarrow> model_action \<Rightarrow> bool" where
  "could_synchronize_with this act =
     (if same_thread this act then False
      else if \<not> same_var this act \<and> \<not> is_fence this \<and> \<not> is_fence act then False
      else if (could_be_write this \<or> could_be_write act \<or> is_fence this \<or> is_fence act)
          \<and> is_seqcst this \<and> is_seqcst act then True
      else if is_acquire this \<and> is_release act \<and> is_read this \<and> could_be_write act then True
      else if (is_lock this \<or> is_trylock this) \<and> (is_unlock act \<or> is_wait act) then True
      else if is_trylock this \<and> is_success_lock act then True
      else if is_unlock this \<and> (is_trylock act \<or> is_lock act) then True
      else if is_trylock this \<and> (is_unlock act \<or> is_wait act) then True
      else if is_notify this \<and> is_wait act then True
      else if is_wait this \<and> is_notify act then True
      else False)"

definition is_conflicting_lock :: "model_action \<Rightarrow> model_action \<Rightarrow> bool" where
  "is_conflicting_lock this act =
     (if same_thread this act then False
      else if is_success_lock act then True
      else if is_unlock act \<and> is_trylock this \<and> act_value this = VALUE_TRYSUCCESS then True
      else if is_wait act \<and> is_trylock this \<and> act_value this = VALUE_TRYSUCCESS then True
      else False)"

text \<open>\<open>operator <\<close> and \<open>operator >\<close> compare sequence numbers.\<close>

definition act_less :: "model_action \<Rightarrow> model_action \<Rightarrow> bool" where
  "act_less a b \<longleftrightarrow> seq_number a < seq_number b"

text \<open>
  \<open>happens_before\<close> and \<open>has_synchronized_with\<close> read a clock vector; on an action that has
  none yet the C++ dereferences a null pointer, so they are asked only of actions with one.
\<close>

definition cv_of :: "model_action \<Rightarrow> clock_vector" where
  "cv_of a = (case cv a of None \<Rightarrow> [] | Some c \<Rightarrow> c)"

definition has_synchronized_with :: "model_action \<Rightarrow> model_action \<Rightarrow> bool" where
  "has_synchronized_with this act = synchronized_since (cv_of this) (tid act) (seq_number act)"

definition happens_before :: "model_action \<Rightarrow> model_action \<Rightarrow> bool" where
  "happens_before this act = synchronized_since (cv_of act) (tid this) (seq_number this)"

lemma same_var_sym: "same_var a b \<longleftrightarrow> same_var b a"
  by (auto simp: same_var_def)

lemma same_thread_sym: "same_thread a b \<longleftrightarrow> same_thread b a"
  by (auto simp: same_thread_def)

lemma could_synchronize_with_threads: "could_synchronize_with a b \<Longrightarrow> tid a \<noteq> tid b"
  by (simp add: could_synchronize_with_def same_thread_def split: if_splits)

lemma could_synchronize_with_place:
  "could_synchronize_with a b \<Longrightarrow> same_var a b \<or> is_fence a \<or> is_fence b"
  by (simp add: could_synchronize_with_def split: if_splits)

section \<open>Operations that change an action\<close>

definition copy_from_new :: "model_action \<Rightarrow> model_action \<Rightarrow> model_action" where
  "copy_from_new this newaction = this\<lparr>seq_number := seq_number newaction\<rparr>"

definition set_seq_number :: "modelclock_t \<Rightarrow> model_action \<Rightarrow> model_action option" where
  "set_seq_number num a =
     (if is_uninitialized a then None
      else if seq_number a \<noteq> ACTION_INITIAL_CLOCK then None
      else Some (a\<lparr>seq_number := num\<rparr>))"

definition copy_typeandorder :: "model_action \<Rightarrow> model_action \<Rightarrow> model_action" where
  "copy_typeandorder this act = this\<lparr>act_type := act_type act, order := order act\<rparr>"

definition action_process_rmw :: "model_action \<Rightarrow> model_action \<Rightarrow> model_action" where
  "action_process_rmw this act =
     (let this1 = this\<lparr>order := order act\<rparr>
      in if is_rmwc act then this1\<lparr>act_type := ATOMIC_READ\<rparr>
         else if is_rmw act then this1\<lparr>act_type := ATOMIC_RMW, act_value := act_value act\<rparr>
         else this1)"

definition create_cv :: "model_action option \<Rightarrow> model_action \<Rightarrow> model_action" where
  "create_cv parent this =
     (case parent of
        Some p \<Rightarrow> this\<lparr>cv := Some (cv_new (cv p) (tid this) (seq_number this))\<rparr>
      | None \<Rightarrow> this\<lparr>cv := Some (cv_new None (tid this) (seq_number this))\<rparr>)"

definition set_try_lock :: "bool \<Rightarrow> model_action \<Rightarrow> model_action" where
  "set_try_lock obtainedlock a =
     a\<lparr>act_value := (if obtainedlock then VALUE_TRYSUCCESS else VALUE_TRYFAILED)\<rparr>"

text \<open>
  \<open>set_read_from\<close> also reports a bug when the store read from is the uninitialized one; the
  report is the second component.
\<close>

definition set_read_from ::
  "action_store \<Rightarrow> aid \<Rightarrow> model_action \<Rightarrow> (model_action \<times> bool) option" where
  "set_read_from acts rf this =
     (case acts rf of None \<Rightarrow> None
      | Some act \<Rightarrow>
          Some (this\<lparr>reads_from := Some rf, reads_from_promise := None\<rparr>, is_uninitialized act))"

definition set_read_from_promise :: "pid \<Rightarrow> model_action \<Rightarrow> model_action option" where
  "set_read_from_promise p this =
     (if is_read this then Some (this\<lparr>reads_from_promise := Some p, reads_from := None\<rparr>)
      else None)"

text \<open>\<open>synchronize_with\<close> refuses an action that is later in the execution order.\<close>

definition synchronize_with :: "model_action \<Rightarrow> model_action \<Rightarrow> bool \<times> model_action" where
  "synchronize_with this act =
     (if act_less this act then (False, this)
      else (True, this\<lparr>cv := Some (snd (cv_merge (cv_of this) (cv_of act)))\<rparr>))"

section \<open>Values\<close>

definition get_write_value :: "model_action \<Rightarrow> uint64 option" where
  "get_write_value a = (if is_write a then Some (act_value a) else None)"

definition get_reads_from_value ::
  "action_store \<Rightarrow> (pid \<Rightarrow> uint64) \<Rightarrow> model_action \<Rightarrow> uint64 option" where
  "get_reads_from_value acts promise_value a =
     (if \<not> is_read a then None
      else case reads_from a of
        Some rf \<Rightarrow> Option.bind (acts rf) get_write_value
      | None \<Rightarrow> (case reads_from_promise a of
            Some p \<Rightarrow> Some (promise_value p)
          | None \<Rightarrow> Some VALUE_NONE))"

definition get_return_value ::
  "action_store \<Rightarrow> (pid \<Rightarrow> uint64) \<Rightarrow> model_action \<Rightarrow> uint64 option" where
  "get_return_value acts promise_value a =
     (if is_read a then get_reads_from_value acts promise_value a
      else if is_write a then get_write_value a
      else Some (act_value a))"

definition get_mutex :: "model_action \<Rightarrow> uint64 option" where
  "get_mutex a =
     (if is_trylock a \<or> is_lock a \<or> is_unlock a then Some (location a)
      else if is_wait a then Some (act_value a)
      else None)"

text \<open>
  \<open>get_thread_operand\<close>: a create action's location is a \<open>thrd_t\<close> whose field \<open>priv\<close>
  holds the thread, a join action's location is the thread itself.
\<close>

definition get_thread_operand ::
  "(uint64 \<Rightarrow> 'thread) \<Rightarrow> (uint64 \<Rightarrow> 'thread) \<Rightarrow> model_action \<Rightarrow> 'thread option" where
  "get_thread_operand thrd_priv as_thread a =
     (if act_type a = THREAD_CREATE then Some (thrd_priv (location a))
      else if act_type a = THREAD_JOIN then Some (as_thread (location a))
      else None)"

fun type_index :: "action_type \<Rightarrow> 32 word" where
  "type_index MODEL_FIXUP_RELSEQ = 0"
| "type_index THREAD_CREATE = 1"
| "type_index THREAD_START = 2"
| "type_index THREAD_YIELD = 3"
| "type_index THREAD_JOIN = 4"
| "type_index THREAD_FINISH = 5"
| "type_index ATOMIC_UNINIT = 6"
| "type_index ATOMIC_READ = 7"
| "type_index ATOMIC_WRITE = 8"
| "type_index ATOMIC_RMWR = 9"
| "type_index ATOMIC_RMW = 10"
| "type_index ATOMIC_RMWC = 11"
| "type_index ATOMIC_INIT = 12"
| "type_index ATOMIC_FENCE = 13"
| "type_index ATOMIC_LOCK = 14"
| "type_index ATOMIC_TRYLOCK = 15"
| "type_index ATOMIC_UNLOCK = 16"
| "type_index ATOMIC_NOTIFY_ONE = 17"
| "type_index ATOMIC_NOTIFY_ALL = 18"
| "type_index ATOMIC_WAIT = 19"
| "type_index ATOMIC_ANNOTATION = 20"

text \<open>
  \<open>hash\<close>: the shifts are on 32-bit values, the value read is a \<open>uint64_t\<close> whose low half
  survives the assignment. \<open>promise_index\<close> is \<open>Promise::get_index\<close>, an \<open>int\<close>.
\<close>

definition act_hash ::
  "action_store \<Rightarrow> (pid \<Rightarrow> uint64) \<Rightarrow> (pid \<Rightarrow> int) \<Rightarrow> model_action \<Rightarrow> 32 word option" where
  "act_hash acts promise_value promise_index a =
     (let h0 = type_index (act_type a);
          h1 = h0 XOR push_bit 3 (mo_val (order a));
          h2 = h1 XOR push_bit 5 (seq_number a);
          h3 = h2 XOR push_bit 6 (of_nat (tid a))
      in if is_read a then
           do { h4 \<leftarrow> (case reads_from a of
                       Some rf \<Rightarrow> map_option (\<lambda>w. h3 XOR seq_number w) (acts rf)
                     | None \<Rightarrow> (case reads_from_promise a of
                           Some p \<Rightarrow> Some (h3 XOR of_int (promise_index p))
                         | None \<Rightarrow> Some h3));
                v \<leftarrow> get_reads_from_value acts promise_value a;
                Some (ucast (ucast h4 XOR v :: uint64)) }
         else Some h3)"

fun get_type_str :: "action_type \<Rightarrow> string" where
  "get_type_str MODEL_FIXUP_RELSEQ = ''relseq fixup''"
| "get_type_str THREAD_CREATE = ''thread create''"
| "get_type_str THREAD_START = ''thread start''"
| "get_type_str THREAD_YIELD = ''thread yield''"
| "get_type_str THREAD_JOIN = ''thread join''"
| "get_type_str THREAD_FINISH = ''thread finish''"
| "get_type_str ATOMIC_UNINIT = ''uninitialized''"
| "get_type_str ATOMIC_READ = ''atomic read''"
| "get_type_str ATOMIC_WRITE = ''atomic write''"
| "get_type_str ATOMIC_RMW = ''atomic rmw''"
| "get_type_str ATOMIC_FENCE = ''fence''"
| "get_type_str ATOMIC_RMWR = ''atomic rmwr''"
| "get_type_str ATOMIC_RMWC = ''atomic rmwc''"
| "get_type_str ATOMIC_INIT = ''init atomic''"
| "get_type_str ATOMIC_LOCK = ''lock''"
| "get_type_str ATOMIC_UNLOCK = ''unlock''"
| "get_type_str ATOMIC_TRYLOCK = ''trylock''"
| "get_type_str ATOMIC_WAIT = ''wait''"
| "get_type_str ATOMIC_NOTIFY_ONE = ''notify one''"
| "get_type_str ATOMIC_NOTIFY_ALL = ''notify all''"
| "get_type_str ATOMIC_ANNOTATION = ''annotation''"

fun get_mo_str :: "memory_order \<Rightarrow> string" where
  "get_mo_str memory_order_relaxed = ''relaxed''"
| "get_mo_str memory_order_acquire = ''acquire''"
| "get_mo_str memory_order_release = ''release''"
| "get_mo_str memory_order_acq_rel = ''acq_rel''"
| "get_mo_str memory_order_seq_cst = ''seq_cst''"
| "get_mo_str _ = ''unknown''"

section \<open>Clock vectors of actions\<close>

lemma create_cv_own_clock:
  "getClock (cv_of (create_cv parent a)) (tid a) = seq_number a"
  by (simp add: create_cv_def cv_of_def getClock_cv_new split: option.splits)

lemma create_cv_inherits:
  "t \<noteq> tid a \<Longrightarrow> getClock (cv_of (create_cv parent a)) t =
     (case parent of None \<Rightarrow> 0 | Some p \<Rightarrow> getClock (cv_of p) t)"
  by (auto simp: create_cv_def cv_of_def getClock_cv_new split: option.splits)

lemma create_cv_fields [simp]:
  "seq_number (create_cv parent a) = seq_number a" "tid (create_cv parent a) = tid a"
  by (simp_all add: create_cv_def split: option.splits)

lemma happens_before_self: "happens_before (create_cv parent a) (create_cv parent a)"
proof -
  have "tid a < length (cv_of (create_cv parent a))"
    by (simp add: create_cv_def cv_of_def length_cv_new less_max_iff_disj split: option.splits)
  then show ?thesis
    using create_cv_own_clock [of parent a]
    by (simp add: happens_before_def synchronized_since_getClock)
qed

lemma synchronize_with_cv:
  "\<not> act_less this act \<Longrightarrow>
   cv_of (snd (synchronize_with this act)) = snd (cv_merge (cv_of this) (cv_of act))"
  by (simp add: synchronize_with_def cv_of_def)

lemma synchronize_with_monotone: "cv_le (cv_of this) (cv_of (snd (synchronize_with this act)))"
  by (simp add: synchronize_with_def cv_of_def cv_le_merge1)

lemma action_process_rmw_frame [simp]:
  "reads_from (action_process_rmw this act) = reads_from this"
  "reads_from_promise (action_process_rmw this act) = reads_from_promise this"
  "order (action_process_rmw this act) = order act"
  by (simp_all add: action_process_rmw_def Let_def)

lemma act_type_process_rmw:
  "act_type (action_process_rmw this act) =
     (if is_rmwc act then ATOMIC_READ else if is_rmw act then ATOMIC_RMW else act_type this)"
  by (simp add: action_process_rmw_def Let_def)

lemma get_return_value_read:
  "is_read a \<Longrightarrow> is_read b \<Longrightarrow> reads_from a = reads_from b \<Longrightarrow>
   reads_from_promise a = reads_from_promise b \<Longrightarrow>
   get_return_value acts pv a = get_return_value acts pv b"
  by (simp add: get_return_value_def get_reads_from_value_def cong: option.case_cong)

text \<open>
  Closing a read-modify-write turns the pending read into a complete action: a plain read
  (with the value the thread read kept) when the compare failed, otherwise an action that is
  both the read it was and a write of the value computed, under the order of the second half.
\<close>

theorem process_rmw_completes:
  assumes "is_rmwr this" and "is_rmwc act \<or> is_rmw act"
  shows "let r = action_process_rmw this act in
     is_read r \<and> \<not> is_rmwr r \<and> (is_write r \<longleftrightarrow> is_rmw act) \<and> (is_rmw r \<longleftrightarrow> is_rmw act) \<and>
     order r = order act \<and>
     (is_rmw act \<longrightarrow> get_write_value r = Some (act_value act)) \<and>
     (\<forall>acts pv. get_return_value acts pv r = get_return_value acts pv this)"
proof -
  let ?r = "action_process_rmw this act"
  have k: "is_read this" "is_read ?r" "\<not> is_rmwr ?r" "is_write ?r \<longleftrightarrow> is_rmw act"
    "is_rmw ?r \<longleftrightarrow> is_rmw act"
    using assms by (auto simp: action_defs act_type_process_rmw)
  have "get_write_value ?r = Some (act_value act)" if "is_rmw act"
    using that by (auto simp: get_write_value_def action_defs action_process_rmw_def)
  with k show ?thesis
    by (auto simp: Let_def intro: get_return_value_read)
qed

theorem process_rmw_completes_witness:
  "\<exists>this act. is_rmwr this \<and> is_rmw act \<and>
     get_write_value (action_process_rmw this act) = Some 5"
proof -
  define this where "this = the (ModelAction_new ATOMIC_RMWR memory_order_relaxed 16 0 1)"
  define act where "act = the (ModelAction_new ATOMIC_RMW memory_order_acq_rel 16 5 1)"
  have "is_rmwr this" "is_rmw act" "act_value act = 5"
    by (simp_all add: this_def act_def ModelAction_new_def action_defs)
  with process_rmw_completes [of this act] show ?thesis by (auto simp: Let_def)
qed

text \<open>
  synchronization is exactly a union of pasts. When \<open>b\<close> synchronizes with \<open>a\<close>, an action
  happens before \<open>b\<close> afterwards if and only if it happened before \<open>b\<close> or before \<open>a\<close>; an
  attempt to synchronize with an action later in the execution order changes nothing and is
  reported by the result \<open>false\<close>.
\<close>

theorem synchronize_with_happens_before:
  assumes "seq_number x \<noteq> 0"
  shows "(fst (synchronize_with b a) \<longleftrightarrow> seq_number a \<le> seq_number b) \<and>
    (fst (synchronize_with b a) \<longrightarrow>
       (happens_before x (snd (synchronize_with b a)) \<longleftrightarrow> happens_before x b \<or> happens_before x a)) \<and>
    (\<not> fst (synchronize_with b a) \<longrightarrow> snd (synchronize_with b a) = b)"
proof -
  have hb: "happens_before x y \<longleftrightarrow> seq_number x \<le> getClock (cv_of y) (tid x)" for y
    using assms by (simp add: happens_before_def synchronized_since_getClock)
  have ok: "fst (synchronize_with b a) \<longleftrightarrow> \<not> act_less b a"
    by (simp add: synchronize_with_def)
  show ?thesis
  proof (cases "act_less b a")
    case True
    then show ?thesis by (simp add: synchronize_with_def act_less_def)
  next
    case False
    then show ?thesis unfolding hb ok synchronize_with_cv [OF False]
      by (simp add: getClock_cv_merge le_max_iff_disj act_less_def not_less)
  qed
qed

theorem synchronize_with_happens_before_witness:
  "\<exists>a b x. happens_before x a \<and> \<not> happens_before x b \<and>
     happens_before x (snd (synchronize_with b a))"
proof -
  define mk where "mk = (\<lambda>t n c. (the (ModelAction_new ATOMIC_WRITE memory_order_seq_cst 16 0 t))
      \<lparr>seq_number := n, cv := Some c\<rparr>)"
  define x where "x = mk 1 2 [0, 2]"
  define a where "a = mk 2 3 [0, 2, 3]"
  define b where "b = mk 3 5 [0, 1, 0, 5]"
  have "seq_number x \<noteq> 0" "happens_before x a" "\<not> happens_before x b"
    "fst (synchronize_with b a)"
    by (simp_all add: x_def a_def b_def mk_def ModelAction_new_def happens_before_def cv_of_def
        synchronized_since_def synchronize_with_def act_less_def word_le_nat_alt)
  with synchronize_with_happens_before [of x b a] show ?thesis by blast
qed

end
