(* ===== verification/Promises.thy ===== *)
theory Promises
  imports Actions
begin

text \<open>
  \<open>promise.h\<close> / \<open>promise.cc\<close>: a promised future value and the threads that may still
  satisfy it. \<open>available_thread\<close> and \<open>was_available_thread\<close> are vectors of flags with
  counters kept beside them; the readers are action numbers, looked up in the store where
  the C++ follows the pointer.
\<close>

record future_value =
  fv_value :: uint64
  fv_expiration :: modelclock_t
  fv_tid :: thread_id_t

record promise =
  available_thread :: "bool list"
  was_available_thread :: "bool list"
  num_available_threads :: int
  num_was_available_threads :: int
  fv :: future_value
  readers :: "aid list"
  p_write :: "aid option"

section \<open>Operations\<close>

definition thread_is_available :: "promise \<Rightarrow> thread_id_t \<Rightarrow> bool" where
  "thread_is_available p t =
     (if t \<ge> length (available_thread p) then False else available_thread p ! t)"

definition thread_was_available :: "promise \<Rightarrow> thread_id_t \<Rightarrow> bool" where
  "thread_was_available p t =
     (if t \<ge> length (was_available_thread p) then False else was_available_thread p ! t)"

definition max_available_thread_idx :: "promise \<Rightarrow> nat" where
  "max_available_thread_idx p = length (available_thread p)"

definition has_failed :: "promise \<Rightarrow> bool" where
  "has_failed p \<longleftrightarrow> num_available_threads p = 0"

definition eliminate_thread :: "thread_id_t \<Rightarrow> promise \<Rightarrow> bool \<times> promise" where
  "eliminate_thread t p =
     (if \<not> thread_is_available p t then (False, p)
      else let p1 = p\<lparr>available_thread := (available_thread p)[t := False],
                      num_available_threads := num_available_threads p - 1\<rparr>
           in (has_failed p1, p1))"

definition add_thread :: "thread_id_t \<Rightarrow> promise \<Rightarrow> promise" where
  "add_thread t p =
     (let av = (if t \<ge> length (available_thread p) then vec_resize (available_thread p) (t + 1) False
                else available_thread p);
          p1 = (if \<not> av ! t
                then p\<lparr>available_thread := av[t := True],
                        num_available_threads := num_available_threads p + 1\<rparr>
                else p\<lparr>available_thread := av\<rparr>);
          was = (if t \<ge> length (was_available_thread p1)
                 then vec_resize (was_available_thread p1) (t + 1) False
                 else was_available_thread p1)
      in if \<not> was ! t
         then p1\<lparr>was_available_thread := was[t := True],
                 num_was_available_threads := num_was_available_threads p1 + 1\<rparr>
         else p1\<lparr>was_available_thread := was\<rparr>)"

definition Promise_new :: "aid \<Rightarrow> thread_id_t \<Rightarrow> future_value \<Rightarrow> promise" where
  "Promise_new read read_tid v =
     snd (eliminate_thread read_tid (add_thread (fv_tid v)
       \<lparr>available_thread = [], was_available_thread = [], num_available_threads = 0,
        num_was_available_threads = 0, fv = v, readers = [read], p_write = None\<rparr>))"

definition add_reader :: "aid \<Rightarrow> thread_id_t \<Rightarrow> promise \<Rightarrow> bool \<times> promise" where
  "add_reader reader reader_tid p =
     eliminate_thread reader_tid (p\<lparr>readers := readers p @ [reader]\<rparr>)"

definition get_reader :: "promise \<Rightarrow> nat \<Rightarrow> aid option" where
  "get_reader p i = (if i < length (readers p) then Some (readers p ! i) else None)"

definition get_num_readers :: "promise \<Rightarrow> nat" where
  "get_num_readers p = length (readers p)"

definition same_location :: "action_store \<Rightarrow> promise \<Rightarrow> model_action \<Rightarrow> bool option" where
  "same_location acts p act =
     do { r \<leftarrow> get_reader p 0; reader \<leftarrow> acts r; Some (same_var reader act) }"

text \<open>The C++ \<open>&&\<close> does not look at the reader when the thread is not available.\<close>

definition is_compatible :: "action_store \<Rightarrow> promise \<Rightarrow> model_action \<Rightarrow> bool option" where
  "is_compatible acts p act =
     (if thread_is_available p (tid act) then same_location acts p act else Some False)"

definition is_compatible_exclusive :: "action_store \<Rightarrow> promise \<Rightarrow> model_action \<Rightarrow> bool option" where
  "is_compatible_exclusive acts p act =
     (if num_available_threads p = 1 then is_compatible acts p act else Some False)"

definition same_value :: "promise \<Rightarrow> model_action \<Rightarrow> bool option" where
  "same_value p write = map_option (\<lambda>v. fv_value (fv p) = v) (get_write_value write)"

section \<open>Invariant\<close>

definition promise_ok :: "promise \<Rightarrow> bool" where
  "promise_ok p \<longleftrightarrow>
     length (available_thread p) = length (was_available_thread p) \<and>
     num_available_threads p = int (count_true (available_thread p)) \<and>
     num_was_available_threads p = int (count_true (was_available_thread p)) \<and>
     (\<forall>t. thread_is_available p t \<longrightarrow> thread_was_available p t) \<and>
     readers p \<noteq> []"

text \<open>The set of threads that may still satisfy the promise, the promise's abstract state.\<close>

definition avail :: "promise \<Rightarrow> thread_id_t set" where
  "avail p = {t. thread_is_available p t}"

lemma avail_iff: "t \<in> avail p \<longleftrightarrow> t < length (available_thread p) \<and> available_thread p ! t"
  by (auto simp: avail_def thread_is_available_def)

lemma finite_avail [simp]: "finite (avail p)"
  by (rule finite_subset [of _ "{..< length (available_thread p)}"]) (auto simp: avail_iff)

lemma num_available_card: "promise_ok p \<Longrightarrow> num_available_threads p = int (card (avail p))"
proof -
  assume "promise_ok p"
  moreover have "avail p = {i. i < length (available_thread p) \<and> available_thread p ! i}"
    by (auto simp: avail_iff)
  ultimately show ?thesis by (simp add: promise_ok_def count_true_card)
qed

lemma has_failed_avail: "promise_ok p \<Longrightarrow> has_failed p \<longleftrightarrow> avail p = {}"
  by (simp add: has_failed_def num_available_card)

lemma eliminate_thread_avail:
  "thread_is_available p t \<Longrightarrow> snd (eliminate_thread t p) =
     p\<lparr>available_thread := (available_thread p)[t := False],
       num_available_threads := num_available_threads p - 1\<rparr>"
  by (simp add: eliminate_thread_def Let_def)

lemma eliminate_thread_unavail:
  "\<not> thread_is_available p t \<Longrightarrow> eliminate_thread t p = (False, p)"
  by (simp add: eliminate_thread_def)

lemma avail_eliminate: "avail (snd (eliminate_thread t p)) = avail p - {t}"
proof (cases "thread_is_available p t")
  case True
  then have "t < length (available_thread p)" by (simp add: thread_is_available_def split: if_splits)
  with True show ?thesis
    by (auto simp: eliminate_thread_avail avail_iff nth_list_update split: if_splits)
next
  case False
  then show ?thesis by (auto simp: eliminate_thread_unavail avail_def)
qed

lemma promise_ok_iff:
  "promise_ok p \<longleftrightarrow>
     length (available_thread p) = length (was_available_thread p) \<and>
     num_available_threads p = int (count_true (available_thread p)) \<and>
     num_was_available_threads p = int (count_true (was_available_thread p)) \<and>
     (\<forall>i < length (available_thread p). available_thread p ! i \<longrightarrow> was_available_thread p ! i) \<and>
     readers p \<noteq> []"
  by (auto simp: promise_ok_def thread_is_available_def thread_was_available_def)

lemma promise_ok_eliminate:
  assumes ok: "promise_ok p"
  shows "promise_ok (snd (eliminate_thread t p))"
proof (cases "thread_is_available p t")
  case True
  then have t: "t < length (available_thread p)" "available_thread p ! t"
    by (auto simp: thread_is_available_def split: if_splits)
  from count_true_clear [OF t] show ?thesis
    using ok t by (auto simp: promise_ok_iff eliminate_thread_avail [OF True] nth_list_update)
next
  case False
  then show ?thesis using ok by (simp add: eliminate_thread_unavail)
qed

text \<open>\<open>add_thread\<close> runs the same code on both vectors: pad, set the flag, count it.\<close>

definition set_flag :: "bool list \<Rightarrow> nat \<Rightarrow> bool list" where
  "set_flag bs t = (if t \<ge> length bs then vec_resize bs (t + 1) False else bs)[t := True]"

lemma length_set_flag [simp]: "length (set_flag bs t) = max (length bs) (Suc t)"
  by (simp add: set_flag_def)

lemma nth_set_flag:
  "i < max (length bs) (Suc t) \<Longrightarrow> set_flag bs t ! i \<longleftrightarrow> i = t \<or> i < length bs \<and> bs ! i"
  by (auto simp: set_flag_def nth_list_update)

lemma count_set_flag:
  "count_true (set_flag bs t) = count_true bs + (if t < length bs \<and> bs ! t then 0 else 1)"
proof -
  define xs where "xs = (if t \<ge> length bs then vec_resize bs (t + 1) False else bs)"
  have "t < length xs" "count_true xs = count_true bs" "xs ! t \<longleftrightarrow> t < length bs \<and> bs ! t"
    by (auto simp: xs_def count_true_resize_False)
  with count_list_update [of t xs True True] show ?thesis
    by (auto simp: set_flag_def xs_def [symmetric])
qed

lemma add_thread_fields:
  "available_thread (add_thread t p) = set_flag (available_thread p) t"
  "was_available_thread (add_thread t p) = set_flag (was_available_thread p) t"
  "num_available_threads (add_thread t p) =
     num_available_threads p + (if thread_is_available p t then 0 else 1)"
  "num_was_available_threads (add_thread t p) =
     num_was_available_threads p + (if thread_was_available p t then 0 else 1)"
  "readers (add_thread t p) = readers p" "fv (add_thread t p) = fv p"
  by (auto simp: add_thread_def Let_def set_flag_def thread_is_available_def
      thread_was_available_def list_update_same_conv [THEN iffD2, symmetric] split: if_splits)

lemma avail_add: "avail (add_thread t p) = insert t (avail p)"
  by (auto simp: avail_iff add_thread_fields nth_set_flag less_max_iff_disj)

lemma promise_ok_add:
  assumes "promise_ok p"
  shows "promise_ok (add_thread t p)"
  using assms
  by (auto simp: promise_ok_iff add_thread_fields count_set_flag nth_set_flag less_max_iff_disj
      thread_is_available_def thread_was_available_def not_le)

lemma eliminate_result:
  "promise_ok p \<Longrightarrow>
   fst (eliminate_thread t p) \<longleftrightarrow> t \<in> avail p \<and> avail (snd (eliminate_thread t p)) = {}"
  using promise_ok_eliminate [of p t] has_failed_avail [of "snd (eliminate_thread t p)"]
  by (cases "thread_is_available p t") (auto simp: eliminate_thread_def avail_def Let_def)

lemma avail_readers [simp]: "avail (p\<lparr>readers := rs\<rparr>) = avail p"
  by (simp add: avail_def thread_is_available_def)

lemma promise_ok_readers: "promise_ok p \<Longrightarrow> promise_ok (p\<lparr>readers := readers p @ [r]\<rparr>)"
  by (simp add: promise_ok_iff)

lemma promise_ok_new: "promise_ok (Promise_new r t v)"
proof -
  have "promise_ok \<lparr>available_thread = [], was_available_thread = [], num_available_threads = 0,
        num_was_available_threads = 0, fv = v, readers = [r], p_write = None\<rparr>"
    by (simp add: promise_ok_iff)
  then show ?thesis unfolding Promise_new_def by (intro promise_ok_eliminate promise_ok_add)
qed

lemma avail_new: "avail (Promise_new r t v) = {fv_tid v} - {t}"
proof -
  have "avail \<lparr>available_thread = [], was_available_thread = [], num_available_threads = 0,
        num_was_available_threads = 0, fv = v, readers = [r], p_write = None\<rparr> = {}"
    by (auto simp: avail_iff)
  then show ?thesis by (simp add: Promise_new_def avail_eliminate avail_add)
qed

section \<open>Properties\<close>

text \<open>
  The two vectors of flags and the two counters of a promise stay consistent through its
  whole life: the constructor establishes the invariant and adding a thread, eliminating a
  thread and adding a reader keep it; the abstract set of threads that may still satisfy the
  promise is changed exactly as the operation says.
\<close>

lemma promise_invariant:
  "promise_ok (Promise_new r t v) \<and> avail (Promise_new r t v) = {fv_tid v} - {t} \<and>
   (promise_ok p \<longrightarrow>
      promise_ok (add_thread t p) \<and> avail (add_thread t p) = insert t (avail p) \<and>
      promise_ok (snd (eliminate_thread t p)) \<and>
      avail (snd (eliminate_thread t p)) = avail p - {t} \<and>
      promise_ok (snd (add_reader r t p)) \<and> avail (snd (add_reader r t p)) = avail p - {t})"
  unfolding add_reader_def
  by (intro conjI impI)
     (simp_all add: promise_ok_new avail_new promise_ok_add avail_add promise_ok_eliminate
       avail_eliminate promise_ok_readers)

lemma promise_invariant_witness:
  "promise_ok (Promise_new 0 1 \<lparr>fv_value = 5, fv_expiration = 9, fv_tid = 2\<rparr>) \<and>
   avail (add_thread 3 (Promise_new 0 1 \<lparr>fv_value = 5, fv_expiration = 9, fv_tid = 2\<rparr>)) = {2, 3}"
  using promise_invariant
    [of 0 1 "\<lparr>fv_value = 5, fv_expiration = 9, fv_tid = 2\<rparr>"
        "Promise_new 0 1 \<lparr>fv_value = 5, fv_expiration = 9, fv_tid = 2\<rparr>"]
    promise_invariant
    [of 0 3 "\<lparr>fv_value = 5, fv_expiration = 9, fv_tid = 2\<rparr>"
        "Promise_new 0 1 \<lparr>fv_value = 5, fv_expiration = 9, fv_tid = 2\<rparr>"]
  by auto

text \<open>
  A promise is reported as failed exactly when no thread is left that could satisfy it:
  \<open>eliminate_thread\<close> returns true just when it removes the last available thread, and a
  store is exclusively compatible just when its thread is the only one left and it writes the
  location the promise was read from.
\<close>

theorem promise_failure_exact:
  assumes "promise_ok p"
  shows "(has_failed p \<longleftrightarrow> avail p = {}) \<and>
         (fst (eliminate_thread t p) \<longleftrightarrow> avail p = {t}) \<and>
         (is_compatible_exclusive acts p act = Some True \<longleftrightarrow>
            avail p = {tid act} \<and> same_location acts p act = Some True)"
proof -
  have "num_available_threads p = 1 \<longleftrightarrow> (\<exists>u. avail p = {u})"
    using num_available_card [OF assms] by (simp add: card_1_singleton_iff)
  moreover have "thread_is_available p u \<longleftrightarrow> u \<in> avail p" for u by (simp add: avail_def)
  ultimately have "is_compatible_exclusive acts p act = Some True \<longleftrightarrow>
      avail p = {tid act} \<and> same_location acts p act = Some True"
    by (auto simp: is_compatible_exclusive_def is_compatible_def)
  then show ?thesis
    using eliminate_result [OF assms, of t] has_failed_avail [OF assms]
    by (auto simp: avail_eliminate)
qed

lemma promise_failure_exact_witness:
  "fst (eliminate_thread 2 (Promise_new 0 1 \<lparr>fv_value = 5, fv_expiration = 9, fv_tid = 2\<rparr>))"
  using promise_failure_exact
    [OF promise_ok_new, of 0 1 "\<lparr>fv_value = 5, fv_expiration = 9, fv_tid = 2\<rparr>" 2]
  by (auto simp: avail_new)

end
