(* ===== verification/CycleGraph.thy ===== *)
theory CycleGraph
  imports Promises
begin

text \<open>
  \<open>cyclegraph.h\<close> / \<open>cyclegraph.cc\<close>: the graph of the modification order. A node stands for
  a store or for a promised store; a pointer to a node is its index in the heap of nodes. The
  two pointer-keyed hash tables are maps, which the theory of the hash table justifies. The
  result \<open>None\<close> is a failing \<open>ASSERT\<close> or a loop that does not end.
\<close>

section \<open>Nodes\<close>

record cycle_node =
  cn_action :: "aid option"
  cn_promise :: "pid option"
  edges :: "nat list"
  back_edges :: "nat list"
  hasRMW :: "nat option"

type_synonym node_heap = "cycle_node list"

definition CycleNode_action :: "aid \<Rightarrow> cycle_node" where
  "CycleNode_action act =
     \<lparr>cn_action = Some act, cn_promise = None, edges = [], back_edges = [], hasRMW = None\<rparr>"

definition CycleNode_promise :: "pid \<Rightarrow> cycle_node" where
  "CycleNode_promise p =
     \<lparr>cn_action = None, cn_promise = Some p, edges = [], back_edges = [], hasRMW = None\<rparr>"

definition is_promise :: "cycle_node \<Rightarrow> bool" where
  "is_promise n \<longleftrightarrow> cn_action n = None"

text \<open>
  Reading a node through its pointer. Pointers always point into the heap; the accessors are
  total so that functions over the heap terminate without that assumption.
\<close>

definition edges_of :: "node_heap \<Rightarrow> nat \<Rightarrow> nat list" where
  "edges_of H n = (if n < length H then edges (H ! n) else [])"

definition back_edges_of :: "node_heap \<Rightarrow> nat \<Rightarrow> nat list" where
  "back_edges_of H n = (if n < length H then back_edges (H ! n) else [])"

definition getRMW :: "node_heap \<Rightarrow> nat \<Rightarrow> nat option" where
  "getRMW H n = (if n < length H then hasRMW (H ! n) else None)"

definition node_addEdge :: "nat \<Rightarrow> nat \<Rightarrow> node_heap \<Rightarrow> bool \<times> node_heap" where
  "node_addEdge n to H =
     (if to \<in> set (edges_of H n) then (False, H)
      else let H1 = H[n := (H ! n)\<lparr>edges := edges (H ! n) @ [to]\<rparr>];
               H2 = H1[to := (H1 ! to)\<lparr>back_edges := back_edges (H1 ! to) @ [n]\<rparr>]
           in (True, H2))"

fun vector_remove_node :: "nat list \<Rightarrow> nat \<Rightarrow> bool \<times> nat list" where
  "vector_remove_node [] n = (False, [])"
| "vector_remove_node (x # v) n =
     (if x = n then (True, v)
      else let (found, v') = vector_remove_node v n in (found, x # v'))"

definition node_removeEdge :: "nat \<Rightarrow> node_heap \<Rightarrow> nat option \<times> node_heap" where
  "node_removeEdge n H =
     (if edges_of H n = [] then (None, H)
      else let ret = last (edges_of H n);
               H1 = H[n := (H ! n)\<lparr>edges := butlast (edges (H ! n))\<rparr>];
               H2 = H1[ret := (H1 ! ret)\<lparr>back_edges :=
                        snd (vector_remove_node (back_edges (H1 ! ret)) n)\<rparr>]
           in (Some ret, H2))"

definition node_removeBackEdge :: "nat \<Rightarrow> node_heap \<Rightarrow> nat option \<times> node_heap" where
  "node_removeBackEdge n H =
     (if back_edges_of H n = [] then (None, H)
      else let ret = last (back_edges_of H n);
               H1 = H[n := (H ! n)\<lparr>back_edges := butlast (back_edges (H ! n))\<rparr>];
               H2 = H1[ret := (H1 ! ret)\<lparr>edges :=
                        snd (vector_remove_node (edges (H1 ! ret)) n)\<rparr>]
           in (Some ret, H2))"

definition node_setRMW :: "nat \<Rightarrow> nat \<Rightarrow> node_heap \<Rightarrow> bool \<times> node_heap" where
  "node_setRMW n r H =
     (if getRMW H n \<noteq> None then (True, H)
      else (False, H[n := (H ! n)\<lparr>hasRMW := Some r\<rparr>]))"

definition node_clearRMW :: "nat \<Rightarrow> node_heap \<Rightarrow> node_heap" where
  "node_clearRMW n H = H[n := (H ! n)\<lparr>hasRMW := None\<rparr>]"

definition node_resolvePromise ::
  "action_store \<Rightarrow> (pid \<rightharpoonup> promise) \<Rightarrow> aid \<Rightarrow> cycle_node \<Rightarrow> cycle_node option" where
  "node_resolvePromise acts proms writer n =
     (if \<not> is_promise n then None
      else do { p \<leftarrow> cn_promise n; pr \<leftarrow> proms p; w \<leftarrow> acts writer; c \<leftarrow> is_compatible acts pr w;
                if c then Some (n\<lparr>cn_action := Some writer, cn_promise := None\<rparr>) else None })"

section \<open>The graph\<close>

record cycle_graph =
  nodes :: node_heap
  actionToNode :: "aid \<rightharpoonup> nat"
  promiseToNode :: "pid \<rightharpoonup> nat"
  hasCycles :: bool
  oldCycles :: bool
  rollbackvector :: "nat list"
  rmwrollbackvector :: "nat list"

definition CycleGraph_new :: cycle_graph where
  "CycleGraph_new = \<lparr>nodes = [], actionToNode = Map.empty, promiseToNode = Map.empty,
     hasCycles = False, oldCycles = False, rollbackvector = [], rmwrollbackvector = []\<rparr>"

text \<open>The template parameter of \<open>addEdge\<close> and \<open>checkReachable\<close>: an action or a promise.\<close>

datatype mo_obj = ActObj aid | PromObj pid

fun getNode_noCreate :: "cycle_graph \<Rightarrow> mo_obj \<Rightarrow> nat option" where
  "getNode_noCreate g (ActObj a) = actionToNode g a"
| "getNode_noCreate g (PromObj p) = promiseToNode g p"

fun putNode :: "mo_obj \<Rightarrow> nat \<Rightarrow> cycle_graph \<Rightarrow> cycle_graph" where
  "putNode (ActObj a) n g = g\<lparr>actionToNode := (actionToNode g)(a \<mapsto> n)\<rparr>"
| "putNode (PromObj p) n g = g\<lparr>promiseToNode := (promiseToNode g)(p \<mapsto> n)\<rparr>"

fun new_node :: "mo_obj \<Rightarrow> cycle_node" where
  "new_node (ActObj a) = CycleNode_action a"
| "new_node (PromObj p) = CycleNode_promise p"

definition getNode :: "mo_obj \<Rightarrow> cycle_graph \<Rightarrow> nat \<times> cycle_graph" where
  "getNode x g =
     (case getNode_noCreate g x of
        Some n \<Rightarrow> (n, g)
      | None \<Rightarrow> let n = length (nodes g)
                in (n, putNode x n (g\<lparr>nodes := nodes g @ [new_node x]\<rparr>)))"

text \<open>
  Storing the null pointer makes later lookups return null; the table refuses a null key.
\<close>

definition erasePromiseNode :: "pid option \<Rightarrow> cycle_graph \<Rightarrow> cycle_graph option" where
  "erasePromiseNode key g =
     (case key of None \<Rightarrow> None
      | Some p \<Rightarrow> Some (g\<lparr>promiseToNode := (promiseToNode g)(p := None)\<rparr>))"

section \<open>Searching\<close>

text \<open>
  The queue is kept with its back first, so \<open>push_back\<close> is \<open>Cons\<close> and \<open>back\<close> / \<open>pop_back\<close>
  take the head.
\<close>

fun push_edges :: "nat list \<Rightarrow> nat list \<Rightarrow> nat set \<Rightarrow> nat list \<times> nat set" where
  "push_edges [] queue discovered = (queue, discovered)"
| "push_edges (next # es) queue discovered =
     (if next \<notin> discovered then push_edges es (next # queue) (insert next discovered)
      else push_edges es queue discovered)"

definition edge_targets :: "node_heap \<Rightarrow> nat set" where
  "edge_targets H = (\<Union>n \<in> {..< length H}. set (edges_of H n))"

lemma finite_edge_targets [simp]: "finite (edge_targets H)"
  by (simp add: edge_targets_def)

lemma edges_of_targets: "set (edges_of H n) \<subseteq> edge_targets H"
  by (auto simp: edge_targets_def edges_of_def)

lemma push_edges_measure:
  "push_edges es q d = (q', d') \<Longrightarrow> finite T \<Longrightarrow> set es \<subseteq> T \<Longrightarrow>
   card (T - d') + length q' = card (T - d) + length q"
proof (induction es q d rule: push_edges.induct)
  case (2 x es q d)
  show ?case
  proof (cases "x \<in> d")
    case True
    then show ?thesis using 2 by auto
  next
    case False
    then have "x \<in> T - d" using 2 by auto
    then have "Suc (card ((T - d) - {x})) = card (T - d)"
      using 2(4) by (intro card_Suc_Diff1) auto
    moreover have "(T - d) - {x} = T - insert x d" by blast
    ultimately have c: "card (T - d) = Suc (card (T - insert x d))" by simp
    have "card (T - d') + length q' = card (T - insert x d) + length (x # q)"
      by (rule 2(1)) (use False 2 in auto)
    then show ?thesis using c by simp
  qed
qed auto

lemma push_edges_discovered:
  "push_edges es q d = (q', d') \<Longrightarrow> d' = d \<union> set es \<and> set q' = set q \<union> (set es - d)"
proof (induction es q d rule: push_edges.induct)
  case (2 x es q d)
  then show ?case by (cases "x \<in> d") auto
qed auto

function reach_loop :: "node_heap \<Rightarrow> nat \<Rightarrow> nat list \<Rightarrow> nat set \<Rightarrow> bool" where
  "reach_loop H to [] discovered = False"
| "reach_loop H to (node # queue) discovered =
     (if node = to then True
      else let (queue', discovered') = push_edges (edges_of H node) queue discovered
           in reach_loop H to queue' discovered')"
  by pat_completeness auto
termination
proof (relation "measure (\<lambda>(H, to, q, d). card (edge_targets H - d) + length q)")
  fix H to node queue discovered x xa y
  assume "x = push_edges (edges_of H node) queue discovered" and "(xa, y) = x"
  then have "card (edge_targets H - y) + length xa = card (edge_targets H - discovered) + length queue"
    using push_edges_measure [OF _ finite_edge_targets edges_of_targets] by metis
  then show "((H, to, xa, y), H, to, node # queue, discovered)
    \<in> measure (\<lambda>(H, to, q, d). card (edge_targets H - d) + length q)" by simp
qed simp

definition checkReachable_node :: "node_heap \<Rightarrow> nat \<Rightarrow> nat \<Rightarrow> bool" where
  "checkReachable_node H from to = reach_loop H to [from] {from}"

definition checkReachable :: "cycle_graph \<Rightarrow> mo_obj \<Rightarrow> mo_obj \<Rightarrow> bool" where
  "checkReachable g from to =
     (case (getNode_noCreate g from, getNode_noCreate g to) of
        (Some f, Some t) \<Rightarrow> checkReachable_node (nodes g) f t
      | _ \<Rightarrow> False)"

text \<open>\<open>checkPromise\<close> eliminates, on its way, the threads of the stores it passes.\<close>

function promise_loop ::
  "node_heap \<Rightarrow> action_store \<Rightarrow> pid \<Rightarrow> nat list \<Rightarrow> nat set \<Rightarrow> promise \<Rightarrow> (bool \<times> promise) option" where
  "promise_loop H acts p [] discovered pr = Some (False, pr)"
| "promise_loop H acts p (node # queue) discovered pr =
     (if node \<ge> length H then None
      else if cn_promise (H ! node) = Some p then Some (True, pr)
      else let (queue', discovered') = push_edges (edges_of H node) queue discovered
           in case cn_action (H ! node) of
                None \<Rightarrow> promise_loop H acts p queue' discovered' pr
              | Some a \<Rightarrow> (case acts a of None \<Rightarrow> None
                  | Some act \<Rightarrow> promise_loop H acts p queue' discovered'
                                 (snd (eliminate_thread (tid act) pr))))"
  by pat_completeness auto
termination
proof (relation "measure (\<lambda>(H, acts, p, q, d, pr). card (edge_targets H - d) + length q)", goal_cases)
  case 1
  then show ?case by simp
next
  case (2 H acts p node queue discovered pr x xa y)
  then have "card (edge_targets H - y) + length xa = card (edge_targets H - discovered) + length queue"
    using push_edges_measure [OF _ finite_edge_targets edges_of_targets] by metis
  then show ?case by simp
next
  case (3 H acts p node queue discovered pr x xa y a act)
  then have "card (edge_targets H - y) + length xa = card (edge_targets H - discovered) + length queue"
    using push_edges_measure [OF _ finite_edge_targets edges_of_targets] by metis
  then show ?case by simp
qed

definition checkPromise ::
  "cycle_graph \<Rightarrow> action_store \<Rightarrow> aid \<Rightarrow> pid \<Rightarrow> promise \<Rightarrow> (bool \<times> promise) option" where
  "checkPromise g acts fromact p pr =
     (case actionToNode g fromact of None \<Rightarrow> None
      | Some from \<Rightarrow> promise_loop (nodes g) acts p [from] {from} pr)"

section \<open>Changing the graph\<close>

text \<open>The loop that follows a chain of RMW nodes to its end, unless it meets \<open>tonode\<close>.\<close>

partial_function (option) rmw_walk :: "node_heap \<Rightarrow> nat \<Rightarrow> nat \<Rightarrow> nat option" where
  "rmw_walk H tonode rmwnode =
     (if rmwnode \<noteq> tonode then
        (case getRMW H rmwnode of
           Some r \<Rightarrow> rmw_walk H tonode r
         | None \<Rightarrow> Some rmwnode)
      else Some rmwnode)"

definition chain_edge :: "nat \<Rightarrow> nat \<Rightarrow> cycle_graph \<Rightarrow> cycle_graph" where
  "chain_edge rmwnode tonode g =
     (let (added, H) = node_addEdge rmwnode tonode (nodes g)
      in if added
         then g\<lparr>nodes := H,
                hasCycles := (if \<not> hasCycles g then checkReachable_node H tonode rmwnode
                              else hasCycles g),
                rollbackvector := rollbackvector g @ [rmwnode]\<rparr>
         else g)"

definition addNodeEdge :: "nat \<Rightarrow> nat \<Rightarrow> cycle_graph \<Rightarrow> (bool \<times> cycle_graph) option" where
  "addNodeEdge fromnode tonode g =
     (let (added, H) = node_addEdge fromnode tonode (nodes g)
      in if \<not> added then Some (False, g)
         else let g1 = g\<lparr>nodes := H,
                         rollbackvector := rollbackvector g @ [fromnode],
                         hasCycles := (if \<not> hasCycles g then checkReachable_node H tonode fromnode
                                       else hasCycles g)\<rparr>
              in case getRMW H fromnode of
                   None \<Rightarrow> Some (True, g1)
                 | Some rmwnode \<Rightarrow>
                     do { r \<leftarrow> rmw_walk H tonode rmwnode;
                          Some (True, if r \<noteq> tonode then chain_edge r tonode g1 else g1) })"

definition addEdge :: "mo_obj \<Rightarrow> mo_obj \<Rightarrow> cycle_graph \<Rightarrow> (bool \<times> cycle_graph) option" where
  "addEdge from to g =
     (let (fromnode, g1) = getNode from g;
          (tonode, g2) = getNode to g1
      in addNodeEdge fromnode tonode g2)"

fun transfer_edges :: "nat list \<Rightarrow> nat \<Rightarrow> cycle_graph \<Rightarrow> cycle_graph" where
  "transfer_edges [] rmwnode g = g"
| "transfer_edges (tonode # es) rmwnode g =
     (if tonode \<noteq> rmwnode then
        let (added, H) = node_addEdge rmwnode tonode (nodes g)
        in transfer_edges es rmwnode
             (if added then g\<lparr>nodes := H, rollbackvector := rollbackvector g @ [rmwnode]\<rparr> else g)
      else transfer_edges es rmwnode g)"

definition addRMWNodes :: "nat \<Rightarrow> nat \<Rightarrow> cycle_graph \<Rightarrow> cycle_graph option" where
  "addRMWNodes fromnode rmwnode g =
     (if getRMW (nodes g) rmwnode \<noteq> None then None
      else let (already, H) = node_setRMW fromnode rmwnode (nodes g);
               g1 = (if already then g\<lparr>hasCycles := True\<rparr>
                     else g\<lparr>nodes := H, rmwrollbackvector := rmwrollbackvector g @ [fromnode]\<rparr>);
               g2 = transfer_edges (edges_of (nodes g1) fromnode) rmwnode g1
           in map_option snd (addNodeEdge fromnode rmwnode g2))"

definition addRMWEdge :: "mo_obj \<Rightarrow> aid \<Rightarrow> cycle_graph \<Rightarrow> cycle_graph option" where
  "addRMWEdge from rmw g =
     (let (fromnode, g1) = getNode from g;
          (rmwnode, g2) = getNode (ActObj rmw) g1
      in addRMWNodes fromnode rmwnode g2)"

text \<open>
  Merging. The two loops empty the edge lists of the promise node; each returns false as soon
  as a transferred edge closes a cycle.
\<close>

partial_function (option) merge_back :: "nat \<Rightarrow> nat \<Rightarrow> cycle_graph \<Rightarrow> (bool \<times> cycle_graph) option" where
  "merge_back w_node p_node g =
     (case node_removeBackEdge p_node (nodes g) of
        (None, H) \<Rightarrow> Some (True, g)
      | (Some back, H) \<Rightarrow>
          if back = w_node then merge_back w_node p_node (g\<lparr>nodes := H\<rparr>)
          else Option.bind (addNodeEdge back w_node (g\<lparr>nodes := H\<rparr>))
                 (\<lambda>(_, g1). if hasCycles g1 then Some (False, g1) else merge_back w_node p_node g1))"

partial_function (option) merge_forward :: "nat \<Rightarrow> nat \<Rightarrow> cycle_graph \<Rightarrow> (bool \<times> cycle_graph) option" where
  "merge_forward w_node p_node g =
     (case node_removeEdge p_node (nodes g) of
        (None, H) \<Rightarrow> Some (True, g)
      | (Some forward, H) \<Rightarrow>
          if forward = w_node then merge_forward w_node p_node (g\<lparr>nodes := H\<rparr>)
          else Option.bind (addNodeEdge w_node forward (g\<lparr>nodes := H\<rparr>))
                 (\<lambda>(_, g1). if hasCycles g1 then Some (False, g1) else merge_forward w_node p_node g1))"

text \<open>
  The transfer of the RMW: \<open>None\<close> stands for the early \<open>return false\<close>. \<open>setRMW\<close> is called
  only when the promise's RMW is another one than the store's.
\<close>

definition transfer_rmw :: "nat \<Rightarrow> nat \<Rightarrow> cycle_graph \<Rightarrow> cycle_graph option" where
  "transfer_rmw w_node p_node g =
     (case getRMW (nodes g) p_node of
        None \<Rightarrow> Some g
      | Some promise_rmw \<Rightarrow>
          if Some promise_rmw \<noteq> getRMW (nodes g) w_node then
            (let (already, H) = node_setRMW w_node promise_rmw (nodes g)
             in if already then None else Some (g\<lparr>nodes := H\<rparr>))
          else Some g)"

definition mergeNodes ::
  "action_store \<Rightarrow> (pid \<rightharpoonup> promise) \<Rightarrow> nat \<Rightarrow> nat \<Rightarrow> cycle_graph \<Rightarrow> (bool \<times> cycle_graph) option" where
  "mergeNodes acts proms w_node p_node g =
     (if is_promise (nodes g ! w_node) \<or> \<not> is_promise (nodes g ! p_node) then None
      else do {
        p \<leftarrow> cn_promise (nodes g ! p_node);
        promise \<leftarrow> proms p;
        a \<leftarrow> cn_action (nodes g ! w_node);
        write \<leftarrow> acts a;
        compatible \<leftarrow> is_compatible acts promise write;
        same \<leftarrow> (if compatible then same_value promise write else Some True);
        if \<not> compatible \<or> \<not> same then Some (False, g)
        else case transfer_rmw w_node p_node g of
               None \<Rightarrow> Some (False, g)
             | Some g1 \<Rightarrow> do {
                 (ok1, g2) \<leftarrow> merge_back w_node p_node g1;
                 if \<not> ok1 then Some (False, g2)
                 else do {
                   (ok2, g3) \<leftarrow> merge_forward w_node p_node g2;
                   if \<not> ok2 then Some (False, g3)
                   else do { g4 \<leftarrow> erasePromiseNode (Some p) g3; Some (\<not> hasCycles g4, g4) } } } })"

text \<open>
  \<open>resolvePromise\<close>. Without a node for the writer the promise's node is converted first, so
  that the following \<open>getPromise()\<close> reads the null pointer the conversion left.
\<close>

definition resolvePromise ::
  "action_store \<Rightarrow> (pid \<rightharpoonup> promise) \<Rightarrow> pid \<Rightarrow> aid \<Rightarrow> cycle_graph \<Rightarrow> (bool \<times> cycle_graph) option" where
  "resolvePromise acts proms p writer g =
     (case promiseToNode g p of None \<Rightarrow> None
      | Some promise_node \<Rightarrow>
          (case actionToNode g writer of
             Some w_node \<Rightarrow> mergeNodes acts proms w_node promise_node g
           | None \<Rightarrow> do {
               n \<leftarrow> node_resolvePromise acts proms writer (nodes g ! promise_node);
               let g1 = g\<lparr>nodes := (nodes g)[promise_node := n]\<rparr>;
               g2 \<leftarrow> erasePromiseNode (cn_promise n) g1;
               Some (True, putNode (ActObj writer) promise_node g2) }))"

section \<open>Committing and rolling back\<close>

definition startChanges :: "cycle_graph \<Rightarrow> cycle_graph option" where
  "startChanges g =
     (if rollbackvector g = [] \<and> rmwrollbackvector g = [] \<and> oldCycles g = hasCycles g
      then Some g else None)"

definition commitChanges :: "cycle_graph \<Rightarrow> cycle_graph" where
  "commitChanges g = g\<lparr>rollbackvector := [], rmwrollbackvector := [], oldCycles := hasCycles g\<rparr>"

definition rollbackChanges :: "cycle_graph \<Rightarrow> cycle_graph" where
  "rollbackChanges g =
     (let H1 = fold (\<lambda>n H. snd (node_removeEdge n H)) (rollbackvector g) (nodes g);
          H2 = fold node_clearRMW (rmwrollbackvector g) H1
      in g\<lparr>nodes := H2, hasCycles := oldCycles g, rollbackvector := [], rmwrollbackvector := []\<rparr>)"

definition checkForCycles :: "cycle_graph \<Rightarrow> bool" where
  "checkForCycles g = hasCycles g"

section \<open>Observing the heap after an operation\<close>

definition mo_edges :: "node_heap \<Rightarrow> (nat \<times> nat) set" where
  "mo_edges H = {(a, b). b \<in> set (edges_of H a)}"

lemma mo_edges_iff: "(a, b) \<in> mo_edges H \<longleftrightarrow> b \<in> set (edges_of H a)"
  by (simp add: mo_edges_def)

lemma vector_remove_node_snd [simp]: "snd (vector_remove_node v n) = remove1 n v"
  by (induction v) (auto split: prod.splits)

lemma fst_node_addEdge [graph_simps]: "fst (node_addEdge n to H) \<longleftrightarrow> to \<notin> set (edges_of H n)"
  by (simp add: node_addEdge_def Let_def)

lemma length_node_addEdge [graph_simps]: "length (snd (node_addEdge n to H)) = length H"
  by (simp add: node_addEdge_def Let_def)

lemma edges_of_addEdge [graph_simps]:
  "n < length H \<Longrightarrow> edges_of (snd (node_addEdge n to H)) m =
     (if m = n \<and> to \<notin> set (edges_of H n) then edges_of H n @ [to] else edges_of H m)"
  by (auto simp: node_addEdge_def Let_def edges_of_def nth_update_in)

lemma back_edges_of_addEdge [graph_simps]:
  "n < length H \<Longrightarrow> to < length H \<Longrightarrow> back_edges_of (snd (node_addEdge n to H)) m =
     (if m = to \<and> to \<notin> set (edges_of H n) then back_edges_of H to @ [n] else back_edges_of H m)"
  by (auto simp: node_addEdge_def Let_def back_edges_of_def nth_update_in)

lemma getRMW_addEdge [graph_simps]: "getRMW (snd (node_addEdge n to H)) m = getRMW H m"
  by (auto simp: node_addEdge_def Let_def getRMW_def nth_update_in split: if_splits)

lemma length_node_removeEdge [graph_simps]: "length (snd (node_removeEdge n H)) = length H"
  by (simp add: node_removeEdge_def Let_def)

lemma edges_of_removeEdge [graph_simps]:
  "edges_of (snd (node_removeEdge n H)) m =
     (if m = n then butlast (edges_of H n) else edges_of H m)"
  by (auto simp: node_removeEdge_def Let_def edges_of_def nth_update_in split: if_splits)

lemma back_edges_of_removeEdge [graph_simps]:
  "set (edges_of H n) \<subseteq> {..< length H} \<Longrightarrow> back_edges_of (snd (node_removeEdge n H)) m =
     (if edges_of H n \<noteq> [] \<and> m = last (edges_of H n) then remove1 n (back_edges_of H m)
      else back_edges_of H m)"
  by (auto simp: node_removeEdge_def Let_def back_edges_of_def nth_update_in)

lemma getRMW_removeEdge [graph_simps]: "getRMW (snd (node_removeEdge n H)) m = getRMW H m"
  by (auto simp: node_removeEdge_def Let_def getRMW_def nth_update_in split: if_splits)

lemma length_node_setRMW [graph_simps]: "length (snd (node_setRMW n r H)) = length H"
  by (simp add: node_setRMW_def)

lemma fst_node_setRMW [graph_simps]: "fst (node_setRMW n r H) \<longleftrightarrow> getRMW H n \<noteq> None"
  by (simp add: node_setRMW_def)

lemma edges_of_setRMW [graph_simps]: "edges_of (snd (node_setRMW n r H)) m = edges_of H m"
  by (auto simp: node_setRMW_def edges_of_def nth_update_in split: if_splits)

lemma back_edges_of_setRMW [graph_simps]:
  "back_edges_of (snd (node_setRMW n r H)) m = back_edges_of H m"
  by (auto simp: node_setRMW_def back_edges_of_def nth_update_in split: if_splits)

lemma getRMW_setRMW [graph_simps]:
  "n < length H \<Longrightarrow> getRMW (snd (node_setRMW n r H)) m =
     (if m = n \<and> getRMW H n = None then Some r else getRMW H m)"
  by (auto simp: node_setRMW_def getRMW_def nth_update_in)

lemma length_node_clearRMW [graph_simps]: "length (node_clearRMW n H) = length H"
  by (simp add: node_clearRMW_def)

lemma edges_of_clearRMW [graph_simps]: "edges_of (node_clearRMW n H) m = edges_of H m"
  by (auto simp: node_clearRMW_def edges_of_def nth_update_in split: if_splits)

lemma back_edges_of_clearRMW [graph_simps]: "back_edges_of (node_clearRMW n H) m = back_edges_of H m"
  by (auto simp: node_clearRMW_def back_edges_of_def nth_update_in split: if_splits)

lemma getRMW_clearRMW [graph_simps]:
  "getRMW (node_clearRMW n H) m = (if m = n then None else getRMW H m)"
  by (auto simp: node_clearRMW_def getRMW_def nth_update_in)

lemma mo_edges_addEdge [graph_simps]:
  "n < length H \<Longrightarrow> mo_edges (snd (node_addEdge n to H)) = insert (n, to) (mo_edges H)"
  by (auto simp: mo_edges_def edges_of_addEdge split: if_splits)

lemma mo_edges_setRMW [graph_simps]: "mo_edges (snd (node_setRMW n r H)) = mo_edges H"
  by (auto simp: mo_edges_def edges_of_setRMW)

section \<open>The search decides reachability\<close>

lemma reach_loop_correct:
  assumes "set q \<subseteq> d" and "\<forall>x \<in> d - set q. x \<noteq> to \<and> set (edges_of H x) \<subseteq> d"
  shows "reach_loop H to q d \<longleftrightarrow> (\<exists>x \<in> d. (x, to) \<in> (mo_edges H)\<^sup>*)"
  using assms
proof (induction H to q d rule: reach_loop.induct)
  case (1 H to d)
  have "mo_edges H `` d \<subseteq> d" using 1 by (auto simp: mo_edges_def)
  then have "to \<in> d" if "x \<in> d" "(x, to) \<in> (mo_edges H)\<^sup>*" for x
    using rtrancl_closed_Image that by metis
  then show ?case using 1 by auto
next
  case (2 H to node q d)
  show ?case
  proof (cases "node = to")
    case True
    then show ?thesis using 2(2) by auto
  next
    case False
    obtain q' d' where push: "push_edges (edges_of H node) q d = (q', d')" by fastforce
    note d' = push_edges_discovered [OF push]
    have "reach_loop H to q' d' \<longleftrightarrow> (\<exists>x \<in> d'. (x, to) \<in> (mo_edges H)\<^sup>*)"
    proof (rule 2(1) [OF False push [symmetric] refl])
      show "set q' \<subseteq> d'" using d' 2(2) by auto
      show "\<forall>x \<in> d' - set q'. x \<noteq> to \<and> set (edges_of H x) \<subseteq> d'"
        using d' 2(2,3) False by auto
    qed
    moreover have "(\<exists>x \<in> d'. (x, to) \<in> (mo_edges H)\<^sup>*) \<longleftrightarrow> (\<exists>x \<in> d. (x, to) \<in> (mo_edges H)\<^sup>*)"
    proof -
      have "(node, to) \<in> (mo_edges H)\<^sup>*" if "x \<in> set (edges_of H node)" "(x, to) \<in> (mo_edges H)\<^sup>*" for x
        using that by (meson converse_rtrancl_into_rtrancl mo_edges_iff)
      then show ?thesis using d' 2(2) by auto
    qed
    ultimately show ?thesis using False push by simp
  qed
qed

lemma checkReachable_node_iff: "checkReachable_node H a b \<longleftrightarrow> (a, b) \<in> (mo_edges H)\<^sup>*"
  unfolding checkReachable_node_def by (subst reach_loop_correct) simp_all

definition node_tids :: "node_heap \<Rightarrow> action_store \<Rightarrow> nat set \<Rightarrow> thread_id_t set" where
  "node_tids H acts X =
     {t. \<exists>x \<in> X. \<exists>a act. cn_action (H ! x) = Some a \<and> acts a = Some act \<and> t = tid act}"

lemma node_tids_insert:
  "node_tids H acts (insert x X) = node_tids H acts X \<union>
     (case cn_action (H ! x) of None \<Rightarrow> {} | Some a \<Rightarrow> tid ` set_option (acts a))"
  by (auto simp: node_tids_def split: option.splits)

lemma push_edges_reachable:
  assumes "push_edges (edges_of H node) q d = (q', d')" and "node \<in> d"
  shows "(mo_edges H)\<^sup>* `` d' = (mo_edges H)\<^sup>* `` d"
proof -
  have "(node, y) \<in> (mo_edges H)\<^sup>*"
    if "x \<in> set (edges_of H node)" "(x, y) \<in> (mo_edges H)\<^sup>*" for x y
    using that by (meson converse_rtrancl_into_rtrancl mo_edges_iff)
  then show ?thesis using push_edges_discovered [OF assms(1)] assms(2) by blast
qed

lemma promise_loop_correct:
  assumes "promise_loop H acts p q d pr = Some (b, pr')"
    and "set q \<subseteq> d" and "d - set q \<subseteq> V" and "V \<subseteq> d"
    and "\<forall>x \<in> V. cn_promise (H ! x) \<noteq> Some p \<and> set (edges_of H x) \<subseteq> d"
    and "avail pr = A - node_tids H acts V"
  shows "(b \<longleftrightarrow> (\<exists>y \<in> (mo_edges H)\<^sup>* `` d. cn_promise (H ! y) = Some p)) \<and>
    (\<not> b \<longrightarrow> avail pr' = A - node_tids H acts ((mo_edges H)\<^sup>* `` d))"
  using assms
proof (induction H acts p q d pr arbitrary: V rule: promise_loop.induct)
  case (1 H acts p d pr)
  then have "V = d" "mo_edges H `` d \<subseteq> d" by (auto simp: mo_edges_def)
  moreover from this have "(mo_edges H)\<^sup>* `` d = d"
    using rtrancl_closed_Image [of "mo_edges H" d] by blast
  ultimately show ?case using 1 by auto
next
  case (2 H acts p node q d pr)
  have node: "node < length H" "node \<in> d" using 2(3,4) by (auto split: if_splits)
  show ?case
  proof (cases "cn_promise (H ! node) = Some p")
    case True
    then show ?thesis using 2(3) node by auto
  next
    case False
    obtain q' d' where push: "push_edges (edges_of H node) q d = (q', d')" by fastforce
    note d' = push_edges_discovered [OF push]
    have inv: "set q' \<subseteq> d'" "d' - set q' \<subseteq> insert node V" "insert node V \<subseteq> d'"
      "\<forall>x \<in> insert node V. cn_promise (H ! x) \<noteq> Some p \<and> set (edges_of H x) \<subseteq> d'"
      using d' 2(4-7) node False by auto
    note reach = push_edges_reachable [OF push node(2)]
    have notge: "\<not> length H \<le> node" using node by simp
    show ?thesis
    proof (cases "cn_action (H ! node)")
      case None
      then have "promise_loop H acts p q' d' pr = Some (b, pr')"
        using 2(3) node False push by simp
      from 2(1) [OF notge False push [symmetric] refl None this inv] 2(8) None
      show ?thesis by (simp add: node_tids_insert reach)
    next
      case (Some a)
      then obtain act where act: "acts a = Some act"
        and run: "promise_loop H acts p q' d' (snd (eliminate_thread (tid act) pr)) = Some (b, pr')"
        using 2(3) node False push by (auto split: option.splits)
      have "avail (snd (eliminate_thread (tid act) pr)) = A - node_tids H acts (insert node V)"
        using 2(8) Some act by (auto simp: node_tids_insert avail_eliminate)
      from 2(2) [OF notge False push [symmetric] refl Some act run inv this]
      show ?thesis by (simp add: reach)
    qed
  qed
qed

section \<open>Invariants\<close>

definition rmw_rel :: "node_heap \<Rightarrow> (nat \<times> nat) set" where
  "rmw_rel H = {(n, r). getRMW H n = Some r}"

text \<open>
  The heap: pointers stay inside, the two edge lists of the nodes mirror each other without
  duplicates, and the chain of RMW pointers from any node ends.
\<close>

definition heap_ok :: "node_heap \<Rightarrow> bool" where
  "heap_ok H \<longleftrightarrow>
     (\<forall>n. set (edges_of H n) \<subseteq> {..< length H}) \<and>
     (\<forall>n. distinct (edges_of H n)) \<and> (\<forall>n. distinct (back_edges_of H n)) \<and>
     (\<forall>a b. b \<in> set (edges_of H a) \<longleftrightarrow> a \<in> set (back_edges_of H b)) \<and>
     (\<forall>n r. getRMW H n = Some r \<longrightarrow> r < length H) \<and>
     acyclic (rmw_rel H)"

text \<open>
  RMW atomicity in terms of edges: the RMW that reads from \<open>n\<close> follows \<open>n\<close>, and every other
  successor of \<open>n\<close> follows that RMW; an RMW reads from one store only.
\<close>

definition rmw_ok :: "node_heap \<Rightarrow> bool" where
  "rmw_ok H \<longleftrightarrow>
     (\<forall>n r. getRMW H n = Some r \<longrightarrow>
        (n, r) \<in> mo_edges H \<and> (\<forall>t. (n, t) \<in> mo_edges H \<longrightarrow> t = r \<or> (r, t) \<in> (mo_edges H)\<^sup>+)) \<and>
     (\<forall>m n r. getRMW H m = Some r \<longrightarrow> getRMW H n = Some r \<longrightarrow> m = n)"

definition graph_ok :: "cycle_graph \<Rightarrow> bool" where
  "graph_ok g \<longleftrightarrow>
     heap_ok (nodes g) \<and>
     (\<forall>x n. getNode_noCreate g x = Some n \<longrightarrow> n < length (nodes g)) \<and>
     (\<not> hasCycles g \<longrightarrow> acyclic (mo_edges (nodes g)) \<and> rmw_ok (nodes g))"

abbreviation mo :: "cycle_graph \<Rightarrow> (nat \<times> nat) set" where
  "mo g \<equiv> mo_edges (nodes g)"

lemma rmw_rel_finite: "heap_ok H \<Longrightarrow> finite (rmw_rel H)"
proof (rule finite_subset)
  assume "heap_ok H"
  then have "r < length H" if "getRMW H n = Some r" for n r using that by (simp add: heap_ok_def)
  moreover have "n < length H" if "getRMW H n = Some r" for n r
    using that by (simp add: getRMW_def split: if_splits)
  ultimately show "rmw_rel H \<subseteq> {..< length H} \<times> {..< length H}"
    by (auto simp: rmw_rel_def)
qed simp

lemma rmw_walk_total:
  assumes "heap_ok H"
  shows "\<exists>e. rmw_walk H t r = Some e \<and> (r, e) \<in> (rmw_rel H)\<^sup>* \<and> (e = t \<or> getRMW H e = None)"
proof -
  have "acyclic (rmw_rel H)" using assms by (simp add: heap_ok_def)
  with rmw_rel_finite [OF assms] have "wf ((rmw_rel H)\<inverse>)" by (rule finite_acyclic_wf_converse)
  then show ?thesis
  proof (induction r)
    case (less r)
    show ?case
    proof (cases "r = t \<or> getRMW H r = None")
      case True
      then show ?thesis by (subst rmw_walk.simps) (auto split: option.splits)
    next
      case False
      then obtain r' where r': "getRMW H r = Some r'" "r \<noteq> t" by auto
      then have step: "(r, r') \<in> rmw_rel H" by (simp add: rmw_rel_def)
      from less [of r'] step obtain e where
        e: "rmw_walk H t r' = Some e" "(r', e) \<in> (rmw_rel H)\<^sup>*" "e = t \<or> getRMW H e = None"
        by blast
      have "rmw_walk H t r = Some e" using r' e(1) by (subst rmw_walk.simps) simp
      moreover have "(r, e) \<in> (rmw_rel H)\<^sup>*"
        using step e(2) by (rule converse_rtrancl_into_rtrancl)
      ultimately show ?thesis using e(3) by blast
    qed
  qed
qed

lemma rmw_rel_lt:
  assumes "(a, b) \<in> (rmw_rel H)\<^sup>*" and "heap_ok H" and "a < length H"
  shows "b < length H"
  using assms(1) by induction (use assms(2,3) in \<open>auto simp: rmw_rel_def heap_ok_def\<close>)

lemma rmw_chain_edges: "rmw_ok H \<Longrightarrow> rmw_rel H \<subseteq> mo_edges H"
  by (auto simp: rmw_ok_def rmw_rel_def)

section \<open>Adding one checked edge\<close>

lemma heap_ok_addEdge:
  assumes "heap_ok H" "n < length H" "t < length H"
  shows "heap_ok (snd (node_addEdge n t H))"
  using assms
  by (auto simp: heap_ok_def graph_simps rmw_rel_def)

lemma chain_edge_fields [graph_simps]:
  "actionToNode (chain_edge n t g) = actionToNode g"
  "promiseToNode (chain_edge n t g) = promiseToNode g"
  "oldCycles (chain_edge n t g) = oldCycles g"
  "rmwrollbackvector (chain_edge n t g) = rmwrollbackvector g"
  "nodes (chain_edge n t g) = snd (node_addEdge n t (nodes g))"
  "rollbackvector (chain_edge n t g) =
     rollbackvector g @ (if t \<in> set (edges_of (nodes g) n) then [] else [n])"
  by (simp_all add: chain_edge_def split_beta fst_node_addEdge)
     (simp add: node_addEdge_def)

lemma getNode_noCreate_chain_edge [graph_simps]:
  "getNode_noCreate (chain_edge n t g) x = getNode_noCreate g x"
  by (cases x) (auto simp: graph_simps)

lemma chain_edge_hasCycles:
  "hasCycles (chain_edge n t g) =
     (hasCycles g \<or> t \<notin> set (edges_of (nodes g) n) \<and>
        checkReachable_node (snd (node_addEdge n t (nodes g))) t n)"
  by (simp add: chain_edge_def split_beta fst_node_addEdge)

lemma hasCycles_chain_edge:
  assumes "n < length (nodes g)"
  shows "hasCycles (chain_edge n t g) \<longleftrightarrow>
    hasCycles g \<or> t \<notin> set (edges_of (nodes g) n) \<and> (t, n) \<in> (mo g)\<^sup>*"
proof -
  have "(t, n) \<in> (insert (n, t) (mo g))\<^sup>* \<longleftrightarrow> (t, n) \<in> (mo g)\<^sup>*"
    by (auto simp: rtrancl_insert)
  then show ?thesis
    using assms by (simp add: chain_edge_hasCycles checkReachable_node_iff mo_edges_addEdge)
qed

lemma mo_chain_edge [graph_simps]:
  "n < length (nodes g) \<Longrightarrow> mo (chain_edge n t g) = insert (n, t) (mo g)"
  by (simp add: graph_simps)

lemma chain_edge_exact:
  assumes "\<not> hasCycles g \<longrightarrow> acyclic (mo g)" and "n < length (nodes g)"
  shows "hasCycles (chain_edge n t g) \<longleftrightarrow> hasCycles g \<or> \<not> acyclic (mo (chain_edge n t g))"
proof (cases "t \<in> set (edges_of (nodes g) n)")
  case True
  then have "insert (n, t) (mo g) = mo g" by (simp add: mo_edges_iff insert_absorb)
  then show ?thesis using assms True by (auto simp: hasCycles_chain_edge mo_chain_edge)
next
  case False
  then show ?thesis using assms
    by (auto simp: hasCycles_chain_edge mo_chain_edge acyclic_insert_iff)
qed

lemma chain_edge_acyclic:
  assumes "\<not> hasCycles g \<longrightarrow> acyclic (mo g)" and "n < length (nodes g)"
  shows "\<not> hasCycles (chain_edge n t g) \<longrightarrow> acyclic (mo (chain_edge n t g))"
  using chain_edge_exact [OF assms] by blast

lemma addNodeEdge_eq:
  "addNodeEdge f t g =
     (if t \<in> set (edges_of (nodes g) f) then Some (False, g)
      else case getRMW (nodes g) f of
          None \<Rightarrow> Some (True, chain_edge f t g)
        | Some r \<Rightarrow> map_option
            (\<lambda>e. (True, if e \<noteq> t then chain_edge e t (chain_edge f t g) else chain_edge f t g))
            (rmw_walk (nodes (chain_edge f t g)) t r))"
proof (cases "t \<in> set (edges_of (nodes g) f)")
  case True
  then show ?thesis by (simp add: addNodeEdge_def split_beta fst_node_addEdge)
next
  case False
  have eq: "chain_edge f t g =
      g\<lparr>nodes := snd (node_addEdge f t (nodes g)),
        rollbackvector := rollbackvector g @ [f],
        hasCycles := (if \<not> hasCycles g
          then checkReachable_node (snd (node_addEdge f t (nodes g))) t f else hasCycles g)\<rparr>"
    using False by (simp add: chain_edge_def split_beta fst_node_addEdge)
  show ?thesis
  proof (cases "getRMW (nodes g) f")
    case None
    then show ?thesis using False
      by (simp add: addNodeEdge_def split_beta fst_node_addEdge eq getRMW_addEdge Let_def)
  next
    case (Some r)
    then show ?thesis using False
      by (cases "rmw_walk (nodes (chain_edge f t g)) t r")
         (simp_all add: addNodeEdge_def split_beta fst_node_addEdge eq getRMW_addEdge Let_def)
  qed
qed

lemma rmw_rel_chain_edge [graph_simps]: "rmw_rel (nodes (chain_edge n t g)) = rmw_rel (nodes g)"
  by (simp add: rmw_rel_def graph_simps)

text \<open>What \<open>addNodeEdge\<close> does: nothing, one checked edge, or two.\<close>

lemma addNodeEdge_cases:
  assumes "heap_ok (nodes g)" and "f < length (nodes g)" and "t < length (nodes g)"
  obtains (old) "(f, t) \<in> mo g" and "addNodeEdge f t g = Some (False, g)"
  | (one) "(f, t) \<notin> mo g" and "(getRMW (nodes g) f = None \<or>
        (\<exists>r. getRMW (nodes g) f = Some r \<and> (r, t) \<in> (rmw_rel (nodes g))\<^sup>*))"
      and "addNodeEdge f t g = Some (True, chain_edge f t g)"
  | (two) e r where "(f, t) \<notin> mo g" and "getRMW (nodes g) f = Some r"
      and "(r, e) \<in> (rmw_rel (nodes g))\<^sup>*" and "getRMW (nodes g) e = None" and "e \<noteq> t"
      and "e < length (nodes g)"
      and "addNodeEdge f t g = Some (True, chain_edge e t (chain_edge f t g))"
proof (cases "t \<in> set (edges_of (nodes g) f)")
  case True
  then show ?thesis by (intro old) (auto simp: addNodeEdge_eq mo_edges_iff)
next
  case False
  then have notin: "(f, t) \<notin> mo g" by (simp add: mo_edges_iff)
  show ?thesis
  proof (cases "getRMW (nodes g) f")
    case None
    with False notin show ?thesis by (intro one) (auto simp: addNodeEdge_eq)
  next
    case (Some r)
    have "heap_ok (nodes (chain_edge f t g))"
      using assms by (simp add: chain_edge_fields heap_ok_addEdge)
    from rmw_walk_total [OF this, of t r] obtain e where
      walk: "rmw_walk (nodes (chain_edge f t g)) t r = Some e"
      and e: "(r, e) \<in> (rmw_rel (nodes g))\<^sup>*" "e = t \<or> getRMW (nodes g) e = None"
      by (auto simp: rmw_rel_chain_edge) (simp add: graph_simps)
    have "r < length (nodes g)" using assms(1) Some by (simp add: heap_ok_def)
    with e(1) assms(1) have el: "e < length (nodes g)" using rmw_rel_lt by blast
    show ?thesis
    proof (cases "e = t")
      case True
      show ?thesis by (rule one [OF notin]) (use Some e walk False True in \<open>auto simp: addNodeEdge_eq\<close>)
    next
      case neq: False
      with e have "getRMW (nodes g) e = None" by simp
      moreover have "addNodeEdge f t g = Some (True, chain_edge e t (chain_edge f t g))"
        using Some walk False neq by (simp add: addNodeEdge_eq)
      ultimately show ?thesis using two [OF notin Some e(1) _ neq el] by blast
    qed
  qed
qed

lemma rmw_ok_grow:
  assumes "rmw_ok H" and "\<And>m. getRMW H' m = getRMW H m" and "mo_edges H \<subseteq> mo_edges H'"
    and "\<And>n r t. getRMW H n = Some r \<Longrightarrow> (n, t) \<in> mo_edges H' \<Longrightarrow> (n, t) \<notin> mo_edges H \<Longrightarrow>
           t = r \<or> (r, t) \<in> (mo_edges H')\<^sup>+"
  shows "rmw_ok H'"
proof -
  have "(r, t) \<in> (mo_edges H')\<^sup>+" if "(r, t) \<in> (mo_edges H)\<^sup>+" for r t
    using that assms(3) by (rule trancl_mono)
  then show ?thesis using assms unfolding rmw_ok_def by (metis subsetD)
qed

lemma graph_ok_heap: "graph_ok g \<Longrightarrow> heap_ok (nodes g)"
  by (simp add: graph_ok_def)

lemma graph_ok_acyclic: "graph_ok g \<Longrightarrow> \<not> hasCycles g \<longrightarrow> acyclic (mo g)"
  by (simp add: graph_ok_def)

lemma length_chain_edge [graph_simps]: "length (nodes (chain_edge n t g)) = length (nodes g)"
  by (simp add: graph_simps)

lemma addNodeEdge_step:
  assumes ok: "graph_ok g" and f: "f < length (nodes g)" and t: "t < length (nodes g)"
  shows "\<exists>b g'. addNodeEdge f t g = Some (b, g') \<and> graph_ok g' \<and>
    length (nodes g') = length (nodes g) \<and> getNode_noCreate g' = getNode_noCreate g \<and>
    (\<forall>m. getRMW (nodes g') m = getRMW (nodes g) m) \<and>
    insert (f, t) (mo g) \<subseteq> mo g' \<and>
    mo g' \<subseteq> insert (f, t) (mo g) \<union> {(e, t) | e. (f, e) \<in> (rmw_rel (nodes g))\<^sup>+ \<and> getRMW (nodes g) e = None} \<and>
    (hasCycles g' \<longleftrightarrow> hasCycles g \<or> \<not> acyclic (mo g'))"
proof -
  note acyc = graph_ok_acyclic [OF ok]
  have heap: "heap_ok (nodes g)" using ok by (rule graph_ok_heap)
  have tables: "\<forall>x n. getNode_noCreate g x = Some n \<longrightarrow> n < length (nodes g)"
    using ok by (simp add: graph_ok_def)
  from heap f t show ?thesis
  proof (cases rule: addNodeEdge_cases)
    case old
    then show ?thesis using ok acyc by (auto simp: insert_absorb)
  next
    case one
    let ?g = "chain_edge f t g"
    have acyc': "hasCycles ?g \<longleftrightarrow> hasCycles g \<or> \<not> acyclic (mo ?g)"
      using chain_edge_exact [OF acyc f] .
    have "rmw_ok (nodes ?g)" if "rmw_ok (nodes g)"
    proof (rule rmw_ok_grow [OF that])
      fix n r u
      assume nr: "getRMW (nodes g) n = Some r" and "(n, u) \<in> mo ?g" "(n, u) \<notin> mo g"
      then have "n = f" "u = t" using f by (auto simp: mo_chain_edge)
      with nr one(2) have "(r, u) \<in> (rmw_rel (nodes g))\<^sup>*" by auto
      then have "(r, u) \<in> (mo g)\<^sup>*" using rmw_chain_edges [OF that] rtrancl_mono by blast
      then have "(r, u) \<in> (mo ?g)\<^sup>*"
        using rtrancl_mono [of "mo g" "mo ?g"] f by (auto simp: mo_chain_edge)
      then show "u = r \<or> (r, u) \<in> (mo ?g)\<^sup>+" by (auto simp: rtrancl_eq_or_trancl)
    qed (use f in \<open>auto simp: graph_simps mo_chain_edge\<close>)
    then have "graph_ok ?g"
      using ok heap f t tables acyc' unfolding graph_ok_def
      by (simp add: graph_simps heap_ok_addEdge)
    with one(3) acyc' f show ?thesis
      by (intro exI [of _ True] exI [of _ ?g])
         (auto simp: mo_chain_edge length_chain_edge getNode_noCreate_chain_edge graph_simps)
  next
    case (two e r)
    let ?g1 = "chain_edge f t g" and ?g = "chain_edge e t (chain_edge f t g)"
    have e1: "e < length (nodes ?g1)" using two by (simp add: length_chain_edge)
    have acyc': "hasCycles ?g \<longleftrightarrow> hasCycles g \<or> \<not> acyclic (mo ?g)"
      using chain_edge_exact [OF chain_edge_acyclic [OF acyc f] e1] chain_edge_exact [OF acyc f]
        acyclic_subset [of "mo ?g" "mo ?g1"] e1 f by (auto simp: mo_chain_edge)
    have mo': "mo ?g = insert (e, t) (insert (f, t) (mo g))" using e1 f by (simp add: mo_chain_edge)
    have "rmw_ok (nodes ?g)" if "rmw_ok (nodes g)"
    proof (rule rmw_ok_grow [OF that])
      fix n r' u
      assume nr: "getRMW (nodes g) n = Some r'" and "(n, u) \<in> mo ?g" "(n, u) \<notin> mo g"
      then have "n = f" "u = t" using mo' two(4) by auto
      with nr two have "(r', e) \<in> (rmw_rel (nodes g))\<^sup>*" by simp
      then have "(r', e) \<in> (mo g)\<^sup>*" using rmw_chain_edges [OF that] rtrancl_mono by blast
      then have "(r', e) \<in> (mo ?g)\<^sup>*"
        using rtrancl_mono [of "mo g" "mo ?g"] mo' by auto
      moreover have "(e, t) \<in> mo ?g" using mo' by simp
      ultimately have "(r', t) \<in> (mo ?g)\<^sup>+" by (rule rtrancl_into_trancl1)
      then show "u = r' \<or> (r', u) \<in> (mo ?g)\<^sup>+" using \<open>u = t\<close> by simp
    qed (use mo' in \<open>auto simp: graph_simps\<close>)
    moreover have "heap_ok (nodes ?g)"
      using heap f t e1 two(6) by (simp add: chain_edge_fields heap_ok_addEdge graph_simps)
    ultimately have "graph_ok ?g"
      using ok tables acyc' unfolding graph_ok_def
      by (simp add: getNode_noCreate_chain_edge length_chain_edge)
    moreover have "(f, e) \<in> (rmw_rel (nodes g))\<^sup>+"
      using two(2,3) by (auto simp: rmw_rel_def intro: rtrancl_into_trancl2)
    ultimately show ?thesis using two(7) acyc' mo' two(4)
      by (intro exI [of _ True] exI [of _ ?g])
         (auto simp: length_chain_edge getNode_noCreate_chain_edge graph_simps)
  qed
qed

section \<open>Looking up and creating nodes\<close>

lemma new_node_simps [simp]:
  "edges (new_node x) = []" "back_edges (new_node x) = []" "hasRMW (new_node x) = None"
  by (cases x; simp add: CycleNode_action_def CycleNode_promise_def)+

lemma new_node_heap [graph_simps]:
  "edges_of (H @ [new_node x]) m = edges_of H m"
  "back_edges_of (H @ [new_node x]) m = back_edges_of H m"
  "getRMW (H @ [new_node x]) m = getRMW H m"
  by (auto simp: edges_of_def back_edges_of_def getRMW_def nth_append less_Suc_eq)

lemma new_node_rels [graph_simps]:
  "mo_edges (H @ [new_node x]) = mo_edges H" "rmw_rel (H @ [new_node x]) = rmw_rel H"
  "rmw_ok (H @ [new_node x]) = rmw_ok H"
  by (auto simp: mo_edges_def rmw_rel_def rmw_ok_def graph_simps)

lemma heap_ok_new_node: "heap_ok H \<Longrightarrow> heap_ok (H @ [new_node x])"
  by (fastforce simp: heap_ok_def graph_simps lessThan_Suc intro: less_SucI)

lemma putNode_fields [graph_simps]:
  "nodes (putNode x n g) = nodes g" "hasCycles (putNode x n g) = hasCycles g"
  "oldCycles (putNode x n g) = oldCycles g" "rollbackvector (putNode x n g) = rollbackvector g"
  "rmwrollbackvector (putNode x n g) = rmwrollbackvector g"
  "getNode_noCreate (putNode x n g) = (getNode_noCreate g)(x \<mapsto> n)"
  by (cases x; auto simp: fun_eq_iff split: mo_obj.splits; case_tac xa; simp)+

lemma getNode_noCreate_nodes [graph_simps]:
  "getNode_noCreate (g\<lparr>nodes := H\<rparr>) = getNode_noCreate g"
  by (rule ext, case_tac x) auto

lemma getNode_step:
  assumes "graph_ok g" and "getNode x g = (n, g')"
  shows "graph_ok g' \<and> n < length (nodes g') \<and> getNode_noCreate g' = (getNode_noCreate g)(x \<mapsto> n) \<and>
    length (nodes g) \<le> length (nodes g') \<and>
    edges_of (nodes g') = edges_of (nodes g) \<and> back_edges_of (nodes g') = back_edges_of (nodes g) \<and>
    getRMW (nodes g') = getRMW (nodes g) \<and>
    hasCycles g' = hasCycles g \<and> oldCycles g' = oldCycles g \<and>
    rollbackvector g' = rollbackvector g \<and> rmwrollbackvector g' = rmwrollbackvector g"
proof (cases "getNode_noCreate g x")
  case None
  then have "graph_ok g'" using assms
    by (auto simp: getNode_def graph_ok_def Let_def graph_simps heap_ok_new_node less_Suc_eq
        split: if_splits)
  then show ?thesis using assms None
    by (auto simp: getNode_def Let_def graph_simps fun_eq_iff)
next
  case (Some m)
  then show ?thesis using assms
    by (auto simp: getNode_def fun_upd_idem graph_ok_def)
qed

lemma edges_eq_rels:
  "edges_of H' = edges_of H \<Longrightarrow> mo_edges H' = mo_edges H"
  "getRMW H' = getRMW H \<Longrightarrow> rmw_rel H' = rmw_rel H"
  by (auto simp: mo_edges_def rmw_rel_def)

lemma graph_ok_new: "graph_ok CycleGraph_new"
proof -
  have "heap_ok []" by (simp add: heap_ok_def edges_of_def back_edges_of_def getRMW_def rmw_rel_def acyclic_def)
  moreover have "mo_edges [] = {}" by (simp add: mo_edges_def edges_of_def)
  moreover have "rmw_ok []" by (simp add: rmw_ok_def getRMW_def)
  moreover have "getNode_noCreate CycleGraph_new x = None" for x
    by (cases x) (simp_all add: CycleGraph_new_def)
  ultimately show ?thesis by (simp add: graph_ok_def CycleGraph_new_def acyclic_def)
qed

section \<open>RMW edges\<close>

lemma transfer_edges_step:
  assumes "heap_ok (nodes g)" and "r < length (nodes g)" and "set es \<subseteq> {..< length (nodes g)}"
  shows "heap_ok (nodes (transfer_edges es r g)) \<and>
    length (nodes (transfer_edges es r g)) = length (nodes g) \<and>
    mo (transfer_edges es r g) = mo g \<union> {(r, t) | t. t \<in> set es \<and> t \<noteq> r} \<and>
    getRMW (nodes (transfer_edges es r g)) = getRMW (nodes g) \<and>
    getNode_noCreate (transfer_edges es r g) = getNode_noCreate g \<and>
    hasCycles (transfer_edges es r g) = hasCycles g"
  using assms
proof (induction es r g rule: transfer_edges.induct)
  case (2 t es r g)
  show ?case
  proof (cases "t = r")
    case True
    then show ?thesis using 2 by auto
  next
    case False
    obtain added H where add: "node_addEdge r t (nodes g) = (added, H)" by fastforce
    have H: "H = snd (node_addEdge r t (nodes g))" and "added \<longleftrightarrow> t \<notin> set (edges_of (nodes g) r)"
      using add fst_node_addEdge [of r t "nodes g"] by simp_all
    let ?g = "if added then g\<lparr>nodes := H, rollbackvector := rollbackvector g @ [r]\<rparr> else g"
    have same: "\<not> added \<Longrightarrow> H = nodes g" using add by (auto simp: node_addEdge_def Let_def split: if_splits)
    have g: "heap_ok (nodes ?g)" "length (nodes ?g) = length (nodes g)"
      "mo ?g = insert (r, t) (mo g)" "getRMW (nodes ?g) = getRMW (nodes g)"
      "hasCycles ?g = hasCycles g"
      using 2(3-5) H same by (auto simp: graph_simps heap_ok_addEdge fun_eq_iff mo_edges_iff
          \<open>added \<longleftrightarrow> _\<close>)
    have names: "getNode_noCreate ?g = getNode_noCreate g"
      by (rule ext, case_tac x) auto
    have step: "transfer_edges (t # es) r g = transfer_edges es r ?g"
      using False add by simp
    have "heap_ok (nodes (transfer_edges es r ?g)) \<and>
      length (nodes (transfer_edges es r ?g)) = length (nodes ?g) \<and>
      mo (transfer_edges es r ?g) = mo ?g \<union> {(r, t) | t. t \<in> set es \<and> t \<noteq> r} \<and>
      getRMW (nodes (transfer_edges es r ?g)) = getRMW (nodes ?g) \<and>
      getNode_noCreate (transfer_edges es r ?g) = getNode_noCreate ?g \<and>
      hasCycles (transfer_edges es r ?g) = hasCycles ?g"
      by (rule 2(1) [OF False add [symmetric] refl]) (use 2(4,5) g in auto)
    then show ?thesis unfolding step using g names False by auto
  qed
qed auto

lemma heap_ok_setRMW:
  assumes "heap_ok H" and "f < length H" and "r < length H" and "f \<noteq> r" and "getRMW H r = None"
  shows "heap_ok (snd (node_setRMW f r H))"
proof (cases "getRMW H f = None")
  case True
  then have rel: "rmw_rel (snd (node_setRMW f r H)) = insert (f, r) (rmw_rel H)"
    using assms by (auto simp: rmw_rel_def graph_simps split: if_splits)
  have "(r, f) \<notin> (rmw_rel H)\<^sup>*"
    using assms(4,5) by (auto simp: rmw_rel_def elim: converse_rtranclE)
  then have "acyclic (rmw_rel (snd (node_setRMW f r H)))"
    using assms(1) by (simp add: rel acyclic_insert_iff heap_ok_def)
  then show ?thesis using assms by (simp add: heap_ok_def graph_simps)
next
  case False
  then show ?thesis using assms by (simp add: node_setRMW_def)
qed

lemma addRMWNodes_eq:
  assumes "getRMW (nodes g) r = None"
  shows "addRMWNodes f r g = map_option snd (addNodeEdge f r
     (transfer_edges (edges_of (nodes g) f) r
       (if getRMW (nodes g) f \<noteq> None then g\<lparr>hasCycles := True\<rparr>
        else g\<lparr>nodes := snd (node_setRMW f r (nodes g)),
               rmwrollbackvector := rmwrollbackvector g @ [f]\<rparr>)))"
  using assms
  by (simp add: addRMWNodes_def split_beta fst_node_setRMW Let_def edges_of_setRMW)

text \<open>
  The precondition of \<open>addRMWEdge\<close>, from its comments: the RMW is not read from by another
  RMW, it reads from no other store, and either it has no incoming edge yet or the store it
  reads from has no outgoing edge.
\<close>

definition rmw_edge_pre :: "node_heap \<Rightarrow> nat \<Rightarrow> nat \<Rightarrow> bool" where
  "rmw_edge_pre H f r \<longleftrightarrow> f \<noteq> r \<and> getRMW H r = None \<and> (\<forall>n. getRMW H n \<noteq> Some r) \<and>
     ((\<forall>x. (x, r) \<notin> mo_edges H) \<or> edges_of H f = [])"

lemma addRMWNodes_taken:
  assumes ok: "graph_ok g" and fr: "f < length (nodes g)" "r < length (nodes g)"
    and pre: "rmw_edge_pre (nodes g) f r" and taken: "getRMW (nodes g) f \<noteq> None"
  shows "\<exists>g'. addRMWNodes f r g = Some g' \<and> graph_ok g' \<and> hasCycles g' \<and>
    getNode_noCreate g' = getNode_noCreate g \<and> length (nodes g') = length (nodes g)"
proof -
  define g1 where "g1 = g\<lparr>hasCycles := True\<rparr>"
  define g2 where "g2 = transfer_edges (edges_of (nodes g) f) r g1"
  have names1: "getNode_noCreate g1 = getNode_noCreate g"
    by (rule ext, case_tac x) (auto simp: g1_def)
  have n1: "nodes g1 = nodes g" "hasCycles g1" by (simp_all add: g1_def)
  have es: "set (edges_of (nodes g) f) \<subseteq> {..< length (nodes g1)}" and h1: "heap_ok (nodes g1)"
    using ok n1 by (simp_all add: graph_ok_def heap_ok_def)
  have "r < length (nodes g1)" using fr n1 by simp
  from transfer_edges_step [OF h1 this es]
  have g2: "heap_ok (nodes g2)" "length (nodes g2) = length (nodes g)" "hasCycles g2"
    "getNode_noCreate g2 = getNode_noCreate g"
    unfolding g2_def by (auto simp: names1 n1)
  then have "graph_ok g2" using ok by (simp add: graph_ok_def)
  moreover have "f < length (nodes g2)" "r < length (nodes g2)" using fr g2(2) by simp_all
  ultimately obtain b g' where "addNodeEdge f r g2 = Some (b, g')" "graph_ok g'"
    "length (nodes g') = length (nodes g2)" "getNode_noCreate g' = getNode_noCreate g2"
    "hasCycles g' \<longleftrightarrow> hasCycles g2 \<or> \<not> acyclic (mo g')"
    using addNodeEdge_step by blast
  moreover have "addRMWNodes f r g = map_option snd (addNodeEdge f r g2)"
    using pre taken by (simp add: addRMWNodes_eq rmw_edge_pre_def g2_def g1_def)
  ultimately show ?thesis using g2(2-4) by simp
qed

lemma addRMWNodes_fresh:
  assumes ok: "graph_ok g" and fr: "f < length (nodes g)" "r < length (nodes g)"
    and pre: "rmw_edge_pre (nodes g) f r" and free: "getRMW (nodes g) f = None"
  shows "\<exists>g'. addRMWNodes f r g = Some g' \<and> graph_ok g' \<and>
    getNode_noCreate g' = getNode_noCreate g \<and> length (nodes g') = length (nodes g) \<and>
    getRMW (nodes g') = (getRMW (nodes g))(f \<mapsto> r) \<and>
    mo g' = insert (f, r) (mo g \<union> {(r, t) | t. (f, t) \<in> mo g \<and> t \<noteq> r}) \<and>
    (hasCycles g' \<longleftrightarrow> hasCycles g \<or> \<not> acyclic (mo g'))"
proof -
  define g1 where "g1 = g\<lparr>nodes := snd (node_setRMW f r (nodes g)),
    rmwrollbackvector := rmwrollbackvector g @ [f]\<rparr>"
  define g2 where "g2 = transfer_edges (edges_of (nodes g) f) r g1"
  have heap: "heap_ok (nodes g)" and tables: "\<forall>x n. getNode_noCreate g x = Some n \<longrightarrow> n < length (nodes g)"
    using ok by (simp_all add: graph_ok_def)
  have names1: "getNode_noCreate g1 = getNode_noCreate g"
    by (rule ext, case_tac x) (auto simp: g1_def)
  have heap1: "heap_ok (nodes g1)"
    using heap_ok_setRMW [OF heap fr] pre by (simp add: g1_def rmw_edge_pre_def)
  have len1: "length (nodes g1) = length (nodes g)" and mo1: "mo g1 = mo g"
    and rmw1: "getRMW (nodes g1) = (getRMW (nodes g))(f \<mapsto> r)" and cyc1: "hasCycles g1 = hasCycles g"
    using free fr by (auto simp: g1_def graph_simps)
  have es: "set (edges_of (nodes g) f) \<subseteq> {..< length (nodes g1)}"
    using heap by (simp add: len1 heap_ok_def)
  have r1: "r < length (nodes g1)" using fr len1 by simp
  note tr = transfer_edges_step [OF heap1 r1 es, folded g2_def]
  then have heap2: "heap_ok (nodes g2)" and len2: "length (nodes g2) = length (nodes g)"
    and mo2: "mo g2 = mo g \<union> {(r, t) | t. (f, t) \<in> mo g \<and> t \<noteq> r}"
    and rmw2: "getRMW (nodes g2) = (getRMW (nodes g))(f \<mapsto> r)"
    and names2: "getNode_noCreate g2 = getNode_noCreate g" and cyc2: "hasCycles g2 = hasCycles g"
    using len1 mo1 rmw1 names1 cyc1 by (auto simp: mo_edges_iff)
  have notin: "(f, r) \<notin> mo g"
    using pre by (auto simp: rmw_edge_pre_def mo_edges_iff)
  then have notin2: "(f, r) \<notin> mo g2" using mo2 by auto
  have f2: "f < length (nodes g2)" and r2: "r < length (nodes g2)" using fr len2 by auto
  have add: "addNodeEdge f r g2 = Some (True, chain_edge f r g2)"
    using heap2 f2 r2
  proof (cases rule: addNodeEdge_cases)
    case (two e r')
    then have "r' = r" using rmw2 by simp
    have "getRMW (nodes g2) r = None" using rmw2 pre by (auto simp: rmw_edge_pre_def)
    then have "e = r" using two(3) \<open>r' = r\<close> by (auto simp: rmw_rel_def elim: converse_rtranclE)
    with two show ?thesis by simp
  qed (use notin2 in auto)
  let ?g = "chain_edge f r g2"
  have mo3: "mo ?g = insert (f, r) (mo g2)" using f2 by (simp add: mo_chain_edge)
  have rmw3: "getRMW (nodes ?g) = (getRMW (nodes g))(f \<mapsto> r)"
    using rmw2 by (auto simp: fun_eq_iff graph_simps)
  have acyc2: "acyclic (mo g2)" if "\<not> hasCycles g"
  proof -
    from that ok have a: "acyclic (mo g)" by (simp add: graph_ok_def)
    have eq: "mo g2 = mo g \<union> {r} \<times> {t. (f, t) \<in> mo g \<and> t \<noteq> r}" using mo2 by auto
    from pre consider "\<forall>x. (x, r) \<notin> mo g" | "edges_of (nodes g) f = []"
      by (auto simp: rmw_edge_pre_def)
    then show ?thesis
    proof cases
      case 1
      then show ?thesis unfolding eq by (intro acyclic_source [OF a]) auto
    next
      case 2
      then have e: "{t. (f, t) \<in> mo g \<and> t \<noteq> r} = {}" by (simp add: mo_edges_iff)
      show ?thesis unfolding eq e using a by simp
    qed
  qed
  then have exact: "hasCycles ?g \<longleftrightarrow> hasCycles g \<or> \<not> acyclic (mo ?g)"
    using chain_edge_exact [of g2 f r] f2 cyc2 by simp
  have "rmw_ok (nodes ?g)" if rok: "rmw_ok (nodes g)"
  proof -
    have mono: "(a, b) \<in> (mo ?g)\<^sup>+" if "(a, b) \<in> (mo g)\<^sup>+" for a b
      using that by (rule trancl_mono) (auto simp: mo3 mo2)
    have "(n, x) \<in> mo ?g \<and> (\<forall>t. (n, t) \<in> mo ?g \<longrightarrow> t = x \<or> (x, t) \<in> (mo ?g)\<^sup>+)"
      if nx: "getRMW (nodes ?g) n = Some x" for n x
    proof (cases "n = f")
      case True
      then have "x = r" using nx rmw3 by simp
      then show ?thesis using True pre by (auto simp: mo3 mo2 rmw_edge_pre_def)
    next
      case False
      then have nx': "getRMW (nodes g) n = Some x" using nx rmw3 by simp
      then have "n \<noteq> r" using pre by (auto simp: rmw_edge_pre_def)
      then have "(n, t) \<in> mo ?g \<longleftrightarrow> (n, t) \<in> mo g" for t using False by (auto simp: mo3 mo2)
      then show ?thesis using rok nx' mono unfolding rmw_ok_def by metis
    qed
    moreover have "m = n" if "getRMW (nodes ?g) m = Some x" "getRMW (nodes ?g) n = Some x" for m n x
      using that rok pre unfolding rmw3 rmw_ok_def rmw_edge_pre_def
      by (auto split: if_splits)
    ultimately show ?thesis unfolding rmw_ok_def by blast
  qed
  moreover have "heap_ok (nodes ?g)"
    using heap2 f2 r2 by (simp add: chain_edge_fields heap_ok_addEdge)
  ultimately have "graph_ok ?g"
    using ok exact tables unfolding graph_ok_def
    by (simp add: getNode_noCreate_chain_edge length_chain_edge names2 len2)
  moreover have "addRMWNodes f r g = Some ?g"
    using pre free add by (simp add: addRMWNodes_eq rmw_edge_pre_def g2_def g1_def)
  ultimately show ?thesis using exact rmw3 mo3 mo2 names2 len2
    by (auto simp: getNode_noCreate_chain_edge length_chain_edge fun_eq_iff)
qed

end
