(* ===== verification/CycleRollback.thy ===== *)
theory CycleRollback
  imports CycleGraph
begin

text \<open>
  Rolling back: the edges and RMW pointers added since \<open>startChanges\<close> are undone by
  \<open>rollbackChanges\<close>, whatever sequence of \<open>addEdge\<close> and \<open>addRMWEdge\<close> calls was made.
\<close>

section \<open>The heap invariant without the chain condition\<close>

definition heap_wf :: "node_heap \<Rightarrow> bool" where
  "heap_wf H \<longleftrightarrow>
     (\<forall>n. set (edges_of H n) \<subseteq> {..< length H}) \<and>
     (\<forall>n. distinct (edges_of H n)) \<and> (\<forall>n. distinct (back_edges_of H n)) \<and>
     (\<forall>a b. b \<in> set (edges_of H a) \<longleftrightarrow> a \<in> set (back_edges_of H b)) \<and>
     (\<forall>n r. getRMW H n = Some r \<longrightarrow> r < length H)"

lemma heap_ok_wf: "heap_ok H \<longleftrightarrow> heap_wf H \<and> acyclic (rmw_rel H)"
  by (auto simp: heap_ok_def heap_wf_def)

lemma heap_wf_addEdge:
  "heap_wf H \<Longrightarrow> n < length H \<Longrightarrow> t < length H \<Longrightarrow> heap_wf (snd (node_addEdge n t H))"
  by (auto simp: heap_wf_def graph_simps)

lemma heap_wf_setRMW:
  "heap_wf H \<Longrightarrow> n < length H \<Longrightarrow> r < length H \<Longrightarrow> heap_wf (snd (node_setRMW n r H))"
  by (simp add: heap_wf_def graph_simps)

lemma heap_wf_new_node: "heap_wf H \<Longrightarrow> heap_wf (H @ [new_node x])"
  by (fastforce simp: heap_wf_def graph_simps lessThan_Suc intro: less_SucI)

lemma heap_wf_edges: "heap_wf H \<Longrightarrow> set (edges_of H n) \<subseteq> {..< length H}"
  unfolding heap_wf_def by blast

lemma heap_wf_mirror:
  "heap_wf H \<Longrightarrow> a \<in> set (back_edges_of H b) \<longleftrightarrow> b \<in> set (edges_of H a)"
  unfolding heap_wf_def by blast

lemma heap_wf_removeEdge:
  assumes "heap_wf H"
  shows "heap_wf (snd (node_removeEdge n H))"
proof (cases "edges_of H n = []")
  case True
  then show ?thesis using assms by (simp add: node_removeEdge_def)
next
  case False
  let ?H = "snd (node_removeEdge n H)"
  have es: "edges_of H n = butlast (edges_of H n) @ [last (edges_of H n)]" using False by simp
  have d: "distinct (edges_of H n)" using assms by (simp add: heap_wf_def)
  have last: "last (edges_of H n) \<notin> set (butlast (edges_of H n))"
    using d by (subst (asm) es) simp
  have in_es: "b \<in> set (edges_of H n) \<longleftrightarrow> b \<in> set (butlast (edges_of H n)) \<or> b = last (edges_of H n)" for b
    by (subst es) auto
  have mir: "b \<in> set (edges_of H a) \<longleftrightarrow> a \<in> set (back_edges_of H b)" for a b
    using assms by (simp add: heap_wf_def)
  have db: "distinct (back_edges_of H b)" for b using assms by (simp add: heap_wf_def)
  have be: "back_edges_of ?H m = (if m = last (edges_of H n) then remove1 n (back_edges_of H m)
      else back_edges_of H m)" for m
    using back_edges_of_removeEdge [OF heap_wf_edges [OF assms]] False by simp
  have "b \<in> set (edges_of ?H a) \<longleftrightarrow> a \<in> set (back_edges_of ?H b)" for a b
    using last mir [of b a] in_es [of b] db by (auto simp: edges_of_removeEdge be set_remove1_eq)
  moreover have "set (edges_of ?H m) \<subseteq> {..< length H}" for m
    using heap_wf_edges [OF assms, of m] by (auto simp: edges_of_removeEdge dest: in_set_butlastD)
  moreover have "distinct (edges_of ?H m)" for m
    using assms by (simp add: edges_of_removeEdge heap_wf_def distinct_butlast)
  moreover have "distinct (back_edges_of ?H m)" for m
    using db by (simp add: be)
  moreover have "getRMW ?H m = Some r \<Longrightarrow> r < length H" for m r
    using assms by (simp add: getRMW_removeEdge heap_wf_def)
  ultimately show ?thesis unfolding heap_wf_def length_node_removeEdge by blast
qed

lemma rmw_walk_lt:
  assumes wf: "heap_wf H" and walk: "rmw_walk H t r = Some e" and r: "r < length H"
  shows "e < length H"
proof -
  have "heap_wf H \<longrightarrow> r < length H \<longrightarrow> e < length H"
  proof (rule rmw_walk.raw_induct [OF _ walk])
    fix walk H t r e
    assume IH: "\<And>H' t' r' e'. walk H' t' r' = Some e' \<Longrightarrow>
        heap_wf H' \<longrightarrow> r' < length H' \<longrightarrow> e' < length H'"
      and step: "(if r \<noteq> t then case getRMW H r of None \<Rightarrow> Some r | Some r' \<Rightarrow> walk H t r'
        else Some r) = Some e"
    have "r' < length H" if "heap_wf H" "getRMW H r = Some r'" for r'
      using that unfolding heap_wf_def by blast
    then show "heap_wf H \<longrightarrow> r < length H \<longrightarrow> e < length H"
      using IH step by (auto split: if_splits option.splits)
  qed
  with wf r show ?thesis by simp
qed

section \<open>What has changed since the last commit\<close>

text \<open>
  \<open>since g0 g\<close>: \<open>g\<close> arose from \<open>g0\<close> by pending additions. Every edge list of \<open>g0\<close> is a
  prefix of the list in \<open>g\<close>, and the rollback vectors hold one entry per addition.
\<close>

definition extends :: "node_heap \<Rightarrow> node_heap \<Rightarrow> nat list \<Rightarrow> bool" where
  "extends H0 H rb \<longleftrightarrow> heap_wf H0 \<and> heap_wf H \<and> length H0 \<le> length H \<and>
     (\<forall>n. \<exists>ext. edges_of H n = edges_of H0 n @ ext \<and> length ext = count_list rb n) \<and>
     (\<forall>n. \<exists>ext. back_edges_of H n = back_edges_of H0 n @ ext)"

definition since :: "cycle_graph \<Rightarrow> cycle_graph \<Rightarrow> bool" where
  "since g0 g \<longleftrightarrow> extends (nodes g0) (nodes g) (rollbackvector g) \<and>
     (\<forall>n. if n \<in> set (rmwrollbackvector g) then getRMW (nodes g0) n = None
          else getRMW (nodes g) n = getRMW (nodes g0) n) \<and>
     oldCycles g = hasCycles g0 \<and>
     (\<forall>x n. getNode_noCreate g x = Some n \<longrightarrow> n < length (nodes g))"

lemma count_list_snoc: "count_list (xs @ [y]) x = count_list xs x + (if x = y then 1 else 0)"
  by simp

lemma extends_addEdge:
  assumes "extends H0 H rb" and "n < length H" and "t < length H" and "t \<notin> set (edges_of H n)"
  shows "extends H0 (snd (node_addEdge n t H)) (rb @ [n])"
proof -
  have "\<exists>ext. edges_of (snd (node_addEdge n t H)) m = edges_of H0 m @ ext \<and>
      length ext = count_list (rb @ [n]) m" for m
  proof -
    obtain ext where "edges_of H m = edges_of H0 m @ ext" "length ext = count_list rb m"
      using assms(1) unfolding extends_def by blast
    then show ?thesis using assms(2,4)
      by (intro exI [of _ "if m = n then ext @ [t] else ext"]) (auto simp: edges_of_addEdge)
  qed
  moreover have "\<exists>ext. back_edges_of (snd (node_addEdge n t H)) m = back_edges_of H0 m @ ext" for m
  proof -
    obtain ext where "back_edges_of H m = back_edges_of H0 m @ ext"
      using assms(1) unfolding extends_def by blast
    then show ?thesis using assms(2-4)
      by (intro exI [of _ "if m = t then ext @ [n] else ext"]) (auto simp: back_edges_of_addEdge)
  qed
  ultimately show ?thesis using assms
    unfolding extends_def by (simp add: heap_wf_addEdge length_node_addEdge)
qed

lemma extends_same:
  "extends H0 H rb \<Longrightarrow> heap_wf H' \<Longrightarrow> edges_of H' = edges_of H \<Longrightarrow>
   back_edges_of H' = back_edges_of H \<Longrightarrow> length H \<le> length H' \<Longrightarrow> extends H0 H' rb"
  by (simp add: extends_def)

lemma extends_removeEdge:
  assumes "extends H0 H (n # rb)"
  shows "extends H0 (snd (node_removeEdge n H)) rb"
proof -
  have wf0: "heap_wf H0" and wf: "heap_wf H" using assms by (simp_all add: extends_def)
  obtain ext where ext: "edges_of H n = edges_of H0 n @ ext" "length ext = Suc (count_list rb n)"
    using assms unfolding extends_def by (metis Suc_eq_plus1 count_list.simps(2))
  then have ne: "ext \<noteq> []" by auto
  let ?H = "snd (node_removeEdge n H)" and ?b = "last (edges_of H n)"
  have b: "?b = last ext" using ext ne by simp
  have dist: "distinct (edges_of H n)" using wf by (simp add: heap_wf_def)
  then have "?b \<notin> set (edges_of H0 n)" using ext ne unfolding b by auto
  then have nb: "n \<notin> set (back_edges_of H0 ?b)" using wf0 by (simp add: heap_wf_def)
  have "\<exists>x. edges_of ?H m = edges_of H0 m @ x \<and> length x = count_list rb m" for m
  proof (cases "m = n")
    case True
    then show ?thesis using ext ne
      by (intro exI [of _ "butlast ext"]) (simp add: edges_of_removeEdge butlast_append)
  next
    case False
    obtain x where "edges_of H m = edges_of H0 m @ x" "length x = count_list (n # rb) m"
      using assms unfolding extends_def by blast
    then show ?thesis using False by (simp add: edges_of_removeEdge)
  qed
  moreover have "\<exists>x. back_edges_of ?H m = back_edges_of H0 m @ x" for m
  proof -
    obtain x where x: "back_edges_of H m = back_edges_of H0 m @ x"
      using assms unfolding extends_def by blast
    then show ?thesis using nb ext ne
      by (auto simp: back_edges_of_removeEdge [OF heap_wf_edges [OF wf]] remove1_append)
  qed
  ultimately show ?thesis
    using assms heap_wf_removeEdge [OF wf] unfolding extends_def by (simp add: length_node_removeEdge)
qed

lemma extends_fold:
  "extends H0 H rb \<Longrightarrow> extends H0 (fold (\<lambda>n H. snd (node_removeEdge n H)) rb H) []"
  by (induction rb arbitrary: H) (auto dest: extends_removeEdge)

lemma extends_Nil:
  assumes "extends H0 H []"
  shows "edges_of H = edges_of H0 \<and> back_edges_of H = back_edges_of H0"
proof -
  have wf: "heap_wf H0" "heap_wf H" using assms by (simp_all add: extends_def)
  have e: "edges_of H n = edges_of H0 n" for n
    using assms unfolding extends_def by (metis append_Nil2 count_list.simps(1) length_0_conv)
  moreover have "back_edges_of H n = back_edges_of H0 n" for n
  proof -
    obtain ext where ext: "back_edges_of H n = back_edges_of H0 n @ ext"
      using assms unfolding extends_def by blast
    have "set (back_edges_of H n) = set (back_edges_of H0 n)"
      using heap_wf_mirror [OF wf(1)] heap_wf_mirror [OF wf(2)] e by auto
    moreover have "distinct (back_edges_of H n)" using wf by (simp add: heap_wf_def)
    ultimately show ?thesis using ext by (cases ext) auto
  qed
  ultimately show ?thesis by blast
qed

section \<open>Every operation stays undoable\<close>

lemma since_same_tables:
  assumes "since g0 g" and "extends (nodes g0) (nodes g') (rollbackvector g')"
    and "getRMW (nodes g') = getRMW (nodes g)" and "oldCycles g' = oldCycles g"
    and "rmwrollbackvector g' = rmwrollbackvector g" and "length (nodes g) \<le> length (nodes g')"
    and "\<And>x n. getNode_noCreate g' x = Some n \<Longrightarrow>
      getNode_noCreate g x = Some n \<or> n < length (nodes g')"
  shows "since g0 g'"
  using assms unfolding since_def by (metis (no_types, lifting) order_less_le_trans)

lemma since_wf: "since g0 g \<Longrightarrow> heap_wf (nodes g)"
  by (simp add: since_def extends_def)

lemma since_chain_edge:
  assumes "since g0 g" and "n < length (nodes g)" and "t < length (nodes g)"
  shows "since g0 (chain_edge n t g)"
proof (rule since_same_tables [OF assms(1)])
  show "extends (nodes g0) (nodes (chain_edge n t g)) (rollbackvector (chain_edge n t g))"
  proof (cases "t \<in> set (edges_of (nodes g) n)")
    case True
    then show ?thesis using assms by (simp add: chain_edge_fields node_addEdge_def since_def)
  next
    case False
    then show ?thesis using assms extends_addEdge
      by (simp add: chain_edge_fields since_def)
  qed
qed (simp_all add: chain_edge_fields graph_simps fun_eq_iff)

lemma since_addNodeEdge:
  assumes "since g0 g" and "f < length (nodes g)" and "t < length (nodes g)"
    and "addNodeEdge f t g = Some (b, g')"
  shows "since g0 g'"
proof -
  let ?g1 = "chain_edge f t g"
  have s1: "since g0 ?g1" using since_chain_edge [OF assms(1-3)] .
  have lt: "e < length (nodes g)" if "getRMW (nodes g) f = Some r" "rmw_walk (nodes ?g1) t r = Some e" for r e
  proof -
    have "r < length (nodes g)" using since_wf [OF assms(1)] that(1) unfolding heap_wf_def by blast
    then show ?thesis using rmw_walk_lt [OF since_wf [OF s1] that(2)] by (simp add: length_chain_edge)
  qed
  show ?thesis
  proof (cases "t \<in> set (edges_of (nodes g) f)")
    case True
    then show ?thesis using assms by (simp add: addNodeEdge_eq)
  next
    case notin: False
    show ?thesis
    proof (cases "getRMW (nodes g) f")
      case None
      then show ?thesis using assms(4) s1 notin by (simp add: addNodeEdge_eq)
    next
      case (Some r)
      then obtain e where e: "rmw_walk (nodes ?g1) t r = Some e"
        and g': "g' = (if e \<noteq> t then chain_edge e t ?g1 else ?g1)"
        using assms(4) notin by (auto simp: addNodeEdge_eq)
      have "since g0 (chain_edge e t ?g1)"
        using since_chain_edge [OF s1] lt [OF Some e] assms(3) by (simp add: length_chain_edge)
      then show ?thesis using g' s1 by simp
    qed
  qed
qed

lemma since_transfer_edges:
  "since g0 g \<Longrightarrow> r < length (nodes g) \<Longrightarrow> set es \<subseteq> {..< length (nodes g)} \<Longrightarrow>
   since g0 (transfer_edges es r g) \<and> length (nodes (transfer_edges es r g)) = length (nodes g)"
proof (induction es r g rule: transfer_edges.induct)
  case (2 t es r g)
  show ?case
  proof (cases "t = r")
    case True
    then show ?thesis using 2 by auto
  next
    case False
    obtain added H where add: "node_addEdge r t (nodes g) = (added, H)" by fastforce
    have H: "H = snd (node_addEdge r t (nodes g))" and new: "added \<longleftrightarrow> t \<notin> set (edges_of (nodes g) r)"
      using add fst_node_addEdge [of r t "nodes g"] by simp_all
    let ?g = "if added then g\<lparr>nodes := H, rollbackvector := rollbackvector g @ [r]\<rparr> else g"
    have g: "length (nodes ?g) = length (nodes g)"
      using H by (simp add: graph_simps)
    have names: "getNode_noCreate ?g = getNode_noCreate g"
      by (rule ext, case_tac x) auto
    have "since g0 ?g"
    proof (rule since_same_tables [OF 2(3)])
      show "extends (nodes g0) (nodes ?g) (rollbackvector ?g)"
        using 2(3-5) H new extends_addEdge [of "nodes g0" "nodes g" "rollbackvector g" r t]
        by (auto simp: since_def)
    qed (use H g names in \<open>auto simp: graph_simps fun_eq_iff\<close>)
    from 2(1) [OF False add [symmetric] refl this] 2(4,5) g
    show ?thesis using False add by simp
  qed
qed simp

lemma since_addRMWNodes:
  assumes "since g0 g" and "f < length (nodes g)" and "r < length (nodes g)"
    and "addRMWNodes f r g = Some g'"
  shows "since g0 g'"
proof -
  let ?g1 = "if getRMW (nodes g) f \<noteq> None then g\<lparr>hasCycles := True\<rparr>
        else g\<lparr>nodes := snd (node_setRMW f r (nodes g)),
               rmwrollbackvector := rmwrollbackvector g @ [f]\<rparr>"
  let ?g2 = "transfer_edges (edges_of (nodes g) f) r ?g1"
  have wf: "heap_wf (nodes g)" using assms(1) by (rule since_wf)
  have "getRMW (nodes g) r = None" using assms(4) by (simp add: addRMWNodes_def split: if_splits)
  from assms(4) obtain b where b: "addNodeEdge f r ?g2 = Some (b, g')"
    unfolding addRMWNodes_eq [OF \<open>getRMW (nodes g) r = None\<close>] by auto
  have len1: "length (nodes ?g1) = length (nodes g)" by (simp add: graph_simps)
  have names: "getNode_noCreate ?g1 x = getNode_noCreate g x" for x by (cases x) auto
  have "since g0 ?g1"
  proof (cases "getRMW (nodes g) f = None")
    case False
    then show ?thesis using since_same_tables [OF assms(1), of ?g1] assms(1) names
      by (simp add: since_def)
  next
    case True
    have "extends (nodes g0) (snd (node_setRMW f r (nodes g))) (rollbackvector g)"
    proof (rule extends_same)
      show "extends (nodes g0) (nodes g) (rollbackvector g)" using assms(1) by (simp add: since_def)
      show "heap_wf (snd (node_setRMW f r (nodes g)))" using wf assms(2,3) by (rule heap_wf_setRMW)
    qed (simp_all add: graph_simps fun_eq_iff)
    moreover have "getRMW (nodes g0) f = None" 
      using assms(1) True unfolding since_def by metis
    ultimately show ?thesis using assms(1,2) True names len1 unfolding since_def
      by (auto simp: getRMW_setRMW)
  qed
  moreover have "set (edges_of (nodes g) f) \<subseteq> {..< length (nodes ?g1)}"
    using heap_wf_edges [OF wf] len1 by simp
  ultimately have "since g0 ?g2" "length (nodes ?g2) = length (nodes g)"
    using since_transfer_edges [of g0 ?g1 r "edges_of (nodes g) f"] assms(3) len1 by auto
  then show ?thesis using since_addNodeEdge [OF _ _ _ b] assms(2,3) by simp
qed

lemma since_getNode:
  assumes "since g0 g" and "getNode x g = (n, g')"
  shows "since g0 g' \<and> n < length (nodes g') \<and> length (nodes g) \<le> length (nodes g')"
proof (cases "getNode_noCreate g x")
  case (Some m)
  then show ?thesis using assms by (auto simp: getNode_def since_def)
next
  case None
  then have g': "g' = putNode x (length (nodes g)) (g\<lparr>nodes := nodes g @ [new_node x]\<rparr>)"
    and n: "n = length (nodes g)"
    using assms(2) by (auto simp: getNode_def Let_def)
  have "since g0 g'"
  proof (rule since_same_tables [OF assms(1)])
    show "extends (nodes g0) (nodes g') (rollbackvector g')"
      using assms(1) heap_wf_new_node unfolding g'
      by (auto simp: since_def extends_def graph_simps)
  qed (auto simp: g' graph_simps fun_eq_iff split: if_splits)
  then show ?thesis by (simp add: g' n graph_simps)
qed

section \<open>Transactions\<close>

datatype graph_op = Op_addEdge mo_obj mo_obj | Op_addRMWEdge mo_obj aid

fun run_op :: "graph_op \<Rightarrow> cycle_graph \<Rightarrow> cycle_graph option" where
  "run_op (Op_addEdge a b) g = map_option snd (addEdge a b g)"
| "run_op (Op_addRMWEdge a r) g = addRMWEdge a r g"

fun run_ops :: "graph_op list \<Rightarrow> cycle_graph \<Rightarrow> cycle_graph option" where
  "run_ops [] g = Some g"
| "run_ops (op # ops) g = do { g1 \<leftarrow> run_op op g; run_ops ops g1 }"

lemma since_run_op:
  assumes "since g0 g" and "run_op op g = Some g'"
  shows "since g0 g'"
proof (cases op)
  case (Op_addEdge a b)
  obtain f g1 where f: "getNode a g = (f, g1)" by fastforce
  obtain t g2 where t: "getNode b g1 = (t, g2)" by fastforce
  have s1: "since g0 g1" "f < length (nodes g1)" using since_getNode [OF assms(1) f] by simp_all
  have s2: "since g0 g2" "t < length (nodes g2)" "f < length (nodes g2)"
    using since_getNode [OF s1(1) t] s1(2) by simp_all
  obtain c where "addNodeEdge f t g2 = Some (c, g')"
    using assms(2) Op_addEdge by (auto simp: addEdge_def f t)
  then show ?thesis using since_addNodeEdge [OF s2(1,3,2)] by blast
next
  case (Op_addRMWEdge a r)
  obtain f g1 where f: "getNode a g = (f, g1)" by fastforce
  obtain t g2 where t: "getNode (ActObj r) g1 = (t, g2)" by fastforce
  have s1: "since g0 g1" "f < length (nodes g1)" using since_getNode [OF assms(1) f] by simp_all
  have s2: "since g0 g2" "t < length (nodes g2)" "f < length (nodes g2)"
    using since_getNode [OF s1(1) t] s1(2) by simp_all
  have "addRMWNodes f t g2 = Some g'"
    using assms(2) Op_addRMWEdge by (simp add: addRMWEdge_def f t)
  then show ?thesis using since_addRMWNodes [OF s2(1,3,2)] by blast
qed

lemma since_run_ops: "since g0 g \<Longrightarrow> run_ops ops g = Some g' \<Longrightarrow> since g0 g'"
  by (induction ops arbitrary: g) (auto simp: bind_eq_Some_conv dest: since_run_op)

definition graph_wf :: "cycle_graph \<Rightarrow> bool" where
  "graph_wf g \<longleftrightarrow> heap_wf (nodes g) \<and> (\<forall>x n. getNode_noCreate g x = Some n \<longrightarrow> n < length (nodes g))"

lemma graph_ok_wf: "graph_ok g \<Longrightarrow> graph_wf g"
  by (simp add: graph_ok_def graph_wf_def heap_ok_wf)

lemma since_start:
  assumes "graph_wf g" and "startChanges g = Some g'"
  shows "since g g"
  using assms by (auto simp: startChanges_def since_def extends_def graph_wf_def split: if_splits)

lemma fold_clearRMW:
  "edges_of (fold node_clearRMW ns H) = edges_of H \<and>
   back_edges_of (fold node_clearRMW ns H) = back_edges_of H \<and>
   length (fold node_clearRMW ns H) = length H \<and>
   getRMW (fold node_clearRMW ns H) = (\<lambda>m. if m \<in> set ns then None else getRMW H m)"
  by (induction ns arbitrary: H) (auto simp: graph_simps fun_eq_iff)

lemma fold_removeEdge:
  "length (fold (\<lambda>n H. snd (node_removeEdge n H)) ns H) = length H \<and>
   getRMW (fold (\<lambda>n H. snd (node_removeEdge n H)) ns H) = getRMW H"
  by (induction ns arbitrary: H) (auto simp: graph_simps fun_eq_iff)

lemma rollback_since:
  assumes "since g0 g"
  shows "edges_of (nodes (rollbackChanges g)) = edges_of (nodes g0) \<and>
    back_edges_of (nodes (rollbackChanges g)) = back_edges_of (nodes g0) \<and>
    getRMW (nodes (rollbackChanges g)) = getRMW (nodes g0) \<and>
    hasCycles (rollbackChanges g) = hasCycles g0 \<and>
    oldCycles (rollbackChanges g) = hasCycles g0 \<and>
    rollbackvector (rollbackChanges g) = [] \<and> rmwrollbackvector (rollbackChanges g) = [] \<and>
    length (nodes g0) \<le> length (nodes (rollbackChanges g)) \<and>
    getNode_noCreate (rollbackChanges g) = getNode_noCreate g \<and>
    length (nodes (rollbackChanges g)) = length (nodes g)"
proof -
  have ext: "extends (nodes g0) (nodes g) (rollbackvector g)" using assms by (simp add: since_def)
  note e = extends_Nil [OF extends_fold [OF ext]]
  have "length (nodes g0) \<le> length (nodes g)" using ext by (simp add: extends_def)
  moreover have "getRMW (nodes g0) n =
      (if n \<in> set (rmwrollbackvector g) then None else getRMW (nodes g) n)" for n
    using assms unfolding since_def by (metis (full_types))
  moreover have "oldCycles g = hasCycles g0" using assms by (simp add: since_def)
  moreover have "getNode_noCreate (rollbackChanges g) x = getNode_noCreate g x" for x
    by (cases x) (simp_all add: rollbackChanges_def Let_def)
  ultimately show ?thesis using e
    by (simp add: rollbackChanges_def Let_def fold_clearRMW fold_removeEdge fun_eq_iff)
qed

lemma heap_wf_cong:
  assumes "heap_wf H" and "edges_of H' = edges_of H" and "back_edges_of H' = back_edges_of H"
    and "getRMW H' = getRMW H" and "length H \<le> length H'"
  shows "heap_wf H'"
proof -
  have "set (edges_of H n) \<subseteq> {..< length H'}" for n
    using heap_wf_edges [OF assms(1), of n] assms(5) by auto
  moreover have "r < length H'" if "getRMW H n = Some r" for n r
    using assms(1,5) that unfolding heap_wf_def by (meson order_less_le_trans)
  ultimately show ?thesis using assms(1) unfolding heap_wf_def assms(2-4) by blast
qed

lemma graph_ok_rollback:
  assumes ok: "graph_ok g0" and s: "since g0 g"
  shows "graph_ok (rollbackChanges g)"
proof -
  let ?g = "rollbackChanges g"
  note r = rollback_since [OF s]
  have "mo ?g = mo g0" by (rule edges_eq_rels(1)) (use r in blast)
  moreover have "rmw_rel (nodes ?g) = rmw_rel (nodes g0)" by (rule edges_eq_rels(2)) (use r in blast)
  moreover have "rmw_ok (nodes ?g) = rmw_ok (nodes g0)"
    using r \<open>mo ?g = mo g0\<close> by (simp add: rmw_ok_def)
  moreover have "heap_ok (nodes ?g)"
  proof -
    have "heap_wf (nodes g0)" "acyclic (rmw_rel (nodes g0))"
      using graph_ok_heap [OF ok] by (simp_all add: heap_ok_wf)
    moreover from this have "heap_wf (nodes ?g)"
      by (rule_tac heap_wf_cong) (use r in blast)+
    ultimately show ?thesis
      unfolding heap_ok_wf \<open>rmw_rel (nodes ?g) = rmw_rel (nodes g0)\<close> by blast
  qed
  moreover have "\<forall>x n. getNode_noCreate ?g x = Some n \<longrightarrow> n < length (nodes ?g)"
    using s r by (simp add: since_def)
  ultimately show ?thesis using ok r by (simp add: graph_ok_def)
qed

text \<open>The definitions that evaluate the operations on a concrete graph.\<close>

lemmas graph_eval = addEdge_def addRMWEdge_def addRMWNodes_def addNodeEdge_def chain_edge_def
  getNode_def node_addEdge_def node_setRMW_def getRMW_def edges_of_def CycleGraph_new_def
  CycleNode_action_def CycleNode_promise_def checkReachable_node_def rmw_walk.simps Let_def

section \<open>Properties\<close>

text \<open>
  C15: Rolling back is exact. After any sequence of \<open>addEdge\<close> and \<open>addRMWEdge\<close> calls that
  started from a committed graph, \<open>rollbackChanges\<close> brings back every list of edges and of
  back edges in its old order, every RMW pointer and the cycle flag, and the graph passes the
  assertions of \<open>startChanges\<close> again.
\<close>

theorem rollback_restores:
  assumes "graph_wf g0" and "startChanges g0 = Some g0" and "run_ops ops g0 = Some g"
  shows "edges_of (nodes (rollbackChanges g)) = edges_of (nodes g0) \<and>
    back_edges_of (nodes (rollbackChanges g)) = back_edges_of (nodes g0) \<and>
    getRMW (nodes (rollbackChanges g)) = getRMW (nodes g0) \<and>
    hasCycles (rollbackChanges g) = hasCycles g0 \<and>
    startChanges (rollbackChanges g) = Some (rollbackChanges g)"
  using rollback_since [OF since_run_ops [OF since_start [OF assms(1,2)] assms(3)]]
  by (simp add: startChanges_def)

lemma rollback_restores_witness:
  "edges_of (nodes (rollbackChanges (the (run_ops
     [Op_addEdge (ActObj 1) (ActObj 2), Op_addRMWEdge (ActObj 2) 3, Op_addEdge (ActObj 3) (ActObj 1)]
     CycleGraph_new)))) = (\<lambda>_. [])"
proof -
  obtain g where g: "run_ops [Op_addEdge (ActObj 1) (ActObj 2), Op_addRMWEdge (ActObj 2) 3,
      Op_addEdge (ActObj 3) (ActObj 1)] CycleGraph_new = Some g"
    by (simp add: graph_eval)
  from rollback_restores [OF graph_ok_wf [OF graph_ok_new] _ g] g show ?thesis
    by (simp add: startChanges_def CycleGraph_new_def edges_of_def fun_eq_iff)
qed

end
