(* ===== verification/ModificationOrder.thy ===== *)
theory ModificationOrder
  imports CycleRollback
begin

text \<open>
  What the cycle graph is for: as long as it reports no cycle, the stores have a modification
  order, a total order that respects every edge and puts every RMW right behind the store it
  reads from. The theory also states the operations of the graph at the level of actions and
  promises.
\<close>

section \<open>Positions in a list\<close>

definition before :: "'a list \<Rightarrow> 'a \<Rightarrow> 'a \<Rightarrow> bool" where
  "before xs x y \<longleftrightarrow> (\<exists>us vs ws. xs = us @ x # vs @ y # ws)"

lemma before_mem: "before xs x y \<Longrightarrow> x \<in> set xs \<and> y \<in> set xs"
  by (auto simp: before_def)

lemma before_antisym:
  assumes "distinct xs" and "before xs x y" and "before xs y x"
  shows False
proof -
  from assms(2) obtain us vs ws where xs: "xs = us @ x # vs @ y # ws" by (auto simp: before_def)
  from assms(3) obtain us' vs' ws' where xs': "xs = us' @ y # vs' @ x # ws'" by (auto simp: before_def)
  have x: "x \<notin> set us" "x \<notin> set (vs @ y # ws)" using assms(1) unfolding xs by auto
  have "us @ x # (vs @ y # ws) = (us' @ y # vs') @ x # ws'" using xs xs' by simp
  then have "us = us' @ y # vs'" using append_Cons_eq_iff [OF x, of "us' @ y # vs'" ws'] by blast
  then show False using assms(1) unfolding xs by simp
qed

lemma before_filter: "before xs x y \<Longrightarrow> P x \<Longrightarrow> P y \<Longrightarrow> before (filter P xs) x y"
  by (fastforce simp: before_def)

lemma before_concat_same:
  "a \<in> set rs \<Longrightarrow> before (f a) x y \<Longrightarrow> before (concat (map f rs)) x y"
proof -
  assume "a \<in> set rs" and "before (f a) x y"
  then obtain r1 r2 us vs ws where "rs = r1 @ a # r2" "f a = us @ x # vs @ y # ws"
    by (auto simp: before_def dest: split_list)
  then have "concat (map f rs) = (concat (map f r1) @ us) @ x # vs @ y # (ws @ concat (map f r2))"
    by simp
  then show ?thesis unfolding before_def by blast
qed

lemma before_concat:
  assumes "before rs a b" and "x \<in> set (f a)" and "y \<in> set (f b)"
  shows "before (concat (map f rs)) x y"
proof -
  obtain us vs ws where rs: "rs = us @ a # vs @ b # ws" using assms(1) by (auto simp: before_def)
  obtain a1 a2 where a: "f a = a1 @ x # a2" using split_list [OF assms(2)] by blast
  obtain b1 b2 where b: "f b = b1 @ y # b2" using split_list [OF assms(3)] by blast
  have "concat (map f rs) = (concat (map f us) @ a1) @ x # (a2 @ concat (map f vs) @ b1) @ y #
      (b2 @ concat (map f ws))"
    by (simp add: rs a b)
  then show ?thesis unfolding before_def by blast
qed

lemma before_nth:
  assumes "i < j" and "j < length xs"
  shows "before xs (xs ! i) (xs ! j)"
proof -
  have "xs = take i xs @ xs ! i # drop (Suc i) xs" using assms by (simp add: id_take_nth_drop)
  moreover have "xs ! j \<in> set (drop (Suc i) xs)"
  proof -
    have "drop (Suc i) xs ! (j - Suc i) = xs ! j" "j - Suc i < length (drop (Suc i) xs)"
      using assms by auto
    then show ?thesis by (metis nth_mem)
  qed
  then obtain vs ws where "drop (Suc i) xs = vs @ xs ! j # ws" by (meson split_list)
  ultimately show ?thesis unfolding before_def by metis
qed

lemma topological_list:
  assumes "finite A" and "acyclic r"
  obtains xs where "set xs = A" and "distinct xs"
    and "\<And>x y. x \<in> A \<Longrightarrow> y \<in> A \<Longrightarrow> (x, y) \<in> r \<Longrightarrow> before xs x y"
proof -
  obtain xs where xs: "set xs = A" "distinct xs"
    and ord: "\<And>i j. i < length xs \<Longrightarrow> j < length xs \<Longrightarrow> (xs ! i, xs ! j) \<in> r \<Longrightarrow> i < j"
    using topological_order [OF assms] by blast
  have "before xs x y" if "x \<in> A" "y \<in> A" "(x, y) \<in> r" for x y
  proof -
    obtain i j where "i < length xs" "xs ! i = x" "j < length xs" "xs ! j = y"
      using \<open>x \<in> A\<close> \<open>y \<in> A\<close> xs(1) by (metis in_set_conv_nth)
    with ord [of i j] that(3) before_nth [of i j xs] show ?thesis by simp
  qed
  with xs that show ?thesis by blast
qed

section \<open>The end of an RMW chain\<close>

definition rmw_end :: "node_heap \<Rightarrow> nat \<Rightarrow> nat" where
  "rmw_end H x = the (rmw_walk H (length H) x)"

lemma rmw_end_step:
  assumes "getRMW H x = Some r"
  shows "rmw_end H r = rmw_end H x"
proof -
  have "x \<noteq> length H" using assms by (auto simp: getRMW_def)
  then show ?thesis using assms by (simp add: rmw_end_def rmw_walk.simps [of H "length H" x])
qed

lemma rmw_end_last: "x < length H \<Longrightarrow> getRMW H x = None \<Longrightarrow> rmw_end H x = x"
  by (simp add: rmw_end_def rmw_walk.simps)

lemma rmw_end_chain:
  assumes "heap_ok H" and "x < length H"
  shows "(x, rmw_end H x) \<in> (rmw_rel H)\<^sup>* \<and> getRMW H (rmw_end H x) = None \<and> rmw_end H x < length H"
proof -
  from rmw_walk_total [OF assms(1), of "length H" x] obtain e where
    e: "rmw_walk H (length H) x = Some e" "(x, e) \<in> (rmw_rel H)\<^sup>*" "e = length H \<or> getRMW H e = None"
    by blast
  have "e < length H" using rmw_rel_lt [OF e(2) assms] .
  then show ?thesis using e by (simp add: rmw_end_def)
qed

lemma rmw_end_same: "(x, e) \<in> (rmw_rel H)\<^sup>* \<Longrightarrow> rmw_end H e = rmw_end H x"
  by (induction rule: rtrancl_induct) (auto simp: rmw_rel_def rmw_end_step)

text \<open>A store that comes after \<open>x\<close> and is not in its chain comes after the whole chain.\<close>

lemma rmw_chain_push:
  assumes rok: "rmw_ok H" and path: "(x, y) \<in> (mo_edges H)\<^sup>+"
    and neq: "rmw_end H x \<noteq> rmw_end H y" and chain: "(x, e) \<in> (rmw_rel H)\<^sup>*"
  shows "(e, y) \<in> (mo_edges H)\<^sup>+"
  using chain
proof (induction rule: rtrancl_induct)
  case base
  then show ?case using path by simp
next
  case (step a b)
  have ab: "getRMW H a = Some b" using step(2) by (simp add: rmw_rel_def)
  from step(3) obtain y1 where y1: "(a, y1) \<in> mo_edges H" "(y1, y) \<in> (mo_edges H)\<^sup>*"
    by (meson tranclD)
  have "y1 = b \<or> (b, y1) \<in> (mo_edges H)\<^sup>+" using rok ab y1(1) unfolding rmw_ok_def by blast
  then have b_y: "(b, y) \<in> (mo_edges H)\<^sup>*"
    using y1(2) by (meson trancl_into_rtrancl rtrancl_trans rtrancl.rtrancl_refl)
  have "rmw_end H b = rmw_end H x" using step(1,2) by (metis rmw_end_same rtrancl.rtrancl_into_rtrancl)
  with neq have "b \<noteq> y" by auto
  with b_y show ?case by (meson rtranclD)
qed

lemma rmw_end_edges:
  assumes "heap_ok H" and "rmw_ok H" and "x < length H" and "y < length H"
    and "(x, y) \<in> mo_edges H" and "rmw_end H x \<noteq> rmw_end H y"
  shows "(rmw_end H x, rmw_end H y) \<in> (mo_edges H)\<^sup>+"
proof -
  have "(rmw_end H x, y) \<in> (mo_edges H)\<^sup>+"
    using rmw_chain_push [OF assms(2) _ assms(6)] assms(5) rmw_end_chain [OF assms(1,3)] by blast
  moreover have "(y, rmw_end H y) \<in> (mo_edges H)\<^sup>*"
    using rmw_end_chain [OF assms(1,4)] rtrancl_mono [OF rmw_chain_edges [OF assms(2)]] by blast
  ultimately show ?thesis by simp
qed

lemma rmw_rel_comparable:
  assumes inj: "\<And>a b r. (a, r) \<in> R \<Longrightarrow> (b, r) \<in> R \<Longrightarrow> a = b"
    and "(x, e) \<in> R\<^sup>*" and "(y, e) \<in> R\<^sup>*"
  shows "(x, y) \<in> R\<^sup>* \<or> (y, x) \<in> R\<^sup>*"
  using assms(2,3)
proof (induction arbitrary: rule: rtrancl_induct)
  case base
  then show ?case by simp
next
  case (step a b)
  from step(4) show ?case
  proof (cases rule: rtranclE)
    case base
    then show ?thesis using step(1,2) by (meson rtrancl.rtrancl_into_rtrancl)
  next
    case (step c)
    then show ?thesis using inj \<open>(a, b) \<in> R\<close> \<open>(y, a) \<in> R\<^sup>* \<Longrightarrow> _\<close> by metis
  qed
qed

section \<open>The modification order\<close>

definition modification_order :: "node_heap \<Rightarrow> nat list \<Rightarrow> bool" where
  "modification_order H xs \<longleftrightarrow>
     set xs = {..< length H} \<and> distinct xs \<and>
     (\<forall>x y. (x, y) \<in> mo_edges H \<longrightarrow> before xs x y) \<and>
     (\<forall>n r. getRMW H n = Some r \<longrightarrow> (\<exists>us vs. xs = us @ n # r # vs))"

lemma mo_edges_lt:
  assumes heap: "heap_ok H" and xy: "(x, y) \<in> mo_edges H"
  shows "x < length H \<and> y < length H"
proof -
  have "set (edges_of H x) \<subseteq> {..< length H}" using heap unfolding heap_ok_def by blast
  then have "y < length H" using xy by (auto simp: mo_edges_iff)
  moreover have "x < length H" using xy
    by (cases "x < length H") (simp_all add: mo_edges_iff edges_of_def)
  ultimately show ?thesis by simp
qed

text \<open>Within the block of one chain, an RMW directly follows the store it reads from.\<close>

lemma rmw_adjacent:
  assumes heap: "heap_ok H" and rok: "rmw_ok H" and d: "distinct ts" and ts: "set ts = {..< length H}"
    and ord: "\<And>x y. (x, y) \<in> (mo_edges H)\<^sup>+ \<Longrightarrow> before ts x y" and nr: "getRMW H n = Some r"
  shows "\<exists>us vs. filter (\<lambda>x. rmw_end H x = rmw_end H n) ts = us @ n # r # vs"
proof -
  let ?P = "\<lambda>x. rmw_end H x = rmw_end H n"
  let ?b = "filter ?P ts"
  have rel: "(n, r) \<in> rmw_rel H" using nr by (simp add: rmw_rel_def)
  have "before ts n r"
    using rok nr by (intro ord r_into_trancl) (simp add: rmw_ok_def)
  then have "before ?b n r" by (rule before_filter) (simp_all add: rmw_end_step [OF nr])
  then obtain us vs ws where b: "?b = us @ n # vs @ r # ws" by (auto simp: before_def)
  have db: "distinct ?b" using d by simp
  have chain: "before ?b x y" if "(x, y) \<in> (rmw_rel H)\<^sup>*" "x \<noteq> y" "?P x" "?P y" for x y
  proof -
    have "(x, y) \<in> (rmw_rel H)\<^sup>+" using that(1,2) by (meson rtranclD)
    then have "(x, y) \<in> (mo_edges H)\<^sup>+" using rmw_chain_edges [OF rok] by (rule trancl_mono)
    then show ?thesis using ord before_filter that(3,4) by metis
  qed
  have "vs = []"
  proof (rule ccontr)
    assume "vs \<noteq> []"
    then obtain z vs' where vs: "vs = z # vs'" by (cases vs) auto
    have z: "before ?b n z" "before ?b z r"
    proof -
      have "?b = us @ n # [] @ z # (vs' @ r # ws)" using b vs by simp
      then show "before ?b n z" unfolding before_def by blast
      have "?b = (us @ [n]) @ z # vs' @ r # ws" using b vs by simp
      then show "before ?b z r" unfolding before_def by blast
    qed
    then have zP: "?P z" "z < length H" using before_mem [OF z(1)] ts by auto
    have nl: "n < length H" using nr by (auto simp: getRMW_def split: if_splits)
    have "(z, rmw_end H n) \<in> (rmw_rel H)\<^sup>*" "(n, rmw_end H n) \<in> (rmw_rel H)\<^sup>*"
      using rmw_end_chain [OF heap zP(2)] rmw_end_chain [OF heap nl] zP(1) by simp_all
    moreover have "a = b" if "(a, c) \<in> rmw_rel H" "(b, c) \<in> rmw_rel H" for a b c
      using that rok by (auto simp: rmw_rel_def rmw_ok_def)
    ultimately have "(z, n) \<in> (rmw_rel H)\<^sup>* \<or> (n, z) \<in> (rmw_rel H)\<^sup>*"
      using rmw_rel_comparable [of "rmw_rel H" z "rmw_end H n" n] by blast
    moreover have neq: "z \<noteq> n" "z \<noteq> r" using db unfolding b vs by auto
    ultimately consider "before ?b z n" | "(r, z) \<in> (rmw_rel H)\<^sup>*"
      using chain [of z n] zP(1) nr
      by (metis (mono_tags, lifting) CollectD case_prodD converse_rtranclE option.inject rmw_rel_def)
    then show False
    proof cases
      case 1
      then show ?thesis using before_antisym [OF db] z(1) by blast
    next
      case 2
      then have "before ?b r z" using chain [of r z] neq zP(1) rmw_end_step [OF nr] by auto
      then show ?thesis using before_antisym [OF db] z(2) by blast
    qed
  qed
  then show ?thesis using b by auto
qed

lemma modification_order_exists:
  assumes heap: "heap_ok H" and rok: "rmw_ok H" and acyc: "acyclic (mo_edges H)"
  shows "\<exists>xs. modification_order H xs"
proof -
  have acyc': "acyclic ((mo_edges H)\<^sup>+)" using acyc by (simp add: acyclic_def)
  obtain ts where ts: "set ts = {..< length H}" "distinct ts"
    and ts_ord: "\<And>x y. x < length H \<Longrightarrow> y < length H \<Longrightarrow> (x, y) \<in> (mo_edges H)\<^sup>+ \<Longrightarrow> before ts x y"
    using topological_list [OF finite_lessThan acyc', of "length H"] by auto
  have ends: "finite (rmw_end H ` {..< length H})" by simp
  obtain rs where rs: "set rs = rmw_end H ` {..< length H}" "distinct rs"
    and rs_ord: "\<And>x y. x \<in> rmw_end H ` {..< length H} \<Longrightarrow> y \<in> rmw_end H ` {..< length H} \<Longrightarrow>
        (x, y) \<in> (mo_edges H)\<^sup>+ \<Longrightarrow> before rs x y"
    using topological_list [OF ends acyc'] by metis
  have lt: "x < length H \<and> y < length H" if "(x, y) \<in> (mo_edges H)\<^sup>+" for x y
    using that mo_edges_lt [OF heap] by (meson tranclD tranclD2)
  let ?f = "\<lambda>e. filter (\<lambda>x. rmw_end H x = e) ts"
  let ?xs = "concat (map ?f rs)"
  have "set ?xs = {..< length H}" using ts rs by auto
  moreover have "distinct ?xs"
    using ts rs by (intro distinct_concat) (auto simp: distinct_map inj_on_def filter_eq_Cons_iff
      dest!: arg_cong [of _ _ set])
  moreover have "before ?xs x y" if xy: "(x, y) \<in> mo_edges H" for x y
  proof -
    have l: "x < length H" "y < length H" using mo_edges_lt [OF heap xy] by auto
    show ?thesis
    proof (cases "rmw_end H x = rmw_end H y")
      case True
      have "before (?f (rmw_end H x)) x y"
        using ts_ord [OF l] xy True by (intro before_filter) auto
      then show ?thesis using rs(1) l by (intro before_concat_same [of "rmw_end H x"]) auto
    next
      case False
      have "before rs (rmw_end H x) (rmw_end H y)"
        using rmw_end_edges [OF heap rok l xy False] l by (intro rs_ord) auto
      then show ?thesis by (rule before_concat) (use l ts in auto)
    qed
  qed
  moreover have "\<exists>us vs. ?xs = us @ n # r # vs" if nr: "getRMW H n = Some r" for n r
  proof -
    have n: "n < length H" using nr by (auto simp: getRMW_def split: if_splits)
    obtain us vs where b: "?f (rmw_end H n) = us @ n # r # vs"
      using rmw_adjacent [OF heap rok ts(2,1) _ nr] ts_ord lt by blast
    obtain r1 r2 where "rs = r1 @ rmw_end H n # r2"
      using split_list [of "rmw_end H n" rs] rs(1) n by auto
    then have "?xs = (concat (map ?f r1) @ us) @ n # r # (vs @ concat (map ?f r2))"
      using b by simp
    then show ?thesis by blast
  qed
  ultimately show ?thesis unfolding modification_order_def by blast
qed

section \<open>The operations on actions and promises\<close>

text \<open>The calls \<open>addRMWEdge\<close> is meant for, in terms of the nodes it will find or create.\<close>

definition rmw_call_ok :: "mo_obj \<Rightarrow> aid \<Rightarrow> cycle_graph \<Rightarrow> bool" where
  "rmw_call_ok from rmw g =
     (let (f, g1) = getNode from g; (r, g2) = getNode (ActObj rmw) g1
      in rmw_edge_pre (nodes g2) f r)"

text \<open>The node of an object once \<open>getNode\<close> has run for both arguments of a call.\<close>

definition mo_node :: "mo_obj \<Rightarrow> cycle_graph \<Rightarrow> nat" where
  "mo_node x g = the (getNode_noCreate g x)"

lemma getNode_both:
  assumes "graph_ok g" and "getNode a g = (f, g1)" and "getNode b g1 = (t, g2)"
  shows "graph_ok g2 \<and> f < length (nodes g2) \<and> t < length (nodes g2) \<and>
    getNode_noCreate g2 a = Some f \<and> getNode_noCreate g2 b = Some t \<and>
    edges_of (nodes g2) = edges_of (nodes g) \<and> mo g2 = mo g \<and>
    getRMW (nodes g2) = getRMW (nodes g) \<and> hasCycles g2 = hasCycles g"
proof -
  note s1 = getNode_step [OF assms(1,2)]
  then have ok1: "graph_ok g1" by blast
  note s2 = getNode_step [OF ok1 assms(3)]
  have "mo g2 = mo g" by (rule edges_eq_rels(1)) (use s1 s2 in simp)
  moreover have "f = t" if "a = b"
    using s1 assms(3) that by (auto simp: getNode_def)
  ultimately show ?thesis using s1 s2 by auto
qed

lemma addEdge_step:
  assumes "graph_ok g"
  shows "\<exists>b g'. addEdge x y g = Some (b, g') \<and> graph_ok g' \<and>
    getNode_noCreate g' x = Some (mo_node x g') \<and> getNode_noCreate g' y = Some (mo_node y g') \<and>
    insert (mo_node x g', mo_node y g') (mo g) \<subseteq> mo g' \<and>
    mo g' \<subseteq> insert (mo_node x g', mo_node y g') (mo g) \<union>
      {(e, mo_node y g') | e. (mo_node x g', e) \<in> (rmw_rel (nodes g))\<^sup>+} \<and>
    getRMW (nodes g') = getRMW (nodes g) \<and>
    (hasCycles g' \<longleftrightarrow> hasCycles g \<or> \<not> acyclic (mo g'))"
proof -
  obtain f g1 where f: "getNode x g = (f, g1)" by fastforce
  obtain t g2 where t: "getNode y g1 = (t, g2)" by fastforce
  note s = getNode_both [OF assms f t]
  have rel: "rmw_rel (nodes g2) = rmw_rel (nodes g)" by (rule edges_eq_rels(2)) (use s in blast)
  from s addNodeEdge_step [of g2 f t] obtain b g' where
    g': "addNodeEdge f t g2 = Some (b, g')" "graph_ok g'" "getNode_noCreate g' = getNode_noCreate g2"
    "\<forall>m. getRMW (nodes g') m = getRMW (nodes g2) m" "insert (f, t) (mo g2) \<subseteq> mo g'"
    "mo g' \<subseteq> insert (f, t) (mo g2) \<union> {(e, t) | e. (f, e) \<in> (rmw_rel (nodes g2))\<^sup>+ \<and>
       getRMW (nodes g2) e = None}"
    "hasCycles g' \<longleftrightarrow> hasCycles g2 \<or> \<not> acyclic (mo g')"
    by blast
  have n: "mo_node x g' = f" "mo_node y g' = t" using g'(3) s by (simp_all add: mo_node_def)
  have "addEdge x y g = Some (b, g')" using g'(1) by (simp add: addEdge_def f t)
  then show ?thesis using g'(2-7) s rel
    by (intro exI [of _ b] exI [of _ g']) (auto simp: n fun_eq_iff)
qed

lemma addRMWEdge_step:
  assumes "graph_ok g" and "rmw_call_ok x r g"
  shows "\<exists>g'. addRMWEdge x r g = Some g' \<and> graph_ok g' \<and>
    (getRMW (nodes g) (mo_node x g') \<noteq> None \<longrightarrow> hasCycles g') \<and>
    (getRMW (nodes g) (mo_node x g') = None \<longrightarrow>
       getRMW (nodes g') = (getRMW (nodes g))(mo_node x g' \<mapsto> mo_node (ActObj r) g') \<and>
       mo g' = insert (mo_node x g', mo_node (ActObj r) g')
         (mo g \<union> {(mo_node (ActObj r) g', t) | t. (mo_node x g', t) \<in> mo g \<and> t \<noteq> mo_node (ActObj r) g'}) \<and>
       (hasCycles g' \<longleftrightarrow> hasCycles g \<or> \<not> acyclic (mo g')))"
proof -
  obtain f g1 where f: "getNode x g = (f, g1)" by fastforce
  obtain t g2 where t: "getNode (ActObj r) g1 = (t, g2)" by fastforce
  note s = getNode_both [OF assms(1) f t]
  then have ok: "graph_ok g2" and ft: "f < length (nodes g2)" "t < length (nodes g2)" by blast+
  have pre: "rmw_edge_pre (nodes g2) f t" using assms(2) by (simp add: rmw_call_ok_def f t)
  have call: "addRMWEdge x r g = addRMWNodes f t g2" by (simp add: addRMWEdge_def f t)
  have n: "mo_node x g' = f \<and> mo_node (ActObj r) g' = t" if "getNode_noCreate g' = getNode_noCreate g2" for g'
    using that s by (simp add: mo_node_def)
  show ?thesis
  proof (cases "getRMW (nodes g2) f = None")
    case True
    from addRMWNodes_fresh [OF ok ft pre True] obtain g' where
      "addRMWNodes f t g2 = Some g'" "graph_ok g'" "getNode_noCreate g' = getNode_noCreate g2"
      "getRMW (nodes g') = (getRMW (nodes g2))(f \<mapsto> t)"
      "mo g' = insert (f, t) (mo g2 \<union> {(t, u) | u. (f, u) \<in> mo g2 \<and> u \<noteq> t})"
      "hasCycles g' \<longleftrightarrow> hasCycles g2 \<or> \<not> acyclic (mo g')"
      by blast
    with True s n call show ?thesis by (intro exI [of _ g']) simp
  next
    case False
    from addRMWNodes_taken [OF ok ft pre False] obtain g' where
      "addRMWNodes f t g2 = Some g'" "graph_ok g'" "hasCycles g'"
      "getNode_noCreate g' = getNode_noCreate g2"
      by blast
    with False s n call show ?thesis by (intro exI [of _ g']) auto
  qed
qed

section \<open>Reachable graphs\<close>

inductive reachable_graph :: "cycle_graph \<Rightarrow> bool" where
  new: "reachable_graph CycleGraph_new"
| add: "reachable_graph g \<Longrightarrow> addEdge x y g = Some (b, g') \<Longrightarrow> reachable_graph g'"
| rmw: "reachable_graph g \<Longrightarrow> rmw_call_ok x r g \<Longrightarrow> addRMWEdge x r g = Some g' \<Longrightarrow> reachable_graph g'"
| commit: "reachable_graph g \<Longrightarrow> reachable_graph (commitChanges g)"
| rollback: "reachable_graph g0 \<Longrightarrow> startChanges g0 = Some g0 \<Longrightarrow> run_ops ops g0 = Some g \<Longrightarrow>
    reachable_graph (rollbackChanges g)"

lemma reachable_graph_ok: "reachable_graph g \<Longrightarrow> graph_ok g"
proof (induction rule: reachable_graph.induct)
  case new
  then show ?case by (rule graph_ok_new)
next
  case (add g x y b g')
  then show ?case using addEdge_step [OF add.IH, of x y] by auto
next
  case (rmw g x r g')
  then show ?case using addRMWEdge_step [OF rmw.IH rmw.hyps(2)] by auto
next
  case (commit g)
  have "getNode_noCreate (commitChanges g) x = getNode_noCreate g x" for x
    by (cases x) (simp_all add: commitChanges_def)
  with commit.IH show ?case by (simp add: graph_ok_def) (simp add: commitChanges_def)
next
  case (rollback g0 ops g)
  have "since g0 g"
    using since_run_ops [OF since_start [OF graph_ok_wf [OF rollback.IH] rollback.hyps(2)] rollback.hyps(3)] .
  then show ?case by (rule graph_ok_rollback [OF rollback.IH])
qed

section \<open>Properties\<close>



text \<open>
  C22: \<open>addEdge\<close> always returns, records the edge, and detects cycles exactly: starting from a
  reachable graph, the cycle flag afterwards is the old flag or the presence of a cycle in
  the graph of all recorded edges. The only other edge it may add leads from the end of the
  source's RMW chain to the target.
\<close>

theorem addEdge_detects_cycles:
  assumes "reachable_graph g"
  shows "\<exists>b g'. addEdge x y g = Some (b, g') \<and>
    (mo_node x g', mo_node y g') \<in> mo g' \<and> mo g \<subseteq> mo g' \<and>
    mo g' \<subseteq> insert (mo_node x g', mo_node y g') (mo g) \<union>
      {(e, mo_node y g') | e. (mo_node x g', e) \<in> (rmw_rel (nodes g))\<^sup>+} \<and>
    (checkForCycles g' \<longleftrightarrow> checkForCycles g \<or> \<not> acyclic (mo g'))"
  using addEdge_step [OF reachable_graph_ok [OF assms], of x y] unfolding checkForCycles_def by blast

lemma addEdge_detects_cycles_witness:
  "\<exists>b g'. addEdge (ActObj 1) (ActObj 1) CycleGraph_new = Some (b, g') \<and>
     (checkForCycles g' \<longleftrightarrow> checkForCycles CycleGraph_new \<or> \<not> acyclic (mo g'))"
  using addEdge_detects_cycles [OF reachable_graph.new, of "ActObj 1" "ActObj 1"] by blast

text \<open>
  \<open>addRMWEdge\<close>, called the way its comments ask for, always returns. A second RMW that
  reads from the same store is reported as a cycle; otherwise the RMW is recorded, every
  other successor of the store becomes a successor of the RMW, and cycles are detected
  exactly although the transferred edges are not checked one by one.
\<close>

lemma addRMWEdge_atomic:
  assumes "reachable_graph g" and "rmw_call_ok x r g"
  shows "\<exists>g'. addRMWEdge x r g = Some g' \<and>
    (getRMW (nodes g) (mo_node x g') \<noteq> None \<longrightarrow> checkForCycles g') \<and>
    (getRMW (nodes g) (mo_node x g') = None \<longrightarrow>
       getRMW (nodes g') (mo_node x g') = Some (mo_node (ActObj r) g') \<and>
       (\<forall>t. (mo_node x g', t) \<in> mo g \<longrightarrow> t = mo_node (ActObj r) g' \<or> (mo_node (ActObj r) g', t) \<in> mo g') \<and>
       (checkForCycles g' \<longleftrightarrow> checkForCycles g \<or> \<not> acyclic (mo g')))"
  using addRMWEdge_step [OF reachable_graph_ok [OF assms(1)] assms(2)]
  unfolding checkForCycles_def by (elim exE) (rule exI, auto)

lemma addRMWEdge_atomic_witness:
  "\<exists>g'. addRMWEdge (ActObj 1) 2 CycleGraph_new = Some g' \<and>
     (checkForCycles g' \<longleftrightarrow> \<not> acyclic (mo g'))"
proof -
  have "rmw_call_ok (ActObj 1) 2 CycleGraph_new"
    by (auto simp: graph_eval rmw_call_ok_def rmw_edge_pre_def mo_edges_def less_Suc_eq nth_Cons
        split: if_splits nat.splits)
  from addRMWEdge_atomic [OF reachable_graph.new this] show ?thesis
    by (auto simp: checkForCycles_def getRMW_def CycleGraph_new_def)
qed

end
