(* ===== verification/CycleQueries.thy ===== *)
theory CycleQueries
  imports ModificationOrder
begin

text \<open>
  The queries on the cycle graph and the resolution of a promise node: what
  \<open>checkReachable\<close> and \<open>checkPromise\<close> answer, and what \<open>resolvePromise\<close> does when the
  writing action has no node yet.
\<close>

section \<open>The promise search returns\<close>

definition actions_known :: "node_heap \<Rightarrow> action_store \<Rightarrow> bool" where
  "actions_known H acts \<longleftrightarrow> (\<forall>n < length H. \<forall>a. cn_action (H ! n) = Some a \<longrightarrow> acts a \<noteq> None)"

lemma promise_loop_total:
  assumes "heap_wf H" and "actions_known H acts" and "set q \<subseteq> {..< length H}" and "promise_ok pr"
  shows "\<exists>b pr'. promise_loop H acts p q d pr = Some (b, pr') \<and> promise_ok pr'"
  using assms
proof (induction H acts p q d pr rule: promise_loop.induct)
  case (2 H acts p node q d pr)
  obtain q' d' where push: "push_edges (edges_of H node) q d = (q', d')" by fastforce
  have q': "set q' \<subseteq> {..< length H}"
    using push_edges_discovered [OF push] heap_wf_edges [OF 2(3), of node] 2(5) by auto
  have node: "node < length H" "\<not> length H \<le> node" using 2(5) by auto
  show ?case
  proof (cases "cn_promise (H ! node) = Some p")
    case True
    then show ?thesis using node 2(6) by auto
  next
    case neq: False
    show ?thesis
    proof (cases "cn_action (H ! node)")
      case None
      from 2(1) [OF node(2) neq push [symmetric] refl None 2(3,4) q' 2(6)]
      show ?thesis using node neq None push by simp
    next
      case (Some a)
      then obtain act where act: "acts a = Some act"
        using 2(4) node unfolding actions_known_def by blast
      from 2(2) [OF node(2) neq push [symmetric] refl Some act 2(3,4) q' promise_ok_eliminate [OF 2(6)]]
      show ?thesis using node neq Some act push by simp
    qed
  qed
qed auto

lemma node_resolvePromise_forgets:
  "node_resolvePromise acts proms writer n = Some n' \<Longrightarrow> cn_promise n' = None"
  by (auto simp: node_resolvePromise_def bind_eq_Some_conv split: if_splits)

section \<open>Properties\<close>

text \<open>
  \<open>checkReachable\<close> decides reachability: its search with the table of discovered nodes
  always ends, and it answers true exactly when both arguments have a node and the graph has
  a path of edges from the first to the second.
\<close>

lemma checkReachable_decides:
  "checkReachable g x y \<longleftrightarrow>
     (\<exists>a b. getNode_noCreate g x = Some a \<and> getNode_noCreate g y = Some b \<and> (a, b) \<in> (mo g)\<^sup>*)"
  by (simp add: checkReachable_def checkReachable_node_iff split: option.splits)

text \<open>
  C31: \<open>checkPromise\<close> always returns when the action has a node. It reports failure exactly when
  the promise is modification-ordered after the action; otherwise it has eliminated precisely
  the threads of all stores that are modification-ordered at or after the action, and the
  promise's bookkeeping is intact.
\<close>

theorem checkPromise_exact:
  assumes "graph_wf g" and "actions_known (nodes g) acts" and "promise_ok pr"
    and "actionToNode g a = Some n"
  shows "\<exists>b pr'. checkPromise g acts a p pr = Some (b, pr') \<and> promise_ok pr' \<and>
    (b \<longleftrightarrow> (\<exists>y. (n, y) \<in> (mo g)\<^sup>* \<and> cn_promise (nodes g ! y) = Some p)) \<and>
    (\<not> b \<longrightarrow> avail pr' = avail pr - node_tids (nodes g) acts {y. (n, y) \<in> (mo g)\<^sup>*})"
proof -
  have wf: "heap_wf (nodes g)" and n: "n < length (nodes g)"
    using assms(1,4) unfolding graph_wf_def by (auto dest: spec [of _ "ActObj a"])
  obtain b pr' where run: "promise_loop (nodes g) acts p [n] {n} pr = Some (b, pr')" "promise_ok pr'"
    using promise_loop_total [OF wf assms(2) _ assms(3), of "[n]" p "{n}"] n
    by (auto simp del: promise_loop.simps)
  have empty: "avail pr = avail pr - node_tids (nodes g) acts {}" by (simp add: node_tids_def)
  have "(mo g)\<^sup>* `` {n} = {y. (n, y) \<in> (mo g)\<^sup>*}" by auto
  with promise_loop_correct [OF run(1) _ _ _ _ empty] run assms(4) show ?thesis
    by (simp add: checkPromise_def del: promise_loop.simps)
qed

lemma checkPromise_exact_witness:
  "\<exists>b pr'. checkPromise (CycleGraph_new\<lparr>nodes := [CycleNode_action 0],
       actionToNode := Map.empty(0 \<mapsto> 0)\<rparr>) (\<lambda>_. ModelAction_new ATOMIC_WRITE memory_order_relaxed 8 1 2)
       0 7 (Promise_new 0 1 \<lparr>fv_value = 5, fv_expiration = 9, fv_tid = 2\<rparr>) = Some (b, pr')"
proof -
  let ?g = "CycleGraph_new\<lparr>nodes := [CycleNode_action 0], actionToNode := Map.empty(0 \<mapsto> 0)\<rparr>"
  have "getNode_noCreate ?g x = Some n \<Longrightarrow> n = 0" for x n
    by (cases x) (auto simp: CycleGraph_new_def split: if_splits)
  then have "graph_wf ?g"
    by (auto simp: graph_wf_def heap_wf_def edges_of_def back_edges_of_def getRMW_def CycleNode_action_def)
  moreover have "actions_known (nodes ?g) (\<lambda>_. ModelAction_new ATOMIC_WRITE memory_order_relaxed 8 1 2)"
    by (simp add: actions_known_def ModelAction_new_def)
  ultimately show ?thesis
    using checkPromise_exact [OF _ _ promise_ok_new, of ?g
        "\<lambda>_. ModelAction_new ATOMIC_WRITE memory_order_relaxed 8 1 2" 0 0] by force
qed

text \<open>
  \<open>resolvePromise\<close> cannot convert a promise node in place: when the writer has no node,
  the node forgets its promise first, so the table entry to erase is looked up with the null
  pointer and the hash table's assertion fails, whatever the promise and the write are.
\<close>

theorem resolvePromise_conversion_fails:
  assumes "actionToNode g writer = None"
  shows "resolvePromise acts proms p writer g = None"
proof (cases "promiseToNode g p")
  case (Some n)
  then show ?thesis using assms node_resolvePromise_forgets
    by (cases "node_resolvePromise acts proms writer (nodes g ! n)")
       (auto simp: resolvePromise_def erasePromiseNode_def Let_def)
qed (simp add: resolvePromise_def)

lemma resolvePromise_conversion_fails_witness:
  "resolvePromise Map.empty Map.empty 0 1 (snd (getNode (PromObj 0) CycleGraph_new)) = None"
  by (rule resolvePromise_conversion_fails) (simp add: getNode_def CycleGraph_new_def Let_def)

end
