(* ===== verification/Nodes.thy ===== *)
theory Nodes
  imports Promises
begin

text \<open>
  \<open>nodestack.h\<close> / \<open>nodestack.cc\<close>, class \<open>Node\<close>: one choice point of the search. It keeps
  the threads explored and to be explored from it, the behaviors of its action that are left
  to try (stores to read from, promises to resolve, release sequences to break, other values)
  and the data of the two fairness mechanisms.
\<close>

section \<open>Data\<close>

datatype enabled_type = THREAD_DISABLED | THREAD_ENABLED | THREAD_SLEEP_SET

datatype read_from_type = READ_FROM_PAST | READ_FROM_PROMISE | READ_FROM_FUTURE | READ_FROM_NONE

record fairness_info =
  enabled_count :: "32 word"
  turns :: "32 word"
  priority :: bool

record model_params =
  maxreads :: int
  maxfuturedelay :: int
  yieldon :: bool
  yieldblock :: bool
  fairwindow :: nat
  enabledcount :: "32 word"
  bound :: nat
  uninitvalue :: "32 word"
  maxexecutions :: int
  maxfuturevalues :: int
  expireslop :: "32 word"

text \<open>
  The action of a node is a pointer; the thread of an action never changes, so it is kept
  beside it. The parent is the node below in the stack and is passed to the operations that
  read it. The C++ indices are \<open>int\<close> (starting at \<open>-1\<close>) or \<open>unsigned int\<close>.
\<close>

record node =
  read_from_status :: read_from_type
  nd_action :: aid
  nd_tid :: thread_id_t
  uninit_action :: "aid option"
  num_threads :: nat
  explored_children :: "bool list"
  backtrack :: "bool list"
  fairness :: "fairness_info list"
  numBacktracks :: int
  enabled_array :: "enabled_type list option"
  read_from_past :: "aid list"
  read_from_past_idx :: nat
  read_from_promises :: "aid list"
  read_from_promise_idx :: int
  future_values :: "future_value list"
  future_index :: int
  resolve_promise :: "bool list"
  resolve_promise_idx :: int
  relseq_break_writes :: "aid option list"
  relseq_break_index :: int
  misc_index :: int
  misc_max :: int
  yield_data :: "32 word list option"

section \<open>Threads that were enabled\<close>

text \<open>The array does not exist before \<open>explore_child\<close>; reading it then is an error.\<close>

definition node_is_enabled :: "node \<Rightarrow> thread_id_t \<Rightarrow> bool option" where
  "node_is_enabled n t =
     (if t < num_threads n then map_option (\<lambda>a. a ! t \<noteq> THREAD_DISABLED) (enabled_array n)
      else Some False)"

definition node_enabled_status :: "node \<Rightarrow> thread_id_t \<Rightarrow> enabled_type option" where
  "node_enabled_status n t =
     (if t < num_threads n then map_option (\<lambda>a. a ! t) (enabled_array n)
      else Some THREAD_DISABLED)"

definition has_priority :: "node \<Rightarrow> thread_id_t \<Rightarrow> bool" where
  "has_priority n t = priority (fairness n ! t)"

section \<open>Construction\<close>

text \<open>
  The fairness record of thread \<open>i\<close> in a new node: inherited from the parent, advanced by
  the step of this node, and reduced by the step that leaves the window. \<open>prevfairness\<close> is
  the node that leaves the window with its parent.
\<close>

definition fairness_inherit :: "node option \<Rightarrow> nat \<Rightarrow> fairness_info" where
  "fairness_inherit parent i =
     (case parent of
        Some p \<Rightarrow> if i < num_threads p then fairness p ! i
                  else \<lparr>enabled_count = 0, turns = 0, priority = False\<rparr>
      | None \<Rightarrow> \<lparr>enabled_count = 0, turns = 0, priority = False\<rparr>)"

definition fairness_step ::
  "model_params \<Rightarrow> thread_id_t \<Rightarrow> node option \<Rightarrow> (node \<times> node) option \<Rightarrow> nat \<Rightarrow> fairness_info option" where
  "fairness_step params currtid parent prevfairness i = do {
     let fi0 = fairness_inherit parent i;
     en \<leftarrow> (case parent of None \<Rightarrow> Some False | Some p \<Rightarrow> node_is_enabled p i);
     let fi1 = (if en then fi0\<lparr>enabled_count := enabled_count fi0 + 1\<rparr> else fi0);
     let fi2 = (if i = currtid then fi1\<lparr>turns := turns fi1 + 1, priority := False\<rparr> else fi1);
     (case prevfairness of
        None \<Rightarrow> Some fi2
      | Some (prev, prev_parent) \<Rightarrow> do {
          en' \<leftarrow> node_is_enabled prev_parent i;
          let fi3 = (if en' then fi2\<lparr>enabled_count := enabled_count fi2 - 1\<rparr> else fi2);
          let fi4 = (if i = nd_tid prev then fi3\<lparr>turns := turns fi3 - 1\<rparr> else fi3);
          Some (if enabled_count fi4 \<ge> enabledcount params \<and> turns fi4 = 0
                then fi4\<lparr>priority := True\<rparr> else fi4) }) }"

fun option_all :: "'a option list \<Rightarrow> 'a list option" where
  "option_all [] = Some []"
| "option_all (x # xs) = do { y \<leftarrow> x; ys \<leftarrow> option_all xs; Some (y # ys) }"

definition Node_new ::
  "model_params \<Rightarrow> aid \<Rightarrow> thread_id_t \<Rightarrow> node option \<Rightarrow> nat \<Rightarrow> (node \<times> node) option \<Rightarrow> node option" where
  "Node_new params act act_tid parent nthreads prevfairness = do {
     fair \<leftarrow> (if fairwindow params \<noteq> 0
              then option_all (map (fairness_step params act_tid parent prevfairness) [0 ..< nthreads])
              else Some (replicate nthreads \<lparr>enabled_count = 0, turns = 0, priority = False\<rparr>));
     Some \<lparr>read_from_status = READ_FROM_PAST, nd_action = act, nd_tid = act_tid,
       uninit_action = None, num_threads = nthreads,
       explored_children = replicate nthreads False, backtrack = replicate nthreads False,
       fairness = fair, numBacktracks = 0, enabled_array = None,
       read_from_past = [], read_from_past_idx = 0,
       read_from_promises = [], read_from_promise_idx = -1,
       future_values = [], future_index = -1,
       resolve_promise = [], resolve_promise_idx = -1,
       relseq_break_writes = [], relseq_break_index = 0,
       misc_index = 0, misc_max = 0, yield_data = None\<rparr> }"

section \<open>Backtracking\<close>

definition has_been_explored :: "node \<Rightarrow> thread_id_t \<Rightarrow> bool" where
  "has_been_explored n t = explored_children n ! t"

definition backtrack_empty :: "node \<Rightarrow> bool" where
  "backtrack_empty n \<longleftrightarrow> numBacktracks n = 0"

definition explore :: "thread_id_t \<Rightarrow> node \<Rightarrow> node option" where
  "explore t n =
     (if \<not> t < length (backtrack n) then None
      else let n1 = (if backtrack n ! t
                     then n\<lparr>backtrack := (backtrack n)[t := False], numBacktracks := numBacktracks n - 1\<rparr>
                     else n)
           in Some (n1\<lparr>explored_children := (explored_children n1)[t := True]\<rparr>))"

definition explore_child :: "thread_id_t \<Rightarrow> enabled_type list option \<Rightarrow> node \<Rightarrow> node option" where
  "explore_child act_tid is_enabled n =
     explore act_tid (n\<lparr>enabled_array := Some (case is_enabled of
        Some e \<Rightarrow> take (num_threads n) e
      | None \<Rightarrow> replicate (num_threads n) THREAD_DISABLED)\<rparr>)"

definition set_backtrack :: "thread_id_t \<Rightarrow> node \<Rightarrow> (bool \<times> node) option" where
  "set_backtrack t n =
     (if \<not> t < length (backtrack n) then None
      else if backtrack n ! t then Some (False, n)
      else Some (True, n\<lparr>backtrack := (backtrack n)[t := True], numBacktracks := numBacktracks n + 1\<rparr>))"

fun first_true :: "bool list \<Rightarrow> nat \<Rightarrow> nat" where
  "first_true [] i = i"
| "first_true (b # bs) i = (if b then i else first_true bs (Suc i))"

definition get_next_backtrack :: "node \<Rightarrow> (thread_id_t \<times> node) option" where
  "get_next_backtrack n =
     (let i = first_true (backtrack n) 0
      in if i = length (backtrack n) then None
         else Some (i, n\<lparr>backtrack := (backtrack n)[i := False], numBacktracks := numBacktracks n - 1\<rparr>))"

definition clear_backtracking :: "node \<Rightarrow> node" where
  "clear_backtracking n =
     n\<lparr>backtrack := map (\<lambda>_. False) (backtrack n),
       explored_children := map (\<lambda>_. False) (explored_children n), numBacktracks := 0\<rparr>"

section \<open>Promises to resolve\<close>

definition set_promise :: "nat \<Rightarrow> node \<Rightarrow> node" where
  "set_promise i n =
     (let rp = (if i \<ge> length (resolve_promise n) then vec_resize (resolve_promise n) (i + 1) False
                else resolve_promise n)
      in n\<lparr>resolve_promise := rp[i := True]\<rparr>)"

definition get_promise :: "node \<Rightarrow> nat \<Rightarrow> bool" where
  "get_promise n i \<longleftrightarrow> i < length (resolve_promise n) \<and> int i = resolve_promise_idx n"

text \<open>The scan of \<open>increment_promise\<close>: the next index at or after \<open>i\<close> whose flag is set.\<close>

function next_promise :: "bool list \<Rightarrow> int \<Rightarrow> int option" where
  "next_promise rp i =
     (if i < int (length rp) then (if rp ! nat i then Some i else next_promise rp (i + 1)) else None)"
  by pat_completeness auto
termination by (relation "measure (\<lambda>(rp, i). nat (int (length rp) - i))") auto

declare next_promise.simps [simp del]

definition increment_promise :: "node \<Rightarrow> bool \<times> node" where
  "increment_promise n =
     (if resolve_promise n = [] then (False, n)
      else case next_promise (resolve_promise n) (resolve_promise_idx n + 1) of
             Some i \<Rightarrow> (True, n\<lparr>resolve_promise_idx := i\<rparr>)
           | None \<Rightarrow> (False, n))"

function no_promise_from :: "bool list \<Rightarrow> int \<Rightarrow> bool" where
  "no_promise_from rp i =
     (if i < int (length rp) then (if i \<ge> 0 \<and> rp ! nat i then False else no_promise_from rp (i + 1))
      else True)"
  by pat_completeness auto
termination by (relation "measure (\<lambda>(rp, i). nat (int (length rp) - i))") auto

declare no_promise_from.simps [simp del]

definition promise_empty :: "node \<Rightarrow> bool" where
  "promise_empty n = no_promise_from (resolve_promise n) (resolve_promise_idx n + 1)"

definition clear_promise_resolutions :: "node \<Rightarrow> node" where
  "clear_promise_resolutions n = n\<lparr>resolve_promise := [], resolve_promise_idx := -1\<rparr>"

section \<open>Other choices\<close>

definition set_misc_max :: "int \<Rightarrow> node \<Rightarrow> node" where
  "set_misc_max i n = n\<lparr>misc_max := i\<rparr>"

definition get_misc :: "node \<Rightarrow> int" where
  "get_misc n = misc_index n"

definition increment_misc :: "node \<Rightarrow> bool \<times> node" where
  "increment_misc n =
     (if misc_index n < misc_max n
      then (misc_index n + 1 < misc_max n, n\<lparr>misc_index := misc_index n + 1\<rparr>)
      else (False, n))"

definition misc_empty :: "node \<Rightarrow> bool" where
  "misc_empty n \<longleftrightarrow> misc_index n + 1 \<ge> misc_max n"

section \<open>Values to read from\<close>

definition add_read_from_past :: "aid \<Rightarrow> node \<Rightarrow> node" where
  "add_read_from_past act n = n\<lparr>read_from_past := read_from_past n @ [act]\<rparr>"

definition get_read_from_past :: "node \<Rightarrow> aid option" where
  "get_read_from_past n =
     (if read_from_past_idx n < length (read_from_past n)
      then Some (read_from_past n ! read_from_past_idx n) else None)"

definition get_read_from_past_size :: "node \<Rightarrow> nat" where
  "get_read_from_past_size n = length (read_from_past n)"

definition read_from_past_empty :: "node \<Rightarrow> bool" where
  "read_from_past_empty n \<longleftrightarrow> read_from_past_idx n + 1 \<ge> length (read_from_past n)"

definition increment_read_from_past :: "node \<Rightarrow> bool \<times> node" where
  "increment_read_from_past n =
     (if read_from_past_idx n < length (read_from_past n)
      then let n1 = n\<lparr>read_from_past_idx := read_from_past_idx n + 1\<rparr>
           in (read_from_past_idx n1 < length (read_from_past n1), n1)
      else (False, n))"

definition add_read_from_promise :: "aid \<Rightarrow> node \<Rightarrow> node" where
  "add_read_from_promise reader n = n\<lparr>read_from_promises := read_from_promises n @ [reader]\<rparr>"

text \<open>The promise is looked up through the read that created it; the outer option is the assertion.\<close>

definition get_read_from_promise :: "action_store \<Rightarrow> node \<Rightarrow> pid option option" where
  "get_read_from_promise acts n =
     (if read_from_promise_idx n \<ge> 0 \<and> read_from_promise_idx n < int (length (read_from_promises n))
      then map_option reads_from_promise (acts (read_from_promises n ! nat (read_from_promise_idx n)))
      else None)"

definition get_read_from_promise_size :: "node \<Rightarrow> nat" where
  "get_read_from_promise_size n = length (read_from_promises n)"

definition read_from_promise_empty :: "node \<Rightarrow> bool" where
  "read_from_promise_empty n \<longleftrightarrow> read_from_promise_idx n + 1 \<ge> int (length (read_from_promises n))"

definition increment_read_from_promise :: "node \<Rightarrow> bool \<times> node" where
  "increment_read_from_promise n =
     (if read_from_promise_idx n < int (length (read_from_promises n))
      then let n1 = n\<lparr>read_from_promise_idx := read_from_promise_idx n + 1\<rparr>
           in (read_from_promise_idx n1 < int (length (read_from_promises n1)), n1)
      else (False, n))"

text \<open>
  The scan of \<open>add_future_value\<close> over the known future values: \<open>None\<close> is its early
  \<open>return false\<close>, otherwise the result is the highest matching index or \<open>-1\<close>.
\<close>

fun find_future :: "future_value list \<Rightarrow> nat \<Rightarrow> int \<Rightarrow> future_value \<Rightarrow> int option" where
  "find_future [] i idx val = Some idx"
| "find_future (f # fs) i idx val =
     (if fv_value f = fv_value val \<and> fv_tid f = fv_tid val
      then (if fv_expiration val \<le> fv_expiration f then None else find_future fs (Suc i) (int i) val)
      else find_future fs (Suc i) idx val)"

definition add_future_value :: "model_params \<Rightarrow> future_value \<Rightarrow> node \<Rightarrow> bool \<times> node" where
  "add_future_value params val n =
     (case find_future (future_values n) 0 (-1) val of
        None \<Rightarrow> (False, n)
      | Some idx \<Rightarrow>
          if idx > future_index n
          then (True, n\<lparr>future_values := (future_values n)[nat idx :=
                  (future_values n ! nat idx)\<lparr>fv_expiration := fv_expiration val\<rparr>]\<rparr>)
          else if idx \<ge> 0 \<and> fv_expiration val \<le> fv_expiration (future_values n ! nat idx) + expireslop params
          then (False, n)
          else if maxfuturevalues params > 0 \<and> int (length (future_values n)) \<ge> maxfuturevalues params
          then (False, n)
          else (True, n\<lparr>future_values := future_values n @ [val]\<rparr>))"

definition get_future_value :: "node \<Rightarrow> future_value option" where
  "get_future_value n =
     (if future_index n \<ge> 0 \<and> future_index n < int (length (future_values n))
      then Some (future_values n ! nat (future_index n)) else None)"

definition future_value_empty :: "node \<Rightarrow> bool" where
  "future_value_empty n \<longleftrightarrow> future_index n + 1 \<ge> int (length (future_values n))"

definition increment_future_value :: "node \<Rightarrow> bool \<times> node" where
  "increment_future_value n =
     (if future_index n < int (length (future_values n))
      then let n1 = n\<lparr>future_index := future_index n + 1\<rparr>
           in (future_index n1 < int (length (future_values n1)), n1)
      else (False, n))"

definition increment_read_from :: "node \<Rightarrow> bool \<times> node" where
  "increment_read_from n =
     (let n0 = clear_promise_resolutions n;
          (past, n1) = increment_read_from_past n0
      in if past then (True, n1\<lparr>read_from_status := READ_FROM_PAST\<rparr>)
         else let (prom, n2) = increment_read_from_promise n1
              in if prom then (True, n2\<lparr>read_from_status := READ_FROM_PROMISE\<rparr>)
                 else let (fut, n3) = increment_future_value n2
                      in if fut then (True, n3\<lparr>read_from_status := READ_FROM_FUTURE\<rparr>)
                         else (False, n3\<lparr>read_from_status := READ_FROM_NONE\<rparr>))"

definition get_read_from_status :: "node \<Rightarrow> read_from_type \<times> node" where
  "get_read_from_status n =
     (let n1 = (if read_from_status n = READ_FROM_PAST \<and> read_from_past n = []
                then snd (increment_read_from n) else n)
      in (read_from_status n1, n1))"

definition read_from_empty :: "node \<Rightarrow> bool" where
  "read_from_empty n \<longleftrightarrow> read_from_past_empty n \<and> read_from_promise_empty n \<and> future_value_empty n"

definition read_from_size :: "node \<Rightarrow> nat" where
  "read_from_size n =
     length (read_from_past n) + length (read_from_promises n) + length (future_values n)"

section \<open>Release sequences to break\<close>

definition add_relseq_break :: "aid option \<Rightarrow> node \<Rightarrow> node" where
  "add_relseq_break write n = n\<lparr>relseq_break_writes := relseq_break_writes n @ [write]\<rparr>"

definition get_relseq_break :: "node \<Rightarrow> aid option" where
  "get_relseq_break n =
     (if relseq_break_index n < int (length (relseq_break_writes n))
      then relseq_break_writes n ! nat (relseq_break_index n) else None)"

definition increment_relseq_break :: "node \<Rightarrow> bool \<times> node" where
  "increment_relseq_break n =
     (if relseq_break_index n < int (length (relseq_break_writes n))
      then let n1 = n\<lparr>relseq_break_index := relseq_break_index n + 1\<rparr>
           in (relseq_break_index n1 < int (length (relseq_break_writes n1)), n1)
      else (False, n))"

definition relseq_break_empty :: "node \<Rightarrow> bool" where
  "relseq_break_empty n \<longleftrightarrow> relseq_break_index n + 1 \<ge> int (length (relseq_break_writes n))"

section \<open>The next behavior\<close>

definition increment_behaviors :: "node \<Rightarrow> bool \<times> node" where
  "increment_behaviors n =
     (let (b1, n1) = increment_misc n in if b1 then (True, n1)
      else let (b2, n2) = increment_promise n1 in if b2 then (True, n2)
      else let (b3, n3) = increment_read_from n2 in if b3 then (True, n3)
      else let (b4, n4) = increment_relseq_break n3 in if b4 then (True, n4)
      else (False, n4))"

section \<open>Yield-based fairness\<close>

definition YIELD_E :: "32 word" where "YIELD_E = 1"
definition YIELD_D :: "32 word" where "YIELD_D = 2"
definition YIELD_S :: "32 word" where "YIELD_S = 4"
definition YIELD_P :: "32 word" where "YIELD_P = 8"

definition YIELD_INDEX :: "nat \<Rightarrow> nat \<Rightarrow> nat \<Rightarrow> nat" where
  "YIELD_INDEX tid1 tid2 n = tid1 * n + tid2"

definition get_yield_data :: "node \<Rightarrow> nat \<Rightarrow> nat \<Rightarrow> 32 word option" where
  "get_yield_data n tid1 tid2 =
     (if tid1 < num_threads n \<and> tid2 < num_threads n
      then map_option (\<lambda>d. d ! YIELD_INDEX tid1 tid2 (num_threads n)) (yield_data n)
      else Some (YIELD_S OR YIELD_D))"

definition has_priority_over :: "node \<Rightarrow> thread_id_t \<Rightarrow> thread_id_t \<Rightarrow> bool option" where
  "has_priority_over n t1 t2 = map_option (\<lambda>d. d AND YIELD_P \<noteq> 0) (get_yield_data n t1 t2)"

definition yield_cell ::
  "node \<Rightarrow> (thread_id_t \<Rightarrow> bool) \<Rightarrow> thread_id_t \<Rightarrow> nat \<Rightarrow> nat \<Rightarrow> 32 word option" where
  "yield_cell parent next_enabled curr_tid u v = do {
     yield_state \<leftarrow> get_yield_data parent u v;
     curr_enabled \<leftarrow> node_is_enabled parent v;
     Some (if \<not> next_enabled v
           then let y1 = yield_state AND NOT YIELD_E
                in if u = curr_tid \<and> curr_enabled then y1 OR YIELD_D else y1
           else yield_state) }"

fun yield_row ::
  "(nat \<Rightarrow> 32 word option) \<Rightarrow> nat list \<Rightarrow> nat \<Rightarrow> nat \<Rightarrow> 32 word list \<Rightarrow> 32 word list option" where
  "yield_row cell [] u n d = Some d"
| "yield_row cell (v # vs) u n d = do { y \<leftarrow> cell v; yield_row cell vs u n (d[YIELD_INDEX u v n := y]) }"

fun yield_rows ::
  "(nat \<Rightarrow> nat \<Rightarrow> 32 word option) \<Rightarrow> nat list \<Rightarrow> nat \<Rightarrow> nat \<Rightarrow> 32 word list \<Rightarrow> 32 word list option" where
  "yield_rows cell [] c n d = Some d"
| "yield_rows cell (u # us) c n d = do {
     d1 \<leftarrow> yield_row (cell u) [0 ..< n] u n d;
     let i = YIELD_INDEX u c n;
     yield_rows cell us c n (d1[i := (d1 ! i AND NOT YIELD_P) OR YIELD_S]) }"

definition yield_self :: "(thread_id_t \<Rightarrow> bool) \<Rightarrow> nat \<Rightarrow> 32 word \<Rightarrow> 32 word" where
  "yield_self next_enabled v y =
     (let y1 = (if y AND (YIELD_E OR YIELD_D) \<noteq> 0 \<and> y AND YIELD_S = 0 then y OR YIELD_P else y);
          y2 = y1 AND YIELD_P
      in if next_enabled v then y2 OR YIELD_E else y2)"

text \<open>\<open>next_enabled\<close> is \<open>scheduler->is_enabled\<close>; the other test of a yield is the action's.\<close>

definition update_yield ::
  "(thread_id_t \<Rightarrow> bool) \<Rightarrow> bool \<Rightarrow> node option \<Rightarrow> node \<Rightarrow> node option" where
  "update_yield next_enabled is_yield_act parent n =
     (let k = num_threads n;
          d0 = (case yield_data n of None \<Rightarrow> replicate (k * k) 0 | Some d \<Rightarrow> d)
      in case parent of
           None \<Rightarrow> Some (n\<lparr>yield_data := Some (fold (\<lambda>i d. d[i := YIELD_S OR YIELD_D]) [0 ..< k * k] d0)\<rparr>)
         | Some p \<Rightarrow> do {
             d1 \<leftarrow> yield_rows (yield_cell p next_enabled (nd_tid n)) [0 ..< k] (nd_tid n) k d0;
             let d2 = (if is_yield_act
                       then fold (\<lambda>v d. d[YIELD_INDEX (nd_tid n) v k :=
                                yield_self next_enabled v (d ! YIELD_INDEX (nd_tid n) v k)]) [0 ..< k] d1
                       else d1);
             Some (n\<lparr>yield_data := Some d2\<rparr>) })"

end
