(* ===== verification/NodeChoices.thy ===== *)
theory NodeChoices
  imports Nodes
begin

text \<open>
  What a node promises the search: its backtracking set and counter agree, its tests for
  remaining behaviors agree with the operations that move to the next one, and the iteration
  over the values to read from visits each of them once, in order.
\<close>

section \<open>The backtracking set\<close>

definition bt_ok :: "node \<Rightarrow> bool" where
  "bt_ok n \<longleftrightarrow> length (backtrack n) = num_threads n \<and> length (explored_children n) = num_threads n \<and>
     numBacktracks n = int (count_true (backtrack n))"

definition bt_set :: "node \<Rightarrow> thread_id_t set" where
  "bt_set n = {i. i < length (backtrack n) \<and> backtrack n ! i}"

definition explored_set :: "node \<Rightarrow> thread_id_t set" where
  "explored_set n = {i. i < length (explored_children n) \<and> explored_children n ! i}"

lemma backtrack_empty_iff: "bt_ok n \<Longrightarrow> backtrack_empty n \<longleftrightarrow> bt_set n = {}"
  by (auto simp: bt_ok_def backtrack_empty_def bt_set_def count_true_zero)

lemma explore_effect:
  assumes "bt_ok n" and "t < num_threads n"
  shows "\<exists>n'. explore t n = Some n' \<and> bt_ok n' \<and> bt_set n' = bt_set n - {t} \<and>
    explored_set n' = insert t (explored_set n)"
proof (cases "backtrack n ! t")
  case True
  then show ?thesis
    using assms count_true_clear [of t "backtrack n"]
    by (auto simp: explore_def bt_ok_def bt_set_def explored_set_def nth_list_update)
next
  case False
  then show ?thesis
    using assms by (auto simp: explore_def bt_ok_def bt_set_def explored_set_def nth_list_update)
qed

lemma set_backtrack_effect:
  assumes "bt_ok n" and "t < num_threads n"
  shows "\<exists>n'. set_backtrack t n = Some (t \<notin> bt_set n, n') \<and> bt_ok n' \<and> bt_set n' = insert t (bt_set n) \<and>
    explored_set n' = explored_set n"
proof (cases "backtrack n ! t")
  case True
  then show ?thesis using assms by (auto simp: set_backtrack_def bt_ok_def bt_set_def)
next
  case False
  then show ?thesis using assms count_true_set [of t "backtrack n"]
    by (auto simp: set_backtrack_def bt_ok_def bt_set_def explored_set_def nth_list_update)
qed

lemma clear_backtracking_effect:
  assumes "bt_ok n"
  shows "bt_ok (clear_backtracking n) \<and> bt_set (clear_backtracking n) = {} \<and>
    explored_set (clear_backtracking n) = {}"
proof -
  have "count_true (map (\<lambda>_. False) xs) = 0" for xs :: "bool list" by (induction xs) auto
  then show ?thesis using assms
    by (auto simp: clear_backtracking_def bt_ok_def bt_set_def explored_set_def)
qed

lemma first_true_spec:
  "first_true bs i - i \<le> length bs \<and> i \<le> first_true bs i \<and>
   (first_true bs i - i < length bs \<longrightarrow> bs ! (first_true bs i - i)) \<and>
   (\<forall>j < first_true bs i - i. \<not> bs ! j)"
proof (induction bs i rule: first_true.induct)
  case (2 b bs i)
  show ?case
  proof (cases b)
    case False
    then have eq: "first_true (b # bs) i - i = Suc (first_true bs (Suc i) - Suc i)"
      using 2 by auto
    then show ?thesis using 2 False by (auto simp: nth_Cons split: nat.splits)
  qed simp
qed simp

lemma first_true_le: "first_true bs 0 \<le> length bs"
  using first_true_spec [of bs 0] by simp

lemma first_true_set: "first_true bs 0 < length bs \<Longrightarrow> bs ! first_true bs 0"
  using first_true_spec [of bs 0] by simp

lemma first_true_before: "j < first_true bs 0 \<Longrightarrow> \<not> bs ! j"
  using first_true_spec [of bs 0] by simp

lemma get_next_backtrack_effect:
  assumes "bt_ok n" and "bt_set n \<noteq> {}"
  shows "\<exists>t n'. get_next_backtrack n = Some (t, n') \<and> t \<in> bt_set n \<and> (\<forall>u \<in> bt_set n. t \<le> u) \<and>
    bt_ok n' \<and> bt_set n' = bt_set n - {t} \<and> explored_set n' = explored_set n"
proof -
  let ?t = "first_true (backtrack n) 0"
  note spec = first_true_le [of "backtrack n"] first_true_set [of "backtrack n"]
    first_true_before [of _ "backtrack n"]
  have least: "?t \<le> u" if "u \<in> bt_set n" for u
  proof (rule ccontr)
    assume "\<not> ?t \<le> u"
    then have "\<not> backtrack n ! u" by (intro spec(3)) simp
    then show False using that by (simp add: bt_set_def)
  qed
  have lt: "?t < length (backtrack n)"
  proof -
    from assms(2) obtain u where u: "u \<in> bt_set n" by blast
    then have "u < length (backtrack n)" by (simp add: bt_set_def)
    with least [OF u] show ?thesis by simp
  qed
  then have "?t \<in> bt_set n" using spec(2) by (simp add: bt_set_def)
  let ?n = "n\<lparr>backtrack := (backtrack n)[?t := False], numBacktracks := numBacktracks n - 1\<rparr>"
  have "get_next_backtrack n = Some (?t, ?n)"
    using lt by (simp add: get_next_backtrack_def Let_def)
  moreover have "bt_ok ?n"
    using assms(1) count_true_clear [OF lt spec(2) [OF lt]] by (simp add: bt_ok_def)
  moreover have "bt_set ?n = bt_set n - {?t}" using lt by (auto simp: bt_set_def nth_list_update)
  moreover have "explored_set ?n = explored_set n" by (simp add: explored_set_def)
  ultimately show ?thesis using \<open>?t \<in> bt_set n\<close> least by blast
qed

section \<open>Remaining behaviors\<close>

lemma next_promise_none:
  "i \<ge> 0 \<Longrightarrow> next_promise rp i = None \<longleftrightarrow> no_promise_from rp i"
proof (induction rp i rule: next_promise.induct)
  case (1 rp i)
  then show ?case
    by (subst next_promise.simps, subst no_promise_from.simps) auto
qed

lemma next_promise_some:
  "next_promise rp i = Some j \<Longrightarrow> i \<le> j \<and> j < int (length rp) \<and> rp ! nat j"
proof (induction rp i rule: next_promise.induct)
  case (1 rp i)
  from 1(2) have b: "i < int (length rp)" by (subst (asm) next_promise.simps) (simp split: if_splits)
  show ?case
  proof (cases "rp ! nat i")
    case True
    then show ?thesis using 1(2) b by (subst (asm) next_promise.simps) auto
  next
    case False
    then have "next_promise rp (i + 1) = Some j"
      using 1(2) b by (subst (asm) next_promise.simps) simp
    from 1(1) [OF b False this] show ?thesis by simp
  qed
qed

definition choices_ok :: "node \<Rightarrow> bool" where
  "choices_ok n \<longleftrightarrow> resolve_promise_idx n \<ge> -1 \<and> read_from_promise_idx n \<ge> -1 \<and>
     future_index n \<ge> -1 \<and> relseq_break_index n \<ge> 0 \<and> misc_index n \<ge> 0"

lemma increment_misc_more: "fst (increment_misc n) \<longleftrightarrow> \<not> misc_empty n"
  by (auto simp: increment_misc_def misc_empty_def)

lemma increment_promise_more:
  "choices_ok n \<Longrightarrow> fst (increment_promise n) \<longleftrightarrow> \<not> promise_empty n"
  using next_promise_none [of "resolve_promise_idx n + 1" "resolve_promise n"]
  by (auto simp: increment_promise_def promise_empty_def choices_ok_def split: option.splits)
     (auto simp: no_promise_from.simps)

lemma increment_read_from_more: "fst (increment_read_from n) \<longleftrightarrow> \<not> read_from_empty n"
  by (auto simp: increment_read_from_def increment_read_from_past_def increment_read_from_promise_def
      increment_future_value_def read_from_empty_def read_from_past_empty_def read_from_promise_empty_def
      future_value_empty_def clear_promise_resolutions_def Let_def)

lemma increment_relseq_break_more: "fst (increment_relseq_break n) \<longleftrightarrow> \<not> relseq_break_empty n"
  by (auto simp: increment_relseq_break_def relseq_break_empty_def)

text \<open>Each of the four groups is left alone by the operations on the others.\<close>

lemma increment_misc_frame:
  "promise_empty (snd (increment_misc n)) = promise_empty n"
  "read_from_empty (snd (increment_misc n)) = read_from_empty n"
  "relseq_break_empty (snd (increment_misc n)) = relseq_break_empty n"
  "choices_ok n \<Longrightarrow> choices_ok (snd (increment_misc n))"
  by (auto simp: increment_misc_def promise_empty_def read_from_empty_def read_from_past_empty_def
      read_from_promise_empty_def future_value_empty_def relseq_break_empty_def choices_ok_def)

lemma increment_promise_frame:
  "read_from_empty (snd (increment_promise n)) = read_from_empty n"
  "relseq_break_empty (snd (increment_promise n)) = relseq_break_empty n"
  by (auto simp: increment_promise_def read_from_empty_def read_from_past_empty_def
      read_from_promise_empty_def future_value_empty_def relseq_break_empty_def split: option.splits)

lemma increment_read_from_frame:
  "relseq_break_empty (snd (increment_read_from n)) = relseq_break_empty n"
  by (auto simp: increment_read_from_def increment_read_from_past_def increment_read_from_promise_def
      increment_future_value_def clear_promise_resolutions_def Let_def relseq_break_empty_def)

lemma increment_behaviors_cases:
  "fst (increment_behaviors n) \<longleftrightarrow>
     fst (increment_misc n) \<or> fst (increment_promise (snd (increment_misc n))) \<or>
     fst (increment_read_from (snd (increment_promise (snd (increment_misc n))))) \<or>
     fst (increment_relseq_break (snd (increment_read_from (snd (increment_promise (snd (increment_misc n)))))))"
  by (simp add: increment_behaviors_def split_beta)

definition behaviors_empty :: "node \<Rightarrow> bool" where
  "behaviors_empty n \<longleftrightarrow> misc_empty n \<and> promise_empty n \<and> read_from_empty n \<and> relseq_break_empty n"

lemma increment_behaviors_more:
  assumes "choices_ok n"
  shows "fst (increment_behaviors n) \<longleftrightarrow> \<not> behaviors_empty n"
  using increment_promise_more [OF increment_misc_frame(4) [OF assms]]
  by (simp add: increment_behaviors_cases increment_misc_more increment_read_from_more
      increment_relseq_break_more increment_misc_frame increment_promise_frame
      increment_read_from_frame behaviors_empty_def)

section \<open>Moving on uses up the remaining choices\<close>

text \<open>How many of the choices of a node are left.\<close>

definition reads_left :: "node \<Rightarrow> nat" where
  "reads_left n = (length (read_from_past n) - read_from_past_idx n) +
     nat (int (length (read_from_promises n)) - read_from_promise_idx n) +
     nat (int (length (future_values n)) - future_index n)"

definition behaviors_left :: "node \<Rightarrow> nat" where
  "behaviors_left n = nat (misc_max n - misc_index n) +
     nat (int (length (resolve_promise n)) - resolve_promise_idx n) * (if resolve_promise n = [] then 0 else 1) +
     reads_left n + nat (int (length (relseq_break_writes n)) - relseq_break_index n)"

lemma increment_misc_left:
  "behaviors_left (snd (increment_misc n)) \<le> behaviors_left n \<and>
   (fst (increment_misc n) \<longrightarrow> behaviors_left (snd (increment_misc n)) < behaviors_left n)"
  by (auto simp: increment_misc_def behaviors_left_def reads_left_def)

lemma increment_promise_left:
  "behaviors_left (snd (increment_promise n)) \<le> behaviors_left n \<and>
   (fst (increment_promise n) \<longrightarrow> behaviors_left (snd (increment_promise n)) < behaviors_left n)"
proof (cases "resolve_promise n = [] \<or> next_promise (resolve_promise n) (resolve_promise_idx n + 1) = None")
  case True
  then show ?thesis by (auto simp: increment_promise_def)
next
  case False
  then obtain i where i: "next_promise (resolve_promise n) (resolve_promise_idx n + 1) = Some i" by blast
  from next_promise_some [OF i] False i show ?thesis
    by (auto simp: increment_promise_def behaviors_left_def reads_left_def)
qed

lemma increment_past_left:
  "reads_left (snd (increment_read_from_past n)) \<le> reads_left n \<and>
   (fst (increment_read_from_past n) \<longrightarrow> reads_left (snd (increment_read_from_past n)) < reads_left n)"
  by (auto simp: increment_read_from_past_def reads_left_def)

lemma increment_promise_choice_left:
  "reads_left (snd (increment_read_from_promise n)) \<le> reads_left n \<and>
   (fst (increment_read_from_promise n) \<longrightarrow>
      reads_left (snd (increment_read_from_promise n)) < reads_left n)"
  by (auto simp: increment_read_from_promise_def reads_left_def)

lemma increment_future_left:
  "reads_left (snd (increment_future_value n)) \<le> reads_left n \<and>
   (fst (increment_future_value n) \<longrightarrow> reads_left (snd (increment_future_value n)) < reads_left n)"
  by (auto simp: increment_future_value_def reads_left_def)

lemma reads_left_frame [simp]:
  "reads_left (n\<lparr>read_from_status := st\<rparr>) = reads_left n"
  "reads_left (clear_promise_resolutions n) = reads_left n"
  by (simp_all add: reads_left_def clear_promise_resolutions_def)

text \<open>The three steps of \<open>increment_read_from\<close>.\<close>

lemma increment_read_from_eq:
  "increment_read_from n =
     (let p = increment_read_from_past (clear_promise_resolutions n);
          q = increment_read_from_promise (snd p);
          r = increment_future_value (snd q)
      in if fst p then (True, (snd p)\<lparr>read_from_status := READ_FROM_PAST\<rparr>)
         else if fst q then (True, (snd q)\<lparr>read_from_status := READ_FROM_PROMISE\<rparr>)
         else if fst r then (True, (snd r)\<lparr>read_from_status := READ_FROM_FUTURE\<rparr>)
         else (False, (snd r)\<lparr>read_from_status := READ_FROM_NONE\<rparr>))"
  by (simp add: increment_read_from_def split_beta Let_def)

lemma increment_read_from_reads_left:
  "reads_left (snd (increment_read_from n)) \<le> reads_left n \<and>
   (fst (increment_read_from n) \<longrightarrow> reads_left (snd (increment_read_from n)) < reads_left n)"
proof -
  define p where "p = increment_read_from_past (clear_promise_resolutions n)"
  define q where "q = increment_read_from_promise (snd p)"
  define r where "r = increment_future_value (snd q)"
  have "increment_read_from n =
     (if fst p then (True, (snd p)\<lparr>read_from_status := READ_FROM_PAST\<rparr>)
      else if fst q then (True, (snd q)\<lparr>read_from_status := READ_FROM_PROMISE\<rparr>)
      else if fst r then (True, (snd r)\<lparr>read_from_status := READ_FROM_FUTURE\<rparr>)
      else (False, (snd r)\<lparr>read_from_status := READ_FROM_NONE\<rparr>))"
    by (simp add: increment_read_from_eq p_def q_def r_def Let_def)
  then show ?thesis
    using increment_past_left [of "clear_promise_resolutions n"] increment_promise_choice_left [of "snd p"]
      increment_future_left [of "snd q"]
    by (auto simp: p_def [symmetric] q_def [symmetric] r_def [symmetric])
qed

lemma increment_read_from_frames:
  "misc_max (snd (increment_read_from n)) = misc_max n"
  "misc_index (snd (increment_read_from n)) = misc_index n"
  "resolve_promise (snd (increment_read_from n)) = []"
  "relseq_break_writes (snd (increment_read_from n)) = relseq_break_writes n"
  "relseq_break_index (snd (increment_read_from n)) = relseq_break_index n"
  by (simp_all add: increment_read_from_eq increment_read_from_past_def increment_read_from_promise_def
      increment_future_value_def clear_promise_resolutions_def Let_def)

lemma increment_read_from_left:
  "behaviors_left (snd (increment_read_from n)) \<le> behaviors_left n \<and>
   (fst (increment_read_from n) \<longrightarrow> behaviors_left (snd (increment_read_from n)) < behaviors_left n)"
  using increment_read_from_reads_left [of n]
  by (auto simp: behaviors_left_def increment_read_from_frames)

lemma increment_relseq_break_left:
  "behaviors_left (snd (increment_relseq_break n)) \<le> behaviors_left n \<and>
   (fst (increment_relseq_break n) \<longrightarrow> behaviors_left (snd (increment_relseq_break n)) < behaviors_left n)"
  by (auto simp: increment_relseq_break_def behaviors_left_def reads_left_def)

lemma increment_behaviors_left:
  assumes "fst (increment_behaviors n)"
  shows "behaviors_left (snd (increment_behaviors n)) < behaviors_left n"
proof -
  let ?n1 = "snd (increment_misc n)"
  let ?n2 = "snd (increment_promise ?n1)"
  let ?n3 = "snd (increment_read_from ?n2)"
  note l1 = increment_misc_left [of n] and l2 = increment_promise_left [of ?n1]
    and l3 = increment_read_from_left [of ?n2] and l4 = increment_relseq_break_left [of ?n3]
  have eq: "snd (increment_behaviors n) =
      (if fst (increment_misc n) then ?n1 else if fst (increment_promise ?n1) then ?n2
       else if fst (increment_read_from ?n2) then ?n3 else snd (increment_relseq_break ?n3))"
    by (simp add: increment_behaviors_def split_beta)
  consider "fst (increment_misc n)" | "\<not> fst (increment_misc n)" "fst (increment_promise ?n1)"
    | "\<not> fst (increment_misc n)" "\<not> fst (increment_promise ?n1)" "fst (increment_read_from ?n2)"
    | "\<not> fst (increment_misc n)" "\<not> fst (increment_promise ?n1)" "\<not> fst (increment_read_from ?n2)"
      "fst (increment_relseq_break ?n3)"
    using assms unfolding increment_behaviors_cases by blast
  then show ?thesis
    by cases (use l1 l2 l3 l4 in \<open>simp_all add: eq\<close>)
qed

section \<open>The values to read from, in order\<close>

datatype rf_choice = RfPast aid | RfPromise aid | RfFuture future_value

text \<open>The choice the node currently stands for, and the choices from it on.\<close>

fun current_choice :: "node \<Rightarrow> rf_choice option" where
  "current_choice n = (case read_from_status n of
     READ_FROM_PAST \<Rightarrow> map_option RfPast (get_read_from_past n)
   | READ_FROM_PROMISE \<Rightarrow>
       (if 0 \<le> read_from_promise_idx n \<and> read_from_promise_idx n < int (length (read_from_promises n))
        then Some (RfPromise (read_from_promises n ! nat (read_from_promise_idx n))) else None)
   | READ_FROM_FUTURE \<Rightarrow> map_option RfFuture (get_future_value n)
   | READ_FROM_NONE \<Rightarrow> None)"

fun read_trace :: "nat \<Rightarrow> node \<Rightarrow> rf_choice list" where
  "read_trace 0 n = []"
| "read_trace (Suc k) n =
     (let (st, n1) = get_read_from_status n
      in case current_choice n1 of
           None \<Rightarrow> []
         | Some c \<Rightarrow> c # (let (more, n2) = increment_read_from n1
                          in if more then read_trace k n2 else []))"

definition choices_from :: "node \<Rightarrow> rf_choice list" where
  "choices_from n = map RfPast (drop (read_from_past_idx n + 1) (read_from_past n)) @
     map RfPromise (drop (nat (read_from_promise_idx n + 1)) (read_from_promises n)) @
     map RfFuture (drop (nat (future_index n + 1)) (future_values n))"

definition reads_ok :: "node \<Rightarrow> bool" where
  "reads_ok n \<longleftrightarrow> read_from_promise_idx n \<ge> -1 \<and> future_index n \<ge> -1"

lemma drop_step: "i < length xs \<Longrightarrow> drop i xs = xs ! i # drop (Suc i) xs"
  by (simp add: Cons_nth_drop_Suc)

lemma drop_nat_step:
  "-1 \<le> i \<Longrightarrow> i + 1 < int (length xs) \<Longrightarrow>
   drop (nat (i + 1)) xs = xs ! nat (i + 1) # drop (nat (2 + i)) xs"
  by (simp add: drop_step nat_less_iff Suc_nat_eq_nat_zadd1)

lemma past_done_step:
  assumes "\<not> read_from_past_idx n + 1 < length (read_from_past n)"
  shows "\<exists>m. increment_read_from_past n = (False, m) \<and>
    drop (Suc (read_from_past_idx m)) (read_from_past m) = [] \<and>
    read_from_promises m = read_from_promises n \<and> read_from_promise_idx m = read_from_promise_idx n \<and>
    future_values m = future_values n \<and> future_index m = future_index n"
  using assms by (auto simp: increment_read_from_past_def)

lemma promise_done_step:
  assumes "\<not> read_from_promise_idx n + 1 < int (length (read_from_promises n))"
    and "-1 \<le> read_from_promise_idx n"
  shows "\<exists>m. increment_read_from_promise n = (False, m) \<and>
    drop (nat (read_from_promise_idx m + 1)) (read_from_promises m) = [] \<and>
    -1 \<le> read_from_promise_idx m \<and>
    read_from_past m = read_from_past n \<and> read_from_past_idx m = read_from_past_idx n \<and>
    future_values m = future_values n \<and> future_index m = future_index n"
  using assms by (auto simp: increment_read_from_promise_def)

lemma increment_read_from_next:
  assumes ok: "reads_ok n" and ne: "choices_from n \<noteq> []"
  shows "fst (increment_read_from n) \<and>
    current_choice (snd (increment_read_from n)) = Some (hd (choices_from n)) \<and>
    choices_from (snd (increment_read_from n)) = tl (choices_from n) \<and>
    reads_ok (snd (increment_read_from n)) \<and>
    (read_from_status (snd (increment_read_from n)) = READ_FROM_PAST \<longrightarrow>
       read_from_past (snd (increment_read_from n)) \<noteq> [])"
proof -
  consider (past) "read_from_past_idx n + 1 < length (read_from_past n)"
    | (promise) "\<not> read_from_past_idx n + 1 < length (read_from_past n)"
        "read_from_promise_idx n + 1 < int (length (read_from_promises n))"
    | (future) "\<not> read_from_past_idx n + 1 < length (read_from_past n)"
        "\<not> read_from_promise_idx n + 1 < int (length (read_from_promises n))"
        "future_index n + 1 < int (length (future_values n))"
    using ne ok by (fastforce simp: choices_from_def reads_ok_def)
  then show ?thesis
  proof cases
    case past
    then show ?thesis using ok
      by (simp add: increment_read_from_eq increment_read_from_past_def clear_promise_resolutions_def
          Let_def choices_from_def reads_ok_def get_read_from_past_def drop_step [of "Suc (read_from_past_idx n)"])
         auto
  next
    case promise
    let ?n0 = "clear_promise_resolutions n"
    obtain m where m: "increment_read_from_past ?n0 = (False, m)"
      "drop (Suc (read_from_past_idx m)) (read_from_past m) = []"
      "read_from_promises m = read_from_promises n" "read_from_promise_idx m = read_from_promise_idx n"
      "future_values m = future_values n" "future_index m = future_index n"
      using past_done_step [of ?n0] promise(1) by (auto simp: clear_promise_resolutions_def)
    have cf: "choices_from n = map RfPromise (drop (nat (read_from_promise_idx n + 1)) (read_from_promises n)) @
        map RfFuture (drop (nat (future_index n + 1)) (future_values n))"
      using promise(1) by (simp add: choices_from_def)
    show ?thesis using ok promise(2) m cf
      by (simp add: increment_read_from_eq increment_read_from_promise_def
          Let_def choices_from_def reads_ok_def drop_nat_step)
  next
    case future
    let ?n0 = "clear_promise_resolutions n"
    obtain m where m: "increment_read_from_past ?n0 = (False, m)"
      "drop (Suc (read_from_past_idx m)) (read_from_past m) = []"
      "read_from_promises m = read_from_promises n" "read_from_promise_idx m = read_from_promise_idx n"
      "future_values m = future_values n" "future_index m = future_index n"
      using past_done_step [of ?n0] future(1) by (auto simp: clear_promise_resolutions_def)
    obtain m' where m': "increment_read_from_promise m = (False, m')"
      "drop (nat (read_from_promise_idx m' + 1)) (read_from_promises m') = []"
      "-1 \<le> read_from_promise_idx m'"
      "drop (Suc (read_from_past_idx m')) (read_from_past m') = []"
      "future_values m' = future_values n" "future_index m' = future_index n"
      using promise_done_step [of m] future(2) ok m by (auto simp: reads_ok_def)
    have cf: "choices_from n = map RfFuture (drop (nat (future_index n + 1)) (future_values n))"
      using future(1,2) ok by (simp add: choices_from_def reads_ok_def)
    show ?thesis using ok future(3) m(1) m' cf
      by (simp add: increment_read_from_eq increment_future_value_def get_future_value_def
          Let_def choices_from_def reads_ok_def drop_nat_step)
  qed
qed

lemma increment_read_from_last:
  assumes "reads_ok n" and "choices_from n = []"
  shows "\<not> fst (increment_read_from n)"
  using assms
  by (auto simp: increment_read_from_more read_from_empty_def read_from_past_empty_def
      read_from_promise_empty_def future_value_empty_def choices_from_def reads_ok_def)

lemma increment_read_from_none: "\<not> fst (increment_read_from n) \<Longrightarrow>
    read_from_status (snd (increment_read_from n)) = READ_FROM_NONE"
  by (auto simp: increment_read_from_eq Let_def split: if_splits)

lemma read_trace_from:
  assumes "reads_ok n" and "current_choice n = Some c" and "length (choices_from n) < k"
    and "read_from_status n = READ_FROM_PAST \<longrightarrow> read_from_past n \<noteq> []"
  shows "read_trace k n = c # choices_from n"
  using assms
proof (induction k arbitrary: n c)
  case (Suc k)
  have st: "get_read_from_status n = (read_from_status n, n)"
    using Suc.prems(4) by (auto simp: get_read_from_status_def Let_def)
  show ?case
  proof (cases "choices_from n = []")
    case True
    then show ?thesis using increment_read_from_last [OF Suc.prems(1)] Suc.prems(2) st
      by (simp add: split_beta del: current_choice.simps)
  next
    case False
    note nxt = increment_read_from_next [OF Suc.prems(1) False]
    have "length (choices_from (snd (increment_read_from n))) < k"
      using nxt Suc.prems(3) False by (cases "choices_from n") auto
    with nxt Suc.IH have "read_trace k (snd (increment_read_from n)) = choices_from n"
      using False by (metis list.collapse)
    then show ?thesis using nxt Suc.prems(2) st
      by (simp add: split_beta del: current_choice.simps)
  qed
qed simp

section \<open>Future values\<close>

lemma find_future_index:
  "find_future fs i idx v = Some j \<Longrightarrow>
   j = idx \<or> int i \<le> j \<and> j < int i + int (length fs) \<and>
     fv_value (fs ! (nat j - i)) = fv_value v \<and> fv_tid (fs ! (nat j - i)) = fv_tid v"
proof (induction fs i idx v rule: find_future.induct)
  case (2 f fs i idx v)
  show ?case
  proof (cases "fv_value f = fv_value v \<and> fv_tid f = fv_tid v")
    case True
    then have "find_future fs (Suc i) (int i) v = Some j" using 2(3) by (simp split: if_splits)
    then have "j = int i \<or> int (Suc i) \<le> j \<and> j < int (Suc i) + int (length fs) \<and>
       fv_value (fs ! (nat j - Suc i)) = fv_value v \<and> fv_tid (fs ! (nat j - Suc i)) = fv_tid v"
      using 2(1) [OF True] 2(3) True by (simp split: if_splits)
    then show ?thesis using True by (auto simp: nth_Cons' nat_le_iff Suc_diff_le)
  next
    case False
    then have "j = idx \<or> int (Suc i) \<le> j \<and> j < int (Suc i) + int (length fs) \<and>
       fv_value (fs ! (nat j - Suc i)) = fv_value v \<and> fv_tid (fs ! (nat j - Suc i)) = fv_tid v"
      using 2(2) [OF False] 2(3) by (auto split: if_splits)
    then show ?thesis by (auto simp: nth_Cons' nat_le_iff Suc_diff_le)
  qed
qed simp

definition same_future :: "future_value \<Rightarrow> future_value \<Rightarrow> bool" where
  "same_future a b \<longleftrightarrow> fv_value a = fv_value b \<and> fv_tid a = fv_tid b \<and> fv_expiration a = fv_expiration b"

lemma add_future_value_accepted:
  assumes range: "-1 \<le> future_index n" "future_index n < int (length (future_values n))"
    and acc: "add_future_value params v n = (True, n')"
  shows "future_index n' = future_index n \<and>
    (\<exists>i. future_index n < int i \<and> i < length (future_values n') \<and> same_future (future_values n' ! i) v) \<and>
    (\<forall>i. int i \<le> future_index n \<longrightarrow> future_values n' ! i = future_values n ! i) \<and>
    (maxfuturevalues params > 0 \<longrightarrow> int (length (future_values n)) \<le> maxfuturevalues params \<longrightarrow>
       int (length (future_values n')) \<le> maxfuturevalues params)"
proof -
  obtain j where j: "find_future (future_values n) 0 (-1) v = Some j"
    using acc by (auto simp: add_future_value_def split: option.splits)
  show ?thesis
  proof (cases "j > future_index n")
    case True
    then have jr: "0 \<le> j" "j < int (length (future_values n))"
      "fv_value (future_values n ! nat j) = fv_value v" "fv_tid (future_values n ! nat j) = fv_tid v"
      using find_future_index [OF j] range by auto
    have n': "n' = n\<lparr>future_values := (future_values n)[nat j :=
        (future_values n ! nat j)\<lparr>fv_expiration := fv_expiration v\<rparr>]\<rparr>"
      using acc j True by (simp add: add_future_value_def)
    have "same_future (future_values n' ! nat j) v" "nat j < length (future_values n')"
      using jr by (simp_all add: n' same_future_def nat_less_iff)
    moreover have "future_values n' ! i = future_values n ! i" if "int i \<le> future_index n" for i
    proof -
      have "i \<noteq> nat j" using that True jr(1) by auto
      then show ?thesis by (simp add: n')
    qed
    ultimately show ?thesis using True jr(1) by (auto simp: n' intro!: exI [of _ "nat j"])
  next
    case False
    then have n': "n' = n\<lparr>future_values := future_values n @ [v]\<rparr>"
      and full: "\<not> (maxfuturevalues params > 0 \<and> int (length (future_values n)) \<ge> maxfuturevalues params)"
      using acc j by (auto simp: add_future_value_def split: if_splits)
    have "same_future (future_values n' ! length (future_values n)) v"
      by (simp add: n' same_future_def)
    moreover have "future_values n' ! i = future_values n ! i" if "int i \<le> future_index n" for i
      using that range(2) by (simp add: n' nth_append)
    ultimately show ?thesis using range full
      by (auto simp: n' intro!: exI [of _ "length (future_values n)"])
  qed
qed

section \<open>Properties\<close>

text \<open>
  A future value that \<open>add_future_value\<close> accepts will be tried: it is in the list, with
  its value, thread and expiration, at a position the iteration has not reached; the positions
  already tried are unchanged and the bound on the number of values is respected. A refusal
  changes nothing.
\<close>

theorem add_future_value_pending:
  assumes "-1 \<le> future_index n" and "future_index n < int (length (future_values n))"
    and "add_future_value params v n = (b, n')"
  shows "(\<not> b \<longrightarrow> n' = n) \<and>
    (b \<longrightarrow> (\<exists>i. future_index n' < int i \<and> i < length (future_values n') \<and>
              same_future (future_values n' ! i) v) \<and>
       (\<forall>i. int i \<le> future_index n \<longrightarrow> future_values n' ! i = future_values n ! i) \<and>
       (maxfuturevalues params > 0 \<longrightarrow> int (length (future_values n)) \<le> maxfuturevalues params \<longrightarrow>
          int (length (future_values n')) \<le> maxfuturevalues params))"
proof (cases b)
  case True
  then show ?thesis using add_future_value_accepted [OF assms(1,2)] assms(3) by auto
next
  case False
  then show ?thesis using assms(3)
    by (auto simp: add_future_value_def split: option.splits if_splits)
qed


text \<open>
  C33: A node's backtracking bookkeeping is exact: the counter behind \<open>backtrack_empty\<close> is the
  number of threads marked, and exploring a child, marking a thread, taking the next thread
  (always the lowest one marked, which fails only on an empty set) and clearing change the
  set of marked threads and nothing else.
\<close>

theorem backtracking_exact:
  assumes "bt_ok n"
  shows "(backtrack_empty n \<longleftrightarrow> bt_set n = {}) \<and>
    (bt_set n \<noteq> {} \<longrightarrow> (\<exists>t n'. get_next_backtrack n = Some (t, n') \<and> t \<in> bt_set n \<and>
       (\<forall>u \<in> bt_set n. t \<le> u) \<and> bt_ok n' \<and> bt_set n' = bt_set n - {t})) \<and>
    (t < num_threads n \<longrightarrow>
       (\<exists>n'. explore t n = Some n' \<and> bt_ok n' \<and> bt_set n' = bt_set n - {t} \<and>
          explored_set n' = insert t (explored_set n)) \<and>
       (\<exists>n'. set_backtrack t n = Some (t \<notin> bt_set n, n') \<and> bt_ok n' \<and> bt_set n' = insert t (bt_set n))) \<and>
    bt_ok (clear_backtracking n) \<and> bt_set (clear_backtracking n) = {}"
proof (intro conjI impI)
  show "backtrack_empty n \<longleftrightarrow> bt_set n = {}" by (rule backtrack_empty_iff [OF assms])
  show "\<exists>t n'. get_next_backtrack n = Some (t, n') \<and> t \<in> bt_set n \<and> (\<forall>u \<in> bt_set n. t \<le> u) \<and>
      bt_ok n' \<and> bt_set n' = bt_set n - {t}" if "bt_set n \<noteq> {}"
    using get_next_backtrack_effect [OF assms that] by fast
  show "\<exists>n'. explore t n = Some n' \<and> bt_ok n' \<and> bt_set n' = bt_set n - {t} \<and>
      explored_set n' = insert t (explored_set n)" if "t < num_threads n"
    by (rule explore_effect [OF assms that])
  show "\<exists>n'. set_backtrack t n = Some (t \<notin> bt_set n, n') \<and> bt_ok n' \<and> bt_set n' = insert t (bt_set n)"
    if "t < num_threads n"
    using set_backtrack_effect [OF assms that] by fast
qed (use clear_backtracking_effect [OF assms] in simp_all)

text \<open>A node of three threads, as \<open>Node_new\<close> builds it without the fairness window.\<close>

definition sample_params :: model_params where
  "sample_params = \<lparr>maxreads = 0, maxfuturedelay = 6, yieldon = True, yieldblock = False,
     fairwindow = 0, enabledcount = 1, bound = 0, uninitvalue = 0, maxexecutions = 0,
     maxfuturevalues = 2, expireslop = 4\<rparr>"

definition sample_node :: node where
  "sample_node = the (Node_new sample_params 0 1 None 3 None)"

lemma sample_node_eq:
  "sample_node = \<lparr>read_from_status = READ_FROM_PAST, nd_action = 0, nd_tid = 1,
       uninit_action = None, num_threads = 3,
       explored_children = replicate 3 False, backtrack = replicate 3 False,
       fairness = replicate 3 \<lparr>enabled_count = 0, turns = 0, priority = False\<rparr>,
       numBacktracks = 0, enabled_array = None,
       read_from_past = [], read_from_past_idx = 0,
       read_from_promises = [], read_from_promise_idx = -1,
       future_values = [], future_index = -1,
       resolve_promise = [], resolve_promise_idx = -1,
       relseq_break_writes = [], relseq_break_index = 0,
       misc_index = 0, misc_max = 0, yield_data = None\<rparr>"
  by (simp add: sample_node_def Node_new_def sample_params_def)

lemma backtracking_exact_witness:
  "\<exists>n'. set_backtrack 2 sample_node = Some (True, n') \<and> bt_set n' = {2}"
proof -
  have "bt_ok sample_node" and "bt_set sample_node = {}" and "num_threads sample_node = 3"
    by (auto simp: bt_ok_def bt_set_def sample_node_eq)
  with backtracking_exact [of sample_node 2] show ?thesis by auto
qed

text \<open>
  C0: The tests a node offers and the operation that moves on agree: \<open>increment_behaviors\<close>
  succeeds exactly when one of the four groups of choices is not exhausted, and every success
  uses up some of the finitely many choices left, so a search that only moves on ends.
\<close>

theorem behaviors_exhausted:
  assumes "choices_ok n"
  shows "(fst (increment_behaviors n) \<longleftrightarrow>
      \<not> (misc_empty n \<and> promise_empty n \<and> read_from_empty n \<and> relseq_break_empty n)) \<and>
    (fst (increment_behaviors n) \<longrightarrow> behaviors_left (snd (increment_behaviors n)) < behaviors_left n)"
  using increment_behaviors_more [OF assms] increment_behaviors_left
  by (simp add: behaviors_empty_def)

lemma behaviors_exhausted_witness:
  "fst (increment_behaviors (set_promise 1 sample_node))"
proof -
  have "choices_ok (set_promise 1 sample_node)"
    by (simp add: choices_ok_def set_promise_def sample_node_eq Let_def)
  moreover have "\<not> promise_empty (set_promise 1 sample_node)"
    by (simp add: promise_empty_def set_promise_def sample_node_eq Let_def vec_resize_def
        no_promise_from.simps)
  ultimately show ?thesis using behaviors_exhausted [of "set_promise 1 sample_node"] by blast
qed

text \<open>
  The iteration over the values a read may see is complete and without repetition: asking
  a fresh node for its status and incrementing until the increment fails visits every past
  store, then every promise, then every future value, each once and in the order they were
  added.
\<close>

lemma read_from_iteration:
  assumes "read_from_status n = READ_FROM_PAST" and "read_from_past_idx n = 0"
    and "read_from_promise_idx n = -1" and "future_index n = -1" and "read_from_size n < k"
  shows "read_trace k n = map RfPast (read_from_past n) @ map RfPromise (read_from_promises n) @
    map RfFuture (future_values n)"
proof -
  have ok: "reads_ok n" using assms by (simp add: reads_ok_def)
  obtain k' where k: "k = Suc k'" using assms(5) by (cases k) auto
  show ?thesis
  proof (cases "read_from_past n = []")
    case False
    then have "current_choice n = Some (RfPast (read_from_past n ! 0))"
      using assms by (simp add: get_read_from_past_def)
    from read_trace_from [OF ok this] False assms show ?thesis
      by (cases "read_from_past n") (auto simp: choices_from_def read_from_size_def)
  next
    case True
    let ?n1 = "snd (increment_read_from n)"
    have all: "choices_from n = map RfPromise (read_from_promises n) @ map RfFuture (future_values n)"
      using True assms by (simp add: choices_from_def)
    show ?thesis
    proof (cases "choices_from n = []")
      case empty: True
      then have "read_from_status ?n1 = READ_FROM_NONE"
        using increment_read_from_none increment_read_from_last [OF ok] by blast
      then show ?thesis using True assms empty all
        by (simp add: k get_read_from_status_def Let_def)
    next
      case ne: False
      note nxt = increment_read_from_next [OF ok ne]
      have past1: "read_from_status ?n1 \<noteq> READ_FROM_PAST"
        using nxt True by (auto simp: increment_read_from_eq increment_read_from_past_def
            increment_read_from_promise_def increment_future_value_def clear_promise_resolutions_def Let_def)
      have "length (choices_from ?n1) < k"
        using nxt all assms(5) True by (simp add: read_from_size_def)
      then have t: "read_trace k ?n1 = choices_from n"
        using read_trace_from [of ?n1 "hd (choices_from n)" k] nxt past1 ne by simp
      have "get_read_from_status n = get_read_from_status ?n1"
        using assms(1) True past1 by (simp add: get_read_from_status_def Let_def)
      then have "read_trace k n = read_trace k ?n1" by (simp add: k del: current_choice.simps)
      then show ?thesis using t all True by simp
    qed
  qed
qed

lemma read_from_iteration_witness:
  "read_trace 3 (add_read_from_promise 7 (add_read_from_past 5 sample_node)) = [RfPast 5, RfPromise 7]"
  using read_from_iteration [of "add_read_from_promise 7 (add_read_from_past 5 sample_node)" 3]
  by (simp add: sample_node_eq add_read_from_past_def add_read_from_promise_def read_from_size_def)

lemma add_future_value_pending_witness:
  "\<exists>i. same_future (future_values (snd (add_future_value sample_params
     \<lparr>fv_value = 5, fv_expiration = 9, fv_tid = 2\<rparr> sample_node)) ! i) \<lparr>fv_value = 5, fv_expiration = 9, fv_tid = 2\<rparr>"
proof -
  obtain n' where n': "add_future_value sample_params \<lparr>fv_value = 5, fv_expiration = 9, fv_tid = 2\<rparr>
      sample_node = (True, n')"
    by (simp add: add_future_value_def sample_node_eq sample_params_def)
  from add_future_value_pending [OF _ _ n'] show ?thesis
    by (auto simp: n') (auto simp: sample_node_eq)
qed

end
