(* ===== verification/NodeStack.thy ===== *)
theory NodeStack
  imports NodeChoices
begin

text \<open>
  \<open>nodestack.cc\<close>, class \<open>NodeStack\<close>: the stack of choice points that records an execution
  and replays it, and the sliding window behind the fairness data of its nodes. The parent of
  a node is the node below it, so positions replace the parent pointers.
\<close>

section \<open>Operations\<close>

record node_stack =
  node_list :: "node list"
  head_idx :: int
  total_nodes :: int

definition NodeStack_new :: node_stack where
  "NodeStack_new = \<lparr>node_list = [], head_idx = -1, total_nodes = 0 + 1\<rparr>"

definition get_head :: "node_stack \<Rightarrow> node option" where
  "get_head s = (if node_list s = [] \<or> head_idx s < 0 then None
     else Some (node_list s ! nat (head_idx s)))"

definition get_next :: "node_stack \<Rightarrow> node option" where
  "get_next s = (if node_list s = [] then None
     else let it = nat (head_idx s + 1)
          in if it = length (node_list s) then None else Some (node_list s ! it))"

definition reset_execution :: "node_stack \<Rightarrow> node_stack" where
  "reset_execution s = s\<lparr>head_idx := -1\<rparr>"

definition full_reset :: "node_stack \<Rightarrow> node_stack" where
  "full_reset s = (reset_execution (s\<lparr>node_list := []\<rparr>))\<lparr>total_nodes := 1\<rparr>"

text \<open>The node that leaves the fairness window, with its parent.\<close>

definition prev_fairness :: "model_params \<Rightarrow> node_stack \<Rightarrow> (node \<times> node) option" where
  "prev_fairness params s =
     (if fairwindow params \<noteq> 0 \<and> head_idx s > int (fairwindow params)
      then let i = nat (head_idx s - int (fairwindow params))
           in Some (node_list s ! i, node_list s ! (i - 1))
      else None)"

definition record_node ::
  "model_params \<Rightarrow> nat \<Rightarrow> aid \<Rightarrow> thread_id_t \<Rightarrow> action_type \<Rightarrow> node option \<Rightarrow> node_stack \<Rightarrow> node_stack option" where
  "record_node params exec_threads act act_tid ty head s = do {
     n \<leftarrow> Node_new params act act_tid head
           (if ty = THREAD_CREATE then exec_threads + 1 else exec_threads)
           (if head = None then None else prev_fairness params s);
     Some (s\<lparr>node_list := node_list s @ [n], total_nodes := total_nodes s + 1,
             head_idx := head_idx s + 1\<rparr>) }"

definition explore_action ::
  "model_params \<Rightarrow> nat \<Rightarrow> aid \<Rightarrow> thread_id_t \<Rightarrow> action_type \<Rightarrow> enabled_type list option \<Rightarrow>
   node_stack \<Rightarrow> (aid option \<times> node_stack) option" where
  "explore_action params exec_threads act act_tid ty is_enabled s =
     (if head_idx s + 1 < int (length (node_list s))
      then let s1 = s\<lparr>head_idx := head_idx s + 1\<rparr>
           in Some (Some (nd_action (node_list s1 ! nat (head_idx s1))), s1)
      else case get_head s of
             None \<Rightarrow> map_option (Pair None) (record_node params exec_threads act act_tid ty None s)
           | Some head \<Rightarrow> do {
               head' \<leftarrow> explore_child act_tid is_enabled head;
               let s1 = s\<lparr>node_list := (node_list s)[nat (head_idx s) := head']\<rparr>;
               map_option (Pair None) (record_node params exec_threads act act_tid ty (Some head') s1) })"

text \<open>
  \<open>pop_restofstack\<close>: the vector is cut (or, past its end, padded with null pointers, which
  \<open>clear_backtracking\<close> would follow; so would it the back of an empty vector).
\<close>

definition pop_restofstack :: "int \<Rightarrow> node_stack \<Rightarrow> node_stack option" where
  "pop_restofstack numAhead s =
     (let it = head_idx s + numAhead
      in if 0 < it \<and> it \<le> int (length (node_list s))
         then let l = take (nat it) (node_list s)
              in Some (s\<lparr>node_list := l[nat it - 1 := clear_backtracking (l ! (nat it - 1))]\<rparr>)
         else None)"

section \<open>Replay\<close>

definition stack_ok :: "node_stack \<Rightarrow> bool" where
  "stack_ok s \<longleftrightarrow> -1 \<le> head_idx s \<and> head_idx s < int (length (node_list s)) \<and>
     (\<forall>n \<in> set (node_list s). bt_ok n)"

fun replay :: "nat \<Rightarrow> model_params \<Rightarrow> node_stack \<Rightarrow> aid option list \<Rightarrow> (aid option list \<times> node_stack) option" where
  "replay 0 params s acc = Some (rev acc, s)"
| "replay (Suc k) params s acc = do {
     (r, s1) \<leftarrow> explore_action params 0 0 0 THREAD_START None s;
     replay k params s1 (r # acc) }"

lemma explore_action_replay:
  assumes "head_idx s + 1 < int (length (node_list s))" and "-1 \<le> head_idx s"
  shows "explore_action params e act t ty en s =
    Some (Some (nd_action (node_list s ! nat (head_idx s + 1))), s\<lparr>head_idx := head_idx s + 1\<rparr>)"
  using assms by (simp add: explore_action_def Let_def)

lemma replay_from:
  assumes "head_idx s = int j - 1" and "j + k \<le> length (node_list s)"
  shows "replay k params s acc =
    Some (rev acc @ map (\<lambda>n. Some (nd_action n)) (take k (drop j (node_list s))),
          s\<lparr>head_idx := int (j + k) - 1\<rparr>)"
  using assms
proof (induction k arbitrary: s j acc)
  case 0
  then show ?case by simp
next
  case (Suc k)
  have step: "explore_action params 0 0 0 THREAD_START None s =
      Some (Some (nd_action (node_list s ! j)), s\<lparr>head_idx := int j\<rparr>)"
    using Suc.prems by (subst explore_action_replay) simp_all
  have "take (Suc k) (drop j (node_list s)) = node_list s ! j # take k (drop (Suc j) (node_list s))"
    using Suc.prems(2) by (simp add: drop_step)
  with step Suc.IH [of "s\<lparr>head_idx := int j\<rparr>" "Suc j"] Suc.prems show ?case
    by (simp add: algebra_simps)
qed

section \<open>The fairness window\<close>

text \<open>
  The positions whose steps count for the node at position \<open>k\<close>: the last \<open>fairwindow + 1\<close>
  positions, and position \<open>0\<close>, which no later node ever takes out of the count.
\<close>

definition turns_window :: "nat \<Rightarrow> nat \<Rightarrow> nat set" where
  "turns_window W k = {j. j \<le> k \<and> (j = 0 \<or> k \<le> j + W)}"

definition enabled_window :: "nat \<Rightarrow> nat \<Rightarrow> nat set" where
  "enabled_window W k = {j. 0 < j \<and> j \<le> k \<and> k \<le> j + W}"

definition turns_in :: "node list \<Rightarrow> nat set \<Rightarrow> thread_id_t \<Rightarrow> nat" where
  "turns_in ns J i = card {j \<in> J. nd_tid (ns ! j) = i}"

definition enabled_in :: "node list \<Rightarrow> nat set \<Rightarrow> thread_id_t \<Rightarrow> nat" where
  "enabled_in ns J i = card {j \<in> J. node_is_enabled (ns ! (j - 1)) i = Some True}"

definition nodes_wf :: "node list \<Rightarrow> bool" where
  "nodes_wf ns \<longleftrightarrow> (\<forall>k < length ns. nd_tid (ns ! k) < num_threads (ns ! k) \<and>
       length (fairness (ns ! k)) = num_threads (ns ! k) \<and>
       (\<forall>j \<le> k. num_threads (ns ! j) \<le> num_threads (ns ! k)))"

definition fair_ok :: "nat \<Rightarrow> node list \<Rightarrow> bool" where
  "fair_ok W ns \<longleftrightarrow> (\<forall>k < length ns. \<forall>i < num_threads (ns ! k).
     turns (fairness (ns ! k) ! i) = of_nat (turns_in ns (turns_window W k) i) \<and>
     enabled_count (fairness (ns ! k) ! i) = of_nat (enabled_in ns (enabled_window W k) i))"

lemma finite_windows [simp]: "finite (turns_window W k)" "finite (enabled_window W k)"
  by (auto simp: turns_window_def enabled_window_def intro: finite_subset [of _ "{..k}"])

lemma turns_window_Suc:
  "turns_window W (Suc k) = insert (Suc k) (turns_window W k - (if W < k then {k - W} else {}))"
  by (auto simp: turns_window_def)

lemma enabled_window_Suc:
  "enabled_window W (Suc k) = insert (Suc k) (enabled_window W k - (if W < k then {k - W} else {}))"
  by (auto simp: enabled_window_def)

lemma window_mem: "W < k \<Longrightarrow> k - W \<in> turns_window W k \<and> k - W \<in> enabled_window W k"
  by (auto simp: turns_window_def enabled_window_def)

text \<open>Counting over a window that gains one position and may lose one, in machine arithmetic.\<close>

lemma card_filter_insert:
  assumes "finite K" and "a \<notin> K"
  shows "card {j \<in> insert a K. P j} = card {j \<in> K. P j} + (if P a then 1 else 0)"
proof -
  have "{j \<in> insert a K. P j} = (if P a then insert a {j \<in> K. P j} else {j \<in> K. P j})" by auto
  then show ?thesis using assms by simp
qed

lemma card_filter_remove:
  assumes "finite J" and "d \<in> J"
  shows "card {j \<in> J - {d}. P j} + (if P d then 1 else 0) = card {j \<in> J. P j}"
  using card_filter_insert [of "J - {d}" d P] assms by (simp add: insert_absorb)

lemma count_step:
  fixes P :: "nat \<Rightarrow> bool"
  assumes "finite J" and "a \<notin> J" and "c \<Longrightarrow> d \<in> J"
  shows "(of_nat (card {j \<in> insert a (J - (if c then {d} else {})). P j}) :: 32 word) =
    of_nat (card {j \<in> J. P j}) + (if P a then 1 else 0) - (if c \<and> P d then 1 else 0)"
proof -
  let ?K = "J - (if c then {d} else {})"
  have "card {j \<in> ?K. P j} + (if c \<and> P d then 1 else 0) = card {j \<in> J. P j}"
    using card_filter_remove [OF assms(1), of d P] assms(3) by (cases c) auto
  then have "(of_nat (card {j \<in> J. P j}) :: 32 word) =
      of_nat (card {j \<in> ?K. P j} + (if c \<and> P d then 1 else 0))"
    by (simp only:)
  then have "(of_nat (card {j \<in> J. P j}) :: 32 word) =
      of_nat (card {j \<in> ?K. P j}) + (if c \<and> P d then 1 else 0)"
    by simp
  moreover have "card {j \<in> insert a ?K. P j} = card {j \<in> ?K. P j} + (if P a then 1 else 0)"
    using assms by (intro card_filter_insert) auto
  ultimately show ?thesis by simp
qed

text \<open>\<open>step_gain\<close> and \<open>step_loss\<close>: what the new node adds and what leaves the window.\<close>

definition enabled_bit :: "node \<Rightarrow> nat \<Rightarrow> 32 word" where
  "enabled_bit p i = (if node_is_enabled p i = Some True then 1 else 0)"

lemma fairness_step_fields:
  assumes "fairness_step params c parent prev i = Some fi"
  shows "turns fi = turns (fairness_inherit parent i) + (if i = c then 1 else 0)
      - (case prev of None \<Rightarrow> 0 | Some (p, pp) \<Rightarrow> if i = nd_tid p then 1 else 0) \<and>
    enabled_count fi = enabled_count (fairness_inherit parent i)
      + (case parent of None \<Rightarrow> 0 | Some p \<Rightarrow> enabled_bit p i)
      - (case prev of None \<Rightarrow> 0 | Some (p, pp) \<Rightarrow> enabled_bit pp i) \<and>
    (priority fi \<longrightarrow> priority (fairness_inherit parent i) \<or> turns fi = 0)"
proof -
  obtain en where en: "(case parent of None \<Rightarrow> Some False | Some p \<Rightarrow> node_is_enabled p i) = Some en"
    using assms by (auto simp: fairness_step_def bind_eq_Some_conv Let_def)
  have gain: "(case parent of None \<Rightarrow> 0 | Some p \<Rightarrow> enabled_bit p i) = (if en then 1 else 0)"
    using en by (cases parent) (auto simp: enabled_bit_def)
  show ?thesis
  proof (cases prev)
    case None
    then show ?thesis using assms en unfolding gain
      by (cases en; cases "i = c") (auto simp: fairness_step_def Let_def)
  next
    case (Some pr)
    obtain p pp where pr: "pr = (p, pp)" by (cases pr)
    obtain en' where en': "node_is_enabled pp i = Some en'"
      using assms en Some pr by (auto simp: fairness_step_def bind_eq_Some_conv Let_def)
    then have loss: "enabled_bit pp i = (if en' then 1 else 0)" by (simp add: enabled_bit_def)
    define fi0 where "fi0 = fairness_inherit parent i"
    define fi1 where "fi1 = (if en then fi0\<lparr>enabled_count := enabled_count fi0 + 1\<rparr> else fi0)"
    define fi2 where "fi2 = (if i = c then fi1\<lparr>turns := turns fi1 + 1, priority := False\<rparr> else fi1)"
    define fi3 where "fi3 = (if en' then fi2\<lparr>enabled_count := enabled_count fi2 - 1\<rparr> else fi2)"
    define fi4 where "fi4 = (if i = nd_tid p then fi3\<lparr>turns := turns fi3 - 1\<rparr> else fi3)"
    have fi: "fi = (if enabled_count fi4 \<ge> enabledcount params \<and> turns fi4 = 0
        then fi4\<lparr>priority := True\<rparr> else fi4)"
      using assms
      unfolding fairness_step_def Let_def en Some pr prod.case option.case bind.simps en'
        fi0_def [symmetric] fi1_def [symmetric] fi2_def [symmetric] fi3_def [symmetric]
        fi4_def [symmetric]
      by simp
    have t4: "turns fi4 = turns fi0 + (if i = c then 1 else 0) - (if i = nd_tid p then 1 else 0)"
      by (simp add: fi1_def fi2_def fi3_def fi4_def)
    have e4: "enabled_count fi4 = enabled_count fi0 + (if en then 1 else 0) - (if en' then 1 else 0)"
      by (simp add: fi1_def fi2_def fi3_def fi4_def)
    have p4: "priority fi4 \<longrightarrow> priority fi0"
      by (simp add: fi1_def fi2_def fi3_def fi4_def)
    have "turns fi = turns fi4" "enabled_count fi = enabled_count fi4"
      "priority fi \<longrightarrow> priority fi0 \<or> turns fi4 = 0"
      using p4 unfolding fi by simp_all
    then show ?thesis unfolding gain Some pr t4 e4 fi0_def by (simp add: loss)
  qed
qed

lemma option_all_nth:
  "option_all xs = Some ys \<Longrightarrow> length ys = length xs \<and> (\<forall>i < length xs. xs ! i = Some (ys ! i))"
  by (induction xs arbitrary: ys) (auto simp: bind_eq_Some_conv nth_Cons split: nat.splits)

lemma Node_new_fields:
  assumes "Node_new params act t parent nthreads prev = Some n"
  shows "nd_tid n = t \<and> num_threads n = nthreads \<and> length (fairness n) = nthreads \<and>
    (fairwindow params \<noteq> 0 \<longrightarrow> (\<forall>i < nthreads. fairness_step params t parent prev i = Some (fairness n ! i))) \<and>
    bt_ok n"
proof -
  have "count_true (replicate k False) = 0" for k by simp
  then show ?thesis using assms
    by (auto simp: Node_new_def bind_eq_Some_conv bt_ok_def split: if_splits dest!: option_all_nth)
qed

lemma inherit_counts:
  assumes wf: "nodes_wf ns" and fair: "fair_ok W ns" and k: "k < length ns"
  shows "turns (fairness_inherit (Some (ns ! k)) i) = of_nat (turns_in ns (turns_window W k) i) \<and>
    enabled_count (fairness_inherit (Some (ns ! k)) i) = of_nat (enabled_in ns (enabled_window W k) i)"
proof (cases "i < num_threads (ns ! k)")
  case True
  then show ?thesis using fair k by (simp add: fair_ok_def fairness_inherit_def)
next
  case False
  have tid: "nd_tid (ns ! j) \<noteq> i" if "j \<le> k" for j
  proof -
    have "nd_tid (ns ! j) < num_threads (ns ! j)" "num_threads (ns ! j) \<le> num_threads (ns ! k)"
      using wf k that unfolding nodes_wf_def by auto
    then show ?thesis using False by simp
  qed
  have en: "node_is_enabled (ns ! (j - 1)) i \<noteq> Some True" if "j \<le> k" for j
  proof -
    have "num_threads (ns ! (j - 1)) \<le> num_threads (ns ! k)"
      using wf k that unfolding nodes_wf_def by simp
    then show ?thesis using False by (simp add: node_is_enabled_def)
  qed
  have "{j \<in> turns_window W k. nd_tid (ns ! j) = i} = {}"
    using tid by (auto simp: turns_window_def)
  moreover have "{j \<in> enabled_window W k. node_is_enabled (ns ! (j - 1)) i = Some True} = {}"
    using en by (auto simp: enabled_window_def)
  ultimately have "turns_in ns (turns_window W k) i = 0" "enabled_in ns (enabled_window W k) i = 0"
    by (simp_all only: turns_in_def enabled_in_def card.empty)
  then show ?thesis using False by (simp add: fairness_inherit_def)
qed

lemma turns_in_append: "J \<subseteq> {..< length ns} \<Longrightarrow> turns_in (ns @ [n]) J i = turns_in ns J i"
  unfolding turns_in_def by (rule arg_cong [of _ _ card]) (auto simp: nth_append)

lemma enabled_in_append:
  assumes "J \<subseteq> {0 <.. length ns}"
  shows "enabled_in (ns @ [n]) J i = enabled_in ns J i"
proof -
  have "(ns @ [n]) ! (j - 1) = ns ! (j - 1)" if "j \<in> J" for j
  proof -
    have "j - 1 < length ns" using assms that by (cases j) auto
    then show ?thesis by (simp add: nth_append)
  qed
  then have "{j \<in> J. node_is_enabled ((ns @ [n]) ! (j - 1)) i = Some True}
      = {j \<in> J. node_is_enabled (ns ! (j - 1)) i = Some True}" by auto
  then show ?thesis by (simp only: enabled_in_def)
qed

text \<open>Recording a node extends the invariant to it.\<close>

definition prev_at :: "nat \<Rightarrow> node list \<Rightarrow> (node \<times> node) option" where
  "prev_at W ns = (let k = length ns - 1
     in if W < k then Some (ns ! (k - W), ns ! (k - W - 1)) else None)"

lemma fair_ok_first:
  assumes "Node_new params act t None m None = Some n" and "fairwindow params = W" and "W \<noteq> 0"
  shows "fair_ok W [n]"
proof -
  note f = Node_new_fields [OF assms(1)]
  have w: "turns_window W 0 = {0}" "enabled_window W 0 = {}"
    by (auto simp: turns_window_def enabled_window_def)
  have "turns (fairness n ! i) = of_nat (turns_in [n] {0} i) \<and> enabled_count (fairness n ! i) = 0"
    if "i < num_threads n" for i
  proof -
    have "fairness_step params t None None i = Some (fairness n ! i)" using f assms(2,3) that by simp
    note s = fairness_step_fields [OF this]
    have "{j \<in> {0::nat}. nd_tid ([n] ! j) = i} = (if i = t then {0} else {})"
      using f by auto
    then have "turns_in [n] {0} i = (if i = t then 1 else 0)"
      unfolding turns_in_def by simp
    then show ?thesis using s by (simp add: fairness_inherit_def)
  qed
  then show ?thesis by (auto simp: fair_ok_def w enabled_in_def)
qed

lemma fair_ok_snoc:
  assumes wf: "nodes_wf ns" and fair: "fair_ok W ns" and ne: "ns \<noteq> []"
    and new: "Node_new params act t (Some (last ns)) m (prev_at W ns) = Some n"
    and W: "fairwindow params = W" "W \<noteq> 0"
  shows "fair_ok W (ns @ [n])"
proof -
  define k where "k = length ns - 1"
  have k: "k < length ns" "length ns = Suc k" "last ns = ns ! k"
    using ne by (auto simp: k_def last_conv_nth)
  note f = Node_new_fields [OF new]
  have sub: "turns_window W l \<subseteq> {..< length ns}" "enabled_window W l \<subseteq> {0 <.. length ns}"
    "enabled_window W (Suc l) \<subseteq> {0 <.. length ns}" if "l \<le> k" for l
    using that k(2) by (auto simp: turns_window_def enabled_window_def)
  have old: "turns_in (ns @ [n]) (turns_window W l) i = turns_in ns (turns_window W l) i \<and>
      enabled_in (ns @ [n]) (enabled_window W l) i = enabled_in ns (enabled_window W l) i"
    if "l \<le> k" for l i
    using turns_in_append [OF sub(1) [OF that]] enabled_in_append [OF sub(2) [OF that]] by simp
  have goal: "turns (fairness n ! i) = of_nat (turns_in (ns @ [n]) (turns_window W (Suc k)) i) \<and>
      enabled_count (fairness n ! i) = of_nat (enabled_in (ns @ [n]) (enabled_window W (Suc k)) i)"
    if i: "i < m" for i
  proof -
    have step: "fairness_step params t (Some (ns ! k)) (prev_at W ns) i = Some (fairness n ! i)"
      using f W i k(3) by simp
    note s = fairness_step_fields [OF step]
    note inh = inherit_counts [OF wf fair k(1), of i]
    have prev: "prev_at W ns = (if W < k then Some (ns ! (k - W), ns ! (k - W - 1)) else None)"
      by (simp add: prev_at_def Let_def k_def)
    have T: "of_nat (turns_in (ns @ [n]) (turns_window W (Suc k)) i) =
        (of_nat (turns_in ns (turns_window W k) i) :: 32 word) + (if i = t then 1 else 0)
          - (if W < k \<and> nd_tid (ns ! (k - W)) = i then 1 else 0)"
    proof -
      have "Suc k \<notin> turns_window W k" by (simp add: turns_window_def)
      from count_step [OF finite_windows(1) this, of "W < k" "k - W" "\<lambda>j. nd_tid ((ns @ [n]) ! j) = i"]
      show ?thesis
        using old [of k i] f k window_mem [of W k] unfolding turns_in_def turns_window_Suc
        by (auto simp: nth_append)
    qed
    have E: "of_nat (enabled_in (ns @ [n]) (enabled_window W (Suc k)) i) =
        (of_nat (enabled_in ns (enabled_window W k) i) :: 32 word) + enabled_bit (ns ! k) i
          - (if W < k then enabled_bit (ns ! (k - W - 1)) i else 0)"
    proof -
      have "Suc k \<notin> enabled_window W k" by (simp add: enabled_window_def)
      from count_step [OF finite_windows(2) this, of "W < k" "k - W"
          "\<lambda>j. node_is_enabled ((ns @ [n]) ! (j - 1)) i = Some True"]
      show ?thesis
        using old [of k i] k window_mem [of W k] unfolding enabled_in_def enabled_window_Suc
        by (auto simp: nth_append enabled_bit_def)
    qed
    show ?thesis
    proof (cases "W < k")
      case True
      then show ?thesis using s inh unfolding T E prev by auto
    next
      case False
      then show ?thesis using s inh unfolding T E prev by auto
    qed
  qed
  show ?thesis
    unfolding fair_ok_def
  proof (intro allI impI)
    fix l i
    assume l: "l < length (ns @ [n])" and i: "i < num_threads ((ns @ [n]) ! l)"
    show "turns (fairness ((ns @ [n]) ! l) ! i) = of_nat (turns_in (ns @ [n]) (turns_window W l) i) \<and>
      enabled_count (fairness ((ns @ [n]) ! l) ! i) = of_nat (enabled_in (ns @ [n]) (enabled_window W l) i)"
    proof (cases "l < length ns")
      case True
      then have "l \<le> k" using k(2) by simp
      then show ?thesis using True fair i old [of l i] by (simp add: nth_append fair_ok_def)
    next
      case False
      then have "l = Suc k" using l k(2) by simp
      then show ?thesis using goal [of i] i f k(2) by (simp add: nth_append)
    qed
  qed
qed

section \<open>Reachable stacks\<close>

text \<open>Changes of a node that leave the data of the window alone.\<close>

definition same_window_data :: "node \<Rightarrow> node \<Rightarrow> bool" where
  "same_window_data n n' \<longleftrightarrow> nd_tid n' = nd_tid n \<and> num_threads n' = num_threads n \<and>
     fairness n' = fairness n"

inductive reachable_stack :: "model_params \<Rightarrow> node_stack \<Rightarrow> bool" for params where
  new: "reachable_stack params NodeStack_new"
| explore: "reachable_stack params s \<Longrightarrow> t < e \<Longrightarrow> (\<forall>n \<in> set (node_list s). num_threads n \<le> e) \<Longrightarrow>
    explore_action params e act t ty en s = Some (r, s') \<Longrightarrow> reachable_stack params s'"
| pop: "reachable_stack params s \<Longrightarrow> 1 \<le> k \<Longrightarrow> pop_restofstack k s = Some s' \<Longrightarrow> reachable_stack params s'"
| reset: "reachable_stack params s \<Longrightarrow> reachable_stack params (reset_execution s)"
| full_reset: "reachable_stack params s \<Longrightarrow> reachable_stack params (full_reset s)"
| touch: "reachable_stack params s \<Longrightarrow> i < length (node_list s) \<Longrightarrow>
    same_window_data (node_list s ! i) n \<Longrightarrow> enabled_array n = enabled_array (node_list s ! i) \<Longrightarrow>
    reachable_stack params (s\<lparr>node_list := (node_list s)[i := n]\<rparr>)"

definition never_first :: "node list \<Rightarrow> bool" where
  "never_first ns \<longleftrightarrow>
     (\<forall>k < length ns. k + 1 < 2 ^ 32 \<longrightarrow> \<not> priority (fairness (ns ! k) ! nd_tid (ns ! 0)))"

definition window_ok :: "nat \<Rightarrow> node list \<Rightarrow> bool" where
  "window_ok W ns \<longleftrightarrow> nodes_wf ns \<and> fair_ok W ns \<and> never_first ns"

lemma node_is_enabled_update:
  assumes "same_window_data (ns ! i) n" and "enabled_array n = enabled_array (ns ! i)" and "j < length ns"
  shows "node_is_enabled (ns[i := n] ! j) = node_is_enabled (ns ! j)"
  using assms by (cases "i = j") (auto simp: node_is_enabled_def same_window_data_def fun_eq_iff)

lemma update_fields:
  assumes "same_window_data (ns ! i) n" and "j < length ns"
  shows "nd_tid (ns[i := n] ! j) = nd_tid (ns ! j)" "num_threads (ns[i := n] ! j) = num_threads (ns ! j)"
    "fairness (ns[i := n] ! j) = fairness (ns ! j)"
  using assms by (cases "i = j"; auto simp: same_window_data_def)+

text \<open>The window of a node does not look at the enabled threads of the topmost node.\<close>

lemma window_ok_update:
  assumes "window_ok W ns" and "same_window_data (ns ! i) n"
    and "enabled_array n = enabled_array (ns ! i) \<or> i = length ns - 1"
  shows "window_ok W (ns[i := n])"
proof -
  have en: "enabled_in (ns[i := n]) (enabled_window W k) t = enabled_in ns (enabled_window W k) t"
    if "k < length ns" for k t
  proof -
    have "node_is_enabled (ns[i := n] ! (j - 1)) = node_is_enabled (ns ! (j - 1))"
      if "j \<in> enabled_window W k" for j
      using assms(3)
    proof
      assume "i = length ns - 1"
      then have "j - 1 \<noteq> i" using that \<open>k < length ns\<close> by (auto simp: enabled_window_def)
      then show ?thesis by simp
    next
      assume "enabled_array n = enabled_array (ns ! i)"
      moreover have "j - 1 < length ns" using that \<open>k < length ns\<close> by (auto simp: enabled_window_def)
      ultimately show ?thesis using node_is_enabled_update [OF assms(2)] by simp
    qed
    then show ?thesis unfolding enabled_in_def by (intro arg_cong [of _ _ card]) auto
  qed
  have tu: "turns_in (ns[i := n]) (turns_window W k) t = turns_in ns (turns_window W k) t"
    if "k < length ns" for k t
  proof -
    have "nd_tid (ns[i := n] ! j) = nd_tid (ns ! j)" if "j \<in> turns_window W k" for j
      using that \<open>k < length ns\<close> by (intro update_fields(1) [OF assms(2)]) (auto simp: turns_window_def)
    then show ?thesis unfolding turns_in_def by (intro arg_cong [of _ _ card]) auto
  qed
  note u = update_fields [OF assms(2)]
  have w: "nodes_wf ns" "fair_ok W ns" "never_first ns" using assms(1) by (simp_all add: window_ok_def)
  have "nodes_wf (ns[i := n])"
    unfolding nodes_wf_def length_list_update
  proof (intro allI impI)
    fix k assume k: "k < length ns"
    then have "j < length ns" if "j \<le> k" for j using that by simp
    then show "nd_tid (ns[i := n] ! k) < num_threads (ns[i := n] ! k) \<and>
        length (fairness (ns[i := n] ! k)) = num_threads (ns[i := n] ! k) \<and>
        (\<forall>j \<le> k. num_threads (ns[i := n] ! j) \<le> num_threads (ns[i := n] ! k))"
      using w(1) k u unfolding nodes_wf_def by simp
  qed
  moreover have "fair_ok W (ns[i := n])"
    unfolding fair_ok_def length_list_update
  proof (intro allI impI)
    fix k t assume k: "k < length ns" and t: "t < num_threads (ns[i := n] ! k)"
    show "turns (fairness (ns[i := n] ! k) ! t) = of_nat (turns_in (ns[i := n]) (turns_window W k) t) \<and>
        enabled_count (fairness (ns[i := n] ! k) ! t) =
          of_nat (enabled_in (ns[i := n]) (enabled_window W k) t)"
      using w(2) k t u(2,3) [OF k] en [OF k] tu [OF k] unfolding fair_ok_def by simp
  qed
  moreover have "never_first (ns[i := n])"
    unfolding never_first_def length_list_update
  proof (intro allI impI)
    fix k assume k: "k < length ns" and "k + 1 < (2 :: nat) ^ 32"
    then have "\<not> priority (fairness (ns ! k) ! nd_tid (ns ! 0))"
      using w(3) unfolding never_first_def by blast
    moreover have "0 < length ns" using k by auto
    ultimately show "\<not> priority (fairness (ns[i := n] ! k) ! nd_tid (ns[i := n] ! 0))"
      using u(3) [OF k] u(1) [of 0] by simp
  qed
  ultimately show ?thesis by (simp add: window_ok_def)
qed

lemma window_ok_take:
  assumes "window_ok W ns"
  shows "window_ok W (take m ns)"
proof -
  have "turns_in (take m ns) (turns_window W k) t = turns_in ns (turns_window W k) t"
    "enabled_in (take m ns) (enabled_window W k) t = enabled_in ns (enabled_window W k) t"
    if "k < length ns" "k < m" for k t
    using that unfolding turns_in_def enabled_in_def
    by (auto intro!: arg_cong [of _ _ card] simp: turns_window_def enabled_window_def)
  then show ?thesis
    using assms unfolding window_ok_def nodes_wf_def fair_ok_def never_first_def by auto
qed

lemma explore_child_window: "explore_child t en n = Some n' \<Longrightarrow> same_window_data n n'"
  by (auto simp: explore_child_def explore_def same_window_data_def Let_def split: if_splits option.splits)

text \<open>Recording a node keeps the window, and never gives priority to the first thread.\<close>

lemma nodes_wf_snoc:
  assumes wf: "nodes_wf ns" and new: "nd_tid n < num_threads n" "length (fairness n) = num_threads n"
    and le: "\<forall>x \<in> set ns. num_threads x \<le> num_threads n"
  shows "nodes_wf (ns @ [n])"
  using assms unfolding nodes_wf_def by (auto simp: nth_append less_Suc_eq)

lemma turns_first:
  assumes "Suc k < 2 ^ 32"
  shows "(of_nat (turns_in ns (turns_window W k) (nd_tid (ns ! 0))) :: 32 word) \<noteq> 0"
proof -
  let ?S = "{j \<in> turns_window W k. nd_tid (ns ! j) = nd_tid (ns ! 0)}"
  have "?S \<subseteq> {..k}" by (auto simp: turns_window_def)
  then have "card ?S \<le> Suc k" using card_mono [of "{..k}" ?S] by simp
  moreover have "0 \<in> ?S" by (simp add: turns_window_def)
  moreover have "finite ?S" by simp
  ultimately have "card ?S > 0" "card ?S \<le> Suc k" using card_gt_0_iff [of ?S] by blast+
  then show ?thesis using assms unfolding turns_in_def
    by (simp add: word_of_nat_eq_0_iff nat_dvd_not_less)
qed

lemma window_ok_record:
  assumes win: "window_ok W ns" and W: "fairwindow params = W" "W \<noteq> 0" and tm: "t < m"
    and le: "\<forall>x \<in> set ns. num_threads x \<le> m"
    and new: "Node_new params act t (if ns = [] then None else Some (last ns)) m
        (if ns = [] then None else prev_at W ns) = Some n"
  shows "window_ok W (ns @ [n])"
proof -
  note f = Node_new_fields [OF new]
  have fair: "fair_ok W (ns @ [n])"
  proof (cases "ns = []")
    case True
    then show ?thesis using fair_ok_first [OF _ W] new by simp
  next
    case False
    then show ?thesis using fair_ok_snoc [OF _ _ False _ W] win new by (simp add: window_ok_def)
  qed
  moreover have wf: "nodes_wf (ns @ [n])"
    using win f tm le by (intro nodes_wf_snoc) (auto simp: window_ok_def)
  moreover have "never_first (ns @ [n])"
    unfolding never_first_def
  proof (intro allI impI)
    fix k
    assume k: "k < length (ns @ [n])" and small: "k + 1 < 2 ^ 32"
    let ?t0 = "nd_tid ((ns @ [n]) ! 0)"
    show "\<not> priority (fairness ((ns @ [n]) ! k) ! ?t0)"
    proof (cases "k < length ns")
      case True
      then have ne: "ns \<noteq> []" by auto
      then have "?t0 = nd_tid (ns ! 0)" by (simp add: nth_append)
      then show ?thesis using win True small by (simp add: window_ok_def never_first_def nth_append)
    next
      case False
      then have kl: "k = length ns" using k by simp
      have t0: "?t0 < num_threads n"
        using wf kl unfolding nodes_wf_def
        by (metis (no_types, lifting) k le0 length_greater_0_conv length_append_singleton nth_append_length
            order_less_le_trans zero_less_Suc)
      have step: "fairness_step params t (if ns = [] then None else Some (last ns)) 
          (if ns = [] then None else prev_at W ns) ?t0 = Some (fairness n ! ?t0)"
        using f W t0 by simp
      have "turns (fairness n ! ?t0) = of_nat (turns_in (ns @ [n]) (turns_window W k) ?t0)"
        using fair kl t0 unfolding fair_ok_def
        by (metis k nth_append_length)
      then have "turns (fairness n ! ?t0) \<noteq> 0"
        using turns_first [of k "ns @ [n]" W] small by simp
      moreover have "\<not> priority (fairness_inherit (if ns = [] then None else Some (last ns)) ?t0)"
      proof (cases "ns = []")
        case True
        then show ?thesis by (simp add: fairness_inherit_def)
      next
        case ne: False
        then have "\<not> priority (fairness (ns ! (length ns - 1)) ! nd_tid (ns ! 0))"
          using win small kl by (simp add: window_ok_def never_first_def)
        then show ?thesis using ne by (simp add: fairness_inherit_def last_conv_nth nth_append)
      qed
      ultimately show ?thesis using fairness_step_fields [OF step] kl by auto
    qed
  qed
  ultimately show ?thesis by (simp add: window_ok_def)
qed

lemma prev_fairness_at:
  assumes "fairwindow params = W" "W \<noteq> 0" "head_idx s = int (length (node_list s)) - 1"
  shows "prev_fairness params s = prev_at W (node_list s)"
proof -
  have "nat (head_idx s - int W) = length (node_list s) - 1 - W" if "int W < head_idx s"
    using that assms(3) by linarith
  moreover have "int W < head_idx s \<longleftrightarrow> W < length (node_list s) - 1"
    using assms(3) by auto
  ultimately show ?thesis
    using assms(1,2) by (auto simp: prev_fairness_def prev_at_def Let_def)
qed

definition stack_range :: "node_stack \<Rightarrow> bool" where
  "stack_range s \<longleftrightarrow> -1 \<le> head_idx s \<and> head_idx s < int (length (node_list s))"

lemma record_window:
  assumes win: "window_ok W (node_list s)" and W: "fairwindow params = W" "W \<noteq> 0" and te: "t < e"
    and le: "\<forall>x \<in> set (node_list s). num_threads x \<le> e"
    and top: "head_idx s = int (length (node_list s)) - 1"
    and h: "h = (if node_list s = [] then None else Some (last (node_list s)))"
    and rec: "record_node params e act t ty h s = Some s'"
  shows "stack_range s' \<and> window_ok W (node_list s')"
proof -
  let ?m = "if ty = THREAD_CREATE then e + 1 else e"
  obtain n where n: "Node_new params act t h ?m (if h = None then None else prev_fairness params s) = Some n"
    and s': "s' = s\<lparr>node_list := node_list s @ [n], total_nodes := total_nodes s + 1, head_idx := head_idx s + 1\<rparr>"
    using rec by (auto simp: record_node_def bind_eq_Some_conv)
  have "window_ok W (node_list s @ [n])"
    using n h prev_fairness_at [OF W top] le te
    by (intro window_ok_record [OF win W, of t ?m]) (auto split: if_splits)
  then show ?thesis using top by (simp add: s' stack_range_def)
qed

lemma explore_action_window:
  assumes win: "window_ok W (node_list s)" and rng: "stack_range s"
    and W: "fairwindow params = W" "W \<noteq> 0" and te: "t < e"
    and le: "\<forall>x \<in> set (node_list s). num_threads x \<le> e"
    and run: "explore_action params e act t ty en s = Some (r, s')"
  shows "stack_range s' \<and> window_ok W (node_list s')"
proof (cases "head_idx s + 1 < int (length (node_list s))")
  case True
  then show ?thesis using run win rng
    by (auto simp: explore_action_replay stack_range_def)
next
  case False
  then have top: "head_idx s = int (length (node_list s)) - 1" using rng by (simp add: stack_range_def)
  show ?thesis
  proof (cases "node_list s = []")
    case True
    then have "get_head s = None" by (simp add: get_head_def)
    then have "record_node params e act t ty None s = Some s'"
      using run False by (auto simp: explore_action_def)
    then show ?thesis using record_window [OF win W te le top _ ] True by simp
  next
    case ne: False
    let ?i = "length (node_list s) - 1"
    have i: "nat (head_idx s) = ?i" "?i < length (node_list s)" using ne top by auto
    have head: "get_head s = Some (node_list s ! ?i)"
      using ne top i by (simp add: get_head_def)
    then obtain h' where h': "explore_child t en (node_list s ! ?i) = Some h'"
      and rec: "record_node params e act t ty (Some h') (s\<lparr>node_list := (node_list s)[?i := h']\<rparr>) = Some s'"
      using run False i by (auto simp: explore_action_def bind_eq_Some_conv Let_def)
    note same = explore_child_window [OF h']
    have "window_ok W ((node_list s)[?i := h'])" by (rule window_ok_update [OF win same]) simp
    moreover have "\<forall>x \<in> set ((node_list s)[?i := h']). num_threads x \<le> e"
      using le same i(2) by (auto dest!: set_update_subset_insert [THEN subsetD] simp: same_window_data_def)
    moreover have "last ((node_list s)[?i := h']) = h'"
      using ne by (simp add: last_list_update)
    ultimately show ?thesis
      using record_window [of W "s\<lparr>node_list := (node_list s)[?i := h']\<rparr>", OF _ W te _ _ _ rec] top ne by simp
  qed
qed

lemma clear_backtracking_window: "same_window_data n (clear_backtracking n) \<and>
    enabled_array (clear_backtracking n) = enabled_array n"
  by (simp add: same_window_data_def clear_backtracking_def)

lemma window_ok_Nil: "window_ok W []"
  by (simp add: window_ok_def nodes_wf_def fair_ok_def never_first_def)

lemma reachable_window:
  assumes "reachable_stack params s" and "fairwindow params \<noteq> 0"
  shows "stack_range s \<and> window_ok (fairwindow params) (node_list s)"
  using assms(1)
proof (induction rule: reachable_stack.induct)
  case new
  then show ?case by (simp add: NodeStack_new_def stack_range_def window_ok_Nil)
next
  case (explore s t e act ty en r s')
  then show ?case using explore_action_window [OF _ _ refl assms(2)] by blast
next
  case (pop s k s')
  let ?it = "head_idx s + k" and ?l = "take (nat (head_idx s + k)) (node_list s)"
  from pop.hyps have it: "0 < ?it" "?it \<le> int (length (node_list s))"
    and s': "s' = s\<lparr>node_list := ?l[nat ?it - 1 := clear_backtracking (?l ! (nat ?it - 1))]\<rparr>"
    by (auto simp: pop_restofstack_def Let_def split: if_splits)
  have "window_ok (fairwindow params) (?l[nat ?it - 1 := clear_backtracking (?l ! (nat ?it - 1))])"
    using pop.IH clear_backtracking_window
    by (intro window_ok_update window_ok_take) auto
  moreover have "stack_range s'" using pop.IH pop.hyps(2) it by (simp add: s' stack_range_def min_def)
  ultimately show ?case by (simp add: s')
next
  case (reset s)
  then show ?case by (auto simp: reset_execution_def stack_range_def)
next
  case (full_reset s)
  then show ?case by (simp add: full_reset_def reset_execution_def stack_range_def window_ok_Nil)
next
  case (touch s i n)
  then show ?case using window_ok_update [of _ "node_list s" i n] by (simp add: stack_range_def)
qed

section \<open>Properties\<close>

text \<open>
  Replay is deterministic: after \<open>reset_execution\<close>, exploring \<open>k\<close> actions returns the
  first \<open>k\<close> recorded actions in order, whatever is asked for, leaves every recorded node as
  it is, and moves the head to the last of them.
\<close>

lemma replay_returns_recorded:
  assumes "k \<le> length (node_list s)"
  shows "replay k params (reset_execution s) [] =
    Some (map (\<lambda>n. Some (nd_action n)) (take k (node_list s)), s\<lparr>head_idx := int k - 1\<rparr>)"
  using replay_from [of "reset_execution s" 0 k params "[]"] assms
  by (simp add: reset_execution_def)

definition sample_stack :: node_stack where
  "sample_stack = snd (the (explore_action sample_params 3 7 1 ATOMIC_WRITE None NodeStack_new))"

lemma sample_stack_eq:
  "sample_stack = \<lparr>node_list = [sample_node\<lparr>nd_action := 7\<rparr>], head_idx = 0, total_nodes = 2\<rparr>"
  by (simp add: sample_stack_def explore_action_def NodeStack_new_def get_head_def record_node_def
      Node_new_def sample_params_def sample_node_eq)

lemma replay_returns_recorded_witness:
  "replay 1 sample_params (reset_execution sample_stack) [] = Some ([Some 7], sample_stack)"
  using replay_returns_recorded [of 1 sample_stack sample_params] by (simp add: sample_stack_eq)

text \<open>
  The fairness data of a node are the counts over a sliding window: in every reachable
  stack, \<open>turns\<close> is the number of steps the thread took at the counted positions and
  \<open>enabled_count\<close> the number of these positions whose parent had the thread enabled. The
  window is the last \<open>fairwindow + 1\<close> positions, to which the turns add position 0 for ever.
\<close>

lemma fairness_window_counts:
  assumes "reachable_stack params s" and "fairwindow params \<noteq> 0"
    and "k < length (node_list s)" and "i < num_threads (node_list s ! k)"
  shows "turns (fairness (node_list s ! k) ! i) =
      of_nat (card {j \<in> turns_window (fairwindow params) k. nd_tid (node_list s ! j) = i}) \<and>
    enabled_count (fairness (node_list s ! k) ! i) =
      of_nat (card {j \<in> enabled_window (fairwindow params) k.
        node_is_enabled (node_list s ! (j - 1)) i = Some True})"
  using reachable_window [OF assms(1,2)] assms(3,4)
  unfolding window_ok_def fair_ok_def turns_in_def enabled_in_def by blast

definition window_params :: model_params where
  "window_params = sample_params\<lparr>fairwindow := 1\<rparr>"

definition window_stack :: node_stack where
  "window_stack = snd (the (explore_action window_params 3 7 1 ATOMIC_WRITE None NodeStack_new))"

lemma window_stack_reachable:
  "reachable_stack window_params window_stack" "length (node_list window_stack) = 1"
  "num_threads (node_list window_stack ! 0) = 3" "nd_tid (node_list window_stack ! 0) = 1"
proof -
  obtain s' where s': "explore_action window_params 3 7 1 ATOMIC_WRITE None NodeStack_new = Some (None, s')"
    and l: "length (node_list s') = 1" "num_threads (node_list s' ! 0) = 3" "nd_tid (node_list s' ! 0) = 1"
    by (simp add: explore_action_def NodeStack_new_def get_head_def record_node_def
      Node_new_def window_params_def sample_params_def fairness_step_def Let_def upt_rec)
  have "reachable_stack window_params s'"
    by (rule reachable_stack.explore [OF reachable_stack.new _ _ s']) (simp_all add: NodeStack_new_def)
  with s' l show "reachable_stack window_params window_stack" "length (node_list window_stack) = 1"
    "num_threads (node_list window_stack ! 0) = 3" "nd_tid (node_list window_stack ! 0) = 1"
    by (simp_all add: window_stack_def)
qed

lemma fairness_window_counts_witness:
  "turns (fairness (node_list window_stack ! 0) ! 1) = 1"
proof -
  have "{j \<in> turns_window 1 0. nd_tid (node_list window_stack ! j) = 1} = {0}"
    using window_stack_reachable(4) by (auto simp: turns_window_def)
  with fairness_window_counts [OF window_stack_reachable(1), of 0 1] window_stack_reachable(2,3)
  show ?thesis by (simp add: window_params_def)
qed

text \<open>
  The thread of the first action is never given fairness priority: its first step is never
  taken out of the window, so its \<open>turns\<close> is never zero (in stacks below the range of
  \<open>unsigned int\<close>).
\<close>

theorem first_thread_never_prioritized:
  assumes "reachable_stack params s" and "fairwindow params \<noteq> 0"
    and "k < length (node_list s)" and "k + 1 < 2 ^ 32"
  shows "\<not> has_priority (node_list s ! k) (nd_tid (node_list s ! 0))"
  using reachable_window [OF assms(1,2)] assms(3,4)
  unfolding window_ok_def never_first_def has_priority_def by blast

lemma first_thread_never_prioritized_witness:
  "\<not> has_priority (node_list window_stack ! 0) 1"
  using first_thread_never_prioritized [OF window_stack_reachable(1), of 0] window_stack_reachable(2,4)
  by (simp add: window_params_def)

end
