(* ===== verification/NodeYield.thy ===== *)
theory NodeYield
  imports NodeStack
begin

text \<open>
  The yield-based fairness data of a node: the relation "has lower priority than" that
  \<open>update_yield\<close> computes from the parent's stays free of cycles, so it can never make all
  threads wait for one another.
\<close>

section \<open>The priority bit\<close>

lemma yield_P_bit: "y AND YIELD_P \<noteq> 0 \<longleftrightarrow> bit y 3"
  using and_exp_eq_0_iff_not_bit [of y 3] by (simp add: YIELD_P_def)

lemma yield_bits [simp]:
  "bit YIELD_P 3" "\<not> bit YIELD_S 3" "\<not> bit YIELD_E 3" "\<not> bit YIELD_D 3"
  "\<not> bit YIELD_P 2" "bit YIELD_S 2"
  by (simp_all add: YIELD_P_def YIELD_S_def YIELD_E_def YIELD_D_def bit_numeral_rec bit_1_iff)

lemma yield_S_bit: "y AND YIELD_S = 0 \<longleftrightarrow> \<not> bit y 2"
  using and_exp_eq_0_iff_not_bit [of y 2] by (simp add: YIELD_S_def)

definition prio :: "node \<Rightarrow> (thread_id_t \<times> thread_id_t) set" where
  "prio n = {(u, v). has_priority_over n u v = Some True}"

lemma prio_lt: "(u, v) \<in> prio n \<Longrightarrow> u < num_threads n \<and> v < num_threads n"
  by (auto simp: prio_def has_priority_over_def get_yield_data_def yield_P_bit bit_or_iff split: if_splits)

section \<open>The nested loops\<close>

lemma yield_index_inj:
  assumes "v < n" "v' < n"
  shows "YIELD_INDEX u v n = YIELD_INDEX u' v' n \<longleftrightarrow> u = u' \<and> v = v'"
proof -
  have "(u * n + v) div n = u \<and> (u * n + v) mod n = v" if "v < n" for u v using that by simp
  with assms show ?thesis unfolding YIELD_INDEX_def by metis
qed

lemma yield_index_lt: "u < k \<Longrightarrow> v < k \<Longrightarrow> YIELD_INDEX u v k < k * k"
proof -
  assume "u < k" "v < k"
  then have "u * k + v < Suc u * k" by simp
  also have "\<dots> \<le> k * k" using \<open>u < k\<close> by (intro mult_le_mono1) simp
  finally show ?thesis by (simp add: YIELD_INDEX_def)
qed

lemma yield_row_effect:
  assumes "yield_row cell vs u n d = Some d'" and "set vs \<subseteq> {..< n}" and "distinct vs"
    and "\<And>v. v < n \<Longrightarrow> YIELD_INDEX u v n < length d"
  shows "length d' = length d \<and> (\<forall>v \<in> set vs. cell v = Some (d' ! YIELD_INDEX u v n)) \<and>
    (\<forall>i. i \<notin> (\<lambda>v. YIELD_INDEX u v n) ` set vs \<longrightarrow> d' ! i = d ! i)"
  using assms
proof (induction vs arbitrary: d)
  case (Cons v vs)
  obtain y where y: "cell v = Some y"
    and rec: "yield_row cell vs u n (d[YIELD_INDEX u v n := y]) = Some d'"
    using Cons.prems(1) by (auto simp: bind_eq_Some_conv)
  note IH = Cons.IH [OF rec] 
  have ih: "length d' = length d"
    "\<forall>v \<in> set vs. cell v = Some (d' ! YIELD_INDEX u v n)"
    "\<forall>i. i \<notin> (\<lambda>v. YIELD_INDEX u v n) ` set vs \<longrightarrow> d' ! i = d[YIELD_INDEX u v n := y] ! i"
    using IH Cons.prems by auto
  have "YIELD_INDEX u v n \<notin> (\<lambda>v. YIELD_INDEX u v n) ` set vs"
    using Cons.prems(2,3) yield_index_inj by (auto simp: subset_iff)
  then have "d' ! YIELD_INDEX u v n = y" using ih(3) Cons.prems(2,4) by simp
  then show ?case using ih y by auto
qed simp

lemma yield_rows_effect:
  assumes "yield_rows cell us c n d = Some d'" and "set us \<subseteq> {..< n}" and "distinct us"
    and "length d = n * n" and "c < n"
  shows "length d' = n * n \<and>
    (\<forall>u \<in> set us. \<forall>v < n. \<exists>y. cell u v = Some y \<and>
       d' ! YIELD_INDEX u v n = (if v = c then (y AND NOT YIELD_P) OR YIELD_S else y)) \<and>
    (\<forall>u v. u \<notin> set us \<longrightarrow> v < n \<longrightarrow> d' ! YIELD_INDEX u v n = d ! YIELD_INDEX u v n)"
  using assms
proof (induction us arbitrary: d)
  case (Cons u us)
  obtain d1 where row: "yield_row (cell u) [0 ..< n] u n d = Some d1"
    and rec: "yield_rows cell us c n (d1[YIELD_INDEX u c n :=
        (d1 ! YIELD_INDEX u c n AND NOT YIELD_P) OR YIELD_S]) = Some d'"
    using Cons.prems(1) by (auto simp: bind_eq_Some_conv Let_def)
  let ?d2 = "d1[YIELD_INDEX u c n := (d1 ! YIELD_INDEX u c n AND NOT YIELD_P) OR YIELD_S]"
  have u: "u < n" using Cons.prems(2) by simp
  have lt: "v < n \<Longrightarrow> YIELD_INDEX u v n < length d" for v
    using yield_index_lt [OF u] Cons.prems(4) by simp
  have "set [0 ..< n] \<subseteq> {..< n}" by auto
  from yield_row_effect [OF row this distinct_upt lt]
  have d1: "length d1 = length d" "\<forall>v < n. cell u v = Some (d1 ! YIELD_INDEX u v n)"
    "\<forall>i. i \<notin> (\<lambda>v. YIELD_INDEX u v n) ` {0 ..< n} \<longrightarrow> d1 ! i = d ! i"
    by auto
  have d2: "?d2 ! YIELD_INDEX u v n = (if v = c then (d1 ! YIELD_INDEX u v n AND NOT YIELD_P) OR YIELD_S
      else d1 ! YIELD_INDEX u v n)" if "v < n" for v
    using that lt Cons.prems(5) d1(1) yield_index_inj [of v n c u u] by (auto simp: nth_list_update)
  have keep: "?d2 ! YIELD_INDEX u' v n = d ! YIELD_INDEX u' v n" if "u' \<noteq> u" "v < n" for u' v
  proof -
    have "YIELD_INDEX u' v n \<notin> (\<lambda>v. YIELD_INDEX u v n) ` {0 ..< n}"
      using that yield_index_inj by auto
    moreover have "YIELD_INDEX u c n \<noteq> YIELD_INDEX u' v n"
      using that Cons.prems(5) yield_index_inj by auto
    ultimately show ?thesis using d1(3) by simp
  qed
  have IH: "length d' = n * n"
    "\<forall>u \<in> set us. \<forall>v < n. \<exists>y. cell u v = Some y \<and>
       d' ! YIELD_INDEX u v n = (if v = c then (y AND NOT YIELD_P) OR YIELD_S else y)"
    "\<forall>u v. u \<notin> set us \<longrightarrow> v < n \<longrightarrow> d' ! YIELD_INDEX u v n = ?d2 ! YIELD_INDEX u v n"
    using Cons.IH [OF rec] Cons.prems d1(1) by auto
  have "u \<notin> set us" using Cons.prems(3) by simp
  then have "\<exists>y. cell u v = Some y \<and>
      d' ! YIELD_INDEX u v n = (if v = c then (y AND NOT YIELD_P) OR YIELD_S else y)" if "v < n" for v
    using IH(3) d2 d1(2) that by auto
  then show ?case using IH keep by auto
qed simp

lemma fold_update_effect:
  assumes "distinct vs" and "inj_on ix (set vs)" and "\<forall>v \<in> set vs. ix v < length d"
  shows "length (fold (\<lambda>v d. d[ix v := f v (d ! ix v)]) vs d) = length d \<and>
    (\<forall>v \<in> set vs. fold (\<lambda>v d. d[ix v := f v (d ! ix v)]) vs d ! ix v = f v (d ! ix v)) \<and>
    (\<forall>i. i \<notin> ix ` set vs \<longrightarrow> fold (\<lambda>v d. d[ix v := f v (d ! ix v)]) vs d ! i = d ! i)"
  using assms
proof (induction vs arbitrary: d)
  case (Cons v vs)
  let ?d = "d[ix v := f v (d ! ix v)]"
  have IH: "length (fold (\<lambda>v d. d[ix v := f v (d ! ix v)]) vs ?d) = length ?d \<and>
    (\<forall>w \<in> set vs. fold (\<lambda>v d. d[ix v := f v (d ! ix v)]) vs ?d ! ix w = f w (?d ! ix w)) \<and>
    (\<forall>i. i \<notin> ix ` set vs \<longrightarrow> fold (\<lambda>v d. d[ix v := f v (d ! ix v)]) vs ?d ! i = ?d ! i)"
    by (rule Cons.IH) (use Cons.prems in auto)
  have "ix v \<notin> ix ` set vs" using Cons.prems(1,2) by (auto simp: inj_on_def)
  moreover have "ix w \<noteq> ix v" if "w \<in> set vs" for w using calculation that by (metis image_eqI)
  ultimately show ?case using IH Cons.prems(3) by (auto simp: nth_list_update)
qed simp

lemma yield_cell_bit:
  assumes "yield_cell p ne c u v = Some y" and "bit y 3"
  shows "(u, v) \<in> prio p"
  using assms
  by (auto simp: yield_cell_def prio_def has_priority_over_def yield_P_bit bind_eq_Some_conv Let_def
      bit_and_iff bit_or_iff bit_not_iff split: if_splits)

lemma yield_clear_bit: "\<not> bit ((y AND NOT YIELD_P) OR YIELD_S) 3" "bit ((y AND NOT YIELD_P) OR YIELD_S) 2"
  by (simp_all add: bit_and_iff bit_or_iff bit_not_iff)

lemma yield_self_bit: "bit y 2 \<Longrightarrow> bit (yield_self ne v y) 3 \<Longrightarrow> bit y 3"
  by (auto simp: yield_self_def yield_S_bit Let_def bit_and_iff bit_or_iff split: if_splits)

definition yield_ok :: "node \<Rightarrow> bool" where
  "yield_ok n \<longleftrightarrow> (\<forall>d. yield_data n = Some d \<longrightarrow> length d = num_threads n * num_threads n)"

lemma update_yield_root:
  assumes "yield_ok n" and "update_yield ne yld None n = Some n'"
  shows "prio n' = {} \<and> yield_ok n'"
proof -
  let ?k = "num_threads n"
  define d0 where "d0 = (case yield_data n of None \<Rightarrow> replicate (?k * ?k) 0 | Some d \<Rightarrow> d)"
  let ?d = "fold (\<lambda>i d. d[i := YIELD_S OR YIELD_D]) [0 ..< ?k * ?k] d0"
  have len: "length d0 = ?k * ?k" using assms(1) by (auto simp: yield_ok_def d0_def split: option.splits)
  have n': "n' = n\<lparr>yield_data := Some ?d\<rparr>" using assms(2) by (simp add: update_yield_def Let_def d0_def)
  have d: "length ?d = ?k * ?k" "\<forall>i < ?k * ?k. ?d ! i = YIELD_S OR YIELD_D"
  proof -
    have "inj_on (\<lambda>i. i) (set [0 ..< ?k * ?k])" "\<forall>v \<in> set [0 ..< ?k * ?k]. v < length d0"
      using len by auto
    from fold_update_effect [OF distinct_upt this, of "\<lambda>_ _. YIELD_S OR YIELD_D"] len
    show "length ?d = ?k * ?k" "\<forall>i < ?k * ?k. ?d ! i = YIELD_S OR YIELD_D"
      by auto
  qed
  have "\<not> bit (?d ! YIELD_INDEX u v ?k) 3" if "u < ?k" "v < ?k" for u v
    using d(2) yield_index_lt [OF that] by (simp add: bit_or_iff)
  then have "prio n' = {}"
    by (auto simp: prio_def has_priority_over_def get_yield_data_def yield_P_bit n' bit_or_iff split: if_splits)
  then show ?thesis using d(1) by (simp add: n' yield_ok_def)
qed

lemma update_yield_step:
  assumes ok: "yield_ok n" and c: "nd_tid n < num_threads n"
    and run: "update_yield ne yld (Some p) n = Some n'"
  shows "prio n' \<subseteq> prio p \<union> {nd_tid n} \<times> UNIV \<and> (\<forall>u. (u, nd_tid n) \<notin> prio n') \<and> yield_ok n'"
proof -
  let ?k = "num_threads n" and ?c = "nd_tid n"
  let ?d0 = "case yield_data n of None \<Rightarrow> replicate (?k * ?k) 0 | Some d \<Rightarrow> d"
  have len: "length ?d0 = ?k * ?k" using ok by (auto simp: yield_ok_def split: option.splits)
  obtain d1 where rows: "yield_rows (yield_cell p ne ?c) [0 ..< ?k] ?c ?k ?d0 = Some d1"
    using run by (auto simp: update_yield_def Let_def bind_eq_Some_conv)
  define d2 where "d2 = (if yld then fold (\<lambda>v d. d[YIELD_INDEX ?c v ?k :=
      yield_self ne v (d ! YIELD_INDEX ?c v ?k)]) [0 ..< ?k] d1 else d1)"
  have n': "n' = n\<lparr>yield_data := Some d2\<rparr>"
    using run rows by (simp add: update_yield_def Let_def d2_def)
  have "set [0 ..< ?k] \<subseteq> {..< ?k}" by auto
  note r = yield_rows_effect [OF rows this distinct_upt len c]
  have d1: "\<exists>y. yield_cell p ne ?c u v = Some y \<and>
      d1 ! YIELD_INDEX u v ?k = (if v = ?c then (y AND NOT YIELD_P) OR YIELD_S else y)"
    if "u < ?k" "v < ?k" for u v using r that by auto
  have inj: "inj_on (\<lambda>v. YIELD_INDEX ?c v ?k) (set [0 ..< ?k])"
    using yield_index_inj by (auto simp: inj_on_def)
  have "\<forall>v \<in> set [0 ..< ?k]. YIELD_INDEX ?c v ?k < length d1"
    using r yield_index_lt [OF c] by auto
  note f = fold_update_effect [OF distinct_upt inj this, of "yield_self ne"]
  have len2: "length d2 = ?k * ?k" using f r by (simp add: d2_def)
  have other: "d2 ! YIELD_INDEX u v ?k = d1 ! YIELD_INDEX u v ?k" if "u \<noteq> ?c" "v < ?k" for u v
  proof -
    have "YIELD_INDEX u v ?k \<notin> (\<lambda>v. YIELD_INDEX ?c v ?k) ` set [0 ..< ?k]"
      using that yield_index_inj by auto
    then show ?thesis using f by (simp add: d2_def)
  qed
  have own: "d2 ! YIELD_INDEX ?c ?c ?k = (if yld then yield_self ne ?c (d1 ! YIELD_INDEX ?c ?c ?k)
      else d1 ! YIELD_INDEX ?c ?c ?k)"
    using f c by (simp add: d2_def)
  have bits: "bit (d2 ! YIELD_INDEX u v ?k) 3 \<Longrightarrow> v \<noteq> ?c \<and> (u = ?c \<or> (u, v) \<in> prio p)"
    if uv: "u < ?k" "v < ?k" for u v
  proof -
    assume b: "bit (d2 ! YIELD_INDEX u v ?k) 3"
    from d1 [OF uv] obtain y where y: "yield_cell p ne ?c u v = Some y"
      "d1 ! YIELD_INDEX u v ?k = (if v = ?c then (y AND NOT YIELD_P) OR YIELD_S else y)" by blast
    show ?thesis
    proof (cases "v = ?c")
      case True
      then have "\<not> bit (d1 ! YIELD_INDEX u v ?k) 3" "bit (d1 ! YIELD_INDEX u v ?k) 2"
        using y yield_clear_bit by simp_all
      then have "\<not> bit (d2 ! YIELD_INDEX u v ?k) 3"
        using True own other [OF _ uv(2)] yield_self_bit by (cases "u = ?c") auto
      with b show ?thesis by simp
    next
      case False
      then show ?thesis using b y other [OF _ uv(2)] yield_cell_bit [OF y(1)] by (cases "u = ?c") auto
    qed
  qed
  have "u < ?k \<and> v < ?k \<and> bit (d2 ! YIELD_INDEX u v ?k) 3" if "(u, v) \<in> prio n'" for u v
    using that by (auto simp: prio_def has_priority_over_def get_yield_data_def yield_P_bit n'
        bit_or_iff split: if_splits)
  with bits show ?thesis using len2 by (auto simp: n' yield_ok_def)
qed

lemma update_yield_acyclic:
  assumes "yield_ok n" and "nd_tid n < num_threads n" and "acyclic (prio p)"
    and "update_yield ne yld (Some p) n = Some n'"
  shows "acyclic (prio n')"
proof -
  note s = update_yield_step [OF assms(1,2,4)]
  let ?c = "nd_tid n"
  have "acyclic (prio p - UNIV \<times> {?c})" using assms(3) by (rule acyclic_subset) auto
  then have "acyclic ((prio p - UNIV \<times> {?c}) \<union> {?c} \<times> (UNIV - {?c}))"
    by (rule acyclic_source) auto
  then show ?thesis by (rule acyclic_subset) (use s in auto)
qed

section \<open>Property\<close>

text \<open>
  C35: The priority relation between threads that the yields of a program build up never has a
  cycle: \<open>update_yield\<close> starts from an empty relation, and from an acyclic relation in the
  parent it computes an acyclic one in which no thread waits for the thread that just ran.
\<close>

theorem yield_priority_acyclic:
  assumes "yield_ok n" and "nd_tid n < num_threads n"
    and "\<forall>p. parent = Some p \<longrightarrow> acyclic (prio p)"
    and "update_yield ne yld parent n = Some n'"
  shows "acyclic (prio n') \<and> yield_ok n' \<and> (\<forall>u. (u, nd_tid n) \<notin> prio n')"
proof (cases parent)
  case None
  then show ?thesis using update_yield_root [OF assms(1)] assms(4) by (simp add: acyclic_def)
next
  case (Some p)
  then show ?thesis
    using update_yield_step [OF assms(1,2)] update_yield_acyclic [OF assms(1,2)] assms(3,4) by blast
qed

lemma yield_priority_acyclic_witness:
  "\<exists>n'. update_yield (\<lambda>_. True) True None sample_node = Some n' \<and> acyclic (prio n')"
proof -
  obtain n' where n': "update_yield (\<lambda>_. True) True None sample_node = Some n'"
    by (simp add: update_yield_def Let_def)
  have "yield_ok sample_node" "nd_tid sample_node < num_threads sample_node"
    by (simp_all add: yield_ok_def sample_node_eq)
  from yield_priority_acyclic [OF this _ n'] n' show ?thesis by simp
qed

end
