(* ===== verification/Scheduler.thy ===== *)
theory Scheduler
  imports NodeYield
begin

text \<open>
  \<open>schedule.h\<close> / \<open>schedule.cc\<close>: the scheduler's array of thread statuses and the round-robin
  choice of the next thread under the two fairness mechanisms. Threads are their ids; the
  null array with length 0 is the empty list.
\<close>

section \<open>Operations\<close>

record scheduler =
  enabled :: "enabled_type list"
  curr_thread_index :: nat
  current :: "thread_id_t option"

definition Scheduler_new :: scheduler where
  "Scheduler_new = \<lparr>enabled = [], curr_thread_index = 0, current = None\<rparr>"

text \<open>
  The second component of \<open>set_enabled\<close> and of the operations built on it tells whether
  \<open>check_promises_thread_disabled\<close> of the execution is called.
\<close>

definition set_enabled :: "thread_id_t \<Rightarrow> enabled_type \<Rightarrow> scheduler \<Rightarrow> scheduler \<times> bool" where
  "set_enabled t status s =
     (let en = (if t \<ge> length (enabled s) then vec_resize (enabled s) (t + 1) THREAD_DISABLED
                else enabled s)
      in (s\<lparr>enabled := en[t := status]\<rparr>, status = THREAD_DISABLED))"

definition sched_is_enabled :: "scheduler \<Rightarrow> thread_id_t \<Rightarrow> bool" where
  "sched_is_enabled s t = (if t \<ge> length (enabled s) then False else enabled s ! t \<noteq> THREAD_DISABLED)"

definition get_enabled :: "scheduler \<Rightarrow> thread_id_t \<Rightarrow> enabled_type option" where
  "get_enabled s t = (if t < length (enabled s) then Some (enabled s ! t) else None)"

definition is_sleep_set :: "scheduler \<Rightarrow> thread_id_t \<Rightarrow> bool option" where
  "is_sleep_set s t = map_option (\<lambda>e. e = THREAD_SLEEP_SET) (get_enabled s t)"

fun all_sleeping_loop :: "enabled_type list \<Rightarrow> bool \<Rightarrow> bool" where
  "all_sleeping_loop [] sleeping = sleeping"
| "all_sleeping_loop (e # es) sleeping =
     (if e = THREAD_ENABLED then False
      else if e = THREAD_SLEEP_SET then all_sleeping_loop es True
      else all_sleeping_loop es sleeping)"

definition all_threads_sleeping :: "scheduler \<Rightarrow> bool" where
  "all_threads_sleeping s = all_sleeping_loop (enabled s) False"

text \<open>The node's array is read up to the scheduler's length.\<close>

definition update_sleep_set :: "enabled_type list \<Rightarrow> scheduler \<Rightarrow> scheduler" where
  "update_sleep_set enabled_arr s =
     s\<lparr>enabled := map (\<lambda>i. if enabled_arr ! i = THREAD_SLEEP_SET then THREAD_SLEEP_SET else enabled s ! i)
         [0 ..< length (enabled s)]\<rparr>"

definition add_sleep :: "thread_id_t \<Rightarrow> scheduler \<Rightarrow> scheduler \<times> bool" where
  "add_sleep t s = set_enabled t THREAD_SLEEP_SET s"

definition remove_sleep :: "thread_id_t \<Rightarrow> scheduler \<Rightarrow> scheduler \<times> bool" where
  "remove_sleep t s = set_enabled t THREAD_ENABLED s"

text \<open>\<open>is_model_thread\<close> is asked of the thread; the assertion fails on the model's own thread.\<close>

definition sched_add_thread :: "(thread_id_t \<Rightarrow> bool) \<Rightarrow> thread_id_t \<Rightarrow> scheduler \<Rightarrow> (scheduler \<times> bool) option" where
  "sched_add_thread is_model_thread t s =
     (if is_model_thread t then None else Some (set_enabled t THREAD_ENABLED s))"

definition sched_remove_thread :: "thread_id_t \<Rightarrow> scheduler \<Rightarrow> scheduler \<times> bool" where
  "sched_remove_thread t s =
     set_enabled t THREAD_DISABLED (if current s = Some t then s\<lparr>current := None\<rparr> else s)"

text \<open>\<open>sleep\<close> and \<open>wake\<close> also change the thread's state, which the caller's thread record holds.\<close>

datatype thread_state = THREAD_CREATED | THREAD_RUNNING | THREAD_READY | THREAD_BLOCKED | THREAD_COMPLETED

definition set_state :: "thread_state \<Rightarrow> thread_state \<Rightarrow> thread_state option" where
  "set_state new old = (if new = THREAD_COMPLETED \<or> old \<noteq> THREAD_COMPLETED then Some new else None)"

definition sched_sleep :: "thread_id_t \<Rightarrow> thread_state \<Rightarrow> scheduler \<Rightarrow> ((scheduler \<times> bool) \<times> thread_state) option" where
  "sched_sleep t st s = map_option (Pair (set_enabled t THREAD_DISABLED s)) (set_state THREAD_BLOCKED st)"

definition sched_wake ::
  "(thread_id_t \<Rightarrow> bool) \<Rightarrow> thread_id_t \<Rightarrow> thread_state \<Rightarrow> scheduler \<Rightarrow> ((scheduler \<times> bool) \<times> thread_state) option" where
  "sched_wake is_model_thread t st s =
     (if is_model_thread t then None
      else map_option (Pair (set_enabled t THREAD_ENABLED s)) (set_state THREAD_READY st))"

definition set_scheduler_thread :: "thread_id_t \<Rightarrow> scheduler \<Rightarrow> scheduler" where
  "set_scheduler_thread t s = s\<lparr>curr_thread_index := t\<rparr>"

definition set_current_thread :: "(thread_id_t \<Rightarrow> bool) \<Rightarrow> thread_id_t option \<Rightarrow> scheduler \<Rightarrow> scheduler option" where
  "set_current_thread is_model_thread t s =
     (if (\<forall>x \<in> set_option t. \<not> is_model_thread x) then Some (s\<lparr>current := t\<rparr>) else None)"

definition get_current_thread :: "(thread_id_t \<Rightarrow> bool) \<Rightarrow> scheduler \<Rightarrow> thread_id_t option option" where
  "get_current_thread is_model_thread s =
     (if (\<forall>x \<in> set_option (current s). \<not> is_model_thread x) then Some (current s) else None)"

section \<open>Choosing the next thread\<close>

definition have_priority_thread :: "model_params \<Rightarrow> node \<Rightarrow> scheduler \<Rightarrow> bool" where
  "have_priority_thread params n s \<longleftrightarrow> fairwindow params \<noteq> 0 \<and>
     list_ex (\<lambda>i. has_priority n i \<and> enabled s ! i \<noteq> THREAD_DISABLED) [0 ..< length (enabled s)]"

text \<open>The inner loop: is there an enabled thread that the candidate has yielded to?\<close>

fun bad_thread :: "node \<Rightarrow> enabled_type list \<Rightarrow> thread_id_t \<Rightarrow> nat list \<Rightarrow> bool option" where
  "bad_thread n en curr_tid [] = Some False"
| "bad_thread n en curr_tid (j # js) =
     (if en ! j \<noteq> THREAD_DISABLED
      then do { b \<leftarrow> has_priority_over n curr_tid j; if b then Some True else bad_thread n en curr_tid js }
      else bad_thread n en curr_tid js)"

fun select_loop ::
  "model_params \<Rightarrow> node \<Rightarrow> bool \<Rightarrow> nat \<Rightarrow> nat list \<Rightarrow> scheduler \<Rightarrow> (thread_id_t option \<times> scheduler) option" where
  "select_loop params n have_prio old [] s = Some (None, s)"
| "select_loop params n have_prio old (i # is) s =
     (let s1 = s\<lparr>curr_thread_index := (old + i + 1) mod length (enabled s)\<rparr>;
          curr_tid = curr_thread_index s1
      in do {
        bad \<leftarrow> (if yieldon params
                then bad_thread n (enabled s1) curr_tid [0 ..< length (enabled s1)] else Some False);
        if bad then select_loop params n have_prio old is s1
        else if enabled s1 ! curr_tid = THREAD_ENABLED \<and> (\<not> have_prio \<or> has_priority n curr_tid)
        then Some (Some curr_tid, s1)
        else select_loop params n have_prio old is s1 })"

definition select_next_thread ::
  "model_params \<Rightarrow> node \<Rightarrow> scheduler \<Rightarrow> (thread_id_t option \<times> scheduler) option" where
  "select_next_thread params n s =
     select_loop params n (have_priority_thread params n s) (curr_thread_index s)
       [0 ..< length (enabled s)] s"

section \<open>The status of every thread\<close>

text \<open>The abstract state: a status for every thread, disabled where the array has no entry.\<close>

definition status_of :: "scheduler \<Rightarrow> thread_id_t \<Rightarrow> enabled_type" where
  "status_of s t = (if t < length (enabled s) then enabled s ! t else THREAD_DISABLED)"

lemma status_set_enabled: "status_of (fst (set_enabled t v s)) = (status_of s)(t := v)"
  by (auto simp: fun_eq_iff status_of_def set_enabled_def Let_def nth_list_update)

lemma all_sleeping_loop_iff:
  "all_sleeping_loop es b \<longleftrightarrow> THREAD_ENABLED \<notin> set es \<and> (b \<or> THREAD_SLEEP_SET \<in> set es)"
  by (induction es b rule: all_sleeping_loop.induct) auto

lemma all_threads_sleeping_iff:
  "all_threads_sleeping s \<longleftrightarrow> (\<forall>t. status_of s t \<noteq> THREAD_ENABLED) \<and> (\<exists>t. status_of s t = THREAD_SLEEP_SET)"
  by (auto simp: all_threads_sleeping_def all_sleeping_loop_iff status_of_def in_set_conv_nth split: if_splits)

lemma status_update_sleep_set:
  "status_of (update_sleep_set a s) t =
     (if t < length (enabled s) \<and> a ! t = THREAD_SLEEP_SET then THREAD_SLEEP_SET else status_of s t)"
  by (auto simp: status_of_def update_sleep_set_def)

section \<open>The choice is round robin over the eligible threads\<close>

definition yields_defined :: "model_params \<Rightarrow> node \<Rightarrow> bool" where
  "yields_defined params n \<longleftrightarrow> (yieldon params \<longrightarrow> yield_data n \<noteq> None)"

definition eligible :: "model_params \<Rightarrow> node \<Rightarrow> scheduler \<Rightarrow> thread_id_t \<Rightarrow> bool" where
  "eligible params n s t \<longleftrightarrow> status_of s t = THREAD_ENABLED \<and>
     (have_priority_thread params n s \<longrightarrow> has_priority n t) \<and>
     (yieldon params \<longrightarrow> (\<forall>u. status_of s u \<noteq> THREAD_DISABLED \<longrightarrow> (t, u) \<notin> prio n))"

lemma has_priority_over_defined: "yield_data n \<noteq> None \<Longrightarrow> has_priority_over n t u = Some ((t, u) \<in> prio n)"
  by (auto simp: prio_def has_priority_over_def get_yield_data_def)

lemma bad_thread_iff:
  assumes "yield_data n \<noteq> None"
  shows "bad_thread n en t js = Some (\<exists>j \<in> set js. en ! j \<noteq> THREAD_DISABLED \<and> (t, j) \<in> prio n)"
  by (induction js) (auto simp: has_priority_over_defined [OF assms])

lemma select_loop_spec:
  assumes yd: "yields_defined params n" and hp: "hp = have_priority_thread params n s0"
    and en: "enabled s = enabled s0" and lt: "\<forall>i \<in> set is. i < length (enabled s0)"
  shows "case find (\<lambda>i. eligible params n s0 ((old + i + 1) mod length (enabled s0))) is of
      None \<Rightarrow> \<exists>s'. select_loop params n hp old is s = Some (None, s') \<and> enabled s' = enabled s0
    | Some i \<Rightarrow> \<exists>s'. select_loop params n hp old is s =
          Some (Some ((old + i + 1) mod length (enabled s0)), s') \<and> enabled s' = enabled s0 \<and>
          curr_thread_index s' = (old + i + 1) mod length (enabled s0)"
  using en lt
proof (induction "is" arbitrary: s)
  case (Cons i js)
  let ?len = "length (enabled s0)"
  let ?t = "(old + i + 1) mod ?len"
  let ?s1 = "s\<lparr>curr_thread_index := ?t\<rparr>"
  have pos: "0 < ?len" using Cons.prems(2) by auto
  then have t: "?t < ?len" by simp
  let ?bad = "yieldon params \<and> (\<exists>j < ?len. enabled s0 ! j \<noteq> THREAD_DISABLED \<and> (?t, j) \<in> prio n)"
  have bad: "(if yieldon params then bad_thread n (enabled s0) ?t [0 ..< ?len] else Some False) = Some ?bad"
    using yd by (auto simp: yields_defined_def bad_thread_iff)
  have ens1: "enabled ?s1 = enabled s0" "curr_thread_index ?s1 = ?t" using Cons.prems(1) by simp_all
  have e1: "eligible params n s0 ?t \<longleftrightarrow> \<not> ?bad \<and> enabled s0 ! ?t = THREAD_ENABLED \<and> (\<not> hp \<or> has_priority n ?t)"
    using t hp by (auto simp: eligible_def status_of_def)
  have e2: "select_loop params n hp old (i # js) s =
      (if ?bad then select_loop params n hp old js ?s1
       else if enabled s0 ! ?t = THREAD_ENABLED \<and> (\<not> hp \<or> has_priority n ?t) then Some (Some ?t, ?s1)
       else select_loop params n hp old js ?s1)"
    unfolding select_loop.simps Let_def Cons.prems(1) ens1 bad bind.simps ..
  have if_if: "(if b then z else if c then x else z) = (if \<not> b \<and> c then x else z)"
    for b c and x z :: "(nat option \<times> scheduler) option" by simp
  have step: "select_loop params n hp old (i # js) s =
      (if eligible params n s0 ?t then Some (Some ?t, ?s1) else select_loop params n hp old js ?s1)"
    unfolding e1 e2 if_if ..
  have IH: "case find (\<lambda>i. eligible params n s0 ((old + i + 1) mod ?len)) js of
      None \<Rightarrow> \<exists>s'. select_loop params n hp old js ?s1 = Some (None, s') \<and> enabled s' = enabled s0
    | Some i \<Rightarrow> \<exists>s'. select_loop params n hp old js ?s1 = Some (Some ((old + i + 1) mod ?len), s') \<and>
          enabled s' = enabled s0 \<and> curr_thread_index s' = (old + i + 1) mod ?len"
    by (rule Cons.IH [OF ens1(1)]) (use Cons.prems(2) in simp)
  show ?case
  proof (cases "eligible params n s0 ?t")
    case True
    then show ?thesis using ens1 by (simp only: step find.simps if_True option.case) blast
  next
    case False
    then show ?thesis using IH by (simp only: step find.simps if_False)
  qed
qed simp

lemma cyclic_cover:
  assumes "t < (len :: nat)"
  shows "\<exists>i < len. t = (old + i + 1) mod len"
proof (intro exI conjI)
  let ?m = "(old + 1) mod len"
  let ?i = "(t + (len - ?m)) mod len"
  have pos: "0 < len" using assms by simp
  then show "?i < len" by simp
  have "(old + ?i + 1) mod len = ((old + 1) + ?i) mod len" by (simp only: ac_simps)
  also have "\<dots> = ((old + 1) + (t + (len - ?m))) mod len" by (rule mod_add_right_eq)
  also have "\<dots> = (?m + (t + (len - ?m))) mod len" by (rule mod_add_left_eq [symmetric])
  also have "\<dots> = (t + len) mod len"
    using mod_less_divisor [OF pos, of "old + 1"] by (simp add: add.left_commute)
  also have "\<dots> = t" using assms by simp
  finally show "t = (old + ?i + 1) mod len" by simp
qed

lemma find_first:
  "find P xs = Some x \<longleftrightarrow> (\<exists>i < length xs. x = xs ! i \<and> P x \<and> (\<forall>j < i. \<not> P (xs ! j)))"
  by (auto simp: find_Some_iff)

lemma select_next_thread_spec:
  assumes "yields_defined params n"
  shows "\<exists>r s'. select_next_thread params n s = Some (r, s') \<and> enabled s' = enabled s \<and>
    (case r of
       None \<Rightarrow> \<forall>t. \<not> eligible params n s t
     | Some t \<Rightarrow> eligible params n s t \<and> curr_thread_index s' = t \<and>
         (\<exists>i < length (enabled s). t = (curr_thread_index s + i + 1) mod length (enabled s) \<and>
            (\<forall>j < i. \<not> eligible params n s ((curr_thread_index s + j + 1) mod length (enabled s)))))"
proof -
  let ?len = "length (enabled s)" and ?old = "curr_thread_index s"
  let ?P = "\<lambda>i. eligible params n s ((?old + i + 1) mod ?len)"
  note spec = select_loop_spec [OF assms refl refl, of "[0 ..< ?len]" s ?old, folded select_next_thread_def]
  show ?thesis
  proof (cases "find ?P [0 ..< ?len]")
    case None
    then have none: "\<not> ?P i" if "i < ?len" for i using that by (simp add: find_None_iff)
    have "\<not> eligible params n s t" for t
    proof (cases "t < ?len")
      case True
      then show ?thesis using cyclic_cover [OF True, of ?old] none by blast
    next
      case False
      then show ?thesis by (simp add: eligible_def status_of_def)
    qed
    then show ?thesis using spec None by (auto simp: select_next_thread_def)
  next
    case (Some i)
    then have i: "i < ?len" "?P i" "\<forall>j < i. \<not> ?P j"
      by (auto simp: find_first)
    obtain s' where "select_next_thread params n s = Some (Some ((?old + i + 1) mod ?len), s')"
      "enabled s' = enabled s" "curr_thread_index s' = (?old + i + 1) mod ?len"
      using spec Some by (auto simp: select_next_thread_def)
    with i show ?thesis
      by (intro exI [of _ "Some ((?old + i + 1) mod ?len)"] exI [of _ s']) auto
  qed
qed

section \<open>Properties\<close>

text \<open>
  C37: \<open>select_next_thread\<close> is round robin over the eligible threads. It always returns and
  leaves the statuses alone; it answers no thread exactly when none is eligible, and otherwise
  the first eligible thread in cyclic order after the last one chosen. Eligible means enabled
  and not sleeping, with fairness priority if any enabled thread has it, and not yielding to
  an enabled thread.
\<close>

theorem select_next_thread_round_robin:
  assumes "yields_defined params n"
  shows "\<exists>r s'. select_next_thread params n s = Some (r, s') \<and> enabled s' = enabled s \<and>
    (r = None \<longleftrightarrow> (\<forall>t. \<not> eligible params n s t)) \<and>
    (\<forall>t. r = Some t \<longrightarrow> eligible params n s t \<and> curr_thread_index s' = t \<and>
       (\<exists>i < length (enabled s). t = (curr_thread_index s + i + 1) mod length (enabled s) \<and>
          (\<forall>j < i. \<not> eligible params n s ((curr_thread_index s + j + 1) mod length (enabled s)))))"
proof -
  obtain r s' where "select_next_thread params n s = Some (r, s')" "enabled s' = enabled s"
    "case r of None \<Rightarrow> \<forall>t. \<not> eligible params n s t
     | Some t \<Rightarrow> eligible params n s t \<and> curr_thread_index s' = t \<and>
         (\<exists>i < length (enabled s). t = (curr_thread_index s + i + 1) mod length (enabled s) \<and>
            (\<forall>j < i. \<not> eligible params n s ((curr_thread_index s + j + 1) mod length (enabled s))))"
    using select_next_thread_spec [OF assms] by blast
  then show ?thesis by (intro exI [of _ r] exI [of _ s']) (cases r, auto)
qed

definition sample_scheduler :: scheduler where
  "sample_scheduler = fst (set_enabled 2 THREAD_ENABLED (fst (set_enabled 1 THREAD_ENABLED Scheduler_new)))"

lemma sample_scheduler_eq:
  "sample_scheduler = \<lparr>enabled = [THREAD_DISABLED, THREAD_ENABLED, THREAD_ENABLED],
     curr_thread_index = 0, current = None\<rparr>"
  by (simp add: sample_scheduler_def set_enabled_def Scheduler_new_def vec_resize_def Let_def
      numeral_3_eq_3)

lemma select_next_thread_round_robin_witness:
  "\<exists>r s'. select_next_thread (sample_params\<lparr>yieldon := False\<rparr>) sample_node sample_scheduler = Some (r, s') \<and>
     r \<noteq> None"
proof -
  let ?p = "sample_params\<lparr>yieldon := False\<rparr>"
  have "yields_defined ?p sample_node" by (simp add: yields_defined_def)
  moreover have "eligible ?p sample_node sample_scheduler 1"
    by (simp add: eligible_def status_of_def sample_scheduler_eq have_priority_thread_def sample_params_def)
  ultimately show ?thesis using select_next_thread_round_robin [of ?p sample_node sample_scheduler] by blast
qed



text \<open>
  The scheduler's array is a status for every thread, disabled by default. Setting a
  status, adding, removing, waking and putting to sleep change the status of that thread only,
  however short the array is; \<open>remove_thread\<close>, \<open>sleep\<close> and no other of them announce a
  disabled thread to the execution; \<open>is_enabled\<close> counts sleeping threads as enabled and
  \<open>all_threads_sleeping\<close> means that no thread is enabled and some thread sleeps.
\<close>

lemma scheduler_refines_status:
  "status_of (fst (set_enabled t v s)) = (status_of s)(t := v) \<and>
   (snd (set_enabled t v s) \<longleftrightarrow> v = THREAD_DISABLED) \<and>
   status_of (fst (add_sleep t s)) = (status_of s)(t := THREAD_SLEEP_SET) \<and>
   status_of (fst (remove_sleep t s)) = (status_of s)(t := THREAD_ENABLED) \<and>
   status_of (fst (sched_remove_thread t s)) = (status_of s)(t := THREAD_DISABLED) \<and>
   snd (sched_remove_thread t s) \<and>
   (sched_is_enabled s u \<longleftrightarrow> status_of s u \<noteq> THREAD_DISABLED) \<and>
   (all_threads_sleeping s \<longleftrightarrow>
      (\<forall>t. status_of s t \<noteq> THREAD_ENABLED) \<and> (\<exists>t. status_of s t = THREAD_SLEEP_SET))"
proof -
  have "status_of (s\<lparr>current := c\<rparr>) = status_of s" for c by (simp add: status_of_def fun_eq_iff)
  then show ?thesis
    by (simp add: status_set_enabled add_sleep_def remove_sleep_def sched_remove_thread_def
        all_threads_sleeping_iff sched_is_enabled_def status_of_def)
       (auto simp: set_enabled_def Let_def)
qed

end
