(* ===== verification/DataRace.thy ===== *)
theory DataRace
  imports Actions
begin

text \<open>
  \<open>datarace.h\<close>, \<open>datarace.cc\<close>: the detector of data races on non-atomic memory. Every address
  has a 64-bit shadow word, which is 0 (never accessed), a compact record of the last read and
  the last write (lowest bit set), or a pointer to a full \<open>RaceRecord\<close>.

  The two tables of the shadow memory are heaps of arrays by address; \<open>records\<close> is the heap of
  full records. What \<open>snapshot_calloc\<close> returns is an argument of the operations that call it.
  \<open>race_env\<close> collects what the detector asks the execution for: the clock vector and the last
  action of a thread, the actions themselves, and \<open>isfeasibleprefix()\<close>.
  \<open>reportDataRace\<close> leaves the running thread for good when a race is realized (the model
  checker ends an execution that has a bug), so an operation ends in one of three ways:
  it returns (\<open>Running\<close>), it is abandoned at \<open>switch_to_master\<close> (\<open>Switched\<close>), or it reads or
  writes outside an array (\<open>OutOfBounds\<close>). A fresh array has unspecified contents in the code;
  no operation reads an entry at or beyond \<open>numReads\<close>, and the model fills it with zeros.
\<close>

section \<open>The shadow word\<close>

definition MASK16BIT :: uint64 where "MASK16BIT = 0xffff"
definition THREADMASK :: uint64 where "THREADMASK = 0xff"
definition READMASK :: uint64 where "READMASK = 0x07fffff"
definition WRITEMASK :: uint64 where "WRITEMASK = READMASK"
definition MAXTHREADID :: nat where "MAXTHREADID = unat THREADMASK - 1"
definition MAXREADVECTOR :: modelclock_t where "MAXREADVECTOR = ucast READMASK - 1"
definition MAXWRITEVECTOR :: modelclock_t where "MAXWRITEVECTOR = ucast WRITEMASK - 1"
definition INITCAPACITY :: nat where "INITCAPACITY = 4"

definition ISSHORTRECORD :: "uint64 \<Rightarrow> bool" where
  "ISSHORTRECORD x \<longleftrightarrow> x AND 0x1 \<noteq> 0"
definition RDTHREADID :: "uint64 \<Rightarrow> uint64" where
  "RDTHREADID x = drop_bit 1 x AND THREADMASK"
definition READVECTOR :: "uint64 \<Rightarrow> uint64" where
  "READVECTOR x = drop_bit 9 x AND READMASK"
definition WRTHREADID :: "uint64 \<Rightarrow> uint64" where
  "WRTHREADID x = drop_bit 32 x AND THREADMASK"
definition WRITEVECTOR :: "uint64 \<Rightarrow> uint64" where
  "WRITEVECTOR x = drop_bit 40 x AND WRITEMASK"

text \<open>
  \<open>rdthread << 1\<close> is computed on an \<open>int\<close> and sign-extended, \<open>rdtime << 9\<close> on an
  \<open>unsigned int\<close>; only the write half is shifted at 64 bits.
\<close>

definition ENCODEOP :: "nat \<Rightarrow> modelclock_t \<Rightarrow> nat \<Rightarrow> modelclock_t \<Rightarrow> uint64" where
  "ENCODEOP rdthread rdtime wrthread wrtime =
     0x1 OR scast (push_bit 1 (word_of_nat rdthread :: 32 word)) OR ucast (push_bit 9 rdtime)
       OR push_bit 32 (word_of_nat wrthread) OR push_bit 40 (ucast wrtime)"

text \<open>The decoded fields, at the types the code assigns them to.\<close>

abbreviation read_clock_of :: "uint64 \<Rightarrow> modelclock_t" where
  "read_clock_of x \<equiv> ucast (READVECTOR x)"
abbreviation read_thread_of :: "uint64 \<Rightarrow> thread_id_t" where
  "read_thread_of x \<equiv> unat (RDTHREADID x)"
abbreviation write_clock_of :: "uint64 \<Rightarrow> modelclock_t" where
  "write_clock_of x \<equiv> ucast (WRITEVECTOR x)"
abbreviation write_thread_of :: "uint64 \<Rightarrow> thread_id_t" where
  "write_thread_of x \<equiv> unat (WRTHREADID x)"

section \<open>Records and state\<close>

record data_race =
  oldthread :: thread_id_t
  oldclock :: modelclock_t
  isoldwrite :: bool
  newaction :: aid
  isnewwrite :: bool
  race_address :: uint64

record race_record =
  readClock :: "modelclock_t list"
  readThread :: "thread_id_t list"
  capacity :: nat
  numReads :: nat
  writeThread :: thread_id_t
  writeClock :: modelclock_t

record race_state =
  root :: uint64
  shadow_tables :: "uint64 \<Rightarrow> uint64 \<Rightarrow> uint64"
  base_tables :: "uint64 \<Rightarrow> uint64 \<Rightarrow> uint64"
  memory_base :: uint64
  memory_top :: uint64
  records :: "uint64 \<Rightarrow> race_record option"
  unrealizedraces :: "data_race list"
  race_bugs :: "data_race list"

record race_env =
  env_cv :: "thread_id_t \<Rightarrow> clock_vector"
  env_parent :: "thread_id_t \<Rightarrow> aid"
  env_action :: "aid \<Rightarrow> model_action"
  env_prefix :: bool

type_synonym shadow_entry = "uint64 \<times> uint64"

datatype race_outcome = Running race_state | Switched race_state | OutOfBounds

primrec and_then :: "race_outcome \<Rightarrow> (race_state \<Rightarrow> race_outcome) \<Rightarrow> race_outcome" where
  "and_then (Running st) f = f st"
| "and_then (Switched st) f = Switched st"
| "and_then OutOfBounds f = OutOfBounds"

definition shadow_word :: "race_state \<Rightarrow> shadow_entry \<Rightarrow> uint64" where
  "shadow_word st e = base_tables st (fst e) (snd e)"

definition set_shadow :: "shadow_entry \<Rightarrow> uint64 \<Rightarrow> race_state \<Rightarrow> race_state" where
  "set_shadow e w st =
     st\<lparr>base_tables := (base_tables st)(fst e := (base_tables st (fst e))(snd e := w))\<rparr>"

section \<open>The shadow tables\<close>

definition SHADOWBASETABLES :: uint64 where "SHADOWBASETABLES = 4"
definition table_size :: uint64 where "table_size = 524288"

text \<open>\<open>root_p\<close> and \<open>pool_p\<close> are the two results of \<open>snapshot_calloc\<close>.\<close>

definition initRaceDetector :: "uint64 \<Rightarrow> uint64 \<Rightarrow> race_state" where
  "initRaceDetector root_p pool_p =
     \<lparr>root = root_p, shadow_tables = (\<lambda>_ _. 0), base_tables = (\<lambda>_ _. 0),
      memory_base = pool_p, memory_top = pool_p + table_size * SHADOWBASETABLES,
      records = Map.empty, unrealizedraces = [], race_bugs = []\<rparr>"

definition table_calloc :: "uint64 \<Rightarrow> uint64 \<Rightarrow> race_state \<Rightarrow> uint64 \<times> race_state" where
  "table_calloc fresh sz st =
     (if memory_base st + sz > memory_top st then (fresh, st)
      else (memory_base st, st\<lparr>memory_base := memory_base st + sz\<rparr>))"

text \<open>
  \<open>fresh1\<close> and \<open>fresh2\<close> are what \<open>snapshot_calloc\<close> would return for the two tables. The
  memory handed out is zero: no table lives there yet.
\<close>

definition lookupAddressEntry ::
  "uint64 \<Rightarrow> uint64 \<Rightarrow> uint64 \<Rightarrow> race_state \<Rightarrow> shadow_entry \<times> race_state" where
  "lookupAddressEntry fresh1 fresh2 addr st =
     (let i1 = drop_bit 32 addr AND MASK16BIT;
          currtable0 = shadow_tables st (root st) i1;
          (currtable, st1) =
            (if currtable0 = 0
             then (let (t, st') = table_calloc fresh1 table_size st
                   in (t, st'\<lparr>shadow_tables := (shadow_tables st')
                         (root st := (shadow_tables st' (root st))(i1 := t))\<rparr>))
             else (currtable0, st));
          i2 = drop_bit 16 addr AND MASK16BIT;
          basetable0 = shadow_tables st1 currtable i2;
          (basetable, st2) =
            (if basetable0 = 0
             then (let (t, st') = table_calloc fresh2 table_size st1
                   in (t, st'\<lparr>shadow_tables := (shadow_tables st')
                         (currtable := (shadow_tables st' currtable)(i2 := t))\<rparr>))
             else (basetable0, st1))
      in ((basetable, addr AND MASK16BIT), st2))"

section \<open>Reports\<close>

definition clock_may_race ::
  "clock_vector \<Rightarrow> thread_id_t \<Rightarrow> modelclock_t \<Rightarrow> thread_id_t \<Rightarrow> bool" where
  "clock_may_race clock1 tid1 clock2 tid2 \<longleftrightarrow>
     tid1 \<noteq> tid2 \<and> clock2 \<noteq> 0 \<and> getClock clock1 tid2 \<le> clock2"

definition race_realized :: "race_env \<Rightarrow> data_race \<Rightarrow> bool" where
  "race_realized env race =
     (let act = env_action env (newaction race)
      in clock_may_race (cv_of act) (tid act) (oldclock race) (oldthread race))"

definition assert_race :: "data_race \<Rightarrow> race_state \<Rightarrow> race_state" where
  "assert_race race st = st\<lparr>race_bugs := race_bugs st @ [race]\<rparr>"

primrec assert_realized ::
  "race_env \<Rightarrow> data_race list \<Rightarrow> bool \<times> race_state \<Rightarrow> bool \<times> race_state" where
  "assert_realized env [] s = s"
| "assert_realized env (race # races) s =
     assert_realized env races
       (if race_realized env race then (True, assert_race race (snd s)) else s)"

definition checkDataRaces :: "race_env \<Rightarrow> race_state \<Rightarrow> bool \<times> race_state" where
  "checkDataRaces env st =
     (if env_prefix env
      then (let (race_asserted, st1) = assert_realized env (unrealizedraces st) (False, st)
            in (race_asserted, st1\<lparr>unrealizedraces := []\<rparr>))
      else (False, st))"

definition reportDataRace ::
  "race_env \<Rightarrow> thread_id_t \<Rightarrow> modelclock_t \<Rightarrow> bool \<Rightarrow> aid \<Rightarrow> bool \<Rightarrow> uint64 \<Rightarrow>
   race_state \<Rightarrow> race_outcome" where
  "reportDataRace env oldt oldc oldw act neww addr st =
     (let race = \<lparr>oldthread = oldt, oldclock = oldc, isoldwrite = oldw, newaction = act,
                  isnewwrite = neww, race_address = addr\<rparr>;
          (realized, st1) =
            checkDataRaces env (st\<lparr>unrealizedraces := unrealizedraces st @ [race]\<rparr>)
      in if realized then Switched st1 else Running st1)"

definition haveUnrealizedRaces :: "race_state \<Rightarrow> bool" where
  "haveUnrealizedRaces st \<longleftrightarrow> unrealizedraces st \<noteq> []"

section \<open>Accesses\<close>

definition expandRecord :: "uint64 \<Rightarrow> shadow_entry \<Rightarrow> race_state \<Rightarrow> race_state" where
  "expandRecord p e st =
     (let shadowval = shadow_word st e;
          record0 = \<lparr>readClock = [], readThread = [], capacity = 0, numReads = 0,
                     writeThread = write_thread_of shadowval,
                     writeClock = write_clock_of shadowval\<rparr>;
          record1 =
            (if read_clock_of shadowval \<noteq> 0
             then record0\<lparr>capacity := INITCAPACITY,
                    readThread := (replicate INITCAPACITY 0)[0 := read_thread_of shadowval],
                    readClock := (replicate INITCAPACITY 0)[0 := read_clock_of shadowval],
                    numReads := 1\<rparr>
             else record0)
      in set_shadow e p (st\<lparr>records := (records st)(p \<mapsto> record1)\<rparr>))"

text \<open>One test of an access against an earlier one, with its report.\<close>

definition check_against ::
  "race_env \<Rightarrow> thread_id_t \<Rightarrow> uint64 \<Rightarrow> clock_vector \<Rightarrow> bool \<Rightarrow> bool \<Rightarrow>
   modelclock_t \<Rightarrow> thread_id_t \<Rightarrow> race_state \<Rightarrow> race_outcome" where
  "check_against env thread addr currClock oldw neww clock t st =
     (if clock_may_race currClock thread clock t
      then reportDataRace env t clock oldw (env_parent env thread) neww addr st
      else Running st)"

primrec check_reads ::
  "race_env \<Rightarrow> thread_id_t \<Rightarrow> uint64 \<Rightarrow> clock_vector \<Rightarrow> (modelclock_t \<times> thread_id_t) list \<Rightarrow>
   race_state \<Rightarrow> race_outcome" where
  "check_reads env thread addr currClock [] st = Running st"
| "check_reads env thread addr currClock (r # rs) st =
     and_then (check_against env thread addr currClock False True (fst r) (snd r) st)
       (check_reads env thread addr currClock rs)"

definition recorded_reads :: "race_record \<Rightarrow> (modelclock_t \<times> thread_id_t) list" where
  "recorded_reads rc = map (\<lambda>i. (readClock rc ! i, readThread rc ! i)) [0..<numReads rc]"

definition fullRaceCheckWrite ::
  "race_env \<Rightarrow> thread_id_t \<Rightarrow> uint64 \<Rightarrow> shadow_entry \<Rightarrow> clock_vector \<Rightarrow>
   race_state \<Rightarrow> race_outcome" where
  "fullRaceCheckWrite env thread addr e currClock st =
     (let p = shadow_word st e
      in case records st p of None \<Rightarrow> OutOfBounds
         | Some rc \<Rightarrow>
             and_then (check_reads env thread addr currClock (recorded_reads rc) st) (\<lambda>st1.
             and_then (check_against env thread addr currClock True True
                         (writeClock rc) (writeThread rc) st1) (\<lambda>st2.
             Running (st2\<lparr>records := (records st2)(p \<mapsto>
                rc\<lparr>numReads := 0, writeThread := thread,
                   writeClock := getClock currClock thread\<rparr>)\<rparr>))))"

definition race_check_write_at ::
  "uint64 \<Rightarrow> race_env \<Rightarrow> thread_id_t \<Rightarrow> uint64 \<Rightarrow> shadow_entry \<Rightarrow>
   race_state \<Rightarrow> race_outcome" where
  "race_check_write_at p env thread addr e st =
     (let shadowval = shadow_word st e;
          currClock = env_cv env thread;
          ourClock = getClock currClock thread
      in if shadowval \<noteq> 0 \<and> \<not> ISSHORTRECORD shadowval
         then fullRaceCheckWrite env thread addr e currClock st
         else if thread > MAXTHREADID \<or> ourClock > MAXWRITEVECTOR
         then fullRaceCheckWrite env thread addr e currClock (expandRecord p e st)
         else and_then (check_against env thread addr currClock False True
                 (read_clock_of shadowval) (read_thread_of shadowval) st) (\<lambda>st1.
              and_then (check_against env thread addr currClock True True
                 (write_clock_of shadowval) (write_thread_of shadowval) st1) (\<lambda>st2.
              Running (set_shadow e (ENCODEOP 0 0 thread ourClock) st2))))"

definition raceCheckWrite ::
  "uint64 \<Rightarrow> uint64 \<Rightarrow> uint64 \<Rightarrow> race_env \<Rightarrow> thread_id_t \<Rightarrow> uint64 \<Rightarrow>
   race_state \<Rightarrow> race_outcome" where
  "raceCheckWrite fresh1 fresh2 p env thread addr st =
     (let (e, st1) = lookupAddressEntry fresh1 fresh2 addr st
      in race_check_write_at p env thread addr e st1)"

text \<open>The in-place compaction of the reads that the new read does not subsume.\<close>

primrec shorten_loop ::
  "clock_vector \<Rightarrow> thread_id_t \<Rightarrow> nat list \<Rightarrow> nat \<Rightarrow> race_record \<Rightarrow> nat \<times> race_record" where
  "shorten_loop currClock thread [] copytoindex rc = (copytoindex, rc)"
| "shorten_loop currClock thread (i # is) copytoindex rc =
     (if clock_may_race currClock thread (readClock rc ! i) (readThread rc ! i)
      then shorten_loop currClock thread is (copytoindex + 1)
             (if copytoindex \<noteq> i
              then rc\<lparr>readClock := (readClock rc)[copytoindex := readClock rc ! i],
                      readThread := (readThread rc)[copytoindex := readThread rc ! i]\<rparr>
              else rc)
      else shorten_loop currClock thread is copytoindex rc)"

definition grow_record :: "nat \<Rightarrow> race_record \<Rightarrow> race_record" where
  "grow_record copytoindex rc =
     (if copytoindex \<ge> capacity rc
      then (let newCapacity = capacity rc * 2
            in rc\<lparr>readThread := take (capacity rc) (readThread rc)
                                 @ replicate (newCapacity - capacity rc) 0,
                  readClock := take (capacity rc) (readClock rc)
                                 @ replicate (newCapacity - capacity rc) 0,
                  capacity := newCapacity\<rparr>)
      else rc)"

definition fullRaceCheckRead ::
  "race_env \<Rightarrow> thread_id_t \<Rightarrow> uint64 \<Rightarrow> shadow_entry \<Rightarrow> clock_vector \<Rightarrow>
   race_state \<Rightarrow> race_outcome" where
  "fullRaceCheckRead env thread addr e currClock st =
     (let p = shadow_word st e
      in case records st p of None \<Rightarrow> OutOfBounds
         | Some rc \<Rightarrow>
             and_then (check_against env thread addr currClock True False
                         (writeClock rc) (writeThread rc) st) (\<lambda>st1.
             let (copytoindex, rc1) = shorten_loop currClock thread [0..<numReads rc] 0 rc;
                 rc2 = grow_record copytoindex rc1;
                 ourClock = getClock currClock thread
             in if copytoindex < length (readThread rc2) \<and> copytoindex < length (readClock rc2)
                then Running (st1\<lparr>records := (records st1)(p \<mapsto>
                       rc2\<lparr>readThread := (readThread rc2)[copytoindex := thread],
                           readClock := (readClock rc2)[copytoindex := ourClock],
                           numReads := copytoindex + 1\<rparr>)\<rparr>)
                else OutOfBounds))"

definition race_check_read_at ::
  "uint64 \<Rightarrow> race_env \<Rightarrow> thread_id_t \<Rightarrow> uint64 \<Rightarrow> shadow_entry \<Rightarrow>
   race_state \<Rightarrow> race_outcome" where
  "race_check_read_at p env thread addr e st =
     (let shadowval = shadow_word st e;
          currClock = env_cv env thread;
          ourClock = getClock currClock thread
      in if shadowval \<noteq> 0 \<and> \<not> ISSHORTRECORD shadowval
         then fullRaceCheckRead env thread addr e currClock st
         else if thread > MAXTHREADID \<or> ourClock > MAXWRITEVECTOR
         then fullRaceCheckRead env thread addr e currClock (expandRecord p e st)
         else and_then (check_against env thread addr currClock True False
                 (write_clock_of shadowval) (write_thread_of shadowval) st) (\<lambda>st1.
              if clock_may_race currClock thread
                   (read_clock_of shadowval) (read_thread_of shadowval)
              then fullRaceCheckRead env thread addr e currClock (expandRecord p e st1)
              else Running (set_shadow e
                     (ENCODEOP thread ourClock (write_thread_of shadowval)
                        (write_clock_of shadowval)) st1)))"

definition raceCheckRead ::
  "uint64 \<Rightarrow> uint64 \<Rightarrow> uint64 \<Rightarrow> race_env \<Rightarrow> thread_id_t \<Rightarrow> uint64 \<Rightarrow>
   race_state \<Rightarrow> race_outcome" where
  "raceCheckRead fresh1 fresh2 p env thread addr st =
     (let (e, st1) = lookupAddressEntry fresh1 fresh2 addr st
      in race_check_read_at p env thread addr e st1)"

section \<open>The encoding\<close>

lemma race_masks: "THREADMASK = mask 8" "READMASK = mask 23" "WRITEMASK = mask 23"
    "MASK16BIT = mask 16"
  by (simp_all add: THREADMASK_def READMASK_def WRITEMASK_def MASK16BIT_def mask_eq_exp_minus_1)

lemma race_limits: "MAXTHREADID = 254" "MAXREADVECTOR = 0x7ffffe" "MAXWRITEVECTOR = 0x7ffffe"
  by (simp_all add: MAXTHREADID_def MAXREADVECTOR_def MAXWRITEVECTOR_def THREADMASK_def
      READMASK_def WRITEMASK_def)

lemma high_bit_clear_nat:
  assumes "bit (x::nat) n" and "x < 2 ^ k"
  shows "n < k"
proof (rule ccontr)
  assume "\<not> n < k"
  then have "x < 2 ^ n" using assms(2)
    by (meson less_le_trans not_less one_le_numeral power_increasing)
  then show False using assms(1) by (simp add: bit_iff_odd)
qed

lemma high_bit_clear:
  fixes x :: "'a::len word"
  assumes "bit x n" and "unat x < 2 ^ k"
  shows "n < k"
proof -
  have "bit (unat x) n" using assms(1) by (simp add: bit_unsigned_iff)
  then show ?thesis using assms(2) by (rule high_bit_clear_nat)
qed

lemma bit_ENCODEOP:
  assumes "rt < 2 ^ 8" and "unat rc < 2 ^ 23" and "wt < 2 ^ 8" and "unat wc < 2 ^ 23"
    and "n < 64"
  shows "bit (ENCODEOP rt rc wt wc) n \<longleftrightarrow>
    n = 0 \<or> (1 \<le> n \<and> n < 9 \<and> bit rt (n - 1)) \<or> (9 \<le> n \<and> n < 32 \<and> bit rc (n - 9))
    \<or> (32 \<le> n \<and> n < 40 \<and> bit wt (n - 32)) \<or> (40 \<le> n \<and> n < 63 \<and> bit wc (n - 40))"
proof -
  have rt: "bit rt k \<Longrightarrow> k < 8" and wt: "bit wt k \<Longrightarrow> k < 8" for k
    using high_bit_clear_nat assms(1,3) by blast+
  have rc: "bit rc k \<Longrightarrow> k < 23" and wc: "bit wc k \<Longrightarrow> k < 23" for k
    using high_bit_clear assms(2,4) by blast+
  have "bit (scast (push_bit 1 (word_of_nat rt :: 32 word)) :: uint64) n
      \<longleftrightarrow> 1 \<le> n \<and> n < 9 \<and> bit rt (n - 1)"
    using assms(5) rt [of "min 31 n - 1"]
    unfolding bit_signed_iff bit_push_bit_iff bit_of_nat_iff min_def
    by (auto split: if_splits)
  moreover have "bit (ucast (push_bit 9 rc) :: uint64) n \<longleftrightarrow> 9 \<le> n \<and> n < 32 \<and> bit rc (n - 9)"
    using assms(5) by (auto simp: bit_simps dest: bit_imp_le_length)
  moreover have "bit (push_bit 32 (word_of_nat wt) :: uint64) n
      \<longleftrightarrow> 32 \<le> n \<and> n < 40 \<and> bit wt (n - 32)"
    using assms(5) wt [of "n - 32"] by (auto simp: bit_simps)
  moreover have "bit (push_bit 40 (ucast wc) :: uint64) n
      \<longleftrightarrow> 40 \<le> n \<and> n < 63 \<and> bit wc (n - 40)"
    using assms(5) wc [of "n - 40"] by (auto simp: bit_simps)
  moreover have "bit (1::uint64) n \<longleftrightarrow> n = 0"
    by (simp add: bit_simps)
  ultimately show ?thesis unfolding ENCODEOP_def bit_or_iff by simp
qed

lemma ENCODEOP_fields:
  assumes "rt < 2 ^ 8" and "unat rc < 2 ^ 23" and "wt < 2 ^ 8" and "unat wc < 2 ^ 23"
  shows "ISSHORTRECORD (ENCODEOP rt rc wt wc)"
    and "read_thread_of (ENCODEOP rt rc wt wc) = rt"
    and "read_clock_of (ENCODEOP rt rc wt wc) = rc"
    and "write_thread_of (ENCODEOP rt rc wt wc) = wt"
    and "write_clock_of (ENCODEOP rt rc wt wc) = wc"
proof -
  note B = bit_ENCODEOP [OF assms]
  have rt: "bit rt k \<Longrightarrow> k < 8" and wt: "bit wt k \<Longrightarrow> k < 8" for k
    using high_bit_clear_nat assms(1,3) by blast+
  have rc: "bit rc k \<Longrightarrow> k < 23" and wc: "bit wc k \<Longrightarrow> k < 23" for k
    using high_bit_clear assms(2,4) by blast+
  show "ISSHORTRECORD (ENCODEOP rt rc wt wc)"
    using B [of 0] by (simp add: ISSHORTRECORD_def and_one_eq bit_0 odd_iff_mod_2_eq_one)
  have "RDTHREADID (ENCODEOP rt rc wt wc) = word_of_nat rt"
  proof (rule bit_word_eqI)
    fix n
    show "bit (RDTHREADID (ENCODEOP rt rc wt wc)) n = bit (word_of_nat rt :: uint64) n"
      using rt [of n] B [of "n + 1"]
      by (auto simp: RDTHREADID_def race_masks bit_simps add.commute)
  qed
  then show "read_thread_of (ENCODEOP rt rc wt wc) = rt"
    using assms(1) by (simp add: unat_of_nat)
  show "read_clock_of (ENCODEOP rt rc wt wc) = rc"
  proof (rule bit_word_eqI)
    fix n
    show "bit (read_clock_of (ENCODEOP rt rc wt wc)) n = bit rc n"
      using rc [of n] B [of "n + 9"]
      by (auto simp: READVECTOR_def race_masks bit_simps add.commute)
  qed
  have "WRTHREADID (ENCODEOP rt rc wt wc) = word_of_nat wt"
  proof (rule bit_word_eqI)
    fix n
    show "bit (WRTHREADID (ENCODEOP rt rc wt wc)) n = bit (word_of_nat wt :: uint64) n"
      using wt [of n] B [of "n + 32"]
      by (auto simp: WRTHREADID_def race_masks bit_simps add.commute)
  qed
  then show "write_thread_of (ENCODEOP rt rc wt wc) = wt"
    using assms(3) by (simp add: unat_of_nat)
  show "write_clock_of (ENCODEOP rt rc wt wc) = wc"
  proof (rule bit_word_eqI)
    fix n
    show "bit (write_clock_of (ENCODEOP rt rc wt wc)) n = bit wc n"
      using wc [of n] B [of "n + 40"]
      by (auto simp: WRITEVECTOR_def race_masks bit_simps add.commute)
  qed
qed

lemma read_fields_small: "unat (read_clock_of x) < 2 ^ 23" "read_thread_of x < 2 ^ 8"
  and write_fields_small: "unat (write_clock_of x) < 2 ^ 23" "write_thread_of x < 2 ^ 8"
proof -
  have m: "unat (y AND mask k) < 2 ^ k" for y :: uint64 and k :: nat
    by (simp add: unsigned_take_bit_eq flip: take_bit_eq_mask)
  show "unat (read_clock_of x) < 2 ^ 23" "unat (write_clock_of x) < 2 ^ 23"
    using m [of "drop_bit 9 x" 23] m [of "drop_bit 40 x" 23]
    by (simp_all add: READVECTOR_def WRITEVECTOR_def race_masks unsigned_ucast_eq
        le_less_trans [OF take_bit_nat_less_eq_self])
  show "read_thread_of x < 2 ^ 8" "write_thread_of x < 2 ^ 8"
    using m [of "drop_bit 1 x" 8] m [of "drop_bit 32 x" 8]
    by (simp_all add: RDTHREADID_def WRTHREADID_def race_masks)
qed

text \<open>
  Encoding a read and a write in a shadow word and decoding it gives the four values back,
  for every thread id and clock that \<open>raceCheckWrite\<close> and \<open>raceCheckRead\<close> let into the
  compact form; the word is never taken for a pointer or for "never accessed".
\<close>

lemma shadow_word_round_trip:
  assumes "rt \<le> MAXTHREADID" and "rc \<le> MAXREADVECTOR"
    and "wt \<le> MAXTHREADID" and "wc \<le> MAXWRITEVECTOR"
  shows "ISSHORTRECORD (ENCODEOP rt rc wt wc) \<and> ENCODEOP rt rc wt wc \<noteq> 0
    \<and> RDTHREADID (ENCODEOP rt rc wt wc) = word_of_nat rt
    \<and> READVECTOR (ENCODEOP rt rc wt wc) = ucast rc
    \<and> WRTHREADID (ENCODEOP rt rc wt wc) = word_of_nat wt
    \<and> WRITEVECTOR (ENCODEOP rt rc wt wc) = ucast wc"
proof (intro conjI)
  have small: "rt < 2 ^ 8" "unat rc < 2 ^ 23" "wt < 2 ^ 8" "unat wc < 2 ^ 23"
    using assms by (simp_all add: race_limits word_le_nat_alt)
  note F = ENCODEOP_fields [OF small]
  show "ISSHORTRECORD (ENCODEOP rt rc wt wc)" by (rule F)
  then show "ENCODEOP rt rc wt wc \<noteq> 0" by (auto simp: ISSHORTRECORD_def)
  show "RDTHREADID (ENCODEOP rt rc wt wc) = word_of_nat rt"
    and "WRTHREADID (ENCODEOP rt rc wt wc) = word_of_nat wt"
    using F(2,4) by (metis of_nat_unat ucast_id)+
  have up: "x = ucast y" if "(ucast (x AND READMASK) :: 32 word) = y" "x AND READMASK = x"
    for x :: uint64 and y
  proof -
    have "x = ucast (ucast x :: 32 word)"
    proof (rule bit_word_eqI)
      fix n
      have "bit (x AND READMASK) n \<longleftrightarrow> bit x n" using that(2) by simp
      then show "bit x n = bit (ucast (ucast x :: 32 word) :: uint64) n"
        by (auto simp: race_masks bit_simps)
    qed
    then show ?thesis using that by simp
  qed
  show "READVECTOR (ENCODEOP rt rc wt wc) = ucast rc"
    by (rule up) (use F(3) in \<open>simp_all add: READVECTOR_def ac_simps\<close>)
  show "WRITEVECTOR (ENCODEOP rt rc wt wc) = ucast wc"
    by (rule up) (use F(5) in \<open>simp_all add: WRITEVECTOR_def WRITEMASK_def ac_simps\<close>)
qed

theorem shadow_word_round_trip_witness:
  "ISSHORTRECORD (ENCODEOP 3 17 254 0x7ffffe) \<and> READVECTOR (ENCODEOP 3 17 254 0x7ffffe) = 17"
  using shadow_word_round_trip [of 3 17 254 "0x7ffffe"]
  by (simp add: race_limits)

section \<open>Histories and reports\<close>

text \<open>
  What a shadow word says of the past of its address, whatever its representation: the reads
  that are still relevant and the last write, each a clock and a thread.
\<close>

type_synonym access = "modelclock_t \<times> thread_id_t"

definition history :: "race_state \<Rightarrow> shadow_entry \<Rightarrow> access list \<times> access" where
  "history st e =
     (let sv = shadow_word st e
      in if sv \<noteq> 0 \<and> \<not> ISSHORTRECORD sv
         then (case records st sv of None \<Rightarrow> ([], (0, 0))
               | Some rc \<Rightarrow> (recorded_reads rc, (writeClock rc, writeThread rc)))
         else (if read_clock_of sv \<noteq> 0 then [(read_clock_of sv, read_thread_of sv)] else [],
               (write_clock_of sv, write_thread_of sv)))"

definition record_ok :: "race_record \<Rightarrow> bool" where
  "record_ok rc \<longleftrightarrow> length (readClock rc) = capacity rc \<and> length (readThread rc) = capacity rc
     \<and> numReads rc \<le> capacity rc"

definition entry_ok :: "race_state \<Rightarrow> shadow_entry \<Rightarrow> bool" where
  "entry_ok st e \<longleftrightarrow> (let sv = shadow_word st e in sv \<noteq> 0 \<and> \<not> ISSHORTRECORD sv
     \<longrightarrow> (case records st sv of None \<Rightarrow> False | Some rc \<Rightarrow> record_ok rc))"

definition record_pointer :: "uint64 \<Rightarrow> bool" where
  "record_pointer p \<longleftrightarrow> p \<noteq> 0 \<and> \<not> ISSHORTRECORD p"

definition may_race_with :: "clock_vector \<Rightarrow> thread_id_t \<Rightarrow> access \<Rightarrow> bool" where
  "may_race_with currClock thread a = clock_may_race currClock thread (fst a) (snd a)"

definition race_of :: "race_env \<Rightarrow> thread_id_t \<Rightarrow> uint64 \<Rightarrow> bool \<Rightarrow> bool \<Rightarrow> access \<Rightarrow> data_race" where
  "race_of env thread addr oldw neww a =
     \<lparr>oldthread = snd a, oldclock = fst a, isoldwrite = oldw,
      newaction = env_parent env thread, isnewwrite = neww, race_address = addr\<rparr>"

definition races_with ::
  "race_env \<Rightarrow> thread_id_t \<Rightarrow> uint64 \<Rightarrow> bool \<Rightarrow> bool \<Rightarrow> access list \<Rightarrow> data_race list" where
  "races_with env thread addr oldw neww as =
     map (race_of env thread addr oldw neww)
       (filter (may_race_with (env_cv env thread) thread) as)"

text \<open>
  The effect of reporting a list of races on the pair of the unrealized races and the bugs:
  each is queued, and in a feasible prefix the queue is settled at once. The flag says that a
  race was realized and the rest of the list is never reached.
\<close>

primrec queue_races ::
  "race_env \<Rightarrow> data_race list \<Rightarrow> data_race list \<times> data_race list \<Rightarrow>
   bool \<times> data_race list \<times> data_race list" where
  "queue_races env [] l = (False, l)"
| "queue_races env (r # rs) l =
     (if env_prefix env
      then (let hits = filter (race_realized env) (fst l @ [r])
            in if hits \<noteq> [] then (True, [], snd l @ hits)
               else queue_races env rs ([], snd l))
      else queue_races env rs (fst l @ [r], snd l))"

definition race_log :: "race_state \<Rightarrow> data_race list \<times> data_race list" where
  "race_log st = (unrealizedraces st, race_bugs st)"

definition memory_of :: "race_state \<Rightarrow> race_state" where
  "memory_of st = st\<lparr>unrealizedraces := [], race_bugs := []\<rparr>"

primrec log_of :: "race_outcome \<Rightarrow> (bool \<times> data_race list \<times> data_race list) option" where
  "log_of (Running st) = Some (False, race_log st)"
| "log_of (Switched st) = Some (True, race_log st)"
| "log_of OutOfBounds = None"

definition reports :: "race_env \<Rightarrow> race_outcome \<Rightarrow> data_race list \<Rightarrow> race_state \<Rightarrow> bool" where
  "reports env out races st \<longleftrightarrow> log_of out = Some (queue_races env races (race_log st))"

lemma queue_races_append:
  "queue_races env (r1 @ r2) l =
     (let (stop, l') = queue_races env r1 l
      in if stop then (stop, l') else queue_races env r2 l')"
  by (induction r1 arbitrary: l) (auto simp: Let_def split: prod.splits)

lemma reports_and_then:
  assumes "reports env out r1 st"
    and "\<And>st'. out = Running st' \<Longrightarrow> reports env (f st') r2 st'"
  shows "reports env (and_then out f) (r1 @ r2) st"
  using assms by (cases out) (auto simp: reports_def queue_races_append split: prod.splits)

lemma reports_Running: "race_log st' = race_log st \<Longrightarrow> reports env (Running st') [] st"
  by (simp add: reports_def)

lemma and_then_Running:
  "and_then out f = Running st' \<longleftrightarrow> (\<exists>st1. out = Running st1 \<and> f st1 = Running st')"
  by (cases out) auto

lemma assert_realized_eq:
  "assert_realized env races (b, st) =
     (b \<or> filter (race_realized env) races \<noteq> [],
      st\<lparr>race_bugs := race_bugs st @ filter (race_realized env) races\<rparr>)"
  by (induction races arbitrary: b st) (auto simp: assert_race_def)

lemma checkDataRaces_eq:
  "checkDataRaces env st =
     (if env_prefix env
      then (filter (race_realized env) (unrealizedraces st) \<noteq> [],
            st\<lparr>race_bugs := race_bugs st @ filter (race_realized env) (unrealizedraces st),
               unrealizedraces := []\<rparr>)
      else (False, st))"
  by (simp add: checkDataRaces_def assert_realized_eq)

lemma check_against_reports:
  "reports env (check_against env thread addr (env_cv env thread) oldw neww c t st)
     (races_with env thread addr oldw neww [(c, t)]) st"
  by (auto simp: check_against_def reports_def races_with_def may_race_with_def race_of_def
      reportDataRace_def checkDataRaces_eq Let_def race_log_def split: if_splits)

lemma check_against_memory:
  "check_against env thread addr vec oldw neww c t st = Running st' \<Longrightarrow> memory_of st' = memory_of st"
  by (auto simp: check_against_def reportDataRace_def checkDataRaces_eq Let_def memory_of_def
      split: if_splits)

lemma races_with_Nil [simp]: "races_with env thread addr oldw neww [] = []"
  by (simp add: races_with_def)

lemma races_with_Cons:
  "races_with env thread addr oldw neww (a # as)
     = races_with env thread addr oldw neww [a] @ races_with env thread addr oldw neww as"
  by (simp add: races_with_def)

lemma races_with_zero: "c = 0 \<Longrightarrow> races_with env thread addr oldw neww [(c, t)] = []"
  by (simp add: races_with_def may_race_with_def clock_may_race_def)

lemma check_reads_reports:
  "reports env (check_reads env thread addr (env_cv env thread) rs st)
     (races_with env thread addr False True rs) st"
proof (induction rs arbitrary: st)
  case Nil
  then show ?case by (simp add: reports_Running)
next
  case (Cons r rs)
  have "reports env (check_reads env thread addr (env_cv env thread) (r # rs) st)
          (races_with env thread addr False True [(fst r, snd r)]
           @ races_with env thread addr False True rs) st"
    unfolding check_reads.simps by (rule reports_and_then [OF check_against_reports Cons.IH])
  then show ?case by (subst races_with_Cons) simp
qed

lemma check_reads_memory:
  "check_reads env thread addr vec rs st = Running st' \<Longrightarrow> memory_of st' = memory_of st"
  by (induction rs arbitrary: st) (auto simp: and_then_Running dest: check_against_memory)

lemma memory_of_fields:
  assumes "memory_of st' = memory_of st"
  shows "records st' = records st" and "base_tables st' = base_tables st"
    and "shadow_word st' e = shadow_word st e"
  using assms by (cases st; cases st'; simp add: memory_of_def shadow_word_def)+

lemma shadow_word_set [simp]: "shadow_word (set_shadow e w st) e = w"
  by (simp add: shadow_word_def set_shadow_def)

lemma shadow_word_records [simp]: "shadow_word (st\<lparr>records := r\<rparr>) e = shadow_word st e"
  by (simp add: shadow_word_def)

lemma set_shadow_frame [simp]:
  "records (set_shadow e w st) = records st" "race_log (set_shadow e w st) = race_log st"
  "e' \<noteq> e \<Longrightarrow> shadow_word (set_shadow e w st) e' = shadow_word st e'"
  by (auto simp: set_shadow_def race_log_def shadow_word_def prod_eq_iff)

section \<open>The store of records\<close>

definition race_store_ok :: "race_state \<Rightarrow> bool" where
  "race_store_ok st \<longleftrightarrow> (\<forall>e. entry_ok st e)
     \<and> (\<forall>e1 e2. record_pointer (shadow_word st e1) \<longrightarrow> shadow_word st e1 = shadow_word st e2
          \<longrightarrow> e1 = e2)"

definition fresh_pointer :: "uint64 \<Rightarrow> race_state \<Rightarrow> bool" where
  "fresh_pointer p st \<longleftrightarrow> record_pointer p \<and> records st p = None"

lemma history_pointer:
  "record_pointer (shadow_word st e) \<Longrightarrow> records st (shadow_word st e) = Some rc \<Longrightarrow>
   history st e = (recorded_reads rc, (writeClock rc, writeThread rc))"
  by (simp add: history_def record_pointer_def)

lemma history_compact:
  "\<not> record_pointer (shadow_word st e) \<Longrightarrow>
   history st e =
     (if read_clock_of (shadow_word st e) \<noteq> 0
      then [(read_clock_of (shadow_word st e), read_thread_of (shadow_word st e))] else [],
      (write_clock_of (shadow_word st e), write_thread_of (shadow_word st e)))"
  by (auto simp: history_def record_pointer_def Let_def)

lemma history_cong:
  assumes sw: "shadow_word st' e' = shadow_word st e'"
    and rc: "record_pointer (shadow_word st e') \<Longrightarrow>
      records st' (shadow_word st e') = records st (shadow_word st e')"
  shows "history st' e' = history st e'"
proof (cases "record_pointer (shadow_word st e')")
  case True
  then show ?thesis using rc by (simp add: history_def record_pointer_def sw)
next
  case False
  then show ?thesis by (simp add: history_compact sw)
qed

lemma entry_ok_iff:
  "entry_ok st e \<longleftrightarrow> (record_pointer (shadow_word st e) \<longrightarrow>
     (\<exists>rc. records st (shadow_word st e) = Some rc \<and> record_ok rc))"
  by (auto simp: entry_ok_def record_pointer_def Let_def split: option.splits)

lemma history_memory:
  assumes "memory_of st' = memory_of st"
  shows "history st' e = history st e"
  by (rule history_cong) (simp_all add: memory_of_fields [OF assms])

lemma store_ok_memory:
  assumes "memory_of st' = memory_of st"
  shows "race_store_ok st' = race_store_ok st"
  by (simp add: race_store_ok_def entry_ok_iff memory_of_fields [OF assms])

lemma update_record:
  assumes "race_store_ok st" and "record_pointer (shadow_word st e)" and "record_ok rc"
  defines "st' \<equiv> st\<lparr>records := (records st)(shadow_word st e \<mapsto> rc)\<rparr>"
  shows "race_store_ok st'" and "history st' e = (recorded_reads rc, (writeClock rc, writeThread rc))"
    and "e' \<noteq> e \<Longrightarrow> history st' e' = history st e'"
proof -
  have sw: "shadow_word st' x = shadow_word st x" for x
    by (simp add: st'_def shadow_word_def)
  have rcs: "records st' = (records st)(shadow_word st e \<mapsto> rc)"
    by (simp add: st'_def)
  show "race_store_ok st'"
    using assms(1,3)
    by (simp add: race_store_ok_def entry_ok_iff sw rcs del: split_paired_All) blast
  show "history st' e = (recorded_reads rc, (writeClock rc, writeThread rc))"
    by (rule history_pointer) (simp_all add: sw assms(2) rcs)
  show "history st' e' = history st e'" if "e' \<noteq> e"
  proof (rule history_cong [OF sw])
    assume "record_pointer (shadow_word st e')"
    then have "shadow_word st e' \<noteq> shadow_word st e"
      using assms(1) that unfolding race_store_ok_def by metis
    then show "records st' (shadow_word st e') = records st (shadow_word st e')"
      by (simp add: rcs)
  qed
qed

lemma write_shadow:
  assumes "race_store_ok st" and "\<not> record_pointer w"
    and st'_def: "st' = set_shadow e w st"
  shows "race_store_ok st'"
    and "history st' e = (if read_clock_of w \<noteq> 0 then [(read_clock_of w, read_thread_of w)] else [],
                          (write_clock_of w, write_thread_of w))"
    and "e' \<noteq> e \<Longrightarrow> history st' e' = history st e'"
proof -
  have sw: "shadow_word st' x = (if x = e then w else shadow_word st x)" for x
    by (auto simp: st'_def)
  have rc: "records st' = records st" by (simp add: st'_def)
  show "race_store_ok st'"
    using assms(1,2)
    by (simp add: race_store_ok_def entry_ok_iff sw rc del: split_paired_All) metis
  show "history st' e = (if read_clock_of w \<noteq> 0 then [(read_clock_of w, read_thread_of w)] else [],
                          (write_clock_of w, write_thread_of w))"
    using history_compact [of st' e] assms(2) by (simp add: sw)
  show "history st' e' = history st e'" if "e' \<noteq> e"
    by (rule history_cong) (simp_all add: sw rc that)
qed

lemma expand_record:
  assumes ok: "race_store_ok st" and fresh: "fresh_pointer p st"
    and compact: "\<not> record_pointer (shadow_word st e)"
  defines "st' \<equiv> expandRecord p e st"
  shows "race_store_ok st'" and "history st' x = history st x" and "race_log st' = race_log st"
    and "shadow_word st' e = p"
proof -
  have p: "record_pointer p" and none: "records st p = None"
    using fresh by (auto simp: fresh_pointer_def)
  have unused: "shadow_word st x \<noteq> p" for x
    using ok p none unfolding race_store_ok_def entry_ok_iff by (metis option.distinct(1))
  define rc where "rc = (let sv = shadow_word st e;
      r0 = \<lparr>readClock = [], readThread = [], capacity = 0, numReads = 0,
            writeThread = write_thread_of sv, writeClock = write_clock_of sv\<rparr>
      in if read_clock_of sv \<noteq> 0
         then r0\<lparr>capacity := INITCAPACITY,
                readThread := (replicate INITCAPACITY 0)[0 := read_thread_of sv],
                readClock := (replicate INITCAPACITY 0)[0 := read_clock_of sv], numReads := 1\<rparr>
         else r0)"
  have st': "st' = set_shadow e p (st\<lparr>records := (records st)(p \<mapsto> rc)\<rparr>)"
    by (simp add: st'_def expandRecord_def rc_def Let_def)
  have sw: "shadow_word st' x = (if x = e then p else shadow_word st x)" for x
    by (cases "x = e") (simp_all add: st' shadow_word_records)
  have rcs: "records st' = (records st)(p \<mapsto> rc)" by (simp add: st')
  have "record_ok rc" by (simp add: rc_def record_ok_def Let_def INITCAPACITY_def)
  then show "race_store_ok st'"
    using ok unused
    by (simp add: race_store_ok_def entry_ok_iff sw rcs del: split_paired_All) metis
  show "race_log st' = race_log st" by (simp add: st') (simp add: race_log_def)
  show "shadow_word st' e = p" by (simp add: sw)
  show "history st' x = history st x"
  proof (cases "x = e")
    case True
    have "history st' e = (recorded_reads rc, (writeClock rc, writeThread rc))"
      by (rule history_pointer) (simp_all add: sw p rcs)
    also have "\<dots> = history st e"
      unfolding history_compact [OF compact]
      by (simp add: rc_def recorded_reads_def Let_def INITCAPACITY_def)
    finally show ?thesis using True by simp
  next
    case False
    then show ?thesis using unused by (intro history_cong) (simp_all add: sw rcs)
  qed
qed

section \<open>Writes\<close>

definition write_races ::
  "race_env \<Rightarrow> thread_id_t \<Rightarrow> uint64 \<Rightarrow> access list \<times> access \<Rightarrow> data_race list" where
  "write_races env thread addr h =
     races_with env thread addr False True (fst h) @ races_with env thread addr True True [snd h]"

definition own_access :: "race_env \<Rightarrow> thread_id_t \<Rightarrow> access" where
  "own_access env thread = (getClock (env_cv env thread) thread, thread)"

lemma full_write:
  assumes ok: "race_store_ok st" and ptr: "record_pointer (shadow_word st e)"
    and out_def: "out = fullRaceCheckWrite env thread addr e (env_cv env thread) st"
  shows "reports env out (write_races env thread addr (history st e)) st"
    and "out = Running st' \<Longrightarrow> race_store_ok st' \<and> history st' e = ([], own_access env thread)
           \<and> (e' \<noteq> e \<longrightarrow> history st' e' = history st e')"
proof -
  obtain rc where rc: "records st (shadow_word st e) = Some rc" and rok: "record_ok rc"
    using ok ptr unfolding race_store_ok_def entry_ok_iff by blast
  define rc' where "rc' = rc\<lparr>numReads := 0, writeThread := thread,
                   writeClock := getClock (env_cv env thread) thread\<rparr>"
  have out: "out = and_then (check_reads env thread addr (env_cv env thread) (recorded_reads rc) st)
      (\<lambda>st1. and_then (check_against env thread addr (env_cv env thread) True True
                         (writeClock rc) (writeThread rc) st1)
      (\<lambda>st2. Running (st2\<lparr>records := (records st2)(shadow_word st e \<mapsto> rc')\<rparr>)))"
    by (simp add: out_def fullRaceCheckWrite_def rc rc'_def)
  have h: "history st e = (recorded_reads rc, (writeClock rc, writeThread rc))"
    by (rule history_pointer [OF ptr rc])
  have tail: "reports env (and_then (check_against env thread addr (env_cv env thread) True True
                         (writeClock rc) (writeThread rc) st1)
      (\<lambda>st2. Running (st2\<lparr>records := (records st2)(shadow_word st e \<mapsto> rc')\<rparr>)))
      (races_with env thread addr True True [(writeClock rc, writeThread rc)] @ []) st1" for st1
    by (rule reports_and_then [OF check_against_reports])
      (rule reports_Running, simp add: race_log_def)
  show "reports env out (write_races env thread addr (history st e)) st"
    unfolding out write_races_def h fst_conv snd_conv
    by (rule reports_and_then [OF check_reads_reports tail [simplified]])
  assume "out = Running st'"
  then obtain st1 st2 where
    1: "check_reads env thread addr (env_cv env thread) (recorded_reads rc) st = Running st1" and
    2: "check_against env thread addr (env_cv env thread) True True
          (writeClock rc) (writeThread rc) st1 = Running st2" and
    3: "st' = st2\<lparr>records := (records st2)(shadow_word st e \<mapsto> rc')\<rparr>"
    by (auto simp: out and_then_Running)
  have mem: "memory_of st2 = memory_of st"
    using check_reads_memory [OF 1] check_against_memory [OF 2] by simp
  have sw: "shadow_word st2 e = shadow_word st e" using mem by (rule memory_of_fields)
  have rok': "record_ok rc'" using rok by (simp add: record_ok_def rc'_def)
  have h': "(recorded_reads rc', (writeClock rc', writeThread rc')) = ([], own_access env thread)"
    by (simp add: rc'_def recorded_reads_def own_access_def)
  note U = update_record [of st2 e rc', unfolded sw store_ok_memory [OF mem], OF ok ptr rok',
      folded 3, unfolded h' history_memory [OF mem]]
  show "race_store_ok st' \<and> history st' e = ([], own_access env thread)
           \<and> (e' \<noteq> e \<longrightarrow> history st' e' = history st e')"
    using U(1,2,3) by blast
qed

lemma lookup_frame:
  assumes "lookupAddressEntry f1 f2 addr st = (e, st1)"
  shows "records st1 = records st" and "base_tables st1 = base_tables st"
    and "race_log st1 = race_log st"
  using assms
  by (auto simp: lookupAddressEntry_def table_calloc_def Let_def race_log_def
      split: if_splits prod.splits)

lemma lookup_history:
  assumes "lookupAddressEntry f1 f2 addr st = (e, st1)"
  shows "shadow_word st1 x = shadow_word st x" and "history st1 x = history st x"
    and "race_store_ok st1 = race_store_ok st" and "fresh_pointer p st1 = fresh_pointer p st"
proof -
  note F = lookup_frame [OF assms]
  show sw: "shadow_word st1 x = shadow_word st x" for x by (simp add: shadow_word_def F)
  show "history st1 x = history st x" by (rule history_cong) (simp_all add: sw F)
  show "race_store_ok st1 = race_store_ok st" "fresh_pointer p st1 = fresh_pointer p st"
    by (simp_all add: race_store_ok_def entry_ok_iff fresh_pointer_def sw F)
qed

lemma compact_write_races:
  "\<not> record_pointer (shadow_word st e) \<Longrightarrow>
   races_with env thread addr False True
       [(read_clock_of (shadow_word st e), read_thread_of (shadow_word st e))]
     @ races_with env thread addr True True
       [(write_clock_of (shadow_word st e), write_thread_of (shadow_word st e))]
   = write_races env thread addr (history st e)"
  by (simp add: history_compact write_races_def races_with_zero)

lemma ENCODEOP_not_pointer: "\<not> record_pointer (ENCODEOP rt rc wt wc)"
proof -
  have "bit (ENCODEOP rt rc wt wc) 0" by (simp add: ENCODEOP_def bit_or_iff bit_simps)
  then show ?thesis by (auto simp: record_pointer_def ISSHORTRECORD_def and_one_eq bit_0 odd_iff_mod_2_eq_one)
qed

lemma not_wide:
  "\<not> (thread > MAXTHREADID \<or> c > MAXWRITEVECTOR) \<Longrightarrow> thread < 2 ^ 8 \<and> unat c < 2 ^ 23"
  by (auto simp: race_limits word_le_nat_alt not_less)

lemma write_at_exact:
  assumes ok: "race_store_ok st" and fresh: "fresh_pointer p st"
    and out_def: "out = race_check_write_at p env thread addr e st"
  shows "reports env out (write_races env thread addr (history st e)) st"
    and "out = Running st' \<Longrightarrow> race_store_ok st' \<and> history st' e = ([], own_access env thread)
           \<and> (e' \<noteq> e \<longrightarrow> history st' e' = history st e')"
proof -
  define sv where "sv = shadow_word st e"
  define c where "c = getClock (env_cv env thread) thread"
  consider (full) "record_pointer sv"
    | (wide) "\<not> record_pointer sv" "thread > MAXTHREADID \<or> c > MAXWRITEVECTOR"
    | (narrow) "\<not> record_pointer sv" "\<not> (thread > MAXTHREADID \<or> c > MAXWRITEVECTOR)"
    by blast
  then have "reports env out (write_races env thread addr (history st e)) st
      \<and> (\<forall>st'. out = Running st' \<longrightarrow> race_store_ok st' \<and> history st' e = ([], own_access env thread)
           \<and> (e' \<noteq> e \<longrightarrow> history st' e' = history st e'))"
  proof cases
    case full
    then have out: "out = fullRaceCheckWrite env thread addr e (env_cv env thread) st"
      by (simp add: out_def race_check_write_at_def sv_def record_pointer_def Let_def)
    show ?thesis using full_write [OF ok full [unfolded sv_def] out] by blast
  next
    case wide
    define st1 where "st1 = expandRecord p e st"
    note X = expand_record [OF ok fresh wide(1) [unfolded sv_def], folded st1_def]
    have out: "out = fullRaceCheckWrite env thread addr e (env_cv env thread) st1"
      using wide by (auto simp: out_def race_check_write_at_def sv_def record_pointer_def Let_def
          st1_def c_def)
    have ptr: "record_pointer (shadow_word st1 e)" using X(4) fresh by (simp add: fresh_pointer_def)
    note W = full_write [OF X(1) ptr out]
    have "reports env out (write_races env thread addr (history st e)) st"
      using W(1) X(2,3) by (simp add: reports_def)
    then show ?thesis using W(2) X(2) by simp
  next
    case narrow
    define w where "w = ENCODEOP 0 0 thread c"
    have small: "thread < 2 ^ 8" "unat c < 2 ^ 23" using not_wide narrow(2) by blast+
    have out: "out = and_then (check_against env thread addr (env_cv env thread) False True
                 (read_clock_of sv) (read_thread_of sv) st) (\<lambda>st1.
              and_then (check_against env thread addr (env_cv env thread) True True
                 (write_clock_of sv) (write_thread_of sv) st1) (\<lambda>st2.
              Running (set_shadow e w st2)))"
      using narrow
      by (auto simp: out_def race_check_write_at_def sv_def record_pointer_def Let_def c_def w_def)
    have tail: "reports env (and_then (check_against env thread addr (env_cv env thread) True True
                 (write_clock_of sv) (write_thread_of sv) st1) (\<lambda>st2. Running (set_shadow e w st2)))
              (races_with env thread addr True True [(write_clock_of sv, write_thread_of sv)] @ [])
              st1" for st1
      by (rule reports_and_then [OF check_against_reports]) (rule reports_Running, simp)
    have "reports env out (write_races env thread addr (history st e)) st"
      unfolding compact_write_races [OF narrow(1) [unfolded sv_def], symmetric] sv_def [symmetric] out
      by (rule reports_and_then [OF check_against_reports tail [simplified]])
    moreover have "race_store_ok st' \<and> history st' e = ([], own_access env thread)
           \<and> (e' \<noteq> e \<longrightarrow> history st' e' = history st e')" if st': "out = Running st'" for st'
    proof -
      from st' obtain st1 st2 where
        1: "check_against env thread addr (env_cv env thread) False True
              (read_clock_of sv) (read_thread_of sv) st = Running st1" and
        2: "check_against env thread addr (env_cv env thread) True True
              (write_clock_of sv) (write_thread_of sv) st1 = Running st2" and
        3: "st' = set_shadow e w st2"
        by (auto simp: out and_then_Running)
      have mem: "memory_of st2 = memory_of st"
        using check_against_memory [OF 1] check_against_memory [OF 2] by simp
      have ok2: "race_store_ok st2" using ok store_ok_memory [OF mem] by simp
      have np: "\<not> record_pointer w" by (simp add: w_def ENCODEOP_not_pointer)
      have fields: "read_clock_of w = 0" "write_clock_of w = c" "write_thread_of w = thread"
        using ENCODEOP_fields [of 0 0 thread c] small by (simp_all add: w_def)
      note S = write_shadow [OF ok2 np 3]
      show ?thesis
        using S(1) S(2) S(3) [of e'] history_memory [OF mem]
        by (simp add: fields own_access_def c_def)
    qed
    ultimately show ?thesis by blast
  qed
  then show "reports env out (write_races env thread addr (history st e)) st"
    and "out = Running st' \<Longrightarrow> race_store_ok st' \<and> history st' e = ([], own_access env thread)
           \<and> (e' \<noteq> e \<longrightarrow> history st' e' = history st e')"
    by blast+
qed

text \<open>
  C12: a non-atomic write reports a race with exactly the recorded reads and the recorded write
  that its clock vector does not cover, in that order, whatever the representation of the
  shadow word; afterwards it is the only recorded access of its address, and no other address
  has changed.
\<close>

theorem race_check_write_exact:
  assumes "race_store_ok st" and "fresh_pointer p st"
    and "lookupAddressEntry f1 f2 addr st = (e, st1)"
  shows "log_of (raceCheckWrite f1 f2 p env thread addr st)
           = Some (queue_races env (write_races env thread addr (history st e)) (race_log st)) \<and>
    (\<forall>st'. raceCheckWrite f1 f2 p env thread addr st = Running st' \<longrightarrow>
           race_store_ok st' \<and> history st' e = ([], own_access env thread)
           \<and> (\<forall>e'. e' \<noteq> e \<longrightarrow> history st' e' = history st e'))"
proof (intro conjI [of "log_of _ = _"] allI impI)
  note L = lookup_history [OF assms(3)]
  have ok: "race_store_ok st1" "fresh_pointer p st1" using assms(1,2) L by simp_all
  have out: "raceCheckWrite f1 f2 p env thread addr st = race_check_write_at p env thread addr e st1"
    by (simp add: raceCheckWrite_def assms(3))
  note W = write_at_exact [OF ok out]
  show "log_of (raceCheckWrite f1 f2 p env thread addr st)
           = Some (queue_races env (write_races env thread addr (history st e)) (race_log st))"
    using W(1) unfolding reports_def L(2) lookup_frame(3) [OF assms(3)] .
  show "race_store_ok st' \<and> history st' e = ([], own_access env thread)
           \<and> (\<forall>e'. e' \<noteq> e \<longrightarrow> history st' e' = history st e')"
    if "raceCheckWrite f1 f2 p env thread addr st = Running st'" for st'
    using W(2) [OF that] unfolding L(2) by blast
qed

text \<open>
  A state in which thread 1 has written address 100 at clock 5, and thread 2, whose clock
  vector has not seen that write, is about to access it.
\<close>

definition sample_entry :: shadow_entry where "sample_entry = (524320, 100)"

definition sample_races :: race_state where
  "sample_races = set_shadow sample_entry (ENCODEOP 0 0 1 5) (initRaceDetector 16 32)"

definition sample_race_env :: race_env where
  "sample_race_env =
     \<lparr>env_cv = (\<lambda>t. if t = 2 then [0, 1, 3] else [0, 5]), env_parent = (\<lambda>t. t),
      env_action = (\<lambda>_. the (ModelAction_new ATOMIC_READ memory_order_relaxed 8 0 2)),
      env_prefix = False\<rparr>"

lemma init_races:
  "history (initRaceDetector r q) e = ([], (0, 0))" "race_store_ok (initRaceDetector r q)"
  "record_pointer p \<Longrightarrow> fresh_pointer p (initRaceDetector r q)"
  by (simp_all add: history_def initRaceDetector_def shadow_word_def race_store_ok_def
      entry_ok_def record_pointer_def READVECTOR_def WRITEVECTOR_def WRTHREADID_def
      fresh_pointer_def)

lemma sample_pointer: "record_pointer 64"
  by (simp add: record_pointer_def ISSHORTRECORD_def)

lemma sample_races_facts:
  shows "race_store_ok sample_races" and "history sample_races sample_entry = ([], (5, 1))"
    and "fresh_pointer 64 sample_races" and "race_log sample_races = ([], [])"
    and "\<exists>st1. lookupAddressEntry 96 112 100 sample_races = (sample_entry, st1)"
    and "\<not> record_pointer (shadow_word sample_races sample_entry)"
proof -
  note S = write_shadow [OF init_races(2) ENCODEOP_not_pointer sample_races_def]
  show "race_store_ok sample_races" by (rule S)
  show "history sample_races sample_entry = ([], (5, 1))"
    using S(2) by (simp add: ENCODEOP_fields)
  show "fresh_pointer 64 sample_races"
    using init_races(3) [OF sample_pointer] by (simp add: fresh_pointer_def sample_races_def)
  show "race_log sample_races = ([], [])"
    by (simp add: sample_races_def) (simp add: race_log_def initRaceDetector_def)
  show "\<exists>st1. lookupAddressEntry 96 112 100 sample_races = (sample_entry, st1)"
    by (simp add: lookupAddressEntry_def sample_races_def set_shadow_def initRaceDetector_def
        table_calloc_def table_size_def SHADOWBASETABLES_def MASK16BIT_def sample_entry_def Let_def)
  show "\<not> record_pointer (shadow_word sample_races sample_entry)"
    by (simp add: sample_races_def ENCODEOP_not_pointer)
qed

lemma sample_clock [simp]: "getClock (env_cv sample_race_env 2) (Suc 0) = 1"
    "getClock (env_cv sample_race_env 2) 2 = 3" "env_prefix sample_race_env = False"
  by (simp_all add: sample_race_env_def getClock_def)

theorem race_check_write_exact_witness:
  "\<exists>race. log_of (raceCheckWrite 96 112 64 sample_race_env 2 100 sample_races)
            = Some (False, [race], []) \<and> oldthread race = 1 \<and> oldclock race = 5"
proof -
  obtain st1 where L: "lookupAddressEntry 96 112 100 sample_races = (sample_entry, st1)"
    using sample_races_facts(5) by blast
  show ?thesis
    using conjunct1 [OF race_check_write_exact, OF sample_races_facts(1,3) L, of sample_race_env 2]
    by (simp add: sample_races_facts write_races_def races_with_def may_race_with_def
        clock_may_race_def race_of_def)
qed

section \<open>Reads\<close>

definition read_races ::
  "race_env \<Rightarrow> thread_id_t \<Rightarrow> uint64 \<Rightarrow> access list \<times> access \<Rightarrow> data_race list" where
  "read_races env thread addr h = races_with env thread addr True False [snd h]"

definition unsubsumed :: "race_env \<Rightarrow> thread_id_t \<Rightarrow> access list \<times> access \<Rightarrow> access list" where
  "unsubsumed env thread h = filter (may_race_with (env_cv env thread) thread) (fst h)"

definition reads_at :: "race_record \<Rightarrow> nat list \<Rightarrow> access list" where
  "reads_at rc js = map (\<lambda>i. (readClock rc ! i, readThread rc ! i)) js"

lemma reads_at_Nil [simp]: "reads_at rc [] = []"
  by (simp add: reads_at_def)

lemma reads_at_append: "reads_at rc (js @ ks) = reads_at rc js @ reads_at rc ks"
  by (simp add: reads_at_def)

lemma reads_at_cong:
  "(\<And>i. i \<in> set js \<Longrightarrow> readClock rc ! i = readClock rc' ! i \<and> readThread rc ! i = readThread rc' ! i)
   \<Longrightarrow> reads_at rc js = reads_at rc' js"
  by (simp add: reads_at_def)

lemma shorten_loop_reads:
  assumes "shorten_loop vec t [i..<n] c rc = (c', rc')" and "c \<le> i" and "record_ok rc"
    and "n \<le> capacity rc"
  shows "reads_at rc' [0..<c']
           = reads_at rc [0..<c] @ filter (may_race_with vec t) (reads_at rc [i..<n])
         \<and> record_ok rc' \<and> capacity rc' = capacity rc \<and> writeClock rc' = writeClock rc
           \<and> writeThread rc' = writeThread rc \<and> c' \<le> max c n"
  using assms
proof (induction "n - i" arbitrary: i c rc)
  case 0
  then show ?case by (simp add: reads_at_def)
next
  case (Suc m)
  then have lt: "i < n" by simp
  have split: "[i..<n] = i # [Suc i..<n]" using lt by (rule upt_conv_Cons)
  define rc1 where "rc1 = (if c \<noteq> i
      then rc\<lparr>readClock := (readClock rc)[c := readClock rc ! i],
              readThread := (readThread rc)[c := readThread rc ! i]\<rparr> else rc)"
  have keep: "reads_at rc1 [Suc i..<n] = reads_at rc [Suc i..<n]" if "c \<le> i"
    by (rule reads_at_cong) (use that in \<open>auto simp: rc1_def\<close>)
  have grow: "reads_at rc1 [0..<Suc c] = reads_at rc [0..<c] @ reads_at rc [i]"
    if "c \<le> i" "record_ok rc" "n \<le> capacity rc"
  proof -
    have "reads_at rc1 [0..<c] = reads_at rc [0..<c]"
      by (rule reads_at_cong) (auto simp: rc1_def)
    moreover have "reads_at rc1 [c] = reads_at rc [i]"
      using that lt by (auto simp: rc1_def reads_at_def record_ok_def)
    ultimately show ?thesis by (simp add: reads_at_append)
  qed
  have ok1: "record_ok rc1" "capacity rc1 = capacity rc" "writeClock rc1 = writeClock rc"
      "writeThread rc1 = writeThread rc" if "record_ok rc"
    using that by (auto simp: rc1_def record_ok_def)
  have first: "filter (may_race_with vec t) (reads_at rc [i..<n])
      = (if may_race_with vec t (readClock rc ! i, readThread rc ! i)
         then reads_at rc [i] else []) @ filter (may_race_with vec t) (reads_at rc [Suc i..<n])"
    by (simp add: split reads_at_def)
  have loop: "shorten_loop vec t [i..<n] c rc
      = (if may_race_with vec t (readClock rc ! i, readThread rc ! i)
         then shorten_loop vec t [Suc i..<n] (Suc c) rc1
         else shorten_loop vec t [Suc i..<n] c rc)"
    by (simp add: split rc1_def may_race_with_def)
  have m: "m = n - Suc i" using Suc.hyps(2) by simp
  note IH = Suc.hyps(1) [OF m]
  show ?case
  proof (cases "may_race_with vec t (readClock rc ! i, readThread rc ! i)")
    case True
    then have "shorten_loop vec t [Suc i..<n] (Suc c) rc1 = (c', rc')"
      using Suc.prems(1) loop by simp
    from IH [OF this] show ?thesis
      using True Suc.prems lt keep grow ok1 unfolding first by auto
  next
    case False
    then have "shorten_loop vec t [Suc i..<n] c rc = (c', rc')"
      using Suc.prems(1) loop by simp
    from IH [OF this] show ?thesis
      using False Suc.prems lt unfolding first by auto
  qed
qed

lemma grow_record_reads:
  assumes "record_ok rc" and "c \<le> capacity rc" and "0 < capacity rc"
  shows "reads_at (grow_record c rc) [0..<c] = reads_at rc [0..<c]"
    and "length (readThread (grow_record c rc)) = capacity (grow_record c rc)"
    and "length (readClock (grow_record c rc)) = capacity (grow_record c rc)"
    and "c < capacity (grow_record c rc)"
    and "writeClock (grow_record c rc) = writeClock rc"
    and "writeThread (grow_record c rc) = writeThread rc"
proof -
  show "reads_at (grow_record c rc) [0..<c] = reads_at rc [0..<c]"
    by (rule reads_at_cong)
      (use assms(1,2) in \<open>auto simp: grow_record_def record_ok_def nth_append Let_def\<close>)
qed (use assms in \<open>auto simp: grow_record_def record_ok_def Let_def\<close>)

text \<open>The new read of a full record, as a function of the record.\<close>

definition read_step :: "race_env \<Rightarrow> thread_id_t \<Rightarrow> race_record \<Rightarrow> race_record" where
  "read_step env thread rc =
     (let (c, rc1) = shorten_loop (env_cv env thread) thread [0..<numReads rc] 0 rc;
          rc2 = grow_record c rc1
      in rc2\<lparr>readThread := (readThread rc2)[c := thread],
             readClock := (readClock rc2)[c := getClock (env_cv env thread) thread],
             numReads := c + 1\<rparr>)"

lemma read_step_record:
  assumes ok: "record_ok rc" and cap: "0 < capacity rc"
    and loop: "shorten_loop (env_cv env thread) thread [0..<numReads rc] 0 rc = (c, rc1)"
  shows "c < length (readThread (grow_record c rc1))" and "c < length (readClock (grow_record c rc1))"
    and "record_ok (read_step env thread rc)"
    and "recorded_reads (read_step env thread rc)
           = filter (may_race_with (env_cv env thread) thread) (recorded_reads rc)
             @ [own_access env thread]"
    and "writeClock (read_step env thread rc) = writeClock rc"
    and "writeThread (read_step env thread rc) = writeThread rc"
proof -
  have n: "numReads rc \<le> capacity rc" using ok by (simp add: record_ok_def)
  note S = shorten_loop_reads [OF loop le0 ok n]
  have c: "c \<le> capacity rc1" and ok1: "record_ok rc1" and cap1: "0 < capacity rc1"
    using S n cap by simp_all
  note G = grow_record_reads [OF ok1 c cap1]
  define rc2 where "rc2 = grow_record c rc1"
  define rc3 where "rc3 = read_step env thread rc"
  have rc3: "rc3 = rc2\<lparr>readThread := (readThread rc2)[c := thread],
             readClock := (readClock rc2)[c := getClock (env_cv env thread) thread],
             numReads := c + 1\<rparr>"
    unfolding rc3_def read_step_def loop prod.case Let_def rc2_def by simp
  show "c < length (readThread (grow_record c rc1))" "c < length (readClock (grow_record c rc1))"
    using G by simp_all
  show "record_ok (read_step env thread rc)"
    using G unfolding rc3_def [symmetric] rc3 by (simp add: record_ok_def rc2_def)
  show "writeClock (read_step env thread rc) = writeClock rc"
    "writeThread (read_step env thread rc) = writeThread rc"
    using G S unfolding rc3_def [symmetric] rc3 by (simp_all add: rc2_def)
  have "recorded_reads rc3 = reads_at rc3 [0..<c] @ reads_at rc3 [c]"
    by (simp add: recorded_reads_def reads_at_def rc3)
  also have "reads_at rc3 [c] = [own_access env thread]"
    using G by (simp add: rc3 reads_at_def own_access_def rc2_def)
  also have "reads_at rc3 [0..<c] = reads_at rc2 [0..<c]"
    by (rule reads_at_cong) (simp add: rc3)
  also have "\<dots> = filter (may_race_with (env_cv env thread) thread) (recorded_reads rc)"
    using G(1) S unfolding rc2_def recorded_reads_def reads_at_def [symmetric]
    by simp
  finally show "recorded_reads (read_step env thread rc)
           = filter (may_race_with (env_cv env thread) thread) (recorded_reads rc)
             @ [own_access env thread]"
    by (simp add: rc3_def)
qed

definition read_effect ::
  "race_env \<Rightarrow> thread_id_t \<Rightarrow> shadow_entry \<Rightarrow> race_state \<Rightarrow> race_state \<Rightarrow> bool" where
  "read_effect env thread e st st' \<longleftrightarrow> race_store_ok st'
     \<and> history st' e = (unsubsumed env thread (history st e) @ [own_access env thread],
                        snd (history st e))
     \<and> (\<forall>e'. e' \<noteq> e \<longrightarrow> history st' e' = history st e')"

lemma full_read:
  assumes ok: "race_store_ok st" and ptr: "record_pointer (shadow_word st e)"
    and rc: "records st (shadow_word st e) = Some rc" and cap: "0 < capacity rc"
    and out_def: "out = fullRaceCheckRead env thread addr e (env_cv env thread) st"
  shows "reports env out (read_races env thread addr (history st e)) st"
    and "out = Running st' \<Longrightarrow> read_effect env thread e st st'"
proof -
  have rok: "record_ok rc"
    using ok ptr rc unfolding race_store_ok_def entry_ok_iff by (metis option.inject)
  obtain c rc1 where
    loop: "shorten_loop (env_cv env thread) thread [0..<numReads rc] 0 rc = (c, rc1)"
    by (cases "shorten_loop (env_cv env thread) thread [0..<numReads rc] 0 rc")
  note R = read_step_record [OF rok cap loop]
  have step: "read_step env thread rc = (grow_record c rc1)
      \<lparr>readThread := (readThread (grow_record c rc1))[c := thread],
       readClock := (readClock (grow_record c rc1))[c := getClock (env_cv env thread) thread],
       numReads := Suc c\<rparr>"
    unfolding read_step_def loop prod.case Let_def by simp
  have out: "out = and_then (check_against env thread addr (env_cv env thread) True False
                         (writeClock rc) (writeThread rc) st)
      (\<lambda>st1. Running (st1\<lparr>records := (records st1)(shadow_word st e \<mapsto> read_step env thread rc)\<rparr>))"
    by (simp add: out_def fullRaceCheckRead_def rc loop R(1,2) step Let_def)
  have h: "history st e = (recorded_reads rc, (writeClock rc, writeThread rc))"
    by (rule history_pointer [OF ptr rc])
  have "reports env out (read_races env thread addr (history st e) @ []) st"
    unfolding out read_races_def h snd_conv
    by (rule reports_and_then [OF check_against_reports])
      (rule reports_Running, simp add: race_log_def)
  then show "reports env out (read_races env thread addr (history st e)) st" by simp
  assume "out = Running st'"
  then obtain st1 where
    1: "check_against env thread addr (env_cv env thread) True False
          (writeClock rc) (writeThread rc) st = Running st1" and
    2: "st' = st1\<lparr>records := (records st1)(shadow_word st e \<mapsto> read_step env thread rc)\<rparr>"
    by (auto simp: out and_then_Running)
  have mem: "memory_of st1 = memory_of st" by (rule check_against_memory [OF 1])
  have sw: "shadow_word st1 e = shadow_word st e" using mem by (rule memory_of_fields)
  note U = update_record [of st1 e "read_step env thread rc", unfolded sw store_ok_memory [OF mem],
      OF ok ptr R(3), folded 2, unfolded history_memory [OF mem]]
  show "read_effect env thread e st st'"
    using U(1,2,3) by (simp add: read_effect_def h unsubsumed_def R(4,5,6) del: split_paired_All)
qed

definition wide_access :: "race_env \<Rightarrow> thread_id_t \<Rightarrow> bool" where
  "wide_access env thread \<longleftrightarrow>
     thread > MAXTHREADID \<or> getClock (env_cv env thread) thread > MAXWRITEVECTOR"

text \<open>
  The reads of an address can be recorded: a full record has room for at least one read, and a
  compact word that must be expanded for a wide access has a read.
\<close>

definition read_room :: "race_env \<Rightarrow> thread_id_t \<Rightarrow> race_state \<Rightarrow> shadow_entry \<Rightarrow> bool" where
  "read_room env thread st e =
     (if record_pointer (shadow_word st e)
      then (case records st (shadow_word st e) of None \<Rightarrow> False | Some rc \<Rightarrow> 0 < capacity rc)
      else wide_access env thread \<longrightarrow> fst (history st e) \<noteq> [])"

text \<open>A compact word checks the write a second time when it has to be expanded for a reader.\<close>

definition reported_reads ::
  "race_env \<Rightarrow> thread_id_t \<Rightarrow> uint64 \<Rightarrow> race_state \<Rightarrow> shadow_entry \<Rightarrow> data_race list" where
  "reported_reads env thread addr st e =
     (if \<not> record_pointer (shadow_word st e) \<and> \<not> wide_access env thread
         \<and> unsubsumed env thread (history st e) \<noteq> []
      then read_races env thread addr (history st e) @ read_races env thread addr (history st e)
      else read_races env thread addr (history st e))"

lemma expanded_read:
  assumes ok: "race_store_ok st" and fresh: "fresh_pointer p st"
    and compact: "\<not> record_pointer (shadow_word st e)" and reads: "fst (history st e) \<noteq> []"
    and out: "out = fullRaceCheckRead env thread addr e (env_cv env thread) (expandRecord p e st)"
  shows "reports env out (read_races env thread addr (history st e)) st"
    and "out = Running st' \<Longrightarrow> read_effect env thread e st st'"
proof -
  define st1 where "st1 = expandRecord p e st"
  note X = expand_record [OF ok fresh compact, folded st1_def]
  have ptr: "record_pointer (shadow_word st1 e)" using X(4) fresh by (simp add: fresh_pointer_def)
  have nz: "read_clock_of (shadow_word st e) \<noteq> 0"
    using reads history_compact [OF compact] by (simp split: if_splits)
  obtain rc where rc: "records st1 (shadow_word st1 e) = Some rc" and cap: "0 < capacity rc"
    using nz by (simp add: st1_def expandRecord_def Let_def INITCAPACITY_def)
  note F = full_read [OF X(1) ptr rc cap out [folded st1_def]]
  show "reports env out (read_races env thread addr (history st e)) st"
    using F(1) X(2,3) by (simp add: reports_def)
  show "read_effect env thread e st st'" if "out = Running st'"
    using F(2) [OF that] by (simp add: read_effect_def X(2))
qed

lemma read_at_exact:
  assumes ok: "race_store_ok st" and fresh: "fresh_pointer p st" and room: "read_room env thread st e"
    and clock: "getClock (env_cv env thread) thread \<noteq> 0"
    and out_def: "out = race_check_read_at p env thread addr e st"
  shows "reports env out (reported_reads env thread addr st e) st
    \<and> (\<forall>st'. out = Running st' \<longrightarrow> read_effect env thread e st st')"
proof -
  define sv where "sv = shadow_word st e"
  define c where "c = getClock (env_cv env thread) thread"
  consider (full) "record_pointer sv" | (wide) "\<not> record_pointer sv" "wide_access env thread"
    | (narrow) "\<not> record_pointer sv" "\<not> wide_access env thread"
    by blast
  then show ?thesis
  proof cases
    case full
    then have out: "out = fullRaceCheckRead env thread addr e (env_cv env thread) st"
      by (simp add: out_def race_check_read_at_def sv_def record_pointer_def Let_def)
    obtain rc where rc: "records st (shadow_word st e) = Some rc" "0 < capacity rc"
      using room full by (auto simp: read_room_def sv_def split: option.splits)
    have "reported_reads env thread addr st e = read_races env thread addr (history st e)"
      using full by (simp add: reported_reads_def sv_def)
    then show ?thesis using full_read [OF ok full [unfolded sv_def] rc out] by simp
  next
    case wide
    then have out: "out = fullRaceCheckRead env thread addr e (env_cv env thread) (expandRecord p e st)"
      by (auto simp: out_def race_check_read_at_def sv_def record_pointer_def Let_def
          wide_access_def)
    have reads: "fst (history st e) \<noteq> []" using room wide by (simp add: read_room_def sv_def)
    have "reported_reads env thread addr st e = read_races env thread addr (history st e)"
      using wide by (simp add: reported_reads_def sv_def)
    then show ?thesis using expanded_read [OF ok fresh wide(1) [unfolded sv_def] reads out] by simp
  next
    case narrow
    define w where "w = ENCODEOP thread c (write_thread_of sv) (write_clock_of sv)"
    define racy where
      "racy = clock_may_race (env_cv env thread) thread (read_clock_of sv) (read_thread_of sv)"
    have small: "thread < 2 ^ 8" "unat c < 2 ^ 23"
      using not_wide narrow(2) unfolding wide_access_def c_def by blast+
    have out: "out = and_then (check_against env thread addr (env_cv env thread) True False
                 (write_clock_of sv) (write_thread_of sv) st) (\<lambda>st1.
              if racy then fullRaceCheckRead env thread addr e (env_cv env thread) (expandRecord p e st1)
              else Running (set_shadow e w st1))"
      using narrow
      unfolding out_def race_check_read_at_def c_def w_def racy_def Let_def sv_def
      by (auto simp: record_pointer_def wide_access_def)
    note h = history_compact [OF narrow(1) [unfolded sv_def], folded sv_def]
    have rr: "races_with env thread addr True False [(write_clock_of sv, write_thread_of sv)]
        = read_races env thread addr (history st e)"
      by (simp add: read_races_def h)
    have un: "unsubsumed env thread (history st e)
        = (if racy then [(read_clock_of sv, read_thread_of sv)] else [])"
      by (auto simp: unsubsumed_def h racy_def may_race_with_def clock_may_race_def)
    note C = check_against_reports [of env thread addr True False "write_clock_of sv"
        "write_thread_of sv" st, unfolded rr]
    note M = check_against_memory [of env thread addr "env_cv env thread" True False
        "write_clock_of sv" "write_thread_of sv" st]
    show ?thesis
    proof (cases racy)
      case True
      have step: "reports env (fullRaceCheckRead env thread addr e (env_cv env thread)
              (expandRecord p e st1)) (read_races env thread addr (history st e)) st1
          \<and> (fullRaceCheckRead env thread addr e (env_cv env thread) (expandRecord p e st1) = Running st'
               \<longrightarrow> read_effect env thread e st st')"
        if m: "memory_of st1 = memory_of st" for st1 st'
      proof -
        have sw: "shadow_word st1 x = shadow_word st x" for x using m by (rule memory_of_fields)
        have hs: "history st1 x = history st x" for x using m by (rule history_memory)
        have np: "\<not> record_pointer (shadow_word st1 e)" using narrow(1) by (simp add: sw sv_def)
        have fr: "fresh_pointer p st1"
          using fresh by (simp add: fresh_pointer_def memory_of_fields(1) [OF m])
        have rd: "fst (history st1 e) \<noteq> []"
          using True by (auto simp: hs h racy_def clock_may_race_def)
        note E = expanded_read [OF store_ok_memory [OF m, THEN iffD2, OF ok] fr np rd refl]
        show ?thesis using E(1) [of env thread addr] E(2) [of env thread addr st']
          by (simp add: hs read_effect_def)
      qed
      have "reports env out (read_races env thread addr (history st e)
              @ read_races env thread addr (history st e)) st"
        unfolding out by (rule reports_and_then [OF C]) (use True step M in auto)
      moreover have "reported_reads env thread addr st e
          = read_races env thread addr (history st e) @ read_races env thread addr (history st e)"
        using narrow True un by (simp add: reported_reads_def sv_def)
      ultimately show ?thesis using True step M by (auto simp: out and_then_Running)
    next
      case False
      have "reports env out (read_races env thread addr (history st e) @ []) st"
        unfolding out by (rule reports_and_then [OF C]) (simp add: False reports_Running)
      moreover have "reported_reads env thread addr st e = read_races env thread addr (history st e)"
        using False un by (simp add: reported_reads_def)
      moreover have "read_effect env thread e st st'" if run: "out = Running st'" for st'
      proof -
        from run False obtain st1 where
          m: "memory_of st1 = memory_of st" and st': "st' = set_shadow e w st1"
          using M by (auto simp: out and_then_Running)
        have ok1: "race_store_ok st1" using ok store_ok_memory [OF m] by simp
        have np: "\<not> record_pointer w" by (simp add: w_def ENCODEOP_not_pointer)
        note F = ENCODEOP_fields [OF small write_fields_small(2,1) [of sv], folded w_def]
        note S = write_shadow [OF ok1 np st']
        show ?thesis
          using S clock history_memory [OF m] un False
          by (simp add: read_effect_def F own_access_def c_def h del: split_paired_All)
      qed
      ultimately show ?thesis by simp
    qed
  qed
qed

text \<open>
  C13: a non-atomic read reports a race with the recorded write exactly when its clock vector
  does not cover it (twice when a compact word must be expanded because it holds another read
  the new one does not cover); afterwards the reads of the address are the earlier ones it does
  not cover and itself, the write is the same, and no other address has changed. The in-place
  compaction and the growth of the arrays never touch memory outside them.
\<close>

theorem race_check_read_exact:
  assumes "race_store_ok st" and "fresh_pointer p st" and "read_room env thread st e"
    and "getClock (env_cv env thread) thread \<noteq> 0"
    and "lookupAddressEntry f1 f2 addr st = (e, st1)"
  shows "log_of (raceCheckRead f1 f2 p env thread addr st)
           = Some (queue_races env (reported_reads env thread addr st e) (race_log st)) \<and>
    (\<forall>st'. raceCheckRead f1 f2 p env thread addr st = Running st' \<longrightarrow>
           race_store_ok st'
           \<and> history st' e = (unsubsumed env thread (history st e) @ [own_access env thread],
                              snd (history st e))
           \<and> (\<forall>e'. e' \<noteq> e \<longrightarrow> history st' e' = history st e'))"
proof (intro conjI [of "log_of _ = _"] allI impI)
  note L = lookup_history [OF assms(5)]
  have same: "read_room env thread st1 e = read_room env thread st e"
    "reported_reads env thread addr st1 e = reported_reads env thread addr st e"
    by (simp_all add: read_room_def reported_reads_def L lookup_frame [OF assms(5)])
  have ok: "race_store_ok st1" "fresh_pointer p st1" "read_room env thread st1 e"
    using assms(1,2,3) L same by simp_all
  have out: "raceCheckRead f1 f2 p env thread addr st = race_check_read_at p env thread addr e st1"
    by (simp add: raceCheckRead_def assms(5))
  note R = read_at_exact [OF ok assms(4) out]
  show "log_of (raceCheckRead f1 f2 p env thread addr st)
           = Some (queue_races env (reported_reads env thread addr st e) (race_log st))"
    using R lookup_frame(3) [OF assms(5)] unfolding reports_def same by simp
  show "race_store_ok st'
           \<and> history st' e = (unsubsumed env thread (history st e) @ [own_access env thread],
                              snd (history st e))
           \<and> (\<forall>e'. e' \<noteq> e \<longrightarrow> history st' e' = history st e')"
    if "raceCheckRead f1 f2 p env thread addr st = Running st'" for st'
    using R that unfolding read_effect_def L(2) by blast
qed

theorem race_check_read_exact_witness:
  "\<exists>race. log_of (raceCheckRead 96 112 64 sample_race_env 2 100 sample_races)
            = Some (False, [race], []) \<and> isoldwrite race \<and> \<not> isnewwrite race"
proof -
  obtain st1 where L: "lookupAddressEntry 96 112 100 sample_races = (sample_entry, st1)"
    using sample_races_facts(5) by blast
  have room: "read_room sample_race_env 2 sample_races sample_entry"
    by (simp add: read_room_def sample_races_facts wide_access_def race_limits)
  have clock: "getClock (env_cv sample_race_env 2) 2 \<noteq> 0" by simp
  show ?thesis
    using conjunct1 [OF race_check_read_exact, OF sample_races_facts(1,3) room clock L]
    by (simp add: sample_races_facts reported_reads_def unsubsumed_def read_races_def
        races_with_def may_race_with_def clock_may_race_def race_of_def)
qed

text \<open>
  C39: the first non-atomic read of an address by a thread whose id or clock does not fit the
  compact form writes outside its arrays: expanding a word without a read leaves the capacity
  at 0, and doubling 0 does not make room.
\<close>

theorem wide_first_read_out_of_bounds:
  assumes "lookupAddressEntry f1 f2 addr st = (e, st1)" and "shadow_word st e = 0"
    and "thread > MAXTHREADID \<or> getClock (env_cv env thread) thread > MAXWRITEVECTOR"
  shows "raceCheckRead f1 f2 p env thread addr st = OutOfBounds"
proof -
  have sw: "shadow_word st1 e = 0" using lookup_history(1) [OF assms(1)] assms(2) by simp
  have z: "read_clock_of 0 = 0" "write_clock_of 0 = 0"
    by (simp_all add: READVECTOR_def WRITEVECTOR_def)
  define st2 where "st2 = expandRecord p e st1"
  have st2: "shadow_word st2 e = p" "\<exists>t. records st2 p = Some \<lparr>readClock = [], readThread = [],
      capacity = 0, numReads = 0, writeThread = t, writeClock = 0\<rparr>"
    by (simp_all add: st2_def expandRecord_def sw z Let_def)
  then obtain t where rc: "records st2 p = Some \<lparr>readClock = [], readThread = [],
      capacity = 0, numReads = 0, writeThread = t, writeClock = 0\<rparr>"
    by blast
  have "race_check_read_at p env thread addr e st1
      = fullRaceCheckRead env thread addr e (env_cv env thread) st2"
    using assms(3) by (auto simp: race_check_read_at_def sw st2_def)
  also have "\<dots> = OutOfBounds"
    by (simp add: fullRaceCheckRead_def st2(1) rc check_against_def clock_may_race_def
        grow_record_def)
  finally show ?thesis by (simp add: raceCheckRead_def assms(1))
qed

theorem wide_first_read_out_of_bounds_witness:
  "raceCheckRead 96 112 64 sample_race_env 255 100 (initRaceDetector 16 32) = OutOfBounds"
proof -
  obtain e st1 where L: "lookupAddressEntry 96 112 100 (initRaceDetector 16 32) = (e, st1)"
    by (cases "lookupAddressEntry 96 112 100 (initRaceDetector 16 32)")
  show ?thesis
    by (rule wide_first_read_out_of_bounds [OF L])
      (simp_all add: initRaceDetector_def shadow_word_def race_limits)
qed

end
