(* ===== verification/ExecState.thy ===== *)
theory ExecState
  imports CycleQueries Scheduler DataRace
begin

text \<open>
  \<open>execution.cc\<close>: the state of a \<open>ModelExecution\<close> and its elementary operations: thread and
  sequence numbers, the flags that make a trace infeasible, the lists of actions per object and
  thread, and the searches backwards through them.

  The members of \<open>ModelExecution\<close> and of \<open>model_snapshot_members\<close> (\<open>priv\<close>) are fields of one
  record. Objects shared by pointer live in stores: \<open>acts\<close> (actions), \<open>proms\<close> (promises),
  \<open>mutexes\<close>, and the thread objects in \<open>thread_map\<close>, whose index is the thread id.
  \<open>obj_map\<close>, \<open>condvar_waiters_map\<close> and \<open>obj_thrd_map\<close> are maps: theory \<open>HashTable\<close> shows that
  the hash tables behind them are. \<open>thrd_priv\<close> and \<open>thread_at\<close> give the thread behind a
  \<open>thrd_t\<close> and behind the address of a thread object; \<open>next_aid\<close> and \<open>next_pid\<close> are what
  \<open>new ModelAction\<close> and \<open>new Promise\<close> return next.

  A failed \<open>ASSERT\<close>, a null pointer that is followed and an index out of range end an operation
  with \<open>None\<close>. Pointers stored in the lists are never dangling, so reading an action through
  one is the total function \<open>A\<close>.
\<close>

section \<open>State\<close>

record thread =
  th_parent :: "thread_id_t option"
  th_creation :: "aid option"
  th_pending :: "aid option"
  th_state :: thread_state
  last_action_val :: uint64
  is_model_thread :: bool

record mutex_state =
  locked :: "thread_id_t option"
  alloc_tid :: thread_id_t
  alloc_clock :: modelclock_t

record release_seq =
  rs_acquire :: aid
  rs_read :: aid
  rs_rf :: "aid option"
  rs_release :: "aid option"
  rs_writes :: "aid list"

datatype bug_message = RaceBug data_race | MessageBug string

record exec =
  params :: model_params
  acts :: action_store
  proms :: "pid \<rightharpoonup> promise"
  mutexes :: "uint64 \<rightharpoonup> mutex_state"
  thrd_priv :: "uint64 \<Rightarrow> thread_id_t"
  thread_at :: "uint64 \<Rightarrow> thread_id_t"
  scheduler :: scheduler
  node_stack :: node_stack
  action_trace :: "aid list"
  thread_map :: "thread option list"
  obj_map :: "uint64 \<rightharpoonup> aid list"
  condvar_waiters_map :: "uint64 \<rightharpoonup> aid list"
  obj_thrd_map :: "uint64 \<rightharpoonup> aid list list"
  promises :: "pid list"
  futurevalues :: "(aid \<times> aid) list"
  pending_rel_seqs :: "release_seq list"
  thrd_last_action :: "aid option list"
  thrd_last_fence_release :: "aid option list"
  mo_graph :: cycle_graph
  races :: race_state
  next_thread_id :: nat
  used_sequence_numbers :: modelclock_t
  next_backtrack :: "aid option"
  bugs :: "bug_message list"
  failed_promise :: bool
  hard_failed_promise :: bool
  too_many_reads :: bool
  no_valid_reads :: bool
  bad_synchronization :: bool
  bad_sc_read :: bool
  asserted :: bool
  next_aid :: aid
  next_pid :: pid

text \<open>Access through pointers.\<close>

definition A :: "exec \<Rightarrow> aid \<Rightarrow> model_action" where
  "A s a = the (acts s a)"

definition upd_act :: "aid \<Rightarrow> (model_action \<Rightarrow> model_action) \<Rightarrow> exec \<Rightarrow> exec" where
  "upd_act a f s = s\<lparr>acts := (acts s)(a \<mapsto> f (A s a))\<rparr>"

definition earlier :: "exec \<Rightarrow> aid \<Rightarrow> aid \<Rightarrow> bool" where
  "earlier s a b = act_less (A s a) (A s b)"

definition happens :: "exec \<Rightarrow> aid \<Rightarrow> aid \<Rightarrow> bool" where
  "happens s a b = happens_before (A s a) (A s b)"

definition node_at :: "exec \<Rightarrow> nat \<Rightarrow> node option" where
  "node_at s i = (if i < length (node_list (node_stack s)) then Some (node_list (node_stack s) ! i) else None)"

definition get_node :: "exec \<Rightarrow> aid \<Rightarrow> node option" where
  "get_node s a = do { i \<leftarrow> act_node (A s a); node_at s i }"

text \<open>The parent of a node is the node below it in the stack.\<close>

definition get_node_parent :: "exec \<Rightarrow> aid \<Rightarrow> node option option" where
  "get_node_parent s a = do { i \<leftarrow> act_node (A s a);
     Some (if i = 0 then None else node_at s (i - 1)) }"

definition put_node :: "nat \<Rightarrow> node \<Rightarrow> exec \<Rightarrow> exec" where
  "put_node i n s =
     s\<lparr>node_stack := (node_stack s)\<lparr>node_list := (node_list (node_stack s))[i := n]\<rparr>\<rparr>"

definition upd_node :: "aid \<Rightarrow> (node \<Rightarrow> node) \<Rightarrow> exec \<Rightarrow> exec option" where
  "upd_node a f s = do { i \<leftarrow> act_node (A s a); n \<leftarrow> node_at s i; Some (put_node i (f n) s) }"

section \<open>Construction, numbers and threads\<close>

definition INITIAL_THREAD_ID :: nat where "INITIAL_THREAD_ID = 0"

definition get_next_id :: "exec \<Rightarrow> thread_id_t \<times> exec" where
  "get_next_id s = (next_thread_id s, s\<lparr>next_thread_id := next_thread_id s + 1\<rparr>)"

definition get_num_threads :: "exec \<Rightarrow> nat" where
  "get_num_threads s = next_thread_id s"

definition get_next_seq_num :: "exec \<Rightarrow> modelclock_t \<times> exec" where
  "get_next_seq_num s =
     (used_sequence_numbers s + 1, s\<lparr>used_sequence_numbers := used_sequence_numbers s + 1\<rparr>)"

definition get_thread :: "exec \<Rightarrow> thread_id_t \<Rightarrow> thread option" where
  "get_thread s t = (if t < length (thread_map s) then thread_map s ! t else None)"

definition get_thread_of :: "exec \<Rightarrow> aid \<Rightarrow> thread option" where
  "get_thread_of s a = get_thread s (tid (A s a))"

definition upd_thread :: "thread_id_t \<Rightarrow> (thread \<Rightarrow> thread) \<Rightarrow> exec \<Rightarrow> exec option" where
  "upd_thread t f s = do { th \<leftarrow> get_thread s t;
     Some (s\<lparr>thread_map := (thread_map s)[t := Some (f th)]\<rparr>) }"

definition model_thread_in :: "exec \<Rightarrow> thread_id_t \<Rightarrow> bool" where
  "model_thread_in s t = (case get_thread s t of None \<Rightarrow> False | Some th \<Rightarrow> is_model_thread th)"

definition add_thread_to :: "thread_id_t \<Rightarrow> thread \<Rightarrow> exec \<Rightarrow> exec option" where
  "add_thread_to t th s =
     (let tm = (if t \<ge> length (thread_map s) then vec_resize (thread_map s) (t + 1) None
                else thread_map s);
          s1 = s\<lparr>thread_map := tm[t := Some th]\<rparr>
      in if \<not> is_model_thread th
         then do { (sch, disabled) \<leftarrow> sched_add_thread (model_thread_in s1) t (scheduler s1);
                   Some (s1\<lparr>scheduler := sch\<rparr>) }
         else Some s1)"

text \<open>The two constructors of \<open>Thread\<close>; the context of a user thread is the operating system's.\<close>

definition Thread_model :: thread where
  "Thread_model = \<lparr>th_parent = None, th_creation = None, th_pending = None,
     th_state = THREAD_READY, last_action_val = 0, is_model_thread = True\<rparr>"

definition Thread_new :: "thread_id_t \<Rightarrow> thread" where
  "Thread_new parent = \<lparr>th_parent = Some parent, th_creation = None, th_pending = None,
     th_state = THREAD_CREATED, last_action_val = VALUE_NONE, is_model_thread = False\<rparr>"

definition thread_complete :: "thread \<Rightarrow> thread option" where
  "thread_complete th =
     (if th_state th = THREAD_COMPLETED then None else Some (th\<lparr>th_state := THREAD_COMPLETED\<rparr>))"

definition ModelExecution_new ::
  "model_params \<Rightarrow> action_store \<Rightarrow> (uint64 \<Rightarrow> thread_id_t) \<Rightarrow> (uint64 \<Rightarrow> thread_id_t) \<Rightarrow>
   node_stack \<Rightarrow> race_state \<Rightarrow> aid \<Rightarrow> pid \<Rightarrow> exec option" where
  "ModelExecution_new ps as priv_of at ns rs na np =
     (let s0 = \<lparr>params = ps, acts = as, proms = Map.empty, mutexes = Map.empty,
            thrd_priv = priv_of, thread_at = at, scheduler = Scheduler_new, node_stack = ns,
            action_trace = [], thread_map = [None, None], obj_map = Map.empty,
            condvar_waiters_map = Map.empty, obj_thrd_map = Map.empty, promises = [],
            futurevalues = [], pending_rel_seqs = [], thrd_last_action = [None],
            thrd_last_fence_release = [], mo_graph = CycleGraph_new, races = rs,
            next_thread_id = INITIAL_THREAD_ID, used_sequence_numbers = 0,
            next_backtrack = None, bugs = [], failed_promise = False,
            hard_failed_promise = False, too_many_reads = False, no_valid_reads = False,
            bad_synchronization = False, bad_sc_read = False, asserted = False,
            next_aid = na, next_pid = np\<rparr>;
          (t, s1) = get_next_id s0
      in add_thread_to t Thread_model s1)"

definition exec_is_enabled :: "exec \<Rightarrow> thread_id_t \<Rightarrow> bool" where
  "exec_is_enabled s t = sched_is_enabled (scheduler s) t"

definition get_promise_number :: "exec \<Rightarrow> pid \<Rightarrow> int" where
  "get_promise_number s p =
     (let i = length (takeWhile (\<lambda>q. q \<noteq> p) (promises s))
      in if i < length (promises s) then int i else -1)"

section \<open>Feasibility and the end of an execution\<close>

definition set_bad_synchronization :: "exec \<Rightarrow> exec" where
  "set_bad_synchronization s = s\<lparr>bad_synchronization := True\<rparr>"
definition set_bad_sc_read :: "exec \<Rightarrow> exec" where
  "set_bad_sc_read s = s\<lparr>bad_sc_read := True\<rparr>"
definition set_assert :: "exec \<Rightarrow> exec" where
  "set_assert s = s\<lparr>asserted := True\<rparr>"
definition has_asserted :: "exec \<Rightarrow> bool" where
  "has_asserted s = asserted s"
definition have_bug_reports :: "exec \<Rightarrow> bool" where
  "have_bug_reports s \<longleftrightarrow> bugs s \<noteq> []"
definition get_bugs :: "exec \<Rightarrow> bug_message list" where
  "get_bugs s = bugs s"

definition promises_expired :: "exec \<Rightarrow> bool" where
  "promises_expired s = list_ex (\<lambda>p. fv_expiration (fv (the (proms s p))) < used_sequence_numbers s)
     (promises s)"

definition is_infeasible :: "exec \<Rightarrow> bool" where
  "is_infeasible s \<longleftrightarrow> checkForCycles (mo_graph s) \<or> no_valid_reads s \<or> too_many_reads s
     \<or> bad_synchronization s \<or> bad_sc_read s \<or> hard_failed_promise s \<or> promises_expired s"

definition is_feasible_prefix_ignore_relseq :: "exec \<Rightarrow> bool" where
  "is_feasible_prefix_ignore_relseq s \<longleftrightarrow>
     \<not> is_infeasible s \<and> length (promises s) = 0 \<and> \<not> failed_promise s"

definition isfeasibleprefix :: "exec \<Rightarrow> bool" where
  "isfeasibleprefix s \<longleftrightarrow> length (pending_rel_seqs s) = 0 \<and> is_feasible_prefix_ignore_relseq s"

definition assert_bug :: "bug_message \<Rightarrow> exec \<Rightarrow> bool \<times> exec" where
  "assert_bug msg s =
     (let s1 = s\<lparr>bugs := bugs s @ [msg]\<rparr>
      in if isfeasibleprefix s1 then (True, set_assert s1) else (False, s1))"

text \<open>The loop of \<open>is_deadlocked\<close>.\<close>

fun deadlock_loop :: "exec \<Rightarrow> nat list \<Rightarrow> bool \<Rightarrow> bool option" where
  "deadlock_loop s [] blocking_threads = Some blocking_threads"
| "deadlock_loop s (i # is) blocking_threads =
     (if exec_is_enabled s i then Some False
      else do { t \<leftarrow> get_thread s i;
                deadlock_loop s is (if \<not> is_model_thread t \<and> th_pending t \<noteq> None
                                    then True else blocking_threads) })"

definition is_deadlocked :: "exec \<Rightarrow> bool option" where
  "is_deadlocked s = deadlock_loop s [0 ..< get_num_threads s] False"

fun yieldblock_loop :: "exec \<Rightarrow> nat list \<Rightarrow> bool option" where
  "yieldblock_loop s [] = Some False"
| "yieldblock_loop s (i # is) =
     do { t \<leftarrow> get_thread s i;
          if (case th_pending t of None \<Rightarrow> False | Some p \<Rightarrow> is_yield (A s p)) then Some True
          else yieldblock_loop s is }"

definition is_yieldblocked :: "exec \<Rightarrow> bool option" where
  "is_yieldblocked s =
     (if \<not> yieldblock (params s) then Some False
      else yieldblock_loop s [0 ..< get_num_threads s])"

definition is_complete_execution :: "exec \<Rightarrow> bool option" where
  "is_complete_execution s =
     do { y \<leftarrow> is_yieldblocked s;
          if y then Some False
          else Some (\<not> list_ex (exec_is_enabled s) [0 ..< get_num_threads s]) }"

definition too_many_steps :: "exec \<Rightarrow> bool" where
  "too_many_steps s \<longleftrightarrow>
     bound (params s) \<noteq> 0 \<and> unat (used_sequence_numbers s) > bound (params s)"

section \<open>Searching the lists of actions\<close>

definition get_actions_on_obj :: "exec \<Rightarrow> uint64 \<Rightarrow> thread_id_t \<Rightarrow> aid list option" where
  "get_actions_on_obj s obj t =
     (case obj_thrd_map s obj of
        None \<Rightarrow> None
      | Some wrv \<Rightarrow> if t < length wrv then Some (wrv ! t) else None)"

definition get_last_action :: "exec \<Rightarrow> thread_id_t \<Rightarrow> aid option" where
  "get_last_action s t = (if t < length (thrd_last_action s) then thrd_last_action s ! t else None)"

definition get_last_fence_release :: "exec \<Rightarrow> thread_id_t \<Rightarrow> aid option" where
  "get_last_fence_release s t =
     (if t < length (thrd_last_fence_release s) then thrd_last_fence_release s ! t else None)"

text \<open>The reverse iterator moved to \<open>x\<close>; running past the end is an error.\<close>

definition back_to :: "aid \<Rightarrow> aid list \<Rightarrow> aid list option" where
  "back_to x xs = (case dropWhile (\<lambda>a. a \<noteq> x) (rev xs) of [] \<Rightarrow> None | y # ys \<Rightarrow> Some (y # ys))"

text \<open>The actions before \<open>x\<close>, the most recent first.\<close>

definition before_in :: "aid \<Rightarrow> aid list \<Rightarrow> aid list option" where
  "before_in x xs = map_option tl (back_to x xs)"

definition get_last_seq_cst_conflict :: "exec \<Rightarrow> aid \<Rightarrow> aid option option" where
  "get_last_seq_cst_conflict s cur =
     (if \<not> is_seqcst (A s cur) then None
      else do { xs \<leftarrow> obj_map s (location (A s cur));
                older \<leftarrow> before_in cur xs;
                Some (find (\<lambda>a. (is_write (A s cur) \<and> is_seqcst (A s a))
                               \<or> (is_read (A s cur) \<and> is_write (A s a) \<and> is_seqcst (A s a))) older) })"

definition get_last_seq_cst_write :: "exec \<Rightarrow> aid \<Rightarrow> aid option option" where
  "get_last_seq_cst_write s cur =
     do { xs \<leftarrow> obj_map s (location (A s cur));
          older \<leftarrow> before_in cur xs;
          Some (find (\<lambda>a. is_write (A s a) \<and> is_seqcst (A s a)) older) }"

definition get_last_seq_cst_fence :: "exec \<Rightarrow> thread_id_t \<Rightarrow> aid option \<Rightarrow> aid option option" where
  "get_last_seq_cst_fence s t before_fence =
     (case obj_map s FENCE_LOCATION of
        None \<Rightarrow> Some None
      | Some xs \<Rightarrow>
          do { older \<leftarrow> (case before_fence of None \<Rightarrow> Some (rev xs) | Some f \<Rightarrow> before_in f xs);
               Some (find (\<lambda>a. is_fence (A s a) \<and> t = tid (A s a) \<and> is_seqcst (A s a)) older) })"

definition get_last_unlock :: "exec \<Rightarrow> aid \<Rightarrow> aid option option" where
  "get_last_unlock s cur =
     do { xs \<leftarrow> obj_map s (location (A s cur));
          Some (find (\<lambda>a. is_unlock (A s a) \<or> is_wait (A s a)) (rev xs)) }"

definition get_parent_action :: "exec \<Rightarrow> thread_id_t \<Rightarrow> aid option option" where
  "get_parent_action s t =
     (case get_last_action s t of
        Some a \<Rightarrow> Some (Some a)
      | None \<Rightarrow> do { th \<leftarrow> get_thread s t; Some (th_creation th) })"

definition get_cv :: "exec \<Rightarrow> thread_id_t \<Rightarrow> clock_vector option" where
  "get_cv s t = do { p \<leftarrow> get_parent_action s t; a \<leftarrow> p; cv (A s a) }"

text \<open>\<open>Thread::waiting_on\<close>, and the chain of \<open>is_waiting_on\<close>, which may be circular.\<close>

definition waiting_on :: "exec \<Rightarrow> thread_id_t \<Rightarrow> thread_id_t option option" where
  "waiting_on s t =
     do { th \<leftarrow> get_thread s t;
          case th_pending th of
            None \<Rightarrow> Some None
          | Some p \<Rightarrow>
              (if act_type (A s p) = THREAD_JOIN
               then Some (get_thread_operand (thrd_priv s) (thread_at s) (A s p))
               else if is_lock (A s p)
               then do { loc \<leftarrow> get_mutex (A s p); m \<leftarrow> mutexes s loc; Some (locked m) }
               else Some None) }"

partial_function (option) is_waiting_on :: "exec \<Rightarrow> thread_id_t \<Rightarrow> thread_id_t \<Rightarrow> bool option" where
  "is_waiting_on s this t =
     Option.bind (waiting_on s this) (\<lambda>w.
       case w of None \<Rightarrow> Some False
       | Some x \<Rightarrow> (if x = t then Some True else is_waiting_on s x t))"

end
