(* ===== verification/ExecQueries.thy ===== *)
theory ExecQueries
  imports ExecState
begin

text \<open>
  \<open>execution.cc\<close>: the questions a \<open>ModelExecution\<close> asks of its trace: which sleeping thread an
  action wakes, which earlier action it conflicts with (and the backtracking points that
  follow), whether a future value may be sent back to a read, whether a read is recent enough.
  None of them changes the modification order. Chains of reads-from pointers may in principle
  be circular while promises are open, so the loops over them are partial functions.
\<close>

section \<open>Sleep sets\<close>

definition should_wake_up :: "exec \<Rightarrow> aid \<Rightarrow> thread_id_t \<Rightarrow> bool option" where
  "should_wake_up s cur t = do {
     th \<leftarrow> get_thread s t;
     asleep \<leftarrow> th_pending th;
     if is_rmwr (A s cur) then Some False
     else if could_synchronize_with (A s asleep) (A s cur) then Some True
     else if is_fence (A s asleep) \<and> is_acquire (A s asleep) \<and> is_release (A s cur) then Some True
     else if is_read (A s asleep) \<and> is_acquire (A s asleep) \<and> same_var (A s cur) (A s asleep)
             \<and> is_write (A s cur)
     then (case get_last_fence_release s (tid (A s cur)) of
             None \<Rightarrow> Some False
           | Some fence_release \<Rightarrow>
               do { lst \<leftarrow> get_last_action s t; Some (earlier s lst fence_release) })
     else Some False }"

definition wake_up_one :: "aid \<Rightarrow> nat \<Rightarrow> exec \<Rightarrow> exec option" where
  "wake_up_one cur i s = do {
     asleep \<leftarrow> is_sleep_set (scheduler s) i;
     if asleep
     then do { wake \<leftarrow> should_wake_up s cur i;
               Some (if wake then s\<lparr>scheduler := fst (remove_sleep i (scheduler s))\<rparr> else s) }
     else Some s }"

definition wake_up_sleeping_actions :: "aid \<Rightarrow> exec \<Rightarrow> exec option" where
  "wake_up_sleeping_actions cur s = fold_opt (wake_up_one cur) [0 ..< get_num_threads s] s"

section \<open>Conflicts\<close>

text \<open>
  The scan for a load-acquire or a load before a fence-acquire; \<open>None\<close> is the early
  \<open>return NULL\<close>. The state is \<open>acquire_fences\<close>, \<open>prior_loads\<close>, \<open>found_acquire_fences\<close>.
\<close>

fun fence_scan ::
  "exec \<Rightarrow> aid \<Rightarrow> aid list \<Rightarrow> aid option list \<times> aid option list \<times> bool \<Rightarrow>
   (aid option list \<times> aid option list) option" where
  "fence_scan s act [] (fences, loads, found) = Some (fences, loads)"
| "fence_scan s act (prev # older) (fences, loads, found) =
     (if same_thread (A s act) (A s prev) then fence_scan s act older (fences, loads, found)
      else let t = tid (A s prev);
               hit = is_read (A s prev) \<and> same_var (A s act) (A s prev)
           in if hit \<and> is_acquire (A s prev) \<and> \<not> found then None
              else let loads' = (if hit \<and> \<not> is_acquire (A s prev) then loads[t := Some prev] else loads)
                   in if is_acquire (A s prev) \<and> is_fence (A s prev) \<and> fences ! t = None
                      then fence_scan s act older (fences[t := Some prev], loads', True)
                      else fence_scan s act older (fences, loads', found))"

definition latest_fence :: "exec \<Rightarrow> aid option list \<Rightarrow> aid option list \<Rightarrow> aid option" where
  "latest_fence s fences loads =
     fold (\<lambda>i latest.
       (case (fences ! i, loads ! i) of
          (Some f, Some l) \<Rightarrow>
            (case latest of
               None \<Rightarrow> Some f
             | Some b \<Rightarrow> if earlier s b f then Some f else latest)
        | _ \<Rightarrow> latest))
       [0 ..< length fences] None"

definition get_last_fence_conflict :: "exec \<Rightarrow> aid \<Rightarrow> aid option option" where
  "get_last_fence_conflict s act =
     (if \<not> is_write (A s act) then Some None
      else case (if is_release (A s act) then Some act
                 else get_last_fence_release s (tid (A s act))) of
             None \<Rightarrow> Some None
           | Some last_release \<Rightarrow>
               do { older \<leftarrow> back_to last_release (action_trace s);
                    let n = get_num_threads s;
                    case fence_scan s act older (replicate n None, replicate n None, False) of
                      None \<Rightarrow> Some None
                    | Some (fences, loads) \<Rightarrow> Some (latest_fence s fences loads) })"

text \<open>The most recent action on the object that satisfies a test.\<close>

definition find_back :: "exec \<Rightarrow> uint64 \<Rightarrow> (aid \<Rightarrow> bool) \<Rightarrow> aid option option" where
  "find_back s loc p = do { xs \<leftarrow> obj_map s loc; Some (find p (rev xs)) }"

definition conflict_of_access :: "exec \<Rightarrow> aid \<Rightarrow> aid option option" where
  "conflict_of_access s act = do {
     ret \<leftarrow> find_back s (location (A s act))
              (\<lambda>prev. prev \<noteq> act \<and> could_synchronize_with (A s prev) (A s act));
     ret2 \<leftarrow> get_last_fence_conflict s act;
     Some (case (ret, ret2) of
             (_, None) \<Rightarrow> ret
           | (None, _) \<Rightarrow> ret2
           | (Some r, Some r2) \<Rightarrow> if earlier s r r2 then ret2 else ret) }"

definition get_last_conflict :: "exec \<Rightarrow> aid \<Rightarrow> aid option option" where
  "get_last_conflict s act =
     (let a = A s act; loc = location a
      in case act_type a of
           ATOMIC_FENCE \<Rightarrow> if is_seqcst a then conflict_of_access s act else Some None
         | ATOMIC_READ \<Rightarrow> conflict_of_access s act
         | ATOMIC_WRITE \<Rightarrow> conflict_of_access s act
         | ATOMIC_RMW \<Rightarrow> conflict_of_access s act
         | ATOMIC_LOCK \<Rightarrow> find_back s loc (\<lambda>prev. is_conflicting_lock a (A s prev))
         | ATOMIC_TRYLOCK \<Rightarrow> find_back s loc (\<lambda>prev. is_conflicting_lock a (A s prev))
         | ATOMIC_UNLOCK \<Rightarrow>
             find_back s loc (\<lambda>prev. \<not> same_thread a (A s prev) \<and> is_failed_trylock (A s prev))
         | ATOMIC_WAIT \<Rightarrow>
             find_back s loc (\<lambda>prev. \<not> same_thread a (A s prev)
               \<and> (is_failed_trylock (A s prev) \<or> is_notify (A s prev)))
         | ATOMIC_NOTIFY_ALL \<Rightarrow>
             find_back s loc (\<lambda>prev. \<not> same_thread a (A s prev) \<and> is_wait (A s prev))
         | ATOMIC_NOTIFY_ONE \<Rightarrow>
             find_back s loc (\<lambda>prev. \<not> same_thread a (A s prev) \<and> is_wait (A s prev))
         | _ \<Rightarrow> Some None)"

section \<open>Backtracking points\<close>

definition set_latest_backtrack :: "aid \<Rightarrow> exec \<Rightarrow> bool \<times> exec" where
  "set_latest_backtrack act s =
     (if (case next_backtrack s of None \<Rightarrow> True | Some b \<Rightarrow> seq_number (A s act) > seq_number (A s b))
      then (True, s\<lparr>next_backtrack := Some act\<rparr>) else (False, s))"

definition exec_get_next_backtrack :: "exec \<Rightarrow> aid option \<times> exec" where
  "exec_get_next_backtrack s = (next_backtrack s, s\<lparr>next_backtrack := None\<rparr>)"

text \<open>The two fairness tests of a candidate: does an enabled thread come before it?\<close>

definition fair_blocked :: "exec \<Rightarrow> node \<Rightarrow> thread_id_t \<Rightarrow> bool option" where
  "fair_blocked s n t =
     (if fairwindow (params s) \<noteq> 0 \<and> \<not> has_priority n t
      then exists_opt (\<lambda>u. do { e \<leftarrow> node_is_enabled n u; Some (e \<and> has_priority n u) })
             [0 ..< num_threads n]
      else Some False)"

definition yield_blocked :: "exec \<Rightarrow> node \<Rightarrow> thread_id_t \<Rightarrow> bool option" where
  "yield_blocked s n t =
     (if yieldon (params s)
      then exists_opt (\<lambda>u. do { e \<leftarrow> node_is_enabled n u;
                                if e then has_priority_over n t u else Some False })
             [0 ..< num_threads n]
      else Some False)"

fun backtrack_loop :: "aid \<Rightarrow> nat \<Rightarrow> nat list \<Rightarrow> exec \<Rightarrow> exec option" where
  "backtrack_loop prev ni [] s = Some s"
| "backtrack_loop prev ni (i # is) s = do {
     n \<leftarrow> node_at s ni;
     if i \<ge> num_threads n then Some s
     else do {
       st \<leftarrow> node_enabled_status n i;
       if st \<noteq> THREAD_ENABLED \<or> has_been_explored n i then backtrack_loop prev ni is s
       else do {
         unfair \<leftarrow> fair_blocked s n i;
         if unfair then backtrack_loop prev ni is s
         else do {
           unfair2 \<leftarrow> yield_blocked s n i;
           if unfair2 then backtrack_loop prev ni is s
           else do {
             let s1 = snd (set_latest_backtrack prev s);
             (b, n1) \<leftarrow> set_backtrack i n;
             backtrack_loop prev ni is (put_node ni n1 s1) } } } } }"

definition set_backtracking :: "aid \<Rightarrow> exec \<Rightarrow> exec option" where
  "set_backtracking act s = do {
     t \<leftarrow> get_thread_of s act;
     prev \<leftarrow> get_last_conflict s act;
     (case prev of None \<Rightarrow> Some s
      | Some p \<Rightarrow> do {
          i \<leftarrow> act_node (A s p);
          parent \<leftarrow> get_node_parent s p;
          n \<leftarrow> parent;
          st \<leftarrow> node_enabled_status n (tid (A s act));
          let low = (if st = THREAD_ENABLED then tid (A s act) else 0);
          let high = (if st = THREAD_ENABLED then low + 1 else get_num_threads s);
          backtrack_loop p (i - 1) [low ..< high] s }) }"

definition check_curr_backtracking :: "aid \<Rightarrow> exec \<Rightarrow> exec option" where
  "check_curr_backtracking cur s = do {
     n \<leftarrow> get_node s cur;
     parent \<leftarrow> get_node_parent s cur;
     Some (if (case parent of None \<Rightarrow> False | Some p \<Rightarrow> \<not> backtrack_empty p)
              \<or> \<not> misc_empty n \<or> \<not> read_from_empty n \<or> \<not> promise_empty n
              \<or> \<not> relseq_break_empty n
           then snd (set_latest_backtrack cur s) else s) }"

section \<open>Future values\<close>

fun promises_allow_loop :: "exec \<Rightarrow> aid \<Rightarrow> aid \<Rightarrow> pid list \<Rightarrow> bool option" where
  "promises_allow_loop s writer reader [] = Some True"
| "promises_allow_loop s writer reader (p # ps) = do {
     pr \<leftarrow> proms s p;
     r \<leftarrow> get_reader pr 0;
     if earlier s r reader then Some True
     else if earlier s r writer then Some False
     else promises_allow_loop s writer reader ps }"

definition promises_may_allow :: "exec \<Rightarrow> aid \<Rightarrow> aid \<Rightarrow> bool option" where
  "promises_may_allow s writer reader = promises_allow_loop s writer reader (rev (promises s))"

partial_function (option) thin_air_chain :: "exec \<Rightarrow> aid \<Rightarrow> aid option \<Rightarrow> bool option" where
  "thin_air_chain s reader search =
     (case search of
        None \<Rightarrow> Some True
      | Some x \<Rightarrow>
          if x = reader then Some False
          else if tid (A s x) = tid (A s reader) \<and> happens s x reader then Some True
          else thin_air_chain s reader (reads_from (A s x)))"

definition thin_air_constraint_may_allow :: "exec \<Rightarrow> aid \<Rightarrow> aid \<Rightarrow> bool option" where
  "thin_air_constraint_may_allow s writer reader =
     (if \<not> is_rmw (A s writer) then Some True
      else if \<not> is_rmw (A s reader) then Some True
      else thin_air_chain s reader (reads_from (A s writer)))"

text \<open>The oldest write, or write read, among the actions of a thread after the read.\<close>

fun write_after_read :: "exec \<Rightarrow> aid \<Rightarrow> aid list \<Rightarrow> aid option \<Rightarrow> aid option" where
  "write_after_read s reader [] w = w"
| "write_after_read s reader (act # older) w =
     (if \<not> happens s reader act \<or> reader = act then w
      else if is_write (A s act) then write_after_read s reader older (Some act)
      else if is_read (A s act) \<and> reads_from (A s act) \<noteq> None
      then write_after_read s reader older (reads_from (A s act))
      else write_after_read s reader older w)"

definition mo_may_allow :: "exec \<Rightarrow> aid \<Rightarrow> aid \<Rightarrow> bool option" where
  "mo_may_allow s writer reader = do {
     thrd_lists \<leftarrow> obj_thrd_map s (location (A s reader));
     Some (\<not> list_ex (\<lambda>xs. case write_after_read s reader (rev xs) None of
             None \<Rightarrow> False
           | Some w \<Rightarrow> w \<noteq> writer \<and> checkReachable (mo_graph s) (ActObj w) (ActObj writer)) thrd_lists) }"

text \<open>Is there a read of the reading thread between the promise's reader and the read?\<close>

fun coherence_walk :: "exec \<Rightarrow> aid \<Rightarrow> aid \<Rightarrow> aid \<Rightarrow> nat \<Rightarrow> bool option" where
  "coherence_walk s rd prreader tmp 0 = (if tmp = prreader then Some False else None)"
| "coherence_walk s rd prreader tmp (Suc k) =
     (if tmp = prreader then Some False
      else do { n \<leftarrow> node_at s k;
                let tmp' = nd_action n;
                if is_read (A s tmp') \<and> same_thread (A s tmp') (A s rd) then Some True
                else coherence_walk s rd prreader tmp' k })"

fun coherence_readers :: "exec \<Rightarrow> aid \<Rightarrow> aid \<Rightarrow> aid list \<Rightarrow> bool option" where
  "coherence_readers s write rd [] = Some True"
| "coherence_readers s write rd (r # rs) =
     (if tid (A s r) = tid (A s write) \<and> earlier s r write
      then (if earlier s r rd
            then do { k \<leftarrow> act_node (A s rd);
                      okay \<leftarrow> coherence_walk s rd r rd k;
                      if okay then coherence_readers s write rd rs else Some False }
            else Some False)
      else coherence_readers s write rd rs)"

fun coherence_promises :: "exec \<Rightarrow> aid \<Rightarrow> aid \<Rightarrow> pid list \<Rightarrow> bool option" where
  "coherence_promises s write rd [] = Some True"
| "coherence_promises s write rd (p # ps) = do {
     pr \<leftarrow> proms s p;
     same \<leftarrow> same_location (acts s) pr (A s write);
     if \<not> same then coherence_promises s write rd ps
     else if num_was_available_threads pr = 1 \<and> thread_was_available pr (tid (A s rd))
     then do { ok \<leftarrow> coherence_readers s write rd (readers pr);
               if ok then coherence_promises s write rd ps else Some False }
     else coherence_promises s write rd ps }"

definition check_coherence_promise :: "exec \<Rightarrow> aid \<Rightarrow> aid \<Rightarrow> bool option" where
  "check_coherence_promise s write rd = coherence_promises s write rd (rev (promises s))"

partial_function (option) live_ancestor :: "exec \<Rightarrow> nat \<Rightarrow> thread_id_t \<Rightarrow> thread_id_t option" where
  "live_ancestor s n t =
     (if t \<ge> n
      then Option.bind (get_thread s t) (\<lambda>th. Option.bind (th_parent th) (live_ancestor s n))
      else Some t)"

definition exec_add_future_value :: "aid \<Rightarrow> aid \<Rightarrow> exec \<Rightarrow> exec option" where
  "exec_add_future_value writer reader s = do {
     ok \<leftarrow> mo_may_allow s writer reader;
     if \<not> ok then Some s
     else do {
       i \<leftarrow> act_node (A s reader);
       n \<leftarrow> node_at s i;
       t \<leftarrow> live_ancestor s (num_threads n) (tid (A s writer));
       v \<leftarrow> get_write_value (A s writer);
       let fv' = \<lparr>fv_value = v,
                  fv_expiration = seq_number (A s writer) + of_int (maxfuturedelay (params s)),
                  fv_tid = t\<rparr>;
       let (added, n1) = add_future_value (params s) fv' n;
       let s1 = put_node i n1 s;
       Some (if added then snd (set_latest_backtrack reader s1) else s1) } }"

section \<open>Recency of reads\<close>

definition read_from_promise_at :: "exec \<Rightarrow> node \<Rightarrow> nat \<Rightarrow> pid option" where
  "read_from_promise_at s n i = reads_from_promise (A s (read_from_promises n ! i))"

fun may_read_from :: "exec \<Rightarrow> aid \<Rightarrow> mo_obj \<Rightarrow> bool option" where
  "may_read_from s act (ActObj w) = do { n \<leftarrow> get_node s act; Some (list_ex (\<lambda>x. x = w) (read_from_past n)) }"
| "may_read_from s act (PromObj p) = do { n \<leftarrow> get_node s act;
     Some (list_ex (\<lambda>i. read_from_promise_at s n i = Some p) [0 ..< get_read_from_promise_size n]) }"

primrec all_may_read :: "exec \<Rightarrow> mo_obj \<Rightarrow> nat \<Rightarrow> aid list \<Rightarrow> bool option" where
  "all_may_read s other 0 older = Some True"
| "all_may_read s other (Suc k) older =
     (case older of [] \<Rightarrow> None
      | act # rest \<Rightarrow> do { b \<leftarrow> may_read_from s act other;
                          if \<not> b then Some False else all_may_read s other k rest })"

text \<open>The earlier actions of the reading thread on the object; the last one must be the read.\<close>

definition older_in_thread :: "exec \<Rightarrow> aid \<Rightarrow> aid list option" where
  "older_in_thread s cur = do {
     thrd_lists \<leftarrow> obj_thrd_map s (location (A s cur));
     if tid (A s cur) < length thrd_lists
     then (case rev (thrd_lists ! tid (A s cur)) of
             [] \<Rightarrow> None
           | x # older \<Rightarrow> if x = cur then Some older else None)
     else None }"

definition should_read_instead :: "exec \<Rightarrow> aid \<Rightarrow> mo_obj \<Rightarrow> mo_obj \<Rightarrow> bool option" where
  "should_read_instead s cur rf other_rf =
     (if other_rf = rf then Some False
      else if \<not> checkReachable (mo_graph s) rf other_rf then Some False
      else do { older \<leftarrow> older_in_thread s cur;
                all_may_read s other_rf (nat (maxreads (params s))) older })"

definition rf_choices_size :: "node \<Rightarrow> nat" where
  "rf_choices_size n = get_read_from_past_size n + get_read_from_promise_size n"

text \<open>\<open>Some True\<close>: fewer than \<open>maxreads\<close> immediately preceding reads of the same value.\<close>

primrec few_reads :: "exec \<Rightarrow> mo_obj \<Rightarrow> nat \<Rightarrow> aid list \<Rightarrow> bool option" where
  "few_reads s rf 0 older = Some False"
| "few_reads s rf (Suc k) older =
     (case older of
        [] \<Rightarrow> Some True
      | act # rest \<Rightarrow>
          if \<not> is_read (A s act) then Some True
          else if (case reads_from_promise (A s act) of None \<Rightarrow> False | Some p \<Rightarrow> PromObj p \<noteq> rf)
          then Some True
          else if (case reads_from (A s act) of None \<Rightarrow> False | Some w \<Rightarrow> ActObj w \<noteq> rf)
          then Some True
          else do { n \<leftarrow> get_node s act;
                    if rf_choices_size n \<le> 1 then Some True else few_reads s rf k rest })"

definition check_recency :: "exec \<Rightarrow> aid \<Rightarrow> mo_obj \<Rightarrow> bool option" where
  "check_recency s cur rf =
     (if maxreads (params s) = 0 then Some True
      else do {
        n \<leftarrow> get_node s cur;
        if rf_choices_size n \<le> 1 then Some True
        else do {
          older \<leftarrow> older_in_thread s cur;
          few \<leftarrow> few_reads s rf (nat (maxreads (params s))) older;
          if few then Some True
          else do {
            newer \<leftarrow> exists_opt (\<lambda>w. should_read_instead s cur rf (ActObj w)) (read_from_past n);
            if newer then Some False
            else do {
              newer2 \<leftarrow> exists_opt (\<lambda>i. do { p \<leftarrow> read_from_promise_at s n i;
                                              should_read_instead s cur rf (PromObj p) })
                         [0 ..< get_read_from_promise_size n];
              Some (\<not> newer2) } } } })"

partial_function (option) sleep_can_read_from :: "exec \<Rightarrow> aid \<Rightarrow> aid option \<Rightarrow> bool option" where
  "sleep_can_read_from s cur write =
     (case write of
        None \<Rightarrow> Some True
      | Some w \<Rightarrow>
          if is_uninitialized (A s w) then Some True
          else Option.bind (get_node_parent s w) (\<lambda>parent. Option.bind parent (\<lambda>prevnode.
               Option.bind (node_enabled_status prevnode (tid (A s cur))) (\<lambda>st.
               if is_release (A s w) \<and> st = THREAD_SLEEP_SET then Some True
               else if \<not> is_rmw (A s w) then Some False
               else sleep_can_read_from s cur (reads_from (A s w))))))"

section \<open>Disabled threads and promises\<close>

definition check_promises_thread_disabled :: "exec \<Rightarrow> exec" where
  "check_promises_thread_disabled s =
     (if list_ex (\<lambda>p. has_failed (the (proms s p))) (promises s) then s\<lparr>failed_promise := True\<rparr> else s)"

text \<open>\<open>Scheduler::sleep\<close>, \<open>wake\<close> and \<open>remove_thread\<close>, with the thread's state and the call back.\<close>

definition after_sched :: "bool \<Rightarrow> exec \<Rightarrow> exec" where
  "after_sched disabled s = (if disabled then check_promises_thread_disabled s else s)"

definition exec_sleep :: "thread_id_t \<Rightarrow> exec \<Rightarrow> exec option" where
  "exec_sleep t s = do {
     th \<leftarrow> get_thread s t;
     ((sch, disabled), st) \<leftarrow> sched_sleep t (th_state th) (scheduler s);
     s1 \<leftarrow> upd_thread t (\<lambda>x. x\<lparr>th_state := st\<rparr>) (s\<lparr>scheduler := sch\<rparr>);
     Some (after_sched disabled s1) }"

definition exec_wake :: "thread_id_t \<Rightarrow> exec \<Rightarrow> exec option" where
  "exec_wake t s = do {
     th \<leftarrow> get_thread s t;
     ((sch, disabled), st) \<leftarrow> sched_wake (model_thread_in s) t (th_state th) (scheduler s);
     s1 \<leftarrow> upd_thread t (\<lambda>x. x\<lparr>th_state := st\<rparr>) (s\<lparr>scheduler := sch\<rparr>);
     Some (after_sched disabled s1) }"

definition exec_remove_thread :: "thread_id_t \<Rightarrow> exec \<Rightarrow> exec" where
  "exec_remove_thread t s =
     (let (sch, disabled) = sched_remove_thread t (scheduler s)
      in after_sched disabled (s\<lparr>scheduler := sch\<rparr>))"

end
