(* ===== verification/ExecOrder.thy ===== *)
theory ExecOrder
  imports ExecQueries
begin

text \<open>
  \<open>execution.cc\<close>: the edges a read or a write adds to the modification order
  (\<open>r_modification_order\<close>, \<open>w_modification_order\<close>) and the set of writes and promises a new
  read may read from (\<open>build_may_read_from\<close>). The C++ reverse iterators are the reversed lists,
  a \<open>break\<close> ends the recursion over one thread's list. The flag \<open>added\<close> and the execution are
  threaded together; reads only change its \<open>mo_graph\<close>, writes also send future values.
\<close>

section \<open>Edges of a read\<close>

definition mo_add :: "mo_obj \<Rightarrow> mo_obj \<Rightarrow> bool \<times> exec \<Rightarrow> (bool \<times> exec) option" where
  "mo_add from to st = do {
     (b, g) \<leftarrow> addEdge from to (mo_graph (snd st));
     Some (b \<or> fst st, (snd st)\<lparr>mo_graph := g\<rparr>) }"

text \<open>
  C++11, section 29.3, statements 5, 4 and 6: a write that is ordered before the current read
  by sequentially consistent fences.
\<close>

definition sc_ordered ::
  "exec \<Rightarrow> aid \<Rightarrow> aid option \<Rightarrow> aid option \<Rightarrow> aid option \<Rightarrow> aid \<Rightarrow> bool" where
  "sc_ordered s cur fence_thread_local fence_local fence_thread_before act \<longleftrightarrow>
     (is_seqcst (A s cur) \<and> (\<exists>f \<in> set_option fence_thread_local. earlier s act f))
     \<or> (is_seqcst (A s act) \<and> (\<exists>f \<in> set_option fence_local. earlier s act f))
     \<or> (\<exists>f \<in> set_option fence_thread_before. earlier s act f)"

fun r_mo_thread ::
  "aid \<Rightarrow> mo_obj \<Rightarrow> aid option \<Rightarrow> aid option \<Rightarrow> aid option \<Rightarrow> aid list \<Rightarrow>
   bool \<times> exec \<Rightarrow> (bool \<times> exec) option" where
  "r_mo_thread cur rf ftl fl ftb [] st = Some st"
| "r_mo_thread cur rf ftl fl ftb (act # older) st =
     (let s = snd st
      in if act_type (A s act) = ATOMIC_ANNOTATION then r_mo_thread cur rf ftl fl ftb older st
         else if act = cur then r_mo_thread cur rf ftl fl ftb older st
         else if ActObj act = rf
         then (if happens s act cur then Some st else r_mo_thread cur rf ftl fl ftb older st)
         else if is_write (A s act) \<and> sc_ordered s cur ftl fl ftb act
         then mo_add (ActObj act) rf st
         else if happens s act cur
         then (if is_write (A s act) then mo_add (ActObj act) rf st
               else case reads_from (A s act) of
                      Some prevrf \<Rightarrow>
                        if ActObj prevrf \<noteq> rf then mo_add (ActObj prevrf) rf st else Some st
                    | None \<Rightarrow>
                        (case reads_from_promise (A s act) of
                           None \<Rightarrow> None
                         | Some p \<Rightarrow> if PromObj p \<noteq> rf then mo_add (PromObj p) rf st else Some st))
         else r_mo_thread cur rf ftl fl ftb older st)"

definition r_mo_in_thread ::
  "aid \<Rightarrow> mo_obj \<Rightarrow> aid option \<Rightarrow> aid list list \<Rightarrow> nat \<Rightarrow> bool \<times> exec \<Rightarrow> (bool \<times> exec) option" where
  "r_mo_in_thread cur rf fence_local thrd_lists i st = do {
     let s = snd st;
     ftl \<leftarrow> (if i \<noteq> tid (A s cur) then get_last_seq_cst_fence s i None else Some None);
     ftb \<leftarrow> (case fence_local of None \<Rightarrow> Some None
              | Some f \<Rightarrow> get_last_seq_cst_fence s i (Some f));
     r_mo_thread cur rf ftl fence_local ftb (rev (thrd_lists ! i)) st }"

text \<open>Thread-exclusive promises that may still satisfy the action are ordered after \<open>from\<close>.\<close>

definition order_promise :: "aid \<Rightarrow> mo_obj \<Rightarrow> pid \<Rightarrow> bool \<times> exec \<Rightarrow> (bool \<times> exec) option" where
  "order_promise cur from p st = do {
     pr \<leftarrow> proms (snd st) p;
     b \<leftarrow> is_compatible_exclusive (acts (snd st)) pr (A (snd st) cur);
     if b then mo_add from (PromObj p) st else Some st }"

definition r_modification_order :: "aid \<Rightarrow> mo_obj \<Rightarrow> exec \<Rightarrow> (bool \<times> exec) option" where
  "r_modification_order cur rf s = do {
     thrd_lists \<leftarrow> obj_thrd_map s (location (A s cur));
     if \<not> is_read (A s cur) then None
     else do {
       fence_local \<leftarrow> get_last_seq_cst_fence s (tid (A s cur)) None;
       last_sc_write \<leftarrow> (if is_seqcst (A s cur) then get_last_seq_cst_write s cur else Some None);
       st \<leftarrow> fold_opt (r_mo_in_thread cur rf fence_local thrd_lists) [0 ..< length thrd_lists]
               (False, s);
       fold_opt (order_promise cur rf) (promises s) st } }"

section \<open>Edges of a write\<close>

text \<open>The state of the loops: \<open>added\<close>, the readers to send to, the execution.\<close>

type_synonym w_state = "bool \<times> aid list \<times> exec"

definition w_mo_add :: "mo_obj \<Rightarrow> mo_obj \<Rightarrow> w_state \<Rightarrow> w_state option" where
  "w_mo_add from to st = (case st of (added, send_fv, s) \<Rightarrow>
     do { (b, s1) \<leftarrow> mo_add from to (added, s); Some (b, send_fv, s1) })"

definition send_or_skip :: "aid \<Rightarrow> bool \<Rightarrow> aid \<Rightarrow> w_state \<Rightarrow> w_state option" where
  "send_or_skip cur sending act st = (case st of (added, send_fv, s) \<Rightarrow>
     if \<not> sending then Some st
     else do {
       thin \<leftarrow> thin_air_constraint_may_allow s cur act;
       if \<not> thin then Some st
       else do {
         coherent \<leftarrow> check_coherence_promise s cur act;
         if \<not> coherent then Some st
         else if \<not> is_infeasible s then Some (added, send_fv @ [act], s)
         else if is_rmw (A s cur) \<and> is_rmw (A s act) \<and> reads_from (A s cur) \<noteq> None
                 \<and> reads_from (A s cur) = reads_from (A s act)
         then do { s1 \<leftarrow> exec_add_future_value cur act s; Some (added, send_fv, s1) }
         else Some st } })"

fun w_mo_thread :: "aid \<Rightarrow> bool \<Rightarrow> aid option \<Rightarrow> aid list \<Rightarrow> w_state \<Rightarrow> w_state option" where
  "w_mo_thread cur sending ftb [] st = Some st"
| "w_mo_thread cur sending ftb (act # older) st =
     (let s = snd (snd st)
      in if act = cur
         then (if is_rmw (A s cur) \<and> reads_from (A s cur) \<noteq> None then Some st
               else w_mo_thread cur sending ftb older st)
         else if is_write (A s act) \<and> (\<exists>f \<in> set_option ftb. earlier s act f)
         then w_mo_add (ActObj act) (ActObj cur) st
         else if happens s act cur
         then (if is_write (A s act) then w_mo_add (ActObj act) (ActObj cur) st
               else if is_read (A s act)
               then (case reads_from (A s act) of
                       None \<Rightarrow> (case reads_from_promise (A s act) of
                                 None \<Rightarrow> None
                               | Some p \<Rightarrow> w_mo_add (PromObj p) (ActObj cur) st)
                     | Some rf \<Rightarrow> w_mo_add (ActObj rf) (ActObj cur) st)
               else Some st)
         else if is_read (A s act) \<and> \<not> could_synchronize_with (A s act) (A s cur)
                 \<and> \<not> same_thread (A s act) (A s cur)
         then do { st1 \<leftarrow> send_or_skip cur sending act st;
                   w_mo_thread cur sending ftb older st1 }
         else w_mo_thread cur sending ftb older st)"

definition w_mo_in_thread ::
  "aid \<Rightarrow> bool \<Rightarrow> aid option \<Rightarrow> aid list list \<Rightarrow> nat \<Rightarrow> w_state \<Rightarrow> w_state option" where
  "w_mo_in_thread cur sending fence_local thrd_lists i st = do {
     let s = snd (snd st);
     ftb \<leftarrow> (case fence_local of
              Some f \<Rightarrow> if i \<noteq> tid (A s cur) then get_last_seq_cst_fence s i (Some f) else Some None
            | None \<Rightarrow> Some None);
     w_mo_thread cur sending ftb (rev (thrd_lists ! i)) st }"

definition w_order_promise :: "aid \<Rightarrow> pid \<Rightarrow> w_state \<Rightarrow> w_state option" where
  "w_order_promise cur p st = (case st of (added, send_fv, s) \<Rightarrow>
     do { (b, s1) \<leftarrow> order_promise cur (ActObj cur) p (added, s); Some (b, send_fv, s1) })"

definition w_modification_order :: "aid \<Rightarrow> bool \<Rightarrow> exec \<Rightarrow> w_state option" where
  "w_modification_order cur sending s = do {
     thrd_lists \<leftarrow> obj_thrd_map s (location (A s cur));
     if \<not> is_write (A s cur) then None
     else do {
       last_seq_cst \<leftarrow> (if is_seqcst (A s cur) then get_last_seq_cst_write s cur else Some None);
       st1 \<leftarrow> (case last_seq_cst of
                None \<Rightarrow> Some (False, [], s)
              | Some w \<Rightarrow> w_mo_add (ActObj w) (ActObj cur) (False, [], s));
       fence_local \<leftarrow> get_last_seq_cst_fence s (tid (A s cur)) None;
       st2 \<leftarrow> fold_opt (w_mo_in_thread cur sending fence_local thrd_lists)
                [0 ..< length thrd_lists] st1;
       fold_opt (w_order_promise cur) (promises s) st2 } }"

section \<open>The writes a read may read from\<close>

text \<open>A candidate is tried on the graph, which is rolled back whatever the outcome.\<close>

definition try_read :: "aid \<Rightarrow> mo_obj \<Rightarrow> (node \<Rightarrow> node) \<Rightarrow> exec \<Rightarrow> exec option" where
  "try_read cur rf add s = do {
     g \<leftarrow> startChanges (mo_graph s);
     (added, s1) \<leftarrow> r_modification_order cur rf (s\<lparr>mo_graph := g\<rparr>);
     s2 \<leftarrow> (if \<not> is_infeasible s1 then upd_node cur add s1 else Some s1);
     Some (s2\<lparr>mo_graph := rollbackChanges (mo_graph s2)\<rparr>) }"

definition allow_read :: "exec \<Rightarrow> aid \<Rightarrow> aid option \<Rightarrow> aid \<Rightarrow> bool option" where
  "allow_read s cur last_sc_write act =
     (if is_seqcst (A s cur)
         \<and> (is_seqcst (A s act)
            \<or> (case last_sc_write of None \<Rightarrow> False | Some w \<Rightarrow> happens s act w))
         \<and> Some act \<noteq> last_sc_write
      then Some False
      else if sleep_flag (A s cur) \<and> \<not> is_seqcst (A s cur)
      then sleep_can_read_from s cur (Some act)
      else Some True)"

fun may_read_thread :: "aid \<Rightarrow> aid option \<Rightarrow> aid list \<Rightarrow> exec \<Rightarrow> exec option" where
  "may_read_thread cur last_sc_write [] s = Some s"
| "may_read_thread cur last_sc_write (act # older) s =
     (if \<not> is_write (A s act) \<or> act = cur then may_read_thread cur last_sc_write older s
      else do {
        ok \<leftarrow> allow_read s cur last_sc_write act;
        s1 \<leftarrow> (if ok then try_read cur (ActObj act) (add_read_from_past act) s else Some s);
        if happens s1 act cur then Some s1 else may_read_thread cur last_sc_write older s1 })"

definition inherit_promise :: "aid \<Rightarrow> pid \<Rightarrow> exec \<Rightarrow> exec option" where
  "inherit_promise cur p s = do {
     pr \<leftarrow> proms s p;
     promise_read \<leftarrow> get_reader pr 0;
     if same_var (A s promise_read) (A s cur)
     then try_read cur (PromObj p) (add_read_from_promise promise_read) s
     else Some s }"

definition build_may_read_from :: "aid \<Rightarrow> exec \<Rightarrow> exec option" where
  "build_may_read_from cur s = do {
     thrd_lists \<leftarrow> obj_thrd_map s (location (A s cur));
     if \<not> is_read (A s cur) then None
     else do {
       last_sc_write \<leftarrow> (if is_seqcst (A s cur) then get_last_seq_cst_write s cur else Some None);
       s1 \<leftarrow> fold_opt (\<lambda>xs. may_read_thread cur last_sc_write (rev xs)) thrd_lists s;
       s2 \<leftarrow> fold_opt (inherit_promise cur) (promises s) s1;
       n \<leftarrow> get_node s2 cur;
       Some (if read_from_size n = 0 then set_assert (s2\<lparr>no_valid_reads := True\<rparr>) else s2) } }"

end
