(* ===== verification/ExecSync.thy ===== *)
theory ExecSync
  imports ExecOrder
begin

text \<open>
  \<open>execution.cc\<close>, \<open>workqueue.h\<close>: synchronization. An acquire synchronizes with the heads of the
  release sequences it reads from; a sequence that cannot be decided yet is kept in
  \<open>pending_rel_seqs\<close> and resolved later, which changes clock vectors and queues more work.
  Promises lose the threads that a change of clock vectors rules out.
\<close>

section \<open>Work\<close>

text \<open>The location of a \<open>CheckRelSeqWorkEntry\<close> is null (0) for all locations.\<close>

datatype work_entry =
    CheckCurrWorkEntry aid
  | CheckRelSeqWorkEntry uint64
  | MOEdgeWorkEntry aid

type_synonym work_queue = "work_entry list"

section \<open>Promises and clock vectors\<close>

text \<open>The loop over the readers of one promise; the flag says that the promise has failed.\<close>

fun check_readers ::
  "exec \<Rightarrow> thread_id_t \<Rightarrow> clock_vector option \<Rightarrow> clock_vector \<Rightarrow> aid list \<Rightarrow> promise \<Rightarrow>
   bool \<times> promise" where
  "check_readers s t old_cv merge_cv [] pr = (False, pr)"
| "check_readers s t old_cv merge_cv (r # rs) pr =
     (let act = A s r
      in if (case old_cv of None \<Rightarrow> True
              | Some c \<Rightarrow> \<not> synchronized_since c (tid act) (seq_number act))
            \<and> synchronized_since merge_cv (tid act) (seq_number act)
         then (let (failed, pr1) = eliminate_thread t pr
               in if failed then (True, pr1) else check_readers s t old_cv merge_cv rs pr1)
         else check_readers s t old_cv merge_cv rs pr)"

fun check_promises_loop ::
  "thread_id_t \<Rightarrow> clock_vector option \<Rightarrow> clock_vector \<Rightarrow> pid list \<Rightarrow> exec \<Rightarrow> exec option" where
  "check_promises_loop t old_cv merge_cv [] s = Some s"
| "check_promises_loop t old_cv merge_cv (p # ps) s = do {
     pr \<leftarrow> proms s p;
     if \<not> thread_is_available pr t then check_promises_loop t old_cv merge_cv ps s
     else (let (failed, pr1) = check_readers s t old_cv merge_cv (readers pr) pr;
               s1 = s\<lparr>proms := (proms s)(p \<mapsto> pr1)\<rparr>
           in if failed then Some (s1\<lparr>failed_promise := True\<rparr>)
              else check_promises_loop t old_cv merge_cv ps s1) }"

definition check_promises ::
  "thread_id_t \<Rightarrow> clock_vector option \<Rightarrow> clock_vector \<Rightarrow> exec \<Rightarrow> exec option" where
  "check_promises t old_cv merge_cv s = check_promises_loop t old_cv merge_cv (promises s) s"

definition synchronize :: "aid \<Rightarrow> aid \<Rightarrow> exec \<Rightarrow> (bool \<times> exec) option" where
  "synchronize first second s =
     (if earlier s second first then Some (False, set_bad_synchronization s)
      else do {
        merge_cv \<leftarrow> cv (A s first);
        s1 \<leftarrow> check_promises (tid (A s first)) (cv (A s second)) merge_cv s;
        let (b, a) = synchronize_with (A s1 second) (A s1 first);
        Some (b, upd_act second (\<lambda>_. a) s1) })"

text \<open>
  A thread that waits for another one can no longer satisfy a promise of that one's reads.
  The \<open>return\<close> of the inner loop ends both loops (\<open>Some True\<close>).
\<close>

fun blocking_readers :: "exec \<Rightarrow> thread_id_t \<Rightarrow> thread_id_t \<Rightarrow> aid list \<Rightarrow> promise \<Rightarrow> bool \<Rightarrow>
   bool \<times> bool \<times> promise" where
  "blocking_readers s blocker waiting [] pr failed = (False, failed, pr)"
| "blocking_readers s blocker waiting (r # rs) pr failed =
     (if tid (A s r) \<noteq> blocker then blocking_readers s blocker waiting rs pr failed
      else let (b, pr1) = eliminate_thread waiting pr
           in if b then blocking_readers s blocker waiting rs pr1 True
              else (True, failed, pr1))"

fun thread_blocking_loop :: "thread_id_t \<Rightarrow> thread_id_t \<Rightarrow> pid list \<Rightarrow> exec \<Rightarrow> exec option" where
  "thread_blocking_loop blocker waiting [] s = Some s"
| "thread_blocking_loop blocker waiting (p # ps) s = do {
     pr \<leftarrow> proms s p;
     if \<not> thread_is_available pr waiting then thread_blocking_loop blocker waiting ps s
     else (let (stop, failed, pr1) = blocking_readers s blocker waiting (readers pr) pr False;
               s1 = s\<lparr>proms := (proms s)(p \<mapsto> pr1)\<rparr>;
               s2 = (if failed then s1\<lparr>failed_promise := True\<rparr> else s1)
           in if stop then Some s2 else thread_blocking_loop blocker waiting ps s2) }"

definition thread_blocking_check_promises ::
  "thread_id_t \<Rightarrow> thread_id_t \<Rightarrow> exec \<Rightarrow> exec option" where
  "thread_blocking_check_promises blocker waiting s =
     thread_blocking_loop blocker waiting (promises s) s"

text \<open>
  \<open>mo_check_promises\<close>. The first reader of the promise that happens before the action decides
  whether the whole promise is checked; \<open>checkPromise\<close> may eliminate threads of the promise.
\<close>

definition mo_check_one :: "aid \<Rightarrow> aid \<Rightarrow> pid \<Rightarrow> exec \<Rightarrow> (bool \<times> exec) option" where
  "mo_check_one write act p s = do {
     pr \<leftarrow> proms s p;
     same \<leftarrow> same_location (acts s) pr (A s write);
     if \<not> same then Some (False, s)
     else do {
       (failed1, pr1) \<leftarrow> (if list_ex (\<lambda>r. happens s r act) (readers pr)
                          then checkPromise (mo_graph s) (acts s) write p pr else Some (False, pr));
       let s1 = s\<lparr>proms := (proms s)(p \<mapsto> pr1)\<rparr>;
       if failed1 then Some (True, s1\<lparr>hard_failed_promise := True\<rparr>)
       else if \<not> thread_is_available pr1 (tid (A s act)) then Some (False, s1)
       else if checkReachable (mo_graph s) (PromObj p) (ActObj write)
       then do {
         (failed2, pr2) \<leftarrow> checkPromise (mo_graph s) (acts s) write p pr1;
         let s2 = s1\<lparr>proms := (proms s1)(p \<mapsto> pr2)\<rparr>;
         Some (if failed2 then (True, s2\<lparr>hard_failed_promise := True\<rparr>) else (False, s2)) }
       else Some (False, s1) } }"

fun mo_check_loop :: "aid \<Rightarrow> aid \<Rightarrow> pid list \<Rightarrow> exec \<Rightarrow> exec option" where
  "mo_check_loop write act [] s = Some s"
| "mo_check_loop write act (p # ps) s = do {
     (stop, s1) \<leftarrow> mo_check_one write act p s;
     if stop then Some s1 else mo_check_loop write act ps s1 }"

text \<open>
  For a read check the write may be null (the read reads from a promise); the code then asks
  \<open>same_location\<close> of a null pointer as soon as there is a promise.
\<close>

definition mo_check_promises :: "aid \<Rightarrow> bool \<Rightarrow> exec \<Rightarrow> exec option" where
  "mo_check_promises act is_read_check s =
     (case (if is_read_check then reads_from (A s act) else Some act) of
        None \<Rightarrow> if promises s = [] then Some s else None
      | Some write \<Rightarrow> mo_check_loop write act (promises s) s)"

section \<open>Release sequences\<close>

text \<open>
  The chain of read-modify-writes from \<open>rf\<close>. The flag is the early \<open>return true\<close> at an
  acquire-release RMW; the last component is where the chain ends.
\<close>

partial_function (option) rs_chain ::
  "exec \<Rightarrow> aid option \<Rightarrow> aid list \<Rightarrow> (aid list \<times> bool \<times> aid option) option" where
  "rs_chain s rfo heads =
     (case rfo of
        None \<Rightarrow> Some (heads, False, None)
      | Some rf \<Rightarrow>
          if \<not> is_write (A s rf) then None
          else (let heads1 = (if is_release (A s rf) then heads @ [rf]
                              else case last_fence_release (A s rf) of
                                     Some f \<Rightarrow> heads @ [f] | None \<Rightarrow> heads)
                in if \<not> is_rmw (A s rf) then Some (heads1, False, Some rf)
                   else if is_acquire (A s rf) \<and> is_release (A s rf) then Some (heads1, True, Some rf)
                   else rs_chain s (reads_from (A s rf)) heads1))"

text \<open>
  The actions of one other thread, the most recent first: \<open>None\<close> is \<open>return true\<close> (a write is
  ordered between the release and \<open>rf\<close>), otherwise the flag \<open>future_ordered\<close>, the writes that
  may break the sequence and the flag \<open>certain\<close>.
\<close>

fun rs_scan ::
  "exec \<Rightarrow> aid \<Rightarrow> aid \<Rightarrow> aid list \<Rightarrow> bool \<Rightarrow> aid list \<Rightarrow> bool \<Rightarrow> (bool \<times> aid list \<times> bool) option" where
  "rs_scan s rf release [] fo writes certain = Some (fo, writes, certain)"
| "rs_scan s rf release (act # older) fo writes certain =
     (let reach = (\<lambda>a b. checkReachable (mo_graph s) (ActObj a) (ActObj b))
      in if happens s act release then Some (fo, writes, certain)
         else if happens s rf act then rs_scan s rf release older True writes certain
         else if \<not> is_write (A s act) \<or> is_rmw (A s act)
         then rs_scan s rf release older fo writes certain
         else if reach rf act then rs_scan s rf release older True writes certain
         else if reach act release then Some (fo, writes, certain)
         else if reach release act \<and> reach act rf then None
         else rs_scan s rf release older fo (writes @ [act]) False)"

text \<open>All threads but that of \<open>rf\<close>: the inner option is again the early \<open>return true\<close>.\<close>

fun rs_threads ::
  "exec \<Rightarrow> aid \<Rightarrow> aid \<Rightarrow> aid list list \<Rightarrow> nat list \<Rightarrow> aid list \<Rightarrow> bool \<Rightarrow>
   (aid list \<times> bool) option option" where
  "rs_threads s rf release thrd_lists [] writes certain = Some (Some (writes, certain))"
| "rs_threads s rf release thrd_lists (i # is) writes certain =
     (if tid (A s rf) = i then rs_threads s rf release thrd_lists is writes certain
      else do {
        th \<leftarrow> get_thread s i;
        let fo = ((case get_last_action s i of None \<Rightarrow> False | Some l \<Rightarrow> happens s rf l)
                  \<or> \<not> exec_is_enabled s i \<or> th_state th = THREAD_COMPLETED);
        if is_model_thread th \<and> \<not> fo then None
        else case rs_scan s rf release (rev (thrd_lists ! i)) fo writes certain of
               None \<Rightarrow> Some None
             | Some (fo1, writes1, certain1) \<Rightarrow>
                 rs_threads s rf release thrd_lists is writes1 (if fo1 then certain1 else False) })"

text \<open>The last release of the thread of \<open>rf\<close>, if it is not older than its last release fence.\<close>

definition rs_release_of :: "exec \<Rightarrow> aid \<Rightarrow> aid option \<Rightarrow> aid list \<Rightarrow> aid option" where
  "rs_release_of s rf fence_release older =
     (let older_than_fence = (\<lambda>a. \<exists>f \<in> set_option fence_release. earlier s a f)
      in case find (\<lambda>a. older_than_fence a \<or> is_release (A s a)) older of
           None \<Rightarrow> None
         | Some a \<Rightarrow> if older_than_fence a then None else Some a)"

definition release_seq_heads ::
  "exec \<Rightarrow> aid option \<Rightarrow> release_seq \<Rightarrow> (bool \<times> aid list \<times> release_seq) option" where
  "release_seq_heads s rfo pending =
     (if checkForCycles (mo_graph s) then Some (False, [], pending)
      else do {
        (heads, complete, rfo1) \<leftarrow> rs_chain s rfo [];
        if complete then Some (True, heads, pending)
        else case rfo1 of
          None \<Rightarrow> Some (False, heads, pending\<lparr>rs_rf := None\<rparr>)
        | Some rf \<Rightarrow>
            if is_release (A s rf) then Some (True, heads, pending)
            else do {
              let fence_release = last_fence_release (A s rf);
              let heads1 = (case fence_release of None \<Rightarrow> heads | Some f \<Rightarrow> heads @ [f]);
              thrd_lists \<leftarrow> obj_thrd_map s (location (A s rf));
              older \<leftarrow> (if tid (A s rf) < length thrd_lists
                        then back_to rf (thrd_lists ! tid (A s rf)) else None);
              (case rs_release_of s rf fence_release older of
                 None \<Rightarrow> Some (True, heads1, pending)
               | Some release \<Rightarrow>
                   if \<not> same_thread (A s rf) (A s release) then None
                   else do {
                     r \<leftarrow> rs_threads s rf release thrd_lists [0 ..< length thrd_lists] [] True;
                     Some (case r of
                       None \<Rightarrow> (True, heads1, pending)
                     | Some (writes, certain) \<Rightarrow>
                         if certain then (True, heads1 @ [release], pending\<lparr>rs_writes := []\<rparr>)
                         else (False, heads1, pending\<lparr>rs_release := Some release, rs_rf := Some rf,
                                                      rs_writes := writes\<rparr>)) }) } })"

definition get_release_seq_heads :: "aid \<Rightarrow> aid \<Rightarrow> exec \<Rightarrow> (aid list \<times> exec) option" where
  "get_release_seq_heads acquire rd s = do {
     (complete, heads, pending) \<leftarrow> release_seq_heads s (reads_from (A s rd))
        \<lparr>rs_acquire = acquire, rs_read = rd, rs_rf = None, rs_release = None, rs_writes = []\<rparr>;
     Some (heads, if complete then s
                  else s\<lparr>pending_rel_seqs := pending_rel_seqs s @ [pending]\<rparr>) }"

definition propagate_one :: "aid \<Rightarrow> aid \<Rightarrow> exec \<times> work_queue \<Rightarrow> (exec \<times> work_queue) option" where
  "propagate_one acquire act sw = (case sw of (s, work) \<Rightarrow>
     if happens s acquire act
     then do { (b, s1) \<leftarrow> synchronize acquire act s; Some (s1, work @ [MOEdgeWorkEntry act]) }
     else Some sw)"

definition propagate_clockvector :: "aid \<Rightarrow> exec \<times> work_queue \<Rightarrow> (exec \<times> work_queue) option" where
  "propagate_clockvector acquire sw = (case sw of (s, work) \<Rightarrow>
     if acquire \<notin> set (action_trace s) then None
     else fold_opt (propagate_one acquire)
            (takeWhile (\<lambda>a. a \<noteq> acquire) (rev (action_trace s)))
            (s, work @ [CheckRelSeqWorkEntry 0, MOEdgeWorkEntry acquire]))"

text \<open>The data race detector, with what it asks of the execution.\<close>

definition race_env_of :: "exec \<Rightarrow> race_env" where
  "race_env_of s =
     \<lparr>env_cv = (\<lambda>t. the (get_cv s t)), env_parent = (\<lambda>t. the (the (get_parent_action s t))),
      env_action = A s, env_prefix = isfeasibleprefix s\<rparr>"

definition exec_checkDataRaces :: "exec \<Rightarrow> bool \<times> exec" where
  "exec_checkDataRaces s =
     (let (race_asserted, rs) = checkDataRaces (race_env_of s) ((races s)\<lparr>race_bugs := []\<rparr>);
          s1 = s\<lparr>races := rs\<lparr>race_bugs := []\<rparr>, bugs := bugs s @ map RaceBug (race_bugs rs)\<rparr>
      in (race_asserted, if race_asserted then set_assert s1 else s1))"

definition sync_head :: "aid \<Rightarrow> aid \<Rightarrow> bool \<times> exec \<Rightarrow> (bool \<times> exec) option" where
  "sync_head acquire h us = (case us of (updated, s) \<Rightarrow>
     if has_synchronized_with (A s acquire) (A s h) then Some us
     else do { (b, s1) \<leftarrow> synchronize h acquire s; Some (updated \<or> b, s1) })"

fun resolve_loop ::
  "uint64 \<Rightarrow> release_seq list \<Rightarrow> release_seq list \<Rightarrow> bool \<Rightarrow> exec \<times> work_queue \<Rightarrow>
   (bool \<times> release_seq list \<times> exec \<times> work_queue) option" where
  "resolve_loop loc [] kept updated sw = Some (updated, kept, sw)"
| "resolve_loop loc (pending # rest) kept updated sw = (case sw of (s, work) \<Rightarrow>
     if loc \<noteq> 0 \<and> location (A s (rs_read pending)) \<noteq> loc
     then resolve_loop loc rest (kept @ [pending]) updated sw
     else do {
       (complete, heads, pending1) \<leftarrow> release_seq_heads s (reads_from (A s (rs_read pending))) pending;
       (updated1, s1) \<leftarrow> fold_opt (sync_head (rs_acquire pending)) heads (updated, s);
       sw1 \<leftarrow> (if updated1 then propagate_clockvector (rs_acquire pending) (s1, work)
                else Some (s1, work));
       resolve_loop loc rest (if complete then kept else kept @ [pending1]) updated1 sw1 })"

definition resolve_release_sequences ::
  "uint64 \<Rightarrow> exec \<times> work_queue \<Rightarrow> (bool \<times> exec \<times> work_queue) option" where
  "resolve_release_sequences loc sw = do {
     (updated, kept, (s, work)) \<leftarrow> resolve_loop loc (pending_rel_seqs (fst sw)) [] False sw;
     Some (updated, snd (exec_checkDataRaces (s\<lparr>pending_rel_seqs := kept\<rparr>)), work) }"

section \<open>Reads-from and fences\<close>

text \<open>Synchronizing with a list of heads; the count of the successful ones.\<close>

definition sync_count :: "aid \<Rightarrow> aid \<Rightarrow> nat \<times> exec \<Rightarrow> (nat \<times> exec) option" where
  "sync_count act h ns = (case ns of (n, s) \<Rightarrow>
     do { (b, s1) \<leftarrow> synchronize h act s; Some (if b then n + 1 else n, s1) })"

definition uninitialized_bug :: bug_message where
  "uninitialized_bug = MessageBug ''May read from uninitialized atomic''"

definition read_from :: "aid \<Rightarrow> aid \<Rightarrow> exec \<Rightarrow> (bool \<times> exec) option" where
  "read_from act rf s =
     (if \<not> is_write (A s rf) then None
      else do {
        (a, uninit) \<leftarrow> set_read_from (acts s) rf (A s act);
        let s1 = upd_act act (\<lambda>_. a) s;
        let s2 = (if uninit then snd (assert_bug uninitialized_bug s1) else s1);
        if is_acquire a
        then do { (heads, s3) \<leftarrow> get_release_seq_heads act act s2;
                  (n, s4) \<leftarrow> fold_opt (sync_count act) heads (0, s3);
                  Some (n > 0, s4) }
        else Some (False, s2) })"

fun fence_loop :: "aid \<Rightarrow> aid list \<Rightarrow> bool \<times> exec \<Rightarrow> (bool \<times> exec) option" where
  "fence_loop cur [] us = Some us"
| "fence_loop cur (act # older) us =
     (let s = snd us; a = A s act
      in if act = cur \<or> tid a \<noteq> tid (A s cur) then fence_loop cur older us
         else if is_thread_start a \<or> (is_fence a \<and> is_acquire a) then Some us
         else if \<not> is_read a \<or> is_acquire a then fence_loop cur older us
         else do {
           (heads, s1) \<leftarrow> get_release_seq_heads cur act s;
           (n, s2) \<leftarrow> fold_opt (sync_count cur) heads (0, s1);
           fence_loop cur older (fst us \<or> heads \<noteq> [], s2) })"

definition process_fence :: "aid \<Rightarrow> exec \<Rightarrow> (bool \<times> exec) option" where
  "process_fence cur s =
     (if is_acquire (A s cur) then fence_loop cur (rev (action_trace s)) (False, s)
      else Some (False, s))"

definition process_relseq_fixup :: "aid \<Rightarrow> exec \<times> work_queue \<Rightarrow> (exec \<times> work_queue) option" where
  "process_relseq_fixup cur sw = (case sw of (s, work) \<Rightarrow> do {
     n \<leftarrow> get_node s cur;
     if pending_rel_seqs s = [] then None
     else do {
       let sequence = last (pending_rel_seqs s);
       let s1 = s\<lparr>pending_rel_seqs := butlast (pending_rel_seqs s)\<rparr>;
       rf \<leftarrow> rs_rf sequence;
       release \<leftarrow> rs_release sequence;
       if \<not> same_thread (A s release) (A s rf) then None
       else case get_relseq_break n of
         None \<Rightarrow> do {
           (b, s2) \<leftarrow> synchronize release (rs_acquire sequence) s1;
           if \<not> b then Some (s2, work)
           else do { (s3, work1) \<leftarrow> propagate_clockvector (rs_acquire sequence) (s2, work);
                     Some (snd (exec_checkDataRaces s3), work1) } }
       | Some write \<Rightarrow> do {
           (b1, s2) \<leftarrow> mo_add (ActObj release) (ActObj write) (False, s1);
           (b2, s3) \<leftarrow> mo_add (ActObj write) (ActObj rf) (False, s2);
           Some (snd (exec_checkDataRaces s3), work) } } })"

definition compute_relseq_breakwrites :: "aid \<Rightarrow> exec \<Rightarrow> exec option" where
  "compute_relseq_breakwrites cur s =
     (if pending_rel_seqs s = [] then Some s
      else upd_node cur (\<lambda>n. add_relseq_break None
             (fold (\<lambda>w. add_relseq_break (Some w)) (rs_writes (last (pending_rel_seqs s))) n)) s)"

end
