(* ===== verification/ExecStep.thy ===== *)
theory ExecStep
  imports ExecSync
begin

text \<open>
  \<open>execution.cc\<close>: one step of an execution. \<open>take_step\<close> takes the pending action of a thread,
  steps forward in the node stack, adds the action to the lists, computes what it may read
  from, and works off a queue: first the action itself (\<open>process_*\<close>), then the release
  sequences and modification order edges it affects. The work loop and the loop of a read that
  skips stale writes are partial functions: a result means that they ended.
\<close>

section \<open>Results of actions\<close>

definition set_return_value :: "aid \<Rightarrow> uint64 \<Rightarrow> exec \<Rightarrow> exec option" where
  "set_return_value cur v s = upd_thread (tid (A s cur)) (\<lambda>th. th\<lparr>last_action_val := v\<rparr>) s"

definition return_value_of :: "exec \<Rightarrow> aid \<Rightarrow> uint64 option" where
  "return_value_of s a = get_return_value (acts s) (\<lambda>p. fv_value (fv (the (proms s p)))) (A s a)"

section \<open>Reads\<close>

definition read_commit :: "exec \<Rightarrow> exec" where
  "read_commit s = s\<lparr>mo_graph := commitChanges (mo_graph s)\<rparr>"

definition begin_changes :: "exec \<Rightarrow> exec option" where
  "begin_changes s = do { g \<leftarrow> startChanges (mo_graph s); Some (s\<lparr>mo_graph := g\<rparr>) }"

definition process_read_promise :: "aid \<Rightarrow> node \<Rightarrow> exec \<Rightarrow> (bool \<times> exec) option" where
  "process_read_promise cur n s = do {
     po \<leftarrow> get_read_from_promise (acts s) n;
     p \<leftarrow> po;
     pr \<leftarrow> proms s p;
     let (failed, pr1) = add_reader cur (tid (A s cur)) pr;
     let s1 = s\<lparr>proms := (proms s)(p \<mapsto> pr1), failed_promise := failed_promise s \<or> failed\<rparr>;
     a \<leftarrow> set_read_from_promise p (A s1 cur);
     s2 \<leftarrow> begin_changes (upd_act cur (\<lambda>_. a) s1);
     recent \<leftarrow> check_recency s2 cur (PromObj p);
     let s3 = (if \<not> recent then s2\<lparr>too_many_reads := True\<rparr> else s2);
     (updated, s4) \<leftarrow> r_modification_order cur (PromObj p) s3;
     Some (updated, read_commit s4) }"

definition process_read_future :: "aid \<Rightarrow> node \<Rightarrow> exec \<Rightarrow> (bool \<times> exec) option" where
  "process_read_future cur n s = do {
     v \<leftarrow> get_future_value n;
     let p = next_pid s;
     let s1 = s\<lparr>proms := (proms s)(p \<mapsto> Promise_new cur (tid (A s cur)) v), next_pid := p + 1\<rparr>;
     a \<leftarrow> set_read_from_promise p (A s1 cur);
     let s2 = (upd_act cur (\<lambda>_. a) s1)\<lparr>promises := promises s1 @ [p]\<rparr>;
     s3 \<leftarrow> begin_changes s2;
     (updated, s4) \<leftarrow> r_modification_order cur (PromObj p) s3;
     Some (updated, read_commit s4) }"

definition process_read_past :: "aid \<Rightarrow> aid \<Rightarrow> exec \<Rightarrow> (bool \<times> exec) option" where
  "process_read_past cur rf s = do {
     (updated, s1) \<leftarrow> r_modification_order cur (ActObj rf) s;
     (b, s2) \<leftarrow> read_from cur rf s1;
     s3 \<leftarrow> mo_check_promises cur True (read_commit s2);
     Some (updated, s3) }"

text \<open>
  The outcome of a read from the past that is not recent: the next choice of the node (with the
  graph rolled back), or none left.
\<close>

partial_function (option) process_read_loop :: "aid \<Rightarrow> exec \<Rightarrow> (bool \<times> exec) option" where
  "process_read_loop cur s =
     Option.bind (act_node (A s cur)) (\<lambda>i. Option.bind (node_at s i) (\<lambda>n0.
     let (status, n) = get_read_from_status n0; s0 = put_node i n s in
     if status = READ_FROM_PAST then
       Option.bind (get_read_from_past n) (\<lambda>rf. Option.bind (begin_changes s0) (\<lambda>s1.
       if is_infeasible s1 then None
       else Option.bind (check_recency s1 cur (ActObj rf)) (\<lambda>recent.
         if recent then process_read_past cur rf s1
         else let (more, n1) = increment_read_from n; s2 = put_node i n1 s1
              in if more
                 then process_read_loop cur (s2\<lparr>mo_graph := rollbackChanges (mo_graph s2)\<rparr>)
                 else process_read_past cur rf (s2\<lparr>too_many_reads := True\<rparr>))))
     else if status = READ_FROM_PROMISE then process_read_promise cur n s0
     else if status = READ_FROM_FUTURE then process_read_future cur n s0
     else None))"

definition process_read :: "aid \<Rightarrow> exec \<Rightarrow> (bool \<times> exec) option" where
  "process_read cur s = do {
     (updated, s1) \<leftarrow> process_read_loop cur s;
     v \<leftarrow> return_value_of s1 cur;
     s2 \<leftarrow> set_return_value cur v s1;
     Some (updated, s2) }"

section \<open>Writes\<close>

definition pop_promise_to_resolve :: "aid \<Rightarrow> exec \<Rightarrow> (pid option \<times> exec) option" where
  "pop_promise_to_resolve cur s =
     (if promises s = [] then Some (None, s)
      else do {
        n \<leftarrow> get_node s cur;
        Some (case find (get_promise n) [0 ..< length (promises s)] of
                None \<Rightarrow> (None, s)
              | Some i \<Rightarrow> (Some (promises s ! i), s\<lparr>promises := vec_erase (promises s) i\<rparr>)) })"

definition resolve_reader :: "aid \<Rightarrow> aid \<Rightarrow> exec \<times> work_queue \<Rightarrow> (exec \<times> work_queue) option" where
  "resolve_reader write rd sw = do {
     (b, s1) \<leftarrow> read_from rd write (fst sw);
     if b then propagate_clockvector rd (s1, snd sw) else Some (s1, snd sw) }"

definition exec_resolve_promise :: "aid \<Rightarrow> pid \<Rightarrow> exec \<times> work_queue \<Rightarrow> (exec \<times> work_queue) option" where
  "exec_resolve_promise write p sw = do {
     pr \<leftarrow> proms (fst sw) p;
     (s1, work) \<leftarrow> fold_opt (resolve_reader write) (readers pr) sw;
     pr1 \<leftarrow> proms s1 p;
     compatible \<leftarrow> is_compatible (acts s1) pr1 (A s1 write);
     same \<leftarrow> same_value pr1 (A s1 write);
     if \<not> (compatible \<and> same) then None
     else do {
       (ok, g) \<leftarrow> resolvePromise (acts s1) (proms s1) p write (mo_graph s1);
       let s2 = s1\<lparr>mo_graph := g, hard_failed_promise := hard_failed_promise s1 \<or> \<not> ok\<rparr>;
       s3 \<leftarrow> fold_opt (\<lambda>rd. mo_check_promises rd True) (readers pr) s2;
       Some (s3, work) } }"

definition send_future :: "aid \<Rightarrow> aid option \<Rightarrow> aid \<Rightarrow> exec \<Rightarrow> exec option" where
  "send_future cur earliest rd s =
     (if (case earliest of None \<Rightarrow> True | Some e \<Rightarrow> earlier s rd e)
      then do { ok \<leftarrow> promises_may_allow s cur rd;
                if ok then exec_add_future_value cur rd s
                else Some (s\<lparr>futurevalues := futurevalues s @ [(cur, rd)]\<rparr>) }
      else Some s)"

definition recheck_future :: "nat \<Rightarrow> exec \<Rightarrow> exec option" where
  "recheck_future i s = (let (writer, reader) = futurevalues s ! i in do {
     ok \<leftarrow> promises_may_allow s writer reader;
     if ok
     then do { s1 \<leftarrow> exec_add_future_value writer reader s;
               Some (s1\<lparr>futurevalues := vec_erase (futurevalues s1) i\<rparr>) }
     else Some s })"

definition process_write :: "aid \<Rightarrow> exec \<times> work_queue \<Rightarrow> (bool \<times> exec \<times> work_queue) option" where
  "process_write cur sw = do {
     (updated_mod_order, send_fv, s1) \<leftarrow> w_modification_order cur True (fst sw);
     (po, s2) \<leftarrow> pop_promise_to_resolve cur s1;
     (earliest, s3, work) \<leftarrow>
       (case po of
          None \<Rightarrow> Some (None, s2, snd sw)
        | Some p \<Rightarrow> do { pr \<leftarrow> proms s2 p;
                        (s', w') \<leftarrow> exec_resolve_promise cur p (s2, snd sw);
                        Some (get_reader pr 0, s', w') });
     s4 \<leftarrow> fold_opt (send_future cur earliest) send_fv s3;
     s5 \<leftarrow> fold_opt recheck_future (rev [0 ..< length (futurevalues s4)]) s4;
     s6 \<leftarrow> mo_check_promises cur False (read_commit s5);
     s7 \<leftarrow> set_return_value cur VALUE_NONE s6;
     Some (updated_mod_order \<or> po \<noteq> None, s7, work) }"

section \<open>Mutexes and condition variables\<close>

definition wake_if_waiting :: "thread_id_t \<Rightarrow> (model_action \<Rightarrow> bool) \<Rightarrow> nat \<Rightarrow> exec \<Rightarrow> exec option" where
  "wake_if_waiting cur_thrd is_kind i s = do {
     w \<leftarrow> waiting_on s i;
     if w = Some cur_thrd
     then do { th \<leftarrow> get_thread s i; p \<leftarrow> th_pending th;
               if is_kind (A s p) then exec_wake i s else Some s }
     else Some s }"

definition waiters_of :: "exec \<Rightarrow> uint64 \<Rightarrow> aid list" where
  "waiters_of s loc = (case condvar_waiters_map s loc of None \<Rightarrow> [] | Some ws \<Rightarrow> ws)"

definition set_waiters :: "uint64 \<Rightarrow> aid list \<Rightarrow> exec \<Rightarrow> exec" where
  "set_waiters loc ws s = s\<lparr>condvar_waiters_map := (condvar_waiters_map s)(loc \<mapsto> ws)\<rparr>"

definition lock_mutex :: "aid \<Rightarrow> uint64 \<Rightarrow> mutex_state \<Rightarrow> exec \<Rightarrow> (bool \<times> exec) option" where
  "lock_mutex cur loc m s = do {
     c \<leftarrow> cv (A s cur);
     let s1 = (if getClock c (alloc_tid m) \<le> alloc_clock m
               then snd (assert_bug (MessageBug ''Lock access before initialization'') s) else s);
     let s2 = s1\<lparr>mutexes := (mutexes s1)(loc \<mapsto> m\<lparr>locked := Some (tid (A s cur))\<rparr>)\<rparr>;
     unlock \<leftarrow> get_last_unlock s2 cur;
     case unlock of
       None \<Rightarrow> Some (False, s2)
     | Some u \<Rightarrow> do { (b, s3) \<leftarrow> synchronize u cur s2; Some (True, s3) } }"

definition unlock_mutex :: "aid \<Rightarrow> uint64 \<Rightarrow> exec \<Rightarrow> exec option" where
  "unlock_mutex cur loc s = do {
     s1 \<leftarrow> fold_opt (wake_if_waiting (tid (A s cur)) is_lock) [0 ..< get_num_threads s] s;
     m \<leftarrow> mutexes s1 loc;
     Some (s1\<lparr>mutexes := (mutexes s1)(loc \<mapsto> m\<lparr>locked := None\<rparr>)\<rparr>) }"

definition process_mutex :: "aid \<Rightarrow> exec \<Rightarrow> (bool \<times> exec) option" where
  "process_mutex cur s =
     (let a = A s cur
      in case act_type a of
           ATOMIC_TRYLOCK \<Rightarrow> do {
             loc \<leftarrow> get_mutex a;
             m \<leftarrow> mutexes s loc;
             let success = (locked m = None);
             let s1 = upd_act cur (set_try_lock success) s;
             s2 \<leftarrow> set_return_value cur (if success then 1 else 0) s1;
             if success then lock_mutex cur loc m s2 else Some (False, s2) }
         | ATOMIC_LOCK \<Rightarrow> do {
             loc \<leftarrow> get_mutex a; m \<leftarrow> mutexes s loc; lock_mutex cur loc m s }
         | ATOMIC_UNLOCK \<Rightarrow> do {
             loc \<leftarrow> get_mutex a; s1 \<leftarrow> unlock_mutex cur loc s; Some (False, s1) }
         | ATOMIC_WAIT \<Rightarrow> do {
             loc \<leftarrow> get_mutex a;
             s1 \<leftarrow> unlock_mutex cur loc s;
             n \<leftarrow> get_node s1 cur;
             if get_misc n = 0
             then do { s2 \<leftarrow> exec_sleep (tid a)
                               (set_waiters (location a) (waiters_of s1 (location a) @ [cur]) s1);
                       Some (False, s2) }
             else Some (False, s1) }
         | ATOMIC_NOTIFY_ALL \<Rightarrow> do {
             s1 \<leftarrow> fold_opt (\<lambda>w t. exec_wake (tid (A t w)) t) (waiters_of s (location a)) s;
             Some (False, set_waiters (location a) [] s1) }
         | ATOMIC_NOTIFY_ONE \<Rightarrow> do {
             n \<leftarrow> get_node s cur;
             let ws = waiters_of s (location a);
             let i = nat (get_misc n);
             if i < length ws
             then do { s1 \<leftarrow> exec_wake (tid (A s (ws ! i))) s;
                       Some (False, set_waiters (location a) (vec_erase ws i) s1) }
             else None }
         | _ \<Rightarrow> None)"

section \<open>Threads\<close>

definition satisfy_by_child :: "thread_id_t \<Rightarrow> thread_id_t \<Rightarrow> pid \<Rightarrow> exec \<Rightarrow> exec option" where
  "satisfy_by_child parent child p s = do {
     pr \<leftarrow> proms s p;
     Some (if thread_is_available pr parent
           then s\<lparr>proms := (proms s)(p \<mapsto> add_thread child pr)\<rparr> else s) }"

definition eliminate_completed :: "thread_id_t \<Rightarrow> pid \<Rightarrow> exec \<Rightarrow> exec option" where
  "eliminate_completed t p s = do {
     pr \<leftarrow> proms s p;
     if thread_is_available pr t
     then (let (failed, pr1) = eliminate_thread t pr
           in Some (s\<lparr>proms := (proms s)(p \<mapsto> pr1), failed_promise := failed_promise s \<or> failed\<rparr>))
     else Some s }"

definition process_thread_action :: "aid \<Rightarrow> exec \<Rightarrow> (bool \<times> exec) option" where
  "process_thread_action cur s =
     (let a = A s cur
      in case act_type a of
           THREAD_CREATE \<Rightarrow> do {
             let (t, s1) = get_next_id s;
             let s2 = s1\<lparr>thrd_priv := (thrd_priv s1)(location a := t)\<rparr>;
             s3 \<leftarrow> add_thread_to t ((Thread_new (tid a))\<lparr>th_creation := Some cur\<rparr>) s2;
             s4 \<leftarrow> fold_opt (satisfy_by_child (tid a) t) (promises s3) s3;
             Some (False, s4) }
         | THREAD_JOIN \<Rightarrow> do {
             blocking \<leftarrow> get_thread_operand (thrd_priv s) (thread_at s) a;
             act \<leftarrow> get_last_action s blocking;
             (b, s1) \<leftarrow> synchronize act cur s;
             Some (True, s1) }
         | THREAD_FINISH \<Rightarrow> do {
             s1 \<leftarrow> fold_opt (wake_if_waiting (tid a) is_thread_join) [0 ..< get_num_threads s] s;
             th \<leftarrow> get_thread s1 (tid a);
             th' \<leftarrow> thread_complete th;
             s2 \<leftarrow> upd_thread (tid a) (\<lambda>_. th') s1;
             s3 \<leftarrow> fold_opt (eliminate_completed (tid a)) (promises s2) s2;
             Some (True, s3) }
         | THREAD_START \<Rightarrow> do {
             c \<leftarrow> cv a;
             s1 \<leftarrow> check_promises (tid a) None c s;
             Some (False, s1) }
         | _ \<Rightarrow> Some (False, s))"

definition check_action_enabled :: "aid \<Rightarrow> exec \<Rightarrow> (bool \<times> exec) option" where
  "check_action_enabled cur s =
     (let a = A s cur
      in if is_lock a
         then do { loc \<leftarrow> get_mutex a; m \<leftarrow> mutexes s loc; Some (locked m = None, s) }
         else if is_thread_join a
         then do { blocking \<leftarrow> get_thread_operand (thrd_priv s) (thread_at s) a;
                   th \<leftarrow> get_thread s blocking;
                   if th_state th \<noteq> THREAD_COMPLETED
                   then do { s1 \<leftarrow> thread_blocking_check_promises blocking (tid a) s;
                             Some (False, s1) }
                   else Some (True, s) }
         else if yieldblock (params s) \<and> is_yield a then Some (False, s)
         else Some (True, s))"

section \<open>Entering the action\<close>

definition satisfies_promise :: "exec \<Rightarrow> aid \<Rightarrow> pid \<Rightarrow> bool option" where
  "satisfies_promise s cur p = do {
     pr \<leftarrow> proms s p;
     compatible \<leftarrow> is_compatible (acts s) pr (A s cur);
     if \<not> compatible then Some False
     else do {
       same \<leftarrow> same_value pr (A s cur);
       Some (same \<and> \<not> list_ex (\<lambda>r. happens s r cur \<or> could_synchronize_with (A s r) (A s cur))
                     (readers pr)) } }"

definition compute_promise :: "aid \<Rightarrow> nat \<Rightarrow> exec \<Rightarrow> exec option" where
  "compute_promise cur i s = do {
     ok \<leftarrow> satisfies_promise s cur (promises s ! i);
     if ok then upd_node cur (set_promise i) s else Some s }"

definition compute_promises :: "aid \<Rightarrow> exec \<Rightarrow> exec option" where
  "compute_promises cur s = fold_opt (compute_promise cur) [0 ..< length (promises s)] s"

definition exec_process_rmw :: "aid \<Rightarrow> exec \<Rightarrow> (aid \<times> exec) option" where
  "exec_process_rmw act s = do {
     lastread \<leftarrow> get_last_action s (tid (A s act));
     let s1 = upd_act lastread (\<lambda>a. action_process_rmw a (A s act)) s;
     if is_rmw (A s act)
     then do {
       g \<leftarrow> (case reads_from (A s1 lastread) of
               Some rf \<Rightarrow> addRMWEdge (ActObj rf) lastread (mo_graph s1)
             | None \<Rightarrow> do { p \<leftarrow> reads_from_promise (A s1 lastread);
                            addRMWEdge (PromObj p) lastread (mo_graph s1) });
       Some (lastread, s1\<lparr>mo_graph := commitChanges g\<rparr>) }
     else Some (lastread, s1) }"

text \<open>\<open>create_cv\<close> with the clock vector of the thread's previous action.\<close>

definition fresh_cv :: "aid \<Rightarrow> exec \<Rightarrow> exec option" where
  "fresh_cv a s = do {
     parent \<leftarrow> get_parent_action s (tid (A s a));
     Some (upd_act a (create_cv (map_option (A s) parent)) s) }"

definition replay_matches :: "model_action \<Rightarrow> model_action \<Rightarrow> bool" where
  "replay_matches cur newcurr \<longleftrightarrow> location cur = location newcurr
     \<or> act_type cur = act_type newcurr
       \<and> act_type cur \<in> {THREAD_START, THREAD_CREATE, THREAD_YIELD, THREAD_FINISH}"

definition initialize_curr_action :: "aid \<Rightarrow> exec \<Rightarrow> (bool \<times> aid \<times> exec) option" where
  "initialize_curr_action cur s =
     (if is_rmwc (A s cur) \<or> is_rmw (A s cur)
      then do {
        (newcurr, s1) \<leftarrow> exec_process_rmw cur s;
        s2 \<leftarrow> (if is_rmw (A s1 newcurr) then compute_promises newcurr s1 else Some s1);
        Some (False, newcurr, s2) }
      else do {
        let (num, s1) = get_next_seq_num s;
        a \<leftarrow> set_seq_number num (A s1 cur);
        let s2 = upd_act cur (\<lambda>_. a) s1;
        (found, ns) \<leftarrow> explore_action (params s2) (get_num_threads s2) cur (tid a) (act_type a)
                        (Some (enabled (scheduler s2))) (node_stack s2);
        let s3 = s2\<lparr>node_stack := ns\<rparr>;
        case found of
          Some newcurr \<Rightarrow> do {
            let s4 = (if is_rmwr a then upd_act newcurr (\<lambda>x. copy_typeandorder x a) s3 else s3);
            if \<not> replay_matches a (A s4 newcurr) then None
            else do {
              s5 \<leftarrow> fresh_cv newcurr (upd_act newcurr (\<lambda>x. copy_from_new x a) s4);
              Some (False, newcurr, s5) } }
        | None \<Rightarrow> do {
            let s4 = upd_act cur (\<lambda>x. x\<lparr>act_node := Some (nat (head_idx ns))\<rparr>) s3;
            s5 \<leftarrow> fresh_cv cur s4;
            let s6 = upd_act cur (\<lambda>x. x\<lparr>last_fence_release := get_last_fence_release s5 (tid x)\<rparr>) s5;
            s7 \<leftarrow> (if is_write a then compute_promises cur s6
                   else if is_relseq_fixup a then compute_relseq_breakwrites cur s6
                   else if is_wait a then upd_node cur (set_misc_max 2) s6
                   else if is_notify_one a
                   then upd_node cur (set_misc_max (int (length (waiters_of s6 (location a)))))
                          (set_waiters (location a) (waiters_of s6 (location a)) s6)
                   else Some s6);
            Some (True, cur, s7) } })"

text \<open>The uninitialized store of an object: from the node, or a new action of the model thread.\<close>

definition get_uninitialized_action :: "aid \<Rightarrow> exec \<Rightarrow> (aid \<times> exec) option" where
  "get_uninitialized_action cur s = do {
     n \<leftarrow> get_node s cur;
     (u, s1) \<leftarrow> (case uninit_action n of
         Some u \<Rightarrow> Some (u, s)
       | None \<Rightarrow> do {
           a \<leftarrow> ModelAction_new ATOMIC_UNINIT memory_order_relaxed (location (A s cur))
                  (ucast (uninitvalue (params s))) INITIAL_THREAD_ID;
           let u = next_aid s;
           s' \<leftarrow> upd_node cur (\<lambda>m. m\<lparr>uninit_action := Some u\<rparr>)
                  (s\<lparr>acts := (acts s)(u \<mapsto> a), next_aid := u + 1\<rparr>);
           Some (u, s') });
     Some (u, upd_act u (create_cv None) s1) }"

text \<open>\<open>vec[tid].push_back(act)\<close> after the vector has grown to the number of threads.\<close>

definition push_thread_list :: "exec \<Rightarrow> uint64 \<Rightarrow> thread_id_t \<Rightarrow> aid \<Rightarrow> exec" where
  "push_thread_list s loc t act =
     (let vec0 = (case obj_thrd_map s loc of None \<Rightarrow> [] | Some v \<Rightarrow> v);
          vec = (if t \<ge> length vec0 then vec_resize vec0 (next_thread_id s) [] else vec0)
      in s\<lparr>obj_thrd_map := (obj_thrd_map s)(loc \<mapsto> vec[t := vec ! t @ [act]])\<rparr>)"

definition set_slot :: "nat \<Rightarrow> thread_id_t \<Rightarrow> aid \<Rightarrow> aid option list \<Rightarrow> aid option list" where
  "set_slot n t act v = (if length v \<le> t then vec_resize v n None else v)[t := Some act]"

definition obj_list :: "exec \<Rightarrow> uint64 \<Rightarrow> aid list" where
  "obj_list s loc = (case obj_map s loc of None \<Rightarrow> [] | Some xs \<Rightarrow> xs)"

definition add_uninit :: "aid \<Rightarrow> uint64 \<Rightarrow> exec \<Rightarrow> exec" where
  "add_uninit u loc s =
     (let t = tid (A s u)
      in s\<lparr>obj_map := (obj_map s)(loc \<mapsto> u # obj_list s loc),
           action_trace := u # action_trace s,
           obj_thrd_map := (obj_thrd_map s)(loc \<mapsto>
             (the (obj_thrd_map s loc))[t := u # the (obj_thrd_map s loc) ! t]),
           thrd_last_action := (thrd_last_action s)[t := Some u]\<rparr>)"

definition add_action_to_lists :: "aid \<Rightarrow> exec \<Rightarrow> exec option" where
  "add_action_to_lists act s = do {
     let a = A s act;
     (uninit, s0) \<leftarrow> (if obj_list s (location a) = [] \<and> is_atomic_var a
                      then do { (u, s') \<leftarrow> get_uninitialized_action act s; Some (Some u, s') }
                      else Some (None, s));
     let s1 = s0\<lparr>obj_map := (obj_map s0)(location a \<mapsto> obj_list s0 (location a) @ [act]),
                action_trace := action_trace s0 @ [act]\<rparr>;
     let s2 = push_thread_list s1 (location a) (tid a) act;
     let s3 = s2\<lparr>thrd_last_action := set_slot (get_num_threads s2) (tid a) act (thrd_last_action s2)\<rparr>;
     let s4 = (case uninit of None \<Rightarrow> s3 | Some u \<Rightarrow> add_uninit u (location a) s3);
     let s5 = (if is_fence a \<and> is_release a
               then s4\<lparr>thrd_last_fence_release :=
                      set_slot (get_num_threads s4) (tid a) act (thrd_last_fence_release s4)\<rparr>
               else s4);
     Some (if is_wait a
           then push_thread_list
                  (s5\<lparr>obj_map := (obj_map s5)(act_value a \<mapsto> obj_list s5 (act_value a) @ [act])\<rparr>)
                  (act_value a) (tid a) act
           else s5) }"

section \<open>The work loop\<close>

definition check_curr_work ::
  "aid \<Rightarrow> bool \<Rightarrow> aid \<Rightarrow> exec \<times> work_queue \<Rightarrow> (exec \<times> work_queue) option" where
  "check_curr_work cur second act sw = do {
     (u1, s1) \<leftarrow> process_thread_action cur (fst sw);
     (u2, s2) \<leftarrow> (if is_read (A s1 act) \<and> \<not> second then process_read act s1 else Some (False, s1));
     (u3, s3, w3) \<leftarrow> (if is_write (A s2 act) then process_write act (s2, snd sw)
                       else Some (False, s2, snd sw));
     (u4, s4) \<leftarrow> (if is_fence (A s3 act) then process_fence act s3 else Some (False, s3));
     (u5, s5) \<leftarrow> (if is_mutex_op (A s4 act) then process_mutex act s4 else Some (False, s4));
     (s6, w6) \<leftarrow> (if is_relseq_fixup (A s5 act) then process_relseq_fixup cur (s5, w3)
                   else Some (s5, w3));
     Some (s6, if u1 \<or> u4 \<or> u5 then w6 @ [CheckRelSeqWorkEntry 0]
               else if u2 \<or> u3 then w6 @ [CheckRelSeqWorkEntry (location (A s6 act))]
               else w6) }"

definition mo_edges_work :: "aid \<Rightarrow> exec \<times> work_queue \<Rightarrow> (exec \<times> work_queue) option" where
  "mo_edges_work act sw = do {
     let s = fst sw;
     (u1, s1) \<leftarrow>
       (if \<not> is_read (A s act) then Some (False, s)
        else case reads_from (A s act) of
          Some rf \<Rightarrow> do {
            (b, s') \<leftarrow> r_modification_order act (ActObj rf) s;
            bad \<leftarrow> (if is_seqcst (A s' act)
                     then do { w \<leftarrow> get_last_seq_cst_write s' act;
                               Some (case w of None \<Rightarrow> False | Some x \<Rightarrow> happens s' rf x) }
                     else Some False);
            Some (b, if bad then set_bad_sc_read s' else s') }
        | None \<Rightarrow>
            (case reads_from_promise (A s act) of
               Some p \<Rightarrow> r_modification_order act (PromObj p) s
             | None \<Rightarrow> Some (False, s)));
     (u2, s2) \<leftarrow>
       (if is_write (A s1 act)
        then do { (b, fvs, s') \<leftarrow> w_modification_order act False s1; Some (b, s') }
        else Some (False, s1));
     Some (read_commit s2, if u1 \<or> u2 then snd sw @ [CheckRelSeqWorkEntry (location (A s2 act))]
                           else snd sw) }"

fun work_step ::
  "aid \<Rightarrow> bool \<Rightarrow> work_entry \<Rightarrow> exec \<times> work_queue \<Rightarrow> (exec \<times> work_queue) option" where
  "work_step cur second (CheckCurrWorkEntry act) sw = check_curr_work cur second act sw"
| "work_step cur second (CheckRelSeqWorkEntry loc) sw =
     map_option snd (resolve_release_sequences loc sw)"
| "work_step cur second (MOEdgeWorkEntry act) sw = mo_edges_work act sw"

partial_function (option) work_loop :: "aid \<Rightarrow> bool \<Rightarrow> exec \<times> work_queue \<Rightarrow> exec option" where
  "work_loop cur second sw =
     (case snd sw of
        [] \<Rightarrow> Some (fst sw)
      | w # ws \<Rightarrow>
          if has_asserted (fst sw) then Some (fst sw)
          else Option.bind (work_step cur second w (fst sw, ws)) (work_loop cur second))"

definition update_yield_of :: "aid \<Rightarrow> exec \<Rightarrow> exec option" where
  "update_yield_of cur s = do {
     i \<leftarrow> act_node (A s cur);
     n \<leftarrow> node_at s i;
     parent \<leftarrow> get_node_parent s cur;
     n1 \<leftarrow> update_yield (sched_is_enabled (scheduler s)) (is_yield (A s (nd_action n))) parent n;
     Some (put_node i n1 s) }"

definition check_current_action :: "aid \<Rightarrow> exec \<Rightarrow> (aid \<times> exec) option" where
  "check_current_action cur0 s = do {
     let second = (is_rmwc (A s cur0) \<or> is_rmw (A s cur0));
     (newly_explored, cur, s1) \<leftarrow> initialize_curr_action cur0 s;
     s2 \<leftarrow> wake_up_sleeping_actions cur s1;
     s3 \<leftarrow> (if yieldon (params s2) then update_yield_of cur s2 else Some s2);
     s4 \<leftarrow> (if \<not> second then add_action_to_lists cur s3 else Some s3);
     s5 \<leftarrow> (if newly_explored \<and> is_read (A s4 cur) then build_may_read_from cur s4 else Some s4);
     s6 \<leftarrow> work_loop cur second (s5, [CheckCurrWorkEntry cur]);
     s7 \<leftarrow> check_curr_backtracking cur s6;
     s8 \<leftarrow> set_backtracking cur s7;
     Some (cur, s8) }"

definition action_select_next_thread :: "aid \<Rightarrow> exec \<Rightarrow> thread_id_t option" where
  "action_select_next_thread cur s =
     (if is_rmwr (A s cur) then Some (tid (A s cur))
      else if act_type (A s cur) = THREAD_CREATE
      then get_thread_operand (thrd_priv s) (thread_at s) (A s cur)
      else None)"

definition take_step :: "aid \<Rightarrow> exec \<Rightarrow> (thread_id_t option \<times> exec) option" where
  "take_step cur s = do {
     let t = tid (A s cur);
     th \<leftarrow> get_thread s t;
     if th_state th \<noteq> THREAD_READY then None
     else do {
       (en, s1) \<leftarrow> check_action_enabled cur s;
       if \<not> en then None
       else do {
         (cur1, s2) \<leftarrow> check_current_action cur s1;
         th1 \<leftarrow> get_thread s2 t;
         let s3 = (if th_state th1 = THREAD_BLOCKED \<or> th_state th1 = THREAD_COMPLETED
                   then exec_remove_thread t s2 else s2);
         Some (action_select_next_thread cur1 s3, s3) } } }"

text \<open>At the end of an execution: one fixup action per pending release sequence.\<close>

partial_function (option) fixup_release_sequences :: "exec \<Rightarrow> exec option" where
  "fixup_release_sequences s =
     (if pending_rel_seqs s \<noteq> [] \<and> is_feasible_prefix_ignore_relseq s
         \<and> haveUnrealizedRaces (races s)
      then Option.bind (ModelAction_new MODEL_FIXUP_RELSEQ memory_order_seq_cst 0 VALUE_NONE
                          INITIAL_THREAD_ID) (\<lambda>a.
           Option.bind (take_step (next_aid s)
             (s\<lparr>acts := (acts s)(next_aid s \<mapsto> a), next_aid := next_aid s + 1\<rparr>))
             (\<lambda>r. fixup_release_sequences (snd r)))
      else Some s)"

end
