(* ===== verification/ExecSample.thy ===== *)
theory ExecSample
  imports ExecStep
begin

text \<open>
  A small execution on which the properties of \<open>execution.cc\<close> are tried: four threads besides
  the model thread, an atomic object, and the actions the single witnesses add to it.
\<close>

definition sample_act ::
  "action_type \<Rightarrow> memory_order \<Rightarrow> uint64 \<Rightarrow> uint64 \<Rightarrow> thread_id_t \<Rightarrow> nat \<Rightarrow> nat list \<Rightarrow> model_action" where
  "sample_act ty ord loc v t n c =
     \<lparr>act_type = ty, order = ord, original_order = ord, location = loc, tid = t, act_value = v,
      reads_from = None, reads_from_promise = None, last_fence_release = None, act_node = None,
      seq_number = of_nat n, cv = Some (map of_nat c), sleep_flag = False\<rparr>"

definition sample_exec :: "action_store \<Rightarrow> exec" where
  "sample_exec as = the (ModelExecution_new sample_params as (\<lambda>_. 1) (\<lambda>_. 1) NodeStack_new
     (initRaceDetector 16 32) 100 0)"

lemma sample_exec_eq:
  "sample_exec as = \<lparr>params = sample_params, acts = as, proms = Map.empty, mutexes = Map.empty,
     thrd_priv = \<lambda>_. 1, thread_at = \<lambda>_. 1, scheduler = Scheduler_new, node_stack = NodeStack_new,
     action_trace = [], thread_map = [Some Thread_model, None], obj_map = Map.empty,
     condvar_waiters_map = Map.empty, obj_thrd_map = Map.empty, promises = [],
     futurevalues = [], pending_rel_seqs = [], thrd_last_action = [None],
     thrd_last_fence_release = [], mo_graph = CycleGraph_new, races = initRaceDetector 16 32,
     next_thread_id = 1, used_sequence_numbers = 0,
     next_backtrack = None, bugs = [], failed_promise = False,
     hard_failed_promise = False, too_many_reads = False, no_valid_reads = False,
     bad_synchronization = False, bad_sc_read = False, asserted = False,
     next_aid = 100, next_pid = 0\<rparr>"
  by (simp add: sample_exec_def ModelExecution_new_def Let_def get_next_id_def INITIAL_THREAD_ID_def
      add_thread_to_def Thread_model_def)

lemmas sample_simps = sample_exec_eq sample_act_def sample_params_def Thread_model_def A_def
  happens_def earlier_def happens_before_def cv_of_def synchronized_since_def act_less_def

end
