(* ===== verification/ExecLists.thy ===== *)
theory ExecLists
  imports ExecSample
begin

text \<open>
  The two views of the actions on an object: the list of all of them in execution order
  (\<open>obj_map\<close>) and the lists per thread (\<open>obj_thrd_map\<close>) that the searches of the execution use.
  \<open>add_action_to_lists\<close> is the only operation that changes them; it keeps them consistent.
\<close>

definition thread_lists :: "exec \<Rightarrow> uint64 \<Rightarrow> aid list list" where
  "thread_lists s loc = (case obj_thrd_map s loc of None \<Rightarrow> [] | Some v \<Rightarrow> v)"

definition views_agree :: "exec \<Rightarrow> bool" where
  "views_agree s \<longleftrightarrow>
     (\<forall>loc t. vec_get (thread_lists s loc) t [] = filter (\<lambda>a. tid (A s a) = t) (obj_list s loc))"

text \<open>Only known actions of known threads are listed, and none twice.\<close>

definition listed_ok :: "exec \<Rightarrow> bool" where
  "listed_ok s \<longleftrightarrow> 0 < next_thread_id s
     \<and> (\<forall>loc. \<forall>a \<in> set (obj_list s loc). a < next_aid s \<and> tid (A s a) < next_thread_id s)"

definition lists_ok :: "exec \<Rightarrow> bool" where
  "lists_ok s \<longleftrightarrow> views_agree s \<and> listed_ok s"

lemma obj_list_upd:
  "obj_map s' = (obj_map s)(loc \<mapsto> xs) \<Longrightarrow> obj_list s' l = (if l = loc then xs else obj_list s l)"
  by (simp add: obj_list_def)

lemma thread_lists_upd:
  "obj_thrd_map s' = (obj_thrd_map s)(loc \<mapsto> v) \<Longrightarrow> thread_lists s' l = (if l = loc then v else thread_lists s l)"
  by (simp add: thread_lists_def)

text \<open>Appending an action to both views.\<close>

lemma push_lists_ok:
  assumes "lists_ok s" and "tid (A s act) < next_thread_id s" and "act < next_aid s"
    and s1: "s1 = s\<lparr>obj_map := (obj_map s)(loc \<mapsto> obj_list s loc @ [act]), action_trace := tr\<rparr>"
  shows "lists_ok (push_thread_list s1 loc (tid (A s act)) act)"
    and "0 < length (thread_lists (push_thread_list s1 loc (tid (A s act)) act) loc)"
    and "obj_list (push_thread_list s1 loc (tid (A s act)) act) l
      = (if l = loc then obj_list s loc @ [act] else obj_list s l)"
proof -
  let ?t = "tid (A s act)"
  let ?s = "push_thread_list s1 loc ?t act"
  let ?vec = "if ?t \<ge> length (thread_lists s loc) then vec_resize (thread_lists s loc) (next_thread_id s) []
     else thread_lists s loc"
  have m: "obj_thrd_map ?s = (obj_thrd_map s)(loc \<mapsto> ?vec[?t := ?vec ! ?t @ [act]])"
    by (simp add: push_thread_list_def thread_lists_def s1 Let_def split: option.split)
  have o: "obj_list ?s l = (if l = loc then obj_list s loc @ [act] else obj_list s l)" for l
    by (rule obj_list_upd) (simp add: push_thread_list_def s1 Let_def)
  have a: "A ?s = A s" "next_aid ?s = next_aid s" "next_thread_id ?s = next_thread_id s"
    by (simp_all add: push_thread_list_def s1 Let_def A_def fun_eq_iff)
  have len: "?t < length ?vec" using assms(2) by simp
  have get: "vec_get ?vec i [] = vec_get (thread_lists s loc) i []" for i
    using assms(2) by (simp add: vec_get_resize)
  have at: "?vec ! ?t = vec_get ?vec ?t []" using len by (simp add: vec_get_def)
  have "vec_get (thread_lists ?s l) i [] = filter (\<lambda>a. tid (A s a) = i) (obj_list ?s l)" for l i
  proof -
    have v: "vec_get (thread_lists s l) i [] = filter (\<lambda>a. tid (A s a) = i) (obj_list s l)" for l i
      using assms(1) by (simp add: lists_ok_def views_agree_def)
    show ?thesis
      unfolding thread_lists_upd [OF m] o
      using len get at v by (simp add: vec_get_update)
  qed
  moreover have "listed_ok ?s"
    using assms(1-3) unfolding lists_ok_def listed_ok_def a o by auto
  ultimately show "lists_ok ?s" by (simp add: lists_ok_def views_agree_def a)
  show "0 < length (thread_lists ?s loc)"
    unfolding thread_lists_upd [OF m] if_P [OF HOL.refl] length_list_update using len by linarith
  show "obj_list ?s l = (if l = loc then obj_list s loc @ [act] else obj_list s l)" by (rule o)
qed

text \<open>Putting the uninitialized store in front of both views.\<close>

lemma add_uninit_lists_ok:
  assumes "lists_ok s" and "tid (A s u) < length (thread_lists s loc)"
    and "tid (A s u) < next_thread_id s" and "u < next_aid s"
  shows "lists_ok (add_uninit u loc s)"
    and "obj_list (add_uninit u loc s) l = (if l = loc then u # obj_list s loc else obj_list s l)"
proof -
  let ?t = "tid (A s u)" and ?s = "add_uninit u loc s" and ?v = "thread_lists s loc"
  have "the (obj_thrd_map s loc) = ?v" using assms(2) by (auto simp: thread_lists_def split: option.splits)
  then have m: "obj_thrd_map ?s = (obj_thrd_map s)(loc \<mapsto> ?v[?t := u # ?v ! ?t])"
    by (simp add: add_uninit_def Let_def)
  have o: "obj_list ?s l = (if l = loc then u # obj_list s loc else obj_list s l)" for l
    by (rule obj_list_upd) (simp add: add_uninit_def Let_def)
  have a: "A ?s = A s" "next_aid ?s = next_aid s" "next_thread_id ?s = next_thread_id s"
    by (simp_all add: add_uninit_def Let_def A_def fun_eq_iff)
  have v: "vec_get (thread_lists s l) i [] = filter (\<lambda>a. tid (A s a) = i) (obj_list s l)" for l i
    using assms(1) by (simp add: lists_ok_def views_agree_def)
  have at: "?v ! ?t = vec_get ?v ?t []" using assms(2) by (simp add: vec_get_def)
  have "vec_get (thread_lists ?s l) i [] = filter (\<lambda>a. tid (A s a) = i) (obj_list ?s l)" for l i
    unfolding thread_lists_upd [OF m] o using assms(2) at v by (simp add: vec_get_update)
  moreover have "listed_ok ?s"
    using assms unfolding lists_ok_def listed_ok_def a o by auto
  ultimately show "lists_ok ?s" by (simp add: lists_ok_def views_agree_def a)
  show "obj_list ?s l = (if l = loc then u # obj_list s loc else obj_list s l)" by (rule o)
qed

text \<open>
  The uninitialized store is a store of the initial thread: the node's, or a new one, which no
  list contains yet.
\<close>

definition uninit_ok :: "exec \<Rightarrow> aid \<Rightarrow> bool" where
  "uninit_ok s cur \<longleftrightarrow> (\<forall>n u. get_node s cur = Some n \<longrightarrow> uninit_action n = Some u \<longrightarrow>
     u < next_aid s \<and> tid (A s u) = INITIAL_THREAD_ID)"

lemma get_uninitialized_action_keeps:
  assumes "get_uninitialized_action cur s = Some (u, s')" and "lists_ok s" and "uninit_ok s cur"
    and "cur < next_aid s"
  shows "lists_ok s'" and "obj_map s' = obj_map s" and "obj_thrd_map s' = obj_thrd_map s"
    and "u < next_aid s'" and "tid (A s' u) = INITIAL_THREAD_ID" and "next_thread_id s' = next_thread_id s"
    and "next_aid s \<le> next_aid s'" and "a < next_aid s \<Longrightarrow> tid (A s' a) = tid (A s a)"
    and "action_trace s' = action_trace s" and "thrd_last_action s' = thrd_last_action s"
    and "thrd_last_fence_release s' = thrd_last_fence_release s"
proof -
  consider (old) "u < next_aid s" "tid (A s u) = INITIAL_THREAD_ID" "s' = upd_act u (create_cv None) s"
    | (new) i m b where "u = next_aid s" "tid b = INITIAL_THREAD_ID"
        "s' = upd_act u (create_cv None) (put_node i m (s\<lparr>acts := (acts s)(u \<mapsto> b), next_aid := u + 1\<rparr>))"
  proof -
    from assms(1) [unfolded get_uninitialized_action_def Let_def] obtain n s1
      where n: "get_node s cur = Some n" and s': "s' = upd_act u (create_cv None) s1"
      and u: "(case uninit_action n of Some v \<Rightarrow> Some (v, s)
         | None \<Rightarrow> do {
             b \<leftarrow> ModelAction_new ATOMIC_UNINIT memory_order_relaxed (location (A s cur))
                    (ucast (uninitvalue (params s))) INITIAL_THREAD_ID;
             s2 \<leftarrow> upd_node cur (\<lambda>m. m\<lparr>uninit_action := Some (next_aid s)\<rparr>)
                    (s\<lparr>acts := (acts s)(next_aid s \<mapsto> b), next_aid := next_aid s + 1\<rparr>);
             Some (next_aid s, s2) }) = Some (u, s1)"
      by (auto simp: bind_eq_Some_conv)
    show thesis
    proof (cases "uninit_action n")
      case None
      with u obtain b where b: "ModelAction_new ATOMIC_UNINIT memory_order_relaxed (location (A s cur))
          (ucast (uninitvalue (params s))) INITIAL_THREAD_ID = Some b"
        and s2: "upd_node cur (\<lambda>m. m\<lparr>uninit_action := Some (next_aid s)\<rparr>)
          (s\<lparr>acts := (acts s)(next_aid s \<mapsto> b), next_aid := next_aid s + 1\<rparr>) = Some s1" "u = next_aid s"
        by (auto simp: bind_eq_Some_conv)
      from s2(1) obtain i m where "s1 = put_node i m (s\<lparr>acts := (acts s)(u \<mapsto> b), next_aid := u + 1\<rparr>)"
        unfolding upd_node_def bind_eq_Some_conv s2(2) by blast
      moreover have "tid b = INITIAL_THREAD_ID" using b by (auto simp: ModelAction_new_def split: if_splits)
      ultimately show ?thesis using s' s2(2) new by blast
    next
      case (Some v)
      with u s' n assms(3) old show ?thesis by (auto simp: uninit_ok_def)
    qed
  qed
  then have K: "obj_map s' = obj_map s \<and> obj_thrd_map s' = obj_thrd_map s \<and> u < next_aid s'
    \<and> tid (A s' u) = INITIAL_THREAD_ID \<and> next_thread_id s' = next_thread_id s \<and> next_aid s \<le> next_aid s'
    \<and> (\<forall>a < next_aid s. tid (A s' a) = tid (A s a)) \<and> action_trace s' = action_trace s
    \<and> thrd_last_action s' = thrd_last_action s
    \<and> thrd_last_fence_release s' = thrd_last_fence_release s"
    by cases (auto simp: upd_act_def put_node_def A_def)
  then show "obj_map s' = obj_map s" and "obj_thrd_map s' = obj_thrd_map s"
    and "u < next_aid s'" and "tid (A s' u) = INITIAL_THREAD_ID" and "next_thread_id s' = next_thread_id s"
    and "next_aid s \<le> next_aid s'" and "a < next_aid s \<Longrightarrow> tid (A s' a) = tid (A s a)"
    and "action_trace s' = action_trace s" and "thrd_last_action s' = thrd_last_action s"
    and "thrd_last_fence_release s' = thrd_last_fence_release s" by simp_all
  have o: "obj_list s' = obj_list s" "thread_lists s' = thread_lists s"
    using K by (simp_all only: fun_eq_iff obj_list_def thread_lists_def simp_thms)
  have "filter (\<lambda>a. tid (A s' a) = t) (obj_list s l) = filter (\<lambda>a. tid (A s a) = t) (obj_list s l)" for t l
    using assms(2) K by (intro filter_cong) (auto simp: lists_ok_def listed_ok_def)
  moreover have "listed_ok s'"
    using assms(2) K unfolding lists_ok_def listed_ok_def o by (auto intro: less_le_trans)
  ultimately show "lists_ok s'"
    using assms(2) by (simp add: lists_ok_def views_agree_def o)
qed

lemma lists_ok_frame:
  assumes "lists_ok s" and "obj_map s' = obj_map s" and "obj_thrd_map s' = obj_thrd_map s"
    and "acts s' = acts s" and "next_aid s' = next_aid s" and "next_thread_id s' = next_thread_id s"
  shows "lists_ok s'"
proof -
  have "obj_list s' = obj_list s" "thread_lists s' = thread_lists s" "A s' = A s"
    using assms by (simp_all only: fun_eq_iff obj_list_def thread_lists_def A_def simp_thms)
  then show ?thesis using assms by (simp add: lists_ok_def views_agree_def listed_ok_def)
qed

text \<open>
  C23: the object's list and the lists of its threads always agree: the list of a thread is the
  object's list restricted to the actions of that thread, in the same order, whatever action
  is added. The new action comes last, after the uninitialized store of the initial thread
  when it is the first atomic access to the object; a wait is also listed with its mutex.
\<close>

theorem add_action_keeps_lists:
  assumes "add_action_to_lists act s = Some s'" and "lists_ok s" and "uninit_ok s act"
    and "act < next_aid s" and "tid (A s act) < next_thread_id s"
  shows "lists_ok s' \<and> (\<exists>us. (us = [] \<or> (\<exists>u. us = [u] \<and> obj_list s (location (A s act)) = []
        \<and> is_atomic_var (A s act) \<and> tid (A s' u) = INITIAL_THREAD_ID))
     \<and> (\<forall>l. obj_list s' l
          = (if l = location (A s act) then us @ obj_list s l @ [act] else obj_list s l)
            @ (if is_wait (A s act) \<and> l = act_value (A s act) then [act] else [])))"
proof -
  let ?loc = "location (A s act)" and ?t = "tid (A s act)"
  from assms(1) [unfolded add_action_to_lists_def Let_def] obtain uninit s0 where
    s0: "(if obj_list s ?loc = [] \<and> is_atomic_var (A s act)
          then do { (u, s') \<leftarrow> get_uninitialized_action act s; Some (Some u, s') }
          else Some (None, s)) = Some (uninit, s0)"
    by (auto simp: bind_eq_Some_conv)
  define s1 where "s1 = s0\<lparr>obj_map := (obj_map s0)(?loc \<mapsto> obj_list s0 ?loc @ [act]),
      action_trace := action_trace s0 @ [act]\<rparr>"
  define s2 where "s2 = push_thread_list s1 ?loc ?t act"
  define s3 where "s3 = s2\<lparr>thrd_last_action := set_slot (get_num_threads s2) ?t act (thrd_last_action s2)\<rparr>"
  define s4 where "s4 = (case uninit of None \<Rightarrow> s3 | Some u \<Rightarrow> add_uninit u ?loc s3)"
  define s5 where "s5 = (if is_fence (A s act) \<and> is_release (A s act)
     then s4\<lparr>thrd_last_fence_release := set_slot (get_num_threads s4) ?t act (thrd_last_fence_release s4)\<rparr>
     else s4)"
  have s': "s' = (if is_wait (A s act)
      then push_thread_list (s5\<lparr>obj_map := (obj_map s5)(act_value (A s act) \<mapsto> obj_list s5 (act_value (A s act)) @ [act])\<rparr>)
             (act_value (A s act)) ?t act else s5)"
    using assms(1)
    unfolding add_action_to_lists_def Let_def s0 Option.bind.bind_lunit prod.case s1_def [symmetric]
      s2_def [symmetric] s3_def [symmetric] s4_def [symmetric] s5_def [symmetric]
    by simp
  have K0: "lists_ok s0 \<and> obj_list s0 = obj_list s \<and> next_thread_id s0 = next_thread_id s \<and>
      next_aid s \<le> next_aid s0 \<and> tid (A s0 act) = ?t \<and>
      (\<forall>u. uninit = Some u \<longrightarrow> obj_list s ?loc = [] \<and> is_atomic_var (A s act) \<and> u < next_aid s0
         \<and> tid (A s0 u) = INITIAL_THREAD_ID)"
  proof (cases "obj_list s ?loc = [] \<and> is_atomic_var (A s act)")
    case True
    with s0 obtain u where u: "uninit = Some u" "get_uninitialized_action act s = Some (u, s0)"
      by (auto simp: bind_eq_Some_conv)
    note G = get_uninitialized_action_keeps [OF u(2) assms(2,3,4)]
    show ?thesis using G u(1) True assms(4) by (simp add: fun_eq_iff obj_list_def)
  qed (use s0 assms in auto)
  have t0: "tid (A s0 act) = ?t" using K0 by blast
  have K2: "lists_ok s2" "0 < length (thread_lists s2 ?loc)"
      "obj_list s2 l = (if l = ?loc then obj_list s l @ [act] else obj_list s l)" for l
    using push_lists_ok [of s0 act s1, where loc = ?loc and tr = "action_trace s0 @ [act]"] K0 assms(4,5)
    by (simp_all add: s2_def t0) (simp_all add: s1_def)
  have F2: "A s2 = A s0" "next_aid s2 = next_aid s0" "next_thread_id s2 = next_thread_id s"
    using K0 by (simp_all add: s2_def s1_def push_thread_list_def Let_def A_def fun_eq_iff)
  have K3: "lists_ok s3" by (rule lists_ok_frame [OF K2(1)]) (simp_all add: s3_def)
  have F3: "A s3 = A s0" "next_aid s3 = next_aid s0" "next_thread_id s3 = next_thread_id s"
      "obj_list s3 = obj_list s2" "thread_lists s3 = thread_lists s2"
    using F2 by (simp_all add: s3_def A_def fun_eq_iff obj_list_def thread_lists_def)
  define us where "us = (case uninit of None \<Rightarrow> [] | Some u \<Rightarrow> [u])"
  have K4: "lists_ok s4 \<and> A s4 = A s0 \<and> next_aid s4 = next_aid s0 \<and> next_thread_id s4 = next_thread_id s \<and>
      (\<forall>l. obj_list s4 l = (if l = ?loc then us @ obj_list s l @ [act] else obj_list s l))"
  proof (cases uninit)
    case None
    then show ?thesis using K3 F3 K2(3) by (simp add: s4_def us_def)
  next
    case (Some u)
    then have u: "u < next_aid s3" "tid (A s3 u) = 0"
      using K0 F3 by (simp_all add: INITIAL_THREAD_ID_def)
    note G = add_uninit_lists_ok [OF K3, of u ?loc]
    have "A s4 = A s3" "next_aid s4 = next_aid s3" "next_thread_id s4 = next_thread_id s3"
      by (simp_all add: s4_def Some add_uninit_def Let_def A_def fun_eq_iff)
    then show ?thesis using G u K2(2,3) F3 assms(5) by (simp add: s4_def Some us_def)
  qed
  have K5: "lists_ok s5" by (rule lists_ok_frame [of s4]) (use K4 in \<open>simp_all add: s5_def\<close>)
  have F5: "A s5 = A s0" "next_aid s5 = next_aid s0" "next_thread_id s5 = next_thread_id s"
      "obj_list s5 = obj_list s4"
    using K4 by (simp_all add: s5_def A_def fun_eq_iff obj_list_def)
  have K6: "lists_ok s' \<and> A s' = A s0 \<and> (\<forall>l. obj_list s' l
      = obj_list s5 l @ (if is_wait (A s act) \<and> l = act_value (A s act) then [act] else []))"
  proof (cases "is_wait (A s act)")
    case False
    then show ?thesis using K5 F5 by (simp add: s')
  next
    case True
    have "A s' = A s5" using True by (simp add: s' push_thread_list_def Let_def A_def fun_eq_iff)
    then show ?thesis
      using push_lists_ok [OF K5, of act, where loc = "act_value (A s act)" and tr = "action_trace s5"] K0 True F5 assms(4,5)
      by (simp add: s')
  qed
  have "us = [] \<or> (\<exists>u. us = [u] \<and> obj_list s ?loc = [] \<and> is_atomic_var (A s act) \<and> tid (A s' u) = INITIAL_THREAD_ID)"
    using K0 K6 by (cases uninit) (simp_all add: us_def)
  then show ?thesis using K6 K4 F5(4) by (intro conjI exI [of _ us]) simp_all
qed

definition lists_exec :: exec where
  "lists_exec = (sample_exec [1 \<mapsto> (sample_act ATOMIC_WRITE memory_order_relaxed 64 7 1 1 [0, 1])\<lparr>act_node := Some 0\<rparr>])
     \<lparr>node_stack := NodeStack_new\<lparr>node_list := [sample_node]\<rparr>, next_thread_id := 2\<rparr>"

lemma lists_step: "\<exists>s'. add_action_to_lists 1 lists_exec = Some s'"
  by (simp add: add_action_to_lists_def lists_exec_def sample_simps action_defs get_uninitialized_action_def
      get_node_def node_at_def sample_node_eq ModelAction_new_def upd_node_def obj_list_def Let_def)

theorem add_action_keeps_lists_witness:
  "\<exists>s'. add_action_to_lists 1 lists_exec = Some s' \<and> lists_ok s'
     \<and> (\<exists>us. obj_list s' 64 = us @ [1] \<and> length us \<le> 1)"
proof -
  obtain s' where s': "add_action_to_lists 1 lists_exec = Some s'" using lists_step by blast
  have ok: "lists_ok lists_exec" "uninit_ok lists_exec 1" "1 < next_aid lists_exec"
    "tid (A lists_exec 1) < next_thread_id lists_exec"
    by (simp_all add: lists_exec_def sample_simps lists_ok_def views_agree_def listed_ok_def uninit_ok_def
        thread_lists_def obj_list_def vec_get_def get_node_def node_at_def sample_node_eq)
  have "location (A lists_exec 1) = 64" "\<not> is_wait (A lists_exec 1)" "obj_list lists_exec 64 = []"
    by (simp_all add: lists_exec_def sample_simps obj_list_def action_defs)
  with add_action_keeps_lists [OF s' ok] s' show ?thesis by fastforce
qed

end
