(* ===== verification/ExecRelease.thy ===== *)
theory ExecRelease
  imports ExecSample
begin

text \<open>
  Release sequences: what \<open>release_seq_heads\<close> reports. A head is a release store of the chain of
  RMWs that is read from, the release fence before such a store, or the last release of the
  thread of the chain's first store; the latter only if no store of another thread can have come
  between the two in the modification order.
\<close>

section \<open>The chain of RMWs\<close>

inductive rf_chain :: "exec \<Rightarrow> aid \<Rightarrow> aid \<Rightarrow> bool" for s rf where
  start: "rf_chain s rf rf"
| rmw: "rf_chain s rf x \<Longrightarrow> is_rmw (A s x) \<Longrightarrow> reads_from (A s x) = Some y \<Longrightarrow> rf_chain s rf y"

definition chain_head :: "exec \<Rightarrow> aid \<Rightarrow> aid \<Rightarrow> bool" where
  "chain_head s rf h \<longleftrightarrow> (\<exists>x. rf_chain s rf x
     \<and> (h = x \<and> is_release (A s x) \<or> last_fence_release (A s x) = Some h))"

lemma rs_chain_heads:
  assumes "rs_chain s r heads = Some (heads', complete, r')"
    and "\<forall>x. r = Some x \<longrightarrow> rf_chain s rf x" and "\<forall>h \<in> set heads. chain_head s rf h"
  shows "(\<forall>x. r' = Some x \<longrightarrow> rf_chain s rf x) \<and> (\<forall>h \<in> set heads'. chain_head s rf h)"
proof -
  have "(\<forall>x. r = Some x \<longrightarrow> rf_chain s rf x) \<longrightarrow> (\<forall>h \<in> set heads. chain_head s rf h) \<longrightarrow>
      (\<forall>x. snd (snd y) = Some x \<longrightarrow> rf_chain s rf x) \<and> (\<forall>h \<in> set (fst y). chain_head s rf h)"
    if "rs_chain s r heads = Some y" for y
  proof (rule rs_chain.raw_induct [OF _ that])
    fix rec :: "exec \<Rightarrow> aid option \<Rightarrow> aid list \<Rightarrow> (aid list \<times> bool \<times> aid option) option"
      and s r heads y
    assume IH: "\<And>s' r' heads' y'. rec s' r' heads' = Some y' \<Longrightarrow>
        (\<forall>x. r' = Some x \<longrightarrow> rf_chain s' rf x) \<longrightarrow> (\<forall>h \<in> set heads'. chain_head s' rf h) \<longrightarrow>
        (\<forall>x. snd (snd y') = Some x \<longrightarrow> rf_chain s' rf x) \<and> (\<forall>h \<in> set (fst y'). chain_head s' rf h)"
      and step: "(case r of None \<Rightarrow> Some (heads, False, None)
        | Some rf \<Rightarrow> if \<not> is_write (A s rf) then None
            else (let heads1 = (if is_release (A s rf) then heads @ [rf]
                    else case last_fence_release (A s rf) of Some f \<Rightarrow> heads @ [f] | None \<Rightarrow> heads)
                  in if \<not> is_rmw (A s rf) then Some (heads1, False, Some rf)
                     else if is_acquire (A s rf) \<and> is_release (A s rf) then Some (heads1, True, Some rf)
                     else rec s (reads_from (A s rf)) heads1)) = Some y"
    show "(\<forall>x. r = Some x \<longrightarrow> rf_chain s rf x) \<longrightarrow> (\<forall>h \<in> set heads. chain_head s rf h) \<longrightarrow>
        (\<forall>x. snd (snd y) = Some x \<longrightarrow> rf_chain s rf x) \<and> (\<forall>h \<in> set (fst y). chain_head s rf h)"
    proof (intro impI)
      assume r: "\<forall>x. r = Some x \<longrightarrow> rf_chain s rf x" and h: "\<forall>h \<in> set heads. chain_head s rf h"
      show "(\<forall>x. snd (snd y) = Some x \<longrightarrow> rf_chain s rf x) \<and> (\<forall>h \<in> set (fst y). chain_head s rf h)"
      proof (cases r)
        case None
        with step h show ?thesis by auto
      next
        case (Some x)
        define heads1 where "heads1 = (if is_release (A s x) then heads @ [x]
            else case last_fence_release (A s x) of Some f \<Rightarrow> heads @ [f] | None \<Rightarrow> heads)"
        have x: "rf_chain s rf x" using r Some by simp
        have h1: "\<forall>h \<in> set heads1. chain_head s rf h"
          using h x by (auto simp: heads1_def chain_head_def split: option.splits)
        have chained: "\<forall>z. reads_from (A s x) = Some z \<longrightarrow> rf_chain s rf z" if "is_rmw (A s x)"
          using rf_chain.rmw [OF x that] by blast
        from step Some have "(if \<not> is_rmw (A s x) then Some (heads1, False, Some x)
            else if is_acquire (A s x) \<and> is_release (A s x) then Some (heads1, True, Some x)
            else rec s (reads_from (A s x)) heads1) = Some y"
          by (simp only: heads1_def [symmetric] Let_def option.case) (auto split: if_split_asm)
        then show ?thesis using IH [of s "reads_from (A s x)" heads1 y] chained h1 x by (auto split: if_splits)
      qed
    qed
  qed
  from this [OF assms(1)] assms(2,3) show ?thesis by simp
qed

section \<open>The other threads\<close>

text \<open>
  A store \<open>a\<close> of another thread cannot come between \<open>release\<close> and \<open>rf\<close> if it is ordered after
  \<open>rf\<close> or not after \<open>release\<close>, or if a later action \<open>b\<close> of its thread precedes \<open>release\<close>.
\<close>

definition precedes :: "exec \<Rightarrow> aid \<Rightarrow> aid \<Rightarrow> bool" where
  "precedes s a b \<longleftrightarrow> happens s a b \<or> is_write (A s a) \<and> \<not> is_rmw (A s a)
     \<and> checkReachable (mo_graph s) (ActObj a) (ActObj b)"

definition after_store :: "exec \<Rightarrow> aid \<Rightarrow> aid \<Rightarrow> bool" where
  "after_store s rf a \<longleftrightarrow> happens s rf a \<or> checkReachable (mo_graph s) (ActObj rf) (ActObj a)"

definition unbroken_in :: "exec \<Rightarrow> aid \<Rightarrow> aid \<Rightarrow> aid list \<Rightarrow> bool" where
  "unbroken_in s release rf xs \<longleftrightarrow> (\<forall>as a bs. xs = as @ a # bs \<longrightarrow> is_write (A s a) \<longrightarrow> \<not> is_rmw (A s a) \<longrightarrow>
     after_store s rf a \<or> (\<exists>b \<in> set (a # bs). precedes s b release))"

lemma unbroken_Cons:
  "unbroken_in s release rf seen \<Longrightarrow>
   (is_write (A s act) \<and> \<not> is_rmw (A s act) \<Longrightarrow> after_store s rf act) \<Longrightarrow>
   unbroken_in s release rf (act # seen)"
  unfolding unbroken_in_def by (auto simp: Cons_eq_append_conv)

lemma unbroken_stop:
  assumes "unbroken_in s release rf seen" and "precedes s act release"
  shows "unbroken_in s release rf (pre @ act # seen)"
  unfolding unbroken_in_def
proof (intro allI impI)
  fix as a bs
  assume eq: "pre @ act # seen = as @ a # bs" and w: "is_write (A s a)" "\<not> is_rmw (A s a)"
  from eq consider us where "pre = as @ us" "us @ act # seen = a # bs"
    | us where "pre @ us = as" "act # seen = us @ a # bs"
    unfolding append_eq_append_conv2 by blast
  then show "after_store s rf a \<or> (\<exists>b \<in> set (a # bs). precedes s b release)"
  proof cases
    case (1 us)
    have "act \<in> set (a # bs)" unfolding 1(2) [symmetric] by simp
    then show ?thesis using assms(2) by blast
  next
    case (2 us)
    show ?thesis
    proof (cases us)
      case Nil
      with 2(2) assms(2) show ?thesis by simp
    next
      case (Cons u vs)
      then have "seen = vs @ a # bs" using 2(2) by simp
      then show ?thesis using assms(1) w unfolding unbroken_in_def by blast
    qed
  qed
qed

lemma rs_scan_unbroken:
  assumes "rs_scan s rf release older fo writes certain = Some (fo', writes', True)"
    and "unbroken_in s release rf seen"
  shows "certain \<and> unbroken_in s release rf (rev older @ seen)"
  using assms
proof (induction older arbitrary: fo writes certain seen)
  case Nil
  then show ?case by simp
next
  case (Cons act older)
  let ?w = "is_write (A s act) \<and> \<not> is_rmw (A s act)"
  let ?reach = "\<lambda>a b. checkReachable (mo_graph s) (ActObj a) (ActObj b)"
  consider (stop) "precedes s act release" "certain"
    | (go) fo1 writes1 where "rs_scan s rf release older fo1 writes1 certain = Some (fo', writes', True)"
        "?w \<Longrightarrow> after_store s rf act"
    | (doubt) fo1 writes1 where "rs_scan s rf release older fo1 writes1 False = Some (fo', writes', True)"
    using Cons.prems(1) by (auto simp: Let_def precedes_def after_store_def split: if_splits)
  then show ?case
  proof cases
    case stop
    with unbroken_stop [OF Cons.prems(2) stop(1)] show ?thesis by simp
  next
    case go
    show ?thesis using Cons.IH [OF go(1) unbroken_Cons [OF Cons.prems(2) go(2)]] by simp
  next
    case doubt
    show ?thesis using Cons.IH [OF doubt, of "[]"] by (simp add: unbroken_in_def)
  qed
qed

lemma rs_threads_unbroken:
  assumes "rs_threads s rf release tls is writes certain = Some (Some (writes', True))"
  shows "certain \<and> (\<forall>i \<in> set is. i \<noteq> tid (A s rf) \<longrightarrow> unbroken_in s release rf (tls ! i))"
  using assms
proof (induction "is" arbitrary: writes certain)
  case Nil
  then show ?case by simp
next
  case (Cons i "is")
  show ?case
  proof (cases "tid (A s rf) = i")
    case True
    with Cons.prems Cons.IH [of writes certain] show ?thesis by auto
  next
    case False
    with Cons.prems obtain fo fo1 writes1 certain1 where
      scan: "rs_scan s rf release (rev (tls ! i)) fo writes certain = Some (fo1, writes1, certain1)" and
      rest: "rs_threads s rf release tls is writes1 (if fo1 then certain1 else False) = Some (Some (writes', True))"
      by (auto simp: bind_eq_Some_conv Let_def split: if_splits option.splits)
    from Cons.IH [OF rest] have c: "certain1"
      and others: "\<forall>j \<in> set is. j \<noteq> tid (A s rf) \<longrightarrow> unbroken_in s release rf (tls ! j)"
      by (auto split: if_splits)
    have "certain \<and> unbroken_in s release rf (tls ! i)"
      using rs_scan_unbroken [of s rf release "rev (tls ! i)" fo writes certain fo1 writes1 "[]"] scan c
      by (simp add: unbroken_in_def)
    with others show ?thesis by simp
  qed
qed

section \<open>Heads of release sequences\<close>

text \<open>The actions of the thread of \<open>x\<close> on the object up to \<open>x\<close>.\<close>

definition up_to :: "exec \<Rightarrow> aid \<Rightarrow> aid set" where
  "up_to s x = (case obj_thrd_map s (location (A s x)) of None \<Rightarrow> {}
     | Some tls \<Rightarrow> (case back_to x (tls ! tid (A s x)) of None \<Rightarrow> {} | Some ys \<Rightarrow> set ys))"

definition unbroken :: "exec \<Rightarrow> aid \<Rightarrow> aid \<Rightarrow> bool" where
  "unbroken s release rf \<longleftrightarrow> (\<forall>tls i. obj_thrd_map s (location (A s rf)) = Some tls \<longrightarrow>
     i < length tls \<longrightarrow> i \<noteq> tid (A s rf) \<longrightarrow> unbroken_in s release rf (tls ! i))"

lemma rs_release_of_release:
  "rs_release_of s x f older = Some h \<Longrightarrow> is_release (A s h) \<and> h \<in> set older"
  by (auto simp: rs_release_of_def Let_def find_Some_iff in_set_conv_nth split: option.splits if_splits)

text \<open>
  C14: every head that \<open>release_seq_heads\<close> reports is the release operation of a release sequence
  the store read from belongs to: along the chain of RMWs, a store that is itself a release, or
  the release fence before it, or a release of the same thread before the chain's first store,
  and in that case no store of any other thread can lie between the two.
\<close>

theorem release_heads_sound:
  assumes "release_seq_heads s (Some rf) pending = Some (complete, heads, pending')"
    and "\<And>x f. rf_chain s rf x \<Longrightarrow> last_fence_release (A s x) = Some f \<Longrightarrow> is_release (A s f)" and "h \<in> set heads"
  shows "is_release (A s h) \<and> (\<exists>x. rf_chain s rf x
     \<and> (h = x \<or> last_fence_release (A s x) = Some h \<or> h \<in> up_to s x \<and> same_thread (A s x) (A s h) \<and> unbroken s h x))"
proof (cases "checkForCycles (mo_graph s)")
  case True
  with assms(1,3) show ?thesis by (simp add: release_seq_heads_def)
next
  case False
  from assms(1) False obtain heads0 c rf1 where
    chain: "rs_chain s (Some rf) [] = Some (heads0, c, rf1)"
    by (auto simp: release_seq_heads_def bind_eq_Some_conv split: if_splits)
  have C: "\<And>x. rf1 = Some x \<Longrightarrow> rf_chain s rf x" "\<And>h. h \<in> set heads0 \<Longrightarrow> chain_head s rf h"
    using rs_chain_heads [OF chain, of rf] by (auto intro: rf_chain.start)
  have ok0: ?thesis if "chain_head s rf h" using that assms(2) by (auto simp: chain_head_def)
  show ?thesis
  proof (cases "h \<in> set heads0")
    case True
    then show ?thesis using C ok0 by blast
  next
    case notin: False
    from assms(1,3) False notin obtain x where x: "rf1 = Some x" "\<not> c" "\<not> is_release (A s x)"
      unfolding release_seq_heads_def chain Option.bind.bind_lunit prod.case
      by (auto split: if_splits option.splits)
    define heads1 where "heads1 = (case last_fence_release (A s x) of None \<Rightarrow> heads0 | Some f \<Rightarrow> heads0 @ [f])"
    have h1: "g \<in> set heads1 \<Longrightarrow> chain_head s rf g" for g
      using C x(1) by (auto simp: heads1_def chain_head_def split: option.splits)
    show ?thesis
    proof (cases "h \<in> set heads1")
      case True
      then show ?thesis using h1 ok0 by blast
    next
      case new: False
      from assms(1) False x obtain tls older where
        tls: "obj_thrd_map s (location (A s x)) = Some tls" and
        older: "back_to x (tls ! tid (A s x)) = Some older" and
        r: "(case rs_release_of s x (last_fence_release (A s x)) older of
           None \<Rightarrow> Some (True, heads1, pending)
         | Some release \<Rightarrow>
             if \<not> same_thread (A s x) (A s release) then None
             else do {
               r \<leftarrow> rs_threads s x release tls [0 ..< length tls] [] True;
               Some (case r of
                 None \<Rightarrow> (True, heads1, pending)
               | Some (writes, certain) \<Rightarrow>
                   if certain then (True, heads1 @ [release], pending\<lparr>rs_writes := []\<rparr>)
                   else (False, heads1, pending\<lparr>rs_release := Some release, rs_rf := Some x, rs_writes := writes\<rparr>)) })
         = Some (complete, heads, pending')"
        unfolding release_seq_heads_def chain Option.bind.bind_lunit prod.case Let_def heads1_def
        by (auto simp: bind_eq_Some_conv split: if_splits)
      from r assms(3) new obtain g where g: "rs_release_of s x (last_fence_release (A s x)) older = Some g"
        by (auto split: option.splits)
      with r obtain res where st: "same_thread (A s x) (A s g)"
        and thr: "rs_threads s x g tls [0 ..< length tls] [] True = Some res"
        and res: "(case res of None \<Rightarrow> (True, heads1, pending)
          | Some (writes, certain) \<Rightarrow>
              if certain then (True, heads1 @ [g], pending\<lparr>rs_writes := []\<rparr>)
              else (False, heads1, pending\<lparr>rs_release := Some g, rs_rf := Some x, rs_writes := writes\<rparr>))
          = (complete, heads, pending')"
        by (auto simp: bind_eq_Some_conv split: if_splits)
      obtain writes where certain: "res = Some (writes, True)" and h: "h = g"
      proof (cases res)
        case None
        with res assms(3) new show ?thesis by simp
      next
        case (Some p)
        obtain ws b where "p = (ws, b)" by fastforce
        with Some res assms(3) new that show ?thesis by (cases b) auto
      qed
      note rel = g [folded h] and st = st [folded h] and thr = thr [folded h, unfolded certain]
      have "unbroken s h x" using rs_threads_unbroken [OF thr] tls by (simp add: unbroken_def)
      moreover have "h \<in> up_to s x" using rs_release_of_release [OF rel] tls older by (simp add: up_to_def)
      ultimately show ?thesis using rs_release_of_release [OF rel] C(1) [OF x(1)] st by blast
    qed
  qed
qed

inductive_cases rf_chainE: "rf_chain s rf y"

definition release_exec :: exec where
  "release_exec = (sample_exec [1 \<mapsto> sample_act ATOMIC_WRITE memory_order_release 64 7 1 1 [0, 1],
       3 \<mapsto> sample_act ATOMIC_WRITE memory_order_relaxed 64 8 1 2 [0, 2]])
     \<lparr>obj_thrd_map := [64 \<mapsto> [[], [1, 3]]]\<rparr>"

definition no_pending :: release_seq where
  "no_pending = \<lparr>rs_acquire = 9, rs_read = 9, rs_rf = None, rs_release = None, rs_writes = []\<rparr>"

lemmas release_simps = release_exec_def sample_simps action_defs

lemma release_step:
  "release_seq_heads release_exec (Some 3) no_pending = Some (True, [1], no_pending)"
  by (simp add: release_seq_heads_def rs_chain.simps release_simps checkForCycles_def CycleGraph_new_def
      rs_release_of_def Let_def back_to_def same_thread_def upt_rec get_thread_def get_last_action_def
      exec_is_enabled_def sched_is_enabled_def Scheduler_new_def no_pending_def)

lemma release_fence: "last_fence_release (A release_exec 3) = None" "is_release (A release_exec 1)" "(1 :: aid) \<noteq> 3"
  by (simp_all add: release_simps)

lemma release_chain: "rf_chain release_exec 3 x \<Longrightarrow> x = 3"
  by (induction rule: rf_chain.induct) (simp_all add: release_simps)

theorem release_heads_sound_witness:
  "release_seq_heads release_exec (Some 3) no_pending = Some (True, [1], no_pending)
   \<and> is_release (A release_exec 1) \<and> unbroken release_exec 1 3"
proof -
  have "is_release (A release_exec 1) \<and> (\<exists>x. rf_chain release_exec 3 x
     \<and> (1 = x \<or> last_fence_release (A release_exec x) = Some 1
        \<or> 1 \<in> up_to release_exec x \<and> same_thread (A release_exec x) (A release_exec 1) \<and> unbroken release_exec 1 x))"
  proof (rule release_heads_sound [OF release_step])
    show "is_release (A release_exec f)"
      if "rf_chain release_exec 3 x" and "last_fence_release (A release_exec x) = Some f" for x f
      using that release_chain [OF that(1)] release_fence(1) by simp
  qed simp
  then show ?thesis
    using release_step release_fence by (metis option.distinct(1) release_chain)
qed

end
