(* ===== verification/ExecRecency.thy ===== *)
theory ExecRecency
  imports ExecSample
begin

text \<open>
  \<open>check_recency\<close>, the model checker's rule of liveness: a thread may not read the same stale
  store for ever. The nested loops of the code are compared with one declarative condition.
\<close>

section \<open>The reference\<close>

text \<open>A read of \<open>rf\<close> that had another choice.\<close>

definition read_same :: "exec \<Rightarrow> mo_obj \<Rightarrow> aid \<Rightarrow> bool" where
  "read_same s rf act \<longleftrightarrow> is_read (A s act)
     \<and> (\<forall>p. reads_from_promise (A s act) = Some p \<longrightarrow> PromObj p = rf)
     \<and> (\<forall>w. reads_from (A s act) = Some w \<longrightarrow> ActObj w = rf)
     \<and> (\<exists>n. get_node s act = Some n \<and> 1 < rf_choices_size n)"

definition choice_of :: "exec \<Rightarrow> node \<Rightarrow> mo_obj \<Rightarrow> bool" where
  "choice_of s n x \<longleftrightarrow> (\<exists>w \<in> set (read_from_past n). x = ActObj w)
     \<or> (\<exists>i < get_read_from_promise_size n. \<exists>p. read_from_promise_at s n i = Some p \<and> x = PromObj p)"

text \<open>
  The read is stale: the last \<open>maxreads\<close> actions of the thread on the object all read \<open>rf\<close>, and
  there is a newer store that each of them, and the current read, could have read instead.
\<close>

definition stale_read :: "exec \<Rightarrow> aid \<Rightarrow> mo_obj \<Rightarrow> bool" where
  "stale_read s cur rf \<longleftrightarrow> maxreads (params s) \<noteq> 0 \<and>
     (\<exists>n older. get_node s cur = Some n \<and> 1 < rf_choices_size n \<and> older_in_thread s cur = Some older
        \<and> nat (maxreads (params s)) \<le> length older
        \<and> (\<forall>act \<in> set (take (nat (maxreads (params s))) older). read_same s rf act)
        \<and> (\<exists>x. x \<noteq> rf \<and> choice_of s n x \<and> checkReachable (mo_graph s) rf x
             \<and> (\<forall>act \<in> set (take (nat (maxreads (params s))) older). may_read_from s act x = Some True)))"

section \<open>The loops\<close>

lemma few_reads_exact:
  "few_reads s rf k older = Some b \<Longrightarrow>
   \<not> b \<longleftrightarrow> k \<le> length older \<and> (\<forall>act \<in> set (take k older). read_same s rf act)"
proof (induction k arbitrary: older)
  case 0
  then show ?case by simp
next
  case (Suc k)
  show ?case
  proof (cases older)
    case Nil
    with Suc.prems show ?thesis by simp
  next
    case (Cons act rest)
    show ?thesis
    proof (cases "read_same s rf act")
      case True
      with Suc.prems Cons have "few_reads s rf k rest = Some b"
        by (auto simp: read_same_def split: if_splits option.splits)
      with Suc.IH [OF this] True Cons show ?thesis by simp
    next
      case False
      with Suc.prems Cons have b
        by (auto simp: read_same_def bind_eq_Some_conv split: if_splits option.splits)
      with False Cons show ?thesis by auto
    qed
  qed
qed

lemma all_may_read_exact:
  "all_may_read s x k older = Some b \<Longrightarrow> k \<le> length older \<Longrightarrow>
   b \<longleftrightarrow> (\<forall>act \<in> set (take k older). may_read_from s act x = Some True)"
proof (induction k arbitrary: older)
  case 0
  then show ?case by simp
next
  case (Suc k)
  then obtain act rest where o: "older = act # rest" by (cases older) auto
  from Suc.prems o obtain m where m: "may_read_from s act x = Some m"
    and r: "(if \<not> m then Some False else all_may_read s x k rest) = Some b"
    by (auto simp: bind_eq_Some_conv)
  show ?case
  proof (cases m)
    case True
    with r Suc.prems(2) o have "b \<longleftrightarrow> (\<forall>act \<in> set (take k rest). may_read_from s act x = Some True)"
      by (intro Suc.IH) simp_all
    with True m o show ?thesis by simp
  qed (use r m o in simp)
qed

lemma exists_opt_exact:
  "exists_opt f xs = Some b \<Longrightarrow>
   (b \<longrightarrow> (\<exists>x \<in> set xs. f x = Some True)) \<and> (\<not> b \<longrightarrow> (\<forall>x \<in> set xs. f x = Some False))"
  by (induction xs) (auto simp: bind_eq_Some_conv split: if_splits)

definition better :: "exec \<Rightarrow> mo_obj \<Rightarrow> nat \<Rightarrow> aid list \<Rightarrow> mo_obj \<Rightarrow> bool" where
  "better s rf k older x \<longleftrightarrow> x \<noteq> rf \<and> checkReachable (mo_graph s) rf x
     \<and> (\<forall>act \<in> set (take k older). may_read_from s act x = Some True)"

lemma should_read_instead_exact:
  assumes "should_read_instead s cur rf x = Some b" and "older_in_thread s cur = Some older"
    and "nat (maxreads (params s)) \<le> length older"
  shows "b \<longleftrightarrow> better s rf (nat (maxreads (params s))) older x"
  using assms all_may_read_exact [OF _ assms(3), of s x]
  by (auto simp: should_read_instead_def better_def split: if_splits)

text \<open>
  C24: \<open>check_recency\<close> refuses a read exactly when it is stale: with \<open>maxreads\<close> set, the thread's
  last \<open>maxreads\<close> actions on the object read the same store although they had a choice, and some
  other store, ordered after it, was a choice for all of them and is one for the current read.
\<close>

theorem check_recency_exact:
  assumes "check_recency s cur rf = Some ok"
  shows "ok \<longleftrightarrow> \<not> stale_read s cur rf"
proof (cases "maxreads (params s) = 0")
  case True
  with assms show ?thesis by (simp add: check_recency_def stale_read_def)
next
  case reads: False
  let ?k = "nat (maxreads (params s))"
  from assms reads obtain n where n: "get_node s cur = Some n"
    by (auto simp: check_recency_def bind_eq_Some_conv)
  show ?thesis
  proof (cases "rf_choices_size n \<le> 1")
    case True
    with assms reads n show ?thesis by (simp add: check_recency_def stale_read_def)
  next
    case choices: False
    from assms reads n choices obtain older few where
      older: "older_in_thread s cur = Some older" and few: "few_reads s rf ?k older = Some few"
      by (auto simp: check_recency_def bind_eq_Some_conv)
    note F = few_reads_exact [OF few]
    show ?thesis
    proof (cases few)
      case True
      with assms reads n choices older few F show ?thesis
        by (auto simp: check_recency_def stale_read_def)
    next
      case False
      with F have len: "?k \<le> length older" and same: "\<forall>act \<in> set (take ?k older). read_same s rf act"
        by simp_all
      note S = should_read_instead_exact [OF _ older len]
      from assms reads n choices older few False obtain newer where
        newer: "exists_opt (\<lambda>w. should_read_instead s cur rf (ActObj w)) (read_from_past n) = Some newer" and
        rest: "newer \<and> \<not> ok \<or> \<not> newer \<and> exists_opt (\<lambda>i. do { p \<leftarrow> read_from_promise_at s n i;
             should_read_instead s cur rf (PromObj p) }) [0 ..< get_read_from_promise_size n] = Some (\<not> ok)"
        by (auto simp: check_recency_def bind_eq_Some_conv split: if_splits)
      have stale: "stale_read s cur rf \<longleftrightarrow> (\<exists>x. choice_of s n x \<and> better s rf ?k older x)"
        using reads n choices older len same by (auto simp: stale_read_def better_def)
      show ?thesis
      proof (cases newer)
        case True
        with exists_opt_exact [OF newer] obtain w where
          "w \<in> set (read_from_past n)" "should_read_instead s cur rf (ActObj w) = Some True" by blast
        with S have "choice_of s n (ActObj w)" "better s rf ?k older (ActObj w)"
          by (auto simp: choice_of_def)
        with True rest stale show ?thesis by blast
      next
        case None: False
        have past: "\<not> better s rf ?k older (ActObj w)" if "w \<in> set (read_from_past n)" for w
          using exists_opt_exact [OF newer] None that S by blast
        from None rest have ex: "exists_opt (\<lambda>i. do { p \<leftarrow> read_from_promise_at s n i;
            should_read_instead s cur rf (PromObj p) }) [0 ..< get_read_from_promise_size n] = Some (\<not> ok)"
          by simp
        show ?thesis
        proof (cases ok)
          case True
          have "\<not> better s rf ?k older (PromObj p)"
            if "i < get_read_from_promise_size n" "read_from_promise_at s n i = Some p" for i p
          proof -
            have "i \<in> set [0 ..< get_read_from_promise_size n]" using that(1) by simp
            with exists_opt_exact [OF ex] True that(2)
            have "should_read_instead s cur rf (PromObj p) = Some False" by fastforce
            then show ?thesis using S by blast
          qed
          with past have "\<not> (choice_of s n x \<and> better s rf ?k older x)" for x
            unfolding choice_of_def by blast
          with True stale show ?thesis by blast
        next
          case False
          with exists_opt_exact [OF ex] obtain i p where
            "i < get_read_from_promise_size n" "read_from_promise_at s n i = Some p"
            "should_read_instead s cur rf (PromObj p) = Some True" by (auto simp: bind_eq_Some_conv)
          with S have "choice_of s n (PromObj p)" "better s rf ?k older (PromObj p)"
            by (auto simp: choice_of_def)
          with False stale show ?thesis by blast
        qed
      qed
    qed
  qed
qed

definition recency_exec :: exec where
  "recency_exec = (sample_exec [1 \<mapsto> sample_act ATOMIC_WRITE memory_order_relaxed 64 7 1 1 [0, 1],
       2 \<mapsto> sample_act ATOMIC_WRITE memory_order_relaxed 64 8 1 2 [0, 2],
       3 \<mapsto> (sample_act ATOMIC_READ memory_order_relaxed 64 0 2 3 [0, 0, 3])
              \<lparr>act_node := Some 0, reads_from := Some 1\<rparr>,
       4 \<mapsto> (sample_act ATOMIC_READ memory_order_relaxed 64 0 2 4 [0, 0, 4])\<lparr>act_node := Some 1\<rparr>])
     \<lparr>params := sample_params\<lparr>maxreads := 1\<rparr>, obj_thrd_map := [64 \<mapsto> [[], [1, 2], [3, 4]]],
      node_stack := NodeStack_new\<lparr>node_list :=
        [sample_node\<lparr>read_from_past := [1, 2]\<rparr>, sample_node\<lparr>read_from_past := [1, 2]\<rparr>]\<rparr>,
      mo_graph := snd (the (addEdge (ActObj 1) (ActObj 2) CycleGraph_new))\<rparr>"

lemmas recency_simps = recency_exec_def sample_simps action_defs get_node_def node_at_def sample_node_eq

lemma recency_step: "check_recency recency_exec 4 (ActObj 1) = Some False"
  by (simp add: check_recency_def recency_simps rf_choices_size_def get_read_from_past_size_def
      get_read_from_promise_size_def older_in_thread_def should_read_instead_def graph_eval checkReachable_def)

theorem check_recency_exact_witness:
  "check_recency recency_exec 4 (ActObj 1) = Some False \<and> stale_read recency_exec 4 (ActObj 1)"
  using check_recency_exact [OF recency_step] recency_step by simp

end
