(* ===== verification/UserLib.thy ===== *)
theory UserLib
  imports Actions
begin

text \<open>
  The library a program under test is compiled against: \<open>cmodelint.cc\<close>, \<open>include/impatomic.h\<close>,
  \<open>impatomic.cc\<close> (atomics), \<open>mutex.cc\<close>, \<open>conditionvariable.cc\<close>, \<open>libthreads.cc\<close> (threads),
  \<open>librace.cc\<close> (checked non-atomic accesses), \<open>libannotate.cc\<close> and the hook of \<open>MODEL_ASSERT\<close>.

  A thread of the program is a tree of what it asks of the model checker, \<open>user_prog\<close>: to switch
  to the master context with a new action and to go on with the value returned; to check a
  plain access for races; to read or change memory unseen by the model checker; to construct a
  mutex; to create a thread; to report a bug. A library function is a function on such trees,
  whose last argument is the rest of the program. Programs may run forever, so the trees are a
  codatatype.
\<close>

section \<open>Programs\<close>

type_synonym user_memory = "uint64 \<Rightarrow> 8 word"

text \<open>
  The location of \<open>SwitchThread\<close> is a thread object: the given thread's, or the current one's.
  \<open>Spawn\<close> carries the address of the \<open>thrd_t\<close>, the address of the \<open>thread_params\<close>, the routine of
  the new thread and the rest of the creating one. \<open>Return\<close> is the end of a start routine,
  \<open>Exited\<close> the end of the thread after its last action.
\<close>

codatatype user_prog =
    Return
  | Exited
  | Switch action_type memory_order uint64 uint64 "uint64 \<Rightarrow> user_prog"
  | SwitchThread action_type "thread_id_t option" uint64 user_prog
  | RaceCheck bool uint64 user_prog
  | Plain "user_memory \<Rightarrow> user_memory \<times> user_prog"
  | MutexInit uint64 user_prog
  | Spawn uint64 uint64 user_prog user_prog
  | UserBug string user_prog

section \<open>The C interface\<close>

definition model_read_action :: "uint64 \<Rightarrow> memory_order \<Rightarrow> (uint64 \<Rightarrow> user_prog) \<Rightarrow> user_prog" where
  "model_read_action obj ord k = Switch ATOMIC_READ ord obj VALUE_NONE k"

definition model_write_action :: "uint64 \<Rightarrow> memory_order \<Rightarrow> uint64 \<Rightarrow> user_prog \<Rightarrow> user_prog" where
  "model_write_action obj ord val k = Switch ATOMIC_WRITE ord obj val (\<lambda>_. k)"

definition model_init_action :: "uint64 \<Rightarrow> uint64 \<Rightarrow> user_prog \<Rightarrow> user_prog" where
  "model_init_action obj val k = Switch ATOMIC_INIT memory_order_relaxed obj val (\<lambda>_. k)"

definition model_rmwr_action :: "uint64 \<Rightarrow> memory_order \<Rightarrow> (uint64 \<Rightarrow> user_prog) \<Rightarrow> user_prog" where
  "model_rmwr_action obj ord k = Switch ATOMIC_RMWR ord obj VALUE_NONE k"

definition model_rmw_action :: "uint64 \<Rightarrow> memory_order \<Rightarrow> uint64 \<Rightarrow> user_prog \<Rightarrow> user_prog" where
  "model_rmw_action obj ord val k = Switch ATOMIC_RMW ord obj val (\<lambda>_. k)"

definition model_rmwc_action :: "uint64 \<Rightarrow> memory_order \<Rightarrow> user_prog \<Rightarrow> user_prog" where
  "model_rmwc_action obj ord k = Switch ATOMIC_RMWC ord obj VALUE_NONE (\<lambda>_. k)"

definition model_fence_action :: "memory_order \<Rightarrow> user_prog \<Rightarrow> user_prog" where
  "model_fence_action ord k = Switch ATOMIC_FENCE ord FENCE_LOCATION VALUE_NONE (\<lambda>_. k)"

section \<open>Plain memory\<close>

text \<open>The bytes of a value, the least significant first; addresses wrap.\<close>

fun mem_load :: "nat \<Rightarrow> user_memory \<Rightarrow> uint64 \<Rightarrow> uint64" where
  "mem_load 0 m addr = 0"
| "mem_load (Suc n) m addr = ucast (m addr) + 256 * mem_load n m (addr + 1)"

fun mem_store :: "nat \<Rightarrow> uint64 \<Rightarrow> uint64 \<Rightarrow> user_memory \<Rightarrow> user_memory" where
  "mem_store 0 addr val m = m"
| "mem_store (Suc n) addr val m = mem_store n (addr + 1) (val div 256) (m(addr := ucast val))"

text \<open>\<open>librace.cc\<close>: every byte is checked, then the memory is accessed.\<close>

fun race_checks :: "bool \<Rightarrow> nat \<Rightarrow> uint64 \<Rightarrow> user_prog \<Rightarrow> user_prog" where
  "race_checks w 0 addr k = k"
| "race_checks w (Suc n) addr k = RaceCheck w addr (race_checks w n (addr + 1) k)"

definition store_n :: "nat \<Rightarrow> uint64 \<Rightarrow> uint64 \<Rightarrow> user_prog \<Rightarrow> user_prog" where
  "store_n n addr val k = race_checks True n addr (Plain (\<lambda>m. (mem_store n addr val m, k)))"

definition load_n :: "nat \<Rightarrow> uint64 \<Rightarrow> (uint64 \<Rightarrow> user_prog) \<Rightarrow> user_prog" where
  "load_n n addr k = race_checks False n addr (Plain (\<lambda>m. (m, k (mem_load n m addr))))"

definition store_8 :: "uint64 \<Rightarrow> 8 word \<Rightarrow> user_prog \<Rightarrow> user_prog" where
  "store_8 addr val k = store_n 1 addr (ucast val) k"
definition store_16 :: "uint64 \<Rightarrow> 16 word \<Rightarrow> user_prog \<Rightarrow> user_prog" where
  "store_16 addr val k = store_n 2 addr (ucast val) k"
definition store_32 :: "uint64 \<Rightarrow> 32 word \<Rightarrow> user_prog \<Rightarrow> user_prog" where
  "store_32 addr val k = store_n 4 addr (ucast val) k"
definition store_64 :: "uint64 \<Rightarrow> uint64 \<Rightarrow> user_prog \<Rightarrow> user_prog" where
  "store_64 addr val k = store_n 8 addr val k"
definition load_8 :: "uint64 \<Rightarrow> (8 word \<Rightarrow> user_prog) \<Rightarrow> user_prog" where
  "load_8 addr k = load_n 1 addr (\<lambda>v. k (ucast v))"
definition load_16 :: "uint64 \<Rightarrow> (16 word \<Rightarrow> user_prog) \<Rightarrow> user_prog" where
  "load_16 addr k = load_n 2 addr (\<lambda>v. k (ucast v))"
definition load_32 :: "uint64 \<Rightarrow> (32 word \<Rightarrow> user_prog) \<Rightarrow> user_prog" where
  "load_32 addr k = load_n 4 addr (\<lambda>v. k (ucast v))"
definition load_64 :: "uint64 \<Rightarrow> (uint64 \<Rightarrow> user_prog) \<Rightarrow> user_prog" where
  "load_64 addr k = load_n 8 addr k"

section \<open>Atomic objects\<close>

text \<open>
  The macros of \<open>impatomic.h\<close>, for an atomic object whose value has type \<open>'a word\<close>: values
  returned by the model checker are cut to the type, values passed to it are extended with
  their sign when the C type is signed.
\<close>

definition widen :: "bool \<Rightarrow> 'a::len word \<Rightarrow> uint64" where
  "widen is_signed v = (if is_signed then scast v else ucast v)"

definition ATOMIC_LOAD :: "uint64 \<Rightarrow> memory_order \<Rightarrow> ('a::len word \<Rightarrow> user_prog) \<Rightarrow> user_prog" where
  "ATOMIC_LOAD a x k = model_read_action a x (\<lambda>r. k (ucast r))"

definition ATOMIC_STORE ::
  "bool \<Rightarrow> uint64 \<Rightarrow> 'a::len word \<Rightarrow> memory_order \<Rightarrow> user_prog \<Rightarrow> user_prog" where
  "ATOMIC_STORE sg a m x k = model_write_action a x (widen sg m) k"

definition ATOMIC_INIT_VALUE :: "bool \<Rightarrow> uint64 \<Rightarrow> 'a::len word \<Rightarrow> user_prog \<Rightarrow> user_prog" where
  "ATOMIC_INIT_VALUE sg a m k = model_init_action a (widen sg m) k"

definition ATOMIC_MODIFY ::
  "bool \<Rightarrow> uint64 \<Rightarrow> ('a::len word \<Rightarrow> 'a word \<Rightarrow> 'a word) \<Rightarrow> 'a word \<Rightarrow> memory_order \<Rightarrow>
   ('a word \<Rightarrow> user_prog) \<Rightarrow> user_prog" where
  "ATOMIC_MODIFY sg a oper m x k =
     model_rmwr_action a x (\<lambda>old. model_rmw_action a x (widen sg (oper (ucast old) m)) (k (ucast old)))"

text \<open>
  A compare-and-swap reads the expected value from plain memory after the atomic read, and
  writes the value read there when it fails. The memory order for failures is not used.
\<close>

definition ATOMIC_CMPSWP ::
  "bool \<Rightarrow> uint64 \<Rightarrow> uint64 \<Rightarrow> 'a::len word \<Rightarrow> memory_order \<Rightarrow> (bool \<Rightarrow> user_prog) \<Rightarrow> user_prog" where
  "ATOMIC_CMPSWP sg a e v x k =
     model_rmwr_action a x (\<lambda>r. Plain (\<lambda>m.
       let t = ucast r :: 'a word; size_of = LENGTH('a) div 8
       in (m, if t = ucast (mem_load size_of m e)
              then model_rmw_action a x (widen sg v) (k True)
              else model_rmwc_action a x
                     (Plain (\<lambda>m'. (mem_store size_of e (ucast t) m', k False))))))"

text \<open>The functions over these macros, for every integer type (\<open>bool\<close> apart).\<close>

definition atomic_load_explicit :: "uint64 \<Rightarrow> memory_order \<Rightarrow> ('a::len word \<Rightarrow> user_prog) \<Rightarrow> user_prog" where
  "atomic_load_explicit a x k = ATOMIC_LOAD a x k"
definition atomic_load :: "uint64 \<Rightarrow> ('a::len word \<Rightarrow> user_prog) \<Rightarrow> user_prog" where
  "atomic_load a k = atomic_load_explicit a memory_order_seq_cst k"
definition atomic_init :: "bool \<Rightarrow> uint64 \<Rightarrow> 'a::len word \<Rightarrow> user_prog \<Rightarrow> user_prog" where
  "atomic_init sg a m k = ATOMIC_INIT_VALUE sg a m k"
definition atomic_store_explicit ::
  "bool \<Rightarrow> uint64 \<Rightarrow> 'a::len word \<Rightarrow> memory_order \<Rightarrow> user_prog \<Rightarrow> user_prog" where
  "atomic_store_explicit sg a m x k = ATOMIC_STORE sg a m x k"
definition atomic_store :: "bool \<Rightarrow> uint64 \<Rightarrow> 'a::len word \<Rightarrow> user_prog \<Rightarrow> user_prog" where
  "atomic_store sg a m k = atomic_store_explicit sg a m memory_order_seq_cst k"
definition atomic_exchange_explicit ::
  "bool \<Rightarrow> uint64 \<Rightarrow> 'a::len word \<Rightarrow> memory_order \<Rightarrow> ('a word \<Rightarrow> user_prog) \<Rightarrow> user_prog" where
  "atomic_exchange_explicit sg a m x k = ATOMIC_MODIFY sg a (\<lambda>old v. v) m x k"
definition atomic_compare_exchange_weak_explicit ::
  "bool \<Rightarrow> uint64 \<Rightarrow> uint64 \<Rightarrow> 'a::len word \<Rightarrow> memory_order \<Rightarrow> memory_order \<Rightarrow>
   (bool \<Rightarrow> user_prog) \<Rightarrow> user_prog" where
  "atomic_compare_exchange_weak_explicit sg a e m x y k = ATOMIC_CMPSWP sg a e m x k"
definition atomic_compare_exchange_strong_explicit ::
  "bool \<Rightarrow> uint64 \<Rightarrow> uint64 \<Rightarrow> 'a::len word \<Rightarrow> memory_order \<Rightarrow> memory_order \<Rightarrow>
   (bool \<Rightarrow> user_prog) \<Rightarrow> user_prog" where
  "atomic_compare_exchange_strong_explicit sg a e m x y k = ATOMIC_CMPSWP sg a e m x k"
definition atomic_compare_exchange_strong ::
  "bool \<Rightarrow> uint64 \<Rightarrow> uint64 \<Rightarrow> 'a::len word \<Rightarrow> (bool \<Rightarrow> user_prog) \<Rightarrow> user_prog" where
  "atomic_compare_exchange_strong sg a e m k =
     atomic_compare_exchange_strong_explicit sg a e m memory_order_seq_cst memory_order_seq_cst k"
definition atomic_fetch_add_explicit ::
  "bool \<Rightarrow> uint64 \<Rightarrow> 'a::len word \<Rightarrow> memory_order \<Rightarrow> ('a word \<Rightarrow> user_prog) \<Rightarrow> user_prog" where
  "atomic_fetch_add_explicit sg a m x k = ATOMIC_MODIFY sg a (+) m x k"
definition atomic_fetch_sub_explicit ::
  "bool \<Rightarrow> uint64 \<Rightarrow> 'a::len word \<Rightarrow> memory_order \<Rightarrow> ('a word \<Rightarrow> user_prog) \<Rightarrow> user_prog" where
  "atomic_fetch_sub_explicit sg a m x k = ATOMIC_MODIFY sg a (-) m x k"
definition atomic_fetch_and_explicit ::
  "bool \<Rightarrow> uint64 \<Rightarrow> 'a::len word \<Rightarrow> memory_order \<Rightarrow> ('a word \<Rightarrow> user_prog) \<Rightarrow> user_prog" where
  "atomic_fetch_and_explicit sg a m x k = ATOMIC_MODIFY sg a and m x k"
definition atomic_fetch_or_explicit ::
  "bool \<Rightarrow> uint64 \<Rightarrow> 'a::len word \<Rightarrow> memory_order \<Rightarrow> ('a word \<Rightarrow> user_prog) \<Rightarrow> user_prog" where
  "atomic_fetch_or_explicit sg a m x k = ATOMIC_MODIFY sg a or m x k"
definition atomic_fetch_xor_explicit ::
  "bool \<Rightarrow> uint64 \<Rightarrow> 'a::len word \<Rightarrow> memory_order \<Rightarrow> ('a word \<Rightarrow> user_prog) \<Rightarrow> user_prog" where
  "atomic_fetch_xor_explicit sg a m x k = ATOMIC_MODIFY sg a xor m x k"

text \<open>\<open>atomic_address\<close>: pointers and differences of pointers.\<close>

definition atomic_address_fetch_add_explicit ::
  "uint64 \<Rightarrow> uint64 \<Rightarrow> memory_order \<Rightarrow> (uint64 \<Rightarrow> user_prog) \<Rightarrow> user_prog" where
  "atomic_address_fetch_add_explicit a m x k =
     model_rmwr_action a x (\<lambda>old. model_rmw_action a x (old + m) (k old))"
definition atomic_address_fetch_sub_explicit ::
  "uint64 \<Rightarrow> uint64 \<Rightarrow> memory_order \<Rightarrow> (uint64 \<Rightarrow> user_prog) \<Rightarrow> user_prog" where
  "atomic_address_fetch_sub_explicit a m x k =
     model_rmwr_action a x (\<lambda>old. model_rmw_action a x (old - m) (k old))"

text \<open>\<open>impatomic.cc\<close>: flags. The wait loop has two phases, the read and the write of the exchange.\<close>

definition atomic_flag_test_and_set_explicit ::
  "uint64 \<Rightarrow> memory_order \<Rightarrow> (bool \<Rightarrow> user_prog) \<Rightarrow> user_prog" where
  "atomic_flag_test_and_set_explicit a x k =
     Switch ATOMIC_RMWR x a VALUE_NONE (\<lambda>r. Switch ATOMIC_RMW x a 1 (\<lambda>_. k (r \<noteq> 0)))"
definition atomic_flag_test_and_set :: "uint64 \<Rightarrow> (bool \<Rightarrow> user_prog) \<Rightarrow> user_prog" where
  "atomic_flag_test_and_set a k = atomic_flag_test_and_set_explicit a memory_order_seq_cst k"
definition atomic_flag_clear_explicit :: "uint64 \<Rightarrow> memory_order \<Rightarrow> user_prog \<Rightarrow> user_prog" where
  "atomic_flag_clear_explicit a x k = Switch ATOMIC_WRITE x a 0 (\<lambda>_. k)"
definition atomic_flag_clear :: "uint64 \<Rightarrow> user_prog \<Rightarrow> user_prog" where
  "atomic_flag_clear a k = atomic_flag_clear_explicit a memory_order_seq_cst k"

primcorec flag_wait_from :: "uint64 \<Rightarrow> memory_order \<Rightarrow> user_prog \<Rightarrow> bool option \<Rightarrow> user_prog" where
  "flag_wait_from a x k phase =
     (case phase of
        None \<Rightarrow> Switch ATOMIC_RMWR x a VALUE_NONE (\<lambda>r. flag_wait_from a x k (Some (r \<noteq> 0)))
      | Some was_set \<Rightarrow>
          Switch ATOMIC_RMW x a 1 (\<lambda>_. if was_set then flag_wait_from a x k None else k))"

definition atomic_flag_wait_explicit :: "uint64 \<Rightarrow> memory_order \<Rightarrow> user_prog \<Rightarrow> user_prog" where
  "atomic_flag_wait_explicit a x k = flag_wait_from a x k None"
definition atomic_flag_wait :: "uint64 \<Rightarrow> user_prog \<Rightarrow> user_prog" where
  "atomic_flag_wait a k = atomic_flag_wait_explicit a memory_order_seq_cst k"

section \<open>Mutexes, condition variables, threads\<close>

definition user_mutex :: "uint64 \<Rightarrow> user_prog \<Rightarrow> user_prog" where
  "user_mutex this k = MutexInit this k"
definition mutex_lock :: "uint64 \<Rightarrow> user_prog \<Rightarrow> user_prog" where
  "mutex_lock this k = Switch ATOMIC_LOCK memory_order_seq_cst this VALUE_NONE (\<lambda>_. k)"
definition mutex_try_lock :: "uint64 \<Rightarrow> (bool \<Rightarrow> user_prog) \<Rightarrow> user_prog" where
  "mutex_try_lock this k =
     Switch ATOMIC_TRYLOCK memory_order_seq_cst this VALUE_NONE (\<lambda>r. k (r \<noteq> 0))"
definition mutex_unlock :: "uint64 \<Rightarrow> user_prog \<Rightarrow> user_prog" where
  "mutex_unlock this k = Switch ATOMIC_UNLOCK memory_order_seq_cst this VALUE_NONE (\<lambda>_. k)"

definition notify_one :: "uint64 \<Rightarrow> user_prog \<Rightarrow> user_prog" where
  "notify_one this k = Switch ATOMIC_NOTIFY_ONE memory_order_seq_cst this VALUE_NONE (\<lambda>_. k)"
definition notify_all :: "uint64 \<Rightarrow> user_prog \<Rightarrow> user_prog" where
  "notify_all this k = Switch ATOMIC_NOTIFY_ALL memory_order_seq_cst this VALUE_NONE (\<lambda>_. k)"
definition condition_wait :: "uint64 \<Rightarrow> uint64 \<Rightarrow> user_prog \<Rightarrow> user_prog" where
  "condition_wait this lock k =
     Switch ATOMIC_WAIT memory_order_seq_cst this lock (\<lambda>_. mutex_lock lock k)"

text \<open>
  \<open>routine\<close> is the call \<open>start_routine(arg)\<close>; \<open>params_at\<close> is the address of the local
  \<open>struct thread_params\<close>. \<open>thrd_join\<close> takes the thread behind its \<open>thrd_t\<close>.
\<close>

definition thrd_create :: "uint64 \<Rightarrow> uint64 \<Rightarrow> user_prog \<Rightarrow> user_prog \<Rightarrow> user_prog" where
  "thrd_create t params_at routine k = Spawn t params_at routine k"
definition thrd_join :: "thread_id_t \<Rightarrow> user_prog \<Rightarrow> user_prog" where
  "thrd_join t k = SwitchThread THREAD_JOIN (Some t) (of_nat t) k"
definition thrd_yield :: "user_prog \<Rightarrow> user_prog" where
  "thrd_yield k = SwitchThread THREAD_YIELD None VALUE_NONE k"

definition thread_startup :: "user_prog \<Rightarrow> user_prog" where
  "thread_startup routine = SwitchThread THREAD_START None VALUE_NONE routine"
definition thread_finish :: user_prog where
  "thread_finish = SwitchThread THREAD_FINISH None VALUE_NONE Exited"

definition cdsannotate :: "uint64 \<Rightarrow> uint64 \<Rightarrow> user_prog \<Rightarrow> user_prog" where
  "cdsannotate analysistype annotation k =
     Switch ATOMIC_ANNOTATION memory_order_seq_cst annotation analysistype (\<lambda>_. k)"

text \<open>\<open>msg\<close> is the text with the file and the line of the assertion.\<close>

definition model_assert :: "bool \<Rightarrow> string \<Rightarrow> user_prog \<Rightarrow> user_prog" where
  "model_assert expr msg k = (if \<not> expr then UserBug msg k else k)"

section \<open>Facts\<close>

text \<open>Two exchanges that differ only in the failure order are the same program.\<close>

lemma failure_order_unused:
  "atomic_compare_exchange_strong_explicit sg a e v x y k = atomic_compare_exchange_strong_explicit sg a e v x y' k"
  by (simp add: atomic_compare_exchange_strong_explicit_def)

text \<open>Plain memory holds what was stored, as long as the bytes do not wrap onto themselves.\<close>

lemma mem_store_other:
  "(\<And>i. i < n \<Longrightarrow> x \<noteq> addr + of_nat i) \<Longrightarrow> mem_store n addr val m x = m x"
proof (induction n arbitrary: addr val m)
  case (Suc n)
  have "x \<noteq> (addr + 1) + of_nat i" if "i < n" for i
    using Suc.prems [of "Suc i"] that by (simp add: algebra_simps)
  with Suc.IH Suc.prems [of 0] show ?case by simp
qed simp

lemma mem_store_first:
  assumes "n < 2 ^ 64"
  shows "mem_store n (addr + 1) val m addr = m addr"
proof (rule mem_store_other)
  fix i assume "i < n"
  show "addr \<noteq> addr + 1 + of_nat i"
  proof
    assume "addr = addr + 1 + of_nat i"
    then have "(of_nat (Suc i) :: uint64) = 0" by (simp add: algebra_simps)
    then have "2 ^ 64 dvd Suc i" by (simp only: word_of_nat_eq_0_iff) simp
    with \<open>i < n\<close> assms show False by (auto dest: dvd_imp_le)
  qed
qed

lemma byte_split: "ucast (ucast val :: 8 word) + 256 * (val div 256) = (val :: uint64)"
proof -
  have "ucast (ucast val :: 8 word) = take_bit 8 val"
    by (rule bit_word_eqI) (auto simp: bit_simps)
  also have "\<dots> = val mod 256" by (simp add: take_bit_eq_mod)
  finally have "ucast (ucast val :: 8 word) = val mod 256" .
  then show ?thesis by (metis mult.commute add.commute div_mult_mod_eq)
qed

lemma mem_load_store:
  assumes "n \<le> 2 ^ 64" and "unat val < 256 ^ n"
  shows "mem_load n (mem_store n addr val m) addr = val"
  using assms
proof (induction n arbitrary: addr val m)
  case 0
  then show ?case by (simp add: unsigned_eq_0_iff)
next
  case (Suc n)
  have first: "mem_store n (addr + 1) (val div 256) (m(addr := ucast val)) addr = ucast val"
    using Suc.prems(1) by (subst mem_store_first) simp_all
  have "unat (val div 256) = unat val div 256" by (simp add: unat_div)
  with Suc.prems(2) have "unat (val div 256) < 256 ^ n" by (simp add: div_less_iff_less_mult mult.commute)
  then have "mem_load n (mem_store n (addr + 1) (val div 256) (m(addr := ucast val))) (addr + 1) = val div 256"
    by (intro Suc.IH) (use Suc.prems(1) in simp_all)
  with first byte_split [of val] show ?case by simp
qed

end
