(* ===== verification/Snapshots.thy ===== *)
theory Snapshots
  imports Prelude
begin

text \<open>
  \<open>snapshot-interface.cc\<close>: the stack of snapshots the model checker goes back to. A snapshot id
  stands for the copy of memory that \<open>take_snapshot\<close> made; what copying and rolling back do is
  the operating system's and a parameter here.
\<close>

section \<open>The stack\<close>

type_synonym 'm snapshot_entry = "'m \<times> int"

definition snapshotStep :: "'m \<Rightarrow> int \<Rightarrow> 'm snapshot_entry list \<Rightarrow> 'm snapshot_entry list" where
  "snapshotStep now seqindex stack = stack @ [(now, seqindex)]"

text \<open>
  The loop of \<open>backTrackBeforeStep\<close>: the index goes up, also after an entry has been popped;
  then it is past the end.
\<close>

function backtrack_scan :: "int \<Rightarrow> int \<Rightarrow> 'm snapshot_entry list \<Rightarrow> (int \<times> 'm snapshot_entry list) option" where
  "backtrack_scan seqindex i stack =
     (if i < 0 then Some (i, stack)
      else if i \<ge> int (length stack) then None
      else if snd (stack ! nat i) \<le> seqindex then Some (i, stack)
      else backtrack_scan seqindex (i + 1) (butlast stack))"
  by pat_completeness auto
termination by (relation "measure (\<lambda>(q, i, stack). length stack)") auto

declare backtrack_scan.simps [simp del]

definition backTrackBeforeStep ::
  "('m \<Rightarrow> 'm \<Rightarrow> 'm) \<Rightarrow> int \<Rightarrow> 'm \<Rightarrow> 'm snapshot_entry list \<Rightarrow>
   (int \<times> 'm \<times> 'm snapshot_entry list) option" where
  "backTrackBeforeStep roll_back seqindex now stack = do {
     (i, stack1) \<leftarrow> backtrack_scan seqindex (int (length stack) - 1) stack;
     if i < 0 then None
     else (let (copy, index) = stack1 ! nat i in Some (index, roll_back now copy, stack1)) }"

section \<open>What is reached\<close>

text \<open>When the last snapshot is not too recent, it is the one that is restored.\<close>

lemma backTrack_to_last:
  assumes "index \<le> seqindex"
  shows "backTrackBeforeStep rb seqindex now (stack @ [(copy, index)])
    = Some (index, rb now copy, stack @ [(copy, index)])"
  using assms by (simp add: backTrackBeforeStep_def backtrack_scan.simps)

text \<open>When it is too recent, no older snapshot is ever reached.\<close>

lemma backTrack_never_further:
  assumes "index > seqindex"
  shows "backTrackBeforeStep rb seqindex now (stack @ [(copy, index)]) = None"
proof -
  have "backtrack_scan seqindex (int (length stack)) (stack @ [(copy, index)]) = None"
    using assms by (subst backtrack_scan.simps) (simp add: backtrack_scan.simps)
  then show ?thesis by (simp add: backTrackBeforeStep_def)
qed

end
