(* ===== verification/ModelChecker.thy ===== *)
theory ModelChecker
  imports UserLib Snapshots ExecStep
begin

text \<open>
  \<open>model.h\<close> / \<open>model.cc\<close>: the class \<open>ModelChecker\<close>, which runs the program under test once per
  execution, one thread at a time, and decides which thread goes on and where the next
  execution departs from this one; with \<open>thread_startup\<close> and \<open>Thread::swap\<close> of \<open>threads.cc\<close>.

  \<open>process\<close> is the memory that snapshots restore: the execution, the program's plain memory and
  the point every thread has reached (\<open>continuations\<close>, applied to the value its last action
  returned). \<open>routines\<close> gives the start routine behind a \<open>thread_params\<close> object. Actions, nodes
  and the \<open>ModelChecker\<close> itself are allocated outside the snapshots (\<open>MEMALLOC\<close>).

  Parameters: \<open>host\<close> (addresses of thread objects, memory handed to the race detector) and
  \<open>plugins\<close> (the trace analyses, classes derived from \<open>TraceAnalysis\<close>; \<open>'p\<close> is their state). A
  plugin may ask for a restart or an exit (\<open>plugin_request\<close>). The loops over steps and
  executions and the run of a thread up to its next action may go on forever: they are
  partial functions.
\<close>

section \<open>State\<close>

record process =
  execution :: exec
  plain_memory :: user_memory
  continuations :: "thread_id_t \<Rightarrow> uint64 \<Rightarrow> user_prog"
  routines :: "uint64 \<Rightarrow> user_prog"

record execution_stats =
  num_total :: int
  num_infeasible :: int
  num_buggy_executions :: int
  num_complete :: int
  num_redundant :: int

record 'p model_checker =
  restart_flag :: bool
  exit_flag :: bool
  proc :: process
  snap_stack :: "process snapshot_entry list"
  execution_number :: int
  diverge :: "aid option"
  earliest_diverge :: "aid option"
  stats :: execution_stats
  plugin_state :: 'p

record host =
  thread_addr :: "thread_id_t \<Rightarrow> uint64"
  calloc_tables :: "race_state \<Rightarrow> uint64 \<times> uint64"
  calloc_record :: "race_state \<Rightarrow> uint64"
  main_thrd :: uint64

record plugin_request =
  wants_restart :: bool
  wants_exit :: bool

record 'p trace_analysis =
  analyze :: "exec \<Rightarrow> 'p \<Rightarrow> 'p \<times> plugin_request"
  inspectModelAction :: "model_action option \<Rightarrow> 'p \<Rightarrow> model_action option \<times> 'p"
  actionAtModelCheckingFinish :: "'p \<Rightarrow> 'p \<times> plugin_request"
  finish_analysis :: "'p \<Rightarrow> 'p"

record 'p plugins =
  trace_analyses :: "'p trace_analysis list"
  inspect_plugin :: "'p trace_analysis option"

definition zero_stats :: execution_stats where
  "zero_stats = \<lparr>num_total = 0, num_infeasible = 0, num_buggy_executions = 0, num_complete = 0,
     num_redundant = 0\<rparr>"

abbreviation exe :: "'p model_checker \<Rightarrow> exec" where
  "exe m \<equiv> execution (proc m)"

definition set_exe :: "exec \<Rightarrow> 'p model_checker \<Rightarrow> 'p model_checker" where
  "set_exe s m = m\<lparr>proc := (proc m)\<lparr>execution := s\<rparr>\<rparr>"

definition try_exe :: "(exec \<Rightarrow> exec option) \<Rightarrow> 'p model_checker \<Rightarrow> 'p model_checker option" where
  "try_exe f m = map_option (\<lambda>s. set_exe s m) (f (exe m))"

definition set_continuation :: "thread_id_t \<Rightarrow> (uint64 \<Rightarrow> user_prog) \<Rightarrow> 'p model_checker \<Rightarrow> 'p model_checker" where
  "set_continuation t k m = m\<lparr>proc := (proc m)\<lparr>continuations := (continuations (proc m))(t := k)\<rparr>\<rparr>"

definition restart :: "'p model_checker \<Rightarrow> 'p model_checker" where
  "restart m = m\<lparr>restart_flag := True\<rparr>"

definition exit_model_checker :: "'p model_checker \<Rightarrow> 'p model_checker" where
  "exit_model_checker m = m\<lparr>exit_flag := True\<rparr>"

definition obey :: "plugin_request \<Rightarrow> 'p model_checker \<Rightarrow> 'p model_checker" where
  "obey r m = (let m1 = (if wants_restart r then restart m else m)
               in if wants_exit r then exit_model_checker m1 else m1)"

text \<open>
  The constructor, on an execution that \<open>ModelExecution_new\<close> built, and the snapshot that
  \<open>model_main\<close> takes before \<open>run\<close>.
\<close>

definition ModelChecker_new :: "exec \<Rightarrow> user_memory \<Rightarrow> 'p \<Rightarrow> 'p model_checker" where
  "ModelChecker_new s mem ps =
     (let p = \<lparr>execution = s, plain_memory = mem, continuations = (\<lambda>_ _. Exited),
               routines = (\<lambda>_. Return)\<rparr>
      in \<lparr>restart_flag = False, exit_flag = False, proc = p, snap_stack = snapshotStep p 0 [],
          execution_number = 1, diverge = None, earliest_diverge = None, stats = zero_stats,
          plugin_state = ps\<rparr>)"

section \<open>Between the contexts\<close>

text \<open>
  \<open>switch_to_master\<close>, called by the current thread; \<open>None\<close> is the null action of a thread that
  stops at a bug. The value it returns is read when the thread is resumed.
\<close>

definition switch_to_master ::
  "'p plugins \<Rightarrow> model_action option \<Rightarrow> 'p model_checker \<Rightarrow> 'p model_checker option" where
  "switch_to_master pl act m = do {
     let s = exe m;
     cur \<leftarrow> get_current_thread (model_thread_in s) (scheduler s);
     old \<leftarrow> cur;
     th \<leftarrow> get_thread s old;
     sch \<leftarrow> set_current_thread (model_thread_in s) None (scheduler s);
     if th_pending th \<noteq> None then None
     else do {
       let (act1, ps) = (case inspect_plugin pl of
                           None \<Rightarrow> (act, plugin_state m)
                         | Some p \<Rightarrow> inspectModelAction p act (plugin_state m));
       let s1 = (case act1 of
                   None \<Rightarrow> s
                 | Some a \<Rightarrow> s\<lparr>acts := (acts s)(next_aid s \<mapsto> a), next_aid := next_aid s + 1\<rparr>);
       st \<leftarrow> set_state THREAD_READY (th_state th);
       s2 \<leftarrow> upd_thread old (\<lambda>x. x\<lparr>th_pending := map_option (\<lambda>_. next_aid s) act1, th_state := st\<rparr>)
               (s1\<lparr>scheduler := sch\<rparr>);
       Some ((set_exe s2 m)\<lparr>plugin_state := ps\<rparr>) } }"

definition switch_with ::
  "'p plugins \<Rightarrow> thread_id_t \<Rightarrow> action_type \<Rightarrow> memory_order \<Rightarrow> uint64 \<Rightarrow> uint64 \<Rightarrow>
   'p model_checker \<Rightarrow> 'p model_checker option" where
  "switch_with pl t ty ord loc val m = do {
     a \<leftarrow> ModelAction_new ty ord loc val t;
     switch_to_master pl (Some a) m }"

text \<open>A check of the race detector on behalf of a thread; \<open>True\<close> when it stops the thread.\<close>

definition exec_race_check ::
  "host \<Rightarrow> bool \<Rightarrow> thread_id_t \<Rightarrow> uint64 \<Rightarrow> exec \<Rightarrow> (bool \<times> exec) option" where
  "exec_race_check h w t addr s = do {
     c \<leftarrow> get_cv s t;
     let st = (races s)\<lparr>race_bugs := []\<rparr>;
     let (f1, f2) = calloc_tables h st;
     let outcome = (if w then raceCheckWrite f1 f2 (calloc_record h st) (race_env_of s) t addr st
                    else raceCheckRead f1 f2 (calloc_record h st) (race_env_of s) t addr st);
     let absorb = (\<lambda>rs. s\<lparr>races := rs\<lparr>race_bugs := []\<rparr>, bugs := bugs s @ map RaceBug (race_bugs rs),
                          asserted := asserted s \<or> race_bugs rs \<noteq> []\<rparr>);
     (case outcome of
        Running rs \<Rightarrow> Some (False, absorb rs)
      | Switched rs \<Rightarrow> Some (True, absorb rs)
      | OutOfBounds \<Rightarrow> None) }"

definition assert_user_bug ::
  "'p plugins \<Rightarrow> string \<Rightarrow> 'p model_checker \<Rightarrow> (bool \<times> 'p model_checker) option" where
  "assert_user_bug pl msg m =
     (let (now, s) = assert_bug (MessageBug (take 799 msg)) (exe m); m1 = set_exe s m
      in if now then map_option (Pair True) (switch_to_master pl None m1) else Some (False, m1))"

text \<open>\<open>mutex::mutex\<close>.\<close>

definition mutex_init :: "thread_id_t \<Rightarrow> uint64 \<Rightarrow> exec \<Rightarrow> exec option" where
  "mutex_init t loc s = do {
     c \<leftarrow> get_cv s t;
     Some (s\<lparr>mutexes := (mutexes s)(loc \<mapsto>
               \<lparr>locked = None, alloc_tid = t, alloc_clock = getClock c t\<rparr>)\<rparr>) }"

text \<open>A user thread from a point of its program to its next switch.\<close>

partial_function (option) run_thread ::
  "'p plugins \<Rightarrow> host \<Rightarrow> thread_id_t \<Rightarrow> user_prog \<Rightarrow> 'p model_checker \<Rightarrow> 'p model_checker option" where
  "run_thread pl h t pr m =
     (case pr of
        Return \<Rightarrow> run_thread pl h t thread_finish m
      | Exited \<Rightarrow> None
      | Switch ty ord loc val k \<Rightarrow>
          switch_with pl t ty ord loc val (set_continuation t k m)
      | SwitchThread ty target val k \<Rightarrow>
          if (case target of None \<Rightarrow> False | Some u \<Rightarrow> get_thread (exe m) u = None) then None
          else switch_with pl t ty memory_order_seq_cst
                 (thread_addr h (case target of None \<Rightarrow> t | Some u \<Rightarrow> u)) val
                 (set_continuation t (\<lambda>_. k) m)
      | RaceCheck w addr k \<Rightarrow>
          Option.bind (exec_race_check h w t addr (exe m)) (\<lambda>(stop, s).
            if stop then switch_to_master pl None (set_continuation t (\<lambda>_. k) (set_exe s m))
            else run_thread pl h t k (set_exe s m))
      | Plain f \<Rightarrow>
          (let (mem, k) = f (plain_memory (proc m))
           in run_thread pl h t k (m\<lparr>proc := (proc m)\<lparr>plain_memory := mem\<rparr>\<rparr>))
      | MutexInit loc k \<Rightarrow>
          Option.bind (mutex_init t loc (exe m)) (\<lambda>s. run_thread pl h t k (set_exe s m))
      | Spawn loc params_at routine k \<Rightarrow>
          switch_with pl t THREAD_CREATE memory_order_seq_cst loc params_at
            (set_continuation t (\<lambda>_. k)
               (m\<lparr>proc := (proc m)\<lparr>routines := (routines (proc m))(params_at := routine)\<rparr>\<rparr>))
      | UserBug msg k \<Rightarrow>
          Option.bind (assert_user_bug pl msg (set_continuation t (\<lambda>_. k) m)) (\<lambda>(stop, m1).
            if stop then Some m1 else run_thread pl h t k m1))"

text \<open>\<open>switch_from_master\<close>: the thread goes on from where it stopped.\<close>

definition switch_from_master ::
  "'p plugins \<Rightarrow> host \<Rightarrow> thread_id_t \<Rightarrow> 'p model_checker \<Rightarrow> 'p model_checker option" where
  "switch_from_master pl h t m = do {
     let s = exe m;
     sch \<leftarrow> set_current_thread (model_thread_in s) (Some t) (scheduler s);
     th \<leftarrow> get_thread s t;
     st \<leftarrow> set_state THREAD_RUNNING (th_state th);
     s1 \<leftarrow> upd_thread t (\<lambda>x. x\<lparr>th_state := st\<rparr>) (s\<lparr>scheduler := sch\<rparr>);
     run_thread pl h t (continuations (proc m) t (last_action_val th)) (set_exe s1 m) }"

section \<open>Choosing a thread\<close>

definition execute_sleep_set :: "exec \<Rightarrow> exec option" where
  "execute_sleep_set s =
     fold_opt (\<lambda>i s. do {
         th \<leftarrow> get_thread s i;
         asleep \<leftarrow> is_sleep_set (scheduler s) i;
         Some (case th_pending th of
                 Some p \<Rightarrow> if asleep then upd_act p (\<lambda>a. a\<lparr>sleep_flag := True\<rparr>) s else s
               | None \<Rightarrow> s) })
       [0 ..< get_num_threads s] s"

text \<open>
  The divergence point: \<open>nxt\<close> is the action recorded there. Its node has another behaviour left,
  or its parent another thread to run; the rest of the stack is cut off. The result is the
  thread chosen, with \<open>earliest_diverge\<close>.
\<close>

definition diverge_here :: "aid \<Rightarrow> aid option \<Rightarrow> exec \<Rightarrow> (thread_id_t \<times> aid option \<times> exec) option" where
  "diverge_here nxt earliest0 s = do {
     let earliest = (case earliest0 of
                       None \<Rightarrow> Some nxt
                     | Some e \<Rightarrow> if earlier s nxt e then Some nxt else earliest0);
     i \<leftarrow> act_node (A s nxt);
     nextnode \<leftarrow> node_at s i;
     parent \<leftarrow> get_node_parent s nxt;
     prevnode \<leftarrow> parent;
     en \<leftarrow> enabled_array prevnode;
     let s1 = s\<lparr>scheduler := update_sleep_set en (scheduler s)\<rparr>;
     let (more, nextnode1) = increment_behaviors nextnode;
     let s2 = put_node i nextnode1 s1;
     (t, earliest1, s3) \<leftarrow>
       (if more
        then do { ns \<leftarrow> pop_restofstack 2 (node_stack s2);
                  Some (tid (A s2 nxt), earliest, s2\<lparr>node_stack := ns\<rparr>) }
        else do {
          let s2' = s2\<lparr>scheduler := fst (add_sleep (tid (A s2 nxt)) (scheduler s2))\<rparr>;
          (t, prevnode1) \<leftarrow> get_next_backtrack prevnode;
          let s2'' = put_node (i - 1) prevnode1 s2';
          ns \<leftarrow> pop_restofstack 1 (node_stack s2'');
          Some (t, if earliest = Some nxt then Some (nd_action prevnode1) else earliest,
                s2''\<lparr>node_stack := ns\<rparr>) });
     s4 \<leftarrow> execute_sleep_set (s3\<lparr>scheduler := set_scheduler_thread t (scheduler s3)\<rparr>);
     Some (t, earliest1, s4) }"

definition thread_ptr :: "exec \<Rightarrow> thread_id_t \<Rightarrow> thread_id_t option" where
  "thread_ptr s t = map_option (\<lambda>_. t) (get_thread s t)"

definition get_next_thread :: "'p model_checker \<Rightarrow> (thread_id_t option \<times> 'p model_checker) option" where
  "get_next_thread m = (let s = exe m in
     case diverge m of
       None \<Rightarrow> do {
         head \<leftarrow> get_head (node_stack s);
         (t, sch) \<leftarrow> select_next_thread (params s) head (scheduler s);
         Some (t, set_exe (s\<lparr>scheduler := sch\<rparr>) m) }
     | Some d \<Rightarrow> do {
         n \<leftarrow> get_next (node_stack s);
         let nxt = nd_action n;
         if nxt = d
         then do {
           (t, earliest, s1) \<leftarrow> diverge_here nxt (earliest_diverge m) s;
           Some (thread_ptr s1 t,
                 (set_exe s1 m)\<lparr>diverge := None, earliest_diverge := earliest\<rparr>) }
         else Some (thread_ptr s (tid (A s nxt)), m) })"

section \<open>One execution\<close>

fun decimal :: "nat \<Rightarrow> string" where
  "decimal n = (if n < 10 then [char_of (48 + n)] else decimal (n div 10) @ [char_of (48 + n mod 10)])"

declare decimal.simps [simp del]

definition deadlock_message :: "nat \<Rightarrow> string" where
  "deadlock_message i = ''Deadlock detected (thread '' @ decimal i @ '')''"

text \<open>Every user thread that has not finished runs up to its next action.\<close>

definition stash_thread :: "'p plugins \<Rightarrow> host \<Rightarrow> nat \<Rightarrow> 'p model_checker \<Rightarrow> 'p model_checker option" where
  "stash_thread pl h i m = do {
     th \<leftarrow> get_thread (exe m) i;
     if \<not> is_model_thread th \<and> th_state th \<noteq> THREAD_COMPLETED \<and> th_pending th = None
     then do {
       m1 \<leftarrow> switch_from_master pl h i m;
       circular \<leftarrow> is_waiting_on (exe m1) i i;
       Some (if circular
             then set_exe (snd (assert_bug (MessageBug (deadlock_message i)) (exe m1))) m1 else m1) }
     else Some m }"

definition stash_pending :: "'p plugins \<Rightarrow> host \<Rightarrow> 'p model_checker \<Rightarrow> 'p model_checker option" where
  "stash_pending pl h m = fold_opt (stash_thread pl h) [0 ..< get_num_threads (exe m)] m"

definition disable_thread :: "nat \<Rightarrow> exec \<Rightarrow> exec option" where
  "disable_thread i s = do {
     th \<leftarrow> get_thread s i;
     (case th_pending th of
        Some act \<Rightarrow>
          if exec_is_enabled s i
          then do { (en, s1) \<leftarrow> check_action_enabled act s;
                    if en then Some s1 else exec_sleep i s1 }
          else Some s
      | None \<Rightarrow> Some s) }"

definition disable_threads :: "exec \<Rightarrow> exec option" where
  "disable_threads s = fold_opt disable_thread [0 ..< get_num_threads s] s"

text \<open>
  \<open>take_step\<close>; when it created a thread, the constructor of \<open>Thread\<close> has copied the start routine
  from the \<open>thread_params\<close>.
\<close>

definition step_thread ::
  "thread_id_t \<Rightarrow> 'p model_checker \<Rightarrow> (thread_id_t option \<times> 'p model_checker) option" where
  "step_thread t m = do {
     let s = exe m;
     th \<leftarrow> get_thread s t;
     cur \<leftarrow> th_pending th;
     s1 \<leftarrow> upd_thread t (\<lambda>x. x\<lparr>th_pending := None\<rparr>) s;
     (t1, s2) \<leftarrow> take_step cur s1;
     let child = get_num_threads s;
     let m1 = set_exe s2 m;
     if child < get_num_threads s2
     then do {
       new \<leftarrow> get_thread s2 child;
       c \<leftarrow> th_creation new;
       Some (t1, set_continuation child
                   (\<lambda>_. thread_startup (routines (proc m) (act_value (A s2 c)))) m1) }
     else Some (t1, m1) }"

definition should_terminate_execution :: "exec \<Rightarrow> bool \<times> exec" where
  "should_terminate_execution s =
     (if is_infeasible s then (True, s)
      else if isfeasibleprefix s \<and> have_bug_reports s then (True, set_assert s)
      else (too_many_steps s, s))"

partial_function (option) run_steps ::
  "'p plugins \<Rightarrow> host \<Rightarrow> thread_id_t option \<Rightarrow> 'p model_checker \<Rightarrow> 'p model_checker option" where
  "run_steps pl h t m =
     Option.bind (stash_pending pl h m) (\<lambda>m1.
     Option.bind (try_exe disable_threads m1) (\<lambda>m2.
     if has_asserted (exe m2) then Some m2
     else Option.bind (if t = None then get_next_thread m2 else Some (t, m2)) (\<lambda>(t1, m3).
       case t1 of
         None \<Rightarrow> Some m3
       | Some x \<Rightarrow>
           if model_thread_in (exe m3) x then Some m3
           else Option.bind (step_thread x m3) (\<lambda>(t2, m4).
             let (stop, s5) = should_terminate_execution (exe m4); m5 = set_exe s5 m4
             in if stop then Some m5 else run_steps pl h t2 m5))))"

text \<open>The main thread of the program, whose \<open>thrd_t\<close> is a local variable of \<open>run\<close>.\<close>

definition Thread_main :: thread where
  "Thread_main = \<lparr>th_parent = None, th_creation = None, th_pending = None,
     th_state = THREAD_CREATED, last_action_val = VALUE_NONE, is_model_thread = False\<rparr>"

definition start_main ::
  "host \<Rightarrow> user_prog \<Rightarrow> 'p model_checker \<Rightarrow> (thread_id_t \<times> 'p model_checker) option" where
  "start_main h user_main m = do {
     let (t, s) = get_next_id (exe m);
     s1 \<leftarrow> add_thread_to t Thread_main (s\<lparr>thrd_priv := (thrd_priv s)(main_thrd h := t)\<rparr>);
     Some (t, set_continuation t (\<lambda>_. thread_startup user_main) (set_exe s1 m)) }"

section \<open>From one execution to the next\<close>

text \<open>
  Rolling back to a snapshot: the objects outside the snapshots keep their state. The clock
  vectors of kept actions are gone; replay gives every action a new one before it is used.
\<close>

definition roll_back :: "process \<Rightarrow> process \<Rightarrow> process" where
  "roll_back now copy = copy\<lparr>execution := (execution copy)
     \<lparr>acts := acts (execution now), node_stack := node_stack (execution now),
      next_aid := next_aid (execution now)\<rparr>\<rparr>"

definition delete_pending :: "nat \<Rightarrow> exec \<Rightarrow> exec option" where
  "delete_pending i s = do {
     th \<leftarrow> get_thread s i;
     Some (case th_pending th of None \<Rightarrow> s | Some p \<Rightarrow> s\<lparr>acts := (acts s)(p := None)\<rparr>) }"

definition reset_to_initial_state :: "'p model_checker \<Rightarrow> 'p model_checker option" where
  "reset_to_initial_state m = do {
     let s = exe m;
     s1 \<leftarrow> fold_opt delete_pending [0 ..< get_num_threads s]
             (s\<lparr>node_stack := reset_execution (node_stack s)\<rparr>);
     (index, p, stack) \<leftarrow> backTrackBeforeStep roll_back 0 (proc (set_exe s1 m)) (snap_stack m);
     Some (m\<lparr>proc := p, snap_stack := stack\<rparr>) }"

definition do_restart :: "'p model_checker \<Rightarrow> 'p model_checker option" where
  "do_restart m = do {
     m1 \<leftarrow> reset_to_initial_state
            (m\<lparr>restart_flag := False, diverge := None, earliest_diverge := None\<rparr>);
     Some ((set_exe ((exe m1)\<lparr>node_stack := full_reset (node_stack (exe m1))\<rparr>) m1)
             \<lparr>stats := zero_stats, execution_number := 1\<rparr>) }"

definition record_stats :: "'p model_checker \<Rightarrow> 'p model_checker option" where
  "record_stats m = do {
     let s = exe m;
     let st = (stats m)\<lparr>num_total := num_total (stats m) + 1\<rparr>;
     st1 \<leftarrow> (if \<not> isfeasibleprefix s then Some (st\<lparr>num_infeasible := num_infeasible st + 1\<rparr>)
              else if have_bug_reports s
              then Some (st\<lparr>num_buggy_executions := num_buggy_executions st + 1\<rparr>)
              else do {
                c \<leftarrow> is_complete_execution s;
                Some (if c then st\<lparr>num_complete := num_complete st + 1\<rparr>
                      else st\<lparr>num_redundant := num_redundant st + 1\<rparr>) });
     Some (m\<lparr>stats := st1\<rparr>) }"

definition run_analysis :: "'p trace_analysis \<Rightarrow> 'p model_checker \<Rightarrow> 'p model_checker" where
  "run_analysis ta m =
     (let (ps, r) = analyze ta (exe m) (plugin_state m) in obey r (m\<lparr>plugin_state := ps\<rparr>))"

definition run_trace_analyses :: "'p plugins \<Rightarrow> 'p model_checker \<Rightarrow> 'p model_checker" where
  "run_trace_analyses pl m = fold run_analysis (trace_analyses pl) m"

text \<open>Is the execution feasible and worth checking for bugs?\<close>

definition worth_checking :: "exec \<Rightarrow> bool option" where
  "worth_checking s =
     (if isfeasibleprefix s
      then do { c \<leftarrow> is_complete_execution s; Some (c \<or> have_bug_reports s) }
      else Some False)"

definition end_of_execution_checks ::
  "'p plugins \<Rightarrow> bool \<Rightarrow> 'p model_checker \<Rightarrow> 'p model_checker option" where
  "end_of_execution_checks pl complete m =
     (if complete
      then do {
        dead \<leftarrow> is_deadlocked (exe m);
        let s1 = (if dead then snd (assert_bug (MessageBug ''Deadlock detected'') (exe m)) else exe m);
        Some (run_trace_analyses pl (set_exe (snd (exec_checkDataRaces s1)) m)) }
      else case inspect_plugin pl of
             None \<Rightarrow> Some m
           | Some p \<Rightarrow> do {
               c \<leftarrow> is_complete_execution (exe m);
               Some (if \<not> c \<and> too_many_steps (exe m) then run_analysis p m else m) })"

definition next_execution :: "'p plugins \<Rightarrow> 'p model_checker \<Rightarrow> (bool \<times> 'p model_checker) option" where
  "next_execution pl m = do {
     complete \<leftarrow> worth_checking (exe m);
     m1 \<leftarrow> end_of_execution_checks pl complete m;
     m2 \<leftarrow> record_stats m1;
     let m3 = (if complete then m2\<lparr>earliest_diverge := None\<rparr> else m2);
     if restart_flag m3 then map_option (Pair True) (do_restart m3)
     else if exit_flag m3 then Some (False, m3)
     else
       (let (d, s) = exec_get_next_backtrack (exe m3); m4 = (set_exe s m3)\<lparr>diverge := d\<rparr>
        in if d = None then Some (False, m4)
           else (let m5 = m4\<lparr>execution_number := execution_number m4 + 1\<rparr>
                 in if maxexecutions (params (exe m5)) \<noteq> 0
                       \<and> num_complete (stats m5) \<ge> maxexecutions (params (exe m5))
                    then Some (False, m5)
                    else map_option (Pair True) (reset_to_initial_state m5))) }"

text \<open>The plugin's last word when there is nothing left to explore.\<close>

definition plugin_finish :: "'p plugins \<Rightarrow> bool \<times> 'p model_checker \<Rightarrow> (bool \<times> 'p model_checker) option" where
  "plugin_finish pl r = (case r of (has_next, m) \<Rightarrow>
     case inspect_plugin pl of
       None \<Rightarrow> Some (has_next, m)
     | Some p \<Rightarrow>
         if has_next then Some (has_next, m)
         else (let (ps, req) = actionAtModelCheckingFinish p (plugin_state m);
                   m1 = obey req (m\<lparr>plugin_state := ps\<rparr>)
               in if restart_flag m1 then map_option (Pair True) (do_restart m1)
                  else Some (False, m1)))"

definition run_one :: "'p plugins \<Rightarrow> host \<Rightarrow> user_prog \<Rightarrow> 'p model_checker \<Rightarrow> (bool \<times> 'p model_checker) option" where
  "run_one pl h user_main m = do {
     (t, m1) \<leftarrow> start_main h user_main m;
     m2 \<leftarrow> run_steps pl h (Some t) m1;
     r \<leftarrow> next_execution pl m2;
     plugin_finish pl r }"

partial_function (option) run_executions ::
  "'p plugins \<Rightarrow> host \<Rightarrow> user_prog \<Rightarrow> 'p model_checker \<Rightarrow> 'p model_checker option" where
  "run_executions pl h user_main m =
     Option.bind (run_one pl h user_main m) (\<lambda>(has_next, m1).
       if has_next then run_executions pl h user_main m1 else Some m1)"

definition run :: "'p plugins \<Rightarrow> host \<Rightarrow> user_prog \<Rightarrow> 'p model_checker \<Rightarrow> 'p model_checker option" where
  "run pl h user_main m = do {
     m1 \<leftarrow> run_executions pl h user_main m;
     m2 \<leftarrow> try_exe fixup_release_sequences m1;
     Some (m2\<lparr>plugin_state :=
             fold (\<lambda>ta ps. finish_analysis ta ps) (trace_analyses pl) (plugin_state m2)\<rparr>) }"

end
