(* ===== verification/ExecCoherence.thy ===== *)
theory ExecCoherence
  imports ExecSample
begin

text \<open>
  What the edges of \<open>r_modification_order\<close> and \<open>w_modification_order\<close> mean: coherence. For every
  thread, the most recent action that must be visible to the current one (it happens before it,
  or fences order it) is looked up by a search of its own (\<open>r_decisive\<close>, \<open>w_decisive\<close>), and the
  store it writes or reads is ordered before the store the current action reads or writes.
  The trial edges of \<open>build_may_read_from\<close> leave no trace in the modification order.
\<close>

section \<open>Edges survive\<close>

definition mo_has :: "cycle_graph \<Rightarrow> mo_obj \<Rightarrow> mo_obj \<Rightarrow> bool" where
  "mo_has g x y \<longleftrightarrow> (\<exists>n m. getNode_noCreate g x = Some n \<and> getNode_noCreate g y = Some m \<and> (n, m) \<in> mo g)"

lemma getNode_keeps:
  "getNode x g = (n, g') \<Longrightarrow> getNode_noCreate g y = Some m \<Longrightarrow> getNode_noCreate g' y = Some m"
  by (cases x; cases y) (auto simp: getNode_def Let_def split: option.splits if_splits)

lemma addNodeEdge_tables:
  "addNodeEdge f t g = Some (b, g') \<Longrightarrow> getNode_noCreate g' y = getNode_noCreate g y"
  by (cases y) (auto simp: addNodeEdge_def chain_edge_def Let_def bind_eq_Some_conv split: if_splits prod.splits option.splits)

lemma addEdge_tables:
  assumes "addEdge x y g = Some (b, g')" and "getNode_noCreate g z = Some m"
  shows "getNode_noCreate g' z = Some m"
proof -
  obtain f g1 where f: "getNode x g = (f, g1)" by fastforce
  obtain t g2 where t: "getNode y g1 = (t, g2)" by fastforce
  have "addNodeEdge f t g2 = Some (b, g')" using assms(1) by (simp add: addEdge_def f t)
  then show ?thesis
    using getNode_keeps [OF t getNode_keeps [OF f assms(2)]] addNodeEdge_tables by simp
qed

lemma addEdge_has:
  assumes "graph_ok g" and "addEdge x y g = Some (b, g')"
  shows "graph_ok g'" and "mo_has g' x y" and "mo_has g u v \<Longrightarrow> mo_has g' u v"
proof -
  from addEdge_step [OF assms(1), of x y] assms(2)
  have S: "graph_ok g'" "getNode_noCreate g' x = Some (mo_node x g')"
    "getNode_noCreate g' y = Some (mo_node y g')" "insert (mo_node x g', mo_node y g') (mo g) \<subseteq> mo g'"
    by auto
  show "graph_ok g'" by (rule S)
  show "mo_has g' x y" using S(2,3,4) by (auto simp: mo_has_def)
  show "mo_has g' u v" if "mo_has g u v"
    using that S(4) addEdge_tables [OF assms(2)] unfolding mo_has_def by blast
qed

section \<open>Frames\<close>

text \<open>Executions that differ in the modification order only, by added edges.\<close>

definition edges_added :: "exec \<Rightarrow> exec \<Rightarrow> bool" where
  "edges_added s s' \<longleftrightarrow> (\<exists>es. run_ops (map (\<lambda>e. Op_addEdge (fst e) (snd e)) es) (mo_graph s) = Some (mo_graph s'))
     \<and> s' = s\<lparr>mo_graph := mo_graph s'\<rparr>"

lemma edges_added_refl [intro, simp]: "edges_added s s"
  unfolding edges_added_def by (intro conjI exI [of _ "[]"]) simp_all

lemma run_ops_append:
  "run_ops (xs @ ys) g = Option.bind (run_ops xs g) (run_ops ys)"
proof (induction xs arbitrary: g)
  case Nil
  then show ?case by simp
next
  case (Cons x xs)
  then show ?case by (cases "run_op x g") simp_all
qed

lemma edges_added_trans:
  assumes "edges_added s s1" and "edges_added s1 s2"
  shows "edges_added s s2"
proof -
  from assms obtain es fs where
    "run_ops (map (\<lambda>e. Op_addEdge (fst e) (snd e)) es) (mo_graph s) = Some (mo_graph s1)"
    "run_ops (map (\<lambda>e. Op_addEdge (fst e) (snd e)) fs) (mo_graph s1) = Some (mo_graph s2)"
    and s1: "s1 = s\<lparr>mo_graph := mo_graph s1\<rparr>" and s2: "s2 = s1\<lparr>mo_graph := mo_graph s2\<rparr>"
    unfolding edges_added_def by blast
  then have "run_ops (map (\<lambda>e. Op_addEdge (fst e) (snd e)) (es @ fs)) (mo_graph s) = Some (mo_graph s2)"
    by (simp add: run_ops_append)
  moreover have "s2 = s\<lparr>mo_graph := mo_graph s2\<rparr>"
    by (subst s2, subst s1) simp
  ultimately show ?thesis unfolding edges_added_def by blast
qed

interpretation edges: frame edges_added
  by unfold_locales (auto intro: edges_added_trans)

lemma mo_add_edges:
  assumes "mo_add x y st = Some st'"
  shows "edges_added (snd st) (snd st')"
    and "graph_ok (mo_graph (snd st)) \<Longrightarrow> mo_has (mo_graph (snd st')) x y"
proof -
  from assms obtain b g where g: "addEdge x y (mo_graph (snd st)) = Some (b, g)"
    and st': "st' = (b \<or> fst st, (snd st)\<lparr>mo_graph := g\<rparr>)"
    by (auto simp: mo_add_def bind_eq_Some_conv)
  show "edges_added (snd st) (snd st')"
    unfolding edges_added_def st' by (intro conjI exI [of _ "[(x, y)]"]) (simp_all add: g)
  show "mo_has (mo_graph (snd st')) x y" if "graph_ok (mo_graph (snd st))"
    using addEdge_has(2) [OF that g] by (simp add: st')
qed

lemma edges_added_ok:
  assumes "edges_added s s'" and "graph_ok (mo_graph s)"
  shows "graph_ok (mo_graph s')" and "mo_has (mo_graph s) u v \<Longrightarrow> mo_has (mo_graph s') u v"
proof -
  have "run_ops (map (\<lambda>e. Op_addEdge (fst e) (snd e)) es) g = Some g' \<Longrightarrow> graph_ok g \<Longrightarrow>
      graph_ok g' \<and> (mo_has g u v \<longrightarrow> mo_has g' u v)" for es g g'
    by (induction es arbitrary: g) (auto simp: bind_eq_Some_conv dest: addEdge_has)
  then show "graph_ok (mo_graph s')" "mo_has (mo_graph s) u v \<Longrightarrow> mo_has (mo_graph s') u v"
    using assms unfolding edges_added_def by blast+
qed

lemma edges_added_reachable:
  assumes "edges_added s s'" and "reachable_graph (mo_graph s)"
  shows "reachable_graph (mo_graph s')"
proof -
  have "run_ops (map (\<lambda>e. Op_addEdge (fst e) (snd e)) es) g = Some g' \<Longrightarrow> reachable_graph g \<Longrightarrow>
      reachable_graph g'" for es g g'
    by (induction es arbitrary: g) (auto simp: bind_eq_Some_conv intro: reachable_graph.add)
  then show ?thesis using assms unfolding edges_added_def by blast
qed

lemma edges_added_fields:
  assumes "edges_added s s'"
  shows "acts s' = acts s" and "A s' = A s" and "obj_map s' = obj_map s" and "obj_thrd_map s' = obj_thrd_map s"
    and "promises s' = promises s" and "proms s' = proms s" and "node_stack s' = node_stack s"
    and "params s' = params s" and "get_last_seq_cst_fence s' = get_last_seq_cst_fence s"
proof -
  obtain g where "s' = s\<lparr>mo_graph := g\<rparr>" using assms by (auto simp: edges_added_def)
  then show "acts s' = acts s" and "A s' = A s" and "obj_map s' = obj_map s" and "obj_thrd_map s' = obj_thrd_map s"
    and "promises s' = promises s" and "proms s' = proms s" and "node_stack s' = node_stack s"
    and "params s' = params s" and "get_last_seq_cst_fence s' = get_last_seq_cst_fence s"
    by (simp_all add: A_def fun_eq_iff get_last_seq_cst_fence_def cong: option.case_cong)
qed

section \<open>Reads\<close>

text \<open>The store that an action makes visible: its own, or the one it reads from.\<close>

definition observed :: "exec \<Rightarrow> aid \<Rightarrow> mo_obj option" where
  "observed s act =
     (if is_write (A s act) then Some (ActObj act)
      else case reads_from (A s act) of
             Some w \<Rightarrow> Some (ActObj w)
           | None \<Rightarrow> map_option PromObj (reads_from_promise (A s act)))"

definition r_decisive ::
  "exec \<Rightarrow> aid \<Rightarrow> mo_obj \<Rightarrow> aid option \<Rightarrow> aid option \<Rightarrow> aid option \<Rightarrow> aid \<Rightarrow> bool" where
  "r_decisive s cur rf ftl fl ftb act \<longleftrightarrow>
     act_type (A s act) \<noteq> ATOMIC_ANNOTATION \<and> act \<noteq> cur
     \<and> (happens s act cur
        \<or> ActObj act \<noteq> rf \<and> is_write (A s act) \<and> sc_ordered s cur ftl fl ftb act)"

text \<open>
  The decisive action of thread \<open>i\<close>, given the actions of the threads on the object: the most
  recent one that happens before the read or that the fences of 29.3 order before it.
\<close>

definition r_decisive_in :: "exec \<Rightarrow> aid \<Rightarrow> mo_obj \<Rightarrow> aid list list \<Rightarrow> nat \<Rightarrow> aid option" where
  "r_decisive_in s cur rf tls i = do {
     fl \<leftarrow> get_last_seq_cst_fence s (tid (A s cur)) None;
     ftl \<leftarrow> (if i \<noteq> tid (A s cur) then get_last_seq_cst_fence s i None else Some None);
     ftb \<leftarrow> (case fl of None \<Rightarrow> Some None | Some f \<Rightarrow> get_last_seq_cst_fence s i (Some f));
     find (r_decisive s cur rf ftl fl ftb) (rev (tls ! i)) }"

lemma observed_cong: "A s' = A s \<Longrightarrow> observed s' = observed s"
  by (simp only: fun_eq_iff observed_def simp_thms)

lemma r_mo_thread_edges:
  "r_mo_thread cur rf ftl fl ftb xs st = Some st' \<Longrightarrow> edges_added (snd st) (snd st')"
proof (induction xs)
  case Nil
  then show ?case by simp
next
  case (Cons a xs)
  then show ?case
    by (auto simp: Let_def split: if_splits option.splits dest: mo_add_edges(1))
qed

lemma r_mo_thread_decisive:
  assumes "r_mo_thread cur rf ftl fl ftb xs st = Some st'"
    and "graph_ok (mo_graph (snd st))"
    and "find (r_decisive (snd st) cur rf ftl fl ftb) xs = Some act"
    and "observed (snd st) act = Some x"
    and "\<And>w. rf = ActObj w \<Longrightarrow> is_write (A (snd st) w)"
  shows "x = rf \<or> mo_has (mo_graph (snd st')) x rf"
  using assms
proof (induction xs)
  case Nil
  then show ?case by simp
next
  case (Cons a xs)
  show ?case
  proof (cases "r_decisive (snd st) cur rf ftl fl ftb a")
    case True
    with Cons.prems(3) have "act = a" by simp
    with True Cons.prems(1,2,4) Cons.prems(5) [of a] show ?thesis
      by (auto simp: r_decisive_def observed_def Let_def split: if_splits option.splits
          dest: mo_add_edges(2))
  next
    case False
    then have "find (r_decisive (snd st) cur rf ftl fl ftb) xs = Some act"
      using Cons.prems(3) by simp
    moreover have "r_mo_thread cur rf ftl fl ftb xs st = Some st'"
      using False Cons.prems(1) by (auto simp: r_decisive_def Let_def split: if_splits)
    ultimately show ?thesis using Cons by blast
  qed
qed

lemma order_promise_edges:
  "order_promise cur from p st = Some st' \<Longrightarrow> edges_added (snd st) (snd st')"
  by (auto simp: order_promise_def bind_eq_Some_conv split: if_splits dest: mo_add_edges(1))

lemma r_mo_in_thread_edges:
  "r_mo_in_thread cur rf fl tls i st = Some st' \<Longrightarrow> edges_added (snd st) (snd st')"
  by (auto simp: r_mo_in_thread_def bind_eq_Some_conv Let_def dest: r_mo_thread_edges)

lemma r_modification_order_edges:
  assumes "r_modification_order cur rf s = Some (b, s')"
  shows "edges_added s s'"
proof -
  from assms obtain tls fl st where
    1: "fold_opt (r_mo_in_thread cur rf fl tls) [0 ..< length tls] (False, s) = Some st" and
    2: "fold_opt (order_promise cur rf) (promises s) st = Some (b, s')"
    by (auto simp: r_modification_order_def bind_eq_Some_conv split: if_splits)
  have "edges_added s (snd st)" using edges.fold [OF 1, of snd, OF r_mo_in_thread_edges] by simp
  moreover have "edges_added (snd st) s'" using edges.fold [OF 2, of snd, OF order_promise_edges] by simp
  ultimately show ?thesis by (rule edges_added_trans)
qed

text \<open>
  C2: coherence of reads. When \<open>r_modification_order\<close> returns, the store that the decisive
  action of any thread writes or reads is the store the read reads from, or is ordered before
  it in the modification order.
\<close>

theorem read_coherence:
  assumes "reachable_graph (mo_graph s)" and "r_modification_order cur rf s = Some (added, s')"
    and "obj_thrd_map s (location (A s cur)) = Some tls" and "i < length tls"
    and "r_decisive_in s cur rf tls i = Some act" and "observed s act = Some x"
    and "\<And>w. rf = ActObj w \<Longrightarrow> is_write (A s w)"
  shows "x = rf \<or> mo_has (mo_graph s') x rf"
proof -
  have ok: "graph_ok (mo_graph s)" using assms(1) by (rule reachable_graph_ok)
  from assms(5) obtain fl ftl ftb where
    fl: "get_last_seq_cst_fence s (tid (A s cur)) None = Some fl" and
    ftl: "(if i \<noteq> tid (A s cur) then get_last_seq_cst_fence s i None else Some None) = Some ftl" and
    ftb: "(case fl of None \<Rightarrow> Some None | Some f \<Rightarrow> get_last_seq_cst_fence s i (Some f)) = Some ftb" and
    found: "find (r_decisive s cur rf ftl fl ftb) (rev (tls ! i)) = Some act"
    by (auto simp: r_decisive_in_def bind_eq_Some_conv)
  from assms(2,3) fl obtain st where
    1: "fold_opt (r_mo_in_thread cur rf fl tls) [0 ..< length tls] (False, s) = Some st" and
    2: "fold_opt (order_promise cur rf) (promises s) st = Some (added, s')"
    by (auto simp: r_modification_order_def bind_eq_Some_conv split: if_splits)
  from fold_opt_at [OF 1 assms(4)] obtain st1 st2 where
    a: "fold_opt (r_mo_in_thread cur rf fl tls) [0 ..< i] (False, s) = Some st1" and
    b: "r_mo_in_thread cur rf fl tls i st1 = Some st2" and
    c: "fold_opt (r_mo_in_thread cur rf fl tls) [Suc i ..< length tls] st2 = Some st" .
  have e1: "edges_added s (snd st1)" using edges.fold [OF a, of snd, OF r_mo_in_thread_edges] by simp
  note F = edges_added_fields [OF e1]
  have ok1: "graph_ok (mo_graph (snd st1))" by (rule edges_added_ok(1) [OF e1 ok])
  have dec: "r_decisive (snd st1) = r_decisive s"
    using F(2) by (simp add: fun_eq_iff r_decisive_def happens_def sc_ordered_def earlier_def)
  have "r_mo_thread cur rf ftl fl ftb (rev (tls ! i)) st1 = Some st2"
    using b unfolding r_mo_in_thread_def F(2,9) Let_def ftl ftb by simp
  moreover have "observed (snd st1) act = Some x" using assms(6) observed_cong [OF F(2)] by simp
  ultimately have has: "x = rf \<or> mo_has (mo_graph (snd st2)) x rf"
    using r_mo_thread_decisive [OF _ ok1, unfolded dec, OF _ found] assms(7) F(2) by simp
  have "edges_added (snd st2) s'"
    using edges_added_trans [OF edges.fold [OF c, of snd, OF r_mo_in_thread_edges]
        edges.fold [OF 2, of snd, OF order_promise_edges]]
    by simp
  moreover have "graph_ok (mo_graph (snd st2))"
    using edges_added_ok(1) [OF r_mo_in_thread_edges [OF b] ok1] .
  ultimately show ?thesis using has edges_added_ok(2) by blast
qed

section \<open>Writes\<close>

text \<open>A write also sends future values: they change nodes and the backtracking point.\<close>

definition edges_sent :: "exec \<Rightarrow> exec \<Rightarrow> bool" where
  "edges_sent s s' \<longleftrightarrow>
     (\<exists>ns b. edges_added (s\<lparr>node_stack := ns, next_backtrack := b\<rparr>) s')"

lemma edges_added_sent [intro]: "edges_added s s' \<Longrightarrow> edges_sent s s'"
  unfolding edges_sent_def
  by (rule exI [of _ "node_stack s"], rule exI [of _ "next_backtrack s"]) simp

lemma edges_sent_trans:
  assumes "edges_sent s s1" and "edges_sent s1 s2"
  shows "edges_sent s s2"
proof -
  from assms obtain ns b ms c where
    a: "edges_added (s\<lparr>node_stack := ns, next_backtrack := b\<rparr>) s1" and
    b: "edges_added (s1\<lparr>node_stack := ms, next_backtrack := c\<rparr>) s2"
    unfolding edges_sent_def by blast
  have "edges_added (s\<lparr>node_stack := ms, next_backtrack := c\<rparr>) (s1\<lparr>node_stack := ms, next_backtrack := c\<rparr>)"
  proof -
    from a obtain es where r: "run_ops (map (\<lambda>e. Op_addEdge (fst e) (snd e)) es) (mo_graph s) = Some (mo_graph s1)"
      and e: "s1 = s\<lparr>node_stack := ns, next_backtrack := b, mo_graph := mo_graph s1\<rparr>"
      unfolding edges_added_def by auto
    have "s1\<lparr>node_stack := ms, next_backtrack := c\<rparr>
        = s\<lparr>node_stack := ms, next_backtrack := c, mo_graph := mo_graph s1\<rparr>"
      by (subst e) simp
    with r show ?thesis unfolding edges_added_def by auto
  qed
  from edges_added_trans [OF this b] show ?thesis unfolding edges_sent_def by blast
qed

interpretation sent: frame edges_sent
  by unfold_locales (auto intro: edges_sent_trans)

lemmas edges_sent_refl [intro, simp] = sent.refl

lemma edges_sent_ok:
  assumes "edges_sent s s'" and "graph_ok (mo_graph s)"
  shows "graph_ok (mo_graph s')" and "mo_has (mo_graph s) u v \<Longrightarrow> mo_has (mo_graph s') u v"
  using assms edges_added_ok unfolding edges_sent_def by fastforce+

lemma edges_sent_fields:
  assumes "edges_sent s s'"
  shows "A s' = A s" and "obj_map s' = obj_map s" and "promises s' = promises s" and "proms s' = proms s"
    and "get_last_seq_cst_fence s' = get_last_seq_cst_fence s"
proof -
  obtain ns b where a: "edges_added (s\<lparr>node_stack := ns, next_backtrack := b\<rparr>) s'"
    using assms unfolding edges_sent_def by blast
  show "A s' = A s" and "obj_map s' = obj_map s" and "promises s' = promises s" and "proms s' = proms s"
    and "get_last_seq_cst_fence s' = get_last_seq_cst_fence s"
    by (simp_all add: edges_added_fields [OF a] A_def fun_eq_iff get_last_seq_cst_fence_def
        cong: option.case_cong)
qed

definition w_decisive :: "exec \<Rightarrow> aid \<Rightarrow> aid option \<Rightarrow> aid \<Rightarrow> bool" where
  "w_decisive s cur ftb act \<longleftrightarrow>
     act \<noteq> cur \<and> (happens s act cur \<or> is_write (A s act) \<and> (\<exists>f \<in> set_option ftb. earlier s act f))"

text \<open>
  The decisive action of thread \<open>i\<close> for a write: the most recent one that happens before it or
  that a fence pair orders before it (29.3, statement 7).
\<close>

definition w_decisive_in :: "exec \<Rightarrow> aid \<Rightarrow> aid list list \<Rightarrow> nat \<Rightarrow> aid option" where
  "w_decisive_in s cur tls i = do {
     fl \<leftarrow> get_last_seq_cst_fence s (tid (A s cur)) None;
     ftb \<leftarrow> (case fl of
              Some f \<Rightarrow> if i \<noteq> tid (A s cur) then get_last_seq_cst_fence s i (Some f) else Some None
            | None \<Rightarrow> Some None);
     find (w_decisive s cur ftb) (rev (tls ! i)) }"

abbreviation st_exec :: "w_state \<Rightarrow> exec" where "st_exec st \<equiv> snd (snd st)"

lemma w_mo_add_edges:
  assumes "w_mo_add x y st = Some st'"
  shows "edges_sent (st_exec st) (st_exec st')"
    and "graph_ok (mo_graph (st_exec st)) \<Longrightarrow> mo_has (mo_graph (st_exec st')) x y"
proof -
  from assms obtain b s1 where m: "mo_add x y (fst st, st_exec st) = Some (b, s1)"
    and st': "st' = (b, fst (snd st), s1)"
    by (auto simp: w_mo_add_def bind_eq_Some_conv split: prod.splits)
  show "edges_sent (st_exec st) (st_exec st')" using mo_add_edges(1) [OF m] st' by auto
  show "mo_has (mo_graph (st_exec st')) x y" if "graph_ok (mo_graph (st_exec st))"
    using mo_add_edges(2) [OF m] that st' by simp
qed

lemma edges_sent_put [intro]:
  "edges_sent s (put_node i n s)" "edges_sent s (snd (set_latest_backtrack a s))"
proof -
  have "edges_sent s (s\<lparr>node_stack := ns, next_backtrack := b\<rparr>)" for ns b
    unfolding edges_sent_def by blast
  from this [where b = "next_backtrack s"] this [where ns = "node_stack s" and b = "Some a"]
  show "edges_sent s (put_node i n s)" "edges_sent s (snd (set_latest_backtrack a s))"
    by (simp_all add: put_node_def set_latest_backtrack_def)
qed

lemma exec_add_future_value_sent:
  assumes "exec_add_future_value writer reader s = Some s'"
  shows "edges_sent s s'"
proof -
  from assms consider "s' = s" | i n where "s' = put_node i n s"
    | i n where "s' = snd (set_latest_backtrack reader (put_node i n s))"
    unfolding exec_add_future_value_def bind_eq_Some_conv Let_def case_prod_beta
    by (auto split: if_splits simp: bind_eq_Some_conv)
  then show ?thesis by cases (auto intro: edges_sent_trans)
qed

lemma send_or_skip_sent:
  "send_or_skip cur sending act st = Some st' \<Longrightarrow> edges_sent (st_exec st) (st_exec st')"
  by (auto simp: send_or_skip_def bind_eq_Some_conv split: if_splits prod.splits
      dest: exec_add_future_value_sent)

lemma w_mo_thread_sent:
  "w_mo_thread cur sending ftb xs st = Some st' \<Longrightarrow> edges_sent (st_exec st) (st_exec st')"
proof (induction xs arbitrary: st)
  case Nil
  then show ?case by simp
next
  case (Cons a xs)
  then show ?case
    by (auto simp: Let_def bind_eq_Some_conv split: if_splits option.splits
        dest: w_mo_add_edges(1) send_or_skip_sent intro: edges_sent_trans)
qed

lemma sent_same:
  assumes "edges_sent s s'"
  shows "w_decisive s' = w_decisive s" and "observed s' = observed s"
    and "w_decisive_in s' = w_decisive_in s"
proof -
  note F = edges_sent_fields [OF assms]
  show w: "w_decisive s' = w_decisive s"
    by (simp only: fun_eq_iff w_decisive_def happens_def earlier_def F simp_thms)
  show "observed s' = observed s" by (rule observed_cong [OF F(1)])
  show "w_decisive_in s' = w_decisive_in s"
    by (simp only: fun_eq_iff w_decisive_in_def w F simp_thms)
qed

lemma w_mo_thread_decisive:
  assumes "w_mo_thread cur sending ftb xs st = Some st'"
    and "graph_ok (mo_graph (st_exec st))"
    and "find (w_decisive (st_exec st) cur ftb) xs = Some act"
    and "observed (st_exec st) act = Some x"
    and "is_write (A (st_exec st) act) \<or> is_read (A (st_exec st) act)"
    and "cur \<in> set xs \<Longrightarrow> \<not> is_rmw (A (st_exec st) cur)"
  shows "mo_has (mo_graph (st_exec st')) x (ActObj cur)"
  using assms
proof (induction xs arbitrary: st)
  case Nil
  then show ?case by simp
next
  case (Cons a xs)
  show ?case
  proof (cases "w_decisive (st_exec st) cur ftb a")
    case True
    with Cons.prems(3) have "act = a" by simp
    with True Cons.prems(1,2,4,5) show ?thesis
      by (auto simp: w_decisive_def observed_def Let_def split: if_splits option.splits
          dest: w_mo_add_edges(2))
  next
    case False
    then have f: "find (w_decisive (st_exec st) cur ftb) xs = Some act"
      using Cons.prems(3) by simp
    have "\<exists>st1. edges_sent (st_exec st) (st_exec st1) \<and> w_mo_thread cur sending ftb xs st1 = Some st'"
      using False Cons.prems(1,6) send_or_skip_sent edges_sent_refl
      by (simp add: w_decisive_def Let_def bind_eq_Some_conv split: if_splits del: split_paired_Ex) blast+
    then obtain st1 where s1: "edges_sent (st_exec st) (st_exec st1)"
      and rest: "w_mo_thread cur sending ftb xs st1 = Some st'" by blast
    note F = sent_same [OF s1] edges_sent_fields(1) [OF s1]
    show ?thesis
      by (rule Cons.IH [OF rest edges_sent_ok(1) [OF s1 Cons.prems(2)]])
        (use f Cons.prems F in auto)
  qed
qed

lemma w_mo_in_thread_sent:
  "w_mo_in_thread cur sending fl tls i st = Some st' \<Longrightarrow> edges_sent (st_exec st) (st_exec st')"
  by (auto simp: w_mo_in_thread_def bind_eq_Some_conv Let_def dest: w_mo_thread_sent)

lemma w_order_promise_sent:
  "w_order_promise cur p st = Some st' \<Longrightarrow> edges_sent (st_exec st) (st_exec st')"
  by (auto simp: w_order_promise_def bind_eq_Some_conv split: prod.splits dest!: order_promise_edges)

text \<open>
  C3: coherence of writes. When \<open>w_modification_order\<close> returns, the store that the decisive
  action of any thread writes or reads is ordered before the new write in the modification
  order, and so is the last sequentially consistent write if the new one is sequentially
  consistent. (In the thread of an RMW the edge of the RMW itself does this, so that thread is
  not searched.) Sending future values to other reads on the way does not change this.
\<close>

theorem write_coherence:
  assumes "reachable_graph (mo_graph s)"
    and "w_modification_order cur sending s = Some (added, readers_to, s')"
    and "obj_thrd_map s (location (A s cur)) = Some tls"
  shows "(\<forall>i act x. i < length tls \<longrightarrow> w_decisive_in s cur tls i = Some act \<longrightarrow> observed s act = Some x \<longrightarrow>
      is_write (A s act) \<or> is_read (A s act) \<longrightarrow> (cur \<in> set (tls ! i) \<longrightarrow> \<not> is_rmw (A s cur)) \<longrightarrow>
      mo_has (mo_graph s') x (ActObj cur)) \<and>
    (\<forall>w. is_seqcst (A s cur) \<longrightarrow> get_last_seq_cst_write s cur = Some (Some w) \<longrightarrow>
      mo_has (mo_graph s') (ActObj w) (ActObj cur))"
proof (intro conjI allI impI)
  have ok: "graph_ok (mo_graph s)" using assms(1) by (rule reachable_graph_ok)
  from assms(2,3) obtain lw st1 fl st2 where
    lw: "(if is_seqcst (A s cur) then get_last_seq_cst_write s cur else Some None) = Some lw" and
    0: "(case lw of None \<Rightarrow> Some (False, [], s)
         | Some w \<Rightarrow> w_mo_add (ActObj w) (ActObj cur) (False, [], s)) = Some st1" and
    fl: "get_last_seq_cst_fence s (tid (A s cur)) None = Some fl" and
    1: "fold_opt (w_mo_in_thread cur sending fl tls) [0 ..< length tls] st1 = Some st2" and
    2: "fold_opt (w_order_promise cur) (promises s) st2 = Some (added, readers_to, s')"
    by (auto simp: w_modification_order_def bind_eq_Some_conv split: if_splits)
  have e0: "edges_sent s (st_exec st1)"
    using 0 w_mo_add_edges(1) [of _ _ "(False, [], s)" st1] by (auto split: option.splits)
  have e1: "edges_sent (st_exec st1) (st_exec st2)"
    using sent.fold [OF 1, of st_exec, OF w_mo_in_thread_sent] .
  have e2: "edges_sent (st_exec st2) s'"
    using sent.fold [OF 2, of st_exec, OF w_order_promise_sent] by simp
  have ok1: "graph_ok (mo_graph (st_exec st1))" by (rule edges_sent_ok(1) [OF e0 ok])
  show "mo_has (mo_graph s') (ActObj w) (ActObj cur)"
    if "is_seqcst (A s cur)" and "get_last_seq_cst_write s cur = Some (Some w)" for w
  proof -
    have "mo_has (mo_graph (st_exec st1)) (ActObj w) (ActObj cur)"
      using 0 lw that w_mo_add_edges(2) [of _ _ "(False, [], s)" st1] ok by auto
    then show ?thesis using edges_sent_ok [OF edges_sent_trans [OF e1 e2] ok1] by blast
  qed
  show "mo_has (mo_graph s') x (ActObj cur)"
    if "i < length tls" and dec: "w_decisive_in s cur tls i = Some act" and obs: "observed s act = Some x"
      and kind: "is_write (A s act) \<or> is_read (A s act)"
      and rmw: "cur \<in> set (tls ! i) \<longrightarrow> \<not> is_rmw (A s cur)" for i act x
  proof -
    from fold_opt_at [OF 1 that(1)] obtain a b where
      a: "fold_opt (w_mo_in_thread cur sending fl tls) [0 ..< i] st1 = Some a" and
      b: "w_mo_in_thread cur sending fl tls i a = Some b" and
      c: "fold_opt (w_mo_in_thread cur sending fl tls) [Suc i ..< length tls] b = Some st2" .
    have ea: "edges_sent s (st_exec a)"
      using edges_sent_trans [OF e0 sent.fold [OF a, of st_exec, OF w_mo_in_thread_sent]] .
    note F = edges_sent_fields [OF ea] and G = sent_same [OF ea]
    from dec [unfolded w_decisive_in_def fl] obtain ftb where
      ftb: "(case fl of Some f \<Rightarrow> if i \<noteq> tid (A s cur) then get_last_seq_cst_fence s i (Some f) else Some None
             | None \<Rightarrow> Some None) = Some ftb" and
      found: "find (w_decisive s cur ftb) (rev (tls ! i)) = Some act"
      by (auto simp: bind_eq_Some_conv)
    have "w_mo_thread cur sending ftb (rev (tls ! i)) a = Some b"
      using b ftb unfolding w_mo_in_thread_def F(1,5) Let_def by simp
    then have "mo_has (mo_graph (st_exec b)) x (ActObj cur)"
      by (rule w_mo_thread_decisive [OF _ edges_sent_ok(1) [OF ea ok]])
        (use found obs kind rmw F G in auto)
    moreover have "graph_ok (mo_graph (st_exec b))"
      by (rule edges_sent_ok(1) [OF edges_sent_trans [OF ea w_mo_in_thread_sent [OF b]] ok])
    moreover have "edges_sent (st_exec b) s'"
      using edges_sent_trans [OF sent.fold [OF c, of st_exec, OF w_mo_in_thread_sent] e2] .
    ultimately show ?thesis using edges_sent_ok(2) by blast
  qed
qed

definition coherence_exec :: exec where
  "coherence_exec = (sample_exec [1 \<mapsto> sample_act ATOMIC_WRITE memory_order_relaxed 64 7 1 1 [0, 1],
       2 \<mapsto> sample_act ATOMIC_WRITE memory_order_relaxed 64 8 2 2 [0, 0, 2],
       3 \<mapsto> sample_act ATOMIC_READ memory_order_relaxed 64 0 2 3 [0, 1, 3]])
     \<lparr>obj_thrd_map := [64 \<mapsto> [[], [1], [2, 3]]]\<rparr>"

lemmas coherence_simps = coherence_exec_def sample_simps action_defs

lemma coherence_step:
  "\<exists>added s'. r_modification_order 3 (ActObj 2) coherence_exec = Some (added, s')"
  by (simp add: r_modification_order_def r_mo_in_thread_def coherence_simps get_last_seq_cst_fence_def
      upt_rec sc_ordered_def mo_add_def graph_eval) blast

theorem read_coherence_witness:
  "\<exists>added s'. r_modification_order 3 (ActObj 2) coherence_exec = Some (added, s')
     \<and> mo_has (mo_graph s') (ActObj 1) (ActObj 2)"
proof -
  obtain added s' where r: "r_modification_order 3 (ActObj 2) coherence_exec = Some (added, s')"
    using coherence_step by blast
  have "ActObj 1 = ActObj 2 \<or> mo_has (mo_graph s') (ActObj 1) (ActObj 2)"
  proof (rule read_coherence [OF _ r, of "[[], [1], [2, 3]]" 1 1])
    show "reachable_graph (mo_graph coherence_exec)"
      by (simp add: coherence_simps reachable_graph.new)
  qed (simp_all add: coherence_simps r_decisive_in_def r_decisive_def get_last_seq_cst_fence_def
      observed_def)
  with r show ?thesis by auto
qed

definition write_exec :: exec where
  "write_exec = (sample_exec [1 \<mapsto> sample_act ATOMIC_WRITE memory_order_relaxed 64 7 1 1 [0, 1],
       2 \<mapsto> sample_act ATOMIC_WRITE memory_order_seq_cst 64 8 3 3 [0, 0, 0, 3],
       3 \<mapsto> sample_act ATOMIC_WRITE memory_order_seq_cst 64 9 2 4 [0, 2, 4],
       4 \<mapsto> (sample_act ATOMIC_READ memory_order_relaxed 64 0 1 2 [0, 2])\<lparr>reads_from := Some 1\<rparr>])
     \<lparr>obj_thrd_map := [64 \<mapsto> [[], [1, 4], [3], [2]]], obj_map := [64 \<mapsto> [1, 4, 2, 3]]\<rparr>"

lemmas write_simps = write_exec_def sample_simps action_defs back_to_def before_in_def

lemma write_step:
  "\<exists>r. w_modification_order 3 True write_exec = Some r"
  by (simp add: w_modification_order_def w_mo_in_thread_def write_simps get_last_seq_cst_fence_def
      get_last_seq_cst_write_def FENCE_LOCATION_def upt_rec w_mo_add_def mo_add_def graph_eval) blast

theorem write_coherence_witness:
  "\<exists>added readers_to s'. w_modification_order 3 True write_exec = Some (added, readers_to, s')
     \<and> mo_has (mo_graph s') (ActObj 1) (ActObj 3) \<and> mo_has (mo_graph s') (ActObj 2) (ActObj 3)"
proof -
  obtain added readers_to s' where w: "w_modification_order 3 True write_exec = Some (added, readers_to, s')"
    using write_step by auto
  have g: "reachable_graph (mo_graph write_exec)" by (simp add: write_simps reachable_graph.new)
  have tls: "obj_thrd_map write_exec (location (A write_exec 3)) = Some [[], [1, 4], [3], [2]]"
    by (simp add: write_simps)
  note W = write_coherence [OF g w tls]
  have "w_decisive_in write_exec 3 [[], [1, 4], [3], [2]] 1 = Some 4" "observed write_exec 4 = Some (ActObj 1)"
    "is_read (A write_exec 4)" "3 \<notin> set ([[], [1, 4], [3], [2 :: aid]] ! 1)"
    by (simp_all add: w_decisive_in_def w_decisive_def get_last_seq_cst_fence_def FENCE_LOCATION_def
        observed_def write_simps)
  then have "mo_has (mo_graph s') (ActObj 1) (ActObj 3)" using W by fastforce
  moreover have "is_seqcst (A write_exec 3)" "get_last_seq_cst_write write_exec 3 = Some (Some 2)"
    by (simp_all add: get_last_seq_cst_write_def write_simps)
  then have "mo_has (mo_graph s') (ActObj 2) (ActObj 3)" using W by blast
  ultimately show ?thesis using w by blast
qed

end
