(* ===== verification/ExecMayRead.thy ===== *)
theory ExecMayRead
  imports ExecCoherence
begin

text \<open>
  \<open>build_may_read_from\<close>: which stores a new read is offered. Every candidate is tried on the
  modification order and the order is rolled back, so the trials must leave no trace, and
  only stores whose edges keep the execution feasible may be offered.
\<close>

section \<open>Trials\<close>

text \<open>The same order: the same edges in the same lists, the same RMWs, the same verdict.\<close>

definition same_order :: "cycle_graph \<Rightarrow> cycle_graph \<Rightarrow> bool" where
  "same_order g g' \<longleftrightarrow> edges_of (nodes g') = edges_of (nodes g)
     \<and> back_edges_of (nodes g') = back_edges_of (nodes g) \<and> getRMW (nodes g') = getRMW (nodes g)
     \<and> checkForCycles g' = checkForCycles g \<and> (reachable_graph g \<longrightarrow> reachable_graph g')"

interpretation order: frame same_order
  by unfold_locales (auto simp: same_order_def)

lemmas same_order_refl [intro, simp] = order.refl

lemma rolled_back_same_order:
  assumes "startChanges g = Some g1" and "edges_added (s\<lparr>mo_graph := g1\<rparr>) s'" and "reachable_graph g"
  shows "same_order g (rollbackChanges (mo_graph s'))"
proof -
  have g1: "g1 = g" using assms(1) by (auto simp: startChanges_def split: if_splits)
  with assms(2) obtain ops where ops: "run_ops ops g = Some (mo_graph s')"
    by (auto simp: edges_added_def)
  have start: "startChanges g = Some g" using assms(1) g1 by simp
  note r = rollback_since [OF since_run_ops [OF since_start [OF graph_ok_wf [OF reachable_graph_ok [OF assms(3)]] start] ops]]
  show ?thesis
    using r reachable_graph.rollback [OF assms(3) start ops] by (simp add: same_order_def checkForCycles_def)
qed

text \<open>The edges of a read do not depend on the node stack.\<close>

definition with_nodes :: "node_stack \<Rightarrow> bool \<times> exec \<Rightarrow> bool \<times> exec" where
  "with_nodes ns st = (fst st, (snd st)\<lparr>node_stack := ns\<rparr>)"

lemma with_nodes_simps [simp]:
  "fst (with_nodes ns st) = fst st" "snd (with_nodes ns st) = (snd st)\<lparr>node_stack := ns\<rparr>"
  by (simp_all add: with_nodes_def)

lemma nodes_irrelevant [simp]:
  "A (s\<lparr>node_stack := ns\<rparr>) = A s" "happens (s\<lparr>node_stack := ns\<rparr>) = happens s"
  "earlier (s\<lparr>node_stack := ns\<rparr>) = earlier s"
  "sc_ordered (s\<lparr>node_stack := ns\<rparr>) = sc_ordered s"
  "get_last_seq_cst_fence (s\<lparr>node_stack := ns\<rparr>) = get_last_seq_cst_fence s"
  "get_last_seq_cst_write (s\<lparr>node_stack := ns\<rparr>) = get_last_seq_cst_write s"
  "is_infeasible (s\<lparr>node_stack := ns\<rparr>) = is_infeasible s"
  by (simp_all add: fun_eq_iff A_def happens_def earlier_def sc_ordered_def is_infeasible_def
      promises_expired_def get_last_seq_cst_fence_def get_last_seq_cst_write_def cong: option.case_cong)

lemma mo_add_nodes: "mo_add x y (with_nodes ns st) = map_option (with_nodes ns) (mo_add x y st)"
  by (cases "addEdge x y (mo_graph (snd st))") (auto simp: mo_add_def with_nodes_def)

lemma r_mo_thread_nodes:
  "r_mo_thread cur rf ftl fl ftb xs (with_nodes ns st)
     = map_option (with_nodes ns) (r_mo_thread cur rf ftl fl ftb xs st)"
proof (induction xs)
  case Nil
  then show ?case by simp
next
  case (Cons a xs)
  then show ?case by (simp add: Let_def mo_add_nodes split: option.split)
qed

lemma bind_map_option: "Option.bind (map_option f x) g = Option.bind x (\<lambda>y. g (f y))"
  by (cases x) simp_all

lemma map_option_of_bind: "map_option f (Option.bind x g) = Option.bind x (\<lambda>y. map_option f (g y))"
  by (cases x) simp_all

lemmas commute_simps = bind_map_option map_option_of_bind if_distrib [of "map_option f" for f]

lemma fold_opt_commute:
  assumes "\<And>x st. f x (h st) = map_option h (f x st)"
  shows "fold_opt f xs (h st) = map_option h (fold_opt f xs st)"
  by (induction xs arbitrary: st) (simp_all add: assms commute_simps)

lemma r_mo_in_thread_nodes:
  "r_mo_in_thread cur rf fl tls i (with_nodes ns st)
     = map_option (with_nodes ns) (r_mo_in_thread cur rf fl tls i st)"
  unfolding r_mo_in_thread_def Let_def commute_simps with_nodes_simps nodes_irrelevant r_mo_thread_nodes ..

lemma order_promise_nodes:
  "order_promise cur rf p (with_nodes ns st) = map_option (with_nodes ns) (order_promise cur rf p st)"
  unfolding order_promise_def commute_simps with_nodes_simps nodes_irrelevant mo_add_nodes
  by (simp add: commute_simps cong: if_cong)

lemma r_modification_order_nodes:
  "r_modification_order cur rf (s\<lparr>node_stack := ns\<rparr>)
     = map_option (with_nodes ns) (r_modification_order cur rf s)"
proof -
  have st: "(False, s\<lparr>node_stack := ns\<rparr>) = with_nodes ns (False, s)" by (simp add: with_nodes_def)
  have a: "fold_opt (r_mo_in_thread cur rf fl tls) xs (with_nodes ns t)
      = map_option (with_nodes ns) (fold_opt (r_mo_in_thread cur rf fl tls) xs t)" for fl tls xs t
    by (rule fold_opt_commute) (rule r_mo_in_thread_nodes)
  have b: "fold_opt (order_promise cur rf) xs (with_nodes ns t)
      = map_option (with_nodes ns) (fold_opt (order_promise cur rf) xs t)" for xs t
    by (rule fold_opt_commute) (rule order_promise_nodes)
  show ?thesis
    unfolding r_modification_order_def st nodes_irrelevant a
    by (simp add: commute_simps a b cong: if_cong)
qed

section \<open>What is offered\<close>

text \<open>
  Reading from \<open>rf\<close> is feasible if its edges, added to the same modification order, leave the
  execution feasible.
\<close>

definition feasible :: "exec \<Rightarrow> aid \<Rightarrow> mo_obj \<Rightarrow> bool" where
  "feasible s cur rf \<longleftrightarrow> (\<exists>g added s1. same_order (mo_graph s) g
     \<and> r_modification_order cur rf (s\<lparr>mo_graph := g\<rparr>) = Some (added, s1) \<and> \<not> is_infeasible s1)"

text \<open>
  A visible store: another write, not hidden by a more recent write of its thread that happens
  before the read, nor, for a sequentially consistent read, by the last such write.
\<close>

definition sc_hidden :: "exec \<Rightarrow> aid \<Rightarrow> aid option \<Rightarrow> aid \<Rightarrow> bool" where
  "sc_hidden s cur lw act \<longleftrightarrow> is_seqcst (A s cur)
     \<and> (is_seqcst (A s act) \<or> (case lw of None \<Rightarrow> False | Some w \<Rightarrow> happens s act w)) \<and> Some act \<noteq> lw"

definition visible :: "exec \<Rightarrow> aid \<Rightarrow> aid option \<Rightarrow> aid list \<Rightarrow> aid \<Rightarrow> bool" where
  "visible s cur lw xs act \<longleftrightarrow> is_write (A s act) \<and> act \<noteq> cur \<and> \<not> sc_hidden s cur lw act
     \<and> (\<exists>as bs. xs = as @ act # bs
          \<and> (\<forall>b \<in> set bs. is_write (A s b) \<and> b \<noteq> cur \<longrightarrow> \<not> happens s b cur))"

text \<open>The executions the trials run through: the same order, and a longer list of choices.\<close>

definition offers :: "exec \<Rightarrow> aid \<Rightarrow> nat \<Rightarrow> node \<Rightarrow> (aid \<Rightarrow> bool) \<Rightarrow> exec \<Rightarrow> bool" where
  "offers s cur i n P t \<longleftrightarrow> same_order (mo_graph s) (mo_graph t) \<and>
     (\<exists>ws ps. t = (put_node i (n\<lparr>read_from_past := read_from_past n @ ws,
                                 read_from_promises := read_from_promises n @ ps\<rparr>) s)\<lparr>mo_graph := mo_graph t\<rparr>
        \<and> (\<forall>w \<in> set ws. P w \<and> feasible s cur (ActObj w)))"

lemma offers_A:
  assumes "offers s cur i n P t"
  shows "A t = A s" and "happens t = happens s" and "obj_thrd_map t = obj_thrd_map s"
    and "promises t = promises s" and "proms t = proms s"
proof -
  obtain ns g where t: "t = s\<lparr>node_stack := ns, mo_graph := g\<rparr>"
    using assms by (fastforce simp: offers_def put_node_def)
  show "A t = A s" "happens t = happens s" "obj_thrd_map t = obj_thrd_map s"
    "promises t = promises s" "proms t = proms s"
    by (simp_all add: t fun_eq_iff A_def happens_def)
qed

lemma choices_commute:
  "n\<lparr>read_from_promises := p, read_from_past := w\<rparr> = n\<lparr>read_from_past := w, read_from_promises := p\<rparr>"
  by simp

lemma trial_steps:
  assumes s: "reachable_graph (mo_graph s)" and i: "act_node (A s cur) = Some i" "node_at s i = Some n"
    and t: "offers s cur i n P t" and tr: "try_read cur rf add t = Some u"
    and add: "(add = add_read_from_past w \<and> rf = ActObj w \<and> P w) \<or> (\<exists>r. add = add_read_from_promise r)"
  shows "offers s cur i n P u"
proof -
  obtain ws ps where tn: "t = (put_node i (n\<lparr>read_from_past := read_from_past n @ ws,
        read_from_promises := read_from_promises n @ ps\<rparr>) s)\<lparr>mo_graph := mo_graph t\<rparr>"
      and ws: "\<forall>w \<in> set ws. P w \<and> feasible s cur (ActObj w)"
      and same: "same_order (mo_graph s) (mo_graph t)"
    using t unfolding offers_def by blast
  from tr obtain g added s1 s2 where
    g: "startChanges (mo_graph t) = Some g" and
    r: "r_modification_order cur rf (t\<lparr>mo_graph := g\<rparr>) = Some (added, s1)" and
    s2: "(if \<not> is_infeasible s1 then upd_node cur add s1 else Some s1) = Some s2" and
    u: "u = s2\<lparr>mo_graph := rollbackChanges (mo_graph s2)\<rparr>"
    by (auto simp: try_read_def bind_eq_Some_conv)
  have gt: "g = mo_graph t" using g by (auto simp: startChanges_def split: if_splits)
  have e: "edges_added t s1" using r_modification_order_edges [OF r] gt by simp
  have rt: "reachable_graph (mo_graph t)" using same s by (simp add: same_order_def)
  have s1: "s1 = t\<lparr>mo_graph := mo_graph s1\<rparr>" using e by (auto simp: edges_added_def)
  obtain h where h: "s1 = (put_node i (n\<lparr>read_from_past := read_from_past n @ ws,
        read_from_promises := read_from_promises n @ ps\<rparr>) s)\<lparr>mo_graph := h\<rparr>"
  proof
    have "t\<lparr>mo_graph := mo_graph s1\<rparr> = (put_node i (n\<lparr>read_from_past := read_from_past n @ ws,
        read_from_promises := read_from_promises n @ ps\<rparr>) s)\<lparr>mo_graph := mo_graph s1\<rparr>"
      by (subst tn) simp
    then show "s1 = (put_node i (n\<lparr>read_from_past := read_from_past n @ ws,
        read_from_promises := read_from_promises n @ ps\<rparr>) s)\<lparr>mo_graph := mo_graph s1\<rparr>"
      using s1 by simp
  qed
  have g2: "mo_graph s2 = mo_graph s1"
    using s2 by (auto simp: upd_node_def put_node_def bind_eq_Some_conv split: if_splits)
  have same': "same_order (mo_graph s) (mo_graph u)"
    using order.trans [OF same rolled_back_same_order [OF g _ rt, of t s1]] e gt g2 u by simp
  have u0: "u = (put_node i (n\<lparr>read_from_past := read_from_past n @ ws,
        read_from_promises := read_from_promises n @ ps\<rparr>) s)\<lparr>mo_graph := mo_graph u\<rparr>"
    if "s2 = s1"
    by (simp add: u that h)
  show ?thesis
  proof (cases "is_infeasible s1")
    case True
    with s2 u0 ws same' show ?thesis unfolding offers_def by auto
  next
    case False
    have len: "i < length (node_list (node_stack s))"
      using i by (auto simp: node_at_def split: if_splits)
    have As: "A s1 = A s" using s1 offers_A(1) [OF t] by (metis edges_added_fields(2) e)
    have nd: "node_at s1 i = Some (n\<lparr>read_from_past := read_from_past n @ ws,
        read_from_promises := read_from_promises n @ ps\<rparr>)"
      using len by (simp add: h node_at_def put_node_def)
    have s2': "s2 = put_node i (add (n\<lparr>read_from_past := read_from_past n @ ws,
        read_from_promises := read_from_promises n @ ps\<rparr>)) s1"
      using s2 False i As nd by (simp add: upd_node_def)
    have feas: "feasible s cur rf"
    proof -
      have "t\<lparr>mo_graph := g\<rparr> = (s\<lparr>mo_graph := mo_graph t\<rparr>)\<lparr>node_stack := node_stack t\<rparr>"
        unfolding gt by (subst tn, subst (2) tn) (simp add: put_node_def)
      then obtain s3 where "r_modification_order cur rf (s\<lparr>mo_graph := mo_graph t\<rparr>) = Some (added, s3)"
        and "s1 = s3\<lparr>node_stack := node_stack t\<rparr>"
        using r r_modification_order_nodes [of cur rf "node_stack t" "s\<lparr>mo_graph := mo_graph t\<rparr>"]
        by (auto simp: with_nodes_def)
      with False same show ?thesis unfolding feasible_def by auto
    qed
    show ?thesis
      using add
    proof (elim disjE conjE exE)
      assume a: "add = add_read_from_past w" "rf = ActObj w" "P w"
      have "u = (put_node i (n\<lparr>read_from_past := read_from_past n @ (ws @ [w]),
          read_from_promises := read_from_promises n @ ps\<rparr>) s)\<lparr>mo_graph := mo_graph u\<rparr>"
        by (simp add: u s2' a h put_node_def add_read_from_past_def choices_commute)
      moreover have "\<forall>x \<in> set (ws @ [w]). P x \<and> feasible s cur (ActObj x)" using ws feas a by auto
      ultimately show ?thesis using same' unfolding offers_def by blast
    next
      fix r assume a: "add = add_read_from_promise r"
      have "u = (put_node i (n\<lparr>read_from_past := read_from_past n @ ws,
          read_from_promises := read_from_promises n @ (ps @ [r])\<rparr>) s)\<lparr>mo_graph := mo_graph u\<rparr>"
        by (simp add: u s2' a h put_node_def add_read_from_promise_def)
      then show ?thesis using same' ws unfolding offers_def by blast
    qed
  qed
qed

lemma may_read_thread_offers:
  assumes s: "reachable_graph (mo_graph s)" and i: "act_node (A s cur) = Some i" "node_at s i = Some n"
    and tls: "xs \<in> set tls"
  shows "may_read_thread cur lw older t = Some u \<Longrightarrow> rev xs = seen @ older \<Longrightarrow>
    (\<forall>b \<in> set seen. is_write (A s b) \<and> b \<noteq> cur \<longrightarrow> \<not> happens s b cur) \<Longrightarrow>
    offers s cur i n (\<lambda>w. \<exists>xs \<in> set tls. visible s cur lw xs w) t \<Longrightarrow>
    offers s cur i n (\<lambda>w. \<exists>xs \<in> set tls. visible s cur lw xs w) u"
proof (induction older arbitrary: seen t)
  case Nil
  then show ?case by simp
next
  case (Cons act older)
  let ?P = "\<lambda>w. \<exists>xs \<in> set tls. visible s cur lw xs w"
  note F = offers_A [OF Cons.prems(4)]
  show ?case
  proof (cases "is_write (A s act) \<and> act \<noteq> cur")
    case False
    with Cons.prems(1) F have "may_read_thread cur lw older t = Some u" by simp
    then show ?thesis
      by (rule Cons.IH [of _ "seen @ [act]"]) (use Cons.prems False in auto)
  next
    case True
    with Cons.prems(1) F obtain ok t1 where
      ok: "allow_read t cur lw act = Some ok" and
      t1: "(if ok then try_read cur (ActObj act) (add_read_from_past act) t else Some t) = Some t1" and
      u: "(if happens t1 act cur then Some t1 else may_read_thread cur lw older t1) = Some u"
      by (auto simp: bind_eq_Some_conv)
    have o1: "offers s cur i n ?P t1"
    proof (cases ok)
      case False
      with t1 Cons.prems(4) show ?thesis by simp
    next
      case True
      have "\<not> sc_hidden s cur lw act"
        using ok True unfolding allow_read_def sc_hidden_def F by (auto split: if_splits)
      moreover have "xs = rev older @ act # rev seen"
        using Cons.prems(2) by (metis rev_append rev_rev_ident rev.simps(2) append.assoc append_Cons append_Nil)
      ultimately have "visible s cur lw xs act"
        using \<open>is_write (A s act) \<and> act \<noteq> cur\<close> Cons.prems(3) unfolding visible_def
        by (intro conjI exI [of _ "rev older"] exI [of _ "rev seen"]) simp_all
      then show ?thesis
        using trial_steps [OF s i Cons.prems(4), of "ActObj act" "add_read_from_past act" t1 act] t1 True tls
        by auto
    qed
    show ?thesis
    proof (cases "happens s act cur")
      case True
      with u o1 offers_A(2) [OF o1] show ?thesis by simp
    next
      case False
      with u offers_A(2) [OF o1] have "may_read_thread cur lw older t1 = Some u" by simp
      then show ?thesis
        by (rule Cons.IH [of _ "seen @ [act]"]) (use Cons.prems False o1 in auto)
    qed
  qed
qed

text \<open>
  C7: a new read is offered visible stores only. After \<open>build_may_read_from\<close> the modification
  order has the edges, back edges, RMWs and verdict it had before, although every candidate was
  tried on it; the node has its old choices and new ones, each a write of another action on
  the object, not hidden by a later write of its thread that happens before the read, nor by
  the last sequentially consistent write when the read is, and feasible: the edges that
  reading from it adds leave the execution feasible.
\<close>

theorem may_read_from_sound:
  assumes "reachable_graph (mo_graph s)" and "build_may_read_from cur s = Some s'"
    and "get_node s cur = Some n" and "obj_thrd_map s (location (A s cur)) = Some tls"
  shows "same_order (mo_graph s) (mo_graph s') \<and>
    (\<exists>n' ws lw. get_node s' cur = Some n' \<and> read_from_past n' = read_from_past n @ ws
      \<and> (is_seqcst (A s cur) \<longrightarrow> get_last_seq_cst_write s cur = Some lw)
      \<and> (\<forall>w \<in> set ws. (\<exists>xs \<in> set tls. visible s cur lw xs w) \<and> feasible s cur (ActObj w)))"
proof -
  from assms(3) obtain i where i: "act_node (A s cur) = Some i" "node_at s i = Some n"
    by (auto simp: get_node_def bind_eq_Some_conv)
  from assms(2,4) obtain lw s1 s2 where
    lw: "(if is_seqcst (A s cur) then get_last_seq_cst_write s cur else Some None) = Some lw" and
    s1: "fold_opt (\<lambda>xs. may_read_thread cur lw (rev xs)) tls s = Some s1" and
    s2: "fold_opt (inherit_promise cur) (promises s) s1 = Some s2" and
    s': "s' = s2 \<or> s' = set_assert (s2\<lparr>no_valid_reads := True\<rparr>)"
    by (auto simp: build_may_read_from_def bind_eq_Some_conv split: if_splits)
  let ?P = "\<lambda>w. \<exists>xs \<in> set tls. visible s cur lw xs w"
  have o0: "offers s cur i n ?P s"
  proof -
    have "s = (put_node i (n\<lparr>read_from_past := read_from_past n @ [],
        read_from_promises := read_from_promises n @ []\<rparr>) s)\<lparr>mo_graph := mo_graph s\<rparr>"
      using i(2) by (auto simp: put_node_def node_at_def list_update_id split: if_splits)
    then show ?thesis unfolding offers_def by (metis empty_iff list.set(1) same_order_refl)
  qed
  have o1: "offers s cur i n ?P s1"
  proof (rule fold_opt_invariant [OF s1, of "offers s cur i n ?P", OF o0])
    fix xs t t' assume "xs \<in> set tls" "offers s cur i n ?P t" "may_read_thread cur lw (rev xs) t = Some t'"
    then show "offers s cur i n ?P t'"
      using may_read_thread_offers [OF assms(1) i, of xs tls lw "rev xs" t t' "[]"] by simp
  qed
  have o2: "offers s cur i n ?P s2"
  proof (rule fold_opt_invariant [OF s2, of "offers s cur i n ?P", OF o1])
    fix p t t' assume t: "offers s cur i n ?P t" and "inherit_promise cur p t = Some t'"
    then show "offers s cur i n ?P t'"
      by (auto simp: inherit_promise_def bind_eq_Some_conv split: if_splits
          intro: trial_steps [OF assms(1) i t])
  qed
  obtain ws ps where "s2 = (put_node i (n\<lparr>read_from_past := read_from_past n @ ws,
        read_from_promises := read_from_promises n @ ps\<rparr>) s)\<lparr>mo_graph := mo_graph s2\<rparr>"
      and ws: "\<forall>w \<in> set ws. ?P w \<and> feasible s cur (ActObj w)"
      and same: "same_order (mo_graph s) (mo_graph s2)"
    using o2 unfolding offers_def by blast
  then obtain g where g: "s2 = (put_node i (n\<lparr>read_from_past := read_from_past n @ ws,
        read_from_promises := read_from_promises n @ ps\<rparr>) s)\<lparr>mo_graph := g\<rparr>" by blast
  have mo: "mo_graph s' = mo_graph s2" using s' by (auto simp: set_assert_def)
  have nd: "get_node s' cur = Some (n\<lparr>read_from_past := read_from_past n @ ws,
        read_from_promises := read_from_promises n @ ps\<rparr>)"
    using i s' by (auto simp: g get_node_def node_at_def put_node_def set_assert_def A_def split: if_splits)
  show ?thesis
    unfolding mo using same nd ws lw by (intro conjI exI [of _ lw] exI [of _ ws] exI) (auto split: if_splits)
qed

definition read_exec :: exec where
  "read_exec = (sample_exec [1 \<mapsto> sample_act ATOMIC_WRITE memory_order_relaxed 64 7 1 1 [0, 1],
       2 \<mapsto> sample_act ATOMIC_WRITE memory_order_relaxed 64 8 2 2 [0, 0, 2],
       3 \<mapsto> (sample_act ATOMIC_READ memory_order_relaxed 64 0 2 3 [0, 1, 3])\<lparr>act_node := Some 0\<rparr>])
     \<lparr>obj_thrd_map := [64 \<mapsto> [[], [1], [2, 3]]], node_stack := NodeStack_new\<lparr>node_list := [sample_node]\<rparr>\<rparr>"

lemmas read_simps = read_exec_def sample_simps action_defs get_node_def node_at_def

lemma read_step: "\<exists>s'. build_may_read_from 3 read_exec = Some s'"
  by (simp add: build_may_read_from_def allow_read_def try_read_def r_modification_order_def
      r_mo_in_thread_def read_simps get_last_seq_cst_fence_def FENCE_LOCATION_def upt_rec sc_ordered_def
      mo_add_def graph_eval startChanges_def rollbackChanges_def upd_node_def put_node_def
      is_infeasible_def checkForCycles_def promises_expired_def node_removeEdge_def)

theorem may_read_from_sound_witness:
  "\<exists>s'. build_may_read_from 3 read_exec = Some s' \<and> \<not> checkForCycles (mo_graph s')
     \<and> (\<exists>n'. get_node s' 3 = Some n' \<and> (\<forall>w \<in> set (read_from_past n'). is_write (A read_exec w)))"
proof -
  obtain s' where b: "build_may_read_from 3 read_exec = Some s'" using read_step by blast
  have g: "reachable_graph (mo_graph read_exec)" "checkForCycles (mo_graph read_exec) = False"
    by (simp_all add: read_exec_def sample_exec_eq reachable_graph.new)
      (simp add: checkForCycles_def CycleGraph_new_def)
  have n: "get_node read_exec 3 = Some sample_node" by (simp add: read_simps)
  have tls: "obj_thrd_map read_exec (location (A read_exec 3)) = Some [[], [1], [2, 3]]"
    by (simp add: read_simps)
  have "read_from_past sample_node = []" by (simp add: sample_node_eq)
  with may_read_from_sound [OF g(1) b n tls] g(2) b show ?thesis
    by (auto simp: same_order_def visible_def)
qed

end
