(* ===== verification/ExecMutex.thy ===== *)
theory ExecMutex
  imports ExecSample
begin

text \<open>
  \<open>process_mutex\<close> and the wake-ups of \<open>process_thread_action\<close>: who holds a mutex after an
  action on it, and which threads can run again.
\<close>

section \<open>Wake-ups\<close>

text \<open>The contract of a wake-up: threads become enabled, nothing else that the waiting depends on changes.\<close>

definition waiting_kept :: "exec \<Rightarrow> exec \<Rightarrow> bool" where
  "waiting_kept s s' \<longleftrightarrow> length (thread_map s') = length (thread_map s)
     \<and> (\<forall>i. map_option th_pending (get_thread s' i) = map_option th_pending (get_thread s i))
     \<and> (\<forall>i. map_option is_model_thread (get_thread s' i) = map_option is_model_thread (get_thread s i))
     \<and> (\<forall>i. status_of (scheduler s) i = THREAD_ENABLED \<longrightarrow> status_of (scheduler s') i = THREAD_ENABLED)"

definition only_wakes :: "exec \<Rightarrow> exec \<Rightarrow> bool" where
  "only_wakes s s' \<longleftrightarrow>
     s' = s\<lparr>scheduler := scheduler s', thread_map := thread_map s', failed_promise := failed_promise s'\<rparr>
     \<and> waiting_kept s s'"

lemma only_wakes_trans:
  assumes "only_wakes s t" and "only_wakes t u"
  shows "only_wakes s u"
proof -
  have t: "t = s\<lparr>scheduler := scheduler t, thread_map := thread_map t, failed_promise := failed_promise t\<rparr>"
    and u: "u = t\<lparr>scheduler := scheduler u, thread_map := thread_map u, failed_promise := failed_promise u\<rparr>"
    using assms by (simp_all add: only_wakes_def)
  have "u = s\<lparr>scheduler := scheduler u, thread_map := thread_map u, failed_promise := failed_promise u\<rparr>"
    by (subst u, subst t) simp
  moreover have "waiting_kept s u"
    using assms unfolding only_wakes_def waiting_kept_def by metis
  ultimately show ?thesis unfolding only_wakes_def ..
qed

interpretation wakes: frame only_wakes
  by unfold_locales (simp add: only_wakes_def waiting_kept_def, rule only_wakes_trans)

lemmas only_wakes_refl [intro, simp] = wakes.refl

lemma only_wakes_fields:
  assumes "only_wakes s s'"
  shows "A s' = A s" and "acts s' = acts s" and "mutexes s' = mutexes s" and "thrd_priv s' = thrd_priv s"
    and "thread_at s' = thread_at s" and "node_stack s' = node_stack s" and "promises s' = promises s"
    and "condvar_waiters_map s' = condvar_waiters_map s" and "obj_map s' = obj_map s"
    and "next_thread_id s' = next_thread_id s" and "thrd_last_action s' = thrd_last_action s"
proof -
  obtain sch tm fp where "s' = s\<lparr>scheduler := sch, thread_map := tm, failed_promise := fp\<rparr>"
    using assms by (auto simp: only_wakes_def)
  then show "A s' = A s" and "acts s' = acts s" and "mutexes s' = mutexes s" and "thrd_priv s' = thrd_priv s"
    and "thread_at s' = thread_at s" and "node_stack s' = node_stack s" and "promises s' = promises s"
    and "condvar_waiters_map s' = condvar_waiters_map s" and "obj_map s' = obj_map s"
    and "next_thread_id s' = next_thread_id s" and "thrd_last_action s' = thrd_last_action s"
    by (simp_all add: A_def fun_eq_iff)
qed

lemma only_wakes_waiting:
  assumes "only_wakes s s'"
  shows "waiting_on s' i = waiting_on s i"
    and "th_pending (the (get_thread s' i)) = th_pending (the (get_thread s i)) \<or> get_thread s i = None"
proof -
  have p: "map_option th_pending (get_thread s' i) = map_option th_pending (get_thread s i)"
    using assms by (simp add: only_wakes_def waiting_kept_def)
  then show "th_pending (the (get_thread s' i)) = th_pending (the (get_thread s i)) \<or> get_thread s i = None"
    by (cases "get_thread s i"; cases "get_thread s' i") simp_all
  show "waiting_on s' i = waiting_on s i"
    using p unfolding waiting_on_def only_wakes_fields [OF assms]
    by (cases "get_thread s i"; cases "get_thread s' i") simp_all
qed

lemma exec_wake_wakes:
  assumes "exec_wake t s = Some s'"
  shows "only_wakes s s'" and "status_of (scheduler s') t = THREAD_ENABLED"
    and "\<exists>th. get_thread s' t = Some th \<and> th_state th = THREAD_READY"
proof -
  from assms obtain th where th: "get_thread s t = Some th"
    and s': "s' = after_sched (snd (set_enabled t THREAD_ENABLED (scheduler s)))
      (s\<lparr>scheduler := fst (set_enabled t THREAD_ENABLED (scheduler s)),
         thread_map := (thread_map s)[t := Some (th\<lparr>th_state := THREAD_READY\<rparr>)]\<rparr>)"
    by (auto simp: exec_wake_def bind_eq_Some_conv sched_wake_def set_state_def upd_thread_def get_thread_def
        split: if_splits)
  have t: "t < length (thread_map s)" using th by (simp add: get_thread_def split: if_splits)
  have after: "\<exists>fp. after_sched d t = t\<lparr>failed_promise := fp\<rparr>" for d t
    by (cases "d \<and> list_ex (\<lambda>p. has_failed (the (proms t p))) (promises t)")
      (auto simp: after_sched_def check_promises_thread_disabled_def intro: exI [of _ "failed_promise t"])
  obtain fp where u: "s' = s\<lparr>scheduler := fst (set_enabled t THREAD_ENABLED (scheduler s)),
      thread_map := (thread_map s)[t := Some (th\<lparr>th_state := THREAD_READY\<rparr>)], failed_promise := fp\<rparr>"
    unfolding s' using after by metis
  have g: "get_thread s' i = (if i = t then Some (th\<lparr>th_state := THREAD_READY\<rparr>) else get_thread s i)" for i
    using t by (simp add: u get_thread_def nth_list_update)
  have "\<forall>i. map_option th_pending (get_thread s' i) = map_option th_pending (get_thread s i)"
    "\<forall>i. map_option is_model_thread (get_thread s' i) = map_option is_model_thread (get_thread s i)"
    using th by (simp_all add: g)
  then show "only_wakes s s'"
    unfolding only_wakes_def waiting_kept_def by (simp add: u status_set_enabled)
  show "status_of (scheduler s') t = THREAD_ENABLED" by (simp add: u status_set_enabled)
  show "\<exists>th. get_thread s' t = Some th \<and> th_state th = THREAD_READY" by (simp add: g)
qed

lemma wake_if_waiting_wakes:
  assumes "wake_if_waiting c k i s = Some s'"
  shows "only_wakes s s'"
    and "waiting_on s i = Some (Some c) \<Longrightarrow> th_pending (the (get_thread s i)) = Some p \<Longrightarrow> k (A s p) \<Longrightarrow>
      status_of (scheduler s') i = THREAD_ENABLED"
  using assms
  by (auto simp: wake_if_waiting_def bind_eq_Some_conv split: if_splits dest: exec_wake_wakes)

text \<open>The loop over all threads wakes every waiting thread of the kind.\<close>

lemma wake_loop:
  assumes "fold_opt (wake_if_waiting c k) [0 ..< n] s = Some s'"
  shows "only_wakes s s'"
    and "i < n \<Longrightarrow> waiting_on s i = Some (Some c) \<Longrightarrow> th_pending (the (get_thread s i)) = Some p \<Longrightarrow>
      k (A s p) \<Longrightarrow> status_of (scheduler s') i = THREAD_ENABLED"
proof -
  note step = wake_if_waiting_wakes(1)
  show "only_wakes s s'" using wakes.fold [OF assms, of id] step by simp
  assume i: "i < n" and w: "waiting_on s i = Some (Some c)" "th_pending (the (get_thread s i)) = Some p" "k (A s p)"
  from fold_opt_at [OF assms i] obtain s1 s2 where
    a: "fold_opt (wake_if_waiting c k) [0 ..< i] s = Some s1" and b: "wake_if_waiting c k i s1 = Some s2" and
    c: "fold_opt (wake_if_waiting c k) [Suc i ..< n] s2 = Some s'" .
  have 1: "only_wakes s s1" using wakes.fold [OF a, of id] step by simp
  have 2: "only_wakes s2 s'" using wakes.fold [OF c, of id] step by simp
  have "get_thread s i \<noteq> None" using w(1) by (auto simp: waiting_on_def bind_eq_Some_conv)
  then have "th_pending (the (get_thread s1 i)) = Some p"
    using only_wakes_waiting(2) [OF 1, of i] w(2) by auto
  then have "status_of (scheduler s2) i = THREAD_ENABLED"
    using wake_if_waiting_wakes(2) [OF b] only_wakes_waiting(1) [OF 1, of i] w only_wakes_fields(1) [OF 1] by simp
  then show "status_of (scheduler s') i = THREAD_ENABLED" using 2 by (simp add: only_wakes_def waiting_kept_def)
qed

section \<open>Synchronization\<close>

text \<open>The contract of synchronization: clock vectors and promises change, and two verdicts.\<close>

definition syncs :: "exec \<Rightarrow> exec \<Rightarrow> bool" where
  "syncs s s' \<longleftrightarrow> (\<exists>as ps f b. s' = s\<lparr>acts := as, proms := ps, failed_promise := f, bad_synchronization := b\<rparr>)
     \<and> (\<forall>a. \<exists>c. A s' a = (A s a)\<lparr>cv := c\<rparr>)"

lemma own_cv: "\<exists>c. (a :: model_action) = a\<lparr>cv := c\<rparr>"
  by (rule exI [of _ "cv a"]) simp

lemma syncsI:
  "s' = s\<lparr>acts := as, proms := ps, failed_promise := f, bad_synchronization := b\<rparr> \<Longrightarrow>
   (\<And>a. \<exists>c. A s' a = (A s a)\<lparr>cv := c\<rparr>) \<Longrightarrow> syncs s s'"
  unfolding syncs_def by blast

interpretation sync: frame syncs
proof
  show "syncs s s" for s
    by (rule syncsI [where as = "acts s" and ps = "proms s" and f = "failed_promise s"
          and b = "bad_synchronization s"]) (simp, rule own_cv)
  show "syncs s u" if st: "syncs s t" and tu: "syncs t u" for s t u
  proof -
    from st obtain as ps f b where t: "t = s\<lparr>acts := as, proms := ps, failed_promise := f, bad_synchronization := b\<rparr>"
      unfolding syncs_def by blast
    from tu obtain as' ps' f' b' where u: "u = t\<lparr>acts := as', proms := ps', failed_promise := f', bad_synchronization := b'\<rparr>"
      unfolding syncs_def by blast
    show ?thesis
    proof (rule syncsI)
      show "u = s\<lparr>acts := as', proms := ps', failed_promise := f', bad_synchronization := b'\<rparr>"
        by (simp add: u t)
      show "\<exists>c. A u a = (A s a)\<lparr>cv := c\<rparr>" for a
      proof -
        obtain c where c: "A t a = (A s a)\<lparr>cv := c\<rparr>" using st unfolding syncs_def by blast
        obtain d where d: "A u a = (A t a)\<lparr>cv := d\<rparr>" using tu unfolding syncs_def by blast
        show ?thesis by (rule exI [of _ d]) (simp add: c d)
      qed
    qed
  qed
qed

lemma check_promises_syncs:
  "check_promises_loop t old_cv merge_cv qs s = Some s' \<Longrightarrow> syncs s s'"
proof (induction qs arbitrary: s)
  case Nil
  then show ?case by (simp add: sync.refl)
next
  case (Cons p qs)
  have one: "syncs s (s\<lparr>proms := ps, failed_promise := f\<rparr>)" for ps f
    by (rule syncsI [where as = "acts s" and ps = ps and f = f and b = "bad_synchronization s"])
      (simp_all add: A_def own_cv)
  have set: "syncs s (s\<lparr>proms := ps\<rparr>)" for ps using one [where ps = ps and f = "failed_promise s"] by simp
  from Cons one show ?case
    by (auto simp: bind_eq_Some_conv Let_def split: if_splits prod.splits intro: sync.trans [OF set])
qed

lemma synchronize_with_cv_only: "\<exists>c. snd (synchronize_with a b) = a\<lparr>cv := c\<rparr>"
  by (cases "act_less a b") (simp_all add: synchronize_with_def own_cv, blast)

lemma synchronize_syncs:
  assumes "synchronize a b s = Some (r, s')"
  shows "syncs s s'"
proof (cases "earlier s b a")
  case True
  with assms have "s' = s\<lparr>acts := acts s, proms := proms s, failed_promise := failed_promise s,
      bad_synchronization := True\<rparr>"
    by (simp add: synchronize_def set_bad_synchronization_def)
  then show ?thesis by (rule syncsI) (simp add: \<open>s' = _\<close> A_def own_cv)
next
  case False
  with assms obtain m s1 where s1: "check_promises (tid (A s a)) (cv (A s b)) m s = Some s1"
    and s': "s' = upd_act b (\<lambda>_. snd (synchronize_with (A s1 b) (A s1 a))) s1"
    by (auto simp: synchronize_def bind_eq_Some_conv case_prod_beta)
  have 1: "syncs s s1" using check_promises_syncs s1 by (simp add: check_promises_def)
  have "syncs s1 s'"
  proof (rule syncsI)
    show "s' = s1\<lparr>acts := acts s', proms := proms s1, failed_promise := failed_promise s1,
        bad_synchronization := bad_synchronization s1\<rparr>" by (simp add: s' upd_act_def)
    show "\<exists>c. A s' x = (A s1 x)\<lparr>cv := c\<rparr>" for x
      using synchronize_with_cv_only [of "A s1 b" "A s1 a"]
      by (auto simp: s' upd_act_def A_def intro: own_cv)
  qed
  with 1 show ?thesis by (rule sync.trans)
qed

lemma syncs_fields:
  assumes "syncs s s'"
  shows "mutexes s' = mutexes s" and "thread_map s' = thread_map s" and "scheduler s' = scheduler s"
    and "act_type (A s' a) = act_type (A s a)" and "tid (A s' a) = tid (A s a)"
    and "act_value (A s' a) = act_value (A s a)"
proof -
  from assms obtain as ps f b where "s' = s\<lparr>acts := as, proms := ps, failed_promise := f, bad_synchronization := b\<rparr>"
    unfolding syncs_def by blast
  then show "mutexes s' = mutexes s" "thread_map s' = thread_map s" "scheduler s' = scheduler s" by simp_all
  obtain c where "A s' a = (A s a)\<lparr>cv := c\<rparr>" using assms unfolding syncs_def by blast
  then show "act_type (A s' a) = act_type (A s a)" "tid (A s' a) = tid (A s a)" "act_value (A s' a) = act_value (A s a)"
    by simp_all
qed

section \<open>Mutexes\<close>

lemma assert_bug_fields [simp]:
  "mutexes (snd (assert_bug m s)) = mutexes s" "A (snd (assert_bug m s)) = A s"
  by (simp_all add: assert_bug_def set_assert_def Let_def A_def fun_eq_iff)

lemma set_return_value_mutexes:
  "set_return_value cur v s = Some s' \<Longrightarrow> mutexes s' = mutexes s \<and> A s' = A s"
  by (auto simp: set_return_value_def upd_thread_def bind_eq_Some_conv A_def)

lemma lock_mutex_mutexes:
  assumes "lock_mutex cur loc m s = Some (b, s')"
  shows "mutexes s' = (mutexes s)(loc \<mapsto> m\<lparr>locked := Some (tid (A s cur))\<rparr>)"
    and "act_value (A s' cur) = act_value (A s cur)"
proof -
  from assms obtain c where c: "cv (A s cur) = Some c" by (auto simp: lock_mutex_def bind_eq_Some_conv)
  define s1 where "s1 = (if getClock c (alloc_tid m) \<le> alloc_clock m
      then snd (assert_bug (MessageBug ''Lock access before initialization'') s) else s)"
  define s2 where "s2 = s1\<lparr>mutexes := (mutexes s1)(loc \<mapsto> m\<lparr>locked := Some (tid (A s cur))\<rparr>)\<rparr>"
  have "mutexes s1 = mutexes s" "A s1 = A s" by (simp_all add: s1_def)
  then have 2: "mutexes s2 = (mutexes s)(loc \<mapsto> m\<lparr>locked := Some (tid (A s cur))\<rparr>)" "A s2 = A s"
    by (simp_all add: s2_def) (simp add: A_def fun_eq_iff)
  from assms [unfolded lock_mutex_def c Option.bind.bind_lunit Let_def s1_def [symmetric], folded s2_def]
  obtain unlock where "(case unlock of None \<Rightarrow> Some (False, s2)
      | Some u \<Rightarrow> do { (b, s3) \<leftarrow> synchronize u cur s2; Some (True, s3) }) = Some (b, s')"
    by (auto simp: bind_eq_Some_conv)
  then have "syncs s2 s'"
    by (auto simp: bind_eq_Some_conv sync.refl split: option.splits dest: synchronize_syncs)
  with 2 show "mutexes s' = (mutexes s)(loc \<mapsto> m\<lparr>locked := Some (tid (A s cur))\<rparr>)"
    and "act_value (A s' cur) = act_value (A s cur)"
    by (simp_all add: syncs_fields)
qed

lemma exec_sleep_sleeps:
  assumes "exec_sleep t s = Some s'"
  shows "mutexes s' = mutexes s" and "i \<noteq> t \<Longrightarrow> status_of (scheduler s') i = status_of (scheduler s) i"
    and "status_of (scheduler s') t = THREAD_DISABLED"
proof -
  from assms obtain tm where
    "s' = after_sched (snd (set_enabled t THREAD_DISABLED (scheduler s)))
      (s\<lparr>scheduler := fst (set_enabled t THREAD_DISABLED (scheduler s)), thread_map := tm\<rparr>)"
    by (auto simp: exec_sleep_def bind_eq_Some_conv sched_sleep_def set_state_def upd_thread_def
        split: if_splits)
  then have "mutexes s' = mutexes s \<and> scheduler s' = fst (set_enabled t THREAD_DISABLED (scheduler s))"
    by (simp add: after_sched_def check_promises_thread_disabled_def)
  then show "mutexes s' = mutexes s" "i \<noteq> t \<Longrightarrow> status_of (scheduler s') i = status_of (scheduler s) i"
    "status_of (scheduler s') t = THREAD_DISABLED"
    by (simp_all add: status_set_enabled)
qed

text \<open>The threads that wait for a mutex the current thread holds.\<close>

definition lock_waiter :: "exec \<Rightarrow> thread_id_t \<Rightarrow> thread_id_t \<Rightarrow> bool" where
  "lock_waiter s owner i \<longleftrightarrow> i < get_num_threads s \<and> waiting_on s i = Some (Some owner)
     \<and> (\<exists>p. th_pending (the (get_thread s i)) = Some p \<and> is_lock (A s p))"

lemma unlock_mutex_effect:
  assumes "unlock_mutex cur loc s = Some s'"
  shows "\<exists>m. mutexes s loc = Some m \<and> mutexes s' = (mutexes s)(loc \<mapsto> m\<lparr>locked := None\<rparr>)"
    and "lock_waiter s (tid (A s cur)) i \<Longrightarrow> status_of (scheduler s') i = THREAD_ENABLED"
proof -
  from assms obtain s1 m where
    w: "fold_opt (wake_if_waiting (tid (A s cur)) is_lock) [0 ..< get_num_threads s] s = Some s1"
    and m: "mutexes s1 loc = Some m" and s': "s' = s1\<lparr>mutexes := (mutexes s1)(loc \<mapsto> m\<lparr>locked := None\<rparr>)\<rparr>"
    by (auto simp: unlock_mutex_def bind_eq_Some_conv)
  note W = wake_loop [OF w]
  show "\<exists>m. mutexes s loc = Some m \<and> mutexes s' = (mutexes s)(loc \<mapsto> m\<lparr>locked := None\<rparr>)"
    using m only_wakes_fields(3) [OF W(1)] by (simp add: s')
  show "lock_waiter s (tid (A s cur)) i \<Longrightarrow> status_of (scheduler s') i = THREAD_ENABLED"
    using W(2) by (auto simp: lock_waiter_def s')
qed

text \<open>
  C29: who holds a mutex. A lock, and a trylock on a free mutex, make the current thread its
  owner; a trylock on a taken one changes no mutex and reports failure; an unlock and a wait
  free it, and then every other thread whose pending lock waited for the current thread is
  enabled. No action changes any other mutex.
\<close>

theorem mutex_protocol:
  assumes "process_mutex cur s = Some (updated, s')" and "get_mutex (A s cur) = Some loc"
    and "mutexes s loc = Some m"
  shows "(act_type (A s cur) = ATOMIC_LOCK \<longrightarrow>
      mutexes s' = (mutexes s)(loc \<mapsto> m\<lparr>locked := Some (tid (A s cur))\<rparr>)) \<and>
    (act_type (A s cur) = ATOMIC_TRYLOCK \<longrightarrow>
      (if locked m = None
       then mutexes s' = (mutexes s)(loc \<mapsto> m\<lparr>locked := Some (tid (A s cur))\<rparr>)
            \<and> act_value (A s' cur) = VALUE_TRYSUCCESS
       else mutexes s' = mutexes s \<and> act_value (A s' cur) = VALUE_TRYFAILED)) \<and>
    (act_type (A s cur) = ATOMIC_UNLOCK \<or> act_type (A s cur) = ATOMIC_WAIT \<longrightarrow>
      mutexes s' = (mutexes s)(loc \<mapsto> m\<lparr>locked := None\<rparr>) \<and>
      (\<forall>i. i \<noteq> tid (A s cur) \<and> lock_waiter s (tid (A s cur)) i \<longrightarrow>
         status_of (scheduler s') i = THREAD_ENABLED))"
proof (intro conjI impI)
  note P = assms(1) [unfolded process_mutex_def Let_def]
  show "mutexes s' = (mutexes s)(loc \<mapsto> m\<lparr>locked := Some (tid (A s cur))\<rparr>)"
    if "act_type (A s cur) = ATOMIC_LOCK"
    using P that assms(2,3) lock_mutex_mutexes(1) by simp
  show "if locked m = None
      then mutexes s' = (mutexes s)(loc \<mapsto> m\<lparr>locked := Some (tid (A s cur))\<rparr>)
           \<and> act_value (A s' cur) = VALUE_TRYSUCCESS
      else mutexes s' = mutexes s \<and> act_value (A s' cur) = VALUE_TRYFAILED"
    if t: "act_type (A s cur) = ATOMIC_TRYLOCK"
  proof -
    let ?s1 = "upd_act cur (set_try_lock (locked m = None)) s"
    from P t assms(2,3) obtain s2 where
      s2: "set_return_value cur (if locked m = None then 1 else 0) ?s1 = Some s2" and
      r: "(if locked m = None then lock_mutex cur loc m s2 else Some (False, s2)) = Some (updated, s')"
      by (auto simp: bind_eq_Some_conv)
    have "mutexes s2 = mutexes s" "A s2 cur = set_try_lock (locked m = None) (A s cur)"
      using set_return_value_mutexes [OF s2] by (simp_all add: upd_act_def A_def)
    then show ?thesis
      using r lock_mutex_mutexes [of cur loc m s2 updated s'] by (auto simp: set_try_lock_def)
  qed
  assume t: "act_type (A s cur) = ATOMIC_UNLOCK \<or> act_type (A s cur) = ATOMIC_WAIT"
  from P t assms(2) obtain s1 where u: "unlock_mutex cur loc s = Some s1"
    by (auto simp: bind_eq_Some_conv)
  have s': "s' = s1 \<or> exec_sleep (tid (A s cur))
      (set_waiters (location (A s cur)) (waiters_of s1 (location (A s cur)) @ [cur]) s1) = Some s'"
    using P t assms(2) u by (auto simp: bind_eq_Some_conv split: if_splits)
  have keep: "mutexes s' = mutexes s1"
      "i \<noteq> tid (A s cur) \<Longrightarrow> status_of (scheduler s') i = status_of (scheduler s1) i" for i
    using s' exec_sleep_sleeps(1,2) by (auto simp: set_waiters_def)
  show "mutexes s' = (mutexes s)(loc \<mapsto> m\<lparr>locked := None\<rparr>)"
    using unlock_mutex_effect(1) [OF u] keep(1) assms(3) by auto
  show "\<forall>i. i \<noteq> tid (A s cur) \<and> lock_waiter s (tid (A s cur)) i \<longrightarrow>
      status_of (scheduler s') i = THREAD_ENABLED"
    using unlock_mutex_effect(2) [OF u] keep(2) by simp
qed

definition mutex_exec :: exec where
  "mutex_exec = (sample_exec [1 \<mapsto> sample_act ATOMIC_UNLOCK memory_order_seq_cst 64 0 1 1 [0, 1],
       2 \<mapsto> sample_act ATOMIC_LOCK memory_order_seq_cst 64 0 2 0 [0, 0, 1]])
     \<lparr>next_thread_id := 3, mutexes := [64 \<mapsto> \<lparr>locked = Some 1, alloc_tid = 1, alloc_clock = 0\<rparr>],
      thread_map := [Some Thread_model, Some (Thread_new 0), Some ((Thread_new 0)\<lparr>th_pending := Some 2\<rparr>)]\<rparr>"

lemmas mutex_simps = mutex_exec_def sample_simps action_defs Thread_new_def get_thread_def waiting_on_def
  get_mutex_def

lemma mutex_waiting:
  "waiting_on mutex_exec 0 = Some None" "waiting_on mutex_exec (Suc 0) = Some None"
  "waiting_on mutex_exec 2 = Some (Some (Suc 0))" "get_num_threads mutex_exec = 3"
  by (simp_all add: mutex_simps get_num_threads_def)

lemma mutex_step: "\<exists>s'. process_mutex 1 mutex_exec = Some (False, s')"
proof -
  have u: "[0 ..< 3] = [0, Suc 0, 2 :: nat]" by (simp add: upt_rec)
  have "\<exists>s1. exec_wake 2 mutex_exec = Some s1"
    by (simp add: exec_wake_def mutex_simps sched_wake_def model_thread_in_def set_state_def upd_thread_def
        split: prod.split)
  then obtain s1 where s1: "exec_wake 2 mutex_exec = Some s1" by blast
  have "get_mutex (A mutex_exec 1) = Some 64" "act_type (A mutex_exec 1) = ATOMIC_UNLOCK"
      "tid (A mutex_exec 1) = Suc 0" "get_thread mutex_exec 2 = Some ((Thread_new 0)\<lparr>th_pending := Some 2\<rparr>)"
      "is_lock (A mutex_exec 2)" "mutexes mutex_exec 64 \<noteq> None"
    by (simp_all add: mutex_simps)
  then show ?thesis
    using only_wakes_fields(3) [OF exec_wake_wakes(1) [OF s1]]
    by (auto simp: process_mutex_def unlock_mutex_def mutex_waiting u wake_if_waiting_def s1 Thread_new_def)
qed

theorem mutex_protocol_witness:
  "\<exists>s'. process_mutex 1 mutex_exec = Some (False, s')
     \<and> locked (the (mutexes s' 64)) = None \<and> status_of (scheduler s') 2 = THREAD_ENABLED"
proof -
  obtain s' where p: "process_mutex 1 mutex_exec = Some (False, s')" using mutex_step by blast
  have "get_mutex (A mutex_exec 1) = Some 64"
    "mutexes mutex_exec 64 = Some \<lparr>locked = Some 1, alloc_tid = 1, alloc_clock = 0\<rparr>"
    by (simp_all add: mutex_simps)
  moreover have "act_type (A mutex_exec 1) = ATOMIC_UNLOCK" "tid (A mutex_exec 1) = 1" by (simp_all add: mutex_simps)
  moreover have "lock_waiter mutex_exec 1 2"
    by (simp add: lock_waiter_def mutex_waiting) (simp add: mutex_simps)
  ultimately show ?thesis using mutex_protocol [OF p] p by auto
qed

text \<open>
  \<open>notify_one\<close> on a condition variable. A waiter chosen by the node's \<open>misc_index\<close> is
  enabled and leaves the list, the other waiters stay in order; without a waiter at that index,
  in particular without any, the code follows an iterator past the end, and the step fails.
\<close>

theorem notify_one_exact:
  assumes "act_type (A s cur) = ATOMIC_NOTIFY_ONE" and "get_node s cur = Some n"
    and "ws = waiters_of s (location (A s cur))" and "i = nat (get_misc n)"
  shows "(\<forall>updated s'. process_mutex cur s = Some (updated, s') \<longrightarrow>
      i < length ws \<and> \<not> updated \<and> waiters_of s' (location (A s cur)) = take i ws @ drop (Suc i) ws
      \<and> status_of (scheduler s') (tid (A s (ws ! i))) = THREAD_ENABLED) \<and>
    (ws = [] \<longrightarrow> process_mutex cur s = None)"
proof (intro conjI allI impI)
  show "process_mutex cur s = None" if "ws = []"
    using assms(3) that unfolding process_mutex_def Let_def by (simp add: assms(1,2))
  fix updated s' assume p: "process_mutex cur s = Some (updated, s')"
  then obtain s1 where i: "i < length ws" and w: "exec_wake (tid (A s (ws ! i))) s = Some s1"
    and s': "s' = set_waiters (location (A s cur)) (vec_erase ws i) s1" and u: "\<not> updated"
    using assms by (auto simp: process_mutex_def Let_def bind_eq_Some_conv split: if_splits)
  show "waiters_of s' (location (A s cur)) = take i ws @ drop (Suc i) ws"
    by (simp add: s' set_waiters_def waiters_of_def vec_erase_def)
  show "status_of (scheduler s') (tid (A s (ws ! i))) = THREAD_ENABLED"
    using exec_wake_wakes(2) [OF w] by (simp add: s' set_waiters_def)
  show "i < length ws" by (rule i)
  show "\<not> updated" by (rule u)
qed

definition notify_exec :: "aid list \<Rightarrow> exec" where
  "notify_exec ws = mutex_exec\<lparr>acts :=
       [1 \<mapsto> (sample_act ATOMIC_NOTIFY_ONE memory_order_seq_cst 64 0 1 1 [0, 1])\<lparr>act_node := Some 0\<rparr>,
        2 \<mapsto> sample_act ATOMIC_WAIT memory_order_seq_cst 64 0 2 0 [0, 0, 1]],
     node_stack := NodeStack_new\<lparr>node_list := [sample_node]\<rparr>, condvar_waiters_map := [64 \<mapsto> ws]\<rparr>"

lemma notify_facts:
  "act_type (A (notify_exec ws) 1) = ATOMIC_NOTIFY_ONE" "get_node (notify_exec ws) 1 = Some sample_node"
  "location (A (notify_exec ws) 1) = 64" "waiters_of (notify_exec ws) 64 = ws" "nat (get_misc sample_node) = 0"
  "tid (A (notify_exec ws) 2) = 2"
  by (simp_all add: notify_exec_def mutex_simps get_node_def node_at_def waiters_of_def sample_node_eq
      get_misc_def)

lemma notify_step: "\<exists>s'. process_mutex 1 (notify_exec [2]) = Some (False, s')"
proof -
  have "\<exists>s1. exec_wake 2 (notify_exec [2]) = Some s1"
    by (simp add: exec_wake_def notify_exec_def mutex_simps sched_wake_def model_thread_in_def set_state_def
        upd_thread_def split: prod.split)
  then show ?thesis unfolding process_mutex_def Let_def notify_facts 
    by (auto simp: notify_facts get_misc_def sample_node_eq)
qed

theorem notify_one_exact_witness:
  "(\<exists>s'. process_mutex 1 (notify_exec [2]) = Some (False, s')
      \<and> waiters_of s' 64 = [] \<and> status_of (scheduler s') 2 = THREAD_ENABLED)
   \<and> process_mutex 1 (notify_exec []) = None"
proof
  obtain s' where p: "process_mutex 1 (notify_exec [2]) = Some (False, s')" using notify_step by blast
  show "\<exists>s'. process_mutex 1 (notify_exec [2]) = Some (False, s')
      \<and> waiters_of s' 64 = [] \<and> status_of (scheduler s') 2 = THREAD_ENABLED"
    using notify_one_exact [OF notify_facts(1,2) refl notify_facts(5) [symmetric], of "[2]", unfolded notify_facts] p
    by (auto simp: notify_facts)
  show "process_mutex 1 (notify_exec []) = None"
    using notify_one_exact [OF notify_facts(1,2) refl notify_facts(5) [symmetric], of "[]", unfolded notify_facts]
    by blast
qed

end
