(* ===== verification/ExecVerdict.thy ===== *)
theory ExecVerdict
  imports ExecMayRead ExecMutex
begin

text \<open>
  Verdicts are final. An execution found infeasible, a bug report, a thread or an action number
  never goes away again: the contract \<open>grows\<close> of every operation, up to one whole step of the
  model checker (\<open>take_step\<close>).
\<close>

section \<open>The contract\<close>

definition grows :: "exec \<Rightarrow> exec \<Rightarrow> bool" where
  "grows s s' \<longleftrightarrow> (failed_promise s \<longrightarrow> failed_promise s') \<and> (hard_failed_promise s \<longrightarrow> hard_failed_promise s')
     \<and> (too_many_reads s \<longrightarrow> too_many_reads s') \<and> (no_valid_reads s \<longrightarrow> no_valid_reads s')
     \<and> (bad_synchronization s \<longrightarrow> bad_synchronization s') \<and> (bad_sc_read s \<longrightarrow> bad_sc_read s')
     \<and> (asserted s \<longrightarrow> asserted s') \<and> (\<exists>new. bugs s' = bugs s @ new)
     \<and> next_aid s \<le> next_aid s' \<and> next_pid s \<le> next_pid s' \<and> next_thread_id s \<le> next_thread_id s'
     \<and> params s' = params s"

interpretation grow: frame grows
proof
  show "grows s s" for s by (simp add: grows_def)
  show "grows s u" if "grows s t" and "grows t u" for s t u
    using that unfolding grows_def by (elim conjE exE, intro conjI) (blast | simp | linarith)+
qed

lemmas grows_refl [intro, simp] = grow.refl

text \<open>Updates of the other fields do not matter, on either side.\<close>

lemma grows_strip [simp]:
  "grows (s\<lparr>acts := x1\<rparr>) t = grows s t" "grows s (t\<lparr>acts := x1\<rparr>) = grows s t"
  "grows (s\<lparr>proms := x2\<rparr>) t = grows s t" "grows s (t\<lparr>proms := x2\<rparr>) = grows s t"
  "grows (s\<lparr>mutexes := x3\<rparr>) t = grows s t" "grows s (t\<lparr>mutexes := x3\<rparr>) = grows s t"
  "grows (s\<lparr>thrd_priv := x4\<rparr>) t = grows s t" "grows s (t\<lparr>thrd_priv := x4\<rparr>) = grows s t"
  "grows (s\<lparr>scheduler := x5\<rparr>) t = grows s t" "grows s (t\<lparr>scheduler := x5\<rparr>) = grows s t"
  "grows (s\<lparr>node_stack := x6\<rparr>) t = grows s t" "grows s (t\<lparr>node_stack := x6\<rparr>) = grows s t"
  "grows (s\<lparr>action_trace := x7\<rparr>) t = grows s t" "grows s (t\<lparr>action_trace := x7\<rparr>) = grows s t"
  "grows (s\<lparr>thread_map := x8\<rparr>) t = grows s t" "grows s (t\<lparr>thread_map := x8\<rparr>) = grows s t"
  "grows (s\<lparr>obj_map := x9\<rparr>) t = grows s t" "grows s (t\<lparr>obj_map := x9\<rparr>) = grows s t"
  "grows (s\<lparr>condvar_waiters_map := y1\<rparr>) t = grows s t" "grows s (t\<lparr>condvar_waiters_map := y1\<rparr>) = grows s t"
  "grows (s\<lparr>obj_thrd_map := y2\<rparr>) t = grows s t" "grows s (t\<lparr>obj_thrd_map := y2\<rparr>) = grows s t"
  "grows (s\<lparr>promises := y3\<rparr>) t = grows s t" "grows s (t\<lparr>promises := y3\<rparr>) = grows s t"
  "grows (s\<lparr>futurevalues := y4\<rparr>) t = grows s t" "grows s (t\<lparr>futurevalues := y4\<rparr>) = grows s t"
  "grows (s\<lparr>pending_rel_seqs := y5\<rparr>) t = grows s t" "grows s (t\<lparr>pending_rel_seqs := y5\<rparr>) = grows s t"
  "grows (s\<lparr>thrd_last_action := y6\<rparr>) t = grows s t" "grows s (t\<lparr>thrd_last_action := y6\<rparr>) = grows s t"
  "grows (s\<lparr>thrd_last_fence_release := y7\<rparr>) t = grows s t" "grows s (t\<lparr>thrd_last_fence_release := y7\<rparr>) = grows s t"
  "grows (s\<lparr>mo_graph := y8\<rparr>) t = grows s t" "grows s (t\<lparr>mo_graph := y8\<rparr>) = grows s t"
  "grows (s\<lparr>races := y9\<rparr>) t = grows s t" "grows s (t\<lparr>races := y9\<rparr>) = grows s t"
  "grows (s\<lparr>used_sequence_numbers := z1\<rparr>) t = grows s t" "grows s (t\<lparr>used_sequence_numbers := z1\<rparr>) = grows s t"
  "grows (s\<lparr>next_backtrack := z2\<rparr>) t = grows s t" "grows s (t\<lparr>next_backtrack := z2\<rparr>) = grows s t"
  by (simp_all add: grows_def)

text \<open>Verdicts are only ever set, bugs only added.\<close>

lemma grows_set [intro]:
  "grows s t \<Longrightarrow> grows s (t\<lparr>failed_promise := True\<rparr>)"
  "grows s t \<Longrightarrow> grows s (t\<lparr>hard_failed_promise := True\<rparr>)"
  "grows s t \<Longrightarrow> grows s (t\<lparr>too_many_reads := True\<rparr>)"
  "grows s t \<Longrightarrow> grows s (t\<lparr>no_valid_reads := True\<rparr>)"
  "grows s t \<Longrightarrow> grows s (t\<lparr>bad_synchronization := True\<rparr>)"
  "grows s t \<Longrightarrow> grows s (t\<lparr>bad_sc_read := True\<rparr>)"
  "grows s t \<Longrightarrow> grows s (t\<lparr>asserted := True\<rparr>)"
  "grows s t \<Longrightarrow> grows s (t\<lparr>bugs := bugs t @ bs\<rparr>)"
  "grows s t \<Longrightarrow> grows s (t\<lparr>failed_promise := failed_promise t \<or> b\<rparr>)"
  "grows s t \<Longrightarrow> grows s (t\<lparr>hard_failed_promise := hard_failed_promise t \<or> b\<rparr>)"
  by (rule grow.trans, assumption, simp add: grows_def)+

lemma grows_numbers [intro]:
  "grows s t \<Longrightarrow> n \<ge> next_aid t \<Longrightarrow> grows s (t\<lparr>next_aid := n\<rparr>)"
  "grows s t \<Longrightarrow> n \<ge> next_pid t \<Longrightarrow> grows s (t\<lparr>next_pid := n\<rparr>)"
  "grows s t \<Longrightarrow> n \<ge> next_thread_id t \<Longrightarrow> grows s (t\<lparr>next_thread_id := n\<rparr>)"
  by (rule grow.trans, assumption, simp add: grows_def)+

section \<open>Elementary operations\<close>

named_theorems grows_steps "the contract of the operations of an execution"

lemma grows_elementary [simp]:
  "grows s (upd_act a f s)" "grows s (put_node i n s)" "grows s (set_assert s)"
  "grows s (set_bad_synchronization s)" "grows s (set_bad_sc_read s)" "grows s (read_commit s)"
  "grows s (snd (assert_bug m s))" "grows s (snd (set_latest_backtrack a s))" "grows s (set_waiters l ws s)"
  "grows s (check_promises_thread_disabled s)" "grows s (after_sched d s)" "grows s (exec_remove_thread t s)"
  "grows s (push_thread_list s l t a)" "grows s (add_uninit u l s)" "grows s (snd (get_next_seq_num s))"
  by (auto simp: upd_act_def put_node_def set_assert_def set_bad_synchronization_def set_bad_sc_read_def
      read_commit_def assert_bug_def set_latest_backtrack_def set_waiters_def check_promises_thread_disabled_def
      after_sched_def exec_remove_thread_def push_thread_list_def add_uninit_def get_next_seq_num_def Let_def
      split: prod.split)

lemma grows_only_wakes: "only_wakes s s' \<Longrightarrow> failed_promise s \<longrightarrow> failed_promise s' \<Longrightarrow> grows s s'"
  unfolding only_wakes_def by (elim conjE, erule ssubst) (auto simp: grows_def)

lemma grows_edges: "edges_added s s' \<Longrightarrow> grows s s'"
  by (auto simp: edges_added_def elim!: ssubst)

lemma grows_sent: "edges_sent s s' \<Longrightarrow> grows s s'"
  by (auto simp: edges_sent_def dest: grows_edges)

lemma upd_node_grows [grows_steps]: "upd_node a f s = Some s' \<Longrightarrow> grows s s'"
  by (auto simp: upd_node_def bind_eq_Some_conv)

lemma upd_thread_grows [grows_steps]: "upd_thread t f s = Some s' \<Longrightarrow> grows s s'"
  by (auto simp: upd_thread_def bind_eq_Some_conv)

lemma set_return_value_grows [grows_steps]: "set_return_value cur v s = Some s' \<Longrightarrow> grows s s'"
  by (auto simp: set_return_value_def dest: upd_thread_grows)

lemma exec_sleep_grows [grows_steps]: "exec_sleep t s = Some s' \<Longrightarrow> grows s s'"
  by (auto simp: exec_sleep_def bind_eq_Some_conv dest!: upd_thread_grows intro: grow.trans [OF _ grows_elementary(11)])

lemma exec_wake_grows [grows_steps]: "exec_wake t s = Some s' \<Longrightarrow> grows s s'"
  by (auto simp: exec_wake_def bind_eq_Some_conv dest!: upd_thread_grows intro: grow.trans [OF _ grows_elementary(11)])

lemma wake_if_waiting_grows [grows_steps]: "wake_if_waiting c k i s = Some s' \<Longrightarrow> grows s s'"
  by (auto simp: wake_if_waiting_def bind_eq_Some_conv split: if_splits dest: exec_wake_grows)

section \<open>Synchronization\<close>

lemma check_promises_grows: "check_promises_loop t old_cv merge_cv qs s = Some s' \<Longrightarrow> grows s s'"
proof (induction qs arbitrary: s)
  case (Cons p qs)
  from Cons.prems show ?case
    by (auto simp: bind_eq_Some_conv Let_def split: if_splits prod.splits dest!: Cons.IH)
qed simp

lemma synchronize_grows [grows_steps]: "synchronize a b s = Some (r, s') \<Longrightarrow> grows s s'"
  by (auto simp: synchronize_def check_promises_def bind_eq_Some_conv case_prod_beta split: if_splits
      dest!: check_promises_grows intro: grow.trans [OF _ grows_elementary(1)])

lemma thread_blocking_grows: "thread_blocking_loop b w qs s = Some s' \<Longrightarrow> grows s s'"
proof (induction qs arbitrary: s)
  case (Cons p qs)
  from Cons.prems obtain pr where pr: "proms s p = Some pr" by (auto simp: bind_eq_Some_conv)
  show ?case
  proof (cases "thread_is_available pr w")
    case False
    with Cons pr show ?thesis by simp
  next
    case True
    obtain stop failed pr1 where b: "blocking_readers s b w (readers pr) pr False = (stop, failed, pr1)"
      by (metis prod_cases3)
    define t where "t = (if failed then s\<lparr>proms := (proms s)(p \<mapsto> pr1), failed_promise := True\<rparr>
        else s\<lparr>proms := (proms s)(p \<mapsto> pr1)\<rparr>)"
    have t: "grows s t" by (auto simp: t_def)
    have r: "(if stop then Some t else thread_blocking_loop b w qs t) = Some s'"
      using Cons.prems pr True b by (simp add: Let_def t_def cong: if_cong)
    show ?thesis
    proof (cases stop)
      case True
      with r t show ?thesis by simp
    next
      case False
      with r have "thread_blocking_loop b w qs t = Some s'" by simp
      from grow.trans [OF t Cons.IH [OF this]] show ?thesis .
    qed
  qed
qed simp

lemma mo_check_one_grows:
  assumes "mo_check_one w a p s = Some (stop, s')"
  shows "grows s s'"
proof -
  from assms obtain pr same where "proms s p = Some pr" "same_location (acts s) pr (A s w) = Some same"
    and m: "(if \<not> same then Some (False, s) else do {
       (failed1, pr1) \<leftarrow> (if list_ex (\<lambda>r. happens s r a) (readers pr)
                          then checkPromise (mo_graph s) (acts s) w p pr else Some (False, pr));
       let s1 = s\<lparr>proms := (proms s)(p \<mapsto> pr1)\<rparr>;
       if failed1 then Some (True, s1\<lparr>hard_failed_promise := True\<rparr>)
       else if \<not> thread_is_available pr1 (tid (A s a)) then Some (False, s1)
       else if checkReachable (mo_graph s) (PromObj p) (ActObj w)
       then do {
         (failed2, pr2) \<leftarrow> checkPromise (mo_graph s) (acts s) w p pr1;
         let s2 = s1\<lparr>proms := (proms s1)(p \<mapsto> pr2)\<rparr>;
         Some (if failed2 then (True, s2\<lparr>hard_failed_promise := True\<rparr>) else (False, s2)) }
       else Some (False, s1) }) = Some (stop, s')"
    unfolding mo_check_one_def bind_eq_Some_conv by blast
  have "s' \<in> {s} \<union> (\<Union>ps. {s\<lparr>proms := ps\<rparr>, s\<lparr>proms := ps, hard_failed_promise := True\<rparr>})"
    using m unfolding Let_def bind_eq_Some_conv case_prod_beta
    by (cases same) (simp_all add: bind_eq_Some_conv split: if_split_asm, blast+)
  then show ?thesis by auto
qed

lemma mo_check_loop_grows: "mo_check_loop w a qs s = Some s' \<Longrightarrow> grows s s'"
proof (induction qs arbitrary: s)
  case (Cons p qs)
  then show ?case
    by (auto simp: bind_eq_Some_conv split: if_splits dest!: mo_check_one_grows intro: grow.trans)
qed simp

lemma mo_check_promises_grows [grows_steps]: "mo_check_promises a r s = Some s' \<Longrightarrow> grows s s'"
  by (auto simp: mo_check_promises_def split: option.splits if_splits dest: mo_check_loop_grows)

lemma get_release_seq_heads_grows [grows_steps]: "get_release_seq_heads a r s = Some (h, s') \<Longrightarrow> grows s s'"
  by (auto simp: get_release_seq_heads_def bind_eq_Some_conv)

lemma propagate_one_grows: "propagate_one a x sw = Some sw' \<Longrightarrow> grows (fst sw) (fst sw')"
  by (auto simp: propagate_one_def bind_eq_Some_conv split: prod.splits if_splits dest: synchronize_grows)

lemma propagate_clockvector_grows [grows_steps]:
  assumes "propagate_clockvector a sw = Some sw'"
  shows "grows (fst sw) (fst sw')"
proof -
  obtain s w where sw: "sw = (s, w)" by fastforce
  with assms have "fold_opt (propagate_one a) (takeWhile (\<lambda>x. x \<noteq> a) (rev (action_trace s)))
      (s, w @ [CheckRelSeqWorkEntry 0, MOEdgeWorkEntry a]) = Some sw'"
    by (simp add: propagate_clockvector_def split: if_splits)
  from grow.fold [OF this, of fst] show ?thesis using propagate_one_grows sw by auto
qed

lemma exec_checkDataRaces_grows [simp]: "grows s (snd (exec_checkDataRaces s))"
  by (auto simp: exec_checkDataRaces_def Let_def set_assert_def split: prod.split) (simp_all add: grows_def)

lemma sync_head_grows: "sync_head a h us = Some us' \<Longrightarrow> grows (snd us) (snd us')"
  by (auto simp: sync_head_def bind_eq_Some_conv split: prod.splits if_splits dest: synchronize_grows)

lemma sync_heads_grows: "fold_opt (sync_head a) hs us = Some us' \<Longrightarrow> grows (snd us) (snd us')"
  using grow.fold [of "sync_head a" hs us us' snd] sync_head_grows by blast

lemma sync_count_grows: "fold_opt (sync_count a) hs ns = Some ns' \<Longrightarrow> grows (snd ns) (snd ns')"
proof (erule grow.fold [of _ _ _ _ snd])
  show "sync_count a h t = Some t' \<Longrightarrow> grows (snd t) (snd t')" for h t t'
    by (auto simp: sync_count_def bind_eq_Some_conv split: prod.splits dest: synchronize_grows)
qed

lemma resolve_loop_grows:
  "resolve_loop loc pend kept upd sw = Some (u, kept', sw') \<Longrightarrow> grows (fst sw) (fst sw')"
proof (induction pend arbitrary: kept upd sw)
  case (Cons x pend)
  obtain s w where sw: "sw = (s, w)" by fastforce
  show ?case
  proof (cases "loc \<noteq> 0 \<and> location (A s (rs_read x)) \<noteq> loc")
    case True
    with Cons sw show ?thesis by auto
  next
    case False
    with Cons.prems sw obtain c h x1 u1 s1 sw1 where
      heads: "fold_opt (sync_head (rs_acquire x)) h (upd, s) = Some (u1, s1)" and
      queued: "(if u1 then propagate_clockvector (rs_acquire x) (s1, w) else Some (s1, w)) = Some sw1" and
      rest: "resolve_loop loc pend (if c then kept else kept @ [x1]) u1 sw1 = Some (u, kept', sw')"
      by (auto simp: bind_eq_Some_conv)
    have "grows s s1" using sync_heads_grows [OF heads] by simp
    moreover have "grows s1 (fst sw1)"
      using queued propagate_clockvector_grows by (fastforce split: if_splits)
    ultimately show ?thesis using Cons.IH [OF rest] sw by (auto intro: grow.trans)
  qed
qed simp

lemma resolve_release_sequences_grows [grows_steps]:
  "resolve_release_sequences loc sw = Some (u, sw') \<Longrightarrow> grows (fst sw) (fst sw')"
  using grow.trans [OF _ exec_checkDataRaces_grows]
  by (auto simp: resolve_release_sequences_def bind_eq_Some_conv dest!: resolve_loop_grows)

lemma read_from_grows [grows_steps]:
  assumes "read_from act rf s = Some (b, s')"
  shows "grows s s'"
proof -
  from assms obtain a uninit where a: "set_read_from (acts s) rf (A s act) = Some (a, uninit)"
    by (auto simp: read_from_def bind_eq_Some_conv split: if_splits)
  define s2 where "s2 = (if uninit then snd (assert_bug uninitialized_bug (upd_act act (\<lambda>_. a) s))
      else upd_act act (\<lambda>_. a) s)"
  have "grows s (upd_act act (\<lambda>_. a) s)" by simp
  then have 2: "grows s s2" using grow.trans [OF _ grows_elementary(7)] by (auto simp: s2_def)
  have "(if is_acquire a
        then do { (heads, s3) \<leftarrow> get_release_seq_heads act act s2;
                  (n, s4) \<leftarrow> fold_opt (sync_count act) heads (0, s3);
                  Some (n > 0, s4) }
        else Some (False, s2)) = Some (b, s')"
    using assms a by (simp add: read_from_def Let_def s2_def split: if_split_asm)
  then have "grows s2 s'"
    by (auto simp: bind_eq_Some_conv split: if_splits dest!: get_release_seq_heads_grows sync_count_grows
        intro: grow.trans)
  with 2 show ?thesis by (rule grow.trans)
qed

lemma fence_loop_grows: "fence_loop cur xs us = Some us' \<Longrightarrow> grows (snd us) (snd us')"
proof (induction xs arbitrary: us)
  case (Cons a xs)
  from Cons.prems show ?case
    by (auto simp: Let_def bind_eq_Some_conv split: if_splits
        dest!: Cons.IH get_release_seq_heads_grows sync_count_grows) (blast intro: grow.trans)
qed simp

lemma process_fence_grows [grows_steps]: "process_fence cur s = Some (b, s') \<Longrightarrow> grows s s'"
  by (auto simp: process_fence_def split: if_splits dest!: fence_loop_grows)

section \<open>Modification order\<close>

lemma mo_add_grows [grows_steps]: "mo_add x y st = Some st' \<Longrightarrow> grows (snd st) (snd st')"
  by (drule mo_add_edges(1)) (rule grows_edges)

lemma r_modification_order_grows [grows_steps]: "r_modification_order cur rf s = Some (b, s') \<Longrightarrow> grows s s'"
  by (drule r_modification_order_edges) (rule grows_edges)

lemma w_modification_order_grows [grows_steps]:
  assumes "w_modification_order cur sending s = Some (b, fvs, s')"
  shows "grows s s'"
proof -
  from assms obtain tls lw st1 fl st2 where
    "(if is_seqcst (A s cur) then get_last_seq_cst_write s cur else Some None) = Some lw" and
    0: "(case lw of None \<Rightarrow> Some (False, [], s)
         | Some w \<Rightarrow> w_mo_add (ActObj w) (ActObj cur) (False, [], s)) = Some st1" and
    1: "fold_opt (w_mo_in_thread cur sending fl tls) [0 ..< length tls] st1 = Some st2" and
    2: "fold_opt (w_order_promise cur) (promises s) st2 = Some (b, fvs, s')"
    by (auto simp: w_modification_order_def bind_eq_Some_conv split: if_splits)
  have "edges_sent s (st_exec st1)"
    using 0 w_mo_add_edges(1) [of _ _ "(False, [], s)" st1] by (auto split: option.splits)
  moreover have "edges_sent (st_exec st1) (st_exec st2)"
    using sent.fold [OF 1, of st_exec, OF w_mo_in_thread_sent] .
  moreover have "edges_sent (st_exec st2) s'"
    using sent.fold [OF 2, of st_exec, OF w_order_promise_sent] by simp
  ultimately show ?thesis by (blast intro: edges_sent_trans grows_sent)
qed

lemma process_relseq_fixup_grows [grows_steps]:
  assumes "process_relseq_fixup cur sw = Some sw'"
  shows "grows (fst sw) (fst sw')"
proof -
  obtain s w where sw: "sw = (s, w)" by fastforce
  define s1 where "s1 = s\<lparr>pending_rel_seqs := butlast (pending_rel_seqs s)\<rparr>"
  have 1: "grows s t \<longleftrightarrow> grows s1 t" for t by (simp add: s1_def)
  from assms sw consider (sync) rel acq b s2 where "synchronize rel acq s1 = Some (b, s2)"
      "(if \<not> b then Some (s2, w) else do {
          (s3, w1) \<leftarrow> propagate_clockvector acq (s2, w);
          Some (snd (exec_checkDataRaces s3), w1) }) = Some sw'"
    | (edges) x y z b1 s2 b2 s3 where "mo_add x y (False, s1) = Some (b1, s2)"
      "mo_add y z (False, s2) = Some (b2, s3)" "sw' = (snd (exec_checkDataRaces s3), w)"
    unfolding process_relseq_fixup_def Let_def
    by (auto simp: bind_eq_Some_conv s1_def split: if_split_asm option.split_asm)
  then show ?thesis
  proof cases
    case sync
    show ?thesis
      using sync(2) synchronize_grows [OF sync(1)] grow.trans [OF _ exec_checkDataRaces_grows]
      by (auto simp: sw 1 bind_eq_Some_conv split: if_splits dest!: propagate_clockvector_grows intro: grow.trans)
  next
    case edges
    then show ?thesis
      using mo_add_grows [OF edges(1)] mo_add_grows [OF edges(2)] grow.trans [OF _ exec_checkDataRaces_grows]
      by (auto simp: sw 1 intro: grow.trans)
  qed
qed

section \<open>Reads and writes\<close>

lemma begin_changes_grows [grows_steps]: "begin_changes s = Some s' \<Longrightarrow> grows s s'"
  by (auto simp: begin_changes_def bind_eq_Some_conv)

lemma read_commit_after: "grows s t \<Longrightarrow> grows s (read_commit t)"
  by (simp add: read_commit_def)

lemma upd_act_strip [simp]: "grows (upd_act a f s) t = grows s t" "grows s (upd_act a f t) = grows s t"
  by (simp_all add: upd_act_def)

lemma put_node_strip [simp]: "grows (put_node i n s) t = grows s t" "grows s (put_node i n t) = grows s t"
  by (simp_all add: put_node_def)

lemma grows_left:
  "grows (s\<lparr>failed_promise := True\<rparr>) t \<Longrightarrow> grows s t"
  "grows (s\<lparr>too_many_reads := True\<rparr>) t \<Longrightarrow> grows s t"
  "grows (s\<lparr>failed_promise := failed_promise s \<or> b\<rparr>) t \<Longrightarrow> grows s t"
  "grows (s\<lparr>next_pid := n\<rparr>) t \<Longrightarrow> next_pid s \<le> n \<Longrightarrow> grows s t"
  "grows (s\<lparr>next_aid := m\<rparr>) t \<Longrightarrow> next_aid s \<le> m \<Longrightarrow> grows s t"
  by (blast intro: grow.trans)+

lemma process_read_promise_grows:
  assumes "process_read_promise cur n s = Some (b, s')"
  shows "grows s s'"
proof -
  from assms obtain ps f a p s2 recent s4 where
    s2: "begin_changes (upd_act cur a (s\<lparr>proms := ps, failed_promise := failed_promise s \<or> f\<rparr>)) = Some s2"
    and s4: "r_modification_order cur p (if \<not> recent then s2\<lparr>too_many_reads := True\<rparr> else s2) = Some (b, s4)"
    and s': "s' = read_commit s4"
    unfolding process_read_promise_def Let_def case_prod_beta bind_eq_Some_conv by auto
  have "grows s s2" using begin_changes_grows [OF s2] grows_left(3) [where s = "s\<lparr>proms := ps\<rparr>"] by simp
  moreover have "grows s2 s4"
    using r_modification_order_grows [OF s4] grows_left(2) by (auto split: if_splits)
  ultimately show ?thesis unfolding s' by (intro read_commit_after) (rule grow.trans)
qed

lemma process_read_future_grows:
  assumes "process_read_future cur n s = Some (b, s')"
  shows "grows s s'"
proof -
  from assms obtain a ps qs p s3 s4 where
    s3: "begin_changes ((upd_act cur a (s\<lparr>proms := ps, next_pid := next_pid s + 1\<rparr>))\<lparr>promises := qs\<rparr>) = Some s3"
    and s4: "r_modification_order cur p s3 = Some (b, s4)" and s': "s' = read_commit s4"
    unfolding process_read_future_def Let_def bind_eq_Some_conv by (auto simp: bind_eq_Some_conv)
  have "grows s s3" using begin_changes_grows [OF s3] grows_left(4) [where s = "s\<lparr>proms := ps\<rparr>"] by simp
  then show ?thesis unfolding s'
    by (intro read_commit_after) (rule grow.trans, assumption, rule r_modification_order_grows [OF s4])
qed

lemma process_read_past_grows: "process_read_past cur rf s = Some (b, s') \<Longrightarrow> grows s s'"
  by (auto simp: process_read_past_def bind_eq_Some_conv read_commit_def
      dest!: r_modification_order_grows read_from_grows mo_check_promises_grows)
    (blast intro: grow.trans)

lemma process_read_loop_grows:
  assumes "process_read_loop cur s = Some (b, s')"
  shows "grows s s'"
proof -
  have "grows s (snd y)" if "process_read_loop cur s = Some y" for y
  proof (rule process_read_loop.raw_induct [OF _ that])
    fix loop cur s y
    assume IH: "\<And>cur' s' y'. loop cur' s' = Some y' \<Longrightarrow> grows s' (snd y')"
      and step: "Option.bind (act_node (A s cur)) (\<lambda>i. Option.bind (node_at s i) (\<lambda>n0.
     let (status, n) = get_read_from_status n0; s0 = put_node i n s in
     if status = READ_FROM_PAST then
       Option.bind (get_read_from_past n) (\<lambda>rf. Option.bind (begin_changes s0) (\<lambda>s1.
       if is_infeasible s1 then None
       else Option.bind (check_recency s1 cur (ActObj rf)) (\<lambda>recent.
         if recent then process_read_past cur rf s1
         else let (more, n1) = increment_read_from n; s2 = put_node i n1 s1
              in if more
                 then loop cur (s2\<lparr>mo_graph := rollbackChanges (mo_graph s2)\<rparr>)
                 else process_read_past cur rf (s2\<lparr>too_many_reads := True\<rparr>))))
     else if status = READ_FROM_PROMISE then process_read_promise cur n s0
     else if status = READ_FROM_FUTURE then process_read_future cur n s0
     else None)) = Some y"
    obtain b t where y: "y = (b, t)" by fastforce
    from step obtain i n0 where "act_node (A s cur) = Some i" "node_at s i = Some n0" by (auto simp: bind_eq_Some_conv)
    note step = step [unfolded this Option.bind.bind_lunit]
    obtain status n where n: "get_read_from_status n0 = (status, n)" by fastforce
    obtain more n1 where n1: "increment_read_from n = (more, n1)" by fastforce
    note step = step [unfolded n n1 Let_def prod.case]
    consider "status = READ_FROM_PAST" | "status \<noteq> READ_FROM_PAST" by blast
    then show "grows s (snd y)"
    proof cases
      case 1
      with step obtain rf s1 where s1: "begin_changes (put_node i n s) = Some s1" and
        c: "(if is_infeasible s1 then None
          else Option.bind (check_recency s1 cur (ActObj rf)) (\<lambda>recent.
            if recent then process_read_past cur rf s1
            else if more then loop cur ((put_node i n1 s1)\<lparr>mo_graph := rollbackChanges (mo_graph (put_node i n1 s1))\<rparr>)
            else process_read_past cur rf ((put_node i n1 s1)\<lparr>too_many_reads := True\<rparr>))) = Some y"
        unfolding bind_eq_Some_conv if_P [OF 1] by blast
      from c obtain recent where
        r: "(if recent then process_read_past cur rf s1
            else if more then loop cur ((put_node i n1 s1)\<lparr>mo_graph := rollbackChanges (mo_graph (put_node i n1 s1))\<rparr>)
            else process_read_past cur rf ((put_node i n1 s1)\<lparr>too_many_reads := True\<rparr>)) = Some y"
        by (cases "is_infeasible s1"; cases "check_recency s1 cur (ActObj rf)") simp_all
      have 1: "grows s s1" using begin_changes_grows [OF s1] by simp
      have "grows s1 (snd y)"
        using r IH process_read_past_grows grows_left(2) [where s = "put_node i n1 s1"]
        by (fastforce simp: y split: if_splits)
      with 1 show ?thesis by (rule grow.trans)
    next
      case 2
      with step show ?thesis
        by (auto simp: y split: if_splits dest!: process_read_promise_grows process_read_future_grows)
    qed
  qed
  from this [OF assms] show ?thesis by simp
qed

lemma process_read_grows [grows_steps]: "process_read cur s = Some (b, s') \<Longrightarrow> grows s s'"
  by (auto simp: process_read_def bind_eq_Some_conv dest!: process_read_loop_grows set_return_value_grows
      intro: grow.trans)

lemma pop_promise_grows [grows_steps]: "pop_promise_to_resolve cur s = Some (po, s') \<Longrightarrow> grows s s'"
  by (auto simp: pop_promise_to_resolve_def bind_eq_Some_conv split: if_splits option.splits)

lemma resolve_reader_grows: "resolve_reader w r sw = Some sw' \<Longrightarrow> grows (fst sw) (fst sw')"
  by (auto simp: resolve_reader_def bind_eq_Some_conv split: if_splits
      dest!: read_from_grows propagate_clockvector_grows intro: grow.trans)

lemma exec_resolve_promise_grows [grows_steps]:
  assumes "exec_resolve_promise w p sw = Some sw'"
  shows "grows (fst sw) (fst sw')"
proof -
  from assms obtain pr :: promise and s1 work g ok s3 where
    1: "fold_opt (resolve_reader w) (readers pr) sw = Some (s1, work)" and
    3: "fold_opt (\<lambda>rd. mo_check_promises rd True) (readers pr)
        (s1\<lparr>mo_graph := g, hard_failed_promise := hard_failed_promise s1 \<or> \<not> ok\<rparr>) = Some s3"
    and sw': "sw' = (s3, work)"
    unfolding exec_resolve_promise_def Let_def bind_eq_Some_conv case_prod_beta
    by (clarsimp split: if_split_asm simp: bind_eq_Some_conv)
  have "grows (fst sw) s1" using grow.fold [OF 1, of fst] resolve_reader_grows by auto
  moreover have "grows s1 (s1\<lparr>mo_graph := g, hard_failed_promise := hard_failed_promise s1 \<or> \<not> ok\<rparr>)"
    by (simp add: grows_def)
  moreover have "grows (s1\<lparr>mo_graph := g, hard_failed_promise := hard_failed_promise s1 \<or> \<not> ok\<rparr>) s3"
    using grow.fold [OF 3, of id] mo_check_promises_grows by auto
  ultimately show ?thesis unfolding sw' by (auto intro: grow.trans)
qed

lemma exec_add_future_value_grows: "exec_add_future_value w r s = Some s' \<Longrightarrow> grows s s'"
  by (blast intro: grows_sent exec_add_future_value_sent)

lemma send_future_grows: "send_future cur e rd s = Some s' \<Longrightarrow> grows s s'"
  by (auto simp: send_future_def bind_eq_Some_conv split: if_splits dest: exec_add_future_value_grows)

lemma recheck_future_grows: "recheck_future i s = Some s' \<Longrightarrow> grows s s'"
  by (auto simp: recheck_future_def bind_eq_Some_conv split: if_splits prod.splits
      dest: exec_add_future_value_grows)

lemma process_write_grows [grows_steps]:
  assumes "process_write cur sw = Some (b, s', w')"
  shows "grows (fst sw) s'"
proof -
  from assms obtain r1 r2 r3 s4 s5 s6 where
    1: "w_modification_order cur True (fst sw) = Some r1" and
    2: "pop_promise_to_resolve cur (st_exec r1) = Some r2" and
    3: "(case fst r2 of None \<Rightarrow> Some (None, snd r2, snd sw)
         | Some p \<Rightarrow> do { pr \<leftarrow> proms (snd r2) p; sw1 \<leftarrow> exec_resolve_promise cur p (snd r2, snd sw);
                        Some (get_reader pr 0, fst sw1, snd sw1) }) = Some r3" and
    4: "fold_opt (send_future cur (fst r3)) (fst (snd r1)) (fst (snd r3)) = Some s4" and
    5: "fold_opt recheck_future (rev [0 ..< length (futurevalues s4)]) s4 = Some s5" and
    6: "mo_check_promises cur False (read_commit s5) = Some s6" and
    7: "set_return_value cur VALUE_NONE s6 = Some s'"
    unfolding process_write_def bind_eq_Some_conv case_prod_beta by blast
  have "grows (fst sw) (st_exec r1)"
    using w_modification_order_grows [of cur True "fst sw" "fst r1" "fst (snd r1)" "st_exec r1"] 1 by simp
  moreover have "grows (st_exec r1) (snd r2)" using pop_promise_grows [of cur _ "fst r2" "snd r2"] 2 by simp
  moreover have "grows (snd r2) (fst (snd r3))"
    using 3 exec_resolve_promise_grows by (fastforce simp: bind_eq_Some_conv split: option.splits)
  moreover have "grows (fst (snd r3)) s4" using grow.fold [OF 4, of id] send_future_grows by auto
  moreover have "grows s4 s5" using grow.fold [OF 5, of id] recheck_future_grows by auto
  moreover have "grows s5 s6" using mo_check_promises_grows [OF 6] by (simp add: read_commit_def)
  ultimately show ?thesis using set_return_value_grows [OF 7] by (meson grow.trans)
qed

section \<open>Mutexes and threads\<close>

lemma upd_mutexes_strip [simp]:
  "grows (s\<lparr>mutexes := x\<rparr>) t = grows s t" "grows s (t\<lparr>mutexes := x\<rparr>) = grows s t"
  by simp_all

lemma lock_mutex_grows:
  assumes "lock_mutex cur loc m s = Some (b, s')"
  shows "grows s s'"
proof -
  from assms obtain c where c: "cv (A s cur) = Some c" by (auto simp: lock_mutex_def bind_eq_Some_conv)
  define s1 where "s1 = (if getClock c (alloc_tid m) \<le> alloc_clock m
      then snd (assert_bug (MessageBug ''Lock access before initialization'') s) else s)"
  define s2 where "s2 = s1\<lparr>mutexes := (mutexes s1)(loc \<mapsto> m\<lparr>locked := Some (tid (A s cur))\<rparr>)\<rparr>"
  have "grows s s2" by (simp add: s1_def s2_def)
  moreover from assms [unfolded lock_mutex_def c Option.bind.bind_lunit Let_def s1_def [symmetric], folded s2_def]
  have "grows s2 s'" by (auto simp: bind_eq_Some_conv split: option.splits dest: synchronize_grows)
  ultimately show ?thesis by (rule grow.trans)
qed

lemma wake_loop_grows: "fold_opt (wake_if_waiting c k) is s = Some s' \<Longrightarrow> grows s s'"
  using grow.fold [of "wake_if_waiting c k" "is" s s' id] wake_if_waiting_grows by auto

lemma unlock_mutex_grows: "unlock_mutex cur loc s = Some s' \<Longrightarrow> grows s s'"
  by (auto simp: unlock_mutex_def bind_eq_Some_conv dest: wake_loop_grows)

lemma notify_loop_grows: "fold_opt (\<lambda>w t. exec_wake (tid (A t w)) t) ws s = Some s' \<Longrightarrow> grows s s'"
  using grow.fold [of "\<lambda>w t. exec_wake (tid (A t w)) t" ws s s' id] exec_wake_grows by auto

lemma set_waiters_strip [simp]: "grows (set_waiters l ws s) t = grows s t" "grows s (set_waiters l ws t) = grows s t"
  by (simp_all add: set_waiters_def)

lemma process_mutex_grows [grows_steps]:
  assumes "process_mutex cur s = Some (b, s')"
  shows "grows s s'"
proof -
  note P = assms [unfolded process_mutex_def Let_def]
  show ?thesis
  proof (cases "act_type (A s cur)")
    case ATOMIC_TRYLOCK
    with P show ?thesis
      by (auto simp: bind_eq_Some_conv split: if_splits dest!: set_return_value_grows lock_mutex_grows
          intro: grow.trans)
  next
    case ATOMIC_LOCK
    with P show ?thesis by (auto simp: bind_eq_Some_conv dest!: lock_mutex_grows)
  next
    case ATOMIC_UNLOCK
    with P show ?thesis by (auto simp: bind_eq_Some_conv dest!: unlock_mutex_grows)
  next
    case ATOMIC_WAIT
    with P show ?thesis
      by (auto simp: bind_eq_Some_conv split: if_splits dest!: unlock_mutex_grows exec_sleep_grows
          intro: grow.trans)
  next
    case ATOMIC_NOTIFY_ALL
    with P show ?thesis by (auto simp: bind_eq_Some_conv dest!: notify_loop_grows)
  next
    case ATOMIC_NOTIFY_ONE
    with P show ?thesis by (auto simp: bind_eq_Some_conv split: if_splits dest!: exec_wake_grows)
  qed (use P in simp_all)
qed

lemma add_thread_to_grows [grows_steps]: "add_thread_to t th s = Some s' \<Longrightarrow> grows s s'"
  by (auto simp: add_thread_to_def Let_def bind_eq_Some_conv split: if_splits)

lemma satisfy_loop_grows: "fold_opt (satisfy_by_child p c) ps s = Some s' \<Longrightarrow> grows s s'"
proof (erule grow.fold [of _ _ _ _ id, simplified])
  show "grows t t'" if "satisfy_by_child p c x t = Some t'" for x t t'
    using that by (auto simp: satisfy_by_child_def bind_eq_Some_conv split: if_splits)
qed

lemma eliminate_loop_grows: "fold_opt (eliminate_completed p) ps s = Some s' \<Longrightarrow> grows s s'"
proof (erule grow.fold [of _ _ _ _ id, simplified])
  show "grows t t'" if "eliminate_completed p x t = Some t'" for x t t'
    using that by (auto simp: eliminate_completed_def bind_eq_Some_conv Let_def split: if_splits prod.splits)
      (simp add: grows_def)
qed

lemma process_thread_action_grows [grows_steps]:
  assumes "process_thread_action cur s = Some (b, s')"
  shows "grows s s'"
proof -
  note P = assms [unfolded process_thread_action_def Let_def]
  show ?thesis
  proof (cases "act_type (A s cur)")
    case THREAD_CREATE
    with P obtain s3 th t f where 3: "add_thread_to t th (s\<lparr>next_thread_id := next_thread_id s + 1, thrd_priv := f\<rparr>) = Some s3"
      and 4: "fold_opt (satisfy_by_child (tid (A s cur)) t) (promises s3) s3 = Some s'"
      by (auto simp: bind_eq_Some_conv get_next_id_def)
    have "grows s (s\<lparr>next_thread_id := next_thread_id s + 1, thrd_priv := f\<rparr>)" by (simp add: grows_def)
    with add_thread_to_grows [OF 3] satisfy_loop_grows [OF 4] show ?thesis by (meson grow.trans)
  next
    case THREAD_JOIN
    with P show ?thesis by (auto simp: bind_eq_Some_conv dest!: synchronize_grows)
  next
    case THREAD_FINISH
    with P obtain s1 s2 th where "fold_opt (wake_if_waiting (tid (A s cur)) is_thread_join) [0 ..< get_num_threads s] s = Some s1"
      and "upd_thread (tid (A s cur)) (\<lambda>_. th) s1 = Some s2"
      and "fold_opt (eliminate_completed (tid (A s cur))) (promises s2) s2 = Some s'"
      by (auto simp: bind_eq_Some_conv)
    then show ?thesis
      by (meson wake_loop_grows upd_thread_grows eliminate_loop_grows grow.trans)
  next
    case THREAD_START
    with P show ?thesis by (auto simp: bind_eq_Some_conv check_promises_def dest!: check_promises_grows)
  qed (use P in simp_all)
qed

section \<open>Entering an action\<close>

lemma check_action_enabled_grows [grows_steps]: "check_action_enabled cur s = Some (b, s') \<Longrightarrow> grows s s'"
  by (auto simp: check_action_enabled_def Let_def bind_eq_Some_conv thread_blocking_check_promises_def
      split: if_splits dest: thread_blocking_grows)

lemma compute_promises_grows [grows_steps]: "compute_promises cur s = Some s' \<Longrightarrow> grows s s'"
  unfolding compute_promises_def
proof (erule grow.fold [of _ _ _ _ id, simplified])
  show "grows t t'" if "compute_promise cur i t = Some t'" for i t t'
    using that by (auto simp: compute_promise_def bind_eq_Some_conv split: if_splits dest: upd_node_grows)
qed

lemma exec_process_rmw_grows [grows_steps]:
  assumes "exec_process_rmw act s = Some (l, s')"
  shows "grows s s'"
proof -
  define s1 where "s1 = upd_act l (\<lambda>a. action_process_rmw a (A s act)) s"
  have "s' = s1 \<or> (\<exists>g. s' = s1\<lparr>mo_graph := g\<rparr>)"
  proof (cases "is_rmw (A s act)")
    case True
    with assms show ?thesis
      unfolding exec_process_rmw_def bind_eq_Some_conv Let_def s1_def by (simp add: bind_eq_Some_conv) blast
  next
    case False
    with assms show ?thesis
      unfolding exec_process_rmw_def bind_eq_Some_conv Let_def s1_def by auto
  qed
  moreover have "grows s s1" by (simp add: s1_def)
  ultimately show ?thesis by auto
qed

lemma fresh_cv_grows [grows_steps]: "fresh_cv a s = Some s' \<Longrightarrow> grows s s'"
  by (auto simp: fresh_cv_def bind_eq_Some_conv)

lemma compute_relseq_breakwrites_grows [grows_steps]: "compute_relseq_breakwrites cur s = Some s' \<Longrightarrow> grows s s'"
  by (auto simp: compute_relseq_breakwrites_def split: if_splits dest: upd_node_grows)

lemma initialize_curr_action_grows [grows_steps]:
  assumes "initialize_curr_action cur s = Some (b, cur', s')"
  shows "grows s s'"
proof (cases "is_rmwc (A s cur) \<or> is_rmw (A s cur)")
  case True
  with assms show ?thesis
    by (auto simp: initialize_curr_action_def bind_eq_Some_conv split: if_splits
        dest!: exec_process_rmw_grows compute_promises_grows intro: grow.trans)
next
  case False
  obtain n s1 where n: "get_next_seq_num s = (n, s1)" by fastforce
  have 1: "grows s t \<longleftrightarrow> grows s1 t" for t using n by (auto simp: get_next_seq_num_def)
  from assms False n obtain a found ns where
    a: "explore_action (params (upd_act cur (\<lambda>_. a) s1)) (get_num_threads (upd_act cur (\<lambda>_. a) s1)) cur (tid a) (act_type a)
       (Some (enabled (scheduler (upd_act cur (\<lambda>_. a) s1)))) (node_stack (upd_act cur (\<lambda>_. a) s1)) = Some (found, ns)"
    and sn: "set_seq_number n (A s1 cur) = Some a"
    by (auto simp: initialize_curr_action_def bind_eq_Some_conv Let_def)
  define s3 where "s3 = (upd_act cur (\<lambda>_. a) s1)\<lparr>node_stack := ns\<rparr>"
  have 3: "grows s t \<longleftrightarrow> grows s3 t" for t by (simp add: s3_def 1)
  note R = assms [unfolded initialize_curr_action_def if_not_P [OF False] n prod.case sn Let_def
      Option.bind.bind_lunit a s3_def [symmetric]]
  show ?thesis
  proof (cases found)
    case None
    from R [unfolded None option.case] obtain f g s5 where
      5: "fresh_cv cur (upd_act cur f s3) = Some s5" and
      6: "(if is_write a then compute_promises cur (upd_act cur g s5)
          else if is_relseq_fixup a then compute_relseq_breakwrites cur (upd_act cur g s5)
          else if is_wait a then upd_node cur (set_misc_max 2) (upd_act cur g s5)
          else if is_notify_one a
          then upd_node cur (set_misc_max (int (length (waiters_of (upd_act cur g s5) (location a)))))
                 (set_waiters (location a) (waiters_of (upd_act cur g s5) (location a)) (upd_act cur g s5))
          else Some (upd_act cur g s5)) = Some s'"
      unfolding bind_eq_Some_conv prod.inject option.inject by blast
    have "grows s5 s'"
      using 6 compute_promises_grows compute_relseq_breakwrites_grows upd_node_grows
      by (fastforce split: if_split_asm)
    moreover have "grows s3 s5" using fresh_cv_grows [OF 5] by simp
    ultimately show ?thesis unfolding 3 by (rule grow.trans [rotated])
  next
    case (Some c)
    with R show ?thesis
      by (auto simp: 3 bind_eq_Some_conv split: if_splits dest!: fresh_cv_grows)
  qed
qed

section \<open>Lists and choices\<close>

lemma get_uninitialized_action_grows [grows_steps]:
  "get_uninitialized_action cur s = Some (u, s') \<Longrightarrow> grows s s'"
  by (auto simp: get_uninitialized_action_def bind_eq_Some_conv Let_def split: option.splits
      dest!: upd_node_grows grows_left(5) [where s = "s\<lparr>acts := as\<rparr>" for as])

lemma push_thread_list_strip [simp]:
  "grows (push_thread_list s l t a) u = grows s u" "grows s (push_thread_list u l t a) = grows s u"
  by (simp_all add: push_thread_list_def Let_def)

lemma add_uninit_strip [simp]: "grows s (add_uninit u l t) = grows s t"
  by (simp add: add_uninit_def Let_def)

lemma add_action_to_lists_grows [grows_steps]: "add_action_to_lists act s = Some s' \<Longrightarrow> grows s s'"
  by (auto simp: add_action_to_lists_def Let_def bind_eq_Some_conv split: if_splits option.splits
      dest!: get_uninitialized_action_grows)

lemma try_read_grows: "try_read cur rf add s = Some s' \<Longrightarrow> grows s s'"
  by (auto simp: try_read_def bind_eq_Some_conv split: if_splits dest!: r_modification_order_grows upd_node_grows
      intro: grow.trans)

lemma may_read_thread_grows: "may_read_thread cur lw xs s = Some s' \<Longrightarrow> grows s s'"
proof (induction xs arbitrary: s)
  case (Cons a xs)
  from Cons.prems show ?case
    by (auto simp: bind_eq_Some_conv split: if_splits dest!: Cons.IH try_read_grows intro: grow.trans)
qed simp

lemma build_may_read_from_grows [grows_steps]:
  assumes "build_may_read_from cur s = Some s'"
  shows "grows s s'"
proof -
  from assms obtain lw tls s1 s2 where
    1: "fold_opt (\<lambda>xs. may_read_thread cur lw (rev xs)) tls s = Some s1" and
    2: "fold_opt (inherit_promise cur) (promises s) s1 = Some s2" and
    s': "s' = s2 \<or> s' = set_assert (s2\<lparr>no_valid_reads := True\<rparr>)"
    by (auto simp: build_may_read_from_def bind_eq_Some_conv split: if_splits)
  have "grows s s1" using grow.fold [OF 1, of id] may_read_thread_grows by auto
  moreover have "grows t t'" if "inherit_promise cur p t = Some t'" for p t t'
    using that by (auto simp: inherit_promise_def bind_eq_Some_conv split: if_splits dest: try_read_grows)
  then have "grows s1 s2" using grow.fold [OF 2, of id] by auto
  moreover have "grows s2 s'" using s' by (auto simp: set_assert_def)
  ultimately show ?thesis by (meson grow.trans)
qed

section \<open>The work loop and one step\<close>

lemma check_curr_work_grows:
  assumes "check_curr_work cur second act sw = Some sw'"
  shows "grows (fst sw) (fst sw')"
proof -
  from assms obtain r1 r2 r3 r4 r5 r6 where
    1: "process_thread_action cur (fst sw) = Some r1" and
    2: "(if is_read (A (snd r1) act) \<and> \<not> second then process_read act (snd r1) else Some (False, snd r1)) = Some r2" and
    3: "(if is_write (A (snd r2) act) then process_write act (snd r2, snd sw)
         else Some (False, snd r2, snd sw)) = Some r3" and
    4: "(if is_fence (A (fst (snd r3)) act) then process_fence act (fst (snd r3))
         else Some (False, fst (snd r3))) = Some r4" and
    5: "(if is_mutex_op (A (snd r4) act) then process_mutex act (snd r4) else Some (False, snd r4)) = Some r5" and
    6: "(if is_relseq_fixup (A (snd r5) act) then process_relseq_fixup cur (snd r5, snd (snd r3))
         else Some (snd r5, snd (snd r3))) = Some r6" and
    sw': "fst sw' = fst r6"
    unfolding check_curr_work_def bind_eq_Some_conv case_prod_beta by fastforce
  have "grows (fst sw) (snd r1)"
    using process_thread_action_grows [of cur _ "fst r1" "snd r1"] 1 by simp
  moreover have "grows (snd r1) (snd r2)"
    using 2 process_read_grows [of act _ "fst r2" "snd r2"] by (auto split: if_splits)
  moreover have "grows (snd r2) (fst (snd r3))"
    using 3 process_write_grows [of act "(snd r2, snd sw)" "fst r3" "fst (snd r3)" "snd (snd r3)"]
    by (auto split: if_splits)
  moreover have "grows (fst (snd r3)) (snd r4)"
    using 4 process_fence_grows [of act _ "fst r4" "snd r4"] by (auto split: if_splits)
  moreover have "grows (snd r4) (snd r5)"
    using 5 process_mutex_grows [of act _ "fst r5" "snd r5"] by (auto split: if_splits)
  moreover have "grows (snd r5) (fst r6)"
    using 6 process_relseq_fixup_grows [of cur "(snd r5, snd (snd r3))" r6] by (auto split: if_splits)
  ultimately show ?thesis unfolding sw' by (meson grow.trans)
qed

lemma mo_edges_work_grows:
  assumes "mo_edges_work act sw = Some sw'"
  shows "grows (fst sw) (fst sw')"
proof -
  from assms obtain r1 r2 where
    1: "(if \<not> is_read (A (fst sw) act) then Some (False, fst sw)
        else case reads_from (A (fst sw) act) of
          Some rf \<Rightarrow> do {
            (b, s') \<leftarrow> r_modification_order act (ActObj rf) (fst sw);
            bad \<leftarrow> (if is_seqcst (A s' act)
                     then do { w \<leftarrow> get_last_seq_cst_write s' act;
                               Some (case w of None \<Rightarrow> False | Some x \<Rightarrow> happens s' rf x) }
                     else Some False);
            Some (b, if bad then set_bad_sc_read s' else s') }
        | None \<Rightarrow>
            (case reads_from_promise (A (fst sw) act) of
               Some p \<Rightarrow> r_modification_order act (PromObj p) (fst sw)
             | None \<Rightarrow> Some (False, fst sw))) = Some r1" and
    2: "(if is_write (A (snd r1) act)
        then do { r \<leftarrow> w_modification_order act False (snd r1); Some (fst r, st_exec r) }
        else Some (False, snd r1)) = Some r2" and
    sw': "fst sw' = read_commit (snd r2)"
    unfolding mo_edges_work_def bind_eq_Some_conv case_prod_beta Let_def by fastforce
  have "grows (fst sw) (snd r1)"
  proof (cases "reads_from (A (fst sw) act)")
    case (Some rf)
    show ?thesis
    proof (cases "is_read (A (fst sw) act)")
      case True
      with 1 Some obtain b t bad where r: "r_modification_order act (ActObj rf) (fst sw) = Some (b, t)"
        and r1: "r1 = (b, if bad then set_bad_sc_read t else t)"
        by (auto simp: bind_eq_Some_conv)
      have "grows t (snd r1)" by (simp add: r1)
      with r_modification_order_grows [OF r] show ?thesis by (rule grow.trans)
    qed (use 1 in auto)
  qed (use 1 in \<open>cases r1, auto split: if_splits option.splits dest: r_modification_order_grows\<close>)
  moreover have "grows (snd r1) (snd r2)"
    using 2 w_modification_order_grows [of act False] by (fastforce simp: bind_eq_Some_conv split: if_splits)
  ultimately show ?thesis unfolding sw' by (intro read_commit_after) (rule grow.trans)
qed

lemma work_step_grows: "work_step cur second w sw = Some sw' \<Longrightarrow> grows (fst sw) (fst sw')"
  by (cases w) (auto dest: check_curr_work_grows mo_edges_work_grows resolve_release_sequences_grows)

lemma work_loop_grows [grows_steps]:
  assumes "work_loop cur second sw = Some s'"
  shows "grows (fst sw) s'"
proof (rule work_loop.raw_induct [OF _ assms])
  fix loop cur second sw s'
  assume IH: "\<And>cur' second' sw' s''. loop cur' second' sw' = Some s'' \<Longrightarrow> grows (fst sw') s''"
    and step: "(case snd sw of [] \<Rightarrow> Some (fst sw)
      | w # ws \<Rightarrow> if has_asserted (fst sw) then Some (fst sw)
          else Option.bind (work_step cur second w (fst sw, ws)) (loop cur second)) = Some s'"
  then show "grows (fst sw) s'"
    by (auto simp: bind_eq_Some_conv split: list.splits if_splits dest!: IH work_step_grows
        intro: grow.trans)
qed

lemma wake_up_sleeping_actions_grows [grows_steps]: "wake_up_sleeping_actions cur s = Some s' \<Longrightarrow> grows s s'"
  unfolding wake_up_sleeping_actions_def
proof (erule grow.fold [of _ _ _ _ id, simplified])
  show "grows t t'" if "wake_up_one cur i t = Some t'" for i t t'
    using that by (auto simp: wake_up_one_def bind_eq_Some_conv split: if_splits)
qed

lemma update_yield_of_grows [grows_steps]: "update_yield_of cur s = Some s' \<Longrightarrow> grows s s'"
  by (auto simp: update_yield_of_def bind_eq_Some_conv)

lemma check_curr_backtracking_grows [grows_steps]: "check_curr_backtracking cur s = Some s' \<Longrightarrow> grows s s'"
  by (auto simp: check_curr_backtracking_def bind_eq_Some_conv)

lemma backtrack_loop_grows: "backtrack_loop p ni is s = Some s' \<Longrightarrow> grows s s'"
proof (induction "is" arbitrary: s)
  case (Cons i "is")
  from Cons.prems show ?case
    by (auto simp: bind_eq_Some_conv Let_def split: if_splits dest!: Cons.IH
        intro: grow.trans [OF grows_elementary(8)])
qed simp

lemma set_backtracking_grows [grows_steps]: "set_backtracking act s = Some s' \<Longrightarrow> grows s s'"
  by (auto simp: set_backtracking_def bind_eq_Some_conv Let_def split: option.splits
      dest: backtrack_loop_grows)

lemma check_current_action_grows:
  assumes "check_current_action cur0 s = Some (cur, s')"
  shows "grows s s'"
proof -
  let ?second = "is_rmwc (A s cur0) \<or> is_rmw (A s cur0)"
  from assms obtain r s2 s3 s4 s5 s6 s7 where
    1: "initialize_curr_action cur0 s = Some r" and
    2: "wake_up_sleeping_actions (fst (snd r)) (snd (snd r)) = Some s2" and
    3: "(if yieldon (params s2) then update_yield_of (fst (snd r)) s2 else Some s2) = Some s3" and
    4: "(if \<not> ?second then add_action_to_lists (fst (snd r)) s3 else Some s3) = Some s4" and
    5: "(if fst r \<and> is_read (A s4 (fst (snd r))) then build_may_read_from (fst (snd r)) s4 else Some s4) = Some s5" and
    6: "work_loop (fst (snd r)) ?second (s5, [CheckCurrWorkEntry (fst (snd r))]) = Some s6" and
    7: "check_curr_backtracking (fst (snd r)) s6 = Some s7" and
    8: "set_backtracking (fst (snd r)) s7 = Some s'"
    unfolding check_current_action_def bind_eq_Some_conv case_prod_beta Let_def by blast
  have "grows s (snd (snd r))"
    using initialize_curr_action_grows [of cur0 s "fst r" "fst (snd r)" "snd (snd r)"] 1 by simp
  note T = this wake_up_sleeping_actions_grows [OF 2]
  have "grows s2 s3" using 3 update_yield_of_grows by (auto split: if_splits)
  moreover have "grows s3 s4" using 4 add_action_to_lists_grows by (auto split: if_splits)
  moreover have "grows s4 s5" using 5 build_may_read_from_grows by (auto split: if_splits)
  moreover have "grows s5 s6" using work_loop_grows [OF 6] by simp
  moreover note check_curr_backtracking_grows [OF 7] set_backtracking_grows [OF 8]
  ultimately show ?thesis using T by (meson grow.trans)
qed

lemma take_step_grows:
  assumes "take_step cur s = Some (t, s')"
  shows "grows s s'"
proof -
  from assms obtain en s1 cur1 s2 where
    1: "check_action_enabled cur s = Some (en, s1)" and 2: "check_current_action cur s1 = Some (cur1, s2)" and
    3: "s' = s2 \<or> s' = exec_remove_thread (tid (A s cur)) s2"
    by (auto simp: take_step_def bind_eq_Some_conv Let_def split: if_splits)
  have "grows s2 s'" using 3 by auto
  then show ?thesis
    using check_action_enabled_grows [OF 1] check_current_action_grows [OF 2] by (meson grow.trans)
qed

section \<open>The property\<close>


text \<open>The second half of an RMW that is not performed: an \<open>ATOMIC_RMWC\<close> after its read.\<close>

definition step_exec :: exec where
  "step_exec = (sample_exec [1 \<mapsto> (sample_act ATOMIC_RMWR memory_order_relaxed 64 0 1 1 [0, 1])\<lparr>act_node := Some 0\<rparr>,
       2 \<mapsto> sample_act ATOMIC_RMWC memory_order_relaxed 64 0 1 0 [0, 1]])
     \<lparr>thread_map := [Some Thread_model, Some ((Thread_new 0)\<lparr>th_state := THREAD_READY\<rparr>)], next_thread_id := 2,
      params := sample_params\<lparr>yieldon := False\<rparr>, obj_map := [64 \<mapsto> [1]], thrd_last_action := [None, Some 1],
      node_stack := NodeStack_new\<lparr>node_list := [sample_node]\<rparr>, too_many_reads := True,
      scheduler := Scheduler_new\<lparr>enabled := [THREAD_DISABLED, THREAD_ENABLED]\<rparr>, bugs := [MessageBug ''x'']\<rparr>"

definition step_after :: exec where
  "step_after = step_exec\<lparr>acts := (acts step_exec)(1 \<mapsto>
     (sample_act ATOMIC_READ memory_order_relaxed 64 0 1 1 [0, 1])
       \<lparr>act_node := Some 0, original_order := memory_order_relaxed\<rparr>)\<rparr>"

lemmas step_simps = step_after_def step_exec_def sample_simps action_defs get_thread_def Thread_new_def

lemma step_initialized: "initialize_curr_action 2 step_exec = Some (False, 1, step_after)"
  by (simp add: step_simps initialize_curr_action_def exec_process_rmw_def get_last_action_def Let_def
      action_process_rmw_def upd_act_def)

lemma step_woken: "wake_up_sleeping_actions 1 step_after = Some step_after"
proof -
  have "[0 ..< 2] = [0, Suc 0 :: nat]" by (simp add: upt_rec)
  moreover have "get_num_threads step_after = 2"
    "is_sleep_set (scheduler step_after) 0 = Some False" "is_sleep_set (scheduler step_after) (Suc 0) = Some False"
    by (simp_all add: get_num_threads_def is_sleep_set_def get_enabled_def step_simps)
  ultimately show ?thesis by (simp add: wake_up_sleeping_actions_def wake_up_one_def)
qed

lemma step_worked: "work_loop 1 True (step_after, [CheckCurrWorkEntry 1]) = Some step_after"
proof -
  have "check_curr_work 1 True 1 (step_after, []) = Some (step_after, [])"
    by (simp add: check_curr_work_def process_thread_action_def) (simp add: step_simps)
  moreover have "\<not> has_asserted step_after" by (simp add: has_asserted_def step_simps)
  moreover have "work_loop 1 True (step_after, []) = Some step_after" by (subst work_loop.simps) simp
  ultimately show ?thesis by (subst work_loop.simps) simp
qed

lemma step_backtracked: "check_curr_backtracking 1 step_after = Some step_after"
proof -
  have "misc_empty sample_node" "promise_empty sample_node" "read_from_empty sample_node"
      "relseq_break_empty sample_node"
    by (simp_all add: sample_node_eq misc_empty_def promise_empty_def read_from_empty_def no_promise_from.simps
      relseq_break_empty_def read_from_past_empty_def read_from_promise_empty_def future_value_empty_def)
  moreover have "get_node step_after 1 = Some sample_node" "get_node_parent step_after 1 = Some None"
    by (simp_all add: get_node_def get_node_parent_def node_at_def step_simps)
  ultimately show ?thesis by (simp add: check_curr_backtracking_def)
qed

lemma step_no_conflict: "set_backtracking 1 step_after = Some step_after"
proof -
  have "act_type (A step_after 1) = ATOMIC_READ" "obj_map step_after (location (A step_after 1)) = Some [1]"
      "\<not> is_write (A step_after 1)" "\<exists>th. get_thread step_after (tid (A step_after 1)) = Some th"
    by (simp_all add: step_simps)
  then show ?thesis
    by (auto simp: set_backtracking_def get_thread_of_def get_last_conflict_def conflict_of_access_def
        find_back_def get_last_fence_conflict_def Let_def)
qed

lemma step_runs: "\<exists>t s'. take_step 2 step_exec = Some (t, s')"
proof -
  have "check_action_enabled 2 step_exec = Some (True, step_exec)"
    by (simp add: step_simps check_action_enabled_def)
  moreover have "is_rmwc (A step_exec 2)" "\<not> yieldon (params step_after)" "tid (A step_exec 2) = 1"
    by (simp_all add: step_simps)
  moreover have "\<exists>th. get_thread step_exec 1 = Some th \<and> th_state th = THREAD_READY"
      "\<exists>th. get_thread step_after 1 = Some th"
    by (simp_all add: step_simps)
  ultimately show ?thesis
    using step_initialized step_woken step_worked step_backtracked step_no_conflict
    by (auto simp: take_step_def check_current_action_def Let_def)
qed


end
