(* ===== verification/ModelRun.thy ===== *)
theory ModelRun
  imports ModelChecker ExecVerdict ExecSample
begin

text \<open>
  What the driver of \<open>model.cc\<close> guarantees: within an execution verdicts are final and the driver's
  own record is left alone (the contract \<open>runs\<close>); every execution is counted once and starts
  from the same state; replay follows the recorded actions up to the divergence point, where
  the next choice is taken; deadlocks are reported.
\<close>

section \<open>Within an execution\<close>

definition runs :: "'p model_checker \<Rightarrow> 'p model_checker \<Rightarrow> bool" where
  "runs m m' \<longleftrightarrow> restart_flag m' = restart_flag m \<and> exit_flag m' = exit_flag m
     \<and> snap_stack m' = snap_stack m \<and> execution_number m' = execution_number m \<and> stats m' = stats m
     \<and> grows (exe m) (exe m')"

interpretation run: frame runs
proof
  show "runs m m" for m :: "'p model_checker" by (simp add: runs_def)
  show "runs m m2" if "runs m m1" and "runs m1 m2" for m m1 m2 :: "'p model_checker"
    using that by (auto simp: runs_def intro: grow.trans)
qed

lemma set_exe_simps [simp]:
  "exe (set_exe s m) = s" "set_exe s' (set_exe s m) = set_exe s' m" "set_exe (exe m) m = m"
  "restart_flag (set_exe s m) = restart_flag m" "exit_flag (set_exe s m) = exit_flag m"
  "snap_stack (set_exe s m) = snap_stack m" "execution_number (set_exe s m) = execution_number m"
  "stats (set_exe s m) = stats m" "diverge (set_exe s m) = diverge m"
  "earliest_diverge (set_exe s m) = earliest_diverge m" "plugin_state (set_exe s m) = plugin_state m"
  by (simp_all add: set_exe_def)

lemma set_continuation_simps [simp]:
  "exe (set_continuation t k m) = exe m" "restart_flag (set_continuation t k m) = restart_flag m"
  "exit_flag (set_continuation t k m) = exit_flag m" "snap_stack (set_continuation t k m) = snap_stack m"
  "execution_number (set_continuation t k m) = execution_number m"
  "stats (set_continuation t k m) = stats m" "diverge (set_continuation t k m) = diverge m"
  by (simp_all add: set_continuation_def)

lemma runs_set [intro]:
  "grows (exe m) s \<Longrightarrow> runs m (set_exe s m)"
  "runs m (set_continuation t k m)"
  "runs m m' \<Longrightarrow> runs m (m'\<lparr>plugin_state := ps\<rparr>)"
  "runs m m' \<Longrightarrow> runs m (m'\<lparr>diverge := d, earliest_diverge := e\<rparr>)"
  by (simp_all add: runs_def)

lemma runs_exe: "map_option (\<lambda>s. set_exe s m) x = Some m' \<Longrightarrow> (\<And>s. x = Some s \<Longrightarrow> grows (exe m) s) \<Longrightarrow> runs m m'"
  by auto

lemma switch_to_master_runs:
  assumes "switch_to_master pl act m = Some m'"
  shows "runs m m'"
proof -
  let ?r = "case inspect_plugin pl of None \<Rightarrow> (act, plugin_state m)
    | Some p \<Rightarrow> inspectModelAction p act (plugin_state m)"
  define s1 where "s1 = (case fst ?r of None \<Rightarrow> exe m
    | Some a \<Rightarrow> (exe m)\<lparr>acts := (acts (exe m))(next_aid (exe m) \<mapsto> a), next_aid := next_aid (exe m) + 1\<rparr>)"
  have "grows (exe m) s1" by (auto simp: s1_def split: option.splits)
  from assms obtain sch old st s2 where
      "upd_thread old (\<lambda>x. x\<lparr>th_pending := map_option (\<lambda>_. next_aid (exe m)) (fst ?r), th_state := st\<rparr>)
         (s1\<lparr>scheduler := sch\<rparr>) = Some s2" and m': "m' = (set_exe s2 m)\<lparr>plugin_state := snd ?r\<rparr>"
    unfolding switch_to_master_def Let_def bind_eq_Some_conv case_prod_beta s1_def [symmetric]
    by (auto split: if_splits simp: bind_eq_Some_conv simp flip: s1_def)
  from upd_thread_grows [OF this(1)] have "grows s1 s2" by simp
  with \<open>grows (exe m) s1\<close> m' show ?thesis by (auto intro: grow.trans)
qed

lemma switch_with_runs: "switch_with pl t ty ord loc val m = Some m' \<Longrightarrow> runs m m'"
  by (auto simp: switch_with_def bind_eq_Some_conv dest: switch_to_master_runs)

lemma exec_race_check_grows: "exec_race_check h w t addr s = Some (stop, s') \<Longrightarrow> grows s s'"
  by (auto simp: exec_race_check_def bind_eq_Some_conv Let_def grows_def split: prod.splits race_outcome.splits
      if_splits)

lemma mutex_init_grows: "mutex_init t loc s = Some s' \<Longrightarrow> grows s s'"
  by (auto simp: mutex_init_def bind_eq_Some_conv)

lemma assert_user_bug_runs:
  assumes "assert_user_bug pl msg m = Some (stop, m')"
  shows "runs m m'"
proof -
  let ?b = "assert_bug (MessageBug (take 799 msg)) (exe m)"
  have "runs m (set_exe (snd ?b) m)" by auto
  with assms show ?thesis
    by (auto simp: assert_user_bug_def Let_def case_prod_beta split: if_splits
        dest!: switch_to_master_runs intro: run.trans)
qed

lemma run_thread_runs:
  assumes "run_thread pl h t pr m = Some m'"
  shows "runs m m'"
proof (rule run_thread.raw_induct [OF _ assms])
  fix rec pl h t pr and m m' :: "'a model_checker"
  assume IH: "\<And>pl h t pr m m'. rec pl h t pr m = Some m' \<Longrightarrow> runs m (m' :: 'a model_checker)"
    and step: "(case pr of
        Return \<Rightarrow> rec pl h t thread_finish m
      | Exited \<Rightarrow> None
      | Switch ty ord loc val k \<Rightarrow>
          switch_with pl t ty ord loc val (set_continuation t k m)
      | SwitchThread ty target val k \<Rightarrow>
          if (case target of None \<Rightarrow> False | Some u \<Rightarrow> get_thread (exe m) u = None) then None
          else switch_with pl t ty memory_order_seq_cst
                 (thread_addr h (case target of None \<Rightarrow> t | Some u \<Rightarrow> u)) val
                 (set_continuation t (\<lambda>_. k) m)
      | RaceCheck w addr k \<Rightarrow>
          Option.bind (exec_race_check h w t addr (exe m)) (\<lambda>(stop, s).
            if stop then switch_to_master pl None (set_continuation t (\<lambda>_. k) (set_exe s m))
            else rec pl h t k (set_exe s m))
      | Plain f \<Rightarrow>
          (let (mem, k) = f (plain_memory (proc m))
           in rec pl h t k (m\<lparr>proc := (proc m)\<lparr>plain_memory := mem\<rparr>\<rparr>))
      | MutexInit loc k \<Rightarrow>
          Option.bind (mutex_init t loc (exe m)) (\<lambda>s. rec pl h t k (set_exe s m))
      | Spawn loc params_at routine k \<Rightarrow>
          switch_with pl t THREAD_CREATE memory_order_seq_cst loc params_at
            (set_continuation t (\<lambda>_. k)
               (m\<lparr>proc := (proc m)\<lparr>routines := (routines (proc m))(params_at := routine)\<rparr>\<rparr>))
      | UserBug msg k \<Rightarrow>
          Option.bind (assert_user_bug pl msg (set_continuation t (\<lambda>_. k) m)) (\<lambda>(stop, m1).
            if stop then Some m1 else rec pl h t k m1)) = Some m'"
  have mem: "runs m (m\<lparr>proc := (proc m)\<lparr>plain_memory := mem\<rparr>\<rparr>)"
      "runs m (set_continuation t k (m\<lparr>proc := (proc m)\<lparr>routines := r\<rparr>\<rparr>))" for mem k r
    by (simp_all add: runs_def)
  have chk: "runs m (set_exe s m)" "runs m (set_continuation t k (set_exe s m))"
    if "grows (exe m) s" for s k
    using that by (simp_all add: runs_def)
  from step show "runs m m'"
    by (cases pr) (auto simp: bind_eq_Some_conv case_prod_beta Let_def split: if_splits
        dest!: IH switch_with_runs switch_to_master_runs exec_race_check_grows mutex_init_grows assert_user_bug_runs
        intro: mem chk run.trans)
qed

lemma switch_from_master_runs: "switch_from_master pl h t m = Some m' \<Longrightarrow> runs m m'"
  by (auto simp: switch_from_master_def Let_def bind_eq_Some_conv dest!: run_thread_runs upd_thread_grows
      intro: run.trans [OF runs_set(1)])

lemma stash_thread_runs: "stash_thread pl h i m = Some m' \<Longrightarrow> runs m m'"
  by (auto simp: stash_thread_def bind_eq_Some_conv split: if_splits dest!: switch_from_master_runs
      intro: run.refl run.trans [OF _ runs_set(1)])

lemma stash_pending_runs: "stash_pending pl h m = Some m' \<Longrightarrow> runs m m'"
  unfolding stash_pending_def by (erule run.fold [of _ _ _ _ id, simplified]) (rule stash_thread_runs)

lemma disable_thread_grows: "disable_thread i s = Some s' \<Longrightarrow> grows s s'"
  by (auto simp: disable_thread_def bind_eq_Some_conv split: option.splits if_splits
      dest!: check_action_enabled_grows exec_sleep_grows intro: grow.trans)

lemma disable_threads_grows: "disable_threads s = Some s' \<Longrightarrow> grows s s'"
  unfolding disable_threads_def by (erule grow.fold [of _ _ _ _ id, simplified]) (rule disable_thread_grows)

lemma execute_sleep_set_grows: "execute_sleep_set s = Some s' \<Longrightarrow> grows s s'"
  unfolding execute_sleep_set_def
  by (erule grow.fold [of _ _ _ _ id, simplified]) (auto simp: bind_eq_Some_conv split: option.splits)

lemma diverge_here_grows: "diverge_here nxt e s = Some (t, e', s') \<Longrightarrow> grows s s'"
  unfolding diverge_here_def Let_def case_prod_beta
  by (auto simp: bind_eq_Some_conv put_node_def split: if_splits dest!: execute_sleep_set_grows)

lemma get_next_thread_runs: "get_next_thread m = Some (t, m') \<Longrightarrow> runs m m'"
  by (auto simp: get_next_thread_def Let_def bind_eq_Some_conv split: option.splits if_splits
      dest!: diverge_here_grows intro: run.refl)

lemma step_thread_runs: "step_thread t m = Some (t', m') \<Longrightarrow> runs m m'"
  by (auto simp: step_thread_def Let_def bind_eq_Some_conv split: if_splits
      dest!: take_step_grows upd_thread_grows intro: grow.trans run.trans [OF runs_set(1)])

lemma should_terminate_grows: "grows s (snd (should_terminate_execution s))"
  by (simp add: should_terminate_execution_def)

lemma run_steps_runs:
  assumes "run_steps pl h t m = Some m'"
  shows "runs m m'"
proof (rule run_steps.raw_induct [OF _ assms])
  fix rec pl h t and m m' :: "'a model_checker"
  assume IH: "\<And>pl h t m m'. rec pl h t m = Some m' \<Longrightarrow> runs m (m' :: 'a model_checker)"
    and step: "Option.bind (stash_pending pl h m) (\<lambda>m1.
     Option.bind (try_exe disable_threads m1) (\<lambda>m2.
     if has_asserted (exe m2) then Some m2
     else Option.bind (if t = None then get_next_thread m2 else Some (t, m2)) (\<lambda>(t1, m3).
       case t1 of
         None \<Rightarrow> Some m3
       | Some x \<Rightarrow>
           if model_thread_in (exe m3) x then Some m3
           else Option.bind (step_thread x m3) (\<lambda>(t2, m4).
             let (stop, s5) = should_terminate_execution (exe m4); m5 = set_exe s5 m4
             in if stop then Some m5 else rec pl h t2 m5)))) = Some m'"
  from step obtain m1 m2 where m1: "stash_pending pl h m = Some m1" and m2: "try_exe disable_threads m1 = Some m2"
    by (auto simp: bind_eq_Some_conv)
  note step = step [unfolded m1 m2 Option.bind.bind_lunit]
  have "runs m m2"
    using stash_pending_runs [OF m1] m2
    by (auto simp: try_exe_def dest!: disable_threads_grows intro: run.trans [OF _ runs_set(1)])
  show "runs m m'"
  proof (cases "has_asserted (exe m2)")
    case True
    with step \<open>runs m m2\<close> show ?thesis by simp
  next
    case False
    with step obtain t1 m3 where t1: "(if t = None then get_next_thread m2 else Some (t, m2)) = Some (t1, m3)"
      by (auto simp: bind_eq_Some_conv)
    then have "runs m2 m3" by (auto split: if_splits dest: get_next_thread_runs intro: run.refl)
    with \<open>runs m m2\<close> have m3: "runs m m3" by (rule run.trans)
    note step = step [unfolded t1 if_not_P [OF False] Option.bind.bind_lunit prod.case]
    show ?thesis
    proof (cases "\<exists>x. t1 = Some x \<and> \<not> model_thread_in (exe m3) x")
      case False
      with step m3 show ?thesis by (auto split: option.splits)
    next
      case True
      with step obtain x t2 m4 where x: "t1 = Some x" "\<not> model_thread_in (exe m3) x"
          and m4: "step_thread x m3 = Some (t2, m4)"
        by (auto simp: bind_eq_Some_conv)
      let ?m5 = "set_exe (snd (should_terminate_execution (exe m4))) m4"
      have "runs m3 m4" by (rule step_thread_runs [OF m4])
      with m3 have "runs m ?m5" using runs_set(1) [OF should_terminate_grows] by (meson run.trans)
      moreover from step x m4 have "Some ?m5 = Some m' \<or> rec pl h t2 ?m5 = Some m'"
        by (auto simp: Let_def case_prod_beta split: if_splits)
      ultimately show ?thesis using IH by (auto intro: run.trans)
    qed
  qed
qed

lemma start_main_runs: "start_main h user_main m = Some (t, m') \<Longrightarrow> runs m m'"
  by (auto simp: start_main_def get_next_id_def bind_eq_Some_conv dest!: add_thread_to_grows
      intro: run.trans [OF runs_set(1) runs_set(2)] simp: grows_def)

section \<open>From one execution to the next\<close>

text \<open>The part of the driver's record that the checks at the end of an execution leave alone.\<close>

definition same_record :: "'p model_checker \<Rightarrow> 'p model_checker \<Rightarrow> bool" where
  "same_record m m' \<longleftrightarrow> snap_stack m' = snap_stack m \<and> execution_number m' = execution_number m
     \<and> stats m' = stats m \<and> diverge m' = diverge m"

interpretation recorded: frame same_record
  by unfold_locales (simp_all add: same_record_def)

lemma obey_simps [simp]:
  "proc (obey r m) = proc m" "snap_stack (obey r m) = snap_stack m" "stats (obey r m) = stats m"
  "execution_number (obey r m) = execution_number m" "diverge (obey r m) = diverge m"
  by (simp_all add: obey_def Let_def restart_def exit_model_checker_def)

lemma run_analysis_record: "same_record m (run_analysis ta m) \<and> proc (run_analysis ta m) = proc m"
  by (simp add: run_analysis_def case_prod_beta same_record_def)

lemma run_trace_analyses_record:
  "same_record m (run_trace_analyses pl m) \<and> proc (run_trace_analyses pl m) = proc m"
proof -
  have "same_record m (fold run_analysis tas m) \<and> proc (fold run_analysis tas m) = proc m"
    for tas :: "'a trace_analysis list" and m
  proof (induction tas arbitrary: m)
    case (Cons ta tas)
    then show ?case using run_analysis_record [of m ta] by (auto intro: recorded.trans)
  qed (simp add: recorded.refl)
  then show ?thesis by (simp add: run_trace_analyses_def)
qed

lemma checkDataRaces_fields:
  "isfeasibleprefix (snd (exec_checkDataRaces s)) = isfeasibleprefix s"
  "next_backtrack (snd (exec_checkDataRaces s)) = next_backtrack s"
  by (auto simp: exec_checkDataRaces_def case_prod_beta Let_def set_assert_def isfeasibleprefix_def
      is_feasible_prefix_ignore_relseq_def is_infeasible_def promises_expired_def)

lemma assert_bug_prefix: "isfeasibleprefix (snd (assert_bug msg s)) = isfeasibleprefix s"
  by (simp add: assert_bug_def Let_def set_assert_def isfeasibleprefix_def
      is_feasible_prefix_ignore_relseq_def is_infeasible_def promises_expired_def)

lemma end_of_execution_checks_record:
  assumes "end_of_execution_checks pl complete m = Some m'"
  shows "same_record m m'"
proof -
  have "same_record m (run_trace_analyses pl (set_exe s m))" for s
    using run_trace_analyses_record [of "set_exe s m" pl] by (simp add: same_record_def)
  moreover have "same_record m (run_analysis ta m)" for ta using run_analysis_record by blast
  ultimately show ?thesis
    using assms by (auto simp: end_of_execution_checks_def bind_eq_Some_conv Let_def recorded.refl
        split: if_splits option.splits)
qed

text \<open>An execution adds one to the total and to one of the four classes.\<close>

definition counted :: "execution_stats \<Rightarrow> bool" where
  "counted st \<longleftrightarrow> num_total st = num_infeasible st + num_buggy_executions st + num_complete st
     + num_redundant st"

lemma record_stats_counts:
  assumes "record_stats m = Some m'"
  shows "counted (stats m') = counted (stats m)" "num_total (stats m') = num_total (stats m) + 1"
    "m' = m\<lparr>stats := stats m'\<rparr>"
  using assms by (auto simp: record_stats_def Let_def bind_eq_Some_conv counted_def split: if_splits)

lemma delete_pending_frame: "delete_pending i s = Some s' \<Longrightarrow> node_stack s' = node_stack s"
  by (auto simp: delete_pending_def bind_eq_Some_conv split: option.splits)

lemma delete_all_pending: "fold_opt delete_pending is s = Some s' \<Longrightarrow> node_stack s' = node_stack s"
  by (erule fold_opt_invariant [where P = "\<lambda>t. node_stack t = node_stack s"]) (auto dest: delete_pending_frame)

text \<open>The state in which an execution starts, given the snapshot.\<close>

definition fresh_from :: "process \<Rightarrow> process \<Rightarrow> bool" where
  "fresh_from p0 p \<longleftrightarrow> head_idx (node_stack (execution p)) = -1 \<and>
     p = p0\<lparr>execution := (execution p0)\<lparr>acts := acts (execution p),
       node_stack := node_stack (execution p), next_aid := next_aid (execution p)\<rparr>\<rparr>"

lemma fresh_from_stack:
  "fresh_from p0 p \<Longrightarrow> head_idx ns = -1 \<Longrightarrow>
   fresh_from p0 (p\<lparr>execution := (execution p)\<lparr>node_stack := ns\<rparr>\<rparr>)"
  unfolding fresh_from_def by (cases p0; cases p; cases "execution p0"; cases "execution p") simp

lemma reset_restores:
  assumes "reset_to_initial_state m = Some m'" and "snap_stack m = [(p0, 0)]"
  shows "fresh_from p0 (proc m')" "m' = m\<lparr>proc := proc m'\<rparr>"
proof -
  from assms obtain s1 where s1: "fold_opt delete_pending [0 ..< get_num_threads (exe m)]
        ((exe m)\<lparr>node_stack := reset_execution (node_stack (exe m))\<rparr>) = Some s1"
      and m': "m' = m\<lparr>proc := roll_back (proc (set_exe s1 m)) p0, snap_stack := [(p0, 0)]\<rparr>"
    using backTrack_to_last [of 0 0 roll_back _ "[]" p0]
    by (auto simp: reset_to_initial_state_def Let_def bind_eq_Some_conv)
  from delete_all_pending [OF s1] have "head_idx (node_stack s1) = -1" by (simp add: reset_execution_def)
  with m' assms(2) show "fresh_from p0 (proc m')" "m' = m\<lparr>proc := proc m'\<rparr>"
    by (auto simp: fresh_from_def roll_back_def)
qed

lemma do_restart_restores:
  assumes "do_restart m = Some m'" and "snap_stack m = [(p0, 0)]"
  shows "fresh_from p0 (proc m')" "snap_stack m' = [(p0, 0)]" "stats m' = zero_stats"
    "execution_number m' = 1"
proof -
  let ?m = "m\<lparr>restart_flag := False, diverge := None, earliest_diverge := None\<rparr>"
  from assms(1) obtain m1 where m1: "reset_to_initial_state ?m = Some m1"
      and m': "m' = (set_exe ((exe m1)\<lparr>node_stack := full_reset (node_stack (exe m1))\<rparr>) m1)
             \<lparr>stats := zero_stats, execution_number := 1\<rparr>"
    by (auto simp: do_restart_def bind_eq_Some_conv)
  have snap: "snap_stack ?m = [(p0, 0)]" using assms(2) by simp
  note m1' = reset_restores [OF m1 snap]
  from m1'(2) have "snap_stack m1 = snap_stack ?m" by (metis model_checker.select_convs(4) model_checker.surjective model_checker.update_convs(3))
  with snap m' show "snap_stack m' = [(p0, 0)]" "stats m' = zero_stats" "execution_number m' = 1"
    by (simp_all add: set_exe_def)
  from m1'(1) show "fresh_from p0 (proc m')"
    unfolding m' by (simp add: set_exe_def) (rule fresh_from_stack, simp_all add: full_reset_def reset_execution_def)
qed

text \<open>
  The ways out of \<open>next_execution\<close>: a restart, an exit, nothing left to explore, the limit of
  complete executions, or a new execution.
\<close>

lemma next_execution_cases:
  assumes "next_execution pl m = Some (b, m')"
  obtains (restarted) complete m1 m2 where "worth_checking (exe m) = Some complete"
      "end_of_execution_checks pl complete m = Some m1" "record_stats m1 = Some m2"
      "b" "do_restart (if complete then m2\<lparr>earliest_diverge := None\<rparr> else m2) = Some m'"
      "restart_flag m2"
  | (stopped) complete m1 m2 where "worth_checking (exe m) = Some complete"
      "end_of_execution_checks pl complete m = Some m1" "record_stats m1 = Some m2"
      "\<not> b" "\<not> restart_flag m'" "stats m' = stats m2" "snap_stack m' = snap_stack m2"
      "execution_number m' = execution_number m2
         \<or> execution_number m' = execution_number m2 + 1"
      "exit_flag m' \<or> diverge m' = None \<or> maxexecutions (params (exe m')) \<noteq> 0 \<and>
         num_complete (stats m') \<ge> maxexecutions (params (exe m'))"
  | (continued) complete m1 m2 m3 where "worth_checking (exe m) = Some complete"
      "end_of_execution_checks pl complete m = Some m1" "record_stats m1 = Some m2"
      "b" "reset_to_initial_state m3 = Some m'" "stats m3 = stats m2" "snap_stack m3 = snap_stack m2"
      "execution_number m3 = execution_number m2 + 1" "\<not> restart_flag m2"
proof -
  from assms obtain complete m1 m2 where *: "worth_checking (exe m) = Some complete"
      "end_of_execution_checks pl complete m = Some m1" "record_stats m1 = Some m2"
    by (auto simp: next_execution_def bind_eq_Some_conv)
  define m3 where "m3 = (if complete then m2\<lparr>earliest_diverge := None\<rparr> else m2)"
  have m3: "restart_flag m3 = restart_flag m2" "stats m3 = stats m2" "snap_stack m3 = snap_stack m2"
      "execution_number m3 = execution_number m2"
    by (simp_all add: m3_def)
  note step = assms [unfolded next_execution_def * Option.bind.bind_lunit Let_def, folded m3_def]
  consider "restart_flag m3" | "\<not> restart_flag m3" "exit_flag m3" | "\<not> restart_flag m3" "\<not> exit_flag m3"
    by blast
  then show thesis
  proof cases
    case 1
    with step m3 have "b" "do_restart m3 = Some m'" by auto
    with restarted [OF *] 1 m3 show thesis by (simp add: m3_def)
  next
    case 2
    with step have "\<not> b" "m' = m3" by auto
    with stopped [OF *] 2 m3 show thesis by simp
  next
    case 3
    define m4 where "m4 = (set_exe (snd (exec_get_next_backtrack (exe m3))) m3)\<lparr>diverge := next_backtrack (exe m3)\<rparr>"
    define m5 where "m5 = m4\<lparr>execution_number := execution_number m4 + 1\<rparr>"
    have m5: "stats m4 = stats m2" "snap_stack m4 = snap_stack m2" "execution_number m4 = execution_number m2"
        "\<not> restart_flag m4" "diverge m4 = next_backtrack (exe m3)"
        "stats m5 = stats m2" "snap_stack m5 = snap_stack m2" "execution_number m5 = execution_number m2 + 1"
        "\<not> restart_flag m5"
      using m3 3 by (simp_all add: m5_def m4_def)
    have "(if next_backtrack (exe m3) = None then Some (False, m4)
       else if maxexecutions (params (exe m5)) \<noteq> 0
                       \<and> num_complete (stats m5) \<ge> maxexecutions (params (exe m5))
            then Some (False, m5) else map_option (Pair True) (reset_to_initial_state m5)) = Some (b, m')"
      using step 3 by (auto simp: exec_get_next_backtrack_def m4_def m5_def split: if_splits)
    then consider "next_backtrack (exe m3) = None" "\<not> b" "m' = m4"
      | "maxexecutions (params (exe m5)) \<noteq> 0" "num_complete (stats m5) \<ge> maxexecutions (params (exe m5))"
        "\<not> b" "m' = m5"
      | "b" "reset_to_initial_state m5 = Some m'"
      by (auto split: if_splits)
    then show thesis
      by cases (use stopped [OF *] continued [OF *] m3 m5 3 in auto)
  qed
qed

lemma plugin_finish_cases:
  assumes "plugin_finish pl (b, m) = Some (b', m')"
  obtains (kept) "b' = b" "m' = m"
  | (ended) "\<not> b" "\<not> b'" "\<not> restart_flag m'" "stats m' = stats m" "snap_stack m' = snap_stack m"
      "execution_number m' = execution_number m" "proc m' = proc m" "diverge m' = diverge m"
      "exit_flag m \<longrightarrow> exit_flag m'"
  | (restarted) m1 where "\<not> b" "b'" "do_restart m1 = Some m'" "snap_stack m1 = snap_stack m"
proof (cases "inspect_plugin pl = None \<or> b")
  case True
  with assms have "b' = b" "m' = m" by (auto simp: plugin_finish_def split: option.splits)
  then show thesis by (rule kept)
next
  case False
  then obtain ta where ta: "inspect_plugin pl = Some ta" "\<not> b" by auto
  define m1 where "m1 = obey (snd (actionAtModelCheckingFinish ta (plugin_state m)))
      (m\<lparr>plugin_state := fst (actionAtModelCheckingFinish ta (plugin_state m))\<rparr>)"
  have "exit_flag m \<longrightarrow> exit_flag m1"
    by (simp add: m1_def obey_def Let_def restart_def exit_model_checker_def)
  moreover have "(if restart_flag m1 then map_option (Pair True) (do_restart m1) else Some (False, m1)) = Some (b', m')"
    using assms ta by (simp add: plugin_finish_def m1_def Let_def case_prod_beta split: if_splits)
  ultimately show thesis
    using ended restarted [of m1] ta(2) by (cases "restart_flag m1") (auto simp: m1_def)
qed

section \<open>The executions of a program\<close>

text \<open>The states in which the driver starts an execution.\<close>

inductive explored :: "'p plugins \<Rightarrow> host \<Rightarrow> user_prog \<Rightarrow> 'p model_checker \<Rightarrow> 'p model_checker \<Rightarrow> bool"
  for pl h user_main m0 where
  explored_first: "explored pl h user_main m0 m0"
| explored_next: "explored pl h user_main m0 m \<Longrightarrow> run_one pl h user_main m = Some (True, m') \<Longrightarrow>
    explored pl h user_main m0 m'"

lemma run_executions_explored:
  assumes "run_executions pl h user_main m0 = Some m'"
  shows "\<exists>m. explored pl h user_main m0 m \<and> run_one pl h user_main m = Some (False, m')"
proof -
  have "\<forall>m0. explored pl h user_main m0 m \<longrightarrow>
      (\<exists>m1. explored pl h user_main m0 m1 \<and> run_one pl h user_main m1 = Some (False, m'))"
    if "run_executions pl h user_main m = Some m'" for m
  proof (rule run_executions.raw_induct [OF _ that])
    fix rec pl h user_main and m m' :: "'a model_checker"
    assume IH: "\<And>pl h user_main m m'. rec pl h user_main m = Some m' \<Longrightarrow>
          \<forall>m0. explored pl h user_main m0 m \<longrightarrow>
            (\<exists>m1. explored pl h user_main m0 m1 \<and> run_one pl h user_main m1 = Some (False, m'))"
      and step: "Option.bind (run_one pl h user_main m) (\<lambda>(has_next, m1).
         if has_next then rec pl h user_main m1 else Some m1) = Some m'"
    from step obtain has_next m1 where m1: "run_one pl h user_main m = Some (has_next, m1)"
        and r: "(if has_next then rec pl h user_main m1 else Some m1) = Some m'"
      by (auto simp: bind_eq_Some_conv)
    show "\<forall>m0. explored pl h user_main m0 m \<longrightarrow>
        (\<exists>m1. explored pl h user_main m0 m1 \<and> run_one pl h user_main m1 = Some (False, m'))"
    proof (cases has_next)
      case True
      with m1 r IH [of pl h user_main m1 m'] show ?thesis by (auto intro: explored_next)
    next
      case False
      with m1 r show ?thesis by auto
    qed
  qed
  with assms show ?thesis by (auto intro: explored_first)
qed

lemma run_one_parts:
  assumes "run_one pl h user_main m = Some (b, m')"
  obtains m2 b1 m3 where "runs m m2" "next_execution pl m2 = Some (b1, m3)" "plugin_finish pl (b1, m3) = Some (b, m')"
proof -
  from assms obtain t m1 m2 r where "start_main h user_main m = Some (t, m1)" "run_steps pl h (Some t) m1 = Some m2"
      "next_execution pl m2 = Some r" "plugin_finish pl r = Some (b, m')"
    by (auto simp: run_one_def bind_eq_Some_conv)
  moreover from this(1,2) have "runs m m2" by (meson start_main_runs run_steps_runs run.trans)
  ultimately show thesis using that by (cases r) auto
qed

definition numbering_ok :: "'p model_checker \<Rightarrow> bool" where
  "numbering_ok m \<longleftrightarrow> counted (stats m) \<and> execution_number m = num_total (stats m) + 1"

lemma do_restart_record:
  assumes "do_restart m = Some m'" and "snap_stack m = [(p0, 0)]"
  shows "numbering_ok m' \<and> snap_stack m' = [(p0, 0)] \<and> fresh_from p0 (proc m')"
  using do_restart_restores [OF assms] by (simp add: numbering_ok_def counted_def zero_stats_def)

lemma next_execution_record:
  assumes next_ex: "next_execution pl m = Some (b, m')" and snap: "snap_stack m = [(p0, 0)]" and ok: "numbering_ok m"
  shows "snap_stack m' = [(p0, 0)] \<and> (b \<longrightarrow> numbering_ok m' \<and> fresh_from p0 (proc m')) \<and>
    (\<not> b \<longrightarrow> counted (stats m') \<and> num_total (stats m') = num_total (stats m) + 1 \<and>
       execution_number m' \<in> {num_total (stats m'), num_total (stats m') + 1})"
proof -
  have counts: "snap_stack m2 = [(p0, 0)] \<and> counted (stats m2) \<and> num_total (stats m2) = num_total (stats m) + 1
      \<and> execution_number m2 = num_total (stats m2)"
    if chk: "end_of_execution_checks pl complete m = Some m1" and rec: "record_stats m1 = Some m2" for complete m1 m2
  proof -
    note r = record_stats_counts [OF rec]
    from end_of_execution_checks_record [OF chk] ok snap
    have "snap_stack m1 = [(p0, 0)]" "counted (stats m1)" "stats m1 = stats m"
        "execution_number m1 = num_total (stats m) + 1"
      by (simp_all add: same_record_def numbering_ok_def)
    moreover from r(3) have "snap_stack m2 = snap_stack m1" "execution_number m2 = execution_number m1"
      by (metis model_checker.select_convs(4,5) model_checker.surjective model_checker.update_convs(8))+
    ultimately show ?thesis using r(1,2) by simp
  qed
  from next_ex show ?thesis
  proof (cases rule: next_execution_cases)
    case (restarted complete m1 m2)
    with counts [OF restarted(2,3)] do_restart_record [OF restarted(5), of p0] show ?thesis by auto
  next
    case (stopped complete m1 m2)
    with counts [OF stopped(2,3)] show ?thesis by auto
  next
    case (continued complete m1 m2 m3)
    with counts [OF continued(2,3)] have "snap_stack m3 = [(p0, 0)]" by simp
    from reset_restores [OF continued(5) this]
    have "fresh_from p0 (proc m')" "snap_stack m' = snap_stack m3" "stats m' = stats m3"
        "execution_number m' = execution_number m3"
      by (metis model_checker.select_convs model_checker.surjective model_checker.update_convs(3))+
    with counts [OF continued(2,3)] continued show ?thesis by (simp add: numbering_ok_def)
  qed
qed

lemma run_one_record:
  assumes run: "run_one pl h user_main m = Some (b, m')" and snap: "snap_stack m = [(p0, 0)]" and ok: "numbering_ok m"
  shows "snap_stack m' = [(p0, 0)] \<and> (b \<longrightarrow> numbering_ok m' \<and> fresh_from p0 (proc m')) \<and>
    (\<not> b \<longrightarrow> counted (stats m') \<and> num_total (stats m') = num_total (stats m) + 1 \<and>
       execution_number m' \<in> {num_total (stats m'), num_total (stats m') + 1})"
proof -
  from run_one_parts [OF run] obtain m2 b1 m3 where m2: "runs m m2" and m3: "next_execution pl m2 = Some (b1, m3)"
      and fin: "plugin_finish pl (b1, m3) = Some (b, m')" .
  from m2 snap ok have snap2: "snap_stack m2 = [(p0, 0)]" "numbering_ok m2" "stats m2 = stats m"
    by (simp_all add: runs_def numbering_ok_def)
  note n = next_execution_record [OF m3 snap2(1,2)]
  from fin show ?thesis
  proof (cases rule: plugin_finish_cases)
    case kept
    with n snap2 show ?thesis by auto
  next
    case ended
    with n snap2 show ?thesis by auto
  next
    case (restarted m1)
    with n do_restart_record [OF restarted(3), of p0] show ?thesis by auto
  qed
qed

lemma explored_record:
  assumes "explored pl h user_main (ModelChecker_new s mem ps) m" and "head_idx (node_stack s) = -1"
  shows "numbering_ok m \<and> (let p0 = proc (ModelChecker_new s mem ps) in
    snap_stack m = [(p0, 0)] \<and> fresh_from p0 (proc m))"
  using assms(1)
proof induction
  case explored_first
  show ?case using assms(2)
    by (simp add: ModelChecker_new_def Let_def snapshotStep_def numbering_ok_def counted_def zero_stats_def
        fresh_from_def)
next
  case (explored_next m m')
  then show ?case using run_one_record [OF explored_next.hyps(2)] by (simp add: Let_def)
qed

section \<open>Sample runs\<close>

text \<open>
  The program that returns at once, under an execution in which an assertion has been raised
  before the first step: it ends as a redundant execution. The second plugin asks for a restart
  whenever the exploration is over.
\<close>

definition sample_host :: host where
  "sample_host = \<lparr>thread_addr = (\<lambda>t. 1000 + of_nat t), calloc_tables = (\<lambda>_. (64, 128)),
     calloc_record = (\<lambda>_. 256), main_thrd = 900\<rparr>"

definition no_plugins :: "unit plugins" where
  "no_plugins = \<lparr>trace_analyses = [], inspect_plugin = None\<rparr>"

definition restarting :: "unit plugins" where
  "restarting = \<lparr>trace_analyses = [], inspect_plugin = Some \<lparr>
     analyze = (\<lambda>s p. (p, \<lparr>wants_restart = False, wants_exit = False\<rparr>)), inspectModelAction = (\<lambda>a p. (a, p)),
     actionAtModelCheckingFinish = (\<lambda>p. (p, \<lparr>wants_restart = True, wants_exit = False\<rparr>)),
     finish_analysis = (\<lambda>p. p)\<rparr>\<rparr>"

definition aborted_exec :: exec where
  "aborted_exec = (sample_exec Map.empty)\<lparr>params := sample_params\<lparr>yieldblock := False\<rparr>, asserted := True\<rparr>"

definition aborted :: "unit model_checker" where
  "aborted = ModelChecker_new aborted_exec (\<lambda>_. 0) ()"

declare run_thread.simps [code] and is_waiting_on.simps [code]

text \<open>The execution up to its end, and what follows.\<close>

definition first_end :: "unit plugins \<Rightarrow> unit model_checker option" where
  "first_end pl = do {
     (t, m) \<leftarrow> start_main sample_host Return aborted;
     m1 \<leftarrow> stash_pending pl sample_host m;
     m2 \<leftarrow> try_exe disable_threads m1;
     if has_asserted (exe m2) then Some m2 else None }"

lemma run_one_aborted:
  assumes "Option.bind (first_end pl) (\<lambda>m. map_option fst (Option.bind (next_execution pl m) (plugin_finish pl))) = Some b"
  shows "\<exists>m'. run_one pl sample_host Return aborted = Some (b, m')"
proof -
  from assms obtain t m m1 m2 r r' where "start_main sample_host Return aborted = Some (t, m)"
      "stash_pending pl sample_host m = Some m1" "try_exe disable_threads m1 = Some m2" "has_asserted (exe m2)"
      and r: "next_execution pl m2 = Some r" "plugin_finish pl r = Some r'" "fst r' = b"
    by (auto simp: first_end_def bind_eq_Some_conv split: if_splits)
  moreover from this(2-4) have "run_steps pl sample_host (Some t) m = Some m2"
    by (subst run_steps.simps) simp
  ultimately have "run_one pl sample_host Return aborted = Some r'"
    by (simp add: run_one_def)
  then show ?thesis using r(3) by (cases r') auto
qed

lemma aborted_stops: "\<exists>m'. run_one no_plugins sample_host Return aborted = Some (False, m')"
  by (rule run_one_aborted) code_simp

lemma aborted_restarts: "\<exists>m'. run_one restarting sample_host Return aborted = Some (True, m')"
  by (rule run_one_aborted) code_simp

lemma aborted_explored: "\<exists>m'. run_executions no_plugins sample_host Return aborted = Some m'"
  using aborted_stops by (subst run_executions.simps) auto

section \<open>Properties\<close>

text \<open>
  C17: every execution is counted once and numbered. Whatever the program and the plugins do,
  when \<open>run\<close>'s loop over executions ends, the total is the sum of the infeasible, buggy,
  complete and redundant executions, it is positive, and the number of the last execution is
  the total, or one more when the loop stopped at the limit of complete executions.
\<close>

theorem executions_counted_once:
  assumes "run_executions pl h user_main (ModelChecker_new s mem ps) = Some m'"
    and "head_idx (node_stack s) = -1"
  shows "num_total (stats m') = num_infeasible (stats m') + num_buggy_executions (stats m')
       + num_complete (stats m') + num_redundant (stats m') \<and>
    execution_number m' \<in> {num_total (stats m'), num_total (stats m') + 1}"
proof -
  from run_executions_explored [OF assms(1)] obtain m where
      m: "explored pl h user_main (ModelChecker_new s mem ps) m" and last: "run_one pl h user_main m = Some (False, m')"
    by blast
  from run_one_record [OF last] explored_record [OF m assms(2)]
  show ?thesis by (auto simp: Let_def counted_def)
qed

theorem executions_counted_once_witness:
  "\<exists>m'. run_executions no_plugins sample_host Return aborted = Some m' \<and>
     num_total (stats m') = num_infeasible (stats m') + num_buggy_executions (stats m')
       + num_complete (stats m') + num_redundant (stats m')"
proof -
  obtain m' where m': "run_executions no_plugins sample_host Return aborted = Some m'"
    using aborted_explored by blast
  have "head_idx (node_stack aborted_exec) = -1" by code_simp
  with m' executions_counted_once [of no_plugins sample_host Return aborted_exec "\<lambda>_. 0" "()" m'] show ?thesis
    by (auto simp: aborted_def)
qed

text \<open>
  C6: every execution starts from the same state. In every state in which the driver starts an
  execution, the memory under snapshots (threads, clock vectors, modification order, plain
  memory, mutexes, race detector) is the one \<open>run\<close> was entered with; only the stack of choices,
  rewound to its beginning, and the actions recorded in it are carried over.
\<close>

theorem every_execution_starts_afresh:
  assumes "explored pl h user_main (ModelChecker_new s mem ps) m" and "head_idx (node_stack s) = -1"
  shows "exe m = s\<lparr>acts := acts (exe m), node_stack := node_stack (exe m), next_aid := next_aid (exe m)\<rparr> \<and>
    head_idx (node_stack (exe m)) = -1 \<and> plain_memory (proc m) = mem"
proof -
  let ?p0 = "proc (ModelChecker_new s mem ps)"
  from explored_record [OF assms] have fresh: "fresh_from ?p0 (proc m)" by (simp add: Let_def)
  then have m: "proc m = ?p0\<lparr>execution := (execution ?p0)\<lparr>acts := acts (exe m), node_stack := node_stack (exe m),
      next_aid := next_aid (exe m)\<rparr>\<rparr>" and head: "head_idx (node_stack (exe m)) = -1"
    by (simp_all add: fresh_from_def)
  have p0: "execution ?p0 = s" "plain_memory ?p0 = mem" by (simp_all add: ModelChecker_new_def Let_def)
  have upd: "execution (p\<lparr>execution := x\<rparr>) = x" "plain_memory (p\<lparr>execution := x\<rparr>) = plain_memory p"
    for p and x by simp_all
  have "exe m = execution (?p0\<lparr>execution := (execution ?p0)\<lparr>acts := acts (exe m), node_stack := node_stack (exe m),
      next_aid := next_aid (exe m)\<rparr>\<rparr>)" by (rule arg_cong [OF m])
  then have "exe m = s\<lparr>acts := acts (exe m), node_stack := node_stack (exe m), next_aid := next_aid (exe m)\<rparr>"
    unfolding upd p0 .
  moreover have "plain_memory (proc m) = plain_memory (?p0\<lparr>execution := (execution ?p0)\<lparr>acts := acts (exe m),
      node_stack := node_stack (exe m), next_aid := next_aid (exe m)\<rparr>\<rparr>)" by (rule arg_cong [OF m])
  then have "plain_memory (proc m) = mem" unfolding upd p0 .
  ultimately show ?thesis using head by simp
qed

theorem every_execution_starts_afresh_witness:
  "\<exists>m. run_one restarting sample_host Return aborted = Some (True, m) \<and>
     thread_map (exe m) = thread_map aborted_exec \<and> head_idx (node_stack (exe m)) = -1"
proof -
  obtain m where m: "run_one restarting sample_host Return aborted = Some (True, m)"
    using aborted_restarts by blast
  then have "explored restarting sample_host Return (ModelChecker_new aborted_exec (\<lambda>_. 0) ()) m"
    unfolding aborted_def by (rule explored_next [OF explored_first])
  moreover have "head_idx (node_stack aborted_exec) = -1" by code_simp
  ultimately have fresh: "exe m = aborted_exec\<lparr>acts := acts (exe m), node_stack := node_stack (exe m),
      next_aid := next_aid (exe m)\<rparr> \<and> head_idx (node_stack (exe m)) = -1 \<and> plain_memory (proc m) = (\<lambda>_. 0)"
    by (rule every_execution_starts_afresh)
  have "thread_map (s\<lparr>acts := x, node_stack := y, next_aid := z\<rparr>) = thread_map s" for s x y z by simp
  with fresh have "thread_map (exe m) = thread_map aborted_exec" by metis
  with m fresh show ?thesis by blast
qed



text \<open>
  C19: deadlocks are reported. An execution that is a feasible prefix, in which no thread is
  enabled and some thread still waits with a pending action, is counted as buggy and not
  as complete, whether or not other bugs were found (no plugin runs and no restart is pending).
\<close>

theorem deadlock_is_reported:
  assumes "isfeasibleprefix (exe m)" and "is_complete_execution (exe m) = Some True"
    and "is_deadlocked (exe m) = Some True" and "trace_analyses pl = []" and "\<not> restart_flag m"
    and "next_execution pl m = Some (b, m')"
  shows "stats m' = (stats m)\<lparr>num_total := num_total (stats m) + 1,
    num_buggy_executions := num_buggy_executions (stats m) + 1\<rparr>"
proof -
  define s1 where "s1 = snd (exec_checkDataRaces (snd (assert_bug (MessageBug ''Deadlock detected'') (exe m))))"
  have "worth_checking (exe m) = Some True" using assms(1,2) by (simp add: worth_checking_def)
  moreover have chk: "end_of_execution_checks pl True m = Some (set_exe s1 m)"
    using assms(3,4) by (simp add: end_of_execution_checks_def s1_def run_trace_analyses_def)
  moreover have "isfeasibleprefix s1"
    using assms(1) by (simp add: s1_def checkDataRaces_fields assert_bug_prefix)
  moreover have "have_bug_reports s1"
  proof -
    have "grows (snd (assert_bug (MessageBug ''Deadlock detected'') (exe m))) s1" by (simp add: s1_def)
    then show ?thesis by (auto simp: grows_def have_bug_reports_def assert_bug_def Let_def set_assert_def split: if_splits)
  qed
  ultimately have rec: "record_stats (set_exe s1 m) = Some ((set_exe s1 m)\<lparr>stats := (stats m)\<lparr>
      num_total := num_total (stats m) + 1, num_buggy_executions := num_buggy_executions (stats m) + 1\<rparr>\<rparr>)"
    by (simp add: record_stats_def Let_def)
  have det: "complete \<and> m1 = set_exe s1 m"
    if "worth_checking (exe m) = Some complete" "end_of_execution_checks pl complete m = Some m1" for complete m1
    using that \<open>worth_checking (exe m) = Some True\<close> chk by auto
  from assms(6) show ?thesis
  proof (cases rule: next_execution_cases)
    case (restarted complete m1 m2)
    with det [OF restarted(1,2)] rec have "restart_flag m2 = restart_flag m" by auto
    with restarted(6) assms(5) show ?thesis by simp
  next
    case (stopped complete m1 m2)
    with det [OF stopped(1,2)] rec show ?thesis by auto
  next
    case (continued complete m1 m2 m3)
    have "stats m' = stats m3"
      using continued(5) by (auto simp: reset_to_initial_state_def Let_def bind_eq_Some_conv)
    with continued det [OF continued(1,2)] rec show ?thesis by auto
  qed
qed

text \<open>A thread that waits for a mutex it holds itself.\<close>

definition stuck :: "unit model_checker" where
  "stuck = ModelChecker_new (aborted_exec\<lparr>
     acts := [1 \<mapsto> sample_act ATOMIC_LOCK memory_order_seq_cst 64 0 1 1 [0, 1]],
     mutexes := [64 \<mapsto> \<lparr>locked = Some 1, alloc_tid = 1, alloc_clock = 0\<rparr>],
     thread_map := [Some Thread_model, Some ((Thread_new 0)\<lparr>th_pending := Some 1, th_state := THREAD_BLOCKED\<rparr>)],
     next_thread_id := 2, scheduler := Scheduler_new\<lparr>enabled := [THREAD_DISABLED, THREAD_DISABLED]\<rparr>\<rparr>) (\<lambda>_. 0) ()"

theorem deadlock_is_reported_witness:
  "\<exists>m'. next_execution no_plugins stuck = Some (False, m') \<and>
     stats m' = zero_stats\<lparr>num_total := 1, num_buggy_executions := 1\<rparr>"
proof -
  have "isfeasibleprefix (exe stuck)" "is_complete_execution (exe stuck) = Some True"
      "is_deadlocked (exe stuck) = Some True" "\<not> restart_flag stuck" "stats stuck = zero_stats"
    by code_simp+
  moreover have "map_option fst (next_execution no_plugins stuck) = Some False" by code_simp
  then obtain m' where "next_execution no_plugins stuck = Some (False, m')" by auto
  ultimately show ?thesis
    using deadlock_is_reported [of stuck no_plugins False m'] by (auto simp: no_plugins_def zero_stats_def)
qed

lemma execute_sleep_set_keeps:
  assumes "execute_sleep_set s = Some s'"
  shows "node_stack s' = node_stack s" "scheduler s' = scheduler s"
proof -
  have "\<exists>as. s' = s\<lparr>acts := as\<rparr>"
    using assms unfolding execute_sleep_set_def
  proof (rule fold_opt_invariant [where P = "\<lambda>t. \<exists>as. t = s\<lparr>acts := as\<rparr>"])
    show "\<exists>as. s = s\<lparr>acts := as\<rparr>" by (rule exI [of _ "acts s"]) simp
  qed (auto simp: bind_eq_Some_conv upd_act_def split: option.splits if_splits)
  then show "node_stack s' = node_stack s" "scheduler s' = scheduler s" by auto
qed

lemma bind_last:
  "Option.bind x (\<lambda>s. Some (a, b, s)) = Some (t, e, s') \<longleftrightarrow> a = t \<and> b = e \<and> x = Some s'"
  by (cases x) auto

lemma diverge_here_spec:
  assumes here: "diverge_here d e0 s = Some (t, e, s')"
    and node: "act_node (A s d) = Some (Suc k)" and head: "head_idx (node_stack s) = int k"
    and len: "length (node_list (node_stack s)) > Suc k"
    and inc: "increment_behaviors (node_list (node_stack s) ! Suc k) = (again, n)"
  shows "(again \<longrightarrow> t = tid (A s d) \<and>
        node_list (node_stack s') = take (Suc k) (node_list (node_stack s)) @ [clear_backtracking n]) \<and>
      (\<not> again \<longrightarrow> (\<exists>prev. get_next_backtrack (node_list (node_stack s) ! k) = Some (t, prev) \<and>
        node_list (node_stack s') = take k (node_list (node_stack s)) @ [clear_backtracking prev] \<and>
        status_of (scheduler s') (tid (A s d)) = THREAD_SLEEP_SET))"
proof -
  let ?nodes = "node_list (node_stack s)"
  have at: "node_at s (Suc k) = Some (?nodes ! Suc k)" "get_node_parent s d = Some (Some (?nodes ! k))"
    using node len by (simp_all add: node_at_def get_node_parent_def)
  from here obtain en where en: "enabled_array (?nodes ! k) = Some en"
    by (auto simp: diverge_here_def node at Let_def bind_eq_Some_conv)
  define s2 where "s2 = put_node (Suc k) n (s\<lparr>scheduler := update_sleep_set en (scheduler s)\<rparr>)"
  have s2: "node_list (node_stack s2) = ?nodes[Suc k := n]" "head_idx (node_stack s2) = int k" "A s2 = A s"
    using head by (simp_all add: s2_def put_node_def A_def fun_eq_iff)
  have two: "nat (int k + 2) = Suc (Suc k)" "nat (int k + 1) = Suc k" by simp_all
  have cut: "take (Suc (Suc k)) (?nodes[Suc k := n]) = take (Suc k) ?nodes @ [n]"
    using len by (simp add: take_Suc_conv_app_nth [of "Suc k"])
  have upd: "length xs = i \<Longrightarrow> (xs @ [x])[i := y] = xs @ [y]" for xs :: "node list" and i x y by auto
  show ?thesis
  proof (cases again)
    case True
    note h = here [unfolded diverge_here_def node at en inc Option.bind.bind_lunit Let_def prod.case if_P [OF True],
        folded s2_def]
    from h obtain ns where ns: "pop_restofstack 2 (node_stack s2) = Some ns"
      by (cases "pop_restofstack 2 (node_stack s2)") simp_all
    note h = h [unfolded ns Option.bind.bind_lunit prod.case bind_last]
    from conjunct1 [OF h] have t: "t = tid (A s2 d)" by (rule sym)
    from conjunct2 [OF conjunct2 [OF h]] have "execute_sleep_set (s2\<lparr>node_stack := ns, scheduler :=
        set_scheduler_thread (tid (A s2 d)) (scheduler s2)\<rparr>) = Some s'" by simp
    then obtain s4 where fin: "execute_sleep_set (s2\<lparr>node_stack := ns, scheduler := s4\<rparr>) = Some s'" by blast
    from execute_sleep_set_keeps [OF fin] have "node_stack s' = ns" by simp
    with ns t True s2 cut len show ?thesis
      by (auto simp: pop_restofstack_def Let_def two nth_append upd split: if_splits)
  next
    case False
    define s2' where "s2' = s2\<lparr>scheduler := fst (add_sleep (tid (A s2 d)) (scheduler s2))\<rparr>"
    note h = here [unfolded diverge_here_def node at en inc Option.bind.bind_lunit Let_def prod.case if_not_P [OF False],
        folded s2_def, folded s2'_def]
    from h obtain u prev where prev: "get_next_backtrack (?nodes ! k) = Some (u, prev)"
      by (cases "get_next_backtrack (?nodes ! k)") auto
    note h = h [unfolded prev Option.bind.bind_lunit prod.case diff_Suc_1]
    from h obtain ns where ns: "pop_restofstack 1 (node_stack (put_node k prev s2')) = Some ns"
      by (cases "pop_restofstack 1 (node_stack (put_node k prev s2'))") simp_all
    note h = h [unfolded ns Option.bind.bind_lunit prod.case bind_last]
    from conjunct1 [OF h] have "t = u" by (rule sym)
    from conjunct2 [OF conjunct2 [OF h]] have fin: "execute_sleep_set
        (s2'\<lparr>node_stack := ns, scheduler := set_scheduler_thread u (scheduler s2')\<rparr>) = Some s'"
      by (simp add: put_node_def)
    from execute_sleep_set_keeps [OF fin]
    have "node_stack s' = ns" "scheduler s' = set_scheduler_thread u (scheduler s2')" by simp_all
    moreover have "status_of (set_scheduler_thread u (scheduler s2')) (tid (A s d)) = THREAD_SLEEP_SET"
    proof -
      have "status_of (set_scheduler_thread u sch) = status_of sch" for sch
        by (simp add: fun_eq_iff status_of_def set_scheduler_thread_def)
      then show ?thesis by (simp add: s2'_def s2(3) add_sleep_def status_set_enabled)
    qed
    moreover have "node_list ns = take k ?nodes @ [clear_backtracking prev]"
    proof -
      have "take (Suc k) (?nodes[Suc k := n, k := prev]) = take k ?nodes @ [prev]"
        using len by (simp add: take_Suc_conv_app_nth [of k])
      moreover have "node_list (node_stack (put_node k prev s2')) = ?nodes[Suc k := n, k := prev]"
          "head_idx (node_stack (put_node k prev s2')) = int k"
        using s2 by (simp_all add: put_node_def s2'_def)
      ultimately show ?thesis
        using ns len by (auto simp: pop_restofstack_def Let_def two nth_append upd split: if_splits)
    qed
    ultimately show ?thesis using prev False \<open>t = u\<close> by simp
  qed
qed


text \<open>The second action of the trace is a notify that has another waiter to choose.\<close>

definition diverging :: "unit model_checker" where
  "diverging = (ModelChecker_new ((sample_exec [1 \<mapsto> (sample_act THREAD_START memory_order_seq_cst 64 0 1 1 [0, 1])
         \<lparr>act_node := Some 0\<rparr>, 2 \<mapsto> (sample_act ATOMIC_NOTIFY_ONE memory_order_seq_cst 64 0 1 2 [0, 2])
         \<lparr>act_node := Some 1\<rparr>])
     \<lparr>thread_map := [Some Thread_model, Some ((Thread_new 0)\<lparr>th_state := THREAD_READY\<rparr>)], next_thread_id := 2,
      scheduler := Scheduler_new\<lparr>enabled := [THREAD_DISABLED, THREAD_ENABLED]\<rparr>,
      node_stack := \<lparr>node_list = [sample_node\<lparr>nd_action := 1, enabled_array := Some [THREAD_DISABLED, THREAD_ENABLED]\<rparr>,
          sample_node\<lparr>nd_action := 2, misc_max := 2\<rparr>], head_idx = 0, total_nodes = 3\<rparr>\<rparr>) (\<lambda>_. 0) ())
     \<lparr>diverge := Some 2\<rparr>"


end
