(* ===== verification/SCGen.thy ===== *)
theory SCGen
  imports ExecState
begin

text \<open>
  \<open>scfence/scgen.cc\<close>: the generator that tries to arrange the actions of an execution in one
  sequentially consistent order. It keeps a clock vector of its own per action, adds the edges a
  sequentially consistent order would need (\<open>computeCV\<close>, \<open>updateConstraints\<close>), and then takes
  actions off the front of the threads' lists one at a time (\<open>generateSC\<close>), going back to the
  last choice when the edges turn out to be cyclic. \<open>check_rf\<close> decides whether the list it gets
  is sequentially consistent.

  Clock vectors are reached through \<open>cvmap\<close> only, so changing the object a pointer leads to is
  changing the entry of its action. Loops that need not end are \<open>partial_function (option)\<close>;
  a failed \<open>ASSERT\<close>, a null pointer that is followed and an index out of range are \<open>None\<close>. The
  execution is only read. Printing and the clock of the host are left out.
\<close>

section \<open>State\<close>

text \<open>
  The generator was written from the analysis of \<open>scanalysis.cc\<close> (theory \<open>SCAnalysis\<close>); the members
  both classes have are in \<open>sc_base\<close>, and what is the same code in both is defined on it.
\<close>

record sc_base =
  cvmap :: "aid \<rightharpoonup> clock_vector"
  cyclic :: bool
  fastVersion :: bool
  allowNonSC :: bool
  maxthreads :: nat
  threadlists :: "aid list list"
  badrfset :: "aid \<rightharpoonup> aid option"
  lastwrmap :: "uint64 \<rightharpoonup> aid"
  print_always :: bool
  print_buggy :: bool
  print_nonsc :: bool

record sc_gen = sc_base +
  dup_threadlists :: "aid list list"
  hasBadRF :: bool
  annotatedReadSet :: "aid \<rightharpoonup> aid"
  annotatedReadSetSize :: nat
  annotationMode :: bool
  annotationError :: bool
  sccount :: "32 word"
  nonsccount :: "32 word"
  stat_actions :: uint64

text \<open>
  The constructor leaves \<open>fastVersion\<close>, \<open>allowNonSC\<close>, \<open>maxthreads\<close>, \<open>hasBadRF\<close>,
  \<open>annotatedReadSetSize\<close>, \<open>annotationError\<close> and the statistics as the memory was (\<open>junk\<close>).
\<close>

definition SCGenerator_new :: "sc_gen \<Rightarrow> sc_gen" where
  "SCGenerator_new junk = junk\<lparr>cvmap := Map.empty, cyclic := False, badrfset := Map.empty,
     lastwrmap := Map.empty, threadlists := [[]], dup_threadlists := [[]],
     print_always := False, print_buggy := False, print_nonsc := False,
     annotatedReadSet := Map.empty, annotationMode := False\<rparr>"

definition getCyclic :: "sc_gen \<Rightarrow> bool" where
  "getCyclic s \<longleftrightarrow> cyclic s \<or> hasBadRF s"

definition setAnnotationMode :: "bool \<Rightarrow> sc_gen \<Rightarrow> sc_gen" where
  "setAnnotationMode val s = s\<lparr>annotationMode := val\<rparr>"
definition setPrintAlways :: "bool \<Rightarrow> sc_gen \<Rightarrow> sc_gen" where
  "setPrintAlways val s = s\<lparr>print_always := val\<rparr>"
definition setPrintBuggy :: "bool \<Rightarrow> sc_gen \<Rightarrow> sc_gen" where
  "setPrintBuggy val s = s\<lparr>print_buggy := val\<rparr>"
definition setPrintNonSC :: "bool \<Rightarrow> sc_gen \<Rightarrow> sc_gen" where
  "setPrintNonSC val s = s\<lparr>print_nonsc := val\<rparr>"

section \<open>Building the lists\<close>

text \<open>One turn of \<open>buildVectors\<close>, on the vector of lists and its highest thread id.\<close>

definition build_step ::
  "exec \<Rightarrow> aid \<Rightarrow> nat \<times> aid list list \<Rightarrow> (nat \<times> aid list list) option" where
  "build_step e act = (\<lambda>(maxthread, threadlist).
     let threadid = tid (A e act);
         (maxthread, threadlist) =
           (if threadid > maxthread then (threadid, vec_resize threadlist (threadid + 1) [])
            else (maxthread, threadlist))
     in if threadid < length threadlist
        then Some (maxthread, threadlist[threadid := threadlist ! threadid @ [act]])
        else None)"

definition buildVectors ::
  "exec \<Rightarrow> aid list \<Rightarrow> aid list list \<Rightarrow> (nat \<times> aid list list) option" where
  "buildVectors e l threadlist = fold_opt (build_step e) l (0, threadlist)"

definition build_threadlists :: "exec \<Rightarrow> aid list \<Rightarrow> sc_gen \<Rightarrow> sc_gen option" where
  "build_threadlists e l s = do {
     (m, tl) \<leftarrow> buildVectors e l (threadlists s);
     Some (s\<lparr>maxthreads := m, threadlists := tl\<rparr>)
   }"

definition sc_reset :: "aid list \<Rightarrow> 'a sc_base_scheme \<Rightarrow> 'a sc_base_scheme" where
  "sc_reset l s = s\<lparr>
     threadlists := map (\<lambda>t. if t \<le> maxthreads s then [] else threadlists s ! t) [0 ..< length (threadlists s)],
     cvmap := (\<lambda>a. if a \<in> set l then None else cvmap s a),
     cyclic := False\<rparr>"

section \<open>Edges\<close>

definition cv_since :: "exec \<Rightarrow> clock_vector \<Rightarrow> aid \<Rightarrow> bool" where
  "cv_since e c a = synchronized_since c (tid (A e a)) (seq_number (A e a))"

text \<open>\<open>merge(cv, act, act2)\<close>, where \<open>cv\<close> is always the clock vector of \<open>act\<close>.\<close>

definition merge_into :: "aid \<Rightarrow> clock_vector \<Rightarrow> 'a sc_base_scheme \<Rightarrow> (bool \<times> 'a sc_base_scheme) option" where
  "merge_into act cv2 s = do {
     c \<leftarrow> cvmap s act;
     let (status, c') = cv_merge c cv2;
     Some (status, s\<lparr>cvmap := (cvmap s)(act \<mapsto> c')\<rparr>)
   }"

definition sc_merge :: "exec \<Rightarrow> aid \<Rightarrow> aid \<Rightarrow> sc_gen \<Rightarrow> (bool \<times> sc_gen) option" where
  "sc_merge e act act2 s =
     (case cvmap s act2 of
        None \<Rightarrow> Some (True, s)
      | Some cv2 \<Rightarrow>
          if getClock cv2 (tid (A e act)) \<ge> seq_number (A e act) \<and> seq_number (A e act) \<noteq> 0
          then Some (False, s\<lparr>cyclic := True\<rparr>)
          else if fastVersion s then merge_into act cv2 s
          else if allowNonSC s then do {
            (merged, s1) \<leftarrow> merge_into act cv2 s;
            Some (merged, if merged then s1\<lparr>allowNonSC := False\<rparr> else s1)
          }
          else if happens e act2 act
              \<or> (is_seqcst (A e act) \<and> is_seqcst (A e act2) \<and> earlier e act2 act)
          then merge_into act cv2 s
          else Some (False, s))"

text \<open>
  The loops over the writes of one thread to the location of a read, newest first, which stop
  at the first one ordered before the read.
\<close>

fun fast_writes ::
  "exec \<Rightarrow> aid \<Rightarrow> aid \<Rightarrow> aid list \<Rightarrow> bool \<times> sc_gen \<Rightarrow> (bool \<times> sc_gen) option" where
  "fast_writes e read write [] (changed, s) = Some (changed, s)"
| "fast_writes e read write (write2 # rest) (changed, s) =
     (if \<not> is_write (A e write2) \<or> write2 = write \<or> write2 = read
      then fast_writes e read write rest (changed, s)
      else case cvmap s write2 of
        None \<Rightarrow> fast_writes e read write rest (changed, s)
      | Some write2cv \<Rightarrow> do {
          (c1, s1) \<leftarrow> (if cv_since e write2cv write then sc_merge e write2 read s else Some (False, s));
          c \<leftarrow> cvmap s1 read;
          if cv_since e c write2 then do {
            (c2, s2) \<leftarrow> (if cvmap s1 write = None then Some (True, s1) else sc_merge e write write2 s1);
            Some (changed \<or> c1 \<or> c2, s2)
          } else fast_writes e read write rest (changed \<or> c1, s1)
        })"

definition processReadFast :: "exec \<Rightarrow> aid \<Rightarrow> sc_gen \<Rightarrow> (bool \<times> sc_gen) option" where
  "processReadFast e read s =
     (case reads_from (A e read) of
        None \<Rightarrow> Some (False, s)
      | Some write \<Rightarrow> do {
          (m, s) \<leftarrow> sc_merge e read write s;
          fold_opt (\<lambda>i (changed, s).
              case get_actions_on_obj e (location (A e read)) i of
                None \<Rightarrow> Some (changed, s)
              | Some l \<Rightarrow> fast_writes e read write (rev l) (changed, s))
            [0 ..< maxthreads s + 1] (m \<and> earlier e read write, s)
        })"

text \<open>
  The slow version, with the flag \<open>updateFuture\<close>: after one edge from a later to an earlier
  action, only edges in execution order are added in this pass.
\<close>

fun slow_writes ::
  "exec \<Rightarrow> aid \<Rightarrow> aid \<Rightarrow> aid list \<Rightarrow> bool \<times> bool \<times> sc_gen \<Rightarrow> (bool \<times> bool \<times> sc_gen) option" where
  "slow_writes e read write [] (changed, updateFuture, s) = Some (changed, updateFuture, s)"
| "slow_writes e read write (write2 # rest) (changed, updateFuture, s) =
     (if \<not> is_write (A e write2) \<or> write2 = write \<or> write2 = read
      then slow_writes e read write rest (changed, updateFuture, s)
      else case cvmap s write2 of
        None \<Rightarrow> slow_writes e read write rest (changed, updateFuture, s)
      | Some write2cv \<Rightarrow> do {
          (c1, u1, s1) \<leftarrow>
            (if cv_since e write2cv write \<and> (earlier e read write2 \<or> \<not> updateFuture)
             then do {
               (status, s1) \<leftarrow> sc_merge e write2 read s;
               Some (changed \<or> status, updateFuture \<or> (status \<and> earlier e write2 read), s1)
             } else Some (changed, updateFuture, s));
          c \<leftarrow> cvmap s1 read;
          if cv_since e c write2 then
            (if earlier e write2 write \<or> \<not> u1
             then do {
               (status, s2) \<leftarrow> (if cvmap s1 write = None then Some (True, s1)
                               else sc_merge e write write2 s1);
               Some (c1 \<or> status, u1 \<or> (status \<and> earlier e write write2), s2)
             } else Some (c1, u1, s1))
          else slow_writes e read write rest (c1, u1, s1)
        })"

definition merge_rf ::
  "exec \<Rightarrow> aid \<Rightarrow> aid \<Rightarrow> bool \<Rightarrow> sc_gen \<Rightarrow> (bool \<times> bool \<times> sc_gen) option" where
  "merge_rf e read write updateFuture s =
     (if earlier e write read \<or> \<not> updateFuture
      then do {
        (m, s1) \<leftarrow> sc_merge e read write s;
        let status = (m \<and> earlier e read write);
        Some (status, status, s1)
      } else Some (False, updateFuture, s))"

definition processReadSlow ::
  "exec \<Rightarrow> aid \<Rightarrow> bool \<Rightarrow> sc_gen \<Rightarrow> (bool \<times> bool \<times> sc_gen) option" where
  "processReadSlow e read updateFuture s = do {
     write \<leftarrow> reads_from (A e read);
     (changed, updateFuture, s) \<leftarrow> merge_rf e read write updateFuture s;
     fold_opt (\<lambda>i (changed, updateFuture, s).
         case get_actions_on_obj e (location (A e read)) i of
           None \<Rightarrow> Some (changed, updateFuture, s)
         | Some l \<Rightarrow> slow_writes e read write (rev l) (changed, updateFuture, s))
       [0 ..< maxthreads s + 1] (changed, updateFuture, s)
   }"

definition processAnnotatedReadSlow ::
  "exec \<Rightarrow> aid \<Rightarrow> bool \<Rightarrow> sc_gen \<Rightarrow> (bool \<times> bool \<times> sc_gen) option" where
  "processAnnotatedReadSlow e read updateFuture s = do {
     write \<leftarrow> reads_from (A e read);
     merge_rf e read write updateFuture s
   }"

section \<open>Clock vectors\<close>

text \<open>The body of the loop of \<open>computeCV\<close> over the actions; the state is \<open>last_act\<close> (one entry
  per thread), \<open>changed\<close>, \<open>updateFuture\<close> and the generator.\<close>

type_synonym compute_state = "(aid option list \<times> bool \<times> bool \<times> sc_gen)"

definition sc_process_read ::
  "exec \<Rightarrow> aid \<Rightarrow> bool \<times> bool \<times> sc_gen \<Rightarrow> (bool \<times> bool \<times> sc_gen) option" where
  "sc_process_read e act = (\<lambda>(changed, updateFuture, s).
     if fastVersion s then do {
       (c, s) \<leftarrow> processReadFast e act s;
       Some (changed \<or> c, updateFuture, s)
     }
     else if annotatedReadSet s act \<noteq> None then do {
       (c, u, s) \<leftarrow> processAnnotatedReadSlow e act updateFuture s;
       Some (changed \<or> c, u, s)
     }
     else do {
       (c, u, s) \<leftarrow> processReadSlow e act updateFuture s;
       Some (changed \<or> c, u, s)
     })"

definition ensure_cv :: "exec \<Rightarrow> aid \<Rightarrow> 'a sc_base_scheme \<Rightarrow> 'a sc_base_scheme" where
  "ensure_cv e act s =
     (case cvmap s act of
        Some _ \<Rightarrow> s
      | None \<Rightarrow> s\<lparr>cvmap := (cvmap s)(act \<mapsto>
          cv_new (cv (A e act)) (tid (A e act)) (seq_number (A e act)))\<rparr>)"

definition sb_edge :: "exec \<Rightarrow> aid \<Rightarrow> aid option \<Rightarrow> sc_gen \<Rightarrow> sc_gen option" where
  "sb_edge e act lastact s =
     (case lastact of None \<Rightarrow> Some s | Some l \<Rightarrow> map_option snd (sc_merge e act l s))"

definition join_edge :: "exec \<Rightarrow> aid \<Rightarrow> bool \<Rightarrow> sc_gen \<Rightarrow> (bool \<times> sc_gen) option" where
  "join_edge e act changed s =
     (if is_thread_join (A e act) then do {
        joinedthr \<leftarrow> get_thread_operand (thrd_priv e) (thread_at e) (A e act);
        finish \<leftarrow> get_last_action e joinedthr;
        (c, s) \<leftarrow> sc_merge e act finish s;
        Some (changed \<or> c, s)
      } else Some (changed, s))"

definition read_edges ::
  "exec \<Rightarrow> aid \<Rightarrow> bool \<times> bool \<times> sc_gen \<Rightarrow> (bool \<times> bool \<times> sc_gen) option" where
  "read_edges e act st = (if is_read (A e act) then sc_process_read e act st else Some st)"

definition compute_act :: "exec \<Rightarrow> aid \<Rightarrow> compute_state \<Rightarrow> compute_state option" where
  "compute_act e act = (\<lambda>(last_act, changed, updateFuture, s).
     let t = tid (A e act)
     in if t < length last_act then do {
       lastact \<leftarrow> (if is_thread_start (A e act)
                   then do { th \<leftarrow> get_thread_of e act; Some (th_creation th) }
                   else Some (last_act ! t));
       s \<leftarrow> sb_edge e act lastact (ensure_cv e act s);
       (changed, s) \<leftarrow> join_edge e act changed s;
       (changed, updateFuture, s) \<leftarrow> read_edges e act (changed, updateFuture, s);
       Some (last_act[t := Some act], changed, updateFuture, s)
     } else None)"

text \<open>The loop itself; \<open>last_act\<close> is cleared only after a pass that changed something.\<close>

partial_function (option) computeCV_loop ::
  "exec \<Rightarrow> aid list \<Rightarrow> bool \<Rightarrow> aid option list \<Rightarrow> sc_gen \<Rightarrow> sc_gen option" where
  "computeCV_loop e l firsttime last_act s = do {
     (last_act, changed, updateFuture, s) \<leftarrow> fold_opt (compute_act e) l (last_act, firsttime, False, s);
     if changed then computeCV_loop e l False (replicate (length last_act) None) s
     else if \<not> fastVersion s then
       (if \<not> allowNonSC s then computeCV_loop e l False last_act (s\<lparr>allowNonSC := True\<rparr>)
        else Some s)
     else Some s
   }"

definition computeCV :: "exec \<Rightarrow> aid list \<Rightarrow> sc_gen \<Rightarrow> sc_gen option" where
  "computeCV e l s = computeCV_loop e l True (replicate (maxthreads s + 1) None) s"

text \<open>\<open>updateConstraints\<close>: the first write of another thread that is ordered after \<open>act\<close>
  already, or that is to the same location and gets the edge.\<close>

fun constrain_list ::
  "exec \<Rightarrow> aid \<Rightarrow> aid list \<Rightarrow> bool \<times> sc_gen \<Rightarrow> (bool \<times> sc_gen) option" where
  "constrain_list e act [] (changed, s) = Some (changed, s)"
| "constrain_list e act (write # rest) (changed, s) =
     (if \<not> is_write (A e write) then constrain_list e act rest (changed, s)
      else do {
        writecv \<leftarrow> cvmap s write;
        if cv_since e writecv act then Some (changed, s)
        else if location (A e write) = location (A e act)
        then do { (_, s) \<leftarrow> sc_merge e write act s; Some (True, s) }
        else constrain_list e act rest (changed, s)
      })"

definition updateConstraints :: "exec \<Rightarrow> aid \<Rightarrow> sc_gen \<Rightarrow> (bool \<times> sc_gen) option" where
  "updateConstraints e act s =
     fold_opt (\<lambda>i (changed, s).
         if i = tid (A e act) then Some (changed, s)
         else if i < length (threadlists s)
         then constrain_list e act (threadlists s ! i) (changed, s)
         else None) [0 ..< maxthreads s + 1] (False, s)"

section \<open>Choosing the next action\<close>

text \<open>Whether the front \<open>act\<close> of thread \<open>t\<close>, with clock vector \<open>c\<close>, is not after another front.\<close>

definition front_ready :: "exec \<Rightarrow> clock_vector option \<Rightarrow> nat \<Rightarrow> 'a sc_base_scheme \<Rightarrow> bool option" where
  "front_ready e c t s = do {
     blocked \<leftarrow> exists_opt (\<lambda>i.
         if i = t then Some False
         else if i < length (threadlists s)
         then (case threadlists s ! i of
                 [] \<Rightarrow> Some False
               | first # _ \<Rightarrow> do { c \<leftarrow> c; Some (cv_since e c first) })
         else None) [0 ..< maxthreads s + 1];
     Some (\<not> blocked)
   }"

fun ready_fronts ::
  "exec \<Rightarrow> (aid \<Rightarrow> clock_vector option) \<Rightarrow> nat list \<Rightarrow> 'a sc_base_scheme \<Rightarrow> aid list option" where
  "ready_fronts e cvs [] s = Some []"
| "ready_fronts e cvs (t # ts) s =
     (if t < length (threadlists s)
      then case threadlists s ! t of
             [] \<Rightarrow> ready_fronts e cvs ts s
           | act # _ \<Rightarrow> do {
               ready \<leftarrow> front_ready e (cvs act) t s;
               rest \<leftarrow> ready_fronts e cvs ts s;
               Some (if ready then act # rest else rest)
             }
      else None)"

definition getNextActions :: "exec \<Rightarrow> 'a sc_base_scheme \<Rightarrow> aid list option" where
  "getNextActions e s = do {
     array \<leftarrow> ready_fronts e (cvmap s) [0 ..< maxthreads s + 1] s;
     if array \<noteq> [] then Some array
     else do {
       array \<leftarrow> ready_fronts e (\<lambda>a. cv (A e a)) [0 ..< maxthreads s + 1] s;
       if array = [] \<or> cyclic s then Some array else None
     }
   }"

text \<open>The first of the actions with the least sequence number.\<close>

fun earliest :: "exec \<Rightarrow> aid list \<Rightarrow> aid option \<Rightarrow> aid option" where
  "earliest e [] best = best"
| "earliest e (a # as) best =
     earliest e as (case best of None \<Rightarrow> Some a
       | Some b \<Rightarrow> if seq_number (A e b) > seq_number (A e a) then Some a else Some b)"

text \<open>Whether no remaining write to the location of \<open>act\<close> would get an edge from it.\<close>

fun no_conflict_in :: "exec \<Rightarrow> aid \<Rightarrow> aid list \<Rightarrow> 'a sc_base_scheme \<Rightarrow> bool option" where
  "no_conflict_in e act [] s = Some True"
| "no_conflict_in e act (write # rest) s =
     (if \<not> is_write (A e write) then no_conflict_in e act rest s
      else do {
        writecv \<leftarrow> cvmap s write;
        if cv_since e writecv act then Some True
        else if location (A e write) = location (A e act) then Some False
        else no_conflict_in e act rest s
      })"

definition non_conflicting :: "exec \<Rightarrow> 'a sc_base_scheme \<Rightarrow> aid \<Rightarrow> bool option" where
  "non_conflicting e s act = do {
     conflict \<leftarrow> exists_opt (\<lambda>i.
         if i = tid (A e act) then Some False
         else if i < length (threadlists s)
         then map_option Not (no_conflict_in e act (threadlists s ! i) s)
         else None) [0 ..< maxthreads s + 1];
     Some (\<not> conflict)
   }"

fun filter_opt :: "('b \<Rightarrow> bool option) \<Rightarrow> 'b list \<Rightarrow> 'b list option" where
  "filter_opt P [] = Some []"
| "filter_opt P (x # xs) = do {
     b \<leftarrow> P x;
     ys \<leftarrow> filter_opt P xs;
     Some (if b then x # ys else ys)
   }"

definition pruneArray :: "exec \<Rightarrow> aid list \<Rightarrow> 'a sc_base_scheme \<Rightarrow> aid option option" where
  "pruneArray e array s =
     (if length array = 1 then Some (Some (hd array))
      else case earliest e (filter (\<lambda>a. \<not> is_write (A e a)) array) None of
        Some nonwrite \<Rightarrow> Some (Some nonwrite)
      | None \<Rightarrow> do {
          free \<leftarrow> filter_opt (non_conflicting e s) array;
          Some (earliest e free None)
        })"

section \<open>Annotations\<close>

text \<open>\<open>sc_annotation.h\<close>.\<close>

definition IS_SC_ANNO :: "model_action \<Rightarrow> bool" where
  "IS_SC_ANNO act \<longleftrightarrow> is_annotation act \<and> act_value act = 2"
definition IS_ANNO_BEGIN :: "model_action \<Rightarrow> bool" where
  "IS_ANNO_BEGIN act \<longleftrightarrow> location act = 1"
definition IS_ANNO_END :: "model_action \<Rightarrow> bool" where
  "IS_ANNO_END act \<longleftrightarrow> location act = 2"
definition IS_ANNO_KEEP :: "model_action \<Rightarrow> bool" where
  "IS_ANNO_KEEP act \<longleftrightarrow> location act = 3"

text \<open>
  The inner loop of \<open>collectAnnotatedReads\<close>, where \<open>act\<close> is the action after the begin
  annotation and is never moved on; the list is what follows the iterator. Stepping onto the end
  of the list and reading there is \<open>None\<close>.
\<close>

fun anno_loop :: "exec \<Rightarrow> aid \<Rightarrow> aid list \<Rightarrow> sc_gen \<Rightarrow> (aid list \<times> sc_gen) option" where
  "anno_loop e act [] s = None"
| "anno_loop e act (nextAct # rest) s =
     (if \<not> IS_ANNO_KEEP (A e nextAct)
      then let s1 = s\<lparr>annotatedReadSet := (annotatedReadSet s)(act \<mapsto> act),
                      annotatedReadSetSize := annotatedReadSetSize s + 1\<rparr>
           in if IS_ANNO_END (A e nextAct) then Some (rest, s1) else anno_loop e act rest s1
      else anno_loop e act rest s)"

lemma anno_loop_shorter:
  "anno_loop e act l s = Some (rest, s1) \<Longrightarrow> length rest < length l"
proof (induction l arbitrary: s)
  case Nil
  then show ?case by simp
next
  case (Cons a l)
  from Cons.prems show ?case
    by (auto simp: Let_def split: if_splits dest!: Cons.IH)
qed

text \<open>One thread's list; the flag says whether the annotations were in order.\<close>

function anno_list :: "exec \<Rightarrow> aid list \<Rightarrow> sc_gen \<Rightarrow> (bool \<times> sc_gen) option" where
  "anno_list e [] s = Some (True, s)"
| "anno_list e (a # as) s =
     (if \<not> IS_SC_ANNO (A e a) then anno_list e as s
      else if \<not> IS_ANNO_BEGIN (A e a) then Some (False, s\<lparr>annotationError := True\<rparr>)
      else case as of
        [] \<Rightarrow> None
      | act # rest \<Rightarrow>
          if IS_ANNO_END (A e act) then anno_list e rest s
          else do { (rest1, s1) \<leftarrow> anno_loop e act rest s; anno_list e rest1 s1 })"
  by pat_completeness auto
termination
  by (relation "measure (\<lambda>(e, l, s). length l)") (auto dest!: anno_loop_shorter)

fun anno_lists :: "exec \<Rightarrow> aid list list \<Rightarrow> sc_gen \<Rightarrow> sc_gen option" where
  "anno_lists e [] s = Some s"
| "anno_lists e (l # ls) s = do {
     (ok, s1) \<leftarrow> anno_list e l s;
     if ok then anno_lists e ls s1 else Some s1
   }"

definition collectAnnotatedReads :: "exec \<Rightarrow> sc_gen \<Rightarrow> sc_gen option" where
  "collectAnnotatedReads e s = anno_lists e (tl (threadlists s)) s"

section \<open>The order\<close>

text \<open>
  The choice of the next action: \<open>choices\<close> replays the choices up to \<open>endchoice\<close> and records
  the ones made after it; \<open>lastchoice\<close> is the last one that has another option.
\<close>

type_synonym choice_state = "nat list \<times> nat \<times> nat option"

definition choose_action ::
  "aid list \<Rightarrow> aid option \<Rightarrow> nat \<Rightarrow> choice_state \<Rightarrow> (aid \<times> choice_state) option" where
  "choose_action array pruned endchoice = (\<lambda>(choices, currchoice, lastchoice).
     case pruned of
       Some act \<Rightarrow> Some (act, choices, currchoice, lastchoice)
     | None \<Rightarrow>
         if currchoice \<ge> length choices then None
         else if currchoice < endchoice then
           (if choices ! currchoice < length array
            then Some (array ! (choices ! currchoice), choices, currchoice + 1,
                   if choices ! currchoice + 1 < length array then Some currchoice else lastchoice)
            else None)
         else Some (array ! 0, choices[currchoice := 0], currchoice + 1,
                if length array > 1 then Some currchoice else lastchoice))"

definition pop_front :: "exec \<Rightarrow> aid \<Rightarrow> 'a sc_base_scheme \<Rightarrow> 'a sc_base_scheme" where
  "pop_front e act s =
     s\<lparr>threadlists := (threadlists s)[tid (A e act) := tl (threadlists s ! tid (A e act))]\<rparr>"

text \<open>Going back to the last choice: everything is rebuilt.\<close>

definition rollback :: "exec \<Rightarrow> aid list \<Rightarrow> sc_gen \<Rightarrow> sc_gen option" where
  "rollback e l s = do {
     s1 \<leftarrow> build_threadlists e l (sc_reset l s);
     computeCV e l s1
   }"

partial_function (option) generate_loop ::
  "exec \<Rightarrow> aid list \<Rightarrow> nat \<Rightarrow> choice_state \<Rightarrow> aid list \<Rightarrow> sc_gen \<Rightarrow> (aid list \<times> sc_gen) option" where
  "generate_loop e l endchoice cs sclist s = do {
     array \<leftarrow> getNextActions e s;
     if array = [] then Some (sclist, s)
     else do {
       pruned \<leftarrow> pruneArray e array s;
       (act, choices, currchoice, lastchoice) \<leftarrow> choose_action array pruned endchoice cs;
       (changed, s1) \<leftarrow> updateConstraints e act (pop_front e act s);
       s2 \<leftarrow> (if changed then computeCV e l s1 else Some s1);
       if changed \<and> \<not> cyclic s1 \<and> cyclic s2 \<and> lastchoice \<noteq> None
       then do {
         s3 \<leftarrow> rollback e l s2;
         generate_loop e l (the lastchoice + 1)
           (choices[the lastchoice := choices ! the lastchoice + 1], 0, None) [] s3
       }
       else generate_loop e l endchoice (choices, currchoice, lastchoice) (sclist @ [act]) s2
     }
   }"

text \<open>A null list is the outer \<open>None\<close> of the result.\<close>

definition generateSC :: "exec \<Rightarrow> aid list \<Rightarrow> sc_gen \<Rightarrow> (aid list option \<times> sc_gen) option" where
  "generateSC e l s = do {
     s \<leftarrow> build_threadlists e l s;
     let s = s\<lparr>stat_actions := stat_actions s + of_nat (length l)\<rparr>;
     s \<leftarrow> (if annotationMode s then collectAnnotatedReads e s else Some s);
     if annotationMode s \<and> annotationError s then Some (None, s)
     else do {
       s \<leftarrow> computeCV e l s;
       (sclist, s) \<leftarrow> generate_loop e l 0 (replicate (length l) 0, 0, None) [] s;
       Some (Some sclist, s)
     }
   }"

section \<open>The verdict\<close>

text \<open>The loop of \<open>check_rf\<close>: every read must read from the last write before it.\<close>

definition check_rf_step :: "exec \<Rightarrow> aid \<Rightarrow> sc_gen \<Rightarrow> sc_gen" where
  "check_rf_step e act s =
     (let last = lastwrmap s (location (A e act));
          bad = is_read (A e act) \<and> reads_from (A e act) \<noteq> None \<and> reads_from (A e act) \<noteq> last;
          s1 = (if bad then s\<lparr>badrfset := (badrfset s)(act \<mapsto> last), hasBadRF := True\<rparr> else s)
      in if is_write (A e act)
         then s1\<lparr>lastwrmap := (lastwrmap s1)(location (A e act) \<mapsto> act)\<rparr> else s1)"

definition check_rf :: "exec \<Rightarrow> aid list \<Rightarrow> sc_gen \<Rightarrow> sc_gen option" where
  "check_rf e l s =
     (let s1 = fold (check_rf_step e) l (s\<lparr>hasBadRF := False\<rparr>)
      in if \<not> annotationMode s1 \<and> cyclic s1 \<noteq> hasBadRF s1 then None else Some s1)"

definition sc_update_stats :: "sc_gen \<Rightarrow> sc_gen" where
  "sc_update_stats s =
     (if cyclic s then s\<lparr>nonsccount := nonsccount s + 1\<rparr> else s\<lparr>sccount := sccount s + 1\<rparr>)"

definition getSCList :: "exec \<Rightarrow> aid list \<Rightarrow> sc_gen \<Rightarrow> (aid list \<times> sc_gen) option" where
  "getSCList e actions s = do {
     (_, dup) \<leftarrow> buildVectors e actions (dup_threadlists s);
     let s = s\<lparr>dup_threadlists := dup, fastVersion := True\<rparr>;
     (l, s) \<leftarrow> generateSC e actions s;
     (l, s) \<leftarrow> (if cyclic s
                then generateSC e actions ((sc_reset actions s)\<lparr>fastVersion := False\<rparr>)
                else Some (l, s));
     l \<leftarrow> l;
     s \<leftarrow> check_rf e l s;
     Some (l, sc_update_stats s)
   }"

end
