(* ===== verification/Inference.thy ===== *)
theory Inference
  imports Actions
begin

text \<open>
  \<open>scfence/inference.h\<close>, \<open>inference.cc\<close>, \<open>patch.h\<close>, \<open>patch.cc\<close> and the macros of
  \<open>include/wildcard.h\<close>: an inference assigns a memory order to every wildcard of the program
  under test; a patch is a list of orders that operations should have at least.

  The heap array \<open>orders\<close> has \<open>size + 1\<close> entries by construction, so the object holds the list
  and \<open>getSize\<close> is read off its length. The pointer \<open>initialInfer\<close> is the number of the
  inference it points to. A failing \<open>ASSERT\<close> is \<open>None\<close>.
\<close>

section \<open>Wildcards\<close>

definition MAX_WILDCARD_NUM :: nat where "MAX_WILDCARD_NUM = 50"

definition get_wildcard_id :: "memory_order \<Rightarrow> int" where
  "get_wildcard_id x = sint (mo_val x - 0x1000)"

definition get_wildcard_id_zero :: "memory_order \<Rightarrow> nat" where
  "get_wildcard_id_zero x = (if get_wildcard_id x > 0 then nat (get_wildcard_id x) else 0)"

definition is_wildcard :: "memory_order \<Rightarrow> bool" where
  "is_wildcard x \<longleftrightarrow>
     \<not> (mo_val x \<ge> mo_val memory_order_relaxed \<and> mo_val x \<le> mo_val memory_order_seq_cst)
     \<and> x \<noteq> memory_order_normal"

definition is_normal_mo_infer :: "memory_order \<Rightarrow> bool" where
  "is_normal_mo_infer x \<longleftrightarrow>
     (mo_val x \<ge> mo_val memory_order_relaxed \<and> mo_val x \<le> mo_val memory_order_seq_cst)
     \<or> x = WILDCARD_NONEXIST \<or> x = memory_order_normal"

definition is_normal_mo :: "memory_order \<Rightarrow> bool" where
  "is_normal_mo x \<longleftrightarrow>
     (mo_val x \<ge> mo_val memory_order_relaxed \<and> mo_val x \<le> mo_val memory_order_seq_cst)
     \<or> x = memory_order_normal"

section \<open>One memory order against another\<close>

definition compareMemoryOrder :: "memory_order \<Rightarrow> memory_order \<Rightarrow> int" where
  "compareMemoryOrder o1 o2 =
     (let mo1 = (if o1 = WILDCARD_NONEXIST then memory_order_relaxed else o1);
          mo2 = (if o2 = WILDCARD_NONEXIST then memory_order_relaxed else o2)
      in if mo1 = mo2 then 0
         else if mo1 = memory_order_relaxed then - 1
         else if mo1 = memory_order_acquire then
           (if mo2 = memory_order_relaxed then 1
            else if mo2 = memory_order_release then 2 else - 1)
         else if mo1 = memory_order_release then
           (if mo2 = memory_order_relaxed then 1
            else if mo2 = memory_order_acquire then 2 else - 1)
         else if mo1 = memory_order_acq_rel then
           (if mo2 = memory_order_seq_cst then - 1 else 1)
         else 1)"

definition nextWeakOrder :: "memory_order \<Rightarrow> memory_order \<Rightarrow> memory_order" where
  "nextWeakOrder mo1 mo2 =
     (let res = (case mo1 of
            memory_order_seq_cst \<Rightarrow> memory_order_acq_rel
          | memory_order_acq_rel \<Rightarrow> memory_order_acquire
          | memory_order_acquire \<Rightarrow> memory_order_relaxed
          | memory_order_release \<Rightarrow> memory_order_relaxed
          | memory_order_relaxed \<Rightarrow> memory_order_relaxed
          | _ \<Rightarrow> memory_order_relaxed);
          compVal = compareMemoryOrder res mo2
      in if compVal = 2 \<or> compVal = - 1 then mo2 else res)"

section \<open>Inferences\<close>

type_synonym iid = nat

record inference =
  orders :: "memory_order list"
  initialInfer :: iid
  buggy :: bool
  explored :: bool
  leaf :: bool
  hasFixes :: bool
  shouldFix :: bool

definition getSize :: "inference \<Rightarrow> nat" where
  "getSize i = length (orders i) - 1"

text \<open>The two constructors; \<open>this\<close> is the number of the new object.\<close>

definition Inference_new :: "iid \<Rightarrow> inference" where
  "Inference_new this = \<lparr>orders = replicate (4 + 1) WILDCARD_NONEXIST, initialInfer = this,
     buggy = False, explored = False, leaf = False, hasFixes = False, shouldFix = True\<rparr>"

definition Inference_copy :: "inference \<Rightarrow> inference option" where
  "Inference_copy i =
     (if getSize i > 0 \<and> getSize i \<le> MAX_WILDCARD_NUM
      then Some \<lparr>orders = orders i, initialInfer = initialInfer i,
             buggy = False, explored = False, leaf = False, hasFixes = False, shouldFix = True\<rparr>
      else None)"

definition infer_resize :: "int \<Rightarrow> inference \<Rightarrow> inference option" where
  "infer_resize newsize i =
     (if newsize > int (getSize i) \<and> newsize \<le> int MAX_WILDCARD_NUM
      then Some (i\<lparr>orders := vec_resize (orders i) (nat newsize + 1) WILDCARD_NONEXIST\<rparr>)
      else None)"

text \<open>
  \<open>operator[]\<close> returns a reference: \<open>infer_ref\<close> is the object afterwards, in which the entry
  exists; \<open>infer_get\<close> reads through the reference and \<open>infer_set\<close> assigns through it.
\<close>

definition infer_ref :: "int \<Rightarrow> inference \<Rightarrow> inference option" where
  "infer_ref idx i =
     (if idx > 0 \<and> idx \<le> int (getSize i) then Some i
      else do {
        j \<leftarrow> infer_resize idx i;
        Some (j\<lparr>orders := (orders j)[nat idx := WILDCARD_NONEXIST]\<rparr>)
      })"

definition infer_get :: "int \<Rightarrow> inference \<Rightarrow> (memory_order \<times> inference) option" where
  "infer_get idx i = do { j \<leftarrow> infer_ref idx i; Some (orders j ! nat idx, j) }"

definition infer_set :: "int \<Rightarrow> memory_order \<Rightarrow> inference \<Rightarrow> inference option" where
  "infer_set idx mo i =
     do { j \<leftarrow> infer_ref idx i; Some (j\<lparr>orders := (orders j)[nat idx := mo]\<rparr>) }"

text \<open>The switch of \<open>strengthen\<close>: the result and the order the entry has afterwards.\<close>

definition strengthen_order :: "memory_order \<Rightarrow> memory_order \<Rightarrow> int \<times> memory_order" where
  "strengthen_order cur mo = (case cur of
       memory_order_seq_cst \<Rightarrow> (0, cur)
     | memory_order_relaxed \<Rightarrow> if mo = memory_order_relaxed then (0, cur) else (1, mo)
     | memory_order_acquire \<Rightarrow>
         if mo = memory_order_acquire \<or> mo = memory_order_relaxed then (0, cur)
         else if mo = memory_order_release then (1, memory_order_acq_rel)
         else if mo_val mo \<ge> mo_val memory_order_acq_rel \<and> mo_val mo \<le> mo_val memory_order_seq_cst
           then (1, mo)
         else (1, cur)
     | memory_order_release \<Rightarrow>
         if mo = memory_order_release \<or> mo = memory_order_relaxed then (0, cur)
         else if mo = memory_order_acquire then (1, memory_order_acq_rel)
         else if mo_val mo \<ge> mo_val memory_order_acq_rel then (1, mo)
         else (1, cur)
     | memory_order_acq_rel \<Rightarrow>
         if mo = memory_order_seq_cst then (1, mo) else (0, cur)
     | _ \<Rightarrow> (1, mo))"

definition strengthen :: "model_action \<Rightarrow> memory_order \<Rightarrow> inference \<Rightarrow> (int \<times> inference) option" where
  "strengthen act mo i =
     (let wildcard = original_order act;
          wildcardID = get_wildcard_id_zero wildcard
      in if \<not> is_wildcard wildcard then Some (- 1, i)
         else do {
           j \<leftarrow> (if wildcardID > getSize i then infer_resize (int wildcardID) i else Some i);
           if is_normal_mo mo \<and> is_normal_mo_infer (orders j ! wildcardID)
           then let (r, mo') = strengthen_order (orders j ! wildcardID) mo
                in Some (r, j\<lparr>orders := (orders j)[wildcardID := mo']\<rparr>)
           else None
         })"

definition strengthen_flags ::
  "model_action \<Rightarrow> memory_order \<Rightarrow> bool \<Rightarrow> bool \<Rightarrow> inference \<Rightarrow> (bool \<times> bool \<times> inference) option" where
  "strengthen_flags act mo canUpdate hasUpdated i = do {
     (res, j) \<leftarrow> strengthen act mo i;
     let canUpdate' = (if res = - 1 then False else canUpdate);
     let hasUpdated' = (if res = 1 then True else hasUpdated);
     Some (canUpdate', hasUpdated', j)
   }"

subsection \<open>Comparison\<close>

definition compare_entry :: "memory_order \<Rightarrow> memory_order \<Rightarrow> int" where
  "compare_entry mo1 mo2 =
     (if (mo1 = WILDCARD_NONEXIST \<and> mo2 \<noteq> WILDCARD_NONEXIST)
         \<or> (mo1 = WILDCARD_NONEXIST \<and> mo2 = memory_order_relaxed)
         \<or> (mo1 = memory_order_relaxed \<and> mo2 = WILDCARD_NONEXIST) then 1
      else if mo1 \<noteq> WILDCARD_NONEXIST \<and> mo2 = WILDCARD_NONEXIST then - 1
      else if mo_val mo1 > mo_val mo2 then 1
      else if mo1 = mo2 then 0 else - 1)"

text \<open>The loop of \<open>compareTo\<close>; the shorter array bounds it.\<close>

definition acquire_against_release :: "memory_order \<Rightarrow> memory_order \<Rightarrow> bool" where
  "acquire_against_release mo1 mo2 \<longleftrightarrow>
     (mo1 = memory_order_acquire \<and> mo2 = memory_order_release)
     \<or> (mo1 = memory_order_release \<and> mo2 = memory_order_acquire)"

fun compare_loop :: "memory_order list \<Rightarrow> memory_order list \<Rightarrow> int \<Rightarrow> int" where
  "compare_loop (mo1 # xs) (mo2 # ys) result =
     (if acquire_against_release mo1 mo2 then - 2
      else let subResult = compare_entry mo1 mo2
           in if (subResult > 0 \<and> result < 0) \<or> (subResult < 0 \<and> result > 0) then - 2
              else compare_loop xs ys (if subResult \<noteq> 0 then subResult else result))"
| "compare_loop _ _ result = result"

definition compareTo :: "inference \<Rightarrow> inference \<Rightarrow> int" where
  "compareTo i j =
     (let result = (if getSize i = getSize j then 0 else if getSize i > getSize j then 1 else - 1)
      in compare_loop (orders i) (orders j) result)"

definition getHash :: "inference \<Rightarrow> 64 word" where
  "getHash i = fold (\<lambda>mo hash.
       let m = (if mo = WILDCARD_NONEXIST then memory_order_relaxed else mo)
       in hash * 37 + ucast (mo_val m + 4096)) (tl (orders i)) 0"

subsection \<open>Weaker inferences\<close>

text \<open>
  \<open>InferenceList\<close> objects of this component hold new copies only, so the list is one of
  inferences. \<open>weaken_steps\<close> is the \<open>do\<close> loop: the orders tried for one wildcard, in turn,
  with the last one after the loop; a target that does not exist counts as relaxed.
\<close>

fun mo_rank :: "memory_order \<Rightarrow> nat" where
  "mo_rank memory_order_relaxed = 1"
| "mo_rank memory_order_acquire = 2"
| "mo_rank memory_order_release = 2"
| "mo_rank memory_order_acq_rel = 3"
| "mo_rank memory_order_seq_cst = 4"
| "mo_rank _ = 5"

lemma nextWeakOrder_descends:
  "mo2 \<noteq> WILDCARD_NONEXIST \<Longrightarrow> nextWeakOrder m mo2 \<noteq> mo2
     \<Longrightarrow> mo_rank (nextWeakOrder m mo2) < mo_rank m"
  by (cases m) (auto simp: nextWeakOrder_def compareMemoryOrder_def Let_def split: if_splits)

function weaken_steps :: "memory_order \<Rightarrow> memory_order \<Rightarrow> memory_order list" where
  "weaken_steps weakenedMO m2 =
     (let mo2 = (if m2 = WILDCARD_NONEXIST then memory_order_relaxed else m2);
          tried = weakenedMO # (if weakenedMO = memory_order_acq_rel then [memory_order_release] else []);
          weaker = nextWeakOrder weakenedMO mo2
      in if weaker \<noteq> mo2 then tried @ weaken_steps weaker mo2 else tried @ [weaker])"
  by pat_completeness auto
termination
  by (relation "measure (\<lambda>(m, _). mo_rank m)") (auto simp del: mo_rank.simps intro!: nextWeakOrder_descends split: if_splits)

fun getWeakerInferences_rec ::
  "int list \<Rightarrow> inference \<Rightarrow> inference \<Rightarrow> inference \<Rightarrow> (inference list \<times> inference) option" where
  "getWeakerInferences_rec [] tmpRes infer1 infer2 = do {
     res \<leftarrow> Inference_copy tmpRes;
     Some ([res\<lparr>shouldFix := False\<rparr>], tmpRes)
   }"
| "getWeakerInferences_rec (w # strengthened) tmpRes infer1 infer2 = do {
     (mo1, infer1) \<leftarrow> infer_get w infer1;
     (m2, infer2) \<leftarrow> infer_get w infer2;
     fold_opt (\<lambda>mo (out, tmpRes). do {
         tmpRes \<leftarrow> infer_set w mo tmpRes;
         (rest_out, tmpRes) \<leftarrow> getWeakerInferences_rec strengthened tmpRes infer1 infer2;
         Some (out @ rest_out, tmpRes)
       }) (weaken_steps mo1 m2) ([], tmpRes)
   }"

text \<open>The wildcards \<open>i1\<close> has strengthened over \<open>i2\<close>; entries of \<open>i2\<close> come to exist on the way.\<close>

fun strengthened_from ::
  "nat list \<Rightarrow> inference \<Rightarrow> inference \<Rightarrow> (int list \<times> inference) option" where
  "strengthened_from [] i1 i2 = Some ([], i2)"
| "strengthened_from (k # ks) i1 i2 = do {
     (mo2, i2) \<leftarrow> infer_get (int k) i2;
     let compVal = compareMemoryOrder (orders i1 ! k) mo2;
     if \<not> (compVal = 0 \<or> compVal = 1) then None
     else do {
       (ws, i2) \<leftarrow> strengthened_from ks i1 i2;
       Some (if compVal = 0 then ws else int k # ws, i2)
     }
   }"

definition strengthened_wildcards ::
  "inference \<Rightarrow> inference \<Rightarrow> (int list \<times> inference) option" where
  "strengthened_wildcards i1 i2 = strengthened_from [1..<Suc (getSize i1)] i1 i2"

definition getWeakerInferences :: "inference \<Rightarrow> inference \<Rightarrow> inference list option" where
  "getWeakerInferences this infer = do {
     (strengthened, infer) \<leftarrow> strengthened_wildcards this infer;
     tmpRes \<leftarrow> Inference_copy this;
     if strengthened = [] then Some []
     else do {
       (res, _) \<leftarrow> getWeakerInferences_rec strengthened tmpRes this infer;
       Some (butlast (tl res))
     }
   }"

section \<open>Patches\<close>

text \<open>A unit holds the action it points to, whose \<open>original_order\<close> is all that is read.\<close>

record patch_unit =
  unit_act :: model_action
  unit_mo :: memory_order

type_synonym patch = "patch_unit list"

definition Patch_one :: "model_action \<Rightarrow> memory_order \<Rightarrow> patch" where
  "Patch_one act mo = [\<lparr>unit_act = act, unit_mo = mo\<rparr>]"

definition Patch_two ::
  "model_action \<Rightarrow> memory_order \<Rightarrow> model_action \<Rightarrow> memory_order \<Rightarrow> patch" where
  "Patch_two act1 mo1 act2 mo2 =
     [\<lparr>unit_act = act1, unit_mo = mo1\<rparr>, \<lparr>unit_act = act2, unit_mo = mo2\<rparr>]"

definition addPatchUnit :: "model_action \<Rightarrow> memory_order \<Rightarrow> patch \<Rightarrow> patch" where
  "addPatchUnit act mo units = units @ [\<lparr>unit_act = act, unit_mo = mo\<rparr>]"

primrec isApplicable :: "patch \<Rightarrow> bool" where
  "isApplicable [] = True"
| "isApplicable (u # us) =
     (let wildcard = original_order (unit_act u)
      in if is_wildcard wildcard then isApplicable us
         else let compVal = compareMemoryOrder wildcard (unit_mo u)
              in if compVal = 2 \<or> compVal = - 1 then False else isApplicable us)"

definition canStrengthen :: "patch \<Rightarrow> inference \<Rightarrow> (bool \<times> inference) option" where
  "canStrengthen units curInfer =
     (if \<not> isApplicable units then Some (False, curInfer)
      else fold_opt (\<lambda>u (res, i). do {
          (curMO, i) \<leftarrow> infer_get (get_wildcard_id (original_order (unit_act u))) i;
          Some (if unit_mo u \<noteq> curMO then True else res, i)
        }) units (False, curInfer))"

text \<open>
  \<open>InferenceList::applyPatch(curInfer, newInfer, patch)\<close>: units are imposed in order until one
  is not a wildcard's; the result says whether any imposed unit changed an order.
\<close>

fun apply_units :: "patch \<Rightarrow> bool \<Rightarrow> inference \<Rightarrow> (bool \<times> inference) option" where
  "apply_units [] updateState newInfer = Some (updateState, newInfer)"
| "apply_units (u # us) updateState newInfer = do {
     (canUpdate, hasUpdated, newInfer) \<leftarrow>
        strengthen_flags (unit_act u) (unit_mo u) True False newInfer;
     if \<not> canUpdate then Some (updateState, newInfer)
     else apply_units us (updateState \<or> hasUpdated) newInfer
   }"

definition applyPatch_one :: "patch \<Rightarrow> inference \<Rightarrow> (bool \<times> inference) option" where
  "applyPatch_one p newInfer = apply_units p False newInfer"

section \<open>What an order guarantees\<close>

text \<open>
  The specification the comparisons are measured against: an order is the set of what it
  guarantees, a stronger order guarantees more, and a wildcard that does not exist counts as
  relaxed.
\<close>

datatype guarantee = Acquires | Releases | In_total_order

fun guarantees :: "memory_order \<Rightarrow> guarantee set" where
  "guarantees memory_order_acquire = {Acquires}"
| "guarantees memory_order_release = {Releases}"
| "guarantees memory_order_acq_rel = {Acquires, Releases}"
| "guarantees memory_order_seq_cst = {Acquires, Releases, In_total_order}"
| "guarantees _ = {}"

fun plain_order :: "memory_order \<Rightarrow> bool" where
  "plain_order memory_order_normal = False"
| "plain_order (memory_order_wildcard n) = False"
| "plain_order WILDCARD_NONEXIST = False"
| "plain_order _ = True"

lemma plain_order_cases [consumes 1]:
  assumes "plain_order m"
  obtains "m = memory_order_relaxed" | "m = memory_order_acquire" | "m = memory_order_release"
    | "m = memory_order_acq_rel" | "m = memory_order_seq_cst"
  using assms by (cases m) auto

lemma guarantees_inject:
  "plain_order a \<Longrightarrow> plain_order b \<Longrightarrow> guarantees a = guarantees b \<longleftrightarrow> a = b"
  by (cases a; cases b) auto

definition infer_le :: "inference \<Rightarrow> inference \<Rightarrow> bool" where
  "infer_le i j \<longleftrightarrow> list_all2 (\<lambda>a b. guarantees a \<subseteq> guarantees b) (orders i) (orders j)"

text \<open>All wildcards have been given an order; entry \<open>0\<close> is never one of them.\<close>

definition settled :: "inference \<Rightarrow> bool" where
  "settled i \<longleftrightarrow> (\<exists>ms. orders i = WILDCARD_NONEXIST # ms \<and> list_all plain_order ms)"

lemma compareMemoryOrder_guarantees:
  assumes "plain_order a \<or> a = WILDCARD_NONEXIST" and "plain_order b \<or> b = WILDCARD_NONEXIST"
  shows "compareMemoryOrder a b =
     (if guarantees a = guarantees b then 0
      else if guarantees b \<subset> guarantees a then 1
      else if guarantees a \<subset> guarantees b then - 1 else 2)"
  using assms
  by (cases a; cases b) (auto simp: compareMemoryOrder_def)

lemma strengthen_order_joins:
  assumes "plain_order cur \<or> cur = WILDCARD_NONEXIST" and "plain_order mo"
    and "strengthen_order cur mo = (r, new)"
  shows "guarantees new = guarantees cur \<union> guarantees mo" and "plain_order new"
    and "cur \<noteq> WILDCARD_NONEXIST \<Longrightarrow> r = (if new = cur then 0 else 1)"
    and "r = 0 \<or> r = 1"
proof -
  have m: "mo \<in> {memory_order_relaxed, memory_order_acquire, memory_order_release,
      memory_order_acq_rel, memory_order_seq_cst}"
    using assms(2) by (cases mo) auto
  have c: "cur \<in> {WILDCARD_NONEXIST, memory_order_relaxed, memory_order_acquire,
      memory_order_release, memory_order_acq_rel, memory_order_seq_cst}"
    using assms(1) by (cases cur) auto
  show "guarantees new = guarantees cur \<union> guarantees mo"
    using m c assms(3) by (elim insertE emptyE) (auto simp: strengthen_order_def)
  show "plain_order new"
    using m c assms(3) by (elim insertE emptyE) (auto simp: strengthen_order_def)
  show "cur \<noteq> WILDCARD_NONEXIST \<Longrightarrow> r = (if new = cur then 0 else 1)"
    using m c assms(3) by (elim insertE emptyE) (auto simp: strengthen_order_def)
  show "r = 0 \<or> r = 1"
    using m c assms(3) by (elim insertE emptyE) (auto simp: strengthen_order_def)
qed

lemma compare_entry_plain:
  assumes "plain_order a" and "plain_order b" and "\<not> (a = memory_order_acquire \<and> b = memory_order_release)"
    and "\<not> (a = memory_order_release \<and> b = memory_order_acquire)"
  shows "compare_entry a b =
    (if guarantees a = guarantees b then 0 else if guarantees b \<subseteq> guarantees a then 1 else - 1)"
    and "guarantees a \<subseteq> guarantees b \<or> guarantees b \<subseteq> guarantees a"
  using assms(3,4)
  by (cases rule: plain_order_cases [OF assms(1)]; cases rule: plain_order_cases [OF assms(2)];
      auto simp: compare_entry_def)+

lemma compare_loop_plain:
  assumes "list_all plain_order xs" and "list_all plain_order ys" and "length xs = length ys"
    and "r \<in> {- 1, 0, 1}"
  shows "compare_loop xs ys r =
    (let le = list_all2 (\<lambda>a b. guarantees a \<subseteq> guarantees b) xs ys;
         ge = list_all2 (\<lambda>a b. guarantees a \<subseteq> guarantees b) ys xs
     in if le \<and> ge then r
        else if ge then (if r < 0 then - 2 else 1)
        else if le then (if r > 0 then - 2 else - 1)
        else - 2)"
  using assms(3,1,2,4)
proof (induction xs ys arbitrary: r rule: list_induct2)
  case Nil
  then show ?case by simp
next
  case (Cons a xs b ys)
  then have pa: "plain_order a" and pb: "plain_order b" by auto
  show ?case
  proof (cases "acquire_against_release a b")
    case True
    then show ?thesis by (auto simp: Let_def acquire_against_release_def)
  next
    case False
    then have na: "\<not> (a = memory_order_acquire \<and> b = memory_order_release)"
      and nb: "\<not> (a = memory_order_release \<and> b = memory_order_acquire)"
      by (auto simp: acquire_against_release_def)
    have step: "compare_loop (a # xs) (b # ys) r =
        (let subResult = compare_entry a b
         in if (subResult > 0 \<and> r < 0) \<or> (subResult < 0 \<and> r > 0) then - 2
            else compare_loop xs ys (if subResult \<noteq> 0 then subResult else r))"
      by (simp only: compare_loop.simps(1) if_not_P [OF False])
    note ce = compare_entry_plain [OF pa pb na nb]
    note IH = Cons.IH [unfolded Let_def]
    have lp: "list_all plain_order xs" "list_all plain_order ys" using Cons.prems by auto
    consider (eq) "guarantees a = guarantees b" | (gt) "guarantees b \<subset> guarantees a"
      | (lt) "guarantees a \<subset> guarantees b" using ce(2) by blast
    then show ?thesis
    proof cases
      case eq
      then have "compare_entry a b = 0" using ce(1) by simp
      then show ?thesis unfolding step using IH [OF lp Cons.prems(3)] eq by (simp add: Let_def)
    next
      case gt
      then have "compare_entry a b = 1" using ce(1) by auto
      moreover have "\<not> guarantees a \<subseteq> guarantees b" using gt by blast
      ultimately show ?thesis unfolding step using IH [OF lp, of 1] gt Cons.prems(3)
        by (auto simp: Let_def)
    next
      case lt
      then have "compare_entry a b = - 1" using ce(1) by auto
      moreover have "\<not> guarantees b \<subseteq> guarantees a" using lt by blast
      ultimately show ?thesis unfolding step using IH [OF lp, of "- 1"] lt Cons.prems(3)
        by (auto simp: Let_def)
    qed
  qed
qed

text \<open>
  \<open>compareTo\<close> decides the order of the search lattice. For inferences of one size that give
  every wildcard an order, it returns 0, 1 or -1 exactly when the guarantees agree at every
  wildcard, are at least as many at every wildcard, or at most as many, and -2 when neither is
  above the other, although it compares the orders' integer values and folds the entries into
  one sign.
\<close>

lemma compareTo_is_pointwise_order:
  assumes "settled i" and "settled j" and "getSize i = getSize j"
  shows "compareTo i j =
    (if infer_le i j \<and> infer_le j i then 0 else if infer_le j i then 1
     else if infer_le i j then - 1 else - 2)"
proof -
  obtain xs where xs: "orders i = WILDCARD_NONEXIST # xs" "list_all plain_order xs"
    using assms(1) unfolding settled_def by blast
  obtain ys where ys: "orders j = WILDCARD_NONEXIST # ys" "list_all plain_order ys"
    using assms(2) unfolding settled_def by blast
  have len: "length xs = length ys" using assms(3) xs(1) ys(1) by (simp add: getSize_def)
  have "compareTo i j = compare_loop xs ys 0"
    using assms(3) xs(1) ys(1) by (simp add: compareTo_def compare_entry_def acquire_against_release_def)
  also have "\<dots> = (if infer_le i j \<and> infer_le j i then 0 else if infer_le j i then 1
     else if infer_le i j then - 1 else - 2)"
    using compare_loop_plain [OF xs(2) ys(2) len, of 0] xs(1) ys(1)
    by (simp add: Let_def infer_le_def)
  finally show ?thesis .
qed

definition sample_inference :: "memory_order list \<Rightarrow> inference" where
  "sample_inference ms = (Inference_new 0)\<lparr>orders := WILDCARD_NONEXIST # ms\<rparr>"

theorem compareTo_is_pointwise_order_witness:
  "compareTo (sample_inference [memory_order_acquire, memory_order_relaxed])
     (sample_inference [memory_order_release, memory_order_relaxed]) = - 2"
proof -
  let ?i = "sample_inference [memory_order_acquire, memory_order_relaxed]"
  let ?j = "sample_inference [memory_order_release, memory_order_relaxed]"
  have "settled ?i" "settled ?j" "getSize ?i = getSize ?j"
    by (simp_all add: settled_def sample_inference_def getSize_def)
  from compareTo_is_pointwise_order [OF this] show ?thesis
    by (simp add: infer_le_def sample_inference_def)
qed

section \<open>Patches against the specification\<close>

text \<open>
  \<open>grants\<close> reads an inference as a function from wildcards to guarantees; a wildcard beyond
  the array, like one that does not exist, is granted nothing.
\<close>

definition entry :: "inference \<Rightarrow> nat \<Rightarrow> memory_order" where
  "entry i k = vec_get (orders i) k WILDCARD_NONEXIST"

definition grants :: "inference \<Rightarrow> nat \<Rightarrow> guarantee set" where
  "grants i k = guarantees (entry i k)"

definition well_formed :: "inference \<Rightarrow> bool" where
  "well_formed i \<longleftrightarrow> orders i \<noteq> [] \<and> getSize i \<le> MAX_WILDCARD_NUM
     \<and> list_all (\<lambda>m. plain_order m \<or> m = WILDCARD_NONEXIST) (orders i)"

definition patchable :: "patch_unit \<Rightarrow> bool" where
  "patchable u \<longleftrightarrow> is_wildcard (original_order (unit_act u))
     \<and> get_wildcard_id_zero (original_order (unit_act u)) \<le> MAX_WILDCARD_NUM
     \<and> plain_order (unit_mo u)"

abbreviation unit_id :: "patch_unit \<Rightarrow> nat" where
  "unit_id u \<equiv> get_wildcard_id_zero (original_order (unit_act u))"

lemma well_formed_entry: "well_formed i \<Longrightarrow> plain_order (entry i k) \<or> entry i k = WILDCARD_NONEXIST"
  by (auto simp: well_formed_def entry_def vec_get_def list_all_length)

lemma entry_same_orders: "orders j = orders i \<Longrightarrow> entry j = entry i"
  by (simp add: entry_def fun_eq_iff)

lemma well_formed_same_orders: "orders j = orders i \<Longrightarrow> well_formed j = well_formed i"
  by (simp add: well_formed_def getSize_def)

lemma Inference_new_well_formed: "well_formed (Inference_new n)"
  by (simp add: well_formed_def Inference_new_def getSize_def MAX_WILDCARD_NUM_def list_all_iff)

lemma infer_resize_grows:
  assumes "well_formed i" and "getSize i < n" and "n \<le> MAX_WILDCARD_NUM"
  obtains j where "infer_resize (int n) i = Some j" and "well_formed j" and "entry j = entry i"
    and "length (orders j) = Suc n"
proof -
  define j where "j = i\<lparr>orders := vec_resize (orders i) (n + 1) WILDCARD_NONEXIST\<rparr>"
  have len: "length (orders i) \<le> n + 1" using assms(1,2) by (cases "orders i") (auto simp: getSize_def)
  have "infer_resize (int n) i = Some j"
    using assms(2,3) by (simp add: infer_resize_def j_def)
  moreover have "list_all (\<lambda>m. plain_order m \<or> m = WILDCARD_NONEXIST) (orders j)"
    using assms(1) by (auto simp: j_def well_formed_def list_all_length)
  then have "well_formed j"
    using assms(3) by (simp add: j_def well_formed_def getSize_def vec_resize_def)
  moreover have "entry j = entry i"
    using vec_get_resize [OF len] by (simp add: j_def entry_def fun_eq_iff)
  ultimately show thesis using that by (simp add: j_def)
qed

lemma well_formed_update:
  "well_formed j \<Longrightarrow> plain_order m \<Longrightarrow> well_formed (j\<lparr>orders := (orders j)[k := m]\<rparr>)"
  using set_update_subset_insert [of "orders j" k m]
  by (auto simp: well_formed_def getSize_def list_all_iff)

lemma entry_update:
  "k < length (orders j) \<Longrightarrow> entry (j\<lparr>orders := (orders j)[k := m]\<rparr>) = (entry j)(k := m)"
  by (auto simp: entry_def vec_get_def)

lemma plain_is_normal:
  "plain_order m \<Longrightarrow> is_normal_mo m"
  "plain_order m \<or> m = WILDCARD_NONEXIST \<Longrightarrow> is_normal_mo_infer m"
  by (auto simp: is_normal_mo_def is_normal_mo_infer_def elim!: plain_order_cases)

lemma strengthen_grants:
  assumes "well_formed i" and "patchable u"
  obtains r j where "strengthen (unit_act u) (unit_mo u) i = Some (r, j)" and "well_formed j"
    and "grants j = (grants i)(unit_id u := grants i (unit_id u) \<union> guarantees (unit_mo u))"
    and "r = 0 \<or> r = 1" and "r = 0 \<Longrightarrow> grants j = grants i"
    and "entry i (unit_id u) \<noteq> WILDCARD_NONEXIST \<Longrightarrow> r = 1 \<longleftrightarrow> grants j \<noteq> grants i"
    and "\<And>k. entry i k \<noteq> WILDCARD_NONEXIST \<Longrightarrow> entry j k \<noteq> WILDCARD_NONEXIST"
proof -
  let ?k = "unit_id u" and ?m = "unit_mo u"
  have wild: "is_wildcard (original_order (unit_act u))" and k50: "?k \<le> MAX_WILDCARD_NUM"
    and m: "plain_order ?m" using assms(2) by (auto simp: patchable_def)
  obtain i' where res: "(if ?k > getSize i then infer_resize (int ?k) i else Some i) = Some i'"
    and wf: "well_formed i'" and en: "entry i' = entry i" and len: "?k < length (orders i')"
  proof (cases "?k > getSize i")
    case True
    then show thesis using infer_resize_grows [OF assms(1) True k50] that by force
  next
    case False
    moreover have "?k < length (orders i)"
      using False assms(1) by (cases "orders i") (auto simp: getSize_def well_formed_def)
    ultimately show thesis using that [of i] assms(1) by simp
  qed
  obtain r new where so: "strengthen_order (orders i' ! ?k) ?m = (r, new)" by fastforce
  have cur: "orders i' ! ?k = entry i ?k" using en len by (metis entry_def vec_get_def)
  have curp: "plain_order (orders i' ! ?k) \<or> orders i' ! ?k = WILDCARD_NONEXIST"
    using well_formed_entry [OF assms(1)] cur by simp
  note joins = strengthen_order_joins [OF curp m so]
  define j where "j = i'\<lparr>orders := (orders i')[?k := new]\<rparr>"
  have "strengthen (unit_act u) ?m i = Some (r, j)"
    using wild res so plain_is_normal(1) [OF m] plain_is_normal(2) [OF curp]
    by (simp add: strengthen_def j_def Let_def)
  moreover have "well_formed j" using well_formed_update [OF wf joins(2)] by (simp add: j_def)
  moreover have ej: "entry j = (entry i)(?k := new)"
    using entry_update [OF len] en by (simp add: j_def)
  have gj: "grants j = (grants i)(?k := grants i ?k \<union> guarantees ?m)"
    using ej joins(1) cur by (auto simp: grants_def fun_eq_iff)
  moreover have iff: "r = 1 \<longleftrightarrow> grants j \<noteq> grants i" if "entry i ?k \<noteq> WILDCARD_NONEXIST"
  proof -
    have "plain_order (entry i ?k)" using well_formed_entry [OF assms(1)] that by blast
    then have "guarantees new = guarantees (entry i ?k) \<longleftrightarrow> new = entry i ?k"
      using guarantees_inject [OF joins(2)] by blast
    moreover have "grants j \<noteq> grants i \<longleftrightarrow> guarantees new \<noteq> guarantees (entry i ?k)"
      using ej by (auto simp: grants_def fun_eq_iff)
    ultimately show ?thesis using joins(3) that cur by auto
  qed
  moreover have "grants j = grants i" if "r = 0"
    using that iff so cur by (cases "entry i ?k") (auto simp: strengthen_order_def)
  moreover have "entry j k \<noteq> WILDCARD_NONEXIST" if "entry i k \<noteq> WILDCARD_NONEXIST" for k
    using that ej joins(2) by auto
  ultimately show thesis using that joins(4) by blast
qed

text \<open>What a list of units asks of wildcard \<open>k\<close>.\<close>

definition demanded :: "patch \<Rightarrow> nat \<Rightarrow> guarantee set" where
  "demanded p k = (\<Union>u \<in> {u \<in> set p. unit_id u = k}. guarantees (unit_mo u))"

lemma demanded_Nil: "demanded [] = (\<lambda>k. {})"
  by (rule ext) (simp add: demanded_def)

lemma demanded_Cons:
  "demanded (u # p) = (\<lambda>k. (if unit_id u = k then guarantees (unit_mo u) else {}) \<union> demanded p k)"
  by (auto simp: demanded_def fun_eq_iff)

lemma apply_units_grants:
  assumes "well_formed i" and "list_all patchable p"
  shows "\<exists>b j. apply_units p ch i = Some (b, j) \<and> well_formed j
    \<and> grants j = (\<lambda>k. grants i k \<union> demanded p k)
    \<and> (\<not> b \<longrightarrow> \<not> ch \<and> grants j = grants i)
    \<and> ((\<forall>u \<in> set p. entry i (unit_id u) \<noteq> WILDCARD_NONEXIST) \<longrightarrow> b = (ch \<or> grants j \<noteq> grants i))"
  using assms
proof (induction p arbitrary: i ch)
  case Nil
  then show ?case by (simp add: demanded_def)
next
  case (Cons u p)
  from Cons.prems(2) have u: "patchable u" and p: "list_all patchable p" by auto
  obtain r j where st: "strengthen (unit_act u) (unit_mo u) i = Some (r, j)" and wf: "well_formed j"
    and g: "grants j = (grants i)(unit_id u := grants i (unit_id u) \<union> guarantees (unit_mo u))"
    and r: "r = 0 \<or> r = 1" and r0: "r = 0 \<Longrightarrow> grants j = grants i"
    and r1: "entry i (unit_id u) \<noteq> WILDCARD_NONEXIST \<Longrightarrow> r = 1 \<longleftrightarrow> grants j \<noteq> grants i"
    and ex: "\<And>k. entry i k \<noteq> WILDCARD_NONEXIST \<Longrightarrow> entry j k \<noteq> WILDCARD_NONEXIST"
    using strengthen_grants [OF Cons.prems(1) u] by metis
  obtain b j' where ap: "apply_units p (ch \<or> r = 1) j = Some (b, j')" and wf': "well_formed j'"
    and g': "grants j' = (\<lambda>k. grants j k \<union> demanded p k)"
    and b0: "\<not> b \<Longrightarrow> \<not> (ch \<or> r = 1) \<and> grants j' = grants j"
    and b1: "\<forall>v \<in> set p. entry j (unit_id v) \<noteq> WILDCARD_NONEXIST
        \<Longrightarrow> b = ((ch \<or> r = 1) \<or> grants j' \<noteq> grants j)"
    using Cons.IH [OF wf p, of "ch \<or> r = 1"] by blast
  have "apply_units (u # p) ch i = Some (b, j')"
    using st ap r by (auto simp: strengthen_flags_def)
  moreover have eq: "grants j' = (\<lambda>k. grants i k \<union> demanded (u # p) k)"
    using g g' by (auto simp: demanded_Cons fun_eq_iff)
  moreover have "\<not> b \<longrightarrow> \<not> ch \<and> grants j' = grants i"
    using b0 r r0 by auto
  moreover have "b = (ch \<or> grants j' \<noteq> grants i)"
    if all: "\<forall>v \<in> set (u # p). entry i (unit_id v) \<noteq> WILDCARD_NONEXIST"
  proof -
    have up: "grants i k \<subseteq> grants j k" "grants j k \<subseteq> grants j' k" for k
      using g g' by auto
    have "b \<longleftrightarrow> (ch \<or> grants j \<noteq> grants i) \<or> grants j' \<noteq> grants j"
      using b1 r1 all ex by auto
    moreover have "grants j = grants i" if "grants j' = grants i"
      using up that by (auto simp: fun_eq_iff)
    ultimately show ?thesis by metis
  qed
  ultimately show ?case using wf' by blast
qed

text \<open>
  C21: imposing a patch on a new inference, unit after unit through the case distinction of
  \<open>strengthen\<close>, never fails when the units are about wildcards, keeps the inference well formed,
  and yields the weakest inference that is above the old one and grants what every unit asks
  for: whatever assignment is above both is above the result.
\<close>

theorem applyPatch_least:
  assumes "well_formed i" and "list_all patchable p"
  shows "\<exists>b j. applyPatch_one p i = Some (b, j) \<and> well_formed j
    \<and> (\<forall>g. (\<forall>k. grants j k \<subseteq> g k) \<longleftrightarrow> (\<forall>k. grants i k \<subseteq> g k \<and> demanded p k \<subseteq> g k))"
proof -
  obtain b j where "apply_units p False i = Some (b, j)" "well_formed j"
    "grants j = (\<lambda>k. grants i k \<union> demanded p k)"
    using apply_units_grants [OF assms, of False] by blast
  then show ?thesis by (auto simp: applyPatch_one_def)
qed

definition sample_unit :: "nat \<Rightarrow> memory_order \<Rightarrow> patch_unit" where
  "sample_unit w mo = \<lparr>unit_act = \<lparr>act_type = ATOMIC_READ, order = memory_order_relaxed,
     original_order = memory_order_wildcard w, location = 64, tid = 1, act_value = 0,
     reads_from = None, reads_from_promise = None, last_fence_release = None, act_node = None,
     seq_number = 1, cv = None, sleep_flag = False\<rparr>, unit_mo = mo\<rparr>"

theorem applyPatch_least_witness:
  "\<exists>b j. applyPatch_one [sample_unit 1 memory_order_acquire, sample_unit 3 memory_order_release]
       (sample_inference [memory_order_release, memory_order_relaxed]) = Some (b, j)
     \<and> {Acquires, Releases} \<subseteq> grants j 1 \<and> {Releases} \<subseteq> grants j 3"
proof -
  let ?i = "sample_inference [memory_order_release, memory_order_relaxed]"
  let ?p = "[sample_unit 1 memory_order_acquire, sample_unit 3 memory_order_release]"
  have wf: "well_formed ?i"
    by (simp add: well_formed_def sample_inference_def getSize_def MAX_WILDCARD_NUM_def)
  have id: "get_wildcard_id_zero (memory_order_wildcard 1) = 1"
    "get_wildcard_id_zero (memory_order_wildcard 3) = 3"
    by (simp_all add: get_wildcard_id_zero_def get_wildcard_id_def)
  have "is_wildcard (memory_order_wildcard 1)" "is_wildcard (memory_order_wildcard 3)"
    by (simp_all add: is_wildcard_def)
  then have un: "list_all patchable ?p"
    using id by (simp add: patchable_def sample_unit_def MAX_WILDCARD_NUM_def)
  obtain b j where j: "applyPatch_one ?p ?i = Some (b, j)"
    and least: "\<forall>g. (\<forall>k. grants j k \<subseteq> g k) \<longleftrightarrow> (\<forall>k. grants ?i k \<subseteq> g k \<and> demanded ?p k \<subseteq> g k)"
    using applyPatch_least [OF wf un] by (elim exE conjE) (rule that)
  have above: "grants ?i k \<subseteq> grants j k \<and> demanded ?p k \<subseteq> grants j k" for k
    using least [THEN spec, of "grants j"] by blast
  have "{Releases} \<subseteq> grants ?i 1" "{Acquires} \<subseteq> demanded ?p 1" "{Releases} \<subseteq> demanded ?p 3"
    using id by (simp_all add: grants_def entry_def vec_get_def sample_inference_def demanded_Cons
        demanded_Nil sample_unit_def)
  then have "{Acquires, Releases} \<subseteq> grants j 1 \<and> {Releases} \<subseteq> grants j 3"
    using above [of 1] above [of 3] by blast
  with j show ?thesis by blast
qed

text \<open>
  A unit on an operation whose order is fixed in the program ends the loop, even when that
  order already satisfies the unit and the patch is applicable: the units behind it are lost.
\<close>

lemma fixed_order_ends_patch:
  assumes "\<not> is_wildcard (original_order (unit_act u))"
  shows "applyPatch_one (u # p) i = Some (False, i)"
  using assms by (simp add: applyPatch_one_def strengthen_flags_def strengthen_def)

end
