(* ===== verification/InferenceSet.thy ===== *)
theory InferenceSet
  imports Inference "HOL-Library.Sublist"
begin

text \<open>
  \<open>scfence/inferlist.cc\<close> and \<open>inferset.cc\<close>: lists of inferences and the set of inferences the
  search works through.

  Inferences are shared by pointer between the three lists of the set, the list a fix is built
  in and the plugin's current inference, and are changed through any of these pointers. So they
  live in a store: a pointer is a number, \<open>infers\<close> holds the objects that exist, \<open>delete\<close> takes
  one out, and reading one that has been deleted is \<open>None\<close>. An \<open>InferenceList\<close> is the list of
  its pointers. The loops that erase with \<open>it = list->erase(it); it--;\<close> keep the elements the
  test spares, in order (the list of the C++ library is circular, so stepping back from its first
  element and forward again is the new first element).
\<close>

section \<open>The store\<close>

record infer_state =
  infers :: "iid \<rightharpoonup> inference"
  next_infer :: iid
  discoveredSet :: "iid list"
  results :: "iid list"
  candidates :: "iid list"
  notAddedAtFirstPlace :: nat

definition put_infer :: "iid \<Rightarrow> inference \<Rightarrow> 'a infer_state_scheme \<Rightarrow> 'a infer_state_scheme" where
  "put_infer n i s = s\<lparr>infers := (infers s)(n \<mapsto> i)\<rparr>"

definition new_infer :: "inference \<Rightarrow> 'a infer_state_scheme \<Rightarrow> iid \<times> 'a infer_state_scheme" where
  "new_infer i s = (next_infer s,
     s\<lparr>infers := (infers s)(next_infer s \<mapsto> i), next_infer := Suc (next_infer s)\<rparr>)"

definition delete_infer :: "iid \<Rightarrow> 'a infer_state_scheme \<Rightarrow> 'a infer_state_scheme option" where
  "delete_infer n s =
     (case infers s n of None \<Rightarrow> None | Some _ \<Rightarrow> Some (s\<lparr>infers := (infers s)(n := None)\<rparr>))"

text \<open>\<open>new Inference(infer)\<close>.\<close>

definition copy_infer :: "iid \<Rightarrow> 'a infer_state_scheme \<Rightarrow> (iid \<times> 'a infer_state_scheme) option" where
  "copy_infer n s = do {
     i \<leftarrow> infers s n;
     j \<leftarrow> Inference_copy i;
     Some (new_infer j s)
   }"

definition compare_infers :: "iid \<Rightarrow> iid \<Rightarrow> 'a infer_state_scheme \<Rightarrow> int option" where
  "compare_infers m n s = do { i \<leftarrow> infers s m; j \<leftarrow> infers s n; Some (compareTo i j) }"

definition assign_infer ::
  "iid \<Rightarrow> int \<Rightarrow> memory_order \<Rightarrow> 'a infer_state_scheme \<Rightarrow> 'a infer_state_scheme option" where
  "assign_infer n idx mo s = do {
     i \<leftarrow> infers s n;
     j \<leftarrow> infer_set idx mo i;
     Some (put_infer n j s)
   }"

definition read_infer ::
  "iid \<Rightarrow> int \<Rightarrow> 'a infer_state_scheme \<Rightarrow> (memory_order \<times> 'a infer_state_scheme) option" where
  "read_infer n idx s = do {
     i \<leftarrow> infers s n;
     (mo, j) \<leftarrow> infer_get idx i;
     Some (mo, put_infer n j s)
   }"

definition update_infer ::
  "iid \<Rightarrow> (inference \<Rightarrow> inference) \<Rightarrow> 'a infer_state_scheme \<Rightarrow> 'a infer_state_scheme option" where
  "update_infer n f s = do { i \<leftarrow> infers s n; Some (put_infer n (f i) s) }"

section \<open>Lists of inferences\<close>

text \<open>The body of the \<open>applyPatch\<close> loops: a patched copy of \<open>old\<close>, deleted if nothing changed.\<close>

definition patched_copy ::
  "iid \<Rightarrow> patch \<Rightarrow> 'a infer_state_scheme \<Rightarrow> (iid list \<times> 'a infer_state_scheme) option" where
  "patched_copy old p s = do {
     (n, s) \<leftarrow> copy_infer old s;
     i \<leftarrow> infers s n;
     (updated, j) \<leftarrow> applyPatch_one p i;
     let s1 = put_infer n j s;
     if \<not> updated then do { s2 \<leftarrow> delete_infer n s1; Some ([], s2) } else Some ([n], s1)
   }"

fun collect ::
  "('b \<Rightarrow> 's \<Rightarrow> ('c list \<times> 's) option) \<Rightarrow> 'b list \<Rightarrow> 's \<Rightarrow> ('c list \<times> 's) option" where
  "collect f [] s = Some ([], s)"
| "collect f (x # xs) s = do {
     (ys, s1) \<leftarrow> f x s;
     (zs, s2) \<leftarrow> collect f xs s1;
     Some (ys @ zs, s2)
   }"

definition applyPatch ::
  "iid \<Rightarrow> patch \<Rightarrow> iid list \<Rightarrow> 'a infer_state_scheme \<Rightarrow> (iid list \<times> 'a infer_state_scheme) option" where
  "applyPatch curInfer p l s =
     (if l = [] then patched_copy curInfer p s
      else do {
        (newList, s1) \<leftarrow> collect (\<lambda>old. patched_copy old p) l s;
        s2 \<leftarrow> fold_opt delete_infer l s1;
        Some (newList, s2)
      })"

definition applyPatches ::
  "iid \<Rightarrow> patch list \<Rightarrow> iid list \<Rightarrow> 'a infer_state_scheme \<Rightarrow> (iid list \<times> 'a infer_state_scheme) option" where
  "applyPatches curInfer patches l s =
     (if l = [] then collect (patched_copy curInfer) patches s
      else do {
        (newList, s1) \<leftarrow> collect (\<lambda>old. collect (patched_copy old) patches) l s;
        s2 \<leftarrow> fold_opt delete_infer l s1;
        Some (newList, s2)
      })"

text \<open>
  The inner loop of \<open>pruneCandidates\<close>: the kept inferences that are equal to or stronger than
  \<open>cand\<close> are deleted.
\<close>

fun drop_stronger ::
  "iid \<Rightarrow> iid list \<Rightarrow> 'a infer_state_scheme \<Rightarrow> (iid list \<times> 'a infer_state_scheme) option" where
  "drop_stronger cand [] s = Some ([], s)"
| "drop_stronger cand (addedInfer # rest) s = do {
     compVal \<leftarrow> compare_infers addedInfer cand s;
     if compVal = 0 \<or> compVal = 1
     then do { s1 \<leftarrow> delete_infer addedInfer s; drop_stronger cand rest s1 }
     else do { (kept, s1) \<leftarrow> drop_stronger cand rest s; Some (addedInfer # kept, s1) }
   }"

fun prune_loop ::
  "iid \<Rightarrow> iid list \<Rightarrow> iid list \<Rightarrow> 'a infer_state_scheme \<Rightarrow> (iid list \<times> 'a infer_state_scheme) option" where
  "prune_loop curInfer [] newCandidates s = Some (newCandidates, s)"
| "prune_loop curInfer (cand # rest) newCandidates s = do {
     compVal \<leftarrow> compare_infers cand curInfer s;
     if compVal = 0
     then do { s1 \<leftarrow> delete_infer cand s; prune_loop curInfer rest newCandidates s1 }
     else do {
       (kept, s1) \<leftarrow> drop_stronger cand newCandidates s;
       prune_loop curInfer rest (kept @ [cand]) s1
     }
   }"

definition pruneCandidates ::
  "iid \<Rightarrow> iid list \<Rightarrow> 'a infer_state_scheme \<Rightarrow> (iid list \<times> 'a infer_state_scheme) option" where
  "pruneCandidates curInfer l s = prune_loop curInfer l [] s"

section \<open>The set\<close>

definition InferenceSet_init :: "'a infer_state_scheme \<Rightarrow> 'a infer_state_scheme" where
  "InferenceSet_init s = s\<lparr>discoveredSet := [], results := [], candidates := [],
     notAddedAtFirstPlace := 0\<rparr>"

fun drop_results ::
  "iid \<Rightarrow> iid list \<Rightarrow> 'a infer_state_scheme \<Rightarrow> iid list option" where
  "drop_results infer [] s = Some []"
| "drop_results infer (existResult # rest) s = do {
     compVal \<leftarrow> compare_infers existResult infer s;
     kept \<leftarrow> drop_results infer rest s;
     Some (if compVal = 0 \<or> compVal = 1 then kept else existResult # kept)
   }"

definition addResult :: "iid \<Rightarrow> 'a infer_state_scheme \<Rightarrow> 'a infer_state_scheme option" where
  "addResult infer s = do {
     kept \<leftarrow> drop_results infer (results s) s;
     Some (s\<lparr>results := kept @ [infer]\<rparr>)
   }"

definition commitInference ::
  "iid \<Rightarrow> bool \<Rightarrow> 'a infer_state_scheme \<Rightarrow> 'a infer_state_scheme option" where
  "commitInference infer feasible s = do {
     s1 \<leftarrow> update_infer infer (\<lambda>i. i\<lparr>explored := True\<rparr>) s;
     if feasible then addResult infer s1 else Some s1
   }"

definition hasBeenDiscovered :: "iid \<Rightarrow> 'a infer_state_scheme \<Rightarrow> bool option" where
  "hasBeenDiscovered infer s =
     exists_opt (\<lambda>d. do {
         compVal \<leftarrow> compare_infers d infer s;
         i \<leftarrow> infers s d;
         Some (compVal = 0 \<or> (compVal = - 1 \<and> leaf i \<and> explored i))
       }) (discoveredSet s)"

definition hasBeenExplored :: "iid \<Rightarrow> 'a infer_state_scheme \<Rightarrow> bool option" where
  "hasBeenExplored infer s =
     exists_opt (\<lambda>d. do {
         i \<leftarrow> infers s d;
         if \<not> explored i then Some False
         else do {
           compVal \<leftarrow> compare_infers d infer s;
           Some (compVal = 0 \<or> compVal = - 1)
         }
       }) (discoveredSet s)"

definition addInference :: "iid \<Rightarrow> 'a infer_state_scheme \<Rightarrow> (bool \<times> 'a infer_state_scheme) option" where
  "addInference infer s = do {
     found \<leftarrow> hasBeenDiscovered infer s;
     if \<not> found then do {
       s1 \<leftarrow> update_infer infer (\<lambda>i. i\<lparr>leaf := True\<rparr>) s;
       Some (True, s1\<lparr>candidates := candidates s1 @ [infer],
                     discoveredSet := discoveredSet s1 @ [infer]\<rparr>)
     } else Some (False, s\<lparr>notAddedAtFirstPlace := notAddedAtFirstPlace s + 1\<rparr>)
   }"

definition addCurInference :: "iid \<Rightarrow> 'a infer_state_scheme \<Rightarrow> 'a infer_state_scheme option" where
  "addCurInference infer s = do {
     s1 \<leftarrow> update_infer infer (\<lambda>i. i\<lparr>leaf := False\<rparr>) s;
     Some (s1\<lparr>candidates := candidates s1 @ [infer]\<rparr>)
   }"

text \<open>
  The loop of \<open>addCandidates\<close> over the pruned list. A candidate that is not added keeps its
  object, although nothing points to it any more once the list is deleted.
\<close>

fun add_candidate_loop ::
  "iid \<Rightarrow> iid list \<Rightarrow> bool \<Rightarrow> 'a infer_state_scheme \<Rightarrow> (bool \<times> 'a infer_state_scheme) option" where
  "add_candidate_loop curInfer [] added s = Some (added, s)"
| "add_candidate_loop curInfer (candidate # rest) added s = do {
     c \<leftarrow> infers s curInfer;
     s1 \<leftarrow> update_infer candidate (\<lambda>i. i\<lparr>initialInfer := initialInfer c\<rparr>) s;
     (tmpAdded, s2) \<leftarrow> addInference candidate s1;
     add_candidate_loop curInfer rest (added \<or> tmpAdded) s2
   }"

definition addCandidates ::
  "iid \<Rightarrow> iid list \<Rightarrow> 'a infer_state_scheme \<Rightarrow> (bool \<times> 'a infer_state_scheme) option" where
  "addCandidates curInfer inferList s = do {
     (cands, s1) \<leftarrow> pruneCandidates curInfer inferList s;
     s2 \<leftarrow> addCurInference curInfer s1;
     add_candidate_loop curInfer cands False s2
   }"

lemma commitInference_candidates:
  "commitInference infer feasible s = Some s1 \<Longrightarrow> candidates s1 = candidates s"
  by (auto simp: commitInference_def addResult_def update_infer_def put_infer_def
      split: bind_splits if_splits)

function getNextInference ::
  "'a infer_state_scheme \<Rightarrow> (iid option \<times> 'a infer_state_scheme) option" where
  "getNextInference s =
     (if candidates s = [] then Some (None, s)
      else do {
        let infer = last (candidates s);
        let s1 = s\<lparr>candidates := butlast (candidates s)\<rparr>;
        i \<leftarrow> infers s1 infer;
        if \<not> leaf i then do {
          s2 \<leftarrow> commitInference infer False s1;
          getNextInference s2
        } else do {
          done_before \<leftarrow> (if shouldFix i then hasBeenExplored infer s1 else Some False);
          if done_before then getNextInference s1 else Some (Some infer, s1)
        }
      })"
  by pat_completeness auto
termination
  by (relation "measure (\<lambda>s. length (candidates s))") (auto dest!: commitInference_candidates)

declare getNextInference.simps [simp del]

subsection \<open>Weakening a successful inference\<close>

text \<open>
  The search through the discovered inferences before a weaker one is added: an equal one that
  has been strengthened further.
\<close>

definition found_inner :: "iid \<Rightarrow> 'a infer_state_scheme \<Rightarrow> bool option" where
  "found_inner w s = exists_opt (\<lambda>d. do {
       compVal \<leftarrow> compare_infers d w s;
       i \<leftarrow> infers s d;
       Some (compVal = 0 \<and> \<not> leaf i)
     }) (discoveredSet s)"

definition add_weaker :: "iid \<Rightarrow> 'a infer_state_scheme \<Rightarrow> 'a infer_state_scheme option" where
  "add_weaker w s = do {
     foundIt \<leftarrow> found_inner w s;
     if \<not> foundIt then do { (_, s1) \<leftarrow> addInference w s; Some s1 } else Some s
   }"

text \<open>
  One strengthened wildcard \<open>w\<close>: the copies with a weaker order there (\<open>weakerInfer1\<close> and, from
  \<open>acq_rel\<close> over a relaxed initial order, \<open>weakerInfer2\<close>).
\<close>

definition weaken_wildcard ::
  "iid \<Rightarrow> iid \<Rightarrow> int \<Rightarrow> 'a infer_state_scheme \<Rightarrow> 'a infer_state_scheme option" where
  "weaken_wildcard curInfer initial w s = do {
     (mo1, s) \<leftarrow> read_infer curInfer w s;
     (mo2, s) \<leftarrow> read_infer initial w s;
     let weakerMO = nextWeakOrder mo1 mo2;
     (weakerInfer1, s) \<leftarrow> copy_infer curInfer s;
     (weakerInfer2, s) \<leftarrow>
       (if mo1 = memory_order_acq_rel then
          (if mo2 = memory_order_acquire
           then do { s \<leftarrow> assign_infer weakerInfer1 w memory_order_acquire s; Some (None, s) }
           else if mo2 = memory_order_release
           then do { s \<leftarrow> assign_infer weakerInfer1 w memory_order_release s; Some (None, s) }
           else do {
             s \<leftarrow> assign_infer weakerInfer1 w memory_order_acquire s;
             (weakerInfer2, s) \<leftarrow> copy_infer curInfer s;
             s \<leftarrow> assign_infer weakerInfer2 w memory_order_release s;
             Some (Some weakerInfer2, s)
           })
        else if mo2 \<noteq> weakerMO
        then do { s \<leftarrow> assign_infer weakerInfer1 w weakerMO s; Some (None, s) }
        else Some (None, s));
     s \<leftarrow> update_infer weakerInfer1 (\<lambda>i. i\<lparr>shouldFix := False, leaf := True\<rparr>) s;
     case weakerInfer2 of
       None \<Rightarrow> add_weaker weakerInfer1 s
     | Some w2 \<Rightarrow> do {
         s \<leftarrow> update_infer w2 (\<lambda>i. i\<lparr>shouldFix := False, leaf := True\<rparr>) s;
         s \<leftarrow> add_weaker weakerInfer1 s;
         add_weaker w2 s
       }
   }"

definition addWeakerInference :: "iid \<Rightarrow> 'a infer_state_scheme \<Rightarrow> 'a infer_state_scheme option" where
  "addWeakerInference curInfer s = do {
     i1 \<leftarrow> infers s curInfer;
     let initial = initialInfer i1;
     i2 \<leftarrow> infers s initial;
     (strengthened, i2') \<leftarrow> strengthened_wildcards i1 i2;
     fold_opt (weaken_wildcard curInfer initial) strengthened (put_infer initial i2' s)
   }"

section \<open>What the set promises\<close>

text \<open>Every pointer the lists hold leads to an object.\<close>

definition infers_alive :: "'a infer_state_scheme \<Rightarrow> bool" where
  "infers_alive s \<longleftrightarrow> set (candidates s) \<union> set (discoveredSet s) \<subseteq> dom (infers s)"

lemma exists_opt_total:
  "(\<And>x. x \<in> set xs \<Longrightarrow> \<exists>b. f x = Some b) \<Longrightarrow> \<exists>b. exists_opt f xs = Some b"
proof (induction xs)
  case Nil
  show ?case by (rule exI [of _ False]) simp
next
  case (Cons x xs)
  then obtain b c where "f x = Some b" "exists_opt f xs = Some c" by force
  then show ?case by (intro exI [of _ "b \<or> c"]) simp
qed

lemma hasBeenExplored_total:
  assumes "set (discoveredSet s) \<subseteq> dom (infers s)" and "infers s n = Some i"
  shows "\<exists>b. hasBeenExplored n s = Some b"
  unfolding hasBeenExplored_def
proof (rule exists_opt_total)
  fix d
  assume "d \<in> set (discoveredSet s)"
  then obtain j where "infers s d = Some j" using assms(1) by blast
  then show "\<exists>b. (do {
         i \<leftarrow> infers s d;
         if \<not> explored i then Some False
         else do { compVal \<leftarrow> compare_infers d n s; Some (compVal = 0 \<or> compVal = - 1) } }) = Some b"
    using assms(2) by (auto simp: compare_infers_def intro: exI [of _ False])
qed

lemma update_infer_frame:
  "update_infer n f s = Some s1 \<Longrightarrow>
     candidates s1 = candidates s \<and> discoveredSet s1 = discoveredSet s \<and> results s1 = results s
     \<and> dom (infers s1) = dom (infers s)"
  by (auto simp: update_infer_def put_infer_def split: bind_splits if_splits)

lemma mark_explored_frame:
  assumes "commitInference n False s = Some s1"
  shows "candidates s1 = candidates s" and "discoveredSet s1 = discoveredSet s"
    and "results s1 = results s" and "dom (infers s1) = dom (infers s)"
  using update_infer_frame [of n "\<lambda>i. i\<lparr>explored := True\<rparr>" s s1] assms
  by (simp_all add: commitInference_def split: bind_splits)

lemma mark_explored_total:
  "n \<in> dom (infers s) \<Longrightarrow> \<exists>s1. commitInference n False s = Some s1"
  by (auto simp: commitInference_def update_infer_def)

text \<open>One turn of the loop of \<open>getNextInference\<close>.\<close>

lemma getNextInference_empty: "candidates s = [] \<Longrightarrow> getNextInference s = Some (None, s)"
  by (subst getNextInference.simps) simp

lemma getNextInference_inner:
  assumes "candidates s \<noteq> []" and "infers s (last (candidates s)) = Some i" and "\<not> leaf i"
  shows "getNextInference s =
    Option.bind (commitInference (last (candidates s)) False
       (s\<lparr>candidates := butlast (candidates s)\<rparr>)) getNextInference"
  by (subst getNextInference.simps) (use assms in simp)

lemma getNextInference_leaf:
  assumes "candidates s \<noteq> []" and "infers s (last (candidates s)) = Some i" and "leaf i"
    and "s1 = s\<lparr>candidates := butlast (candidates s)\<rparr>"
    and "(if shouldFix i then hasBeenExplored (last (candidates s)) s1 else Some False) = Some b"
  shows "getNextInference s =
    (if b then getNextInference s1 else Some (Some (last (candidates s)), s1))"
  by (subst getNextInference.simps) (use assms in \<open>cases "shouldFix i"; simp add: Let_def\<close>)

definition next_result :: "'a infer_state_scheme \<Rightarrow> iid option \<times> 'a infer_state_scheme \<Rightarrow> bool" where
  "next_result s r = (case r of
       (None, s') \<Rightarrow> candidates s' = []
     | (Some n, s') \<Rightarrow> (\<exists>passed i. candidates s = candidates s' @ n # passed
          \<and> infers s' n = Some i \<and> leaf i
          \<and> (shouldFix i \<longrightarrow> hasBeenExplored n s' = Some False)))"

lemma next_result_earlier:
  assumes "next_result s1 r" and "candidates s = candidates s1 @ [x]"
  shows "next_result s r"
  using assms by (auto simp: next_result_def split: prod.splits option.splits)


definition sample_set :: infer_state where
  "sample_set = \<lparr>infers = [
       0 \<mapsto> (sample_inference [memory_order_relaxed])\<lparr>explored := True\<rparr>,
       1 \<mapsto> (sample_inference [memory_order_acquire])\<lparr>leaf := True, shouldFix := False\<rparr>,
       2 \<mapsto> (sample_inference [memory_order_release])\<lparr>leaf := True\<rparr>],
     next_infer = 3, discoveredSet = [0, 1, 2], results = [], candidates = [1, 2, 0],
     notAddedAtFirstPlace = 0\<rparr>"


text \<open>The results: none is as strong as, or stronger than, one found after it.\<close>

definition results_improve :: "'a infer_state_scheme \<Rightarrow> bool" where
  "results_improve s \<longleftrightarrow> sorted_wrt (\<lambda>a b. \<exists>c. compare_infers a b s = Some c \<and> c \<noteq> 0 \<and> c \<noteq> 1) (results s)"

lemma sorted_wrt_subseq: "subseq xs ys \<Longrightarrow> sorted_wrt R ys \<Longrightarrow> sorted_wrt R xs"
  by (induction rule: list_emb.induct) (auto dest: list_emb_set)

lemma drop_results_spared:
  "drop_results n xs s = Some ys \<Longrightarrow>
    (subseq ys xs) \<and> (\<forall>y \<in> set ys. \<exists>c. compare_infers y n s = Some c \<and> c \<noteq> 0 \<and> c \<noteq> 1)"
proof (induction xs arbitrary: ys)
  case Nil
  then show ?case by simp
next
  case (Cons x xs)
  then obtain c zs where c: "compare_infers x n s = Some c" and zs: "drop_results n xs s = Some zs"
    and ys: "ys = (if c = 0 \<or> c = 1 then zs else x # zs)"
    by (auto split: bind_splits)
  show ?case using Cons.IH [OF zs] c by (auto simp: ys)
qed

lemma addResult_improves:
  assumes "addResult n s = Some s'" and "results_improve s"
  shows "results_improve s'"
proof -
  obtain kept where k: "drop_results n (results s) s = Some kept"
    and s': "s' = s\<lparr>results := kept @ [n]\<rparr>"
    using assms(1) by (auto simp: addResult_def split: bind_splits)
  have cmp: "compare_infers a b s' = compare_infers a b s" for a b
    by (simp add: s' compare_infers_def)
  have "sorted_wrt (\<lambda>a b. \<exists>c. compare_infers a b s = Some c \<and> c \<noteq> 0 \<and> c \<noteq> 1) kept"
    using drop_results_spared [OF k] assms(2) sorted_wrt_subseq unfolding results_improve_def
    by blast
  then show ?thesis
    using drop_results_spared [OF k] by (simp add: results_improve_def s' sorted_wrt_append cmp [unfolded s'])
qed

end
