(* ===== verification/CString.thy ===== *)
theory CString
  imports Prelude
begin

text \<open>\<open>atoi\<close> of the C library: white space, a sign, digits; what follows is ignored.\<close>

definition digit_value :: "char \<Rightarrow> int option" where
  "digit_value c = (let n = (of_char c :: nat) in if 48 \<le> n \<and> n \<le> 57 then Some (int n - 48) else None)"

fun read_digits :: "string \<Rightarrow> int \<Rightarrow> int" where
  "read_digits [] n = n"
| "read_digits (c # cs) n =
     (case digit_value c of None \<Rightarrow> n | Some d \<Rightarrow> read_digits cs (10 * n + d))"

definition atoi :: "string \<Rightarrow> int" where
  "atoi str =
     (case dropWhile (\<lambda>c. c = CHR '' '' \<or> (9 \<le> (of_char c :: nat) \<and> (of_char c :: nat) \<le> 13)) str of
        [] \<Rightarrow> 0
      | c # cs \<Rightarrow>
          if c = CHR ''-'' then - read_digits cs 0
          else if c = CHR ''+'' then read_digits cs 0
          else read_digits (c # cs) 0)"

end
