(* ===== verification/SCFence.thy ===== *)
theory SCFence
  imports ModelChecker SCGen InferenceSet CString
begin

text \<open>
  \<open>scfence/scfence.cc\<close>: the plugin that infers memory orders. For an execution that is not
  sequentially consistent it looks for the orders that would forbid it (\<open>addFixes\<close>), puts the
  strengthened inferences into the set (theory \<open>InferenceSet\<close>) and asks the model checker to
  start over with the next one; when checking ends without such an execution, the inference is
  a result, and weaker ones are tried.

  The members of \<open>scfence_priv\<close> and of \<open>SCFence\<close> extend the inference set's record. The
  generator (theory \<open>SCGen\<close>) lives in memory that snapshots restore, so every analysis starts
  from the generator as the options left it. \<open>requests\<close> collects what the plugin asks of the
  model checker during one call; \<open>exit_asked\<close> is the model checker's exit flag, which only this
  plugin sets. Reading an action beyond the end of a list, a null pointer that is followed and a
  list used after it was deleted are \<open>None\<close>. Messages are left out.
\<close>

section \<open>State\<close>

record scfence = infer_state +
  curInference :: iid
  candidateFile :: "string option"
  inferImplicitMO :: bool
  implicitMOReadBound :: int
  hasRestarted :: bool
  timeout :: int
  weaken :: bool
  report_time :: bool
  scgen :: sc_gen
  fence_sccount :: "32 word"
  fence_nonsccount :: "32 word"
  fence_actions :: uint64
  requests :: plugin_request
  exit_asked :: bool

definition DEFAULT_REPETITIVE_READ_BOUND :: int where
  "DEFAULT_REPETITIVE_READ_BOUND = 20"

text \<open>The constructors; \<open>junk\<close> is the memory the generator was allocated in.\<close>

definition SCFence_new :: "sc_gen \<Rightarrow> scfence" where
  "SCFence_new junk = \<lparr>infers = [0 \<mapsto> Inference_new 0], next_infer = 1, discoveredSet = [],
     results = [], candidates = [], notAddedAtFirstPlace = 0, curInference = 0, candidateFile = None,
     inferImplicitMO = False, implicitMOReadBound = DEFAULT_REPETITIVE_READ_BOUND,
     hasRestarted = False, timeout = 0, weaken = True, report_time = False,
     scgen = SCGenerator_new junk, fence_sccount = 0, fence_nonsccount = 0, fence_actions = 0,
     requests = \<lparr>wants_restart = False, wants_exit = False\<rparr>, exit_asked = False\<rparr>"

definition cur_infer :: "scfence \<Rightarrow> inference option" where
  "cur_infer s = infers s (curInference s)"

definition set_cur :: "(inference \<Rightarrow> inference) \<Rightarrow> scfence \<Rightarrow> scfence option" where
  "set_cur f s = update_infer (curInference s) f s"

definition restartModelChecker :: "scfence \<Rightarrow> scfence" where
  "restartModelChecker s = s\<lparr>requests := (requests s)\<lparr>wants_restart := True\<rparr>, hasRestarted := True\<rparr>"

definition exitModelChecker :: "scfence \<Rightarrow> scfence" where
  "exitModelChecker s = s\<lparr>requests := (requests s)\<lparr>wants_exit := True\<rparr>, exit_asked := True\<rparr>"

section \<open>The orders of the current inference\<close>

definition inspect_action :: "model_action \<Rightarrow> scfence \<Rightarrow> (model_action \<times> scfence) option" where
  "inspect_action act s =
     (if mo_val (order act) \<ge> mo_val memory_order_relaxed
         \<and> mo_val (order act) \<le> mo_val memory_order_seq_cst then Some (act, s)
      else if order act = memory_order_normal then Some (act\<lparr>order := memory_order_relaxed\<rparr>, s)
      else do {
        let wildcardID = get_wildcard_id (order act);
        (ord, s1) \<leftarrow> read_infer (curInference s) wildcardID s;
        if ord = WILDCARD_NONEXIST then do {
          s2 \<leftarrow> assign_infer (curInference s) wildcardID memory_order_relaxed s1;
          Some (act\<lparr>order := memory_order_relaxed\<rparr>, s2)
        } else Some (act\<lparr>order := ord\<rparr>, s1)
      })"

section \<open>Paths of reads-from and sequenced-before edges\<close>

definition thread_list :: "aid list list \<Rightarrow> nat \<Rightarrow> aid list option" where
  "thread_list dup t = (if t < length dup then Some (dup ! t) else None)"

text \<open>The reads of a thread up to a sequence number, each put in front of \<open>path\<close>.\<close>

definition extend_path :: "exec \<Rightarrow> aid list \<Rightarrow> modelclock_t \<Rightarrow> aid list \<Rightarrow> aid list list" where
  "extend_path e l seq path =
     map (\<lambda>act. act # path)
       (filter (\<lambda>act. is_read (A e act)) (takeWhile (\<lambda>act. \<not> seq_number (A e act) > seq) l))"

text \<open>Would adding \<open>write\<close> to the path close a loop?\<close>

definition path_loops :: "exec \<Rightarrow> aid \<Rightarrow> aid list \<Rightarrow> bool" where
  "path_loops e write path = list_ex (\<lambda>addedRead. tid (A e write) = tid (A e addedRead)
       \<and> seq_number (A e write) \<ge> seq_number (A e addedRead)) path"

text \<open>The stack has its top at the end of the list.\<close>

partial_function (option) path_search ::
  "exec \<Rightarrow> aid list list \<Rightarrow> nat \<Rightarrow> modelclock_t \<Rightarrow> aid list list \<Rightarrow> aid list list \<Rightarrow> aid list list option" where
  "path_search e dup idx1 seq1 stack paths =
     (if stack = [] then Some paths
      else do {
        let path = last stack;
        let stack1 = butlast stack;
        write \<leftarrow> reads_from (A e (hd path));
        if seq_number (A e write) = 0 \<or> path_loops e write path
        then path_search e dup idx1 seq1 stack1 paths
        else if tid (A e write) = idx1 \<and> seq_number (A e write) \<ge> seq1
        then path_search e dup idx1 seq1 stack1 (paths @ [path])
        else do {
          l \<leftarrow> thread_list dup (tid (A e write));
          path_search e dup idx1 seq1
            (stack1 @ extend_path e l (seq_number (A e write)) path) paths
        }
      })"

definition get_rf_sb_paths ::
  "exec \<Rightarrow> aid list list \<Rightarrow> aid \<Rightarrow> aid \<Rightarrow> aid list list option" where
  "get_rf_sb_paths e dup act1 act2 = do {
     list1 \<leftarrow> thread_list dup (tid (A e act1));
     list2 \<leftarrow> thread_list dup (tid (A e act2));
     if list1 = [] \<or> list2 = [] then Some []
     else path_search e dup (tid (A e act1)) (seq_number (A e act1))
            (extend_path e list2 (seq_number (A e act2)) []) []
   }"

section \<open>Imposing synchronization\<close>

text \<open>Every read of the path, from the last to the second, must read from the one before it.\<close>

fun isReleaseSequence :: "exec \<Rightarrow> aid list \<Rightarrow> bool" where
  "isReleaseSequence e (r1 # r2 # rest) \<longleftrightarrow>
     reads_from (A e r2) = Some r1 \<and> isReleaseSequence e (r2 # rest)"
| "isReleaseSequence e _ \<longleftrightarrow> True"

definition applicable :: "patch list \<Rightarrow> patch list" where
  "applicable ps = filter isApplicable ps"

text \<open>
  \<open>getAcqRel\<close>: the fences after the read (up to \<open>readBound\<close>) and before the write (back to
  \<open>writeBound\<close>) that could be made to synchronize, or else the two operations themselves.
\<close>

definition getAcqRel ::
  "exec \<Rightarrow> aid list list \<Rightarrow> aid \<Rightarrow> aid \<Rightarrow> aid \<Rightarrow> aid \<Rightarrow> patch list option" where
  "getAcqRel e dup read readBound write writeBound = do {
     readThrd \<leftarrow> thread_list dup (tid (A e read));
     writeThrd \<leftarrow> thread_list dup (tid (A e write));
     let acqFences = filter (\<lambda>a. is_fence (A e a))
           (takeWhile (\<lambda>a. a \<noteq> readBound) (dropWhile (\<lambda>a. a \<noteq> read) readThrd));
     let relFences = filter (\<lambda>a. is_fence (A e a))
           (takeWhile (\<lambda>a. a \<noteq> writeBound) (dropWhile (\<lambda>a. a \<noteq> write) (rev writeThrd)));
     let onAcq = map (\<lambda>f. Patch_two (A e f) memory_order_acquire (A e write) memory_order_release) acqFences;
     let onRel = map (\<lambda>f. Patch_two (A e f) memory_order_release (A e read) memory_order_acquire) relFences;
     let onBoth = applicable (concat (map (\<lambda>f1. map (\<lambda>f2.
           Patch_two (A e f1) memory_order_release (A e f2) memory_order_acquire) acqFences) relFences));
     let patches =
       (if acqFences = [] \<and> relFences = [] then []
        else if relFences = [] then applicable onAcq
        else if acqFences = [] then applicable onRel
        else if onBoth \<noteq> [] then onBoth
        else applicable onAcq @ applicable onRel);
     Some (if patches \<noteq> [] then patches
           else applicable [Patch_two (A e read) memory_order_acquire (A e write) memory_order_release])
   }"

text \<open>
  The loop of \<open>imposeSync\<close> over a path. \<open>prevRead\<close> is declared in the body and never assigned,
  so the bound of the read is \<open>end\<close> every time.
\<close>

fun impose_path ::
  "exec \<Rightarrow> aid list list \<Rightarrow> aid \<Rightarrow> aid \<Rightarrow> aid list \<Rightarrow> iid list \<times> scfence \<Rightarrow>
   (bool \<times> iid list \<times> scfence) option" where
  "impose_path e dup begin_act end_act [] (l, s) = Some (True, l, s)"
| "impose_path e dup begin_act end_act (read # rest) (l, s) = do {
     write \<leftarrow> reads_from (A e read);
     let writeBound = (case rest of [] \<Rightarrow> begin_act | nextRead # _ \<Rightarrow> nextRead);
     patches \<leftarrow> getAcqRel e dup read end_act write writeBound;
     if patches = [] then Some (False, l, s)
     else do {
       (l1, s1) \<leftarrow> applyPatches (curInference s) patches l s;
       impose_path e dup begin_act end_act rest (l1, s1)
     }
   }"

definition imposeSync_path ::
  "exec \<Rightarrow> aid list list \<Rightarrow> aid list \<Rightarrow> aid \<Rightarrow> aid \<Rightarrow> iid list \<times> scfence \<Rightarrow>
   (bool \<times> iid list \<times> scfence) option" where
  "imposeSync_path e dup path begin_act end_act = (\<lambda>(l, s).
     if path = [] then None
     else if isReleaseSequence e path then do {
       relHead \<leftarrow> reads_from (A e (hd path));
       patches \<leftarrow> getAcqRel e dup (last path) end_act relHead begin_act;
       if patches = [] then Some (False, l, s)
       else do {
         (l1, s1) \<leftarrow> applyPatches (curInference s) patches l s;
         Some (True, l1, s1)
       }
     }
     else impose_path e dup begin_act end_act path (l, s))"

text \<open>All paths: the candidates of every path, complete or not, are appended.\<close>

definition imposeSync ::
  "exec \<Rightarrow> aid list list \<Rightarrow> aid list list \<Rightarrow> aid \<Rightarrow> aid \<Rightarrow> iid list \<times> scfence \<Rightarrow>
   (bool \<times> iid list \<times> scfence) option" where
  "imposeSync e dup paths begin_act end_act = (\<lambda>(l, s).
     fold_opt (\<lambda>path (res, l, s). do {
         (b, cands, s1) \<leftarrow> imposeSync_path e dup path begin_act end_act ([], s);
         Some (res \<or> b, l @ cands, s1)
       }) paths (False, l, s))"

section \<open>Imposing sequential consistency\<close>

text \<open>The actions strictly between two positions; the second may be the end of the list.\<close>

definition strictly_between :: "aid list \<Rightarrow> aid \<Rightarrow> aid \<Rightarrow> aid list option" where
  "strictly_between l act1 act2 =
     (case dropWhile (\<lambda>a. a \<noteq> act1) l of
        [] \<Rightarrow> None
      | _ # rest \<Rightarrow> if act1 = act2 then None else Some (takeWhile (\<lambda>a. a \<noteq> act2) rest))"

fun pairs_after :: "'b list \<Rightarrow> ('b \<times> 'b) list" where
  "pairs_after [] = []"
| "pairs_after (x # xs) = map (Pair x) xs @ pairs_after xs"

definition fence_pair ::
  "exec \<Rightarrow> aid \<times> aid \<Rightarrow> bool \<times> patch list \<times> scfence \<Rightarrow> (bool \<times> patch list \<times> scfence) option" where
  "fence_pair e = (\<lambda>(f1, f2) (twoFences, patches, s).
     let p = Patch_two (A e f1) memory_order_seq_cst (A e f2) memory_order_seq_cst
     in if isApplicable p then do {
          (mo1, s) \<leftarrow> read_infer (curInference s) (get_wildcard_id (original_order (A e f1))) s;
          (mo2, s) \<leftarrow> read_infer (curInference s) (get_wildcard_id (original_order (A e f2))) s;
          Some (twoFences \<or> mo1 \<noteq> memory_order_seq_cst \<or> mo2 \<noteq> memory_order_seq_cst,
                patches @ [p], s)
        } else Some (twoFences, patches, s))"

definition imposeSC ::
  "exec \<Rightarrow> aid list \<Rightarrow> aid \<Rightarrow> aid \<Rightarrow> iid list \<times> scfence \<Rightarrow> (bool \<times> iid list \<times> scfence) option" where
  "imposeSC e actions act1 act2 = (\<lambda>(l, s). do {
     between \<leftarrow> strictly_between actions act1 act2;
     let fences = filter (\<lambda>a. is_fence (A e a) \<and> is_wildcard (original_order (A e a))) between;
     (twoFences, patches, s) \<leftarrow> fold_opt (fence_pair e) (pairs_after fences) (False, [], s);
     let patches = (if twoFences then patches else patches @
       applicable (concat (map (\<lambda>f.
           [Patch_two (A e act1) memory_order_seq_cst (A e f) memory_order_seq_cst,
            Patch_two (A e act2) memory_order_seq_cst (A e f) memory_order_seq_cst]) fences)
         @ [Patch_two (A e act1) memory_order_seq_cst (A e act2) memory_order_seq_cst]));
     if patches \<noteq> [] then do {
       (l, s) \<leftarrow> applyPatches (curInference s) patches l s;
       Some (True, l, s)
     } else Some (False, l, s)
   })"

section \<open>Fixes\<close>

text \<open>What a fix looks at: the execution, the generator's lists and verdict, the list it found.\<close>

record fix_env =
  fx_exec :: exec
  fx_gen :: sc_gen
  fx_list :: "aid list"

abbreviation fx_dup :: "fix_env \<Rightarrow> aid list list" where
  "fx_dup v \<equiv> dup_threadlists (fx_gen v)"

text \<open>Synchronize \<open>a\<close> with \<open>b\<close> if there is a path, or else order both sequentially.\<close>

definition sync_or_sc ::
  "fix_env \<Rightarrow> aid \<Rightarrow> aid \<Rightarrow> iid list \<times> scfence \<Rightarrow> (bool \<times> iid list \<times> scfence) option" where
  "sync_or_sc v a b = (\<lambda>(l, s). do {
     paths \<leftarrow> get_rf_sb_paths (fx_exec v) (fx_dup v) a b;
     if paths \<noteq> [] then do {
       (_, l, s) \<leftarrow> imposeSync (fx_exec v) (fx_dup v) paths a b (l, s);
       Some (True, l, s)
     } else do {
       (_, l, s) \<leftarrow> imposeSC (fx_exec v) (fx_list v) a b (l, s);
       Some (False, l, s)
     }
   })"

text \<open>One store \<open>write2\<close> between \<open>write\<close> and \<open>read\<close> in the list.\<close>

definition pattern_a_write2 ::
  "fix_env \<Rightarrow> aid \<Rightarrow> aid \<Rightarrow> aid \<Rightarrow> iid list \<times> scfence \<Rightarrow> (iid list \<times> scfence) option" where
  "pattern_a_write2 v read write write2 = (\<lambda>(cands, s). do {
     let e = fx_exec v;
     let reach = checkReachable (mo_graph e) (ActObj write) (ActObj write2);
     (tmp, s) \<leftarrow> (if \<not> reach then map_option snd (sync_or_sc v write write2 ([], s))
                  else Some ([], s));
     let isWritesMO = (reach \<and> \<not> happens e write write2);
     (tmp, s) \<leftarrow>
       (if \<not> happens e write2 read then do {
          (by_hb, tmp, s) \<leftarrow> sync_or_sc v write2 read (tmp, s);
          if \<not> by_hb \<and> isWritesMO then map_option snd (sync_or_sc v write write2 (tmp, s))
          else Some (tmp, s)
        } else Some (tmp, s));
     Some (cands @ tmp, s)
   })"

definition getFixesFromPatternA ::
  "fix_env \<Rightarrow> aid \<Rightarrow> aid \<Rightarrow> scfence \<Rightarrow> (iid list \<times> scfence) option" where
  "getFixesFromPatternA v read write s =
     (case dropWhile (\<lambda>a. a \<noteq> write) (fx_list v) of
        [] \<Rightarrow> None
      | _ # rest \<Rightarrow>
          if rest = [] \<or> hd rest = read \<or> read \<notin> set rest then None
          else fold_opt (pattern_a_write2 v read write)
                 (filter (\<lambda>a. is_write (A (fx_exec v) a)
                      \<and> location (A (fx_exec v) a) = location (A (fx_exec v) write))
                   (takeWhile (\<lambda>a. a \<noteq> read) rest)) ([], s))"

definition getFixesFromPatternB ::
  "fix_env \<Rightarrow> aid \<Rightarrow> aid \<Rightarrow> scfence \<Rightarrow> (iid list \<times> scfence) option" where
  "getFixesFromPatternB v read write s = do {
     paths1 \<leftarrow> get_rf_sb_paths (fx_exec v) (fx_dup v) read write;
     (res, s) \<leftarrow> (if paths1 \<noteq> []
                  then map_option snd (imposeSync (fx_exec v) (fx_dup v) paths1 read write ([], s))
                  else Some ([], s));
     paths2 \<leftarrow> get_rf_sb_paths (fx_exec v) (fx_dup v) write read;
     (_, cands, s) \<leftarrow> imposeSync (fx_exec v) (fx_dup v) paths2 write read ([], s);
     Some (res @ cands, s)
   }"

text \<open>The first read of the list that does not read from the write the order wants.\<close>

definition first_bad_read :: "fix_env \<Rightarrow> aid option" where
  "first_bad_read v = find (\<lambda>a. seq_number (A (fx_exec v) a) > 0
      \<and> badrfset (fx_gen v) a \<noteq> None \<and> annotatedReadSet (fx_gen v) a = None) (fx_list v)"

definition addFixesNonSC :: "fix_env \<Rightarrow> scfence \<Rightarrow> (bool \<times> scfence) option" where
  "addFixesNonSC v s =
     (case first_bad_read v of
        None \<Rightarrow> Some (False, s)
      | Some act \<Rightarrow> do {
          write \<leftarrow> reads_from (A (fx_exec v) act);
          (cands, s) \<leftarrow>
            (if write \<in> set (takeWhile (\<lambda>a. a \<noteq> act) (fx_list v))
             then getFixesFromPatternA v act write s
             else if write \<in> set (fx_list v) then getFixesFromPatternB v act write s
             else None);
          addCandidates (curInference s) cands s
        })"

text \<open>
  In the two searches that follow, the list \<open>candidates\<close> is used again after \<open>addCandidates\<close>,
  which deletes it; the outer \<open>None\<close> of the list is the deleted list. A search that goes on then
  reaches freed memory.
\<close>

definition impose_and_add ::
  "fix_env \<Rightarrow> aid list list \<Rightarrow> aid \<Rightarrow> aid \<Rightarrow> iid list option \<Rightarrow> scfence \<Rightarrow>
   (bool \<times> iid list option \<times> scfence) option" where
  "impose_and_add v paths a b l s = do {
     l \<leftarrow> l;
     (_, l, s) \<leftarrow> imposeSync (fx_exec v) (fx_dup v) paths a b (l, s);
     (added, s) \<leftarrow> addCandidates (curInference s) l s;
     Some (added, None, s)
   }"

fun buggy_writes ::
  "fix_env \<Rightarrow> aid \<Rightarrow> aid list \<Rightarrow> iid list option \<Rightarrow> scfence \<Rightarrow>
   (bool \<times> iid list option \<times> scfence) option" where
  "buggy_writes v r [] l s = Some (False, l, s)"
| "buggy_writes v r (w # ws) l s =
     (if same_var (A (fx_exec v) w) (A (fx_exec v) r) then do {
        paths1 \<leftarrow> get_rf_sb_paths (fx_exec v) (fx_dup v) w r;
        if paths1 \<noteq> [] then do {
          (added, l, s) \<leftarrow> impose_and_add v paths1 w r l s;
          if added then Some (True, l, s) else buggy_writes v r ws l s
        } else buggy_writes v r ws l s
      } else buggy_writes v r ws l s)"

fun buggy_reads ::
  "fix_env \<Rightarrow> aid list \<Rightarrow> iid list option \<Rightarrow> scfence \<Rightarrow> (bool \<times> scfence) option" where
  "buggy_reads v [] l s = Some (False, s)"
| "buggy_reads v (r # rs) l s =
     (if seq_number (A (fx_exec v) r) > 0 \<and> is_read (A (fx_exec v) r) then do {
        rf \<leftarrow> reads_from (A (fx_exec v) r);
        if is_uninitialized (A (fx_exec v) rf) then do {
          (found, l, s) \<leftarrow> buggy_writes v r (fx_list v) l s;
          if found then Some (True, s) else buggy_reads v rs l s
        } else buggy_reads v rs l s
      } else buggy_reads v rs l s)"

definition addFixesBuggyExecution :: "fix_env \<Rightarrow> scfence \<Rightarrow> (bool \<times> scfence) option" where
  "addFixesBuggyExecution v s = buggy_reads v (rev (fx_list v)) (Some []) s"

text \<open>
  \<open>older\<close> are the actions before \<open>write2\<close>, newest first: only the closest older write to its
  location is looked at.
\<close>

definition implicit_mo_write2 ::
  "fix_env \<Rightarrow> aid \<Rightarrow> aid list \<Rightarrow> iid list option \<Rightarrow> scfence \<Rightarrow>
   (bool \<times> iid list option \<times> scfence) option" where
  "implicit_mo_write2 v write2 older l s =
     (let e = fx_exec v;
          here = (\<lambda>a. location (A e a) = location (A e write2))
      in case dropWhile (\<lambda>a. \<not> is_write (A e a) \<or> \<not> here a) older of
           [] \<Rightarrow> Some (False, l, s)
         | write1 # _ \<Rightarrow>
             let readCnt = length (filter (\<lambda>a. is_read (A e a) \<and> here a)
                             (takeWhile (\<lambda>a. a \<noteq> write1) older))
             in if int readCnt > implicitMOReadBound s
                   \<and> \<not> checkReachable (mo_graph e) (ActObj write1) (ActObj write2)
                then do {
                  paths1 \<leftarrow> get_rf_sb_paths e (fx_dup v) write1 write2;
                  if paths1 \<noteq> [] then impose_and_add v paths1 write1 write2 l s
                  else Some (False, l, s)
                } else Some (False, l, s))"

fun implicit_mo_loop ::
  "fix_env \<Rightarrow> aid list \<Rightarrow> iid list option \<Rightarrow> scfence \<Rightarrow> (bool \<times> scfence) option" where
  "implicit_mo_loop v [] l s = Some (False, s)"
| "implicit_mo_loop v (write2 # older) l s =
     (if \<not> is_write (A (fx_exec v) write2) then implicit_mo_loop v older l s
      else do {
        (added, l, s) \<leftarrow> implicit_mo_write2 v write2 older l s;
        if added then Some (True, s) else implicit_mo_loop v older l s
      })"

definition addFixesImplicitMO :: "fix_env \<Rightarrow> scfence \<Rightarrow> (bool \<times> scfence) option" where
  "addFixesImplicitMO v s = implicit_mo_loop v (rev (fx_list v)) (Some []) s"

subsection \<open>Data races\<close>

text \<open>The plain accesses, collected by location in the order the locations appear.\<close>

fun collect_ops :: "exec \<Rightarrow> aid list \<Rightarrow> aid list list \<Rightarrow> aid list list" where
  "collect_ops e [] opList = opList"
| "collect_ops e (act # rest) opList =
     (if original_order (A e act) \<noteq> memory_order_normal then collect_ops e rest opList
      else if list_ex (\<lambda>l. location (A e (hd l)) = location (A e act)) opList
      then collect_ops e rest
             (map (\<lambda>l. if location (A e (hd l)) = location (A e act) then l @ [act] else l) opList)
      else collect_ops e rest (opList @ [[act]]))"

definition checkDataRace :: "exec \<Rightarrow> aid list \<Rightarrow> (aid \<times> aid) option" where
  "checkDataRace e l =
     find (\<lambda>(a, b). \<not> happens e a b \<and> \<not> happens e b a)
       (concat (map pairs_after (collect_ops e l [])))"

text \<open>The neighbours of an action in its thread's list.\<close>

definition sbPrevAction :: "exec \<Rightarrow> aid list list \<Rightarrow> aid \<Rightarrow> aid option" where
  "sbPrevAction e dup act = do {
     l \<leftarrow> thread_list dup (tid (A e act));
     let before = takeWhile (\<lambda>a. a \<noteq> act) l;
     if before = [] then None else Some (last before)
   }"

definition sbNextAction :: "exec \<Rightarrow> aid list list \<Rightarrow> aid \<Rightarrow> aid option" where
  "sbNextAction e dup act = do {
     l \<leftarrow> thread_list dup (tid (A e act));
     case dropWhile (\<lambda>a. a \<noteq> act) l of
       _ # next_act # _ \<Rightarrow> Some next_act
     | _ \<Rightarrow> None
   }"

text \<open>
  The flag assigned in the inner block is a new variable that shadows \<open>added\<close>, which is what
  is returned.
\<close>

definition addFixesDataRace :: "fix_env \<Rightarrow> scfence \<Rightarrow> (bool \<times> scfence) option" where
  "addFixesDataRace v s =
     (case checkDataRace (fx_exec v) (fx_list v) of
        None \<Rightarrow> Some (False, s)
      | Some (act1, act2) \<Rightarrow> do {
          let e = fx_exec v;
          let dup = fx_dup v;
          next1 \<leftarrow> sbNextAction e dup act1;
          prev2 \<leftarrow> sbPrevAction e dup act2;
          paths1 \<leftarrow> get_rf_sb_paths e dup next1 prev2;
          next2 \<leftarrow> sbNextAction e dup act2;
          prev1 \<leftarrow> sbPrevAction e dup act1;
          paths2 \<leftarrow> get_rf_sb_paths e dup next2 prev1;
          let added = False;
          if paths1 \<noteq> [] then do {
            (_, l1, s) \<leftarrow> imposeSync e dup paths1 act1 act2 ([], s);
            (inner, s) \<leftarrow> addCandidates (curInference s) l1 s;
            (inner, s) \<leftarrow>
              (if paths2 \<noteq> [] then do {
                 (_, l2, s) \<leftarrow> imposeSync e dup paths2 act2 act1 ([], s);
                 (more_added, s) \<leftarrow> addCandidates (curInference s) l2 s;
                 Some (inner \<or> more_added, s)
               } else Some (inner, s));
            Some (added, s)
          } else Some (added, s)
        })"

datatype fix_type = BUGGY_EXECUTION | IMPLICIT_MO | NON_SC | DATA_RACE

definition addFixes :: "fix_env \<Rightarrow> fix_type \<Rightarrow> scfence \<Rightarrow> (bool \<times> scfence) option" where
  "addFixes v type s = do {
     i \<leftarrow> cur_infer s;
     if \<not> shouldFix i then Some (False, s)
     else do {
       (added, s) \<leftarrow> (case type of
            BUGGY_EXECUTION \<Rightarrow> addFixesBuggyExecution v s
          | IMPLICIT_MO \<Rightarrow> addFixesImplicitMO v s
          | NON_SC \<Rightarrow> addFixesNonSC v s
          | DATA_RACE \<Rightarrow> addFixesDataRace v s);
       i \<leftarrow> cur_infer s;
       s \<leftarrow> (if added \<and> buggy i then set_cur (\<lambda>i. i\<lparr>hasFixes := True\<rparr>) s else Some s);
       Some (added, s)
     }
   }"

section \<open>Going on with another inference\<close>

definition routineBacktrack :: "bool \<Rightarrow> scfence \<Rightarrow> (bool \<times> scfence) option" where
  "routineBacktrack feasible s = do {
     s \<leftarrow> commitInference (curInference s) feasible s;
     i \<leftarrow> cur_infer s;
     s \<leftarrow> (if feasible \<and> weaken s \<and> \<not> buggy i then addWeakerInference (curInference s) s
           else Some s);
     (next_inf, s) \<leftarrow> getNextInference s;
     case next_inf of
       Some n \<Rightarrow> Some (True, restartModelChecker (s\<lparr>curInference := n\<rparr>))
     | None \<Rightarrow> Some (False, exitModelChecker s)
   }"

definition routineAfterAddFixes :: "scfence \<Rightarrow> scfence option" where
  "routineAfterAddFixes s = do {
     (next_inf, s) \<leftarrow> getNextInference s;
     case next_inf of
       Some n \<Rightarrow> Some (restartModelChecker (s\<lparr>curInference := n\<rparr>))
     | None \<Rightarrow> map_option snd (routineBacktrack False s)
   }"

text \<open>\<open>analyze\<close>; \<open>timed_out\<close> is what the host's clock says.\<close>

definition analyze_execution :: "bool \<Rightarrow> exec \<Rightarrow> scfence \<Rightarrow> scfence option" where
  "analyze_execution timed_out e s =
     (if timeout s > 0 \<and> timed_out then map_option snd (routineBacktrack False s)
      else do {
        s \<leftarrow> (if have_bug_reports e then set_cur (\<lambda>i. i\<lparr>buggy := True\<rparr>) s else Some s);
        (l, g) \<leftarrow> getSCList e (action_trace e) (scgen s);
        let s = s\<lparr>fence_nonsccount := fence_nonsccount s + nonsccount g,
                  fence_sccount := fence_sccount s + sccount g,
                  fence_actions := fence_actions s + stat_actions g\<rparr>;
        let v = \<lparr>fx_exec = e, fx_gen = g, fx_list = l\<rparr>;
        if getCyclic g then do {
          (added, s) \<leftarrow> addFixes v NON_SC s;
          if added then routineAfterAddFixes s else map_option snd (routineBacktrack False s)
        } else do {
          c \<leftarrow> is_complete_execution e;
          if inferImplicitMO s \<and> too_many_steps e \<and> \<not> c then do {
            (added, s) \<leftarrow> addFixes v IMPLICIT_MO s;
            if added then routineAfterAddFixes s else Some s
          } else do {
            (added, s) \<leftarrow> addFixes v DATA_RACE s;
            if added then routineAfterAddFixes s else Some s
          }
        }
      })"

definition at_model_checking_finish :: "scfence \<Rightarrow> scfence option" where
  "at_model_checking_finish s =
     (if exit_asked s then Some s else map_option snd (routineBacktrack True s))"

text \<open>
  The plugin as the model checker sees it; a crash of the plugin is \<open>None\<close> from then on. \<open>timer\<close>
  is the host's clock at the end of an execution.
\<close>

definition answer :: "scfence option \<Rightarrow> scfence option \<times> plugin_request" where
  "answer s = (case s of
       None \<Rightarrow> (None, \<lparr>wants_restart = False, wants_exit = False\<rparr>)
     | Some s \<Rightarrow> (Some (s\<lparr>requests := \<lparr>wants_restart = False, wants_exit = False\<rparr>\<rparr>), requests s))"

definition SCFence_plugin :: "(exec \<Rightarrow> bool) \<Rightarrow> scfence option trace_analysis" where
  "SCFence_plugin timer =
     \<lparr>analyze = (\<lambda>e ps. answer (Option.bind ps (analyze_execution (timer e) e))),
      inspectModelAction = (\<lambda>act ps. case act of
           None \<Rightarrow> (None, ps)
         | Some a \<Rightarrow> (case Option.bind ps (inspect_action a) of
               None \<Rightarrow> (Some a, None)
             | Some (a', s) \<Rightarrow> (Some a', Some s))),
      actionAtModelCheckingFinish = (\<lambda>ps. answer (Option.bind ps at_model_checking_finish)),
      finish_analysis = (\<lambda>ps. ps)\<rparr>"

section \<open>Options\<close>

text \<open>The text behind the prefix \<open>file-\<close> or \<open>bound-\<close> of an option.\<close>

definition getInputFileName :: "string \<Rightarrow> string option" where
  "getInputFileName opt = (if take 5 opt = ''file-'' then Some (drop 5 opt) else None)"

definition getImplicitMOBound :: "string \<Rightarrow> int" where
  "getImplicitMOBound opt = (if take 6 opt = ''bound-'' then atoi (drop 6 opt) else 0)"

text \<open>
  \<open>initializeByFile\<close> on the results the file lists, each a list of wildcards and orders; reading
  the file is the host's.
\<close>

definition load_result :: "(int \<times> memory_order) list \<Rightarrow> scfence \<Rightarrow> scfence option" where
  "load_result entries s = do {
     let n = next_infer s;
     i \<leftarrow> fold_opt (\<lambda>(curNum, mo) i. infer_set curNum mo i) entries (Inference_new n);
     (added, s1) \<leftarrow> addInference n (snd (new_infer i s));
     if \<not> added then delete_infer n s1 else Some s1
   }"

definition initializeByFile :: "(int \<times> memory_order) list list \<Rightarrow> scfence \<Rightarrow> scfence option" where
  "initializeByFile file s = do {
     s \<leftarrow> fold_opt load_result file s;
     (next_inf, s) \<leftarrow> getNextInference s;
     Some (case next_inf of None \<Rightarrow> s | Some n \<Rightarrow> s\<lparr>curInference := n\<rparr>)
   }"

text \<open>
  \<open>option\<close>: whether the option was not understood. The bound is held in an \<open>unsigned\<close>, so only
  zero is refused. \<open>files\<close> gives the content of a file.
\<close>

definition fence_option ::
  "(string \<Rightarrow> (int \<times> memory_order) list list) \<Rightarrow> string \<Rightarrow> scfence \<Rightarrow> (bool \<times> scfence) option" where
  "fence_option files opt s =
     (if opt = ''verbose'' then Some (False, s\<lparr>scgen := setPrintAlways True (scgen s)\<rparr>)
      else if opt = ''buggy'' then Some (False, s)
      else if opt = ''quiet'' then Some (False, s\<lparr>scgen := setPrintBuggy False (scgen s)\<rparr>)
      else if opt = ''nonsc'' then Some (False, s\<lparr>scgen := setPrintNonSC True (scgen s)\<rparr>)
      else if opt = ''time'' then Some (False, s\<lparr>report_time := True\<rparr>)
      else if opt = ''no-weaken'' then Some (False, s\<lparr>weaken := False\<rparr>)
      else if opt = ''anno'' then Some (False, s\<lparr>scgen := setAnnotationMode True (scgen s)\<rparr>)
      else if opt = ''implicit-mo'' then Some (False, s\<lparr>inferImplicitMO := True\<rparr>)
      else case getInputFileName opt of
        Some name \<Rightarrow>
          if name = [] then Some (True, s)
          else map_option (Pair False)
                 (initializeByFile (files name) (s\<lparr>candidateFile := Some name\<rparr>))
      | None \<Rightarrow>
          if getImplicitMOBound opt \<noteq> 0
          then Some (False, s\<lparr>implicitMOReadBound := getImplicitMOBound opt\<rparr>)
          else Some (True, s))"

text \<open>
  \<open>parseOption\<close>: options of one letter with an argument, separated by bars. Reading behind the
  end of the string is \<open>None\<close>.
\<close>

definition parse_one :: "char \<Rightarrow> string \<Rightarrow> scfence \<Rightarrow> bool \<times> scfence" where
  "parse_one opt val s =
     (if opt = CHR ''f'' then (val = [], s\<lparr>candidateFile := Some val\<rparr>)
      else if opt = CHR ''b'' then (atoi val \<le> 0, s\<lparr>implicitMOReadBound := atoi val\<rparr>)
      else if opt = CHR ''m'' then (val \<noteq> [], s\<lparr>inferImplicitMO := True\<rparr>)
      else if opt = CHR ''a'' then (val \<noteq> [], s\<lparr>scgen := setAnnotationMode True (scgen s)\<rparr>)
      else if opt = CHR ''t'' then (False, s\<lparr>timeout := atoi val\<rparr>)
      else (True, s))"

definition parseOptionHelper :: "string \<Rightarrow> string \<times> string" where
  "parseOptionHelper opt = (takeWhile (\<lambda>c. c \<noteq> CHR ''|'') opt, dropWhile (\<lambda>c. c \<noteq> CHR ''|'') opt)"

function parseOption :: "string \<Rightarrow> scfence \<Rightarrow> (bool \<times> scfence) option" where
  "parseOption [] s = None"
| "parseOption (opt # rest) s =
     (let (val, behind) = parseOptionHelper rest;
          (wrong, s1) = parse_one opt val s
      in if wrong then Some (True, s1)
         else case behind of
           [] \<Rightarrow> Some (False, s1)
         | _ # others \<Rightarrow> parseOption others s1)"
  by pat_completeness auto
termination
proof (relation "measure (\<lambda>(l, s). length l)", simp, clarsimp)
  fix rest val behind and b :: char and others
  assume "(val, b # others) = parseOptionHelper rest"
  then have "length (b # others) \<le> length rest"
    by (metis length_dropWhile_le parseOptionHelper_def snd_conv)
  then show "length others < Suc (length rest)" by simp
qed

end
