(* ===== verification/SCLists.thy ===== *)
theory SCLists
  imports SCGen "HOL-Library.Multiset"
begin

text \<open>
  What taking actions off the lists of the threads amounts to, for the generator of \<open>SCGen\<close> and
  the analysis of \<open>SCAnalysis\<close>: as long as only fronts are taken (\<open>divided\<close>) and all are taken
  (\<open>no_ready_means_done\<close>), the result is an interleaving of the threads. \<open>sc_order\<close> is the
  specification of a sequentially consistent order.
\<close>

section \<open>What the edges leave alone\<close>

definition keeps_lists :: "'a sc_base_scheme \<Rightarrow> 'a sc_base_scheme \<Rightarrow> bool" where
  "keeps_lists s s' \<longleftrightarrow> threadlists s' = threadlists s \<and> maxthreads s' = maxthreads s
     \<and> lastwrmap s' = lastwrmap s"

interpretation kept: frame keeps_lists
  by unfold_locales (auto simp: keeps_lists_def)


section \<open>The lists of the threads\<close>

definition of_thread :: "exec \<Rightarrow> nat \<Rightarrow> aid list \<Rightarrow> aid list" where
  "of_thread e t l = filter (\<lambda>a. tid (A e a) = t) l"

lemma of_thread_append: "of_thread e t (xs @ ys) = of_thread e t xs @ of_thread e t ys"
  by (simp add: of_thread_def)

lemma of_thread_single: "of_thread e t [a] = (if tid (A e a) = t then [a] else [])"
  by (simp add: of_thread_def)

text \<open>The vector holds exactly the actions \<open>xs\<close>, by thread; \<open>m\<close> is the highest thread id.\<close>

definition holds :: "exec \<Rightarrow> aid list \<Rightarrow> nat \<times> aid list list \<Rightarrow> bool" where
  "holds e xs = (\<lambda>(m, ls). m < length ls \<and> (\<forall>t < length ls. ls ! t = of_thread e t xs)
     \<and> (\<forall>x \<in> set xs. tid (A e x) \<le> m))"

lemma build_step_holds:
  assumes "holds e xs ml"
  obtains ml' where "build_step e a ml = Some ml'" and "holds e (xs @ [a]) ml'"
proof -
  obtain m ls where ml: "ml = (m, ls)" by fastforce
  let ?t = "tid (A e a)"
  show thesis
  proof (cases "?t > m")
    case True
    have beyond: "of_thread e t xs = []" if "t \<ge> length ls" for t
      using assms that by (fastforce simp: ml holds_def of_thread_def filter_empty_conv)
    let ?ls = "vec_resize ls (?t + 1) []"
    have old: "?ls ! t = of_thread e t xs" if "t < ?t + 1" for t
      using that assms beyond [of t] by (simp add: ml holds_def)
    have "build_step e a ml = Some (?t, ?ls[?t := ?ls ! ?t @ [a]])"
      using True by (simp add: build_step_def ml Let_def)
    moreover have "holds e (xs @ [a]) (?t, ?ls[?t := ?ls ! ?t @ [a]])"
      using assms True old
      by (auto simp: ml holds_def of_thread_append of_thread_single nth_list_update)
    ultimately show thesis by (rule that)
  next
    case False
    then have "build_step e a ml = Some (m, ls[?t := ls ! ?t @ [a]])"
      using assms by (auto simp: build_step_def ml Let_def holds_def)
    moreover have "holds e (xs @ [a]) (m, ls[?t := ls ! ?t @ [a]])"
      using assms False
      by (auto simp: ml holds_def of_thread_append of_thread_single nth_list_update)
    ultimately show thesis by (rule that)
  qed
qed

lemma build_holds:
  assumes "holds e xs ml"
  shows "\<exists>ml'. fold_opt (build_step e) l ml = Some ml' \<and> holds e (xs @ l) ml'"
  using assms
proof (induction l arbitrary: xs ml)
  case Nil
  then show ?case by simp
next
  case (Cons a l)
  obtain ml1 where ml1: "build_step e a ml = Some ml1" "holds e (xs @ [a]) ml1"
    by (rule build_step_holds [OF Cons.prems])
  then show ?case using Cons.IH [OF ml1(2)] by auto
qed

lemma build_threadlists_holds:
  assumes "threadlists s \<noteq> []" and "\<forall>l \<in> set (threadlists s). l = []"
    and "build_threadlists e l s = Some s'"
  shows "holds e l (maxthreads s', threadlists s')"
    and "\<exists>m ls. s' = s\<lparr>maxthreads := m, threadlists := ls\<rparr>"
proof -
  have "holds e [] (0, threadlists s)"
    using assms(1,2) by (auto simp: holds_def of_thread_def)
  then obtain ml where "fold_opt (build_step e) l (0, threadlists s) = Some ml" "holds e l ml"
    using build_holds [of e "[]" "(0, threadlists s)" l] by auto
  with assms(3) show "holds e l (maxthreads s', threadlists s')"
    and "\<exists>m ls. s' = s\<lparr>maxthreads := m, threadlists := ls\<rparr>"
    by (cases ml; auto simp: build_threadlists_def buildVectors_def)+
qed

section \<open>Taking actions off the lists\<close>

text \<open>What has been taken (\<open>xs\<close>) and what remains make up the execution, thread by thread.\<close>

definition divided :: "exec \<Rightarrow> aid list \<Rightarrow> aid list \<Rightarrow> 'a sc_base_scheme \<Rightarrow> bool" where
  "divided e l xs s \<longleftrightarrow> maxthreads s < length (threadlists s)
     \<and> (\<forall>t < length (threadlists s). of_thread e t xs @ threadlists s ! t = of_thread e t l)
     \<and> (\<forall>x \<in> set xs \<union> set l. tid (A e x) \<le> maxthreads s)"

lemma holds_divided: "holds e l (maxthreads s, threadlists s) \<Longrightarrow> divided e l [] s"
  by (auto simp: holds_def divided_def of_thread_def)

lemma divided_frame:
  "divided e l xs s \<Longrightarrow> keeps_lists s s' \<Longrightarrow> divided e l xs s'"
  by (simp add: divided_def keeps_lists_def)

lemma divided_reset:
  assumes "divided e l xs s"
  shows "threadlists (sc_reset l' s) \<noteq> []" and "\<forall>x \<in> set (threadlists (sc_reset l' s)). x = []"
proof -
  show "threadlists (sc_reset l' s) \<noteq> []" using assms by (auto simp: sc_reset_def divided_def)
  show "\<forall>x \<in> set (threadlists (sc_reset l' s)). x = []"
  proof
    fix x
    assume "x \<in> set (threadlists (sc_reset l' s))"
    then obtain t where t: "t < length (threadlists s)"
      and x: "x = (if t \<le> maxthreads s then [] else threadlists s ! t)"
      by (auto simp: sc_reset_def)
    have "threadlists s ! t = []" if "t > maxthreads s"
    proof -
      have "of_thread e t l = []"
        using assms that unfolding divided_def of_thread_def filter_empty_conv by force
      then show ?thesis using assms t by (auto simp: divided_def)
    qed
    then show "x = []" using x by auto
  qed
qed

text \<open>The fronts are what can be taken next.\<close>

definition is_front :: "exec \<Rightarrow> 'a sc_base_scheme \<Rightarrow> aid \<Rightarrow> bool" where
  "is_front e s a \<longleftrightarrow> tid (A e a) \<le> maxthreads s
     \<and> (\<exists>rest. threadlists s ! tid (A e a) = a # rest)"

lemma ready_fronts_are_fronts:
  assumes "ready_fronts e cvs ts s = Some array" and "divided e l xs s"
    and "\<forall>t \<in> set ts. t \<le> maxthreads s" and "a \<in> set array"
  shows "is_front e s a"
  using assms(1,3,4)
proof (induction ts arbitrary: array)
  case Nil
  then show ?case by simp
next
  case (Cons t ts)
  have t: "t < length (threadlists s)" using assms(2) Cons.prems(2) by (simp add: divided_def)
  show ?case
  proof (cases "threadlists s ! t")
    case Nil
    then show ?thesis using Cons t by simp
  next
    case (Cons b bs)
    then have "tid (A e b) = t"
    proof -
      have "b \<in> set (of_thread e t l)" using assms(2) t Cons
        by (metis Un_iff divided_def list.set_intros(1) set_append)
      then show ?thesis by (simp add: of_thread_def)
    qed
    then have "is_front e s b" using Cons Cons.prems(2) by (simp add: is_front_def)
    then show ?thesis using Cons.IH Cons.prems t Cons by (auto split: bind_splits if_splits)
  qed
qed

lemma ready_are_fronts:
  assumes "ready_fronts e cvs [0 ..< maxthreads s + 1] s = Some array" and "divided e l xs s"
    and "a \<in> set array"
  shows "is_front e s a"
  by (rule ready_fronts_are_fronts [OF assms(1,2) _ assms(3)]) auto

lemma getNextActions_fronts:
  assumes "getNextActions e s = Some array" and "divided e l xs s" and "a \<in> set array"
  shows "is_front e s a"
proof -
  obtain cvs where "ready_fronts e cvs [0 ..< maxthreads s + 1] s = Some array"
    using assms(1) by (auto simp: getNextActions_def split: bind_splits if_splits)
  then show ?thesis using ready_are_fronts assms(2,3) by blast
qed

lemma earliest_mem: "earliest e as b = Some a \<Longrightarrow> a \<in> set as \<or> b = Some a"
  by (induction as arbitrary: b) (fastforce split: option.splits if_splits)+

lemma filter_opt_subset: "filter_opt P xs = Some ys \<Longrightarrow> set ys \<subseteq> set xs"
  by (induction xs arbitrary: ys) (auto split: bind_splits if_splits)

lemma pruneArray_mem:
  assumes "pruneArray e array s = Some (Some a)" and "array \<noteq> []"
  shows "a \<in> set array"
proof (cases "length array = 1")
  case True
  then show ?thesis using assms by (auto simp: pruneArray_def)
next
  case False
  then show ?thesis
    using assms earliest_mem [of e _ None a] filter_opt_subset [of _ array]
    by (fastforce simp: pruneArray_def split: option.splits bind_splits)
qed

lemma choose_action_mem:
  assumes "choose_action array pruned ec cs = Some (a, cs')" and "array \<noteq> []"
    and "pruneArray e array s = Some pruned"
  shows "a \<in> set array"
  using assms pruneArray_mem [of e array s a]
  by (auto simp: choose_action_def split: option.splits prod.splits if_splits)

lemma pop_front_divided:
  assumes "divided e l xs s" and "is_front e s a"
  shows "divided e l (xs @ [a]) (pop_front e a s)"
proof -
  obtain rest where r: "threadlists s ! tid (A e a) = a # rest" and t: "tid (A e a) \<le> maxthreads s"
    using assms(2) by (auto simp: is_front_def)
  moreover have "of_thread e (tid (A e a)) xs @ a # rest = of_thread e (tid (A e a)) l"
    using assms(1) t unfolding divided_def by (metis r le_less_trans)
  ultimately show ?thesis using assms(1)
    by (auto simp: divided_def pop_front_def of_thread_append of_thread_single nth_list_update)
qed

section \<open>The order is complete\<close>

text \<open>
  What the model checker's clock vectors promise: what an action is synchronized with came
  before it.
\<close>

definition causal :: "exec \<Rightarrow> aid list \<Rightarrow> bool" where
  "causal e l \<longleftrightarrow> (\<forall>a \<in> set l. \<exists>c. cv (A e a) = Some c
     \<and> (\<forall>b \<in> set l. cv_since e c b \<longrightarrow> tid (A e b) = tid (A e a) \<or> seq_number (A e b) < seq_number (A e a)))"

lemma front_in_actions:
  assumes "divided e l xs s" and "t < length (threadlists s)" and "threadlists s ! t = a # rest"
  shows "a \<in> set l" and "tid (A e a) = t"
proof -
  have "a \<in> set (of_thread e t l)"
    using assms by (metis Un_iff divided_def list.set_intros(1) set_append)
  then show "a \<in> set l" and "tid (A e a) = t" by (auto simp: of_thread_def)
qed

lemma ready_fronts_keeps:
  assumes "ready_fronts e cvs ts s = Some array" and "t \<in> set ts"
    and "threadlists s ! t = a # rest" and "front_ready e (cvs a) t s = Some True"
  shows "a \<in> set array"
  using assms(1,2)
proof (induction ts arbitrary: array)
  case Nil
  then show ?case by simp
next
  case (Cons u ts)
  then show ?case using assms(3,4)
    by (cases "u = t") (auto split: list.splits bind_splits if_splits)
qed

lemma earliest_front_ready:
  assumes "divided e l xs s" and "causal e l" and "is_front e s a"
    and "\<And>b. is_front e s b \<Longrightarrow> seq_number (A e a) \<le> seq_number (A e b)"
  shows "front_ready e (cv (A e a)) (tid (A e a)) s = Some True"
proof -
  define P where "P = (\<lambda>i. if i = tid (A e a) then Some False
         else if i < length (threadlists s)
         then (case threadlists s ! i of
                 [] \<Rightarrow> Some False
               | first # _ \<Rightarrow> do { c \<leftarrow> cv (A e a); Some (cv_since e c first) })
         else None)"
  obtain rest where r: "threadlists s ! tid (A e a) = a # rest" and t: "tid (A e a) \<le> maxthreads s"
    using assms(3) by (auto simp: is_front_def)
  have "a \<in> set l" using front_in_actions(1) [OF assms(1) _ r] t assms(1) by (auto simp: divided_def)
  then obtain c where c: "cv (A e a) = Some c"
    and before: "\<And>b. b \<in> set l \<Longrightarrow> cv_since e c b
        \<Longrightarrow> tid (A e b) = tid (A e a) \<or> seq_number (A e b) < seq_number (A e a)"
    using assms(2) unfolding causal_def by blast
  have no: "P i = Some False" if "i \<in> set [0 ..< maxthreads s + 1]" for i
  proof (cases "threadlists s ! i")
    case Nil
    then show ?thesis using that assms(1) by (auto simp: divided_def P_def)
  next
    case (Cons b bs)
    have i: "i < length (threadlists s)" using that assms(1) by (auto simp: divided_def)
    note fb = front_in_actions [OF assms(1) i Cons]
    have "is_front e s b" using fb(2) Cons that by (auto simp: is_front_def)
    then have "\<not> cv_since e c b \<or> i = tid (A e a)"
      using before [OF fb(1)] assms(4) [of b] fb(2) by (auto simp: not_less [symmetric])
    then show ?thesis using Cons i c by (auto simp: P_def)
  qed
  have "exists_opt P [0 ..< maxthreads s + 1] = Some (\<exists>i \<in> set [0 ..< maxthreads s + 1]. P i = Some True)"
    by (rule exists_opt_iff) (use no in auto)
  moreover have "\<not> (\<exists>i \<in> set [0 ..< maxthreads s + 1]. P i = Some True)" using no by auto
  ultimately have "exists_opt P [0 ..< maxthreads s + 1] = Some False" by simp
  then show ?thesis unfolding front_ready_def P_def by simp
qed

lemma no_ready_means_done:
  assumes "ready_fronts e (\<lambda>a. cv (A e a)) [0 ..< maxthreads s + 1] s = Some []" and "divided e l xs s" and "causal e l"
    and "t < length (threadlists s)"
  shows "threadlists s ! t = []"
proof (rule ccontr)
  assume "threadlists s ! t \<noteq> []"
  then obtain a rest where a: "threadlists s ! t = a # rest" by (cases "threadlists s ! t") auto
  note fa = front_in_actions [OF assms(2,4) a]
  have "tid (A e a) \<le> maxthreads s" using fa(1) assms(2) by (auto simp: divided_def)
  then have fr: "is_front e s a" using a fa(2) by (auto simp: is_front_def)
  define F where "F = {b. is_front e s b}"
  have "F \<subseteq> set l"
    using front_in_actions(1) [OF assms(2)] assms(2)
    unfolding F_def is_front_def divided_def by (auto dest: le_less_trans)
  then have "finite F" by (rule finite_subset) simp
  moreover have "F \<noteq> {}" using fr by (auto simp: F_def)
  ultimately obtain m where m: "m \<in> F"
    and least: "\<And>b. b \<in> F \<Longrightarrow> seq_number (A e m) \<le> seq_number (A e b)"
    using arg_min_if_finite [of F "\<lambda>b. seq_number (A e b)"] by (metis not_le)
  have fm: "is_front e s m" using m by (simp add: F_def)
  have "front_ready e (cv (A e m)) (tid (A e m)) s = Some True"
    by (rule earliest_front_ready [OF assms(2,3) fm]) (use least in \<open>simp add: F_def\<close>)
  moreover note assms(1)
  moreover obtain rm where "threadlists s ! tid (A e m) = m # rm" "tid (A e m) \<le> maxthreads s"
    using fm by (auto simp: is_front_def)
  moreover from this have "tid (A e m) \<in> set [0 ..< maxthreads s + 1]"
    by (simp only: set_upt atLeastLessThan_iff) simp
  ultimately have "m \<in> set []" using ready_fronts_keeps by fast
  then show False by simp
qed

lemma no_next_means_done:
  assumes "getNextActions e s = Some []" and "divided e l xs s" and "causal e l"
    and "t < length (threadlists s)"
  shows "threadlists s ! t = []"
  by (rule no_ready_means_done [OF _ assms(2-4)])
    (use assms(1) in \<open>auto simp: getNextActions_def split: bind_splits if_splits\<close>)

text \<open>The result of the generation: all actions, each thread's in its order.\<close>

definition interleaving :: "exec \<Rightarrow> aid list \<Rightarrow> aid list \<Rightarrow> bool" where
  "interleaving e l xs \<longleftrightarrow> mset xs = mset l \<and> (\<forall>t. of_thread e t xs = of_thread e t l)"

lemma count_of_thread: "count (mset xs) a = count (mset (of_thread e (tid (A e a)) xs)) a"
  by (induction xs) (auto simp: of_thread_def)

lemma done_is_interleaving:
  assumes "divided e l xs s" and "\<forall>t < length (threadlists s). threadlists s ! t = []"
  shows "interleaving e l xs"
proof -
  have same: "of_thread e t xs = of_thread e t l" for t
  proof (cases "t < length (threadlists s)")
    case True
    then show ?thesis using assms by (auto simp: divided_def)
  next
    case False
    then have "\<forall>x \<in> set xs \<union> set l. tid (A e x) \<noteq> t"
      using assms(1) unfolding divided_def by (metis le_less_trans)
    then show ?thesis by (auto simp: of_thread_def filter_empty_conv)
  qed
  have "mset xs = mset l"
    by (rule multiset_eqI) (use same count_of_thread in metis)
  with same show ?thesis by (simp add: interleaving_def)
qed

text \<open>What the generation leaves alone besides.\<close>

definition same_memory :: "'a sc_base_scheme \<Rightarrow> 'a sc_base_scheme \<Rightarrow> bool" where
  "same_memory s s' \<longleftrightarrow> lastwrmap s' = lastwrmap s"

lemma same_memory_trans: "same_memory s t \<Longrightarrow> same_memory t u \<Longrightarrow> same_memory s u"
  by (simp add: same_memory_def)

lemma kept_same_memory: "keeps_lists s s' \<Longrightarrow> same_memory s s'"
  by (simp add: same_memory_def keeps_lists_def)


section \<open>Sequential consistency\<close>

definition last_write :: "exec \<Rightarrow> aid list \<Rightarrow> uint64 \<Rightarrow> aid option" where
  "last_write e xs loc = find (\<lambda>a. is_write (A e a) \<and> location (A e a) = loc) (rev xs)"

lemma last_write_Nil [simp]: "last_write e [] loc = None"
  by (simp add: last_write_def)

lemma last_write_snoc:
  "last_write e (xs @ [a]) loc =
     (if is_write (A e a) \<and> location (A e a) = loc then Some a else last_write e xs loc)"
  by (simp add: last_write_def)

text \<open>The read at position \<open>i\<close> does not read from the last write before it.\<close>

definition misread :: "exec \<Rightarrow> aid list \<Rightarrow> nat \<Rightarrow> bool" where
  "misread e xs i \<longleftrightarrow> is_read (A e (xs ! i)) \<and> reads_from (A e (xs ! i)) \<noteq> None
     \<and> reads_from (A e (xs ! i)) \<noteq> last_write e (take i xs) (location (A e (xs ! i)))"

definition sc_order :: "exec \<Rightarrow> aid list \<Rightarrow> aid list \<Rightarrow> bool" where
  "sc_order e l xs \<longleftrightarrow> interleaving e l xs \<and> (\<forall>i < length xs. \<not> misread e xs i)"

end
