(* ===== verification/SCOrder.thy ===== *)
theory SCOrder
  imports SCLists ExecSample
begin

text \<open>
  What the generator promises: when it does not call an execution cyclic, the list it returns is
  a sequentially consistent order of the execution's actions.
\<close>

section \<open>What the steps leave alone\<close>

definition edges_only :: "sc_gen \<Rightarrow> sc_gen \<Rightarrow> bool" where
  "edges_only s s' \<longleftrightarrow> (\<exists>c y a. s' = s\<lparr>cvmap := c, cyclic := y, allowNonSC := a\<rparr>)"

lemma edges_onlyI: "s' = s\<lparr>cvmap := c, cyclic := y, allowNonSC := a\<rparr> \<Longrightarrow> edges_only s s'"
  by (auto simp: edges_only_def)

interpretation edges: frame edges_only
proof
  fix s t u
  show "edges_only s s"
    by (rule edges_onlyI [where s = s and c = "cvmap s" and y = "cyclic s" and a = "allowNonSC s"]) simp
  assume "edges_only s t" and "edges_only t u"
  then obtain c y a where t: "\<exists>c y a. t = s\<lparr>cvmap := c, cyclic := y, allowNonSC := a\<rparr>"
    and u: "u = t\<lparr>cvmap := c, cyclic := y, allowNonSC := a\<rparr>"
    unfolding edges_only_def by blast
  have "u = s\<lparr>cvmap := c, cyclic := y, allowNonSC := a\<rparr>" using t u by auto
  then show "edges_only s u" by (rule edges_onlyI)
qed

lemma edges_only_fields:
  assumes "edges_only s s'"
  shows "threadlists s' = threadlists s" and "maxthreads s' = maxthreads s"
    and "lastwrmap s' = lastwrmap s" and "annotationMode s' = annotationMode s"
    and "badrfset s' = badrfset s" and "fastVersion s' = fastVersion s"
    and "dup_threadlists s' = dup_threadlists s" and "annotationError s' = annotationError s"
  using assms by (auto simp: edges_only_def)

lemma edges_only_keeps: "edges_only s s' \<Longrightarrow> keeps_lists s s'"
  by (simp add: keeps_lists_def edges_only_fields)

lemma edges_only_flags:
  "edges_only s (s\<lparr>cyclic := b\<rparr>)" "edges_only s (s\<lparr>allowNonSC := b\<rparr>)"
  "edges_only s (s\<lparr>cvmap := m\<rparr>)"
  by (rule edges_onlyI [where s = s and c = "cvmap s" and y = b and a = "allowNonSC s"], simp)
    (rule edges_onlyI [where s = s and c = "cvmap s" and y = "cyclic s" and a = b], simp,
     rule edges_onlyI [where s = s and c = m and y = "cyclic s" and a = "allowNonSC s"], simp)

lemma merge_into_edges: "merge_into a c s = Some (b, s') \<Longrightarrow> edges_only s s'"
  by (auto simp: merge_into_def edges_only_flags split: bind_splits prod.splits)

lemma sc_merge_edges:
  assumes "sc_merge e a b s = Some (r, s')"
  shows "edges_only s s'"
proof (cases "cvmap s b")
  case None
  then show ?thesis using assms by (simp add: sc_merge_def edges.refl)
next
  case (Some cv2)
  show ?thesis
  proof (cases "merge_into a cv2 s")
    case None
    then show ?thesis using assms Some
      by (auto simp: sc_merge_def edges_only_flags edges.refl split: if_splits)
  next
    case (Some p)
    obtain m s1 where p: "p = (m, s1)" by fastforce
    then have "edges_only s s1" using merge_into_edges Some by blast
    moreover have "edges_only s1 (s1\<lparr>allowNonSC := False\<rparr>)" by (rule edges_only_flags)
    ultimately show ?thesis using assms \<open>cvmap s b = Some cv2\<close> Some p
      by (auto simp: sc_merge_def edges_only_flags edges.refl intro: edges.trans split: if_splits)
  qed
qed

lemma fast_writes_edges:
  "fast_writes e r w l (ch, s) = Some (ch', s') \<Longrightarrow> edges_only s s'"
proof (induction l arbitrary: ch s)
  case Nil
  then show ?case by (simp add: edges.refl)
next
  case (Cons x l)
  show ?case
  proof (cases "(\<not> is_write (A e x) \<or> x = w \<or> x = r) \<or> cvmap s x = None")
    case True
    then show ?thesis using Cons by (auto split: if_splits)
  next
    case False
    then obtain c where c: "cvmap s x = Some c" by auto
    obtain c1 s1 where
      s1: "(if cv_since e c w then sc_merge e x r s else Some (False, s)) = Some (c1, s1)"
      using Cons.prems False c by (auto split: bind_splits)
    have k1: "edges_only s s1" using s1 sc_merge_edges edges.refl by (auto split: if_splits)
    obtain cr where "cvmap s1 r = Some cr" using Cons.prems False c s1 by (auto split: bind_splits)
    then have "edges_only s1 s'"
      using Cons.prems False c s1 sc_merge_edges edges.refl Cons.IH
      by (auto split: bind_splits if_splits)
    with k1 show ?thesis by (rule edges.trans)
  qed
qed

lemma slow_writes_edges:
  "slow_writes e r w l (ch, u, s) = Some (ch', u', s') \<Longrightarrow> edges_only s s'"
proof (induction l arbitrary: ch u s)
  case Nil
  then show ?case by (simp add: edges.refl)
next
  case (Cons x l)
  show ?case
  proof (cases "(\<not> is_write (A e x) \<or> x = w \<or> x = r) \<or> cvmap s x = None")
    case True
    then show ?thesis using Cons by (auto split: if_splits)
  next
    case False
    then obtain c where c: "cvmap s x = Some c" by auto
    let ?first = "(if cv_since e c w \<and> (earlier e r x \<or> \<not> u)
             then do {
               (status, s1) \<leftarrow> sc_merge e x r s;
               Some (ch \<or> status, u \<or> (status \<and> earlier e x r), s1)
             } else Some (ch, u, s))"
    obtain c1 u1 s1 where s1: "?first = Some (c1, u1, s1)"
      using Cons.prems False c by (cases ?first) auto
    have k1: "edges_only s s1"
      using s1 sc_merge_edges edges.refl by (auto split: if_splits bind_splits)
    have rest: "Option.bind (cvmap s1 r) (\<lambda>cr.
          if cv_since e cr x then
            (if earlier e x w \<or> \<not> u1
             then do {
               (status, s2) \<leftarrow> (if cvmap s1 w = None then Some (True, s1) else sc_merge e w x s1);
               Some (c1 \<or> status, u1 \<or> (status \<and> earlier e w x), s2)
             } else Some (c1, u1, s1))
          else slow_writes e r w l (c1, u1, s1)) = Some (ch', u', s')"
      using Cons.prems False c s1 by simp
    then have "edges_only s1 s'"
      using sc_merge_edges edges.refl Cons.IH by (auto split: bind_splits if_splits)
    with k1 show ?thesis by (rule edges.trans)
  qed
qed

lemma processReadFast_edges:
  assumes "processReadFast e r s = Some (b, s')"
  shows "edges_only s s'"
proof (cases "reads_from (A e r)")
  case None
  then show ?thesis using assms by (simp add: processReadFast_def edges.refl)
next
  case (Some w)
  obtain m s1 where s1: "sc_merge e r w s = Some (m, s1)"
    and rest: "fold_opt (\<lambda>i (changed, s).
              case get_actions_on_obj e (location (A e r)) i of
                None \<Rightarrow> Some (changed, s)
              | Some l \<Rightarrow> fast_writes e r w (rev l) (changed, s))
            [0 ..< maxthreads s1 + 1] (m \<and> earlier e r w, s1) = Some (b, s')"
    using assms Some by (auto simp: processReadFast_def split: bind_splits prod.splits)
  have "edges_only (snd (m \<and> earlier e r w, s1)) (snd (b, s'))"
    by (rule edges.fold [OF rest]) (auto intro: edges.refl fast_writes_edges split: option.splits)
  then show ?thesis using sc_merge_edges [OF s1] edges.trans by auto
qed

lemma merge_rf_edges: "merge_rf e r w u s = Some (c, u', s') \<Longrightarrow> edges_only s s'"
  by (auto simp: merge_rf_def Let_def intro: sc_merge_edges edges.refl split: if_splits bind_splits)

lemma processReadSlow_edges:
  assumes "processReadSlow e r u s = Some (b, u', s')"
  shows "edges_only s s'"
proof -
  obtain w c u1 s1 where s1: "merge_rf e r w u s = Some (c, u1, s1)"
    and rest: "fold_opt (\<lambda>i (changed, updateFuture, s).
         case get_actions_on_obj e (location (A e r)) i of
           None \<Rightarrow> Some (changed, updateFuture, s)
         | Some l \<Rightarrow> slow_writes e r w (rev l) (changed, updateFuture, s))
       [0 ..< maxthreads s1 + 1] (c, u1, s1) = Some (b, u', s')"
    using assms by (auto simp: processReadSlow_def split: bind_splits prod.splits)
  have "edges_only (snd (snd (c, u1, s1))) (snd (snd (b, u', s')))"
    by (rule edges.fold [OF rest]) (auto intro: edges.refl slow_writes_edges split: option.splits)
  then show ?thesis using merge_rf_edges [OF s1] edges.trans by auto
qed

lemma sc_process_read_edges:
  "sc_process_read e a (ch, u, s) = Some (ch', u', s') \<Longrightarrow> edges_only s s'"
  by (auto simp: sc_process_read_def processAnnotatedReadSlow_def split: if_splits bind_splits
      intro: processReadFast_edges processReadSlow_edges merge_rf_edges)

lemma ensure_cv_edges: "edges_only s (ensure_cv e a s)"
  by (auto simp: ensure_cv_def edges.refl edges_only_flags split: option.splits)

lemma compute_act_edges:
  assumes "compute_act e a (la, ch, u, s) = Some (la', ch', u', s')"
  shows "edges_only s s'"
proof -
  obtain l s1 ch2 s2 where s1: "sb_edge e a l (ensure_cv e a s) = Some s1"
    and s2: "join_edge e a ch s1 = Some (ch2, s2)"
    and s3: "read_edges e a (ch2, u, s2) = Some (ch', u', s')"
    using assms by (auto simp: compute_act_def Let_def split: bind_splits if_splits)
  have "edges_only (ensure_cv e a s) s1"
    using s1 by (auto simp: sb_edge_def split: option.splits intro: sc_merge_edges edges.refl)
  moreover have "edges_only s1 s2"
    using s2 by (auto simp: join_edge_def split: if_splits bind_splits
        intro: sc_merge_edges edges.refl)
  moreover have "edges_only s2 s'"
    using s3 by (auto simp: read_edges_def split: if_splits intro: sc_process_read_edges edges.refl)
  ultimately show ?thesis using ensure_cv_edges edges.trans by metis
qed

lemma computeCV_loop_edges:
  assumes "computeCV_loop e l ft la s = Some s'"
  shows "edges_only s s'"
proof (rule computeCV_loop.raw_induct [OF _ assms])
  fix rec e l ft la s s'
  assume IH: "\<And>e l ft la s s'. rec e l ft la s = Some s' \<Longrightarrow> edges_only s s'"
    and step: "Option.bind (fold_opt (compute_act e) l (la, ft, False, s))
      (\<lambda>(la1, ch, u, s1).
        if ch then rec e l False (replicate (length la1) None) s1
        else if \<not> fastVersion s1 then
          (if \<not> allowNonSC s1 then rec e l False la1 (s1\<lparr>allowNonSC := True\<rparr>) else Some s1)
        else Some s1) = Some s'"
  obtain la1 ch u s1 where f: "fold_opt (compute_act e) l (la, ft, False, s) = Some (la1, ch, u, s1)"
    and rest: "(if ch then rec e l False (replicate (length la1) None) s1
       else if \<not> fastVersion s1 then
         (if \<not> allowNonSC s1 then rec e l False la1 (s1\<lparr>allowNonSC := True\<rparr>) else Some s1)
       else Some s1) = Some s'"
    using step by (auto simp: bind_eq_Some_conv)
  have "edges_only (snd (snd (snd (la, ft, False, s)))) (snd (snd (snd (la1, ch, u, s1))))"
    by (rule edges.fold [OF f]) (auto intro: compute_act_edges)
  then have k: "edges_only s s1" by simp
  have fl: "edges_only s1 (s1\<lparr>allowNonSC := True\<rparr>)" by (rule edges_only_flags)
  have "edges_only s1 s'"
    using rest IH edges.refl edges.trans [OF fl] by (auto split: if_splits)
  with k show "edges_only s s'" by (rule edges.trans)
qed

lemma computeCV_edges: "computeCV e l s = Some s' \<Longrightarrow> edges_only s s'"
  unfolding computeCV_def by (rule computeCV_loop_edges)

lemma constrain_list_edges: "constrain_list e a l (ch, s) = Some (ch', s') \<Longrightarrow> edges_only s s'"
proof (induction l arbitrary: ch s)
  case Nil
  then show ?case by (simp add: edges.refl)
next
  case (Cons x l)
  then show ?case
    by (auto split: if_splits bind_splits intro: sc_merge_edges edges.refl)
qed

lemma updateConstraints_edges:
  assumes "updateConstraints e a s = Some (ch, s')"
  shows "edges_only s s'"
proof -
  have "edges_only (snd (False, s)) (snd (ch, s'))"
    by (rule edges.fold [OF assms [unfolded updateConstraints_def]])
      (auto split: if_splits intro: constrain_list_edges edges.refl)
  then show ?thesis by simp
qed

section \<open>The generation\<close>

lemma rollback_divided:
  assumes "divided e l xs s" and "rollback e l s = Some s'"
  shows "divided e l [] s'" and "same_memory s s'"
proof -
  obtain s1 where s1: "build_threadlists e l (sc_reset l s) = Some s1"
    and s': "computeCV e l s1 = Some s'"
    using assms(2) by (auto simp: rollback_def bind_eq_Some_conv)
  note b = build_threadlists_holds [OF divided_reset [OF assms(1)] s1]
  note k = edges_only_keeps [OF computeCV_edges [OF s']]
  show "divided e l [] s'" by (rule divided_frame [OF holds_divided [OF b(1)] k])
  show "same_memory s s'" using b(2) kept_same_memory [OF k]
    by (auto simp: same_memory_def sc_reset_def)
qed

lemma generate_loop_result:
  assumes "generate_loop e l ec cs xs s = Some (ys, s')"
  shows "divided e l xs s \<longrightarrow>
    divided e l ys s' \<and> getNextActions e s' = Some [] \<and> same_memory s s'"
proof -
  define good where "good l xs s ys s' \<longleftrightarrow> (divided e l xs s \<longrightarrow>
      divided e l ys s' \<and> getNextActions e s' = Some [] \<and> same_memory s s')" for l xs and s s' :: sc_gen and ys
  have "e' = e \<longrightarrow> good l xs s (fst r) (snd r)" if "generate_loop e' l ec cs xs s = Some r" for e' r
  proof (rule generate_loop.raw_induct [OF _ that])
    fix rec e' l ec cs xs s r
    assume IH: "\<And>e' l ec cs xs s r. rec e' l ec cs xs s = Some r
        \<Longrightarrow> e' = e \<longrightarrow> good l xs s (fst r) (snd r)"
      and step: "Option.bind (getNextActions e' s) (\<lambda>array.
       if array = [] then Some (xs, s)
       else Option.bind (pruneArray e' array s) (\<lambda>pruned.
         Option.bind (choose_action array pruned ec cs) (\<lambda>(act, choices, currchoice, lastchoice).
         Option.bind (updateConstraints e' act (pop_front e' act s)) (\<lambda>(changed, s1).
         Option.bind (if changed then computeCV e' l s1 else Some s1) (\<lambda>s2.
         if changed \<and> \<not> cyclic s1 \<and> cyclic s2 \<and> lastchoice \<noteq> None
         then Option.bind (rollback e' l s2) (\<lambda>s3.
              rec e' l (the lastchoice + 1)
                (choices[the lastchoice := choices ! the lastchoice + 1], 0, None) [] s3)
         else rec e' l ec (choices, currchoice, lastchoice) (xs @ [act]) s2))))) = Some r"
    show "e' = e \<longrightarrow> good l xs s (fst r) (snd r)"
    proof (intro impI, unfold good_def, intro impI)
      assume e': "e' = e" and div: "divided e l xs s"
      from step obtain array where arr: "getNextActions e s = Some array"
        by (auto simp: e' bind_eq_Some_conv)
      show "divided e l (fst r) (snd r) \<and> getNextActions e (snd r) = Some [] \<and> same_memory s (snd r)"
      proof (cases "array = []")
        case True
        then show ?thesis using step arr div by (auto simp: e' same_memory_def)
      next
        case False
        obtain pruned act choices currchoice lastchoice changed s1 s2 where
          pr: "pruneArray e array s = Some pruned"
          and ch: "choose_action array pruned ec cs = Some (act, choices, currchoice, lastchoice)"
          and s1: "updateConstraints e act (pop_front e act s) = Some (changed, s1)"
          and s2: "(if changed then computeCV e l s1 else Some s1) = Some s2"
          and rest: "(if changed \<and> \<not> cyclic s1 \<and> cyclic s2 \<and> lastchoice \<noteq> None
             then Option.bind (rollback e l s2) (\<lambda>s3.
                  rec e l (the lastchoice + 1)
                    (choices[the lastchoice := choices ! the lastchoice + 1], 0, None) [] s3)
             else rec e l ec (choices, currchoice, lastchoice) (xs @ [act]) s2) = Some r"
          using step [unfolded e'] arr False
          by (auto simp: bind_eq_Some_conv split del: if_split)
        have "is_front e s act"
          by (rule getNextActions_fronts [OF arr div choose_action_mem [OF ch False pr]])
        then have d0: "divided e l (xs @ [act]) (pop_front e act s)" by (rule pop_front_divided [OF div])
        have k1: "edges_only (pop_front e act s) s1" by (rule updateConstraints_edges [OF s1])
        have k2: "edges_only s1 s2"
          using s2 computeCV_edges edges.refl by (auto split: if_splits)
        note k = edges_only_keeps [OF edges.trans [OF k1 k2]]
        have d2: "divided e l (xs @ [act]) s2" by (rule divided_frame [OF d0 k])
        have m2: "same_memory s s2"
          using kept_same_memory [OF k] by (simp add: same_memory_def pop_front_def)
        show ?thesis
        proof (cases "changed \<and> \<not> cyclic s1 \<and> cyclic s2 \<and> lastchoice \<noteq> None")
          case True
          obtain s3 ec' cs' where s3: "rollback e l s2 = Some s3"
            and r: "rec e l ec' cs' [] s3 = Some r"
            using rest unfolding if_P [OF True] by (auto simp: bind_eq_Some_conv)
          note b = rollback_divided [OF d2 s3]
          have "same_memory s s3" using m2 b(2) same_memory_trans by blast
          then show ?thesis using IH [OF r] b(1) same_memory_trans by (auto simp: good_def)
        next
          case False
          then have "rec e l ec (choices, currchoice, lastchoice) (xs @ [act]) s2 = Some r"
            using rest unfolding if_not_P [OF False] by simp
          from IH [OF this] show ?thesis
            using d2 m2 same_memory_trans unfolding good_def by blast
        qed
      qed
    qed
  qed
  from this [OF assms] show ?thesis by (simp add: good_def)
qed

text \<open>Annotations do not touch the lists.\<close>

lemma anno_loop_frame:
  "anno_loop e a l s = Some (rest, s') \<Longrightarrow> threadlists s' = threadlists s
     \<and> maxthreads s' = maxthreads s \<and> lastwrmap s' = lastwrmap s"
proof (induction l arbitrary: s)
  case Nil
  then show ?case by simp
next
  case (Cons x l)
  from Cons.prems show ?case by (auto simp: Let_def split: if_splits dest!: Cons.IH)
qed

lemma anno_list_frame:
  "anno_list e l s = Some (ok, s') \<Longrightarrow> threadlists s' = threadlists s
     \<and> maxthreads s' = maxthreads s \<and> lastwrmap s' = lastwrmap s"
proof (induction e l s rule: anno_list.induct)
  case (1 e s)
  then show ?case by simp
next
  case (2 e a as s)
  show ?case
  proof (cases "IS_SC_ANNO (A e a) \<and> IS_ANNO_BEGIN (A e a)")
    case False
    then show ?thesis using 2(1,4) by (auto split: if_splits)
  next
    case True
    then obtain act rest where as: "as = act # rest" using 2(4) by (cases as) auto
    show ?thesis
    proof (cases "IS_ANNO_END (A e act)")
      case stop: True
      then show ?thesis using 2(2) [OF _ _ as stop] 2(4) True as by simp
    next
      case False
      then obtain rest1 s1 where l: "anno_loop e act rest s = Some (rest1, s1)"
        and r: "anno_list e rest1 s1 = Some (ok, s')"
        using 2(4) True as by (auto split: bind_splits)
      show ?thesis using 2(3) [OF _ _ as False l refl] r True anno_loop_frame [OF l] by simp
    qed
  qed
qed

lemma anno_lists_frame:
  "anno_lists e ls s = Some s' \<Longrightarrow> threadlists s' = threadlists s
     \<and> maxthreads s' = maxthreads s \<and> lastwrmap s' = lastwrmap s"
proof (induction ls arbitrary: s)
  case Nil
  then show ?case by simp
next
  case (Cons l ls)
  from Cons.prems show ?case
    by (auto split: if_splits bind_splits dest!: Cons.IH anno_list_frame)
qed

lemma generateSC_result:
  assumes "generateSC e l s = Some (r, s')"
    and "threadlists s \<noteq> []" and "\<forall>x \<in> set (threadlists s). x = []"
  shows "same_memory s s'" and "\<exists>ys. divided e l ys s'"
    and "r = Some ys \<Longrightarrow> divided e l ys s' \<and> getNextActions e s' = Some []"
proof -
  obtain s1 s2 where s1: "build_threadlists e l s = Some s1"
    and s2: "(if annotationMode s1
        then collectAnnotatedReads e (s1\<lparr>stat_actions := stat_actions s1 + of_nat (length l)\<rparr>)
        else Some (s1\<lparr>stat_actions := stat_actions s1 + of_nat (length l)\<rparr>)) = Some s2"
    and rest: "(if annotationMode s2 \<and> annotationError s2 then Some (None, s2)
       else do {
         s \<leftarrow> computeCV e l s2;
         (sclist, s) \<leftarrow> generate_loop e l 0 (replicate (length l) 0, 0, None) [] s;
         Some (Some sclist, s)
       }) = Some (r, s')"
    using assms(1) by (auto simp: generateSC_def Let_def bind_eq_Some_conv split del: if_split)
  note b = build_threadlists_holds [OF assms(2,3) s1]
  have fr: "threadlists s2 = threadlists s1" "maxthreads s2 = maxthreads s1"
    "lastwrmap s2 = lastwrmap s1"
    using s2 by (auto simp: collectAnnotatedReads_def dest: anno_lists_frame split: if_splits)
  have d: "divided e l [] s2" using holds_divided [of e l s2] b(1) fr by simp
  have m: "same_memory s s2" using b(2) fr by (auto simp: same_memory_def)
  have "same_memory s s' \<and> (\<exists>ys. divided e l ys s') \<and>
      (r = Some ys \<longrightarrow> divided e l ys s' \<and> getNextActions e s' = Some [])" for ys
  proof (cases "annotationMode s2 \<and> annotationError s2")
    case True
    then show ?thesis using rest d m by auto
  next
    case False
    then obtain s3 zs where s3: "computeCV e l s2 = Some s3"
      and g: "generate_loop e l 0 (replicate (length l) 0, 0, None) [] s3 = Some (zs, s')"
      and r: "r = Some zs"
      using rest unfolding if_not_P [OF False] by (auto simp: bind_eq_Some_conv)
    note k = edges_only_keeps [OF computeCV_edges [OF s3]]
    show ?thesis
      using generate_loop_result [OF g] divided_frame [OF d k] r m kept_same_memory [OF k]
        same_memory_trans by blast
  qed
  then show "same_memory s s'" and "\<exists>ys. divided e l ys s'"
    and "r = Some ys \<Longrightarrow> divided e l ys s' \<and> getNextActions e s' = Some []" by auto
qed

section \<open>Sequential consistency\<close>

lemma check_rf_step_effect:
  "lastwrmap (check_rf_step e a s) =
     (if is_write (A e a) then (lastwrmap s)(location (A e a) \<mapsto> a) else lastwrmap s)"
  "hasBadRF (check_rf_step e a s) \<longleftrightarrow> hasBadRF s \<or> (is_read (A e a)
     \<and> reads_from (A e a) \<noteq> None \<and> reads_from (A e a) \<noteq> lastwrmap s (location (A e a)))"
  by (auto simp: check_rf_step_def Let_def)

lemma check_rf_fold:
  assumes "lastwrmap s = Map.empty" and "\<not> hasBadRF s"
  shows "lastwrmap (fold (check_rf_step e) xs s) = last_write e xs"
    and "hasBadRF (fold (check_rf_step e) xs s) \<longleftrightarrow> (\<exists>i < length xs. misread e xs i)"
proof -
  have "lastwrmap (fold (check_rf_step e) xs s) = last_write e xs
     \<and> (hasBadRF (fold (check_rf_step e) xs s) \<longleftrightarrow> (\<exists>i < length xs. misread e xs i))"
  proof (induction xs rule: rev_induct)
    case Nil
    then show ?case using assms by (auto simp: fun_eq_iff)
  next
    case (snoc a xs)
    let ?s = "fold (check_rf_step e) xs s"
    have old: "misread e (xs @ [a]) i \<longleftrightarrow> misread e xs i" if "i < length xs" for i
      using that by (simp add: misread_def nth_append)
    have new: "misread e (xs @ [a]) (length xs) \<longleftrightarrow> is_read (A e a) \<and> reads_from (A e a) \<noteq> None
        \<and> reads_from (A e a) \<noteq> lastwrmap ?s (location (A e a))"
      using snoc by (simp add: misread_def)
    have "lastwrmap (check_rf_step e a ?s) = last_write e (xs @ [a])"
      using snoc by (auto simp: check_rf_step_effect fun_eq_iff last_write_snoc)
    moreover have "hasBadRF (check_rf_step e a ?s)
        \<longleftrightarrow> hasBadRF ?s \<or> misread e (xs @ [a]) (length xs)"
      unfolding new by (simp add: check_rf_step_effect)
    moreover have "(\<exists>i < length (xs @ [a]). misread e (xs @ [a]) i)
        \<longleftrightarrow> (\<exists>i < length xs. misread e xs i) \<or> misread e (xs @ [a]) (length xs)"
      using old by (auto simp: less_Suc_eq)
    ultimately show ?case using snoc by simp
  qed
  then show "lastwrmap (fold (check_rf_step e) xs s) = last_write e xs"
    and "hasBadRF (fold (check_rf_step e) xs s) \<longleftrightarrow> (\<exists>i < length xs. misread e xs i)" by auto
qed

text \<open>
  C8: when the generator does not report a cycle, the list it returns is a sequentially
  consistent order of the execution: a permutation of the execution's actions that keeps the
  order of every thread and in which every read reads from the last write to its location before
  it. This holds for the fast and the slow edges and across every rollback of the choices. The
  generator must not have been used before, and the execution's own clock vectors must put
  nothing after what it is synchronized with.
\<close>

theorem sc_list_is_sequentially_consistent:
  assumes "getSCList e actions s = Some (l, s')" and "\<not> getCyclic s'"
    and "threadlists s = [[]]" and "lastwrmap s = Map.empty" and "causal e actions"
  shows "sc_order e actions l"
proof -
  obtain dup r1 s1 r2 s2 s3 where
    g1: "generateSC e actions (s\<lparr>dup_threadlists := dup, fastVersion := True\<rparr>) = Some (r1, s1)"
    and g2: "(if cyclic s1 then generateSC e actions ((sc_reset actions s1)\<lparr>fastVersion := False\<rparr>)
       else Some (r1, s1)) = Some (r2, s2)"
    and r2: "r2 = Some l" and c: "check_rf e l s2 = Some s3" and s': "s' = sc_update_stats s3"
    using assms(1)
    by (auto simp: getSCList_def Let_def bind_eq_Some_conv split del: if_split)
  note res1 = generateSC_result [OF g1]
  have fresh: "threadlists (s\<lparr>dup_threadlists := dup, fastVersion := True\<rparr>) \<noteq> []"
    "\<forall>x \<in> set (threadlists (s\<lparr>dup_threadlists := dup, fastVersion := True\<rparr>)). x = []"
    using assms(3) by auto
  have m1: "lastwrmap s1 = Map.empty"
    using res1(1) [OF fresh] assms(4) by (simp add: same_memory_def)
  have "lastwrmap s2 = Map.empty \<and> divided e actions l s2 \<and> getNextActions e s2 = Some []"
  proof (cases "cyclic s1")
    case False
    then show ?thesis using g2 r2 m1 res1(3) [OF fresh] by auto
  next
    case True
    then have g: "generateSC e actions ((sc_reset actions s1)\<lparr>fastVersion := False\<rparr>) = Some (r2, s2)"
      using g2 by simp
    obtain ys where "divided e actions ys s1" using res1(2) [OF fresh] by blast
    note em = divided_reset [OF this]
    have em': "threadlists ((sc_reset actions s1)\<lparr>fastVersion := False\<rparr>) \<noteq> []"
      "\<forall>x \<in> set (threadlists ((sc_reset actions s1)\<lparr>fastVersion := False\<rparr>)). x = []"
      using em by auto
    show ?thesis
      using generateSC_result(1,3) [OF g em'] r2 m1 by (simp add: same_memory_def sc_reset_def)
  qed
  then have m2: "lastwrmap s2 = Map.empty" and d2: "divided e actions l s2"
    and n2: "getNextActions e s2 = Some []" by auto
  have "interleaving e actions l"
    by (rule done_is_interleaving [OF d2]) (use no_next_means_done [OF n2 d2 assms(5)] in blast)
  moreover have "s3 = fold (check_rf_step e) l (s2\<lparr>hasBadRF := False\<rparr>)"
    using c by (auto simp: check_rf_def Let_def split: if_splits)
  moreover have "\<not> hasBadRF s3"
    using assms(2) s' by (simp add: getCyclic_def sc_update_stats_def split: if_splits)
  ultimately show ?thesis
    using check_rf_fold(2) [of "s2\<lparr>hasBadRF := False\<rparr>" e l] m2 by (auto simp: sc_order_def)
qed

text \<open>
  Three threads: two stores, and a load that reads the older one although it comes last, so that
  the order has to move it.
\<close>

definition sc_trace :: exec where
  "sc_trace = (sample_exec [
      1 \<mapsto> sample_act ATOMIC_WRITE memory_order_relaxed 64 5 1 1 [0, 1],
      2 \<mapsto> sample_act ATOMIC_WRITE memory_order_relaxed 64 6 2 2 [0, 0, 2],
      3 \<mapsto> (sample_act ATOMIC_READ memory_order_relaxed 64 0 3 3 [0, 0, 0, 3])
             \<lparr>reads_from := Some 1\<rparr>])
      \<lparr>obj_thrd_map := [64 \<mapsto> [[], [1], [2], [3]]], action_trace := [1, 2, 3]\<rparr>"

definition zero_memory :: sc_gen where
  "zero_memory = \<lparr>cvmap = Map.empty, cyclic = False, fastVersion = False, allowNonSC = False,
     maxthreads = 0, threadlists = [], badrfset = Map.empty, lastwrmap = Map.empty,
     print_always = False, print_buggy = False, print_nonsc = False, dup_threadlists = [],
     hasBadRF = False, annotatedReadSet = Map.empty, annotatedReadSetSize = 0,
     annotationMode = False, annotationError = False, sccount = 0, nonsccount = 0,
     stat_actions = 0\<rparr>"

declare computeCV_loop.simps [code] generate_loop.simps [code]

lemma sc_trace_list:
  "map_option (\<lambda>(l, s). (l, getCyclic s)) (getSCList sc_trace [1, 2, 3] (SCGenerator_new zero_memory))
     = Some ([1, 3, 2], False)"
  by code_simp

lemma sc_trace_causal: "causal sc_trace [1, 2, 3]"
  by (simp add: causal_def sc_trace_def sample_simps cv_since_def)

lemma fresh_generator:
  "threadlists (SCGenerator_new junk) = [[]]" "lastwrmap (SCGenerator_new junk) = Map.empty"
  by (simp_all add: SCGenerator_new_def)

theorem sc_list_is_sequentially_consistent_witness: "sc_order sc_trace [1, 2, 3] [1, 3, 2]"
proof -
  obtain s' where "getSCList sc_trace [1, 2, 3] (SCGenerator_new zero_memory) = Some ([1, 3, 2], s')"
    and "\<not> getCyclic s'"
    using sc_trace_list by auto
  then show ?thesis
    by (rule sc_list_is_sequentially_consistent) (rule fresh_generator sc_trace_causal)+
qed

end
