(* ===== verification/SCFenceProps.thy ===== *)
theory SCFenceProps
  imports SCFence SCOrder
begin

text \<open>
  What the plugin promises: its search for synchronization paths ends and finds paths only, and
  it lets the model checker go on with an inference only past executions that are sequentially
  consistent.
\<close>

section \<open>Paths\<close>

text \<open>
  A path from \<open>a\<close> to \<open>b\<close>: reads \<open>r1 \<dots> rn\<close> where \<open>r1\<close> reads from a write of \<open>a\<close>'s thread at or
  after \<open>a\<close>, each further read reads from a write of the previous read's thread at or after that
  read, and \<open>rn\<close> is not after \<open>b\<close> in \<open>b\<close>'s thread.
\<close>

definition reads_after :: "exec \<Rightarrow> aid \<Rightarrow> aid \<Rightarrow> bool" where
  "reads_after e a r \<longleftrightarrow> is_read (A e r) \<and> (\<exists>w. reads_from (A e r) = Some w
     \<and> tid (A e w) = tid (A e a) \<and> seq_number (A e a) \<le> seq_number (A e w))"

definition rf_sb_path :: "exec \<Rightarrow> aid \<Rightarrow> aid \<Rightarrow> aid list \<Rightarrow> bool" where
  "rf_sb_path e a b p \<longleftrightarrow> p \<noteq> []
     \<and> reads_after e a (hd p)
     \<and> (\<forall>i. Suc i < length p \<longrightarrow> reads_after e (p ! i) (p ! Suc i))
     \<and> tid (A e (last p)) = tid (A e b) \<and> seq_number (A e (last p)) \<le> seq_number (A e b)"

text \<open>The lists of the threads, and reads that read from writes of these threads.\<close>

definition trace_lists :: "exec \<Rightarrow> aid list list \<Rightarrow> bool" where
  "trace_lists e dup \<longleftrightarrow> (\<forall>t < length dup. \<forall>x \<in> set (dup ! t). tid (A e x) = t
     \<and> (is_read (A e x) \<longrightarrow> (\<exists>w. reads_from (A e x) = Some w \<and> tid (A e w) < length dup)))"

definition all_acts :: "aid list list \<Rightarrow> aid set" where
  "all_acts dup = (\<Union>t < length dup. set (dup ! t))"

lemma finite_all_acts: "finite (all_acts dup)"
  by (simp add: all_acts_def)

text \<open>A path on the stack: complete but for its first read's write.\<close>

definition partial_path :: "exec \<Rightarrow> aid list list \<Rightarrow> aid \<Rightarrow> aid list \<Rightarrow> bool" where
  "partial_path e dup b p \<longleftrightarrow> p \<noteq> [] \<and> distinct p \<and> set p \<subseteq> all_acts dup
     \<and> (\<forall>r \<in> set p. is_read (A e r))
     \<and> (\<forall>i. Suc i < length p \<longrightarrow> reads_after e (p ! i) (p ! Suc i))
     \<and> tid (A e (last p)) = tid (A e b) \<and> seq_number (A e (last p)) \<le> seq_number (A e b)"

lemma extend_path_mem:
  "q \<in> set (extend_path e l n p) \<longleftrightarrow>
     (\<exists>x. q = x # p \<and> x \<in> set (takeWhile (\<lambda>a. \<not> seq_number (A e a) > n) l) \<and> is_read (A e x))"
  by (auto simp: extend_path_def)

lemma initial_paths:
  assumes "trace_lists e dup" and "tid (A e b) < length dup"
    and "q \<in> set (extend_path e (dup ! tid (A e b)) (seq_number (A e b)) [])"
  shows "partial_path e dup b q"
proof -
  obtain x where q: "q = [x]" and x: "x \<in> set (dup ! tid (A e b))" "is_read (A e x)"
    "seq_number (A e x) \<le> seq_number (A e b)"
    using assms(3) unfolding extend_path_mem by (auto dest: set_takeWhileD)
  have "x \<in> all_acts dup" using x(1) assms(2) by (auto simp: all_acts_def)
  moreover have "tid (A e x) = tid (A e b)" using assms(1,2) x(1) by (auto simp: trace_lists_def)
  ultimately show ?thesis using x q by (simp add: partial_path_def)
qed

lemma extended_paths:
  assumes "trace_lists e dup" and "partial_path e dup b p"
    and "reads_from (A e (hd p)) = Some w" and "tid (A e w) < length dup"
    and "\<not> path_loops e w p"
    and "q \<in> set (extend_path e (dup ! tid (A e w)) (seq_number (A e w)) p)"
  shows "partial_path e dup b q" and "length q = Suc (length p)"
proof -
  obtain x where q: "q = x # p" and x: "x \<in> set (dup ! tid (A e w))" "is_read (A e x)"
    "seq_number (A e x) \<le> seq_number (A e w)"
    using assms(6) unfolding extend_path_mem by (auto dest: set_takeWhileD)
  have xt: "tid (A e x) = tid (A e w)" using assms(1,4) x(1) by (auto simp: trace_lists_def)
  have "x \<in> all_acts dup" using x(1) assms(4) by (auto simp: all_acts_def)
  moreover have "x \<notin> set p"
  proof
    assume "x \<in> set p"
    then have "\<not> seq_number (A e w) \<ge> seq_number (A e x)"
      using assms(5) xt by (auto simp: path_loops_def list_ex_iff)
    then show False using x(3) by simp
  qed
  moreover have "reads_after e (q ! i) (q ! Suc i)" if "Suc i < length q" for i
  proof (cases i)
    case 0
    have "p \<noteq> []" "is_read (A e (hd p))" using assms(2) by (auto simp: partial_path_def)
    then show ?thesis using 0 q assms(3) xt x(3) by (auto simp: reads_after_def hd_conv_nth)
  next
    case (Suc j)
    then show ?thesis using assms(2) that q by (auto simp: partial_path_def)
  qed
  ultimately show "partial_path e dup b q" using assms(2) q x(2) by (auto simp: partial_path_def)
  show "length q = Suc (length p)" using q by simp
qed

lemma partial_path_length:
  "partial_path e dup b p \<Longrightarrow> length p \<le> card (all_acts dup)"
  by (metis card_mono distinct_card finite_all_acts partial_path_def)

text \<open>The loop: the paths on the stack get longer, up to the number of actions.\<close>

definition stack_measure :: "aid list list \<Rightarrow> aid list list \<Rightarrow> nat multiset" where
  "stack_measure dup stack = image_mset (\<lambda>p. Suc (card (all_acts dup)) - length p) (mset stack)"

lemma stack_measure_snoc:
  "stack_measure dup (st @ [p]) = add_mset (Suc (card (all_acts dup)) - length p) (stack_measure dup st)"
  by (simp add: stack_measure_def)

lemma stack_measure_extend:
  assumes "\<And>q. q \<in> set ext \<Longrightarrow> length q = Suc (length p) \<and> length q \<le> card (all_acts dup)"
  shows "(stack_measure dup (st @ ext), stack_measure dup (st @ [p])) \<in> mult less_than"
proof -
  have "(stack_measure dup st + stack_measure dup ext,
      stack_measure dup st + {#Suc (card (all_acts dup)) - length p#}) \<in> mult less_than"
  proof (rule one_step_implies_mult, simp, rule ballI)
    fix k
    assume "k \<in># stack_measure dup ext"
    then obtain q where "q \<in> set ext" and k: "k = Suc (card (all_acts dup)) - length q"
      by (auto simp: stack_measure_def)
    then have "length q = Suc (length p)" "length q \<le> card (all_acts dup)" using assms by blast+
    then show "\<exists>j \<in># {#Suc (card (all_acts dup)) - length p#}. (k, j) \<in> less_than"
      using k by simp
  qed
  then show ?thesis by (simp add: stack_measure_def)
qed

lemma path_search_correct:
  assumes "trace_lists e dup" and "\<forall>p \<in> set stack. partial_path e dup b p"
    and "\<forall>p \<in> set paths. rf_sb_path e a b p"
  shows "\<exists>ps. path_search e dup (tid (A e a)) (seq_number (A e a)) stack paths = Some ps
    \<and> (\<forall>p \<in> set ps. rf_sb_path e a b p)"
  using assms(2,3)
proof (induction "stack_measure dup stack" arbitrary: stack paths
    rule: wf_induct_rule [OF wf_mult [OF wf_less_than]])
  case (1 stack)
  show ?case
  proof (cases stack rule: rev_cases)
    case Nil
    then show ?thesis using 1(3) by (subst path_search.simps) simp
  next
    case (snoc st p)
    have pp: "partial_path e dup b p" using 1(2) snoc by simp
    then have ne: "p \<noteq> []" and rd: "is_read (A e (hd p))" and "hd p \<in> all_acts dup"
      by (auto simp: partial_path_def)
    then obtain w where w: "reads_from (A e (hd p)) = Some w" and wt: "tid (A e w) < length dup"
      using assms(1) by (fastforce simp: all_acts_def trace_lists_def)
    have st: "\<forall>p \<in> set st. partial_path e dup b p" using 1(2) snoc by simp
    have less: "(stack_measure dup st, stack_measure dup stack) \<in> mult less_than"
      using stack_measure_extend [of "[]" p dup st] snoc by simp
    show ?thesis
    proof (cases "seq_number (A e w) = 0 \<or> path_loops e w p")
      case True
      then show ?thesis using 1(1) [OF less st 1(3)] snoc w
        by (subst path_search.simps) simp
    next
      case False
      note loop = False
      show ?thesis
      proof (cases "tid (A e w) = tid (A e a) \<and> seq_number (A e w) \<ge> seq_number (A e a)")
        case True
        have "rf_sb_path e a b p"
          using pp w True rd by (auto simp: rf_sb_path_def partial_path_def reads_after_def)
        then show ?thesis using 1(1) [OF less st, of "paths @ [p]"] 1(3) snoc w loop True
          by (subst path_search.simps) auto
      next
        case False
        let ?ext = "extend_path e (dup ! tid (A e w)) (seq_number (A e w)) p"
        have np: "\<not> path_loops e w p" using loop by simp
        note ext = extended_paths [OF assms(1) pp w wt np]
        have less': "(stack_measure dup (st @ ?ext), stack_measure dup stack) \<in> mult less_than"
          unfolding snoc
          by (rule stack_measure_extend) (use ext partial_path_length in blast)
        have "\<forall>q \<in> set (st @ ?ext). partial_path e dup b q" using st ext(1) by auto
        then show ?thesis using 1(1) [OF less' _ 1(3)] snoc w loop False wt
          by (subst path_search.simps) (auto simp: thread_list_def)
      qed
    qed
  qed
qed

text \<open>
  C20: the search for synchronization paths between two actions ends, and every path it returns
  is one: its first read reads from the first action's thread at or after that action, each
  further read reads from the thread of the previous read at or after it, and the last one is in
  the second action's thread and not after it. The threads' lists only have to be those of a
  trace whose reads all read from something; the search drops the paths that would close a loop,
  so no path is longer than the trace.
\<close>

theorem get_rf_sb_paths_finds_paths:
  assumes "trace_lists e dup" and "tid (A e a) < length dup" and "tid (A e b) < length dup"
  shows "\<exists>ps. get_rf_sb_paths e dup a b = Some ps \<and> (\<forall>p \<in> set ps. rf_sb_path e a b p)"
proof (cases "dup ! tid (A e a) = [] \<or> dup ! tid (A e b) = []")
  case True
  then show ?thesis using assms(2,3) by (auto simp: get_rf_sb_paths_def thread_list_def)
next
  case False
  then show ?thesis
    using path_search_correct [OF assms(1), of _ b "[]" a] initial_paths [OF assms(1,3)] assms(2,3)
    by (simp add: get_rf_sb_paths_def thread_list_def)
qed

lemma sc_trace_lists: "trace_lists sc_trace [[], [1], [2], [3]]"
  by (simp add: trace_lists_def sc_trace_def sample_simps less_Suc_eq action_defs numeral_eq_Suc)

theorem get_rf_sb_paths_finds_paths_witness:
  "\<exists>ps. get_rf_sb_paths sc_trace [[], [1], [2], [3]] 1 3 = Some ps
     \<and> (\<forall>p \<in> set ps. rf_sb_path sc_trace 1 3 p)"
  by (rule get_rf_sb_paths_finds_paths [OF sc_trace_lists])
    (simp_all add: sc_trace_def sample_simps)

section \<open>Requests\<close>

definition asks :: "scfence \<Rightarrow> bool" where
  "asks s \<longleftrightarrow> wants_restart (requests s) \<or> wants_exit (requests s)"

lemma routineBacktrack_asks: "routineBacktrack f s = Some (b, s') \<Longrightarrow> asks s'"
  by (auto simp: routineBacktrack_def asks_def restartModelChecker_def exitModelChecker_def
      split: bind_splits option.splits)

lemma routineAfterAddFixes_asks: "routineAfterAddFixes s = Some s' \<Longrightarrow> asks s'"
  by (auto simp: routineAfterAddFixes_def asks_def restartModelChecker_def
      split: bind_splits option.splits dest: routineBacktrack_asks [unfolded asks_def])

text \<open>
  C11: the plugin lets the model checker go on with the current inference only past executions
  that are sequentially consistent. If the analysis of an execution returns without asking for a
  restart or the exit, the execution's actions have a sequentially consistent order, whatever
  the current inference, the options and the state of the search are.
\<close>

theorem continues_only_past_sc:
  assumes "analyze_execution late e s = Some s'" and "\<not> asks s'"
    and "threadlists (scgen s) = [[]]" and "lastwrmap (scgen s) = Map.empty"
    and "causal e (action_trace e)"
  shows "\<exists>l. sc_order e (action_trace e) l"
proof -
  have late: "\<not> (timeout s > 0 \<and> late)"
    using assms(1,2) by (auto simp: analyze_execution_def dest: routineBacktrack_asks)
  obtain s1 l g where s1: "(if have_bug_reports e then set_cur (\<lambda>i. i\<lparr>buggy := True\<rparr>) s
        else Some s) = Some s1"
    and g: "getSCList e (action_trace e) (scgen s1) = Some (l, g)"
    using assms(1) late by (auto simp: analyze_execution_def Let_def bind_eq_Some_conv split del: if_split)
  have same: "scgen s1 = scgen s"
    using s1 by (auto simp: set_cur_def update_infer_def put_infer_def split: if_splits bind_splits)
  have "\<not> getCyclic g"
    using assms(1,2) late s1 g
    by (auto simp: analyze_execution_def Let_def bind_eq_Some_conv
        dest: routineBacktrack_asks routineAfterAddFixes_asks split: if_splits)
  then have "sc_order e (action_trace e) l"
    using sc_list_is_sequentially_consistent [OF g] same assms(3-5) by simp
  then show ?thesis ..
qed

lemma sc_trace_continues:
  "map_option asks (analyze_execution False sc_trace (SCFence_new zero_memory)) = Some False"
proof -
  obtain g where g: "getSCList sc_trace [1, 2, 3] (SCGenerator_new zero_memory) = Some ([1, 3, 2], g)"
    and nc: "\<not> getCyclic g"
    using sc_trace_list by auto
  have tr: "action_trace sc_trace = [1, 2, 3]" "\<not> have_bug_reports sc_trace"
    by (simp_all add: sc_trace_def sample_simps have_bug_reports_def)
  have c: "\<exists>c. is_complete_execution sc_trace = Some c" by code_simp
  have race: "checkDataRace sc_trace [1, 3, 2] = None"
    by (simp add: checkDataRace_def sc_trace_def sample_simps)
  show ?thesis
    using c g nc race
    by (auto simp: analyze_execution_def SCFence_new_def tr Let_def addFixes_def cur_infer_def
        addFixesDataRace_def Inference_new_def asks_def)
qed

theorem continues_only_past_sc_witness: "\<exists>l. sc_order sc_trace [1, 2, 3] l"
proof -
  obtain s' where s': "analyze_execution False sc_trace (SCFence_new zero_memory) = Some s'" "\<not> asks s'"
    using sc_trace_continues by auto
  have tr: "action_trace sc_trace = [1, 2, 3]" by (simp add: sc_trace_def)
  have gen: "scgen (SCFence_new zero_memory) = SCGenerator_new zero_memory"
    by (simp add: SCFence_new_def)
  show ?thesis
    using continues_only_past_sc [OF s'] fresh_generator sc_trace_causal unfolding tr gen by blast
qed

end
