(* ===== verification/SCAnalysis.thy ===== *)
theory SCAnalysis
  imports ModelChecker SCGen
begin

text \<open>
  \<open>scanalysis.cc\<close>, \<open>scanalysis.h\<close>: the plugin \<open>SCAnalysis\<close>, which counts how many executions are
  sequentially consistent. The fast version adds edges as they come: a work list
  (\<open>updateSet\<close>) of actions whose clock vectors changed, the edges of program order, reads-from
  and threads (\<open>nodeMap\<close>), and for every location the writes of every thread (\<open>writeMap\<close>), searched
  by bisection. If it finds a cycle, the slow version starts afresh and prefers edges the memory
  order demands. The members shared with the generator of \<open>SCGen\<close> are in \<open>sc_base\<close>.

  Reading the last element of an empty list is undefined in C++; \<open>back0\<close> is what the list class
  gives. A null pointer that is followed, an index out of range, a failed \<open>ASSERT\<close>, a division by
  zero and an action of an earlier execution (\<open>None\<close> in \<open>updateSet\<close>) are \<open>None\<close>. Messages and the
  clock of the host are left out.
\<close>

section \<open>State\<close>

record sc_statistics =
  st_sccount :: "32 word"
  st_nonsccount :: "32 word"
  st_actions :: uint64
  st_reads :: uint64
  st_writes :: uint64
  processedReads :: uint64
  writeListsLength :: uint64
  writeListsMaxLength :: uint64
  processedWrites :: uint64
  pushCount :: uint64
  mergeCount :: uint64

record action_node =
  sb :: "aid option"
  specialEdge :: "aid option"

definition action_node_new :: action_node where
  "action_node_new = \<lparr>sb = None, specialEdge = None\<rparr>"

record sc_analysis = sc_base +
  cvChanged :: bool
  nodeMap :: "aid \<rightharpoonup> action_node"
  writeMap :: "uint64 \<rightharpoonup> aid list option list"
  updateSet :: "aid option list"
  updateSetSize :: "32 word"
  time :: bool
  stats :: sc_statistics

text \<open>The constructor; \<open>maxthreads\<close> and \<open>cvChanged\<close> keep what the memory held.\<close>

definition SCAnalysis_new :: "nat \<Rightarrow> bool \<Rightarrow> sc_analysis" where
  "SCAnalysis_new junk_maxthreads junk_changed =
     \<lparr>cvmap = Map.empty, cyclic = False, fastVersion = True, allowNonSC = False,
      maxthreads = junk_maxthreads, threadlists = [[]], badrfset = Map.empty, lastwrmap = Map.empty,
      print_always = False, print_buggy = True, print_nonsc = False, cvChanged = junk_changed,
      nodeMap = Map.empty, writeMap = Map.empty, updateSet = [], updateSetSize = 0, time = False,
      stats = \<lparr>st_sccount = 0, st_nonsccount = 0, st_actions = 0, st_reads = 0, st_writes = 0,
        processedReads = 0, writeListsLength = 0, writeListsMaxLength = 0, processedWrites = 0,
        pushCount = 0, mergeCount = 0\<rparr>\<rparr>"

definition bump :: "(sc_statistics \<Rightarrow> sc_statistics) \<Rightarrow> sc_analysis \<Rightarrow> sc_analysis" where
  "bump f s = s\<lparr>stats := f (stats s)\<rparr>"

text \<open>\<open>option\<close>: whether the analysis must not be run; every option not known prints the help.\<close>

definition sca_option :: "string \<Rightarrow> sc_analysis \<Rightarrow> bool \<times> sc_analysis" where
  "sca_option opt s =
     (if opt = ''verbose'' then (False, s\<lparr>print_always := True\<rparr>)
      else if opt = ''buggy'' then (False, s)
      else if opt = ''quiet'' then (False, s\<lparr>print_buggy := False\<rparr>)
      else if opt = ''nonsc'' then (False, s\<lparr>print_nonsc := True\<rparr>)
      else if opt = ''time'' then (False, s\<lparr>time := True\<rparr>)
      else (True, s))"

section \<open>Edges\<close>

definition sca_merge :: "exec \<Rightarrow> aid \<Rightarrow> aid \<Rightarrow> sc_analysis \<Rightarrow> (bool \<times> sc_analysis) option" where
  "sca_merge e act act2 s0 =
     (let s = bump (\<lambda>c. c\<lparr>mergeCount := mergeCount c + 1\<rparr>) s0 in
      case cvmap s act2 of
        None \<Rightarrow> Some (True, s)
      | Some cv2 \<Rightarrow>
          if getClock cv2 (tid (A e act)) \<ge> seq_number (A e act) \<and> seq_number (A e act) \<noteq> 0
          then Some (False, s\<lparr>cyclic := True\<rparr>)
          else if fastVersion s then merge_into act cv2 s
          else if allowNonSC s then do {
            (merged, s1) \<leftarrow> merge_into act cv2 s;
            Some (merged, if merged then s1\<lparr>allowNonSC := False, cvChanged := True\<rparr> else s1)
          }
          else if happens e act2 act
              \<or> (is_seqcst (A e act) \<and> is_seqcst (A e act2) \<and> earlier e act2 act)
          then merge_into act cv2 s
          else Some (False, s))"

definition pushChange :: "aid \<Rightarrow> sc_analysis \<Rightarrow> sc_analysis" where
  "pushChange act s = (bump (\<lambda>c. c\<lparr>pushCount := pushCount c + 1\<rparr>) s)
     \<lparr>updateSet := updateSet s @ [Some act], updateSetSize := updateSetSize s + 1\<rparr>"

text \<open>The front of the work list, taken off.\<close>

definition popUpdateSet :: "sc_analysis \<Rightarrow> (aid \<times> sc_analysis) option" where
  "popUpdateSet s = (case updateSet s of
       Some act # rest \<Rightarrow> Some (act, s\<lparr>updateSet := rest, updateSetSize := updateSetSize s - 1\<rparr>)
     | _ \<Rightarrow> None)"

definition pass_to :: "exec \<Rightarrow> aid \<Rightarrow> aid option \<Rightarrow> sc_analysis \<Rightarrow> sc_analysis option" where
  "pass_to e act nextAct s = (case nextAct of
       None \<Rightarrow> Some s
     | Some n \<Rightarrow> do {
         (merged, s) \<leftarrow> sca_merge e n act s;
         Some (if merged then pushChange n s else s)
       })"

definition passChange :: "exec \<Rightarrow> aid \<Rightarrow> sc_analysis \<Rightarrow> sc_analysis option" where
  "passChange e act s = (case nodeMap s act of
       None \<Rightarrow> Some s
     | Some node \<Rightarrow> do {
         s \<leftarrow> pass_to e act (sb node) s;
         pass_to e act (specialEdge node) s
       })"

text \<open>The idiom of the fast version: an edge, and when it changed something, \<open>passChange(from)\<close>.\<close>

definition merge_pass ::
  "exec \<Rightarrow> aid \<Rightarrow> aid \<Rightarrow> aid \<Rightarrow> bool \<times> sc_analysis \<Rightarrow> (bool \<times> sc_analysis) option" where
  "merge_pass e act act2 from = (\<lambda>(changed, s). do {
     (status, s) \<leftarrow> sca_merge e act act2 s;
     s \<leftarrow> (if status then passChange e from s else Some s);
     Some (changed \<or> status, s)
   })"

section \<open>Building the lists\<close>

text \<open>A clock vector of its own for an action that has none.\<close>

definition own_cv :: "exec \<Rightarrow> aid \<Rightarrow> sc_analysis \<Rightarrow> sc_analysis" where
  "own_cv e act s =
     (if cvmap s act = None
      then s\<lparr>cvmap := (cvmap s)(act \<mapsto> cv_new None (tid (A e act)) (seq_number (A e act)))\<rparr>
      else s)"

text \<open>The list of the writes of a thread to a location; the vector is indexed unchecked.\<close>

definition add_write :: "exec \<Rightarrow> aid \<Rightarrow> sc_analysis \<Rightarrow> sc_analysis option" where
  "add_write e act s =
     (let threadid = tid (A e act);
          loc = location (A e act);
          found = (case writeMap s loc of None \<Rightarrow> [] | Some ls \<Rightarrow> ls);
          writeLists = (if length found < threadid then vec_resize found (threadid + 1) None else found)
      in if threadid < length writeLists
         then (let writeList = (case writeLists ! threadid of None \<Rightarrow> [] | Some l \<Rightarrow> l);
                   put = (\<lambda>l s. s\<lparr>writeMap := (writeMap s)(loc \<mapsto> writeLists[threadid := Some l])\<rparr>)
               in Some (if is_write (A e act)
                        then bump (\<lambda>c. c\<lparr>st_writes := st_writes c + 1\<rparr>) (put (writeList @ [act]) s)
                        else put writeList s))
         else None)"

definition set_node :: "aid \<Rightarrow> (action_node \<Rightarrow> action_node) \<Rightarrow> sc_analysis \<Rightarrow> sc_analysis" where
  "set_node act f s = s\<lparr>nodeMap := (nodeMap s)(act \<mapsto>
     f (case nodeMap s act of None \<Rightarrow> action_node_new | Some n \<Rightarrow> n))\<rparr>"

definition last_of_thread :: "aid option \<Rightarrow> aid list list \<Rightarrow> nat \<Rightarrow> aid option" where
  "last_of_thread back0 ls t = (if t < length ls \<and> ls ! t \<noteq> [] then Some (last (ls ! t)) else back0)"

definition add_sb :: "aid option \<Rightarrow> exec \<Rightarrow> aid \<Rightarrow> sc_analysis \<Rightarrow> sc_analysis" where
  "add_sb back0 e act s = (case last_of_thread back0 (threadlists s) (tid (A e act)) of
       None \<Rightarrow> s
     | Some lastAct \<Rightarrow> set_node lastAct (\<lambda>n. n\<lparr>sb := Some act\<rparr>) s)"

definition add_rf :: "exec \<Rightarrow> aid \<Rightarrow> sc_analysis \<Rightarrow> sc_analysis option" where
  "add_rf e act s0 =
     (if \<not> is_read (A e act) then Some s0
      else do {
        let s = bump (\<lambda>c. c\<lparr>st_reads := st_reads c + 1\<rparr>) s0;
        write \<leftarrow> reads_from (A e act);
        if seq_number (A e write) = 0 then Some s
        else do {
          (_, s) \<leftarrow> sca_merge e act write (own_cv e write s);
          Some (set_node write (\<lambda>n. n\<lparr>specialEdge := Some act\<rparr>) (pushChange act s))
        }
      })"

definition special_edge :: "aid \<Rightarrow> aid \<Rightarrow> sc_analysis \<Rightarrow> sc_analysis" where
  "special_edge from act s = pushChange from (set_node from (\<lambda>n. n\<lparr>specialEdge := Some act\<rparr>) s)"

definition add_start :: "exec \<Rightarrow> aid \<Rightarrow> sc_analysis \<Rightarrow> sc_analysis option" where
  "add_start e act s =
     (if \<not> is_thread_start (A e act) then Some s
      else do {
        th \<leftarrow> get_thread_of e act;
        Some (case th_creation th of None \<Rightarrow> s | Some create \<Rightarrow> special_edge create act s)
      })"

definition add_join :: "exec \<Rightarrow> aid \<Rightarrow> sc_analysis \<Rightarrow> sc_analysis option" where
  "add_join e act s =
     (if \<not> is_thread_join (A e act) then Some s
      else do {
        joinedthr \<leftarrow> get_thread_operand (thrd_priv e) (thread_at e) (A e act);
        finish \<leftarrow> get_last_action e joinedthr;
        Some (special_edge finish act s)
      })"

text \<open>The action goes onto its thread's list; only \<open>add_sb\<close> reads the lists before.\<close>

definition add_to_thread :: "exec \<Rightarrow> aid \<Rightarrow> sc_analysis \<Rightarrow> sc_analysis option" where
  "add_to_thread e act s = do {
     (m, ls) \<leftarrow> build_step e act (maxthreads s, threadlists s);
     Some (s\<lparr>maxthreads := m, threadlists := ls\<rparr>)
   }"

definition build_fast :: "aid option \<Rightarrow> exec \<Rightarrow> aid \<Rightarrow> sc_analysis \<Rightarrow> sc_analysis option" where
  "build_fast back0 e act s = do {
     s \<leftarrow> add_write e act (own_cv e act s);
     s \<leftarrow> add_rf e act (add_sb back0 e act s);
     s \<leftarrow> add_start e act s;
     s \<leftarrow> add_join e act s;
     add_to_thread e act s
   }"

definition buildVectorsFast ::
  "aid option \<Rightarrow> exec \<Rightarrow> aid list \<Rightarrow> sc_analysis \<Rightarrow> sc_analysis option" where
  "buildVectorsFast back0 e l s = fold_opt (build_fast back0 e) l (s\<lparr>maxthreads := 0\<rparr>)"

definition build_slow :: "exec \<Rightarrow> aid \<Rightarrow> sc_analysis \<Rightarrow> sc_analysis option" where
  "build_slow e act s = add_to_thread e act (own_cv e act s)"

definition buildVectorsSlow :: "exec \<Rightarrow> aid list \<Rightarrow> sc_analysis \<Rightarrow> sc_analysis option" where
  "buildVectorsSlow e l s = fold_opt (build_slow e) l (s\<lparr>maxthreads := 0\<rparr>)"

text \<open>The number of actions the code also returns is the length of the list.\<close>

definition sca_buildVectors ::
  "aid option \<Rightarrow> exec \<Rightarrow> aid list \<Rightarrow> sc_analysis \<Rightarrow> sc_analysis option" where
  "sca_buildVectors back0 e l s =
     (if fastVersion s then buildVectorsFast back0 e l s else buildVectorsSlow e l s)"

text \<open>\<open>updateSetSize\<close> is not reset, and \<open>nodeMap\<close> and \<open>writeMap\<close> are kept.\<close>

definition sca_reset :: "aid list \<Rightarrow> sc_analysis \<Rightarrow> sc_analysis" where
  "sca_reset l s = (sc_reset l s)\<lparr>updateSet := []\<rparr>"

section \<open>Reads, the fast version\<close>

text \<open>
  The bisections over the writes of a thread, each with the number of elements it looked at in
  the loop. They leave one or two candidates.
\<close>

function search_last :: "(aid \<Rightarrow> bool) \<Rightarrow> aid list \<Rightarrow> nat \<Rightarrow> nat \<Rightarrow> nat \<Rightarrow> nat \<times> nat \<times> nat" where
  "search_last P l low high n =
     (if low + 1 < high
      then let mid = (low + high) div 2
           in if P (l ! mid) then search_last P l mid high (n + 1)
              else search_last P l low (mid - 1) (n + 1)
      else (low, high, n))"
  by pat_completeness auto
termination by (relation "measure (\<lambda>(P, l, low, high, n). high - low)") auto

function search_first :: "(aid \<Rightarrow> bool) \<Rightarrow> aid list \<Rightarrow> nat \<Rightarrow> nat \<Rightarrow> nat \<Rightarrow> nat \<times> nat \<times> nat" where
  "search_first P l low high n =
     (if low + 1 < high
      then let mid = (low + high) div 2
           in if P (l ! mid) then search_first P l low mid (n + 1)
              else search_first P l (mid + 1) high (n + 1)
      else (low, high, n))"
  by pat_completeness auto
termination by (relation "measure (\<lambda>(P, l, low, high, n). high - low)") auto

declare search_last.simps [simp del] search_first.simps [simp del]

text \<open>The position found, and the number of writes looked at.\<close>

definition find_latest :: "(aid \<Rightarrow> bool) \<Rightarrow> aid list \<Rightarrow> nat option \<times> nat" where
  "find_latest P l =
     (let (low, high, n) = search_last P l 0 (length l - 1) 0
      in if P (l ! high) then (Some high, n + 1)
         else if low \<noteq> high then (if P (l ! low) then Some low else None, n + 2)
         else (None, n + 1))"

definition find_earliest :: "(aid \<Rightarrow> bool) \<Rightarrow> aid list \<Rightarrow> nat \<Rightarrow> nat option \<times> nat" where
  "find_earliest P l start =
     (let (low, high, n) = search_first P l start (length l - 1) 0
      in if P (l ! low) then (Some low, n + 1)
         else if high \<noteq> low then (if P (l ! high) then Some high else None, n + 2)
         else (None, n + 1))"

definition count_writes :: "nat \<Rightarrow> sc_analysis \<Rightarrow> sc_analysis" where
  "count_writes n = bump (\<lambda>c. c\<lparr>processedWrites := processedWrites c + of_nat n\<rparr>)"

text \<open>Is the write ordered before the action whose clock vector is \<open>c\<close>?\<close>

definition write_before :: "exec \<Rightarrow> sc_analysis \<Rightarrow> clock_vector \<Rightarrow> aid \<Rightarrow> bool" where
  "write_before e s c write2 \<longleftrightarrow> cvmap s write2 \<noteq> None \<and> cv_since e c write2"

definition write_after :: "exec \<Rightarrow> sc_analysis \<Rightarrow> aid \<Rightarrow> aid \<Rightarrow> bool" where
  "write_after e s write write2 \<longleftrightarrow>
     (case cvmap s write2 of None \<Rightarrow> False | Some write2cv \<Rightarrow> cv_since e write2cv write)"

text \<open>The last write of the thread ordered before the read goes before the one it reads from.\<close>

definition latest_before ::
  "exec \<Rightarrow> aid \<Rightarrow> aid \<Rightarrow> aid list \<Rightarrow> bool \<times> sc_analysis
     \<Rightarrow> (nat option \<times> bool \<times> sc_analysis) option" where
  "latest_before e read write writeList = (\<lambda>(changed, s). do {
     c \<leftarrow> cvmap s read;
     let (earliestPos, n) = find_latest (write_before e s c) writeList;
     let s = count_writes n s;
     case earliestPos of
       None \<Rightarrow> Some (None, changed, s)
     | Some pos \<Rightarrow> map_option (Pair (Some pos))
                     (merge_pass e write (writeList ! pos) write (changed, s))
   })"

text \<open>The first write behind it that is ordered after the one read from goes after the read.\<close>

definition earliest_after ::
  "exec \<Rightarrow> aid \<Rightarrow> aid \<Rightarrow> aid list \<Rightarrow> nat option \<Rightarrow> bool \<times> sc_analysis
     \<Rightarrow> (bool \<times> sc_analysis) option" where
  "earliest_after e read write writeList earliestPos = (\<lambda>(changed, s).
     let behind = (case earliestPos of None \<Rightarrow> 0 | Some pos \<Rightarrow> pos + 1);
         low = (if behind = length writeList then 0 else behind);
         (found, n) = find_earliest (write_after e s write) writeList low;
         s = count_writes n s
     in case found of
          None \<Rightarrow> Some (changed, s)
        | Some pos \<Rightarrow> merge_pass e (writeList ! pos) read (writeList ! pos) (changed, s))"

text \<open>For the thread of the write itself, the write behind it. The change is passed on from
  \<open>write\<close>, not from the action whose clock vector changed.\<close>

definition next_of_write ::
  "exec \<Rightarrow> aid \<Rightarrow> aid \<Rightarrow> aid list \<Rightarrow> bool \<times> sc_analysis \<Rightarrow> (bool \<times> sc_analysis) option" where
  "next_of_write e read write writeList = (\<lambda>(changed, s).
     case find (\<lambda>i. writeList ! i = write) (rev [0 ..< length writeList - 1]) of
       None \<Rightarrow> Some (changed, s)
     | Some i \<Rightarrow>
         if cvmap s (writeList ! (i + 1)) = None then Some (changed, s)
         else merge_pass e (writeList ! (i + 1)) read write (changed, s))"

definition writes_of_thread ::
  "exec \<Rightarrow> aid \<Rightarrow> aid \<Rightarrow> nat \<Rightarrow> aid list \<Rightarrow> bool \<times> sc_analysis \<Rightarrow> (bool \<times> sc_analysis) option" where
  "writes_of_thread e read write i writeList = (\<lambda>(changed, s0).
     let n = of_nat (length writeList);
         s = bump (\<lambda>c. c\<lparr>writeListsLength := writeListsLength c + n,
               writeListsMaxLength := (if writeListsMaxLength c < n then n else writeListsMaxLength c)\<rparr>) s0
     in if i = tid (A e write) then next_of_write e read write writeList (changed, s)
        else do {
          (earliestPos, changed, s) \<leftarrow> latest_before e read write writeList (changed, s);
          earliest_after e read write writeList earliestPos (changed, s)
        })"

text \<open>The loop over the threads, which stops at the end of the location's lists.\<close>

fun read_threads ::
  "exec \<Rightarrow> aid \<Rightarrow> aid \<Rightarrow> nat list \<Rightarrow> bool \<times> sc_analysis \<Rightarrow> (bool \<times> sc_analysis) option" where
  "read_threads e read write [] st = Some st"
| "read_threads e read write (i # is) st =
     (if i = tid (A e read) then read_threads e read write is st
      else do {
        writeLists \<leftarrow> writeMap (snd st) (location (A e read));
        if length writeLists = i then Some st
        else if i < length writeLists then do {
          st \<leftarrow> (case writeLists ! i of
                   Some (w # ws) \<Rightarrow> writes_of_thread e read write i (w # ws) st
                 | _ \<Rightarrow> Some st);
          read_threads e read write is st
        } else None
      })"

definition sca_processReadFast :: "exec \<Rightarrow> aid \<Rightarrow> sc_analysis \<Rightarrow> (bool \<times> sc_analysis) option" where
  "sca_processReadFast e read s0 = do {
     write \<leftarrow> reads_from (A e read);
     let s = bump (\<lambda>c. c\<lparr>processedReads := processedReads c + 1\<rparr>) s0;
     read_threads e read write [0 ..< maxthreads s + 1] (False, s)
   }"

partial_function (option) computeCVFast :: "exec \<Rightarrow> sc_analysis \<Rightarrow> sc_analysis option" where
  "computeCVFast e s =
     (if updateSetSize s = 0 then Some s
      else do {
        (act, s) \<leftarrow> popUpdateSet s;
        s \<leftarrow> passChange e act s;
        s \<leftarrow> (if is_read (A e act) then map_option snd (sca_processReadFast e act s) else Some s);
        computeCVFast e s
      })"

section \<open>Reads, the slow version\<close>

fun sca_slow_writes ::
  "exec \<Rightarrow> aid \<Rightarrow> aid \<Rightarrow> aid list \<Rightarrow> bool \<times> bool \<times> sc_analysis
     \<Rightarrow> (bool \<times> bool \<times> sc_analysis) option" where
  "sca_slow_writes e read write [] (changed, updateFuture, s) = Some (changed, updateFuture, s)"
| "sca_slow_writes e read write (write2 # rest) (changed, updateFuture, s) =
     (if \<not> is_write (A e write2) \<or> write2 = write
      then sca_slow_writes e read write rest (changed, updateFuture, s)
      else case cvmap s write2 of
        None \<Rightarrow> sca_slow_writes e read write rest (changed, updateFuture, s)
      | Some write2cv \<Rightarrow> do {
          (c1, u1, s1) \<leftarrow>
            (if cv_since e write2cv write \<and> (earlier e read write2 \<or> \<not> updateFuture)
             then do {
               (status, s1) \<leftarrow> sca_merge e write2 read s;
               Some (changed \<or> status, updateFuture \<or> (status \<and> earlier e write2 read), s1)
             } else Some (changed, updateFuture, s));
          c \<leftarrow> cvmap s1 read;
          if cv_since e c write2 then
            (if earlier e write2 write \<or> \<not> u1
             then do {
               (status, s2) \<leftarrow> (if cvmap s1 write = None then Some (True, s1)
                               else sca_merge e write write2 s1);
               Some (c1 \<or> status, u1 \<or> (status \<and> earlier e write write2), s2)
             } else Some (c1, u1, s1))
          else sca_slow_writes e read write rest (c1, u1, s1)
        })"

definition sca_processReadSlow ::
  "exec \<Rightarrow> aid \<Rightarrow> bool \<Rightarrow> sc_analysis \<Rightarrow> (bool \<times> bool \<times> sc_analysis) option" where
  "sca_processReadSlow e read updateFuture s = do {
     write \<leftarrow> reads_from (A e read);
     (changed, updateFuture, s) \<leftarrow>
       (if earlier e write read \<or> \<not> updateFuture
        then do {
          (m, s) \<leftarrow> sca_merge e read write s;
          let status = (m \<and> earlier e read write);
          Some (status, status, s)
        } else Some (False, updateFuture, s));
     fold_opt (\<lambda>i (changed, updateFuture, s).
         if i = tid (A e read) then Some (changed, updateFuture, s)
         else case get_actions_on_obj e (location (A e read)) i of
           None \<Rightarrow> Some (changed, updateFuture, s)
         | Some l \<Rightarrow> sca_slow_writes e read write (rev l) (changed, updateFuture, s))
       [0 ..< maxthreads s + 1] (changed, updateFuture, s)
   }"

end
