(* ===== verification/SCAnalysisRun.thy ===== *)
theory SCAnalysisRun
  imports SCAnalysis
begin

text \<open>
  The rest of \<open>scanalysis.cc\<close>: the slow computation of clock vectors, the choice of the next
  action, the generation of the order, the verdict, and the plugin as the model checker sees it.
\<close>

section \<open>Clock vectors\<close>

type_synonym slow_state = "(aid option list \<times> bool \<times> bool \<times> sc_analysis)"

definition sca_join :: "exec \<Rightarrow> aid \<Rightarrow> bool \<Rightarrow> sc_analysis \<Rightarrow> (bool \<times> sc_analysis) option" where
  "sca_join e act changed s =
     (if is_thread_join (A e act) then do {
        joinedthr \<leftarrow> get_thread_operand (thrd_priv e) (thread_at e) (A e act);
        finish \<leftarrow> get_last_action e joinedthr;
        (c, s) \<leftarrow> sca_merge e act finish s;
        Some (changed \<or> c, s)
      } else Some (changed, s))"

definition sca_program_order :: "exec \<Rightarrow> aid \<Rightarrow> aid option \<Rightarrow> sc_analysis \<Rightarrow> sc_analysis option" where
  "sca_program_order e act lastact s =
     (case lastact of None \<Rightarrow> Some s | Some l \<Rightarrow> map_option snd (sca_merge e act l s))"

definition sca_read ::
  "exec \<Rightarrow> aid \<Rightarrow> bool \<times> bool \<times> sc_analysis \<Rightarrow> (bool \<times> bool \<times> sc_analysis) option" where
  "sca_read e act = (\<lambda>(changed, updateFuture, s).
     if is_read (A e act) then do {
       (c, u, s) \<leftarrow> sca_processReadSlow e act updateFuture s;
       Some (changed \<or> c, u, s)
     } else Some (changed, updateFuture, s))"

definition slow_act :: "exec \<Rightarrow> aid \<Rightarrow> slow_state \<Rightarrow> slow_state option" where
  "slow_act e act = (\<lambda>(last_act, changed, updateFuture, s).
     let t = tid (A e act)
     in if t < length last_act then do {
       lastact \<leftarrow> (if is_thread_start (A e act)
                   then do { th \<leftarrow> get_thread_of e act; Some (th_creation th) }
                   else Some (last_act ! t));
       s \<leftarrow> sca_program_order e act lastact (ensure_cv e act s);
       (changed, s) \<leftarrow> sca_join e act changed s;
       (changed, updateFuture, s) \<leftarrow> sca_read e act (changed, updateFuture, s);
       Some (last_act[t := Some act], changed, updateFuture, s)
     } else None)"

text \<open>\<open>last_act\<close> is cleared only after a pass that changed something.\<close>

partial_function (option) computeCVSlow_loop ::
  "exec \<Rightarrow> aid list \<Rightarrow> bool \<Rightarrow> aid option list \<Rightarrow> sc_analysis \<Rightarrow> sc_analysis option" where
  "computeCVSlow_loop e l firsttime last_act s = do {
     (last_act, changed, updateFuture, s) \<leftarrow> fold_opt (slow_act e) l (last_act, firsttime, False, s);
     if changed then computeCVSlow_loop e l False (replicate (length last_act) None) s
     else if \<not> allowNonSC s then computeCVSlow_loop e l False last_act (s\<lparr>allowNonSC := True\<rparr>)
     else Some s
   }"

definition computeCVSlow :: "exec \<Rightarrow> aid list \<Rightarrow> sc_analysis \<Rightarrow> sc_analysis option" where
  "computeCVSlow e l s = computeCVSlow_loop e l True (replicate (maxthreads s + 1) None) s"

definition sca_computeCV :: "exec \<Rightarrow> aid list \<Rightarrow> sc_analysis \<Rightarrow> sc_analysis option" where
  "sca_computeCV e l s = (if fastVersion s then computeCVFast e s else computeCVSlow e l s)"

text \<open>An action that was taken goes before the next conflicting write of every other thread.\<close>

fun sca_constrain ::
  "exec \<Rightarrow> aid \<Rightarrow> aid list \<Rightarrow> bool \<times> sc_analysis \<Rightarrow> (bool \<times> sc_analysis) option" where
  "sca_constrain e act [] (changed, s) = Some (changed, s)"
| "sca_constrain e act (write # rest) (changed, s) =
     (if \<not> is_write (A e write) then sca_constrain e act rest (changed, s)
      else do {
        writecv \<leftarrow> cvmap s write;
        if cv_since e writecv act then Some (changed, s)
        else if location (A e write) = location (A e act)
        then map_option (\<lambda>(_, s). (True, s)) (merge_pass e write act write (changed, s))
        else sca_constrain e act rest (changed, s)
      })"

definition sca_updateConstraints :: "exec \<Rightarrow> aid \<Rightarrow> sc_analysis \<Rightarrow> (bool \<times> sc_analysis) option" where
  "sca_updateConstraints e act s =
     fold_opt (\<lambda>i (changed, s).
         if i = tid (A e act) then Some (changed, s)
         else if i < length (threadlists s)
         then sca_constrain e act (threadlists s ! i) (changed, s)
         else None) [0 ..< maxthreads s + 1] (False, s)"

section \<open>The order\<close>

definition sca_getNextActions :: "exec \<Rightarrow> sc_analysis \<Rightarrow> aid list option" where
  "sca_getNextActions e s = do {
     array \<leftarrow> ready_fronts e (cvmap s) [0 ..< maxthreads s + 1] s;
     if array \<noteq> [] then Some array
     else do {
       array \<leftarrow> ready_fronts e (\<lambda>a. cv (A e a)) [0 ..< maxthreads s + 1] s;
       if array = [] \<or> cyclic s then Some array else None
     }
   }"

definition sca_pruneArray :: "exec \<Rightarrow> aid list \<Rightarrow> sc_analysis \<Rightarrow> aid option option" where
  "sca_pruneArray e array s =
     (if length array = 1 then Some (Some (hd array))
      else case earliest e (filter (\<lambda>a. \<not> is_write (A e a)) array) None of
        Some nonwrite \<Rightarrow> Some (Some nonwrite)
      | None \<Rightarrow> do {
          free \<leftarrow> filter_opt (non_conflicting e s) array;
          Some (earliest e free None)
        })"

text \<open>Going back to the last choice. The fast version puts every write into \<open>writeMap\<close> again.\<close>

definition sca_rollback ::
  "aid option \<Rightarrow> exec \<Rightarrow> aid list \<Rightarrow> sc_analysis \<Rightarrow> sc_analysis option" where
  "sca_rollback back0 e l s = do {
     s1 \<leftarrow> sca_buildVectors back0 e l (sca_reset l s);
     sca_computeCV e l s1
   }"

partial_function (option) sca_loop ::
  "aid option \<Rightarrow> exec \<Rightarrow> aid list \<Rightarrow> nat \<Rightarrow> choice_state \<Rightarrow> aid list \<Rightarrow> sc_analysis
     \<Rightarrow> (aid list \<times> sc_analysis) option" where
  "sca_loop back0 e l endchoice cs sclist s = do {
     array \<leftarrow> sca_getNextActions e s;
     if array = [] then Some (sclist, s)
     else do {
       pruned \<leftarrow> sca_pruneArray e array s;
       (act, choices, currchoice, lastchoice) \<leftarrow> choose_action array pruned endchoice cs;
       (changed, s1) \<leftarrow> sca_updateConstraints e act (pop_front e act s);
       s2 \<leftarrow> (if changed then sca_computeCV e l s1 else Some s1);
       if changed \<and> \<not> cyclic s1 \<and> cyclic s2
       then (if lastchoice \<noteq> None
             then do {
               s3 \<leftarrow> sca_rollback back0 e l s2;
               sca_loop back0 e l (the lastchoice + 1)
                 (choices[the lastchoice := choices ! the lastchoice + 1], 0, None) [] s3
             }
             else Some (sclist, s2\<lparr>fastVersion := False\<rparr>))
       else sca_loop back0 e l endchoice (choices, currchoice, lastchoice) (sclist @ [act]) s2
     }
   }"

text \<open>A null list is the outer \<open>None\<close> of the result.\<close>

definition sca_generateSC ::
  "aid option \<Rightarrow> exec \<Rightarrow> aid list \<Rightarrow> sc_analysis \<Rightarrow> (aid list option \<times> sc_analysis) option" where
  "sca_generateSC back0 e l s = do {
     s \<leftarrow> sca_buildVectors back0 e l s;
     s \<leftarrow> sca_computeCV e l s;
     let s = (if fastVersion s
              then bump (\<lambda>c. c\<lparr>st_actions := st_actions c + of_nat (length l)\<rparr>) s else s);
     if fastVersion s \<and> cyclic s then Some (None, s)
     else do {
       (sclist, s) \<leftarrow> sca_loop back0 e l 0 (replicate (length l) 0, 0, None) [] s;
       Some (Some sclist, s)
     }
   }"

section \<open>The verdict\<close>

text \<open>One turn of the loop of \<open>check_rf\<close>, with the local flag \<open>hasBadRF\<close>.\<close>

definition sca_check_step :: "exec \<Rightarrow> aid \<Rightarrow> bool \<times> sc_analysis \<Rightarrow> bool \<times> sc_analysis" where
  "sca_check_step e act = (\<lambda>(hasBadRF, s).
     let last = lastwrmap s (location (A e act));
         bad = is_read (A e act) \<and> reads_from (A e act) \<noteq> last;
         s1 = (if bad then s\<lparr>badrfset := (badrfset s)(act \<mapsto> last)\<rparr> else s)
     in (hasBadRF \<or> bad,
         if is_write (A e act) then s1\<lparr>lastwrmap := (lastwrmap s1)(location (A e act) \<mapsto> act)\<rparr>
         else s1))"

definition sca_check_rf :: "exec \<Rightarrow> aid list \<Rightarrow> sc_analysis \<Rightarrow> sc_analysis option" where
  "sca_check_rf e l s =
     (let (hasBadRF, s1) = fold (sca_check_step e) l (False, s)
      in if hasBadRF \<noteq> cyclic s1 then None else Some s1)"

definition update_stats :: "sc_analysis \<Rightarrow> sc_analysis" where
  "update_stats s =
     (if cyclic s then bump (\<lambda>c. c\<lparr>st_nonsccount := st_nonsccount c + 1\<rparr>) s
      else bump (\<lambda>c. c\<lparr>st_sccount := st_sccount c + 1\<rparr>) s)"

text \<open>\<open>analyze\<close>, with the list it checks.\<close>

definition sca_analyze ::
  "aid option \<Rightarrow> exec \<Rightarrow> aid list \<Rightarrow> sc_analysis \<Rightarrow> (aid list \<times> sc_analysis) option" where
  "sca_analyze back0 e actions s = do {
     (l, s) \<leftarrow> sca_generateSC back0 e actions (s\<lparr>fastVersion := True\<rparr>);
     (l, s) \<leftarrow> (if cyclic s
                then sca_generateSC back0 e actions ((sca_reset actions s)\<lparr>fastVersion := False\<rparr>)
                else Some (l, s));
     l \<leftarrow> l;
     s \<leftarrow> sca_check_rf e l s;
     Some (l, update_stats s)
   }"

text \<open>\<open>finish\<close>: the averages it prints, one per counter. Both divisors may be zero.\<close>

definition sca_finish :: "sc_analysis \<Rightarrow> uint64 list option" where
  "sca_finish s =
     (let c = stats s;
          execCount = (ucast (st_sccount c + st_nonsccount c) :: uint64)
      in if execCount = 0 \<or> processedReads c = 0 then None
         else Some (map (\<lambda>n. n div execCount)
                      [st_actions c, st_reads c, st_writes c, pushCount c, mergeCount c, processedReads c]
                    @ map (\<lambda>n. n div processedReads c) [processedWrites c, writeListsLength c]))"

text \<open>
  The plugin as the model checker sees it. The object lives in memory that snapshots restore; the
  statistics and the elements of \<open>updateSet\<close> do not, and what is left in that list then points to
  actions of an execution that is gone.
\<close>

definition after_restore :: "sc_analysis \<Rightarrow> sc_analysis \<Rightarrow> sc_analysis" where
  "after_restore s0 s = s0\<lparr>stats := stats s, updateSet := map (\<lambda>_. None) (updateSet s)\<rparr>"

definition SCAnalysis_plugin :: "aid option \<Rightarrow> sc_analysis option trace_analysis" where
  "SCAnalysis_plugin back0 =
     \<lparr>analyze = (\<lambda>e ps.
         (do { s0 \<leftarrow> ps; (l, s) \<leftarrow> sca_analyze back0 e (action_trace e) s0; Some (after_restore s0 s) },
          \<lparr>wants_restart = False, wants_exit = False\<rparr>)),
      inspectModelAction = Pair,
      actionAtModelCheckingFinish = (\<lambda>ps. (ps, \<lparr>wants_restart = False, wants_exit = False\<rparr>)),
      finish_analysis = (\<lambda>ps. do { s \<leftarrow> ps; _ \<leftarrow> sca_finish s; Some s })\<rparr>"

end
