(* ===== verification/SCAnalysisProps.thy ===== *)
theory SCAnalysisProps
  imports SCAnalysisRun SCOrder
begin

text \<open>
  What \<open>SCAnalysis\<close> promises: an execution it counts as sequentially consistent has a sequentially
  consistent order, and the bisections of the fast version find the writes a scan of the list
  would find. Besides, the inputs on which it does not return.
\<close>

section \<open>What the edges leave alone\<close>

lemma kept_updates:
  "keeps_lists s (bump f s)" "keeps_lists s (pushChange a s)" "keeps_lists s (own_cv e a s)"
  "keeps_lists s (set_node a g s)" "keeps_lists s (add_sb b e a s)" "keeps_lists s (special_edge a a' s)"
  "keeps_lists s (count_writes n s)" "keeps_lists s (ensure_cv e a s)"
  by (auto simp: keeps_lists_def bump_def pushChange_def own_cv_def set_node_def add_sb_def
      special_edge_def count_writes_def ensure_cv_def split: option.splits)

lemma merge_into_kept: "merge_into a c s = Some (b, s') \<Longrightarrow> keeps_lists s s'"
  by (auto simp: merge_into_def keeps_lists_def split: bind_splits prod.splits)

lemma sca_merge_kept:
  assumes "sca_merge e a b s = Some (r, s')"
  shows "keeps_lists s s'"
proof -
  define s1 where "s1 = bump (\<lambda>c. c\<lparr>mergeCount := mergeCount c + 1\<rparr>) s"
  have 1: "keeps_lists s s1" by (simp add: s1_def kept_updates)
  have "keeps_lists s1 s'"
  proof (cases "cvmap s1 b")
    case None
    then show ?thesis using assms by (simp add: sca_merge_def s1_def [symmetric] kept.refl)
  next
    case (Some cv2)
    show ?thesis
    proof (cases "merge_into a cv2 s1")
      case None
      then show ?thesis using assms Some
        by (auto simp: sca_merge_def s1_def [symmetric] keeps_lists_def split: if_splits)
    next
      case p: (Some p)
      then have "keeps_lists s1 (snd p)" using merge_into_kept [of a cv2 s1 "fst p" "snd p"] by simp
      then show ?thesis using assms Some p
        by (cases p) (auto simp: sca_merge_def s1_def [symmetric] keeps_lists_def split: if_splits)
    qed
  qed
  with 1 show ?thesis by (rule kept.trans)
qed

lemma pass_to_kept: "pass_to e a n s = Some s' \<Longrightarrow> keeps_lists s s'"
  by (auto simp: pass_to_def kept.refl split: option.splits bind_splits if_splits
      dest!: sca_merge_kept intro: kept.trans [OF _ kept_updates(2)])

lemma passChange_kept: "passChange e a s = Some s' \<Longrightarrow> keeps_lists s s'"
  by (auto simp: passChange_def kept.refl split: option.splits bind_splits
      dest!: pass_to_kept intro: kept.trans)

lemma merge_pass_kept: "merge_pass e a b f (ch, s) = Some (ch', s') \<Longrightarrow> keeps_lists s s'"
  by (auto simp: merge_pass_def split: bind_splits if_splits
      dest!: sca_merge_kept passChange_kept intro: kept.trans)

lemma latest_before_kept: "latest_before e r w l (ch, s) = Some (p, ch', s') \<Longrightarrow> keeps_lists s s'"
  by (auto simp: latest_before_def Let_def kept_updates split: bind_splits prod.splits option.splits
      dest!: merge_pass_kept intro: kept.trans [OF kept_updates(7)])

lemma earliest_after_kept: "earliest_after e r w l p (ch, s) = Some (ch', s') \<Longrightarrow> keeps_lists s s'"
  by (auto simp: earliest_after_def Let_def kept_updates split: prod.splits option.splits
      dest!: merge_pass_kept intro: kept.trans [OF kept_updates(7)])

lemma next_of_write_kept: "next_of_write e r w l (ch, s) = Some (ch', s') \<Longrightarrow> keeps_lists s s'"
  by (auto simp: next_of_write_def kept.refl split: option.splits if_splits dest!: merge_pass_kept)

lemma writes_of_thread_kept:
  assumes "writes_of_thread e r w i l (ch, s) = Some (ch', s')"
  shows "keeps_lists s s'"
proof -
  obtain f where "(if i = tid (A e w) then next_of_write e r w l (ch, bump f s)
        else do {
          (earliestPos, changed, s) \<leftarrow> latest_before e r w l (ch, bump f s);
          earliest_after e r w l earliestPos (changed, s)
        }) = Some (ch', s')"
    using assms by (auto simp: writes_of_thread_def Let_def split del: if_split)
  then have "keeps_lists (bump f s) s'"
    by (auto split: if_splits bind_splits
        dest!: next_of_write_kept latest_before_kept earliest_after_kept intro: kept.trans)
  then show ?thesis by (rule kept.trans [OF kept_updates(1)])
qed

lemma read_threads_kept: "read_threads e r w is (ch, s) = Some (ch', s') \<Longrightarrow> keeps_lists s s'"
proof (induction "is" arbitrary: ch s)
  case Nil
  then show ?case by (simp add: kept.refl)
next
  case (Cons i xs)
  from Cons.prems show ?case
    by (auto simp: kept.refl split: if_splits bind_splits option.splits list.splits
        dest!: Cons.IH writes_of_thread_kept intro: kept.trans)
qed

lemma sca_processReadFast_kept: "sca_processReadFast e r s = Some (ch, s') \<Longrightarrow> keeps_lists s s'"
  by (auto simp: sca_processReadFast_def Let_def split: bind_splits dest!: read_threads_kept
      intro: kept.trans [OF kept_updates(1)])

lemma computeCVFast_kept:
  assumes "computeCVFast e s = Some s'"
  shows "keeps_lists s s'"
proof (rule computeCVFast.raw_induct [OF _ assms])
  fix rec e s s'
  assume IH: "\<And>e s s'. rec e s = Some s' \<Longrightarrow> keeps_lists s s'"
    and step: "(if updateSetSize s = 0 then Some s
      else Option.bind (popUpdateSet s) (\<lambda>(act, s).
        Option.bind (passChange e act s) (\<lambda>s.
        Option.bind (if is_read (A e act) then map_option snd (sca_processReadFast e act s) else Some s)
          (rec e)))) = Some s'"
  show "keeps_lists s s'"
  proof (cases "updateSetSize s = 0")
    case True
    then show ?thesis using step by (simp add: kept.refl)
  next
    case False
    then obtain act s1 s2 s3 where s1: "popUpdateSet s = Some (act, s1)"
      and s2: "passChange e act s1 = Some s2"
      and s3: "(if is_read (A e act) then map_option snd (sca_processReadFast e act s2) else Some s2)
        = Some s3" and r: "rec e s3 = Some s'"
      using step by (auto simp: bind_eq_Some_conv split del: if_split)
    have "keeps_lists s s1"
      using s1 by (auto simp: popUpdateSet_def keeps_lists_def split: list.splits option.splits)
    moreover have "keeps_lists s2 s3"
      using s3 by (auto simp: kept.refl split: if_splits dest: sca_processReadFast_kept)
    ultimately show ?thesis using passChange_kept [OF s2] IH [OF r] by (blast intro: kept.trans)
  qed
qed

lemma sca_slow_writes_kept:
  "sca_slow_writes e r w l (ch, u, s) = Some (ch', u', s') \<Longrightarrow> keeps_lists s s'"
proof (induction l arbitrary: ch u s)
  case Nil
  then show ?case by (simp add: kept.refl)
next
  case (Cons x l)
  show ?case
  proof (cases "(\<not> is_write (A e x) \<or> x = w) \<or> cvmap s x = None")
    case True
    then show ?thesis using Cons by (auto split: if_splits)
  next
    case False
    then obtain c where c: "cvmap s x = Some c" by auto
    let ?first = "(if cv_since e c w \<and> (earlier e r x \<or> \<not> u)
             then do {
               (status, s1) \<leftarrow> sca_merge e x r s;
               Some (ch \<or> status, u \<or> (status \<and> earlier e x r), s1)
             } else Some (ch, u, s))"
    obtain c1 u1 s1 where s1: "?first = Some (c1, u1, s1)"
      using Cons.prems False c by (cases ?first) auto
    have k1: "keeps_lists s s1"
      using s1 by (auto simp: kept.refl intro: sca_merge_kept split: if_splits bind_splits)
    have rest: "Option.bind (cvmap s1 r) (\<lambda>cr.
          if cv_since e cr x then
            (if earlier e x w \<or> \<not> u1
             then do {
               (status, s2) \<leftarrow> (if cvmap s1 w = None then Some (True, s1) else sca_merge e w x s1);
               Some (c1 \<or> status, u1 \<or> (status \<and> earlier e w x), s2)
             } else Some (c1, u1, s1))
          else sca_slow_writes e r w l (c1, u1, s1)) = Some (ch', u', s')"
      using Cons.prems False c s1 by simp
    then have "keeps_lists s1 s'"
      by (auto simp: kept.refl intro: sca_merge_kept Cons.IH split: bind_splits if_splits)
    with k1 show ?thesis by (rule kept.trans)
  qed
qed

lemma sca_processReadSlow_kept:
  assumes "sca_processReadSlow e r u s = Some (b, u', s')"
  shows "keeps_lists s s'"
proof -
  obtain w c u1 s1 where s1: "(if earlier e w r \<or> \<not> u
        then do {
          (m, s) \<leftarrow> sca_merge e r w s;
          let status = (m \<and> earlier e r w);
          Some (status, status, s)
        } else Some (False, u, s)) = Some (c, u1, s1)"
    and rest: "fold_opt (\<lambda>i (changed, updateFuture, s).
         if i = tid (A e r) then Some (changed, updateFuture, s)
         else case get_actions_on_obj e (location (A e r)) i of
           None \<Rightarrow> Some (changed, updateFuture, s)
         | Some l \<Rightarrow> sca_slow_writes e r w (rev l) (changed, updateFuture, s))
       [0 ..< maxthreads s1 + 1] (c, u1, s1) = Some (b, u', s')"
    using assms by (auto simp: sca_processReadSlow_def bind_eq_Some_conv split del: if_split)
  have "keeps_lists (snd (snd (c, u1, s1))) (snd (snd (b, u', s')))"
    by (rule kept.fold [OF rest])
      (auto intro: kept.refl sca_slow_writes_kept split: option.splits if_splits)
  moreover have "keeps_lists s s1"
    using s1 by (auto simp: Let_def kept.refl split: if_splits bind_splits dest: sca_merge_kept)
  ultimately show ?thesis using kept.trans by auto
qed

lemma slow_act_kept:
  assumes "slow_act e a (la, ch, u, s) = Some (la', ch', u', s')"
  shows "keeps_lists s s'"
proof -
  obtain l s1 ch2 s2 where s1: "sca_program_order e a l (ensure_cv e a s) = Some s1"
    and s2: "sca_join e a ch s1 = Some (ch2, s2)"
    and s3: "sca_read e a (ch2, u, s2) = Some (ch', u', s')"
    using assms by (auto simp: slow_act_def Let_def split: bind_splits if_splits)
  have "keeps_lists (ensure_cv e a s) s1"
    using s1 by (auto simp: sca_program_order_def split: option.splits intro: sca_merge_kept kept.refl)
  moreover have "keeps_lists s1 s2"
    using s2 by (auto simp: sca_join_def split: if_splits bind_splits
        intro: sca_merge_kept kept.refl)
  moreover have "keeps_lists s2 s'"
    using s3 by (auto simp: sca_read_def split: if_splits bind_splits
        intro: sca_processReadSlow_kept kept.refl)
  ultimately show ?thesis using kept_updates(8) kept.trans by metis
qed

lemma computeCVSlow_loop_kept:
  assumes "computeCVSlow_loop e l ft la s = Some s'"
  shows "keeps_lists s s'"
proof (rule computeCVSlow_loop.raw_induct [OF _ assms])
  fix rec e l ft la s s'
  assume IH: "\<And>e l ft la s s'. rec e l ft la s = Some s' \<Longrightarrow> keeps_lists s s'"
    and step: "Option.bind (fold_opt (slow_act e) l (la, ft, False, s))
      (\<lambda>(la1, ch, u, s1).
        if ch then rec e l False (replicate (length la1) None) s1
        else if \<not> allowNonSC s1 then rec e l False la1 (s1\<lparr>allowNonSC := True\<rparr>)
        else Some s1) = Some s'"
  obtain la1 ch u s1 where f: "fold_opt (slow_act e) l (la, ft, False, s) = Some (la1, ch, u, s1)"
    and rest: "(if ch then rec e l False (replicate (length la1) None) s1
       else if \<not> allowNonSC s1 then rec e l False la1 (s1\<lparr>allowNonSC := True\<rparr>)
       else Some s1) = Some s'"
    using step by (auto simp: bind_eq_Some_conv)
  have "keeps_lists (snd (snd (snd (la, ft, False, s)))) (snd (snd (snd (la1, ch, u, s1))))"
    by (rule kept.fold [OF f]) (auto intro: slow_act_kept)
  then have k: "keeps_lists s s1" by simp
  have fl: "keeps_lists s1 (s1\<lparr>allowNonSC := True\<rparr>)" by (simp add: keeps_lists_def)
  have "keeps_lists s1 s'"
    using rest by (auto simp: kept.refl intro: IH kept.trans [OF fl] split: if_splits)
  with k show "keeps_lists s s'" by (rule kept.trans)
qed

lemma sca_computeCV_kept: "sca_computeCV e l s = Some s' \<Longrightarrow> keeps_lists s s'"
  by (auto simp: sca_computeCV_def computeCVSlow_def split: if_splits
      intro: computeCVFast_kept computeCVSlow_loop_kept)

lemma sca_constrain_kept: "sca_constrain e a l (ch, s) = Some (ch', s') \<Longrightarrow> keeps_lists s s'"
proof (induction l arbitrary: ch s)
  case Nil
  then show ?case by (simp add: kept.refl)
next
  case (Cons x l)
  then show ?case
    by (auto split: if_splits bind_splits intro: merge_pass_kept kept.refl)
qed

lemma sca_updateConstraints_kept:
  assumes "sca_updateConstraints e a s = Some (ch, s')"
  shows "keeps_lists s s'"
proof -
  have "keeps_lists (snd (False, s)) (snd (ch, s'))"
    by (rule kept.fold [OF assms [unfolded sca_updateConstraints_def]])
      (auto split: if_splits intro: sca_constrain_kept kept.refl)
  then show ?thesis by simp
qed

section \<open>The lists of the threads\<close>

abbreviation thread_lists :: "sc_analysis \<Rightarrow> nat \<times> aid list list" where
  "thread_lists s \<equiv> (maxthreads s, threadlists s)"

lemma kept_thread_lists: "keeps_lists s s' \<Longrightarrow> thread_lists s' = thread_lists s"
  by (simp add: keeps_lists_def)

lemma add_to_thread_holds:
  assumes "add_to_thread e a s = Some s'" and "holds e xs (thread_lists s)"
  shows "holds e (xs @ [a]) (thread_lists s') \<and> same_memory s s'"
proof -
  obtain ml where "build_step e a (thread_lists s) = Some ml" and "holds e (xs @ [a]) ml"
    by (rule build_step_holds [OF assms(2)])
  then show ?thesis
    using assms(1) by (cases ml) (auto simp: add_to_thread_def same_memory_def)
qed

lemma build_slow_holds:
  assumes "build_slow e a s = Some s'" and "holds e xs (thread_lists s)"
  shows "holds e (xs @ [a]) (thread_lists s') \<and> same_memory s s'"
proof -
  have k: "keeps_lists s (own_cv e a s)" by (rule kept_updates)
  have "add_to_thread e a (own_cv e a s) = Some s'" using assms(1) by (simp add: build_slow_def)
  from add_to_thread_holds [OF this] show ?thesis
    using assms(2) kept_thread_lists [OF k] kept_same_memory [OF k] same_memory_trans by fastforce
qed

lemma add_rf_kept:
  assumes "add_rf e a s = Some s'"
  shows "keeps_lists s s'"
proof (cases "\<exists>w r t f. sca_merge e a w (own_cv e w (bump f s)) = Some (r, t)
    \<and> s' = set_node w (\<lambda>n. n\<lparr>specialEdge := Some a\<rparr>) (pushChange a t)")
  case True
  then obtain w r t f where t: "sca_merge e a w (own_cv e w (bump f s)) = Some (r, t)"
    and s': "s' = set_node w (\<lambda>n. n\<lparr>specialEdge := Some a\<rparr>) (pushChange a t)" by blast
  have "keeps_lists s t"
    using kept_updates(1,3) sca_merge_kept [OF t] by (metis kept.trans)
  then show ?thesis unfolding s' using kept_updates(2,4) by (metis kept.trans)
next
  case False
  then show ?thesis
    using assms by (auto simp: add_rf_def Let_def kept.refl kept_updates split: if_splits bind_splits)
qed

lemma build_fast_lists:
  assumes "build_fast b e a s = Some s'"
  obtains s1 where "keeps_lists s s1" and "add_to_thread e a s1 = Some s'"
proof -
  obtain s1 s2 s3 s4 where s1: "add_write e a (own_cv e a s) = Some s1"
    and s2: "add_rf e a (add_sb b e a s1) = Some s2" and s3: "add_start e a s2 = Some s3"
    and s4: "add_join e a s3 = Some s4" and s': "add_to_thread e a s4 = Some s'"
    using assms by (auto simp: build_fast_def bind_eq_Some_conv)
  have "keeps_lists (own_cv e a s) s1"
    using s1 by (auto simp: add_write_def Let_def keeps_lists_def bump_def split: if_splits)
  moreover have "keeps_lists (add_sb b e a s1) s2" by (rule add_rf_kept [OF s2])
  moreover have "keeps_lists s2 s3"
    using s3 by (auto simp: add_start_def kept.refl kept_updates split: if_splits bind_splits option.splits)
  moreover have "keeps_lists s3 s4"
    using s4 by (auto simp: add_join_def kept.refl kept_updates split: if_splits bind_splits)
  ultimately have "keeps_lists s s4" using kept_updates(3,5) by (metis kept.trans)
  with s' show thesis by (rule that [rotated])
qed

lemma build_fast_holds:
  assumes "build_fast b e a s = Some s'" and "holds e xs (thread_lists s)"
  shows "holds e (xs @ [a]) (thread_lists s') \<and> same_memory s s'"
proof -
  obtain s1 where k: "keeps_lists s s1" and s1: "add_to_thread e a s1 = Some s'"
    by (rule build_fast_lists [OF assms(1)])
  from add_to_thread_holds [OF s1] show ?thesis
    using assms(2) kept_thread_lists [OF k] kept_same_memory [OF k] same_memory_trans by fastforce
qed

lemma fold_holds:
  assumes "fold_opt f l s = Some s'" and "holds e xs (thread_lists s)"
    and "\<And>a t t' xs. f a t = Some t' \<Longrightarrow> holds e xs (thread_lists t)
        \<Longrightarrow> holds e (xs @ [a]) (thread_lists t') \<and> same_memory t t'"
  shows "holds e (xs @ l) (thread_lists s') \<and> same_memory s s'"
  using assms(1,2)
proof (induction l arbitrary: s xs)
  case Nil
  then show ?case by (simp add: same_memory_def)
next
  case (Cons a l)
  then obtain t where t: "f a s = Some t" and r: "fold_opt f l t = Some s'" by (auto split: bind_splits)
  note h = assms(3) [OF t Cons.prems(2)]
  then show ?case using Cons.IH [OF r, of "xs @ [a]"] same_memory_trans by auto
qed

lemma sca_buildVectors_holds:
  assumes "sca_buildVectors b e l s = Some s'" and "threadlists s \<noteq> []"
    and "\<forall>x \<in> set (threadlists s). x = []"
  shows "holds e l (thread_lists s')" and "same_memory s s'"
proof -
  have 0: "holds e [] (thread_lists (s\<lparr>maxthreads := 0\<rparr>))"
    using assms(2,3) by (auto simp: holds_def of_thread_def)
  have "holds e ([] @ l) (thread_lists s') \<and> same_memory (s\<lparr>maxthreads := 0\<rparr>) s'"
  proof (cases "fastVersion s")
    case True
    then have "fold_opt (build_fast b e) l (s\<lparr>maxthreads := 0\<rparr>) = Some s'"
      using assms(1) by (simp add: sca_buildVectors_def buildVectorsFast_def)
    then show ?thesis by (rule fold_holds [OF _ 0 build_fast_holds])
  next
    case False
    then have "fold_opt (build_slow e) l (s\<lparr>maxthreads := 0\<rparr>) = Some s'"
      using assms(1) by (simp add: sca_buildVectors_def buildVectorsSlow_def)
    then show ?thesis by (rule fold_holds [OF _ 0 build_slow_holds])
  qed
  then show "holds e l (thread_lists s')" and "same_memory s s'" by (auto simp: same_memory_def)
qed

section \<open>The generation\<close>

lemma sca_reset_empty:
  assumes "divided e l xs s"
  shows "threadlists (sca_reset l' s) \<noteq> []" and "\<forall>x \<in> set (threadlists (sca_reset l' s)). x = []"
    and "same_memory s (sca_reset l' s)"
  using divided_reset [OF assms, of l'] by (simp_all add: sca_reset_def sc_reset_def same_memory_def)

lemma sca_rollback_divided:
  assumes "divided e l xs s" and "sca_rollback b e l s = Some s'"
  shows "divided e l [] s'" and "same_memory s s'"
proof -
  obtain s1 where s1: "sca_buildVectors b e l (sca_reset l s) = Some s1"
    and s': "sca_computeCV e l s1 = Some s'"
    using assms(2) by (auto simp: sca_rollback_def bind_eq_Some_conv)
  note r = sca_reset_empty [OF assms(1)]
  note h = sca_buildVectors_holds [OF s1 r(1,2)]
  note k = sca_computeCV_kept [OF s']
  show "divided e l [] s'" by (rule divided_frame [OF holds_divided [OF h(1)] k])
  show "same_memory s s'"
    using r(3) h(2) kept_same_memory [OF k] by (blast intro: same_memory_trans)
qed

text \<open>Either the list is complete, or there is a cycle; the actions stay divided in any case.\<close>

definition generated :: "exec \<Rightarrow> aid list \<Rightarrow> sc_analysis \<Rightarrow> aid list option \<Rightarrow> sc_analysis \<Rightarrow> bool" where
  "generated e l s r s' \<longleftrightarrow> same_memory s s' \<and> (\<exists>zs. divided e l zs s')
     \<and> (cyclic s' \<or> (\<exists>ys. r = Some ys \<and> divided e l ys s' \<and> sca_getNextActions e s' = Some []))"

lemma generated_trans: "same_memory s t \<Longrightarrow> generated e l t r s' \<Longrightarrow> generated e l s r s'"
  by (auto simp: generated_def intro: same_memory_trans)

lemma sca_fronts:
  assumes "sca_getNextActions e s = Some array" and "divided e l xs s" and "a \<in> set array"
  shows "is_front e s a"
proof -
  obtain cvs where "ready_fronts e cvs [0 ..< maxthreads s + 1] s = Some array"
    using assms(1) by (auto simp: sca_getNextActions_def split: bind_splits if_splits)
  then show ?thesis using ready_are_fronts assms(2,3) by blast
qed

lemma sca_chosen_mem:
  assumes "choose_action array pruned ec cs = Some (a, cs')" and "array \<noteq> []"
    and "sca_pruneArray e array s = Some pruned"
  shows "a \<in> set array"
proof (rule choose_action_mem [OF assms(1,2)])
  show "pruneArray e array s = Some pruned"
    using assms(3) by (simp add: sca_pruneArray_def pruneArray_def)
qed

lemma sca_loop_result:
  assumes "sca_loop b e l ec cs xs s = Some (ys, s')" and "divided e l xs s"
  shows "generated e l s (Some ys) s'"
proof -
  have "divided e l xs s \<longrightarrow> generated e l s (Some (fst r)) (snd r)"
    if "sca_loop b e l ec cs xs s = Some r" for r
  proof (rule sca_loop.raw_induct [OF _ that])
    fix rec b e l ec cs xs s r
    assume IH: "\<And>b e l ec cs xs s r. rec b e l ec cs xs s = Some r
        \<Longrightarrow> divided e l xs s \<longrightarrow> generated e l s (Some (fst r)) (snd r)"
      and step: "Option.bind (sca_getNextActions e s) (\<lambda>array.
       if array = [] then Some (xs, s)
       else Option.bind (sca_pruneArray e array s) (\<lambda>pruned.
         Option.bind (choose_action array pruned ec cs) (\<lambda>(act, choices, currchoice, lastchoice).
         Option.bind (sca_updateConstraints e act (pop_front e act s)) (\<lambda>(changed, s1).
         Option.bind (if changed then sca_computeCV e l s1 else Some s1) (\<lambda>s2.
         if changed \<and> \<not> cyclic s1 \<and> cyclic s2
         then if lastchoice \<noteq> None
              then Option.bind (sca_rollback b e l s2) (\<lambda>s3.
                rec b e l (the lastchoice + 1)
                  (choices[the lastchoice := choices ! the lastchoice + 1], 0, None) [] s3)
              else Some (xs, s2\<lparr>fastVersion := False\<rparr>)
         else rec b e l ec (choices, currchoice, lastchoice) (xs @ [act]) s2))))) = Some r"
    show "divided e l xs s \<longrightarrow> generated e l s (Some (fst r)) (snd r)"
    proof
      assume div: "divided e l xs s"
      from step obtain array where arr: "sca_getNextActions e s = Some array"
        by (auto simp: bind_eq_Some_conv)
      show "generated e l s (Some (fst r)) (snd r)"
      proof (cases "array = []")
        case True
        then show ?thesis using step arr div by (auto simp: generated_def same_memory_def)
      next
        case False
        obtain pruned act choices currchoice lastchoice changed s1 s2 where
          pr: "sca_pruneArray e array s = Some pruned"
          and ch: "choose_action array pruned ec cs = Some (act, choices, currchoice, lastchoice)"
          and s1: "sca_updateConstraints e act (pop_front e act s) = Some (changed, s1)"
          and s2: "(if changed then sca_computeCV e l s1 else Some s1) = Some s2"
          and rest: "(if changed \<and> \<not> cyclic s1 \<and> cyclic s2
             then if lastchoice \<noteq> None
              then Option.bind (sca_rollback b e l s2) (\<lambda>s3.
                rec b e l (the lastchoice + 1)
                  (choices[the lastchoice := choices ! the lastchoice + 1], 0, None) [] s3)
              else Some (xs, s2\<lparr>fastVersion := False\<rparr>)
             else rec b e l ec (choices, currchoice, lastchoice) (xs @ [act]) s2) = Some r"
          using step arr False by (auto simp: bind_eq_Some_conv split del: if_split)
        have "is_front e s act" by (rule sca_fronts [OF arr div sca_chosen_mem [OF ch False pr]])
        then have d0: "divided e l (xs @ [act]) (pop_front e act s)" by (rule pop_front_divided [OF div])
        have "keeps_lists s1 s2"
          using s2 by (auto simp: kept.refl split: if_splits intro: sca_computeCV_kept)
        note k = kept.trans [OF sca_updateConstraints_kept [OF s1] this]
        have d2: "divided e l (xs @ [act]) s2" by (rule divided_frame [OF d0 k])
        have m2: "same_memory s s2"
          using kept_same_memory [OF k] by (simp add: same_memory_def pop_front_def)
        consider (again) "changed \<and> \<not> cyclic s1 \<and> cyclic s2" "lastchoice \<noteq> None"
          | (stop) "changed \<and> \<not> cyclic s1 \<and> cyclic s2" "lastchoice = None"
          | (on) "\<not> (changed \<and> \<not> cyclic s1 \<and> cyclic s2)" by blast
        then show ?thesis
        proof cases
          case again
          obtain s3 ec' cs' where s3: "sca_rollback b e l s2 = Some s3"
            and r: "rec b e l ec' cs' [] s3 = Some r"
            using rest unfolding if_P [OF again(1)] if_P [OF again(2)] by (auto simp: bind_eq_Some_conv)
          note d3 = sca_rollback_divided [OF d2 s3]
          show ?thesis
            using IH [OF r] d3 m2 by (blast intro: generated_trans same_memory_trans)
        next
          case stop
          then have "r = (xs, s2\<lparr>fastVersion := False\<rparr>)" using rest by simp
          moreover have "divided e l (xs @ [act]) (s2\<lparr>fastVersion := False\<rparr>)"
            by (rule divided_frame [OF d2]) (simp add: keeps_lists_def)
          ultimately show ?thesis using stop m2 by (auto simp: generated_def same_memory_def)
        next
          case on
          then have "rec b e l ec (choices, currchoice, lastchoice) (xs @ [act]) s2 = Some r"
            using rest unfolding if_not_P [OF on] by simp
          from IH [OF this] show ?thesis using d2 m2 by (blast intro: generated_trans)
        qed
      qed
    qed
  qed
  from this [OF assms(1)] show ?thesis using assms(2) by simp
qed

lemma sca_generateSC_result:
  assumes "sca_generateSC b e l s = Some (r, s')"
    and "threadlists s \<noteq> []" and "\<forall>x \<in> set (threadlists s). x = []"
  shows "generated e l s r s'"
proof -
  define g where "g t = (if fastVersion t
      then bump (\<lambda>c. c\<lparr>st_actions := st_actions c + of_nat (length l)\<rparr>) t else t)" for t
  obtain s1 s2 where s1: "sca_buildVectors b e l s = Some s1" and s2: "sca_computeCV e l s1 = Some s2"
    and rest: "(if fastVersion (g s2) \<and> cyclic (g s2) then Some (None, g s2)
       else do {
         (sclist, s) \<leftarrow> sca_loop b e l 0 (replicate (length l) 0, 0, None) [] (g s2);
         Some (Some sclist, s)
       }) = Some (r, s')"
    using assms(1) unfolding sca_generateSC_def Let_def g_def [symmetric]
    by (auto simp: bind_eq_Some_conv split del: if_split)
  note h = sca_buildVectors_holds [OF s1 assms(2,3)]
  have k: "keeps_lists s1 (g s2)"
    by (rule kept.trans [OF sca_computeCV_kept [OF s2]]) (simp add: g_def kept.refl kept_updates)
  have d: "divided e l [] (g s2)" by (rule divided_frame [OF holds_divided [OF h(1)] k])
  have m: "same_memory s (g s2)"
    by (rule same_memory_trans [OF h(2) kept_same_memory [OF k]])
  show ?thesis
  proof (cases "fastVersion (g s2) \<and> cyclic (g s2)")
    case True
    then show ?thesis using rest d m by (auto simp: generated_def)
  next
    case False
    then obtain ys where g: "sca_loop b e l 0 (replicate (length l) 0, 0, None) [] (g s2) = Some (ys, s')"
      and r: "r = Some ys"
      using rest unfolding if_not_P [OF False] by (auto simp: bind_eq_Some_conv)
    show ?thesis unfolding r by (rule generated_trans [OF m sca_loop_result [OF g d]])
  qed
qed

section \<open>The verdict\<close>

text \<open>The read at position \<open>i\<close> does not read from the last write before it, or from no write.\<close>

definition wrong_read :: "exec \<Rightarrow> aid list \<Rightarrow> nat \<Rightarrow> bool" where
  "wrong_read e xs i \<longleftrightarrow> is_read (A e (xs ! i))
     \<and> reads_from (A e (xs ! i)) \<noteq> last_write e (take i xs) (location (A e (xs ! i)))"

lemma sca_check_step_effect:
  "lastwrmap (snd (sca_check_step e a (h, t))) =
     (if is_write (A e a) then (lastwrmap t)(location (A e a) \<mapsto> a) else lastwrmap t)"
  "cyclic (snd (sca_check_step e a (h, t))) = cyclic t"
  "fst (sca_check_step e a (h, t)) \<longleftrightarrow>
     h \<or> is_read (A e a) \<and> reads_from (A e a) \<noteq> lastwrmap t (location (A e a))"
  by (simp_all add: sca_check_step_def Let_def)

lemma sca_check_fold:
  assumes "lastwrmap s = Map.empty"
  shows "lastwrmap (snd (fold (sca_check_step e) xs (False, s))) = last_write e xs
    \<and> cyclic (snd (fold (sca_check_step e) xs (False, s))) = cyclic s
    \<and> (fst (fold (sca_check_step e) xs (False, s)) \<longleftrightarrow> (\<exists>i < length xs. wrong_read e xs i))"
proof (induction xs rule: rev_induct)
  case Nil
  then show ?case using assms by (auto simp: fun_eq_iff)
next
  case (snoc a xs)
  obtain h t where st: "fold (sca_check_step e) xs (False, s) = (h, t)" by fastforce
  have old: "wrong_read e (xs @ [a]) i \<longleftrightarrow> wrong_read e xs i" if "i < length xs" for i
    using that by (simp add: wrong_read_def nth_append)
  have new: "wrong_read e (xs @ [a]) (length xs) \<longleftrightarrow>
      is_read (A e a) \<and> reads_from (A e a) \<noteq> lastwrmap t (location (A e a))"
    using snoc by (simp add: wrong_read_def st)
  have "(\<exists>i < length (xs @ [a]). wrong_read e (xs @ [a]) i)
      \<longleftrightarrow> (\<exists>i < length xs. wrong_read e xs i) \<or> wrong_read e (xs @ [a]) (length xs)"
    using old by (auto simp: less_Suc_eq)
  then show ?case
    using snoc unfolding new by (simp add: st sca_check_step_effect fun_eq_iff last_write_snoc)
qed

text \<open>
  C9: an execution that \<open>SCAnalysis\<close> does not call cyclic has a sequentially consistent order, the
  list the analysis made; one that it calls cyclic was put into a list in which some read does
  not read from the last write before it. This holds for the fast and the slow edges, across
  every rollback, and for whatever the list class gives for the last element of an empty list.
\<close>

theorem sca_verdict:
  assumes "sca_analyze back0 e actions s = Some (l, s')"
    and "threadlists s = [[]]" and "lastwrmap s = Map.empty" and "causal e actions"
  shows "if cyclic s' then \<exists>i < length l. wrong_read e l i else sc_order e actions l"
proof -
  obtain r1 s1 r2 s2 s3 where
    g1: "sca_generateSC back0 e actions (s\<lparr>fastVersion := True\<rparr>) = Some (r1, s1)"
    and g2: "(if cyclic s1
       then sca_generateSC back0 e actions ((sca_reset actions s1)\<lparr>fastVersion := False\<rparr>)
       else Some (r1, s1)) = Some (r2, s2)"
    and r2: "r2 = Some l" and c: "sca_check_rf e l s2 = Some s3" and s': "s' = update_stats s3"
    using assms(1) by (auto simp: sca_analyze_def bind_eq_Some_conv split del: if_split)
  have "generated e actions (s\<lparr>fastVersion := True\<rparr>) r1 s1"
    by (rule sca_generateSC_result [OF g1]) (use assms(2) in auto)
  then have gen1: "generated e actions s r1 s1" by (simp add: generated_def same_memory_def)
  have "generated e actions s r2 s2"
  proof (cases "cyclic s1")
    case False
    then show ?thesis using g2 gen1 by simp
  next
    case True
    obtain zs where "divided e actions zs s1" using gen1 by (auto simp: generated_def)
    note em = sca_reset_empty [OF this, of actions]
    have "generated e actions ((sca_reset actions s1)\<lparr>fastVersion := False\<rparr>) r2 s2"
      by (rule sca_generateSC_result) (use g2 True em in auto)
    moreover have "same_memory s ((sca_reset actions s1)\<lparr>fastVersion := False\<rparr>)"
      using gen1 em(3) by (simp add: generated_def same_memory_def)
    ultimately show ?thesis by (rule generated_trans [rotated])
  qed
  then have m: "lastwrmap s2 = Map.empty"
    and n: "cyclic s2 \<or> divided e actions l s2 \<and> sca_getNextActions e s2 = Some []"
    using r2 assms(3) by (auto simp: generated_def same_memory_def)
  note f = sca_check_fold [OF m, of e l]
  have cs: "cyclic s' = cyclic s2" and bad: "(\<exists>i < length l. wrong_read e l i) = cyclic s2"
    using c f s' by (auto simp: sca_check_rf_def Let_def update_stats_def bump_def
        split: if_splits prod.splits)
  have "interleaving e actions l" if "\<not> cyclic s2"
  proof (rule done_is_interleaving)
    show d: "divided e actions l s2" using n that by blast
    have "ready_fronts e (\<lambda>a. cv (A e a)) [0 ..< maxthreads s2 + 1] s2 = Some []"
      using n that by (auto simp: sca_getNextActions_def split: bind_splits if_splits)
    then show "\<forall>t < length (threadlists s2). threadlists s2 ! t = []"
      using no_ready_means_done [OF _ d assms(4)] by blast
  qed
  then show ?thesis
    using bad by (auto simp: cs sc_order_def misread_def wrong_read_def)
qed

section \<open>The bisections\<close>

text \<open>How often the interval is halved, and what the loops know of the interval they leave.\<close>

definition halvings :: "nat \<Rightarrow> nat \<Rightarrow> bool" where
  "halvings d n \<longleftrightarrow> (if d < 2 then n = 0 else 2 ^ n \<le> 2 * (d - 1))"

definition downward :: "(aid \<Rightarrow> bool) \<Rightarrow> aid list \<Rightarrow> bool" where
  "downward P l \<longleftrightarrow> (\<forall>i j. i \<le> j \<longrightarrow> j < length l \<longrightarrow> P (l ! j) \<longrightarrow> P (l ! i))"

definition upward :: "(aid \<Rightarrow> bool) \<Rightarrow> aid list \<Rightarrow> bool" where
  "upward P l \<longleftrightarrow> (\<forall>i j. i \<le> j \<longrightarrow> j < length l \<longrightarrow> P (l ! i) \<longrightarrow> P (l ! j))"

lemma halvings_Suc: "2 \<le> d \<Longrightarrow> 2 * d' \<le> d + 1 \<Longrightarrow> halvings d' n \<Longrightarrow> halvings d (Suc n)"
  by (auto simp: halvings_def split: if_splits)

lemma search_last_result:
  assumes "search_last P l low high n = (lo, hi, m)" and "low \<le> high"
  shows "low \<le> lo \<and> lo \<le> hi \<and> hi \<le> lo + 1 \<and> hi \<le> high \<and> (lo = low \<or> P (l ! lo))
    \<and> (high < length l \<longrightarrow> downward P l
        \<longrightarrow> (\<forall>i. hi < i \<and> i \<le> high \<longrightarrow> \<not> P (l ! i)))
    \<and> n \<le> m \<and> halvings (high - low) (m - n)"
  using assms
proof (induction P l low high n rule: search_last.induct)
  case (1 P l low high n)
  show ?case
  proof (cases "low + 1 < high")
    case False
    then show ?thesis using 1(3,4) by (auto simp: search_last.simps [of P l low] halvings_def)
  next
    case True
    let ?mid = "(low + high) div 2"
    show ?thesis
    proof (cases "P (l ! ?mid)")
      case yes: True
      have "search_last P l ?mid high (n + 1) = (lo, hi, m)"
        using 1(3) True yes by (simp add: search_last.simps [of P l low] Let_def)
      note r0 = 1(1) [OF True refl yes this]
      have le: "?mid \<le> high" using True by auto
      note r = r0 [OF le]
      have "halvings (high - ?mid) (m - (n + 1))" using r True by simp
      then have "halvings (high - low) (Suc (m - (n + 1)))" by (rule halvings_Suc [rotated 2]) (use True in auto)
      moreover have "Suc (m - (n + 1)) = m - n" using r by auto
      ultimately show ?thesis using r le True yes by auto
    next
      case no: False
      have "search_last P l low (?mid - 1) (n + 1) = (lo, hi, m)"
        using 1(3) True no by (simp add: search_last.simps [of P l low] Let_def)
      note r = 1(2) [OF True refl no this]
      have le: "low \<le> ?mid - 1" using True by auto
      have "halvings (?mid - 1 - low) (m - (n + 1))" using r le by simp
      then have "halvings (high - low) (Suc (m - (n + 1)))" by (rule halvings_Suc [rotated 2]) (use True in auto)
      moreover have "Suc (m - (n + 1)) = m - n" using r le by auto
      moreover have "\<not> P (l ! i)" if "high < length l"
        and "downward P l" and "hi < i" "i \<le> high" for i
      proof (cases "i \<le> ?mid - 1")
        case True
        then show ?thesis using r le that by auto
      next
        case False
        then have "?mid \<le> i" by auto
        then show ?thesis using that(1,2,4) no unfolding downward_def by (meson le_less_trans)
      qed
      ultimately show ?thesis using r le True by auto
    qed
  qed
qed

lemma search_first_result:
  assumes "search_first P l low high n = (lo, hi, m)" and "low \<le> high"
  shows "low \<le> lo \<and> lo \<le> hi \<and> hi \<le> lo + 1 \<and> hi \<le> high \<and> (hi = high \<or> P (l ! hi))
    \<and> (high < length l \<longrightarrow> upward P l
        \<longrightarrow> (\<forall>i. low \<le> i \<and> i < lo \<longrightarrow> \<not> P (l ! i)))
    \<and> n \<le> m \<and> halvings (high - low) (m - n)"
  using assms
proof (induction P l low high n rule: search_first.induct)
  case (1 P l low high n)
  show ?case
  proof (cases "low + 1 < high")
    case False
    then show ?thesis using 1(3,4) by (auto simp: search_first.simps [of P l low] halvings_def)
  next
    case True
    let ?mid = "(low + high) div 2"
    show ?thesis
    proof (cases "P (l ! ?mid)")
      case yes: True
      have "search_first P l low ?mid (n + 1) = (lo, hi, m)"
        using 1(3) True yes by (simp add: search_first.simps [of P l low] Let_def)
      note r0 = 1(1) [OF True refl yes this]
      have le: "low \<le> ?mid" using True by auto
      note r = r0 [OF le]
      have "halvings (?mid - low) (m - (n + 1))" using r True by simp
      then have "halvings (high - low) (Suc (m - (n + 1)))" by (rule halvings_Suc [rotated 2]) (use True in auto)
      moreover have "Suc (m - (n + 1)) = m - n" using r by auto
      ultimately show ?thesis using r le True yes by auto
    next
      case no: False
      have "search_first P l (?mid + 1) high (n + 1) = (lo, hi, m)"
        using 1(3) True no by (simp add: search_first.simps [of P l low] Let_def)
      note r = 1(2) [OF True refl no this]
      have le: "?mid + 1 \<le> high" using True by auto
      have "halvings (high - (?mid + 1)) (m - (n + 1))" using r le by simp
      then have "halvings (high - low) (Suc (m - (n + 1)))" by (rule halvings_Suc [rotated 2]) (use True in auto)
      moreover have "Suc (m - (n + 1)) = m - n" using r le by auto
      moreover have "\<not> P (l ! i)" if "high < length l"
        and "upward P l" and "low \<le> i" "i < lo" for i
      proof (cases "?mid + 1 \<le> i")
        case True
        then show ?thesis using r le that by auto
      next
        case False
        then have "i \<le> ?mid" "?mid < length l" using that(1) \<open>low + 1 < high\<close> by auto
        then show ?thesis using that(2) no unfolding upward_def by blast
      qed
      ultimately show ?thesis using r le True by auto
    qed
  qed
qed

lemma halvings_bound: "halvings d n \<Longrightarrow> 2 ^ (n + 2) \<le> 8 * (d + 1)"
  by (auto simp: halvings_def split: if_splits)

lemma find_rev_upt:
  assumes "i < n" and "P i" and "\<And>j. i < j \<Longrightarrow> j < n \<Longrightarrow> \<not> P j"
  shows "find P (rev [0 ..< n]) = Some i"
  unfolding find_Some_iff
  by (rule exI [of _ "n - 1 - i"]) (use assms in \<open>auto simp: rev_nth\<close>)

lemma find_upt:
  assumes "k \<le> i" and "i < n" and "P i" and "\<And>j. k \<le> j \<Longrightarrow> j < i \<Longrightarrow> \<not> P j"
  shows "find P [k ..< n] = Some i"
  unfolding find_Some_iff
  by (rule exI [of _ "i - k"]) (use assms in auto)

lemma find_latest_scan:
  assumes "downward P l" and "l \<noteq> []"
  shows "fst (find_latest P l) = find (\<lambda>i. P (l ! i)) (rev [0 ..< length l])"
    and "2 ^ snd (find_latest P l) \<le> 8 * length l"
proof -
  obtain lo hi m where sl: "search_last P l 0 (length l - 1) 0 = (lo, hi, m)"
    by (cases "search_last P l 0 (length l - 1) 0") auto
  note r = search_last_result [OF sl, simplified]
  have b: "hi < length l" using r assms(2) by (cases l) auto
  have above: "\<not> P (l ! i)" if "hi < i" "i < length l" for i
    using r assms that by (cases l) auto
  have below: "P (l ! i)" if "i \<le> j" "j \<le> hi" "P (l ! j)" for i j
    using assms(1) that b unfolding downward_def by (meson le_less_trans)
  have none: "find (\<lambda>i. P (l ! i)) (rev [0 ..< length l]) = None" if "\<not> P (l ! 0)"
    unfolding find_None_iff using assms that unfolding downward_def by auto
  show "fst (find_latest P l) = find (\<lambda>i. P (l ! i)) (rev [0 ..< length l])"
  proof (cases "P (l ! hi)")
    case True
    then show ?thesis
      using find_rev_upt [of hi "length l" "\<lambda>i. P (l ! i)"] above b by (simp add: find_latest_def sl [simplified])
  next
    case False
    show ?thesis
    proof (cases "P (l ! lo)")
      case True
      then have "lo \<noteq> hi" using False by auto
      then have "\<not> P (l ! i)" if "lo < i" "i < length l" for i
        using r False above that by (cases "i = hi") auto
      then show ?thesis
        using find_rev_upt [of lo "length l" "\<lambda>i. P (l ! i)"] True False r b \<open>lo \<noteq> hi\<close>
        by (simp add: find_latest_def sl [simplified])
    next
      case no: False
      then have "lo = 0" using r by auto
      then show ?thesis using none no False by (simp add: find_latest_def sl [simplified])
    qed
  qed
  have "2 ^ snd (find_latest P l) \<le> (2::nat) ^ (m + 2)"
    by (auto simp: find_latest_def sl [simplified] intro: power_increasing)
  also have "\<dots> \<le> 8 * (length l - 1 + 1)" by (rule halvings_bound) (use r in simp)
  finally show "2 ^ snd (find_latest P l) \<le> 8 * length l" using assms(2) by (cases l) auto
qed

lemma find_earliest_scan:
  assumes "upward P l" and "start < length l"
  shows "fst (find_earliest P l start) = find (\<lambda>i. P (l ! i)) [start ..< length l]"
    and "2 ^ snd (find_earliest P l start) \<le> 8 * length l"
proof -
  obtain lo hi m where sl: "search_first P l start (length l - 1) 0 = (lo, hi, m)"
    by (cases "search_first P l start (length l - 1) 0") auto
  have "start \<le> length l - 1" using assms(2) by auto
  note r = search_first_result [OF sl this, simplified]
  have b: "hi < length l" using r assms(2) by auto
  have before: "\<not> P (l ! i)" if "start \<le> i" "i < lo" for i using r assms that by auto
  have none: "find (\<lambda>i. P (l ! i)) [start ..< length l] = None" if "\<not> P (l ! (length l - 1))"
  proof -
    have "\<not> P (l ! i)" if "i < length l" for i
    proof -
      have "i \<le> length l - 1" "length l - 1 < length l" using that by auto
      then show ?thesis using assms(1) \<open>\<not> P (l ! (length l - 1))\<close> unfolding upward_def by blast
    qed
    then show ?thesis unfolding find_None_iff by auto
  qed
  show "fst (find_earliest P l start) = find (\<lambda>i. P (l ! i)) [start ..< length l]"
  proof (cases "P (l ! lo)")
    case True
    then show ?thesis
      using find_upt [of start lo "length l" "\<lambda>i. P (l ! i)"] before b r
      by (simp add: find_earliest_def sl [simplified])
  next
    case False
    show ?thesis
    proof (cases "P (l ! hi)")
      case True
      then have "lo \<noteq> hi" using False by auto
      then have "\<not> P (l ! i)" if "start \<le> i" "i < hi" for i
        using r False before that by (cases "i = lo") auto
      then show ?thesis
        using find_upt [of start hi "length l" "\<lambda>i. P (l ! i)"] True False r b \<open>lo \<noteq> hi\<close>
        by (simp add: find_earliest_def sl [simplified])
    next
      case no: False
      then have "hi = length l - 1" using r by auto
      then show ?thesis using none no False by (simp add: find_earliest_def sl [simplified])
    qed
  qed
  have "2 ^ snd (find_earliest P l start) \<le> (2::nat) ^ (m + 2)"
    by (auto simp: find_earliest_def sl [simplified] intro: power_increasing)
  also have "\<dots> \<le> 8 * (length l - 1 - start + 1)" by (rule halvings_bound) (use r in simp)
  also have "\<dots> \<le> 8 * length l" using assms(2) by simp
  finally show "2 ^ snd (find_earliest P l start) \<le> 8 * length l" .
qed

text \<open>The writes of one thread, oldest first.\<close>

definition one_thread :: "exec \<Rightarrow> aid list \<Rightarrow> bool" where
  "one_thread e l \<longleftrightarrow> (\<forall>i j. i \<le> j \<longrightarrow> j < length l \<longrightarrow>
     tid (A e (l ! i)) = tid (A e (l ! j)) \<and> seq_number (A e (l ! i)) \<le> seq_number (A e (l ! j)))"

lemma writes_before_downward:
  assumes "one_thread e l" and "\<forall>w \<in> set l. cvmap s w \<noteq> None"
  shows "downward (write_before e s c) l"
  unfolding downward_def
proof (intro allI impI)
  fix i j
  assume ij: "i \<le> j" "j < length l" and "write_before e s c (l ! j)"
  moreover have "tid (A e (l ! i)) = tid (A e (l ! j))" "seq_number (A e (l ! i)) \<le> seq_number (A e (l ! j))"
    using assms(1) ij unfolding one_thread_def by auto
  ultimately show "write_before e s c (l ! i)"
    using assms(2) by (auto simp: write_before_def cv_since_def synchronized_since_def split: if_splits)
qed

text \<open>
  C26: the bisections of \<open>processReadFast\<close> find the writes a scan of the thread's list finds: the
  newest one ordered before the read, whatever the clock vectors are, and the oldest one, from a
  position on, ordered after the write read from, when every later write of the thread is
  ordered after what an earlier one is ordered after. They look at logarithmically many writes.
\<close>

theorem bisection_is_scan:
  assumes "l \<noteq> []" and "start < length l" and "one_thread e l" and "\<forall>w \<in> set l. cvmap s w \<noteq> None"
    and "\<And>i j. i \<le> j \<Longrightarrow> j < length l \<Longrightarrow> write_after e s write (l ! i) \<Longrightarrow> write_after e s write (l ! j)"
  shows "fst (find_latest (write_before e s c) l)
      = find (\<lambda>i. write_before e s c (l ! i)) (rev [0 ..< length l])
    \<and> fst (find_earliest (write_after e s write) l start)
      = find (\<lambda>i. write_after e s write (l ! i)) [start ..< length l]
    \<and> 2 ^ snd (find_latest (write_before e s c) l) \<le> 8 * length l
    \<and> 2 ^ snd (find_earliest (write_after e s write) l start) \<le> 8 * length l"
proof -
  have up: "upward (write_after e s write) l"
    unfolding upward_def using assms(5) by blast
  show ?thesis
    using find_latest_scan [OF writes_before_downward [OF assms(3,4)] assms(1)]
      find_earliest_scan [OF up assms(2)] by blast
qed

section \<open>Where the analysis does not return\<close>

text \<open>How many lists of writes a location has.\<close>

definition write_room :: "sc_analysis \<Rightarrow> uint64 \<Rightarrow> nat" where
  "write_room s loc = (case writeMap s loc of None \<Rightarrow> 0 | Some ls \<Rightarrow> length ls)"

lemma write_room_add_write:
  assumes "add_write e a s = Some s'"
  shows "write_room s' loc = (if location (A e a) = loc \<and> write_room s loc < tid (A e a)
     then tid (A e a) + 1 else write_room s loc)"
  using assms
  by (auto simp: add_write_def Let_def write_room_def bump_def split: if_splits option.splits)

lemma add_write_fails: "write_room s (location (A e a)) = tid (A e a) \<Longrightarrow> add_write e a s = None"
  by (auto simp: add_write_def Let_def write_room_def split: option.splits)

lemma write_room_updates:
  "write_room (own_cv e a s) loc = write_room s loc" "write_room (bump f s) loc = write_room s loc"
  "write_room (add_sb b e a s) loc = write_room s loc" "write_room (special_edge a a' s) loc = write_room s loc"
  "write_room (set_node a g s) loc = write_room s loc" "write_room (pushChange a s) loc = write_room s loc"
  "write_room (s\<lparr>maxthreads := m, threadlists := ls\<rparr>) loc = write_room s loc"
  by (auto simp: write_room_def own_cv_def bump_def add_sb_def special_edge_def set_node_def
      pushChange_def split: option.splits)

lemma write_room_merge_into: "merge_into a c s = Some (b, s') \<Longrightarrow> write_room s' loc = write_room s loc"
  by (auto simp: merge_into_def write_room_def split: bind_splits prod.splits)

lemma write_room_merge:
  "sca_merge e a b s = Some (r, s') \<Longrightarrow> write_room s' loc = write_room s loc"
  by (auto simp: sca_merge_def Let_def write_room_updates
      split: option.splits if_splits bind_splits dest!: write_room_merge_into)
    (auto simp: write_room_def bump_def)

lemma write_room_build:
  assumes "build_fast b e a s = Some s'"
  shows "write_room s' loc = (if location (A e a) = loc \<and> write_room s loc < tid (A e a)
     then tid (A e a) + 1 else write_room s loc)"
proof -
  obtain s1 s2 s3 s4 where s1: "add_write e a (own_cv e a s) = Some s1"
    and s2: "add_rf e a (add_sb b e a s1) = Some s2" and s3: "add_start e a s2 = Some s3"
    and s4: "add_join e a s3 = Some s4" and s': "add_to_thread e a s4 = Some s'"
    using assms by (auto simp: build_fast_def bind_eq_Some_conv)
  have "write_room s' loc = write_room s4 loc"
    using s' by (auto simp: add_to_thread_def write_room_updates split: bind_splits)
  also have "\<dots> = write_room s3 loc"
    using s4 by (auto simp: add_join_def write_room_updates split: if_splits bind_splits)
  also have "\<dots> = write_room s2 loc"
    using s3 by (auto simp: add_start_def write_room_updates split: if_splits bind_splits option.splits)
  also have "\<dots> = write_room s1 loc"
    using s2 by (auto simp: add_rf_def Let_def write_room_updates split: if_splits bind_splits
        dest!: write_room_merge)
  finally show ?thesis using write_room_add_write [OF s1, of loc] by (simp add: write_room_updates)
qed

text \<open>What the actions \<open>xs\<close> make of it.\<close>

definition room_after :: "exec \<Rightarrow> uint64 \<Rightarrow> aid list \<Rightarrow> nat" where
  "room_after e loc xs = fold (\<lambda>a n. if location (A e a) = loc \<and> n < tid (A e a) then tid (A e a) + 1 else n) xs 0"

lemma write_room_fold:
  assumes "fold_opt (build_fast b e) xs s = Some s'" and "writeMap s = Map.empty"
  shows "write_room s' loc = room_after e loc xs"
  using assms(1)
proof (induction xs arbitrary: s' rule: rev_induct)
  case Nil
  then show ?case using assms(2) by (simp add: write_room_def room_after_def)
next
  case (snoc a xs)
  then obtain t where "fold_opt (build_fast b e) xs s = Some t" and "build_fast b e a t = Some s'"
    by (auto simp: fold_opt_append split: bind_splits)
  then show ?case using snoc.IH write_room_build by (simp add: room_after_def)
qed

text \<open>
  C28: the building of the lists of writes leaves one list too few when a thread is the next one
  after those a location has lists for, and then indexes the vector at its end. So the analysis
  does not return for any execution in which an action's thread id is the number of lists the
  actions before it made for its location: the first access to a location by the model checker's
  own thread, which are the uninitialized stores, or by thread 2 after thread 1.
\<close>

theorem write_lists_one_short:
  assumes "actions = xs @ a # ys" and "tid (A e a) = room_after e (location (A e a)) xs"
    and "writeMap s = Map.empty"
  shows "sca_analyze back0 e actions s = None"
proof -
  have "fold_opt (build_fast back0 e) actions (s\<lparr>fastVersion := True, maxthreads := 0\<rparr>) = None"
  proof (cases "fold_opt (build_fast back0 e) xs (s\<lparr>fastVersion := True, maxthreads := 0\<rparr>)")
    case None
    then show ?thesis by (simp add: assms(1) fold_opt_append)
  next
    case (Some t)
    then have "write_room (own_cv e a t) (location (A e a)) = tid (A e a)"
      using write_room_fold [OF Some] assms(2,3) by (simp add: write_room_updates)
    then have "build_fast back0 e a t = None"
      by (simp add: build_fast_def add_write_fails)
    then show ?thesis using Some by (simp add: assms(1) fold_opt_append)
  qed
  then show ?thesis
    by (simp add: sca_analyze_def sca_generateSC_def sca_buildVectors_def buildVectorsFast_def)
qed

text \<open>The average over the reads divides by their number, which may be zero.\<close>

lemma finish_divides_by_zero: "processedReads (stats s) = 0 \<Longrightarrow> sca_finish s = None"
  by (simp add: sca_finish_def Let_def)

section \<open>Examples\<close>

declare computeCVFast.simps [code] computeCVSlow_loop.simps [code] sca_loop.simps [code]

definition fresh_analysis :: sc_analysis where
  "fresh_analysis = SCAnalysis_new 0 False"

lemma fresh_analysis_fields:
  "threadlists fresh_analysis = [[]]" "lastwrmap fresh_analysis = Map.empty"
  "writeMap fresh_analysis = Map.empty"
  by (simp_all add: fresh_analysis_def SCAnalysis_new_def)

text \<open>Two stores by the threads 3 and 2, and a load of thread 1 that reads the older one.\<close>

definition sca_trace :: exec where
  "sca_trace = (sample_exec [
      1 \<mapsto> sample_act ATOMIC_WRITE memory_order_relaxed 64 5 3 1 [0, 0, 0, 1],
      2 \<mapsto> sample_act ATOMIC_WRITE memory_order_relaxed 64 6 2 2 [0, 0, 2],
      3 \<mapsto> (sample_act ATOMIC_READ memory_order_relaxed 64 0 1 3 [0, 3])
             \<lparr>reads_from := Some 1\<rparr>])
      \<lparr>obj_thrd_map := [64 \<mapsto> [[], [3], [2], [1]]], action_trace := [1, 2, 3]\<rparr>"

lemma sca_trace_list:
  "map_option (\<lambda>(l, s). (l, cyclic s)) (sca_analyze None sca_trace [1, 2, 3] fresh_analysis)
     = Some ([2, 1, 3], False)"
  by code_simp

lemma sca_trace_causal: "causal sca_trace [1, 2, 3]"
  by (simp add: causal_def sca_trace_def sample_simps cv_since_def)

theorem sca_verdict_witness: "sc_order sca_trace [1, 2, 3] [2, 1, 3]"
proof -
  obtain s' where run: "sca_analyze None sca_trace [1, 2, 3] fresh_analysis = Some ([2, 1, 3], s')"
    and "\<not> cyclic s'"
    using sca_trace_list by auto
  then show ?thesis
    using sca_verdict [OF run fresh_analysis_fields(1,2) sca_trace_causal] by simp
qed

text \<open>Three stores of thread 3, the last two of which are ordered after one of thread 2.\<close>

definition sca_writes :: exec where
  "sca_writes = sample_exec [
      1 \<mapsto> sample_act ATOMIC_WRITE memory_order_relaxed 64 5 3 1 [0, 0, 0, 1],
      2 \<mapsto> sample_act ATOMIC_WRITE memory_order_relaxed 64 6 3 2 [0, 0, 0, 2],
      3 \<mapsto> sample_act ATOMIC_WRITE memory_order_relaxed 64 7 3 3 [0, 0, 0, 3],
      4 \<mapsto> sample_act ATOMIC_WRITE memory_order_relaxed 64 8 2 4 [0, 0, 4]]"

definition sca_clocks :: sc_analysis where
  "sca_clocks = fresh_analysis\<lparr>cvmap := [1 \<mapsto> [0, 0, 0, 1], 2 \<mapsto> [0, 0, 4, 2], 3 \<mapsto> [0, 0, 4, 3],
     4 \<mapsto> [0, 0, 4]]\<rparr>"

lemma sca_writes_acts:
  "tid (A sca_writes 1) = 3" "tid (A sca_writes 2) = 3" "tid (A sca_writes 3) = 3"
  "tid (A sca_writes 4) = 2" "seq_number (A sca_writes 1) = 1" "seq_number (A sca_writes 2) = 2"
  "seq_number (A sca_writes 3) = 3" "seq_number (A sca_writes 4) = 4"
  by (simp_all add: sca_writes_def sample_exec_eq sample_act_def A_def)

lemma below_three: "i < 3 \<longleftrightarrow> i = 0 \<or> i = 1 \<or> i = (2::nat)"
  by auto

lemma sca_write_before:
  "i < 3 \<Longrightarrow> write_before sca_writes sca_clocks [0, 0, 0, 2] ([1, 2, 3] ! i) \<longleftrightarrow> i \<le> 1"
  by (auto simp: below_three write_before_def cv_since_def synchronized_since_def
      sca_writes_acts sca_writes_acts [simplified] sca_clocks_def)

lemma sca_write_after:
  "i < 3 \<Longrightarrow> write_after sca_writes sca_clocks 4 ([1, 2, 3] ! i) \<longleftrightarrow> i \<noteq> 0"
  by (auto simp: below_three write_after_def cv_since_def synchronized_since_def
      sca_writes_acts sca_writes_acts [simplified] sca_clocks_def)

theorem bisection_is_scan_witness:
  "fst (find_latest (write_before sca_writes sca_clocks [0, 0, 0, 2]) [1, 2, 3]) = Some 1
     \<and> fst (find_earliest (write_after sca_writes sca_clocks 4) [1, 2, 3] 0) = Some 1"
proof -
  have "one_thread sca_writes [1, 2, 3]"
    unfolding one_thread_def
  proof (intro allI impI)
    fix i j :: nat
    assume "i \<le> j" and "j < length [1, 2, 3::aid]"
    then have "i < 3" and "j < 3" and "i \<le> j" by auto
    then show "tid (A sca_writes ([1, 2, 3] ! i)) = tid (A sca_writes ([1, 2, 3] ! j))
        \<and> seq_number (A sca_writes ([1, 2, 3] ! i)) \<le> seq_number (A sca_writes ([1, 2, 3] ! j))"
      unfolding below_three by (elim disjE) (simp_all add: sca_writes_acts [simplified])
  qed
  moreover have "\<forall>w \<in> set [1, 2, 3]. cvmap sca_clocks w \<noteq> None"
    by (simp add: sca_clocks_def)
  moreover have "write_after sca_writes sca_clocks 4 ([1, 2, 3] ! j)"
    if "i \<le> j" "j < length [1, 2, 3::aid]" "write_after sca_writes sca_clocks 4 ([1, 2, 3] ! i)" for i j
    using sca_write_after [of i] sca_write_after [of j] that by auto
  moreover have "find (\<lambda>i. write_before sca_writes sca_clocks [0, 0, 0, 2] ([1, 2, 3] ! i))
      (rev [0 ..< 3]) = Some 1"
  proof -
    define before where
      "before i \<longleftrightarrow> write_before sca_writes sca_clocks [0, 0, 0, 2] ([1, 2, 3] ! i)" for i :: nat
    have "before i \<longleftrightarrow> i \<le> 1" if "i < 3" for i using sca_write_before [OF that] by (simp only: before_def)
    then have "find before (rev [0 ..< 3]) = Some 1" by (intro find_rev_upt) auto
    then show ?thesis by (simp only: before_def [abs_def])
  qed
  moreover have "find (\<lambda>i. write_after sca_writes sca_clocks 4 ([1, 2, 3] ! i)) [0 ..< 3] = Some 1"
  proof -
    define after where "after i \<longleftrightarrow> write_after sca_writes sca_clocks 4 ([1, 2, 3] ! i)" for i :: nat
    have "after i \<longleftrightarrow> i \<noteq> 0" if "i < 3" for i using sca_write_after [OF that] by (simp only: after_def)
    then have "find after [0 ..< 3] = Some 1" by (intro find_upt) auto
    then show ?thesis by (simp only: after_def [abs_def])
  qed
  moreover have three: "length [1, 2, 3::aid] = 3" by simp
  ultimately show ?thesis
    using bisection_is_scan [of "[1, 2, 3]" 0 sca_writes sca_clocks 4 "[0, 0, 0, 2]", unfolded three]
    by simp
qed

text \<open>The execution of three threads that the generator puts in order (theory \<open>SCOrder\<close>).\<close>

theorem write_lists_one_short_witness: "sca_analyze None sc_trace [1, 2, 3] fresh_analysis = None"
proof -
  have "[1, 2, 3] = [1] @ 2 # [3::aid]" by simp
  moreover have "tid (A sc_trace 2) = room_after sc_trace (location (A sc_trace 2)) [1]"
    by (simp add: room_after_def sc_trace_def sample_simps)
  ultimately show ?thesis by (rule write_lists_one_short) (rule fresh_analysis_fields)
qed

text \<open>
  The writes of the reader's own thread are left out of the edges. Thread 3 stores and reads the
  store of thread 1: a sequentially consistent execution, for which the fast version makes a
  list that puts thread 1 first, reports no cycle, and fails its own check.
\<close>

definition own_store_trace :: exec where
  "own_store_trace = (sample_exec [
      1 \<mapsto> sample_act ATOMIC_WRITE memory_order_relaxed 64 5 3 1 [0, 0, 0, 1],
      2 \<mapsto> sample_act ATOMIC_WRITE memory_order_relaxed 64 6 1 2 [0, 2],
      3 \<mapsto> (sample_act ATOMIC_READ memory_order_relaxed 64 0 3 3 [0, 0, 0, 3])
             \<lparr>reads_from := Some 2\<rparr>])
      \<lparr>obj_thrd_map := [64 \<mapsto> [[], [2], [], [1, 3]]], action_trace := [1, 2, 3]\<rparr>"

lemma own_store_fails: "sca_analyze None own_store_trace [1, 2, 3] fresh_analysis = None"
  by code_simp

lemma own_store_order: "sc_order own_store_trace [1, 2, 3] [1, 2, 3]"
proof -
  have "\<forall>i < length [1, 2, 3::aid]. \<not> misread own_store_trace [1, 2, 3] i" by code_simp
  then show ?thesis by (simp add: sc_order_def interleaving_def)
qed

end
