(* ===== verification/SpecGraph.thy ===== *)
theory SpecGraph
  imports ModelChecker
begin

text \<open>
  \<open>spec-analysis/\<close>: the plugin \<open>SPECAnalysis\<close>, which checks an execution against a sequential
  specification. Annotations in the trace mark the calls of the methods of a data structure and
  their ordering points; the calls become the nodes of a graph (\<open>ExecutionGraph\<close>), with the
  order of their ordering points as edges. This theory holds the annotations
  (\<open>specannotation.h\<close>, \<open>specannotation.cc\<close>), the nodes (\<open>methodcall.cc\<close>) and the building of
  the graph (\<open>executiongraph.cc\<close>); \<open>SpecCheck\<close> the checks.

  Method calls are numbers (\<open>mref\<close>) looked up in \<open>calls\<close>; what changes after the graph is
  built (\<open>exist\<close>, \<open>justified\<close>, the specification's \<open>state\<close>) is kept beside them. Names and
  labels are pointers to text and are compared as pointers. Sets of nodes are lists without
  repetition. \<open>mem\<close> is the memory the annotations of the program lie in; the functions of the
  specification are arguments: each may look at the whole graph and changes at most the state of
  its first method. A failed \<open>ASSERT\<close> and a null pointer that is followed are \<open>None\<close>.
\<close>

section \<open>Annotations\<close>

datatype cstr = GRAPH_START | GRAPH_FINISH | Cstr uint64

type_synonym mref = nat

record 'v method_call =
  call_id :: "32 word"
  call_tid :: nat
  call_name :: cstr
  call_value :: "'v option"
  prev_set :: "mref list"
  next_set :: "mref list"
  concurrent :: "mref list"
  justifiedMethod :: "mref option"
  call_begin :: "aid option"
  orderingPoints :: "aid list"
  allPrev :: "mref list"
  allNext :: "mref list"

type_synonym 'v call_graph = "mref \<rightharpoonup> 'v method_call"
type_synonym ('v, 's) update_state = "'v call_graph \<Rightarrow> mref \<Rightarrow> 's option \<Rightarrow> 's option"
type_synonym ('v, 's) state_transition = "'v call_graph \<Rightarrow> mref \<Rightarrow> 's option \<Rightarrow> mref \<Rightarrow> bool \<times> 's option"
type_synonym ('v, 's) check_state = "'v call_graph \<Rightarrow> mref \<Rightarrow> 's option \<Rightarrow> mref \<Rightarrow> bool"
type_synonym 'v check_commutativity = "'v call_graph \<Rightarrow> mref \<Rightarrow> mref \<Rightarrow> bool"

record 'v commutativity_rule =
  method1 :: cstr
  method2 :: cstr
  rule_text :: cstr
  rule_condition :: "'v check_commutativity"

datatype check_function_type =
    INITIAL | COPY | CLEAR | FINAL | PRINT_STATE | TRANSITION | PRE_CONDITION
  | JUSTIFYING_PRECONDITION | SIDE_EFFECT | JUSTIFYING_POSTCONDITION | POST_CONDITION | PRINT_VALUE

record 'f named_function =
  nf_name :: cstr
  nf_type :: check_function_type
  nf_function :: "'f option"

record ('v, 's) state_functions =
  transition :: "('v, 's) state_transition named_function option"
  preCondition :: "('v, 's) check_state named_function option"
  justifyingPrecondition :: "('v, 's) check_state named_function option"
  justifyingPostcondition :: "('v, 's) check_state named_function option"
  postCondition :: "('v, 's) check_state named_function option"
  print_value :: "('v, 's) update_state named_function option"

record ('v, 's) anno_init =
  ai_initial :: "('v, 's) update_state named_function option"
  ai_final :: "('v, 's) check_state named_function option"
  ai_copy :: "('v, 's) check_state named_function option"
  ai_clear :: "('v, 's) update_state named_function option"
  ai_printState :: "('v, 's) update_state named_function option"
  ai_funcMap :: "cstr \<rightharpoonup> ('v, 's) state_functions"
  ai_commuteRules :: "'v commutativity_rule list"
  ai_commuteRuleNum :: nat

record 'v interface_info =
  info_name :: cstr
  info_value :: "'v option"

datatype ('v, 's) spec_annotation =
    INIT "('v, 's) anno_init"
  | POTENTIAL_OP cstr
  | OP_DEFINE
  | OP_CHECK cstr
  | OP_CLEAR
  | OP_CLEAR_DEFINE
  | INTERFACE_BEGIN "'v interface_info"
  | INTERFACE_END cstr

type_synonym ('v, 's) annotations = "uint64 \<rightharpoonup> ('v, 's) spec_annotation"

definition SPEC_ANALYSIS :: uint64 where
  "SPEC_ANALYSIS = 1"

definition addInterfaceFunctions ::
  "cstr \<Rightarrow> ('v, 's) state_functions \<Rightarrow> ('v, 's) anno_init \<Rightarrow> ('v, 's) anno_init" where
  "addInterfaceFunctions name funcs i = i\<lparr>ai_funcMap := (ai_funcMap i)(name \<mapsto> funcs)\<rparr>"

text \<open>The pointer \<open>f->function\<close>; it may be null, and \<open>f\<close> must not be.\<close>

definition function_of :: "'f named_function option \<Rightarrow> 'f option option" where
  "function_of f = map_option nf_function f"

definition isRightRule :: "'v commutativity_rule \<Rightarrow> 'v method_call \<Rightarrow> 'v method_call \<Rightarrow> bool" where
  "isRightRule r m1 m2 \<longleftrightarrow> (call_name m1 = method1 r \<and> call_name m2 = method2 r)
     \<or> (call_name m1 = method2 r \<and> call_name m2 = method1 r)"

definition checkCondition ::
  "'v call_graph \<Rightarrow> 'v commutativity_rule \<Rightarrow> mref \<Rightarrow> mref \<Rightarrow> bool option" where
  "checkCondition cs r m1 m2 = do {
     c1 \<leftarrow> cs m1;
     c2 \<leftarrow> cs m2;
     if call_name c1 = method1 r \<and> call_name c2 = method2 r then Some (rule_condition r cs m1 m2)
     else if call_name c1 = method2 r \<and> call_name c2 = method1 r then Some (rule_condition r cs m2 m1)
     else None
   }"

text \<open>The functions an instrumented program calls; \<open>place\<close> says where an annotation is allocated.\<close>

definition createInterfaceBeginAnnotation ::
  "(('v, 's) spec_annotation \<Rightarrow> uint64) \<Rightarrow> cstr \<Rightarrow> user_prog \<Rightarrow> user_prog" where
  "createInterfaceBeginAnnotation place name k = cdsannotate SPEC_ANALYSIS
     (place (INTERFACE_BEGIN \<lparr>info_name = name, info_value = None\<rparr>)) k"
definition setInterfaceBeginAnnotationValue :: "'v option \<Rightarrow> 'v interface_info \<Rightarrow> 'v interface_info" where
  "setInterfaceBeginAnnotationValue v info = info\<lparr>info_value := v\<rparr>"
definition createInterfaceEndAnnotation ::
  "(('v, 's) spec_annotation \<Rightarrow> uint64) \<Rightarrow> cstr \<Rightarrow> user_prog \<Rightarrow> user_prog" where
  "createInterfaceEndAnnotation place name k = cdsannotate SPEC_ANALYSIS (place (INTERFACE_END name)) k"
definition createOPDefineAnnotation ::
  "(('v, 's) spec_annotation \<Rightarrow> uint64) \<Rightarrow> user_prog \<Rightarrow> user_prog" where
  "createOPDefineAnnotation place k = cdsannotate SPEC_ANALYSIS (place OP_DEFINE) k"
definition createPotentialOPAnnotation ::
  "(('v, 's) spec_annotation \<Rightarrow> uint64) \<Rightarrow> cstr \<Rightarrow> user_prog \<Rightarrow> user_prog" where
  "createPotentialOPAnnotation place label k = cdsannotate SPEC_ANALYSIS (place (POTENTIAL_OP label)) k"
definition createOPCheckAnnotation ::
  "(('v, 's) spec_annotation \<Rightarrow> uint64) \<Rightarrow> cstr \<Rightarrow> user_prog \<Rightarrow> user_prog" where
  "createOPCheckAnnotation place label k = cdsannotate SPEC_ANALYSIS (place (OP_CHECK label)) k"
definition createOPClearAnnotation ::
  "(('v, 's) spec_annotation \<Rightarrow> uint64) \<Rightarrow> user_prog \<Rightarrow> user_prog" where
  "createOPClearAnnotation place k = cdsannotate SPEC_ANALYSIS (place OP_CLEAR) k"
definition createOPClearDefineAnnotation ::
  "(('v, 's) spec_annotation \<Rightarrow> uint64) \<Rightarrow> user_prog \<Rightarrow> user_prog" where
  "createOPClearDefineAnnotation place k = cdsannotate SPEC_ANALYSIS (place OP_CLEAR_DEFINE) k"

section \<open>Method calls\<close>

definition METHOD_ID_MAX :: "32 word" where "METHOD_ID_MAX = 0xffffffff"
definition METHOD_ID_MIN :: "32 word" where "METHOD_ID_MIN = 0"

text \<open>The constructor; a call that is not one of the two fake ones needs its begin action.\<close>

definition MethodCall_new ::
  "exec \<Rightarrow> cstr \<Rightarrow> 'v option \<Rightarrow> aid option \<Rightarrow> 'v method_call option" where
  "MethodCall_new e name val begin =
     (let m = (\<lambda>i t b. \<lparr>call_id = i, call_tid = t, call_name = name, call_value = val, prev_set = [],
                 next_set = [], concurrent = [], justifiedMethod = None, call_begin = b,
                 orderingPoints = [], allPrev = [], allNext = []\<rparr>)
      in case name of
           GRAPH_START \<Rightarrow> Some (m METHOD_ID_MIN 1 None)
         | GRAPH_FINISH \<Rightarrow> Some (m METHOD_ID_MAX 1 None)
         | Cstr _ \<Rightarrow> (case begin of
               None \<Rightarrow> None
             | Some b \<Rightarrow> Some (m (seq_number (A e b)) (tid (A e b)) (Some b))))"

definition belong :: "'b list \<Rightarrow> 'b \<Rightarrow> bool" where
  "belong s m \<longleftrightarrow> List.member s m"

definition set_insert :: "'b \<Rightarrow> 'b list \<Rightarrow> 'b list" where
  "set_insert m s = (if belong s m then s else s @ [m])"

definition addOrderingPoint :: "aid \<Rightarrow> aid list \<Rightarrow> aid list" where
  "addOrderingPoint act ops = (if \<not> List.member ops act then ops @ [act] else ops)"

definition identical :: "mref list \<Rightarrow> mref list \<Rightarrow> bool" where
  "identical s1 s2 \<longleftrightarrow> length s1 = length s2 \<and> list_all (\<lambda>m. \<not> belong s2 m) s1"

definition Union_sets :: "mref list \<Rightarrow> mref list \<Rightarrow> mref list" where
  "Union_sets dest src = fold set_insert src dest"

definition intersection :: "mref list \<Rightarrow> mref list \<Rightarrow> mref list" where
  "intersection s1 s2 = filter (belong s2) s1"

definition disjoint :: "mref list \<Rightarrow> mref list \<Rightarrow> bool" where
  "disjoint s1 s2 \<longleftrightarrow> list_all (\<lambda>m. \<not> belong s2 m) s1"

section \<open>The graph\<close>

record ('v, 's) spec_graph =
  calls :: "'v call_graph"
  next_call :: mref
  threadLists :: "aid list option list"
  methodList :: "mref list"
  randomHistory :: "mref list option"
  broken :: bool
  noOrderingPoint :: bool
  gr_cyclic :: bool
  allowCyclic :: bool
  gr_spec :: "('v, 's) anno_init option"
  exist :: "mref \<Rightarrow> bool"
  justified :: "mref \<Rightarrow> bool"
  call_state :: "mref \<Rightarrow> 's option"
  draws :: nat

text \<open>The state pointers of the calls hold what the memory held (\<open>junk\<close>).\<close>

definition ExecutionGraph_new :: "(mref \<Rightarrow> 's option) \<Rightarrow> bool \<Rightarrow> ('v, 's) spec_graph" where
  "ExecutionGraph_new junk allow =
     \<lparr>calls = Map.empty, next_call = 0, threadLists = [], methodList = [], randomHistory = None,
      broken = False, noOrderingPoint = False, gr_cyclic = False, allowCyclic = allow,
      gr_spec = None, exist = (\<lambda>_. True), justified = (\<lambda>_. False), call_state = junk, draws = 0\<rparr>"

definition call_of :: "('v, 's) spec_graph \<Rightarrow> mref \<Rightarrow> 'v method_call" where
  "call_of g m = the (calls g m)"

definition upd_call ::
  "mref \<Rightarrow> ('v method_call \<Rightarrow> 'v method_call) \<Rightarrow> ('v, 's) spec_graph \<Rightarrow> ('v, 's) spec_graph" where
  "upd_call m f g = g\<lparr>calls := (calls g)(m \<mapsto> f (call_of g m))\<rparr>"

definition new_call :: "'v method_call \<Rightarrow> ('v, 's) spec_graph \<Rightarrow> mref \<times> ('v, 's) spec_graph" where
  "new_call c g = (next_call g,
     g\<lparr>calls := (calls g)(next_call g \<mapsto> c), next_call := next_call g + 1\<rparr>)"

definition isStartMethod :: "('v, 's) spec_graph \<Rightarrow> mref \<Rightarrow> bool" where
  "isStartMethod g m \<longleftrightarrow> call_name (call_of g m) = GRAPH_START"
definition isFinishMethod :: "('v, 's) spec_graph \<Rightarrow> mref \<Rightarrow> bool" where
  "isFinishMethod g m \<longleftrightarrow> call_name (call_of g m) = GRAPH_FINISH"
definition isFakeMethod :: "('v, 's) spec_graph \<Rightarrow> mref \<Rightarrow> bool" where
  "isFakeMethod g m \<longleftrightarrow> isStartMethod g m \<or> isFinishMethod g m"

definition addPrev :: "mref \<Rightarrow> mref \<Rightarrow> ('v, 's) spec_graph \<Rightarrow> ('v, 's) spec_graph" where
  "addPrev this m g = upd_call this (\<lambda>c. c\<lparr>prev_set := set_insert m (prev_set c)\<rparr>) g"
definition addNext :: "mref \<Rightarrow> mref \<Rightarrow> ('v, 's) spec_graph \<Rightarrow> ('v, 's) spec_graph" where
  "addNext this m g = upd_call this (\<lambda>c. c\<lparr>next_set := set_insert m (next_set c)\<rparr>) g"
definition addConcurrent :: "mref \<Rightarrow> mref \<Rightarrow> ('v, 's) spec_graph \<Rightarrow> ('v, 's) spec_graph" where
  "addConcurrent this m g = upd_call this (\<lambda>c. c\<lparr>concurrent := set_insert m (concurrent c)\<rparr>) g"
definition before_method :: "('v, 's) spec_graph \<Rightarrow> mref \<Rightarrow> mref \<Rightarrow> bool" where
  "before_method g this another \<longleftrightarrow> belong (allNext (call_of g this)) another"

definition isBroken :: "('v, 's) spec_graph \<Rightarrow> bool" where "isBroken g = broken g"
definition isNoOrderingPoint :: "('v, 's) spec_graph \<Rightarrow> bool" where
  "isNoOrderingPoint g = noOrderingPoint g"
definition resetBroken :: "('v, 's) spec_graph \<Rightarrow> ('v, 's) spec_graph" where
  "resetBroken g = g\<lparr>broken := False\<rparr>"

section \<open>The nodes\<close>

definition getAnnotation ::
  "('v, 's) annotations \<Rightarrow> model_action \<Rightarrow> ('v, 's) spec_annotation option option" where
  "getAnnotation mem act =
     (if act_type act \<noteq> ATOMIC_ANNOTATION then Some None
      else if act_value act \<noteq> SPEC_ANALYSIS then Some None
      else map_option Some (mem (location act)))"

definition thread_list_step ::
  "exec \<Rightarrow> aid \<Rightarrow> nat \<times> aid list option list \<Rightarrow> (nat \<times> aid list option list) option" where
  "thread_list_step e act = (\<lambda>(maxthreads, lists).
     let threadid = tid (A e act) in
     if threadid = 0 then Some (maxthreads, lists)
     else let (m, ls) = (if threadid > maxthreads then (threadid, vec_resize lists (threadid + 1) None)
                         else (maxthreads, lists))
          in if threadid < length ls
             then Some (m, ls[threadid := Some ((case ls ! threadid of None \<Rightarrow> [] | Some l \<Rightarrow> l) @ [act])])
             else None)"

definition buildThreadLists ::
  "exec \<Rightarrow> aid list \<Rightarrow> ('v, 's) spec_graph \<Rightarrow> ('v, 's) spec_graph option" where
  "buildThreadLists e actions g = do {
     (_, ls) \<leftarrow> fold_opt (thread_list_step e) actions (0, threadLists g);
     Some (g\<lparr>threadLists := ls\<rparr>)
   }"

text \<open>Lists with an iterator: what is behind it, last first, and what is ahead.\<close>

definition findPrevAction :: "exec \<Rightarrow> aid list \<Rightarrow> aid option" where
  "findPrevAction e behind = find (\<lambda>res. act_type (A e res) \<noteq> ATOMIC_ANNOTATION) behind"

text \<open>
  The loop of \<open>extractMethod\<close>: nesting, potential ordering points, ordering points. The inner
  \<open>None\<close> of the result is a broken annotation; otherwise the ordering points and the iterator.
\<close>

fun extract_loop ::
  "('v, 's) annotations \<Rightarrow> exec \<Rightarrow> nat \<Rightarrow> (cstr \<times> aid) list \<Rightarrow> aid list \<Rightarrow> aid list \<Rightarrow> aid list
     \<Rightarrow> (aid list \<times> aid list \<times> aid list) option option" where
  "extract_loop mem e nestedLevel popList ops behind [] = Some (Some (ops, behind, []))"
| "extract_loop mem e nestedLevel popList ops behind (act # ahead) = do {
     anno \<leftarrow> getAnnotation mem (A e act);
     case anno of
       None \<Rightarrow> extract_loop mem e nestedLevel popList ops (act # behind) ahead
     | Some (POTENTIAL_OP label) \<Rightarrow> (case findPrevAction e behind of
           None \<Rightarrow> Some None
         | Some oper \<Rightarrow>
             extract_loop mem e nestedLevel (popList @ [(label, oper)]) ops (act # behind) ahead)
     | Some (OP_CHECK label) \<Rightarrow> (case find (\<lambda>pop. fst pop = label) (rev popList) of
           None \<Rightarrow> Some None
         | Some (_, oper) \<Rightarrow>
             extract_loop mem e nestedLevel popList (addOrderingPoint oper ops) (act # behind) ahead)
     | Some OP_DEFINE \<Rightarrow> (case findPrevAction e behind of
           None \<Rightarrow> Some None
         | Some oper \<Rightarrow>
             extract_loop mem e nestedLevel popList (addOrderingPoint oper ops) (act # behind) ahead)
     | Some OP_CLEAR \<Rightarrow> extract_loop mem e nestedLevel [] [] (act # behind) ahead
     | Some OP_CLEAR_DEFINE \<Rightarrow> (case findPrevAction e behind of
           None \<Rightarrow> Some None
         | Some oper \<Rightarrow>
             extract_loop mem e nestedLevel [] (addOrderingPoint oper []) (act # behind) ahead)
     | Some (INTERFACE_BEGIN _) \<Rightarrow>
         extract_loop mem e (nestedLevel + 1) popList ops (act # behind) ahead
     | Some (INTERFACE_END _) \<Rightarrow>
         (if nestedLevel = 0 then Some (Some (ops, act # behind, ahead))
          else extract_loop mem e (nestedLevel - 1) popList ops (act # behind) ahead)
     | Some (INIT _) \<Rightarrow> None
   }"

lemma extract_loop_shorter:
  "extract_loop mem e n pops ops behind ahead = Some (Some (ops', behind', ahead'))
     \<Longrightarrow> length ahead' \<le> length ahead"
proof (induction ahead arbitrary: n pops ops behind)
  case Nil
  then show ?case by simp
next
  case (Cons a ahead)
  from Cons.prems show ?case
    by (auto split: bind_splits option.splits spec_annotation.splits if_splits
        dest!: Cons.IH intro: le_SucI)
qed

definition extractMethod ::
  "('v, 's) annotations \<Rightarrow> exec \<Rightarrow> 'v interface_info \<Rightarrow> aid \<Rightarrow> aid list \<Rightarrow> aid list
     \<Rightarrow> ('v, 's) spec_graph \<Rightarrow> ((mref \<times> aid list \<times> aid list) option \<times> ('v, 's) spec_graph) option" where
  "extractMethod mem e info act behind ahead g = do {
     c \<leftarrow> MethodCall_new e (info_name info) (info_value info) (Some act);
     r \<leftarrow> extract_loop mem e 0 [] [] (act # behind) ahead;
     case r of
       None \<Rightarrow> Some (None, (snd (new_call c g))\<lparr>broken := True\<rparr>)
     | Some (ops, behind, ahead) \<Rightarrow>
         let (m, g) = new_call (c\<lparr>orderingPoints := ops\<rparr>) g
         in Some (Some (m, behind, ahead), if ops = [] then g\<lparr>noOrderingPoint := True\<rparr> else g)
   }"

function buildNodesFromThread ::
  "('v, 's) annotations \<Rightarrow> exec \<Rightarrow> aid list \<Rightarrow> aid list \<Rightarrow> ('v, 's) spec_graph
     \<Rightarrow> ('v, 's) spec_graph option" where
  "buildNodesFromThread mem e behind [] g = Some g"
| "buildNodesFromThread mem e behind (act # ahead) g =
     (case getAnnotation mem (A e act) of
        None \<Rightarrow> None
      | Some None \<Rightarrow> buildNodesFromThread mem e (act # behind) ahead g
      | Some (Some (INTERFACE_BEGIN info)) \<Rightarrow>
          (case extractMethod mem e info act behind ahead g of
             None \<Rightarrow> None
           | Some (None, g) \<Rightarrow> Some (g\<lparr>broken := True\<rparr>)
           | Some (Some (m, behind, ahead), g) \<Rightarrow>
               buildNodesFromThread mem e behind ahead (g\<lparr>methodList := methodList g @ [m]\<rparr>))
      | Some (Some (INIT _)) \<Rightarrow> buildNodesFromThread mem e (act # behind) ahead g
      | Some (Some _) \<Rightarrow> Some (g\<lparr>broken := True\<rparr>))"
  by pat_completeness auto
termination
  by (relation "measure (\<lambda>(mem, e, behind, ahead, g). length ahead)")
    (auto simp: extractMethod_def Let_def new_call_def split: bind_splits option.splits prod.splits
      dest!: extract_loop_shorter)

fun buildNodesFromThreads ::
  "('v, 's) annotations \<Rightarrow> exec \<Rightarrow> aid list option list \<Rightarrow> ('v, 's) spec_graph
     \<Rightarrow> ('v, 's) spec_graph option" where
  "buildNodesFromThreads mem e [] g = Some g"
| "buildNodesFromThreads mem e (None # ls) g = None"
| "buildNodesFromThreads mem e (Some l # ls) g = do {
     g \<leftarrow> buildNodesFromThread mem e [] l g;
     if broken g then Some g else buildNodesFromThreads mem e ls g
   }"

section \<open>The edges\<close>

definition SELF_CYCLE :: int where "SELF_CYCLE = 0xfffe"

definition conflict_actions :: "exec \<Rightarrow> aid \<Rightarrow> aid \<Rightarrow> int" where
  "conflict_actions e act1 act2 =
     (if happens e act1 act2 then 1
      else if happens e act2 act1 then - 1
      else if is_seqcst (A e act1) \<and> is_seqcst (A e act2)
      then (if seq_number (A e act1) < seq_number (A e act2) then 1 else - 1)
      else 0)"

text \<open>The loop over the pairs of ordering points; it stops when two of them disagree.\<close>

fun conflict_loop :: "int list \<Rightarrow> int \<Rightarrow> int" where
  "conflict_loop [] val = val"
| "conflict_loop (res # rest) val =
     (if res = 0 then conflict_loop rest val
      else if val = 0 then conflict_loop rest res
      else if val \<noteq> res then SELF_CYCLE
      else conflict_loop rest val)"

definition conflict_value :: "exec \<Rightarrow> 'v method_call \<Rightarrow> 'v method_call \<Rightarrow> int" where
  "conflict_value e m1 m2 =
     (if call_name m1 = GRAPH_START then 1
      else if call_name m2 = GRAPH_FINISH then 1
      else if orderingPoints m1 = [] \<or> orderingPoints m2 = [] then 0
      else conflict_loop (map (\<lambda>(a, b). conflict_actions e a b)
             (List.product (orderingPoints m1) (orderingPoints m2))) 0)"

definition conflict ::
  "exec \<Rightarrow> mref \<Rightarrow> mref \<Rightarrow> ('v, 's) spec_graph \<Rightarrow> (int \<times> ('v, 's) spec_graph) option" where
  "conflict e m1 m2 g =
     (if m1 = m2 then None
      else let val = conflict_value e (call_of g m1) (call_of g m2)
           in Some (val, if val = SELF_CYCLE
                         then g\<lparr>gr_cyclic := True, broken := broken g \<or> \<not> allowCyclic g\<rparr> else g))"

definition isReachable :: "('v, 's) spec_graph \<Rightarrow> mref \<Rightarrow> mref \<Rightarrow> bool" where
  "isReachable g m1 m2 \<longleftrightarrow> belong (allNext (call_of g m1)) m2"

definition add_order :: "mref \<Rightarrow> mref \<Rightarrow> ('v, 's) spec_graph \<Rightarrow> ('v, 's) spec_graph" where
  "add_order m1 m2 g = upd_call m2 (\<lambda>c. c\<lparr>allPrev := set_insert m1 (allPrev c)\<rparr>)
     (upd_call m1 (\<lambda>c. c\<lparr>allNext := set_insert m2 (allNext c)\<rparr>) g)"

fun later_pairs :: "'b list \<Rightarrow> ('b \<times> 'b) list" where
  "later_pairs [] = []"
| "later_pairs (x # xs) = map (Pair x) xs @ later_pairs xs"

definition edge_step ::
  "exec \<Rightarrow> mref \<times> mref \<Rightarrow> ('v, 's) spec_graph \<Rightarrow> ('v, 's) spec_graph option" where
  "edge_step e = (\<lambda>(m1, m2) g. do {
     (val, g) \<leftarrow> conflict e m1 m2 g;
     Some (if val = 1 then add_order m1 m2 g
           else if val = - 1 then add_order m2 m1 g
           else if val = SELF_CYCLE \<and> allowCyclic g then add_order m2 m1 (add_order m1 m2 g)
           else g)
   })"

text \<open>The two fake nodes, before and after every other.\<close>

definition add_fake_nodes :: "exec \<Rightarrow> ('v, 's) spec_graph \<Rightarrow> ('v, 's) spec_graph option" where
  "add_fake_nodes e g0 = do {
     cs \<leftarrow> MethodCall_new e GRAPH_START None None;
     cf \<leftarrow> MethodCall_new e GRAPH_FINISH None None;
     let (start, g1) = new_call cs g0;
     let (finish, g2) = new_call cf g1;
     let g3 = add_order start finish g2;
     let g4 = fold (\<lambda>m g. add_order m finish (add_order start m g)) (methodList g3) g3;
     Some (g4\<lparr>methodList := start # methodList g4 @ [finish]\<rparr>)
   }"

definition link_prev :: "mref \<Rightarrow> mref \<Rightarrow> ('v, 's) spec_graph \<Rightarrow> ('v, 's) spec_graph" where
  "link_prev m prevMethod g =
     (if disjoint (allPrev (call_of g m)) (allNext (call_of g prevMethod))
      then upd_call prevMethod (\<lambda>c. c\<lparr>next_set := set_insert m (next_set c)\<rparr>)
             (upd_call m (\<lambda>c. c\<lparr>prev_set := set_insert prevMethod (prev_set c)\<rparr>) g)
      else g)"

definition add_concurrent :: "mref \<Rightarrow> mref \<Rightarrow> ('v, 's) spec_graph \<Rightarrow> ('v, 's) spec_graph" where
  "add_concurrent m concur g =
     (if concur \<noteq> m \<and> \<not> belong (allPrev (call_of g m)) concur
          \<and> \<not> belong (allNext (call_of g m)) concur
      then upd_call m (\<lambda>c. c\<lparr>concurrent := set_insert concur (concurrent c)\<rparr>) g else g)"

definition link_node :: "mref \<Rightarrow> ('v, 's) spec_graph \<Rightarrow> ('v, 's) spec_graph" where
  "link_node m g =
     fold (add_concurrent m) (methodList g) (fold (link_prev m) (allPrev (call_of g m)) g)"

section \<open>The assertions on the edges\<close>

definition assert_conflict ::
  "exec \<Rightarrow> (int \<Rightarrow> bool) \<Rightarrow> mref \<Rightarrow> mref \<Rightarrow> ('v, 's) spec_graph \<Rightarrow> ('v, 's) spec_graph option" where
  "assert_conflict e P m1 m2 g = do {
     (val, g) \<leftarrow> conflict e m1 m2 g;
     if P val then Some g else None
   }"

definition assert_that :: "bool \<Rightarrow> ('v, 's) spec_graph \<Rightarrow> ('v, 's) spec_graph option" where
  "assert_that b g = (if b then Some g else None)"

text \<open>Whether one of the nodes, other than \<open>m\<close>, lies between: \<open>order middle\<close> is the pair to compare.\<close>

definition has_middle ::
  "exec \<Rightarrow> (mref \<Rightarrow> mref \<times> mref) \<Rightarrow> mref \<Rightarrow> mref list \<Rightarrow> ('v, 's) spec_graph
     \<Rightarrow> (bool \<times> ('v, 's) spec_graph) option" where
  "has_middle e order_of m middles g = fold_opt (\<lambda>middle (hasMiddle, g).
       if middle = m then Some (hasMiddle, g)
       else do {
         (val, g) \<leftarrow> conflict e (fst (order_of middle)) (snd (order_of middle)) g;
         Some (hasMiddle \<or> val = 1, g)
       }) middles (False, g)"

definition assert_node :: "exec \<Rightarrow> mref \<Rightarrow> ('v, 's) spec_graph \<Rightarrow> ('v, 's) spec_graph option" where
  "assert_node e m g = do {
     let c = call_of g m;
     g \<leftarrow> fold_opt (\<lambda>prevMethod. assert_conflict e (\<lambda>val. val = 1) prevMethod m) (allPrev c) g;
     g \<leftarrow> fold_opt (\<lambda>nextMethod. assert_conflict e (\<lambda>val. val = 1) m nextMethod) (allNext c) g;
     g \<leftarrow> fold_opt (\<lambda>concur. assert_conflict e (\<lambda>val. val = 0) m concur) (concurrent c) g;
     g \<leftarrow> assert_that (1 + length (allPrev c) + length (allNext c) + length (concurrent c)
            = length (methodList g)) g;
     g \<leftarrow> fold_opt (\<lambda>prev g. do {
            g \<leftarrow> assert_that (belong (allPrev c) prev) g;
            fold_opt (\<lambda>middle g. if middle = prev then Some g
                else assert_conflict e (\<lambda>val. val \<noteq> 1) prev middle g) (allPrev c) g
          }) (prev_set c) g;
     g \<leftarrow> fold_opt (\<lambda>prev g. if belong (prev_set c) prev then Some g
            else do {
              (hasMiddle, g) \<leftarrow> has_middle e (\<lambda>middle. (prev, middle)) prev (allPrev c) g;
              assert_that hasMiddle g
            }) (allPrev c) g;
     g \<leftarrow> fold_opt (\<lambda>nxt g. do {
            g \<leftarrow> assert_that (belong (allNext c) nxt) g;
            fold_opt (\<lambda>middle g. if middle = nxt then Some g
                else assert_conflict e (\<lambda>val. val \<noteq> 1) middle nxt g) (allNext c) g
          }) (next_set c) g;
     fold_opt (\<lambda>nxt g. if belong (next_set c) nxt then Some g
            else do {
              (hasMiddle, g) \<leftarrow> has_middle e (\<lambda>middle. (middle, nxt)) nxt (allNext c) g;
              assert_that hasMiddle g
            }) (allNext c) g
   }"

definition AssertEdges :: "exec \<Rightarrow> ('v, 's) spec_graph \<Rightarrow> ('v, 's) spec_graph option" where
  "AssertEdges e g = do {
     g \<leftarrow> assert_that (\<not> gr_cyclic g) g;
     fold_opt (assert_node e) (methodList g) g
   }"

section \<open>Justified nodes\<close>

text \<open>
  The walk from a node up to its justified node. Sets are ordered by the addresses of their
  elements; \<open>first\<close> gives the one at the lowest address.
\<close>

partial_function (option) justify_walk ::
  "(mref list \<Rightarrow> mref) \<Rightarrow> ('v, 's) spec_graph \<Rightarrow> mref \<Rightarrow> mref \<Rightarrow> mref option" where
  "justify_walk first g m justif = do {
     let prev = prev_set (call_of g justif);
     if prev = [] then None
     else let j = first prev
          in if disjoint (concurrent (call_of g j)) (allPrev (call_of g m)) then Some j
             else justify_walk first g m j
   }"

definition justify_node ::
  "(mref list \<Rightarrow> mref) \<Rightarrow> mref \<Rightarrow> ('v, 's) spec_graph \<Rightarrow> ('v, 's) spec_graph option" where
  "justify_node first m g = do {
     j \<leftarrow> justify_walk first g m m;
     if j = m then None
     else Some ((upd_call m (\<lambda>c. c\<lparr>justifiedMethod := Some j\<rparr>) g)
                  \<lparr>justified := (justified g)(m := False)\<rparr>)
   }"

definition initializeJustifiedNode ::
  "(mref list \<Rightarrow> mref) \<Rightarrow> ('v, 's) spec_graph \<Rightarrow> ('v, 's) spec_graph option" where
  "initializeJustifiedNode first g = fold_opt (justify_node first) (tl (methodList g)) g"

definition buildEdges ::
  "(mref list \<Rightarrow> mref) \<Rightarrow> exec \<Rightarrow> ('v, 's) spec_graph \<Rightarrow> ('v, 's) spec_graph option" where
  "buildEdges first e g = do {
     g \<leftarrow> fold_opt (edge_step e) (later_pairs (methodList g)) g;
     g \<leftarrow> add_fake_nodes e g;
     let g = fold link_node (methodList g) g;
     g \<leftarrow> (if \<not> gr_cyclic g then AssertEdges e g else Some g);
     if \<not> gr_cyclic g then initializeJustifiedNode first g else Some g
   }"

section \<open>The whole graph\<close>

text \<open>Every function of the initialization annotation must be there and of its type.\<close>

definition processInitAnnotation ::
  "('v, 's) anno_init \<Rightarrow> ('v, 's) spec_graph \<Rightarrow> ('v, 's) spec_graph option" where
  "processInitAnnotation i g = do {
     f \<leftarrow> ai_initial i;
     c \<leftarrow> ai_final i;
     y \<leftarrow> ai_copy i;
     d \<leftarrow> ai_clear i;
     p \<leftarrow> ai_printState i;
     if nf_type f = INITIAL \<and> nf_type c = FINAL \<and> nf_type y = COPY \<and> nf_type d = CLEAR
         \<and> nf_type p = PRINT_STATE
     then Some (g\<lparr>gr_spec := Some i\<rparr>) else None
   }"

fun first_init ::
  "('v, 's) annotations \<Rightarrow> exec \<Rightarrow> aid list \<Rightarrow> ('v, 's) anno_init option option" where
  "first_init mem e [] = Some None"
| "first_init mem e (act # rest) = do {
     anno \<leftarrow> getAnnotation mem (A e act);
     case anno of Some (INIT i) \<Rightarrow> Some (Some i) | _ \<Rightarrow> first_init mem e rest
   }"

definition buildGraph ::
  "(mref list \<Rightarrow> mref) \<Rightarrow> ('v, 's) annotations \<Rightarrow> exec \<Rightarrow> aid list \<Rightarrow> ('v, 's) spec_graph
     \<Rightarrow> ('v, 's) spec_graph option" where
  "buildGraph first mem e actions g = do {
     g \<leftarrow> buildThreadLists e actions g;
     i \<leftarrow> first_init mem e actions;
     case i of
       None \<Rightarrow> Some (g\<lparr>broken := True\<rparr>)
     | Some annoInit \<Rightarrow> do {
         g \<leftarrow> processInitAnnotation annoInit g;
         g \<leftarrow> buildNodesFromThreads mem e (tl (threadLists g)) g;
         buildEdges first e g
       }
   }"

end
