(* ===== verification/SpecCheck.thy ===== *)
theory SpecCheck
  imports SpecGraph CString
begin

text \<open>
  The checks of \<open>executiongraph.cc\<close> and the plugin \<open>specanalysis.cc\<close>: admissibility (calls that
  are not ordered commute), acyclicity by generating one history, and the sequential
  specification on every history (topological order of the graph) or on a few random ones. A
  call with a justifying condition must besides be justified in some history by the calls
  ordered before it.

  Histories are generated on the graph itself: a call that has been taken no longer exists.
  \<open>rnd\<close> gives the numbers \<open>rand\<close> returns. Printing is left out.
\<close>

section \<open>Admissibility\<close>

text \<open>The rules for a pair of calls, up to the first that wants them ordered.\<close>

fun commute_rules ::
  "'v call_graph \<Rightarrow> 'v commutativity_rule list \<Rightarrow> mref \<Rightarrow> mref \<Rightarrow> bool option" where
  "commute_rules cs [] m1 m2 = Some True"
| "commute_rules cs (rule # rest) m1 m2 = do {
     c1 \<leftarrow> cs m1;
     c2 \<leftarrow> cs m2;
     if \<not> isRightRule rule c1 c2 then commute_rules cs rest m1 m2
     else do {
       commute \<leftarrow> checkCondition cs rule m1 m2;
       if \<not> commute then Some False else commute_rules cs rest m1 m2
     }
   }"

definition pair_admissible :: "('v, 's) spec_graph \<Rightarrow> mref \<times> mref \<Rightarrow> bool option" where
  "pair_admissible g = (\<lambda>(m1, m2).
     if isReachable g m1 m2 \<or> isReachable g m2 m1 then Some True
     else do {
       i \<leftarrow> gr_spec g;
       if ai_commuteRuleNum i \<le> length (ai_commuteRules i)
       then commute_rules (calls g) (take (ai_commuteRuleNum i) (ai_commuteRules i)) m1 m2
       else None
     })"

definition checkAdmissibility :: "('v, 's) spec_graph \<Rightarrow> bool option" where
  "checkAdmissibility g = fold_opt (\<lambda>p admissible. do {
       b \<leftarrow> pair_admissible g p;
       Some (admissible \<and> b)
     }) (later_pairs (methodList g)) True"

section \<open>Roots and random histories\<close>

definition getRootNodes :: "('v, 's) spec_graph \<Rightarrow> mref list" where
  "getRootNodes g = filter (\<lambda>m. exist g m \<and> list_all (\<lambda>prev. \<not> exist g prev) (allPrev (call_of g m)))
     (methodList g)"

definition getEndNodes :: "('v, 's) spec_graph \<Rightarrow> mref list" where
  "getEndNodes g = filter (\<lambda>m. next_set (call_of g m) = []) (methodList g)"

definition getStartMethod :: "('v, 's) spec_graph \<Rightarrow> mref" where
  "getStartMethod g = hd (methodList g)"
definition getFinishMethod :: "('v, 's) spec_graph \<Rightarrow> mref" where
  "getFinishMethod g = last (methodList g)"

definition set_exist :: "mref \<Rightarrow> bool \<Rightarrow> ('v, 's) spec_graph \<Rightarrow> ('v, 's) spec_graph" where
  "set_exist m b g = g\<lparr>exist := (exist g)(m := b)\<rparr>"

fun random_history ::
  "(nat \<Rightarrow> nat) \<Rightarrow> nat \<Rightarrow> mref list \<Rightarrow> ('v, 's) spec_graph \<Rightarrow> mref list \<times> ('v, 's) spec_graph" where
  "random_history rnd 0 curList g = (curList, g)"
| "random_history rnd (Suc numLiveNodes) curList g =
     (if gr_cyclic g then (curList, g)
      else let roots = getRootNodes g
           in if roots = [] then (curList, g\<lparr>gr_cyclic := True\<rparr>)
              else let m = roots ! (rnd (draws g) mod length roots)
                   in random_history rnd numLiveNodes (curList @ [m])
                        (set_exist m False (g\<lparr>draws := draws g + 1\<rparr>)))"

definition generateOneRandomHistory ::
  "(nat \<Rightarrow> nat) \<Rightarrow> ('v, 's) spec_graph \<Rightarrow> mref list option \<times> ('v, 's) spec_graph" where
  "generateOneRandomHistory rnd g =
     (let (res, g) = random_history rnd (length (methodList g)) [] g
      in if gr_cyclic g then (None, g)
         else (Some res, g\<lparr>exist := (\<lambda>m. m \<in> set (methodList g) \<or> exist g m)\<rparr>))"

definition hasCycle :: "(nat \<Rightarrow> nat) \<Rightarrow> ('v, 's) spec_graph \<Rightarrow> bool \<times> ('v, 's) spec_graph" where
  "hasCycle rnd g =
     (if gr_cyclic g then (True, g)
      else if randomHistory g \<noteq> None then (False, g)
      else let (h, g) = generateOneRandomHistory rnd g
           in (gr_cyclic g, g\<lparr>randomHistory := h\<rparr>))"

section \<open>The sequential specification\<close>

text \<open>Calling the functions of the specification: a null function is skipped only where the code tests it.\<close>

definition funcs_of :: "('v, 's) spec_graph \<Rightarrow> mref \<Rightarrow> ('v, 's) state_functions option" where
  "funcs_of g m = do { i \<leftarrow> gr_spec g; ai_funcMap i (call_name (call_of g m)) }"

definition run_update ::
  "('v, 's) update_state named_function option \<Rightarrow> mref \<Rightarrow> ('v, 's) spec_graph
     \<Rightarrow> ('v, 's) spec_graph option" where
  "run_update nf m g = do {
     f \<leftarrow> function_of nf;
     h \<leftarrow> f;
     Some (g\<lparr>call_state := (call_state g)(m := h (calls g) m (call_state g m))\<rparr>)
   }"

definition run_transition ::
  "('v, 's) state_transition named_function option \<Rightarrow> mref \<Rightarrow> mref \<Rightarrow> ('v, 's) spec_graph
     \<Rightarrow> (bool \<times> ('v, 's) spec_graph) option" where
  "run_transition nf target m g = do {
     f \<leftarrow> function_of nf;
     h \<leftarrow> f;
     let (ok, st) = h (calls g) target (call_state g target) m;
     Some (ok, g\<lparr>call_state := (call_state g)(target := st)\<rparr>)
   }"

definition run_check ::
  "('v, 's) check_state named_function option \<Rightarrow> mref \<Rightarrow> mref \<Rightarrow> ('v, 's) spec_graph \<Rightarrow> bool option" where
  "run_check nf target m g = do {
     f \<leftarrow> function_of nf;
     Some (case f of None \<Rightarrow> True | Some h \<Rightarrow> h (calls g) target (call_state g target) m)
   }"

definition initial_fn :: "('v, 's) spec_graph \<Rightarrow> ('v, 's) update_state named_function option" where
  "initial_fn g = Option.bind (gr_spec g) ai_initial"
definition clear_fn :: "('v, 's) spec_graph \<Rightarrow> ('v, 's) update_state named_function option" where
  "clear_fn g = Option.bind (gr_spec g) ai_clear"

definition clearStates :: "('v, 's) spec_graph \<Rightarrow> ('v, 's) spec_graph option" where
  "clearStates g = fold_opt (\<lambda>m g. if call_state g m = None then Some g else run_update (clear_fn g) m g)
     (methodList g) g"

definition spec_step ::
  "mref \<Rightarrow> mref \<Rightarrow> ('v, 's) spec_graph \<Rightarrow> (bool \<times> ('v, 's) spec_graph) option" where
  "spec_step start m g = do {
     funcs \<leftarrow> funcs_of g m;
     pre \<leftarrow> run_check (preCondition funcs) start m g;
     if \<not> pre then Some (False, g)
     else do {
       (ok, g) \<leftarrow> run_transition (transition funcs) start m g;
       if \<not> ok then Some (False, g)
       else do {
         post \<leftarrow> run_check (postCondition funcs) start m g;
         Some (post, g)
       }
     }
   }"

fun run_history ::
  "mref \<Rightarrow> mref list \<Rightarrow> ('v, 's) spec_graph \<Rightarrow> (bool \<times> ('v, 's) spec_graph) option" where
  "run_history start [] g = Some (True, g)"
| "run_history start (m # ms) g =
     (if isFakeMethod g m then run_history start ms g
      else do {
        (satisfied, g) \<leftarrow> spec_step start m g;
        if satisfied then run_history start ms g else Some (False, g)
      })"

text \<open>The transitions of the calls of the history that are ordered before \<open>cur\<close>, on its state.\<close>

fun run_subhistory ::
  "mref \<Rightarrow> mref list \<Rightarrow> ('v, 's) spec_graph \<Rightarrow> (bool \<times> ('v, 's) spec_graph) option" where
  "run_subhistory cur [] g = Some (True, g)"
| "run_subhistory cur (m # ms) g =
     (if m = cur then Some (True, g)
      else if isFakeMethod g m then run_subhistory cur ms g
      else if \<not> belong (allPrev (call_of g cur)) m then run_subhistory cur ms g
      else do {
        funcs \<leftarrow> funcs_of g m;
        (satisfied, g) \<leftarrow> run_transition (transition funcs) cur m g;
        if satisfied then run_subhistory cur ms g else Some (False, g)
      })"

text \<open>What is cleared at the end is the state of the start node, not that of \<open>cur\<close>.\<close>

definition checkJustifyingSubhistory ::
  "mref list \<Rightarrow> mref \<Rightarrow> ('v, 's) spec_graph \<Rightarrow> (bool \<times> ('v, 's) spec_graph) option" where
  "checkJustifyingSubhistory hist cur g = do {
     let start = getStartMethod g;
     g \<leftarrow> run_update (initial_fn g) cur g;
     (satisfied, g) \<leftarrow> run_subhistory cur hist g;
     (satisfied, g) \<leftarrow>
       (if \<not> satisfied then Some (False, g)
        else do {
          funcs \<leftarrow> funcs_of g cur;
          pre \<leftarrow> run_check (justifyingPrecondition funcs) cur cur g;
          if \<not> pre then Some (False, g)
          else do {
            (ok, g) \<leftarrow> run_transition (transition funcs) cur cur g;
            if \<not> ok then Some (False, g)
            else do {
              post \<leftarrow> run_check (justifyingPostcondition funcs) cur cur g;
              Some (post, g)
            }
          }
        });
     g \<leftarrow> run_update (clear_fn g) start g;
     Some (satisfied, g)
   }"

definition set_justified :: "mref \<Rightarrow> ('v, 's) spec_graph \<Rightarrow> ('v, 's) spec_graph" where
  "set_justified m g = g\<lparr>justified := (justified g)(m := True)\<rparr>"

definition justify_call ::
  "mref list \<Rightarrow> mref \<Rightarrow> ('v, 's) spec_graph \<Rightarrow> ('v, 's) spec_graph option" where
  "justify_call hist m g =
     (if isFakeMethod g m \<or> justified g m then Some g
      else do {
        funcs \<leftarrow> funcs_of g m;
        pre \<leftarrow> function_of (justifyingPrecondition funcs);
        post \<leftarrow> function_of (justifyingPostcondition funcs);
        if pre = None \<and> post = None then Some (set_justified m g)
        else do {
          (ok, g) \<leftarrow> checkJustifyingSubhistory hist m g;
          Some (if ok then set_justified m g else g)
        }
      })"

definition checkStateSpec ::
  "mref list \<Rightarrow> ('v, 's) spec_graph \<Rightarrow> (bool \<times> ('v, 's) spec_graph) option" where
  "checkStateSpec hist g = do {
     let start = getStartMethod g;
     g \<leftarrow> run_update (initial_fn g) start g;
     (satisfied, g) \<leftarrow> run_history start hist g;
     g \<leftarrow> run_update (clear_fn g) start g;
     g \<leftarrow> fold_opt (justify_call hist) hist g;
     Some (satisfied, g)
   }"

definition checkHistory ::
  "mref list \<Rightarrow> ('v, 's) spec_graph \<Rightarrow> (bool \<times> ('v, 's) spec_graph) option" where
  "checkHistory hist g = checkStateSpec hist g"

section \<open>All histories\<close>

text \<open>The loop over the roots; \<open>rec\<close> generates the rest of the histories that go on with one of them.\<close>

fun try_roots ::
  "(mref \<Rightarrow> nat \<Rightarrow> ('v, 's) spec_graph \<Rightarrow> (bool \<times> nat \<times> ('v, 's) spec_graph) option) \<Rightarrow> bool
     \<Rightarrow> mref list \<Rightarrow> bool \<Rightarrow> nat \<Rightarrow> ('v, 's) spec_graph \<Rightarrow> (bool \<times> nat \<times> ('v, 's) spec_graph) option" where
  "try_roots rec stop [] satisfied historyIndex g = Some (satisfied, historyIndex, g)"
| "try_roots rec stop (m # ms) satisfied historyIndex g = do {
     (oneSatisfied, historyIndex, g) \<leftarrow> rec m historyIndex (set_exist m False g);
     if \<not> oneSatisfied \<and> (gr_cyclic g \<or> stop) then Some (False, historyIndex, g)
     else try_roots rec stop ms (satisfied \<and> oneSatisfied) historyIndex (set_exist m True g)
   }"

fun all_histories ::
  "bool \<Rightarrow> nat \<Rightarrow> mref list \<Rightarrow> nat \<Rightarrow> ('v, 's) spec_graph \<Rightarrow> (bool \<times> nat \<times> ('v, 's) spec_graph) option" where
  "all_histories stop 0 curList historyIndex g =
     (if gr_cyclic g then Some (False, historyIndex, g)
      else do {
        (satisfied, g) \<leftarrow> checkStateSpec curList g;
        Some (satisfied, historyIndex + 1, g)
      })"
| "all_histories stop (Suc numLiveNodes) curList historyIndex g =
     (if gr_cyclic g then Some (False, historyIndex, g)
      else let roots = getRootNodes g
           in if roots = [] then Some (False, historyIndex, g\<lparr>gr_cyclic := True\<rparr>)
              else try_roots (\<lambda>m. all_histories stop numLiveNodes (curList @ [m])) stop roots True
                     historyIndex g)"

text \<open>\<open>stopOnFailure\<close> is overwritten with \<open>True\<close>.\<close>

definition checkAllHistories ::
  "bool \<Rightarrow> ('v, 's) spec_graph \<Rightarrow> (bool \<times> ('v, 's) spec_graph) option" where
  "checkAllHistories stopOnFailure g =
     (if gr_cyclic g then None
      else do {
        (pass, historyIndex, g) \<leftarrow> all_histories True (length (methodList g)) [] 1 g;
        Some (pass \<and> list_all (\<lambda>m. isFakeMethod g m \<or> justified g m) (methodList g), g)
      })"

fun random_histories ::
  "(nat \<Rightarrow> nat) \<Rightarrow> bool \<Rightarrow> nat \<Rightarrow> bool \<Rightarrow> ('v, 's) spec_graph \<Rightarrow> (bool \<times> ('v, 's) spec_graph) option" where
  "random_histories rnd stopOnFail 0 pass g = Some (pass, g)"
| "random_histories rnd stopOnFail (Suc n) pass g = do {
     let (h, g) = generateOneRandomHistory rnd g;
     hist \<leftarrow> h;
     (ok, g) \<leftarrow> checkStateSpec hist g;
     if \<not> (pass \<and> ok) \<and> stopOnFail then Some (False, g)
     else random_histories rnd stopOnFail n (pass \<and> ok) g
   }"

definition checkRandomHistories ::
  "(nat \<Rightarrow> nat) \<Rightarrow> int \<Rightarrow> bool \<Rightarrow> ('v, 's) spec_graph \<Rightarrow> (bool \<times> ('v, 's) spec_graph) option" where
  "checkRandomHistories rnd num stopOnFail g =
     (if gr_cyclic g then None else random_histories rnd stopOnFail (nat num) True g)"

text \<open>Only preconditions are checked on a graph with a cycle.\<close>

fun cyclic_spec :: "mref list \<Rightarrow> ('v, 's) spec_graph \<Rightarrow> bool option" where
  "cyclic_spec [] g = Some True"
| "cyclic_spec (m # ms) g =
     (if isFakeMethod g m then cyclic_spec ms g
      else do {
        funcs \<leftarrow> funcs_of g m;
        pass \<leftarrow> run_check (preCondition funcs) m m g;
        if \<not> pass then Some False else cyclic_spec ms g
      })"

definition checkCyclicGraphSpec :: "('v, 's) spec_graph \<Rightarrow> bool option" where
  "checkCyclicGraphSpec g = cyclic_spec (methodList g) g"

section \<open>The plugin\<close>

record spec_stats =
  passCnt :: "32 word"
  inadmissibilityCnt :: "32 word"
  traceCnt :: "32 word"
  cyclicCnt :: "32 word"
  brokenCnt :: "32 word"
  noOrderingPointCnt :: "32 word"
  failedCnt :: "32 word"
  buggyCnt :: "32 word"
  bugfreeCnt :: "32 word"

record spec_analysis =
  sp_stats :: spec_stats
  sp_print_always :: bool
  sp_print_inadmissible :: bool
  sp_quiet :: bool
  checkCyclic :: bool
  stopOnFail :: bool
  checkRandomNum :: int

definition SPECAnalysis_new :: spec_analysis where
  "SPECAnalysis_new =
     \<lparr>sp_stats = \<lparr>passCnt = 0, inadmissibilityCnt = 0, traceCnt = 0, cyclicCnt = 0, brokenCnt = 0,
        noOrderingPointCnt = 0, failedCnt = 0, buggyCnt = 0, bugfreeCnt = 0\<rparr>,
      sp_print_always = False, sp_print_inadmissible = True, sp_quiet = False,
      checkCyclic = False, stopOnFail = False, checkRandomNum = 0\<rparr>"

text \<open>\<open>isCheckRandomHistories\<close>: the number is stored even when it is not positive.\<close>

definition isCheckRandomHistories :: "string \<Rightarrow> int \<Rightarrow> bool \<times> int" where
  "isCheckRandomHistories opt num =
     (if take 5 opt = ''check''
      then (case drop 5 opt of
              c # digits \<Rightarrow> if c = CHR ''-'' then (atoi digits > 0, atoi digits) else (False, num)
            | [] \<Rightarrow> (False, num))
      else (False, num))"

definition spec_option :: "string \<Rightarrow> spec_analysis \<Rightarrow> bool \<times> spec_analysis" where
  "spec_option opt s =
     (if opt = ''verbose'' then (False, s\<lparr>sp_print_always := True\<rparr>)
      else if opt = ''no-admissible'' then (False, s\<lparr>sp_print_inadmissible := False\<rparr>)
      else if opt = ''quiet'' then (False, s\<lparr>sp_quiet := True\<rparr>)
      else if opt = ''check-cyclic'' then (False, s\<lparr>checkCyclic := True\<rparr>)
      else if opt = ''stop-on-fail'' then (False, s\<lparr>stopOnFail := True\<rparr>)
      else let (found, num) = isCheckRandomHistories opt (checkRandomNum s)
           in (\<not> found, s\<lparr>checkRandomNum := num\<rparr>))"

text \<open>What the plugin depends on besides: the memory of the program, the order of addresses, \<open>rand\<close>
  and what fresh memory holds, in the execution it is given.\<close>

record ('v, 's) spec_host =
  anno_memory :: "exec \<Rightarrow> ('v, 's) annotations"
  lowest :: "exec \<Rightarrow> mref list \<Rightarrow> mref"
  random_numbers :: "exec \<Rightarrow> nat \<Rightarrow> nat"
  fresh_states :: "exec \<Rightarrow> mref \<Rightarrow> 's option"

definition count :: "(spec_stats \<Rightarrow> spec_stats) \<Rightarrow> spec_analysis \<Rightarrow> spec_analysis" where
  "count f s = s\<lparr>sp_stats := f (sp_stats s)\<rparr>"

definition check_graph ::
  "(nat \<Rightarrow> nat) \<Rightarrow> ('v, 's) spec_graph \<Rightarrow> spec_analysis \<Rightarrow> (bool \<times> spec_analysis) option" where
  "check_graph rnd g0 s =
     (case hasCycle rnd g0 of (has_cycle, g) \<Rightarrow>
        if has_cycle
        then (let s = count (\<lambda>c. c\<lparr>cyclicCnt := cyclicCnt c + 1\<rparr>) s
              in if \<not> checkCyclic s then Some (False, s)
                 else do { pass \<leftarrow> checkCyclicGraphSpec g; Some (pass, s) })
        else if checkRandomNum s > 0
        then do { (pass, g) \<leftarrow> checkRandomHistories rnd (checkRandomNum s) True g; Some (pass, s) }
        else do { (pass, g) \<leftarrow> checkAllHistories True g; Some (pass, s) })"

definition spec_analyze ::
  "('v, 's) spec_host \<Rightarrow> exec \<Rightarrow> aid list \<Rightarrow> spec_analysis \<Rightarrow> spec_analysis option" where
  "spec_analyze h e actions s0 =
     (let s = count (\<lambda>c. c\<lparr>traceCnt := traceCnt c + 1\<rparr>) s0 in
      if have_bug_reports e then Some (count (\<lambda>c. c\<lparr>buggyCnt := buggyCnt c + 1\<rparr>) s)
      else do {
        let s = count (\<lambda>c. c\<lparr>bugfreeCnt := bugfreeCnt c + 1\<rparr>) s;
        g \<leftarrow> buildGraph (lowest h e) (anno_memory h e) e actions
               (ExecutionGraph_new (fresh_states h e) (checkCyclic s));
        if isBroken g then Some (count (\<lambda>c. c\<lparr>brokenCnt := brokenCnt c + 1\<rparr>) s)
        else do {
          let s = (if isNoOrderingPoint g
                   then count (\<lambda>c. c\<lparr>noOrderingPointCnt := noOrderingPointCnt c + 1\<rparr>) s else s);
          admissible \<leftarrow> checkAdmissibility g;
          if \<not> admissible
          then Some (count (\<lambda>c. c\<lparr>inadmissibilityCnt := inadmissibilityCnt c + 1\<rparr>) s)
          else do {
            (pass, s) \<leftarrow> check_graph (random_numbers h e) g s;
            Some (if \<not> pass then count (\<lambda>c. c\<lparr>failedCnt := failedCnt c + 1\<rparr>) s
                  else count (\<lambda>c. c\<lparr>passCnt := passCnt c + 1\<rparr>) s)
          }
        }
      })"

definition SPECAnalysis_plugin ::
  "('v, 's) spec_host \<Rightarrow> spec_analysis option trace_analysis" where
  "SPECAnalysis_plugin h =
     \<lparr>analyze = (\<lambda>e ps. (Option.bind ps (spec_analyze h e (action_trace e)),
                        \<lparr>wants_restart = False, wants_exit = False\<rparr>)),
      inspectModelAction = Pair,
      actionAtModelCheckingFinish = (\<lambda>ps. (ps, \<lparr>wants_restart = False, wants_exit = False\<rparr>)),
      finish_analysis = (\<lambda>ps. ps)\<rparr>"

text \<open>The plugin \<open>testanalysis.cc\<close>, which counts the traces it sees.\<close>

definition test_analyze :: "32 word \<Rightarrow> 32 word" where
  "test_analyze test_trace_cnt = test_trace_cnt + 1"

definition test_option :: "string \<Rightarrow> bool" where
  "test_option opt = True"

definition TESTAnalysis_plugin :: "32 word trace_analysis" where
  "TESTAnalysis_plugin =
     \<lparr>analyze = (\<lambda>e n. (test_analyze n, \<lparr>wants_restart = False, wants_exit = False\<rparr>)),
      inspectModelAction = Pair,
      actionAtModelCheckingFinish = (\<lambda>n. (n, \<lparr>wants_restart = False, wants_exit = False\<rparr>)),
      finish_analysis = (\<lambda>n. n)\<rparr>"

end
