(* ===== verification/SpecHistories.thy ===== *)
theory SpecHistories
  imports SpecCheck
begin

text \<open>
  What checking all histories means. A history is a topological order of the graph
  (\<open>is_history\<close>). The specification of a check is a run of the sequential specification on a state
  of its own (\<open>obeys\<close>, \<open>justifies\<close>), without the graph's flags; the code passes exactly when every
  history obeys the specification and every call is justified in some history.
\<close>

section \<open>Histories\<close>

text \<open>The calls taken so far, each after all that are ordered before it.\<close>

definition taken :: "('v, 's) spec_graph \<Rightarrow> mref list \<Rightarrow> bool" where
  "taken g xs \<longleftrightarrow> distinct xs \<and> set xs \<subseteq> set (methodList g)
     \<and> (\<forall>i < length xs. set (allPrev (call_of g (xs ! i))) \<subseteq> set (take i xs))"

definition is_history :: "('v, 's) spec_graph \<Rightarrow> mref list \<Rightarrow> bool" where
  "is_history g xs \<longleftrightarrow> taken g xs \<and> set xs = set (methodList g)"

definition nodes_ok :: "('v, 's) spec_graph \<Rightarrow> bool" where
  "nodes_ok g \<longleftrightarrow> distinct (methodList g)
     \<and> (\<forall>m \<in> set (methodList g). set (allPrev (call_of g m)) \<subseteq> set (methodList g))"

text \<open>Exactly the calls not taken yet exist.\<close>

definition alive :: "('v, 's) spec_graph \<Rightarrow> mref list \<Rightarrow> bool" where
  "alive g xs \<longleftrightarrow> (\<forall>m \<in> set (methodList g). exist g m \<longleftrightarrow> m \<notin> set xs)"

lemma taken_Nil [simp]: "taken g []"
  by (simp add: taken_def)

lemma taken_snoc:
  "taken g (xs @ [m]) \<longleftrightarrow> taken g xs \<and> m \<in> set (methodList g) \<and> m \<notin> set xs
     \<and> set (allPrev (call_of g m)) \<subseteq> set xs"
  by (auto simp: taken_def nth_append less_Suc_eq all_conj_distrib)

lemma taken_take: "taken g xs \<Longrightarrow> taken g (take n xs)"
  by (auto simp: taken_def min_def dest: in_set_takeD)

lemma taken_complete:
  assumes "taken g xs" and "nodes_ok g"
  shows "is_history g xs \<longleftrightarrow> length xs = length (methodList g)"
proof -
  have sub: "set xs \<subseteq> set (methodList g)" using assms(1) by (simp add: taken_def)
  have "card (set xs) = length xs" "card (set (methodList g)) = length (methodList g)"
    using assms by (simp_all add: taken_def nodes_ok_def distinct_card)
  then have "set xs = set (methodList g) \<longleftrightarrow> length xs = length (methodList g)"
    using card_subset_eq [OF _ sub] by auto
  then show ?thesis using assms(1) by (simp add: is_history_def)
qed

lemma roots_iff:
  assumes "alive g xs" and "nodes_ok g" and "taken g xs"
  shows "m \<in> set (getRootNodes g) \<longleftrightarrow> taken g (xs @ [m])"
proof (cases "m \<in> set (methodList g)")
  case True
  have "set (allPrev (call_of g m)) \<subseteq> set (methodList g)" using assms(2) True by (simp add: nodes_ok_def)
  then have "list_all (\<lambda>prev. \<not> exist g prev) (allPrev (call_of g m))
      \<longleftrightarrow> set (allPrev (call_of g m)) \<subseteq> set xs"
    using assms(1) unfolding alive_def list_all_iff by blast
  moreover have "exist g m \<longleftrightarrow> m \<notin> set xs" using assms(1) True by (simp add: alive_def)
  ultimately show ?thesis using assms(3) True by (simp add: taken_snoc getRootNodes_def)
qed (simp add: taken_snoc getRootNodes_def)

lemma history_goes_on:
  assumes "is_history g ys" and "taken g xs" and "\<not> set (methodList g) \<subseteq> set xs"
  shows "\<exists>m. taken g (xs @ [m])"
proof -
  have "\<exists>i < length ys. ys ! i \<notin> set xs"
    using assms(1,3) unfolding is_history_def by (metis in_set_conv_nth subsetI)
  then obtain i where i: "i < length ys" "ys ! i \<notin> set xs"
    and least: "\<And>j. j < i \<Longrightarrow> \<not> (j < length ys \<and> ys ! j \<notin> set xs)"
    using exists_least_iff [of "\<lambda>i. i < length ys \<and> ys ! i \<notin> set xs"] by blast
  have "set (allPrev (call_of g (ys ! i))) \<subseteq> set (take i ys)"
    using assms(1) i(1) by (simp add: is_history_def taken_def)
  also have "\<dots> \<subseteq> set xs"
  proof
    fix x
    assume "x \<in> set (take i ys)"
    then obtain j where "j < i" "x = ys ! j" by (auto simp: in_set_conv_nth)
    then show "x \<in> set xs" using least [of j] i(1) by auto
  qed
  finally have "set (allPrev (call_of g (ys ! i))) \<subseteq> set xs" .
  moreover have "ys ! i \<in> set (methodList g)"
    using assms(1) nth_mem [OF i(1)] by (simp add: is_history_def)
  ultimately have "taken g (xs @ [ys ! i])" using assms(2) i(2) by (simp add: taken_snoc)
  then show ?thesis ..
qed

text \<open>When nothing can be taken although calls are left, there is no history.\<close>

lemma stuck_no_history:
  assumes "alive g xs" and "nodes_ok g" and "taken g xs" and "getRootNodes g = []"
    and "length xs < length (methodList g)"
  shows "\<not> is_history g ys"
proof
  assume "is_history g ys"
  moreover have "\<not> set (methodList g) \<subseteq> set xs"
  proof
    assume sub: "set (methodList g) \<subseteq> set xs"
    have "length (methodList g) = card (set (methodList g))"
      using assms(2) by (simp add: nodes_ok_def distinct_card)
    also have "\<dots> \<le> length xs" using card_mono [OF _ sub] card_length [of xs] by (simp add: le_trans)
    finally show False using assms(5) by simp
  qed
  ultimately obtain m where "taken g (xs @ [m])" using history_goes_on assms(3) by blast
  then show False using roots_iff [OF assms(1-3)] assms(4) by (metis empty_iff list.set(1))
qed

section \<open>One random history\<close>

text \<open>What generating a history changes.\<close>

definition generates_only :: "('v, 's) spec_graph \<Rightarrow> ('v, 's) spec_graph \<Rightarrow> bool" where
  "generates_only g g' \<longleftrightarrow> (\<exists>x y d. g' = g\<lparr>exist := x, gr_cyclic := y, draws := d\<rparr>)"

lemma generates_onlyI: "g' = g\<lparr>exist := x, gr_cyclic := y, draws := d\<rparr> \<Longrightarrow> generates_only g g'"
  by (auto simp: generates_only_def)

interpretation generating: frame generates_only
proof
  fix s t u :: "('a, 'b) spec_graph"
  show "generates_only s s"
    by (rule generates_onlyI [where x = "exist s" and y = "gr_cyclic s" and d = "draws s"]) simp
  assume "generates_only s t" and "generates_only t u"
  then obtain x y d where "u = s\<lparr>exist := x, gr_cyclic := y, draws := d\<rparr>"
    unfolding generates_only_def by auto
  then show "generates_only s u" by (rule generates_onlyI)
qed

lemma generates_only_static:
  assumes "generates_only g g'"
  shows "methodList g' = methodList g" and "calls g' = calls g" and "gr_spec g' = gr_spec g"
    and "justified g' = justified g" and "call_state g' = call_state g"
    and "call_of g' m = call_of g m" and "taken g' xs = taken g xs" and "nodes_ok g' = nodes_ok g"
    and "is_history g' xs = is_history g xs"
proof -
  show f: "methodList g' = methodList g" "calls g' = calls g" "gr_spec g' = gr_spec g"
    "justified g' = justified g" "call_state g' = call_state g"
    using assms by (auto simp: generates_only_def)
  then have c: "call_of g' = call_of g" by (simp add: call_of_def fun_eq_iff)
  then show "call_of g' m = call_of g m" by simp
  show t: "taken g' xs = taken g xs" by (simp add: taken_def c f)
  show "nodes_ok g' = nodes_ok g" by (simp add: nodes_ok_def c f)
  show "is_history g' xs = is_history g xs" by (simp add: is_history_def t f)
qed

lemma random_history_result:
  assumes "random_history rnd n xs g = (ys, g')" and "alive g xs" and "nodes_ok g" and "taken g xs"
    and "\<not> gr_cyclic g" and "n + length xs = length (methodList g)"
  shows "generates_only g g' \<and> (if gr_cyclic g' then \<forall>zs. \<not> is_history g zs else is_history g ys)"
  using assms
proof (induction n arbitrary: xs g)
  case 0
  then show ?case by (auto simp: taken_complete generating.refl)
next
  case (Suc n)
  show ?case
  proof (cases "getRootNodes g = []")
    case True
    have "g' = g\<lparr>gr_cyclic := True\<rparr>" using Suc.prems(1,5) True by simp
    moreover from this have "generates_only g g'"
      by (intro generates_onlyI [where x = "exist g" and y = True and d = "draws g"]) simp
    moreover have "\<not> is_history g zs" for zs
      by (rule stuck_no_history [OF Suc.prems(2-4) True]) (use Suc.prems(6) in simp)
    ultimately show ?thesis by auto
  next
    case False
    define m where "m = getRootNodes g ! (rnd (draws g) mod length (getRootNodes g))"
    define g1 where "g1 = set_exist m False (g\<lparr>draws := draws g + 1\<rparr>)"
    have rec: "random_history rnd n (xs @ [m]) g1 = (ys, g')"
      using Suc.prems(1,5) False by (simp add: m_def g1_def Let_def)
    have "m \<in> set (getRootNodes g)" using False by (simp add: m_def)
    then have tk: "taken g (xs @ [m])" using roots_iff [OF Suc.prems(2-4)] by blast
    have k: "generates_only g g1"
      by (rule generates_onlyI [where x = "exist g1" and y = "gr_cyclic g" and d = "draws g + 1"])
        (simp add: g1_def set_exist_def)
    note st = generates_only_static [OF k]
    have "alive g1 (xs @ [m])"
      using Suc.prems(2) by (auto simp: alive_def g1_def set_exist_def)
    moreover have "\<not> gr_cyclic g1" using Suc.prems(5) by (simp add: g1_def set_exist_def)
    ultimately have "generates_only g1 g'
        \<and> (if gr_cyclic g' then \<forall>zs. \<not> is_history g1 zs else is_history g1 ys)"
      using Suc.prems(3,6) tk by (intro Suc.IH [OF rec]) (simp_all add: st)
    then have "generates_only g1 g' \<and> (if gr_cyclic g' then \<forall>zs. \<not> is_history g zs else is_history g ys)"
      unfolding st .
    then show ?thesis using generating.trans [OF k] by blast
  qed
qed

text \<open>
  The graph is called cyclic exactly when it has no history, and otherwise the history kept
  is a topological order of it, whatever numbers \<open>rand\<close> returns.
\<close>

lemma hasCycle_exact:
  assumes "hasCycle rnd g = (b, g')" and "nodes_ok g" and "\<And>m. exist g m" and "\<not> gr_cyclic g"
    and "randomHistory g = None"
  shows "(b \<longleftrightarrow> (\<nexists>xs. is_history g xs))
    \<and> (if b then gr_cyclic g' else \<exists>h. randomHistory g' = Some h \<and> is_history g h)"
proof -
  obtain ys g1 where r: "random_history rnd (length (methodList g)) [] g = (ys, g1)" by fastforce
  have "alive g []" using assms(3) by (simp add: alive_def)
  from random_history_result [OF r this assms(2) taken_Nil assms(4)]
  have "if gr_cyclic g1 then \<forall>zs. \<not> is_history g zs else is_history g ys" by auto
  then show ?thesis
    using assms(1,4,5) by (auto simp: hasCycle_def generateOneRandomHistory_def r split: if_splits)
qed

end
