(* ===== verification/SpecVerdict.thy ===== *)
theory SpecVerdict
  imports SpecHistories
begin

text \<open>
  The verdict of the specification checker. What a history must satisfy is stated on a state of
  its own (\<open>obeys\<close>, \<open>justifies\<close>), without the states, flags and marks the graph carries. The code
  passes exactly when every history obeys the specification and every call is justified in some
  history, however the checks of the different calls and histories share the graph.
\<close>

section \<open>The specification on a state of its own\<close>

definition holds_for :: "('v, 's) check_state named_function option \<Rightarrow> ('v, 's) spec_graph \<Rightarrow> mref
    \<Rightarrow> mref \<Rightarrow> 's option \<Rightarrow> bool" where
  "holds_for nf g target m st = (case function_of nf of
       Some (Some h) \<Rightarrow> h (calls g) target st m
     | _ \<Rightarrow> True)"

definition after :: "('v, 's) spec_graph \<Rightarrow> mref \<Rightarrow> mref \<Rightarrow> 's option \<Rightarrow> bool \<times> 's option" where
  "after g target m st =
     the (the (function_of (transition (the (funcs_of g m))))) (calls g) target st m"

definition initial_state :: "('v, 's) spec_graph \<Rightarrow> mref \<Rightarrow> 's option" where
  "initial_state g m = the (the (function_of (initial_fn g))) (calls g) m None"

fun obeys :: "('v, 's) spec_graph \<Rightarrow> mref \<Rightarrow> 's option \<Rightarrow> mref list \<Rightarrow> bool" where
  "obeys g start st [] \<longleftrightarrow> True"
| "obeys g start st (m # ms) \<longleftrightarrow>
     (if isFakeMethod g m then obeys g start st ms
      else holds_for (preCondition (the (funcs_of g m))) g start m st
        \<and> fst (after g start m st)
        \<and> holds_for (postCondition (the (funcs_of g m))) g start m (snd (after g start m st))
        \<and> obeys g start (snd (after g start m st)) ms)"

definition obeys_spec :: "('v, 's) spec_graph \<Rightarrow> mref list \<Rightarrow> bool" where
  "obeys_spec g xs \<longleftrightarrow> obeys g (getStartMethod g) (initial_state g (getStartMethod g)) xs"

text \<open>The calls of a history that are replayed to justify \<open>cur\<close>, and the replay.\<close>

definition before_call :: "('v, 's) spec_graph \<Rightarrow> mref \<Rightarrow> mref list \<Rightarrow> mref list" where
  "before_call g cur xs = filter (\<lambda>m. \<not> isFakeMethod g m \<and> m \<in> set (allPrev (call_of g cur)))
     (takeWhile (\<lambda>m. m \<noteq> cur) xs)"

fun replay_calls :: "('v, 's) spec_graph \<Rightarrow> mref \<Rightarrow> 's option \<Rightarrow> mref list \<Rightarrow> bool \<times> 's option" where
  "replay_calls g cur st [] = (True, st)"
| "replay_calls g cur st (m # ms) =
     (if fst (after g cur m st) then replay_calls g cur (snd (after g cur m st)) ms
      else (False, snd (after g cur m st)))"

definition unconditional :: "('v, 's) spec_graph \<Rightarrow> mref \<Rightarrow> bool" where
  "unconditional g m \<longleftrightarrow> function_of (justifyingPrecondition (the (funcs_of g m))) = Some None
     \<and> function_of (justifyingPostcondition (the (funcs_of g m))) = Some None"

definition justified_by :: "('v, 's) spec_graph \<Rightarrow> mref list \<Rightarrow> mref \<Rightarrow> bool" where
  "justified_by g xs cur =
     (let r = replay_calls g cur (initial_state g cur) (before_call g cur xs);
          r' = after g cur cur (snd r)
      in fst r \<and> holds_for (justifyingPrecondition (the (funcs_of g cur))) g cur cur (snd r) \<and> fst r'
           \<and> holds_for (justifyingPostcondition (the (funcs_of g cur))) g cur cur (snd r'))"

definition justifies :: "('v, 's) spec_graph \<Rightarrow> mref list \<Rightarrow> mref \<Rightarrow> bool" where
  "justifies g xs cur \<longleftrightarrow> \<not> isFakeMethod g cur \<and> (unconditional g cur \<or> justified_by g xs cur)"

text \<open>
  The specification has all its functions, as the annotation compiler generates them (a condition
  may be null, a transition not), and the initial function does not look at the old state.
\<close>

definition given :: "'f named_function option \<Rightarrow> bool" where
  "given nf \<longleftrightarrow> (case function_of nf of Some (Some _) \<Rightarrow> True | _ \<Rightarrow> False)"

definition functions_complete :: "('v, 's) state_functions \<Rightarrow> bool" where
  "functions_complete fs \<longleftrightarrow> given (transition fs) \<and> preCondition fs \<noteq> None
     \<and> postCondition fs \<noteq> None \<and> justifyingPrecondition fs \<noteq> None
     \<and> justifyingPostcondition fs \<noteq> None"

definition spec_complete :: "('v, 's) spec_graph \<Rightarrow> bool" where
  "spec_complete g \<longleftrightarrow> given (initial_fn g) \<and> given (clear_fn g)
     \<and> (\<forall>m \<in> set (methodList g). isFakeMethod g m
          \<or> (case funcs_of g m of None \<Rightarrow> False | Some fs \<Rightarrow> functions_complete fs))
     \<and> (\<forall>m st. the (the (function_of (initial_fn g))) (calls g) m st = initial_state g m)"

section \<open>What a check may change\<close>

definition checks_only :: "('v, 's) spec_graph \<Rightarrow> ('v, 's) spec_graph \<Rightarrow> bool" where
  "checks_only g g' \<longleftrightarrow> (\<exists>st j. g' = g\<lparr>call_state := st, justified := j\<rparr>)"

lemma checks_onlyI: "checks_only g (g\<lparr>call_state := st, justified := j\<rparr>)"
  unfolding checks_only_def by blast

interpretation chk: frame checks_only
proof
  fix s t u :: "('a, 'b) spec_graph"
  show "checks_only s s"
    using checks_onlyI [where g = s and st = "call_state s" and j = "justified s"] by simp
  assume "checks_only s t" and "checks_only t u"
  then obtain st j where "u = s\<lparr>call_state := st, justified := j\<rparr>"
    unfolding checks_only_def by auto
  then show "checks_only s u" using checks_onlyI by simp
qed

text \<open>What does not depend on what checks change, nor on which calls exist.\<close>

definition same_spec :: "('v, 's) spec_graph \<Rightarrow> ('v, 's) spec_graph \<Rightarrow> bool" where
  "same_spec g g' \<longleftrightarrow> calls g' = calls g \<and> methodList g' = methodList g \<and> gr_spec g' = gr_spec g"

lemma same_spec_simps [simp]:
  "same_spec g g"
  "same_spec g (g\<lparr>call_state := st\<rparr>)"
  "same_spec g (g\<lparr>justified := j\<rparr>)"
  "same_spec g (g\<lparr>call_state := st, justified := j\<rparr>)"
  "same_spec g (set_exist m b g)"
  "same_spec g (set_exist m b (g\<lparr>call_state := st, justified := j\<rparr>))"
  by (simp_all add: same_spec_def set_exist_def)

lemma same_spec_base:
  assumes "same_spec g g'"
  shows "calls g' = calls g" "methodList g' = methodList g" "gr_spec g' = gr_spec g"
    "call_of g' = call_of g" "funcs_of g' = funcs_of g" "isFakeMethod g' = isFakeMethod g"
    "getStartMethod g' = getStartMethod g" "initial_fn g' = initial_fn g" "clear_fn g' = clear_fn g"
  using assms
  by (auto simp: same_spec_def call_of_def funcs_of_def isFakeMethod_def isStartMethod_def
      isFinishMethod_def getStartMethod_def initial_fn_def clear_fn_def fun_eq_iff)

lemma same_spec_graph:
  assumes "same_spec g g'"
  shows "taken g' = taken g" "nodes_ok g' = nodes_ok g" "is_history g' = is_history g"
proof -
  note b = same_spec_base [OF assms]
  show t: "taken g' = taken g" by (simp add: taken_def b fun_eq_iff)
  show "nodes_ok g' = nodes_ok g" by (simp add: nodes_ok_def b)
  show "is_history g' = is_history g" by (simp add: is_history_def t b fun_eq_iff)
qed

lemma same_spec_functions:
  assumes "same_spec g g'"
  shows "holds_for nf g' = holds_for nf g" "after g' = after g"
  by (simp_all add: holds_for_def after_def same_spec_base [OF assms] fun_eq_iff split: option.split)

lemma same_spec_obeys:
  assumes "same_spec g g'"
  shows "obeys g' start st xs = obeys g start st xs" "replay_calls g' cur st xs = replay_calls g cur st xs"
proof -
  note b = same_spec_base [OF assms] same_spec_functions [OF assms]
  show "obeys g' start st xs = obeys g start st xs"
    by (induction xs arbitrary: st) (simp_all add: b)
  show "replay_calls g' cur st xs = replay_calls g cur st xs"
    by (induction xs arbitrary: st) (simp_all add: b)
qed

lemma same_spec_spec:
  assumes "same_spec g g'"
  shows "spec_complete g' = spec_complete g" "initial_state g' = initial_state g"
    "obeys_spec g' = obeys_spec g" "justifies g' = justifies g"
proof -
  note b = same_spec_base [OF assms] same_spec_functions [OF assms]
  show i: "initial_state g' = initial_state g" by (simp add: initial_state_def b fun_eq_iff)
  show "spec_complete g' = spec_complete g" by (simp add: spec_complete_def b i)
  show "obeys_spec g' = obeys_spec g"
    by (simp add: obeys_spec_def same_spec_obeys [OF assms] b i fun_eq_iff)
  have bc: "before_call g' = before_call g" by (simp add: before_call_def b fun_eq_iff)
  show "justifies g' = justifies g"
    by (simp add: justifies_def justified_by_def same_spec_obeys [OF assms] b i unconditional_def bc fun_eq_iff)
qed

lemmas same_spec_eqs = same_spec_base same_spec_functions same_spec_graph same_spec_obeys same_spec_spec

section \<open>The code runs the specification\<close>

text \<open>The graph with the state of one call replaced; whatever else the checks leave in the states.\<close>

definition put_state :: "mref \<Rightarrow> 's option \<Rightarrow> ('v, 's) spec_graph \<Rightarrow> ('v, 's) spec_graph" where
  "put_state m st g = g\<lparr>call_state := (call_state g)(m := st)\<rparr>"

lemma put_state_simps [simp]:
  "same_spec g (put_state m st g)"
  "call_state (put_state m st g) m = st"
  "put_state m st (put_state m st' g) = put_state m st g"
  "justified (put_state m st g) = justified g"
  by (simp_all add: put_state_def same_spec_def)

lemma run_update_given:
  "given nf \<Longrightarrow> run_update nf m g
     = Some (put_state m (the (the (function_of nf)) (calls g) m (call_state g m)) g)"
  by (auto simp: given_def run_update_def put_state_def split: option.splits)

lemma run_check_holds:
  "nf \<noteq> None \<Longrightarrow> run_check nf target m g = Some (holds_for nf g target m (call_state g target))"
  by (auto simp: run_check_def holds_for_def function_of_def split: option.splits)

lemma functions_of_call:
  assumes "spec_complete g" and "m \<in> set (methodList g)" and "\<not> isFakeMethod g m"
  obtains fs where "funcs_of g m = Some fs" and "functions_complete fs"
  using assms by (auto simp: spec_complete_def split: option.splits)

lemma run_transition_after:
  assumes "funcs_of g m = Some fs" and "functions_complete fs"
  shows "run_transition (transition fs) target m g
    = (let r = after g target m (call_state g target) in Some (fst r, put_state target (snd r) g))"
  using assms
  by (auto simp: run_transition_def after_def functions_complete_def given_def put_state_def Let_def
      split: option.splits prod.splits)

lemma spec_step_runs:
  assumes "spec_complete g" and "m \<in> set (methodList g)" and "\<not> isFakeMethod g m"
  shows "\<exists>st'. spec_step start m g = Some
    (holds_for (preCondition (the (funcs_of g m))) g start m (call_state g start)
       \<and> fst (after g start m (call_state g start))
       \<and> holds_for (postCondition (the (funcs_of g m))) g start m (snd (after g start m (call_state g start))),
     put_state start st' g)
    \<and> (fst (after g start m (call_state g start))
       \<and> holds_for (preCondition (the (funcs_of g m))) g start m (call_state g start)
       \<longrightarrow> st' = snd (after g start m (call_state g start)))"
proof -
  obtain fs where fs: "funcs_of g m = Some fs" "functions_complete fs"
    using functions_of_call [OF assms] .
  have ne: "preCondition fs \<noteq> None" "postCondition fs \<noteq> None"
    using fs(2) by (simp_all add: functions_complete_def)
  have same: "put_state start (call_state g start) g = g" by (simp add: put_state_def)
  note eq = same_spec_functions [OF put_state_simps(1)]
  show ?thesis
  proof (cases "holds_for (preCondition fs) g start m (call_state g start)")
    case False
    then show ?thesis
      using same by (auto simp: spec_step_def fs run_check_holds ne intro!: exI [of _ "call_state g start"])
  next
    case True
    then show ?thesis
      by (auto simp: spec_step_def fs run_check_holds ne run_transition_after [OF fs] Let_def eq
          intro!: exI [of _ "snd (after g start m (call_state g start))"])
  qed
qed

lemma run_history_obeys:
  assumes "spec_complete g" and "set ms \<subseteq> set (methodList g)"
  shows "\<exists>st'. run_history start ms g = Some (obeys g start (call_state g start) ms, put_state start st' g)"
  using assms
proof (induction ms arbitrary: g)
  case Nil
  show ?case by (auto simp: put_state_def intro!: exI [of _ "call_state g start"])
next
  case (Cons m ms)
  show ?case
  proof (cases "isFakeMethod g m")
    case True
    then show ?thesis using Cons by simp
  next
    case False
    have "m \<in> set (methodList g)" using Cons.prems by simp
    from spec_step_runs [OF Cons.prems(1) this False, of start] obtain st' where st':
      "spec_step start m g = Some
        (holds_for (preCondition (the (funcs_of g m))) g start m (call_state g start)
           \<and> fst (after g start m (call_state g start))
           \<and> holds_for (postCondition (the (funcs_of g m))) g start m (snd (after g start m (call_state g start))),
         put_state start st' g)"
      "fst (after g start m (call_state g start))
         \<and> holds_for (preCondition (the (funcs_of g m))) g start m (call_state g start)
         \<longrightarrow> st' = snd (after g start m (call_state g start))" by blast
    note eq = same_spec_eqs [OF put_state_simps(1)]
    have "\<exists>st''. run_history start ms (put_state start st' g)
        = Some (obeys g start st' ms, put_state start st'' g)"
      using Cons.IH [of "put_state start st' g"] Cons.prems by (simp add: eq)
    then show ?thesis using st' False
      by (cases "holds_for (preCondition (the (funcs_of g m))) g start m (call_state g start)
          \<and> fst (after g start m (call_state g start))
          \<and> holds_for (postCondition (the (funcs_of g m))) g start m (snd (after g start m (call_state g start)))")
        auto
  qed
qed

lemma put_state_same [simp]: "put_state m (call_state g m) g = g"
  by (simp add: put_state_def)

lemma run_subhistory_replay:
  assumes "spec_complete g" and "set xs \<subseteq> set (methodList g)"
  shows "run_subhistory cur xs g
    = (let r = replay_calls g cur (call_state g cur) (before_call g cur xs)
       in Some (fst r, put_state cur (snd r) g))"
  using assms
proof (induction xs arbitrary: g)
  case Nil
  show ?case by (simp add: before_call_def)
next
  case (Cons m xs)
  consider "m = cur \<or> isFakeMethod g m \<or> m \<notin> set (allPrev (call_of g cur))"
    | "m \<noteq> cur" "\<not> isFakeMethod g m" "m \<in> set (allPrev (call_of g cur))" by blast
  then show ?case
  proof cases
    case 1
    then show ?thesis using Cons by (auto simp: before_call_def belong_def Let_def)
  next
    case 2
    have "m \<in> set (methodList g)" using Cons.prems by simp
    then obtain fs where fs: "funcs_of g m = Some fs" "functions_complete fs"
      using functions_of_call [OF Cons.prems(1) _ 2(2)] by blast
    define st where "st = snd (after g cur m (call_state g cur))"
    note eq = same_spec_eqs [OF put_state_simps(1)]
    have bc: "before_call (put_state cur st g) cur xs = before_call g cur xs"
      by (simp add: before_call_def eq)
    have "run_subhistory cur xs (put_state cur st g)
        = (let r = replay_calls g cur st (before_call g cur xs) in Some (fst r, put_state cur (snd r) g))"
      using Cons.IH [of "put_state cur st g"] Cons.prems by (simp add: eq bc Let_def)
    moreover have "before_call g cur (m # xs) = m # before_call g cur xs"
      using 2 by (simp add: before_call_def)
    ultimately show ?thesis
      using 2 by (auto simp: fs run_transition_after [OF fs] Let_def st_def belong_def)
  qed
qed

lemma justifying_conditions:
  assumes "spec_complete g" and "m \<in> set (methodList g)" and "\<not> isFakeMethod g m"
  obtains fs where "funcs_of g m = Some fs" and "functions_complete fs"
    and "justifyingPrecondition fs \<noteq> None" and "justifyingPostcondition fs \<noteq> None"
  using functions_of_call [OF assms] functions_complete_def by metis

lemma states_collapse: "\<exists>cs. put_state m st (g\<lparr>call_state := cs'\<rparr>) = g\<lparr>call_state := cs\<rparr>"
  unfolding put_state_def by (rule exI) simp

lemma checkJustifyingSubhistory_checks:
  assumes "spec_complete g" and "set xs \<subseteq> set (methodList g)"
    and "cur \<in> set (methodList g)" and "\<not> isFakeMethod g cur"
  shows "\<exists>cs. checkJustifyingSubhistory xs cur g = Some (justified_by g xs cur, g\<lparr>call_state := cs\<rparr>)"
proof -
  obtain fs where fs: "funcs_of g cur = Some fs" "functions_complete fs"
    and ne: "justifyingPrecondition fs \<noteq> None" "justifyingPostcondition fs \<noteq> None"
    using justifying_conditions [OF assms(1,3,4)] .
  have cl: "given (clear_fn g)" and ini: "run_update (initial_fn g) cur g
      = Some (put_state cur (initial_state g cur) g)"
    using assms(1) by (simp_all add: spec_complete_def run_update_given)
  note eq = same_spec_eqs [OF put_state_simps(1)]
  define r where "r = replay_calls g cur (initial_state g cur) (before_call g cur xs)"
  define st where "st = snd (after g cur cur (snd r))"
  have bc: "before_call (put_state cur (initial_state g cur) g) cur xs = before_call g cur xs"
    by (simp add: before_call_def eq)
  have sub: "run_subhistory cur xs (put_state cur (initial_state g cur) g)
      = Some (fst r, put_state cur (snd r) g)"
    using run_subhistory_replay [of "put_state cur (initial_state g cur) g" xs cur] assms(1,2)
    by (simp add: eq bc r_def Let_def)
  have clear: "\<exists>cs. run_update (clear_fn g) (getStartMethod g) (put_state cur st' g)
      = Some (g\<lparr>call_state := cs\<rparr>)" for st'
    using cl run_update_given [of "clear_fn g" "getStartMethod g" "put_state cur st' g"]
      states_collapse unfolding put_state_def by auto
  consider "\<not> fst r"
    | "fst r" "\<not> holds_for (justifyingPrecondition fs) g cur cur (snd r)"
    | "fst r" "holds_for (justifyingPrecondition fs) g cur cur (snd r)" "\<not> fst (after g cur cur (snd r))"
    | "fst r" "holds_for (justifyingPrecondition fs) g cur cur (snd r)" "fst (after g cur cur (snd r))" by blast
  then show ?thesis
    using clear [of "snd r"] clear [of st]
    by cases (auto simp: checkJustifyingSubhistory_def ini sub eq fs run_check_holds ne
        run_transition_after [OF _ fs(2)] justified_by_def r_def [symmetric] Let_def st_def)
qed

lemma justify_call_marks:
  assumes "spec_complete g" and "set xs \<subseteq> set (methodList g)" and "m \<in> set (methodList g)"
  shows "\<exists>cs. justify_call xs m g = Some (g\<lparr>call_state := cs,
    justified := (\<lambda>x. justified g x \<or> x = m \<and> justifies g xs x)\<rparr>)"
proof (cases "isFakeMethod g m \<or> justified g m")
  case True
  then have "(\<lambda>x. justified g x \<or> x = m \<and> justifies g xs x) = justified g"
    by (auto simp: justifies_def fun_eq_iff)
  then show ?thesis
    using True by (auto simp: justify_call_def intro!: exI [of _ "call_state g"])
next
  case False
  then obtain fs where fs: "funcs_of g m = Some fs"
    "justifyingPrecondition fs \<noteq> None" "justifyingPostcondition fs \<noteq> None"
    using justifying_conditions [OF assms(1,3)] by blast
  then obtain pre post where f: "function_of (justifyingPrecondition fs) = Some pre"
    "function_of (justifyingPostcondition fs) = Some post"
    by (auto simp: function_of_def)
  have unc: "unconditional g m \<longleftrightarrow> pre = None \<and> post = None"
    by (simp add: unconditional_def fs f)
  obtain cs where cs: "checkJustifyingSubhistory xs m g = Some (justified_by g xs m, g\<lparr>call_state := cs\<rparr>)"
    using checkJustifyingSubhistory_checks [OF assms] False by blast
  have mark: "(if b then set_justified m (g\<lparr>call_state := c\<rparr>) else g\<lparr>call_state := c\<rparr>)
      = g\<lparr>call_state := c, justified := (\<lambda>x. justified g x \<or> x = m \<and> justifies g xs x)\<rparr>"
    if "b \<longleftrightarrow> justifies g xs m" for b c
  proof -
    have "(if b then (justified g)(m := True) else justified g)
        = (\<lambda>x. justified g x \<or> x = m \<and> justifies g xs x)"
      using that by (auto simp: fun_eq_iff)
    then show ?thesis by (cases g) (auto simp: set_justified_def)
  qed
  show ?thesis
  proof (cases "unconditional g m")
    case True
    then have "justify_call xs m g = Some (set_justified m (g\<lparr>call_state := call_state g\<rparr>))"
      using False fs f unc by (simp add: justify_call_def)
    moreover have "justifies g xs m" using True False by (simp add: justifies_def)
    ultimately show ?thesis
      using mark [of True "call_state g"] by (intro exI [of _ "call_state g"]) simp
  next
    case f2: False
    then have "justify_call xs m g = Some (if justified_by g xs m
        then set_justified m (g\<lparr>call_state := cs\<rparr>) else g\<lparr>call_state := cs\<rparr>)"
      using False fs f unc cs by (auto simp: justify_call_def)
    moreover have "justified_by g xs m \<longleftrightarrow> justifies g xs m" using f2 False by (simp add: justifies_def)
    ultimately show ?thesis using mark [of "justified_by g xs m" cs] by auto
  qed
qed

text \<open>A graph on which the histories of \<open>H\<close> have been checked.\<close>

definition checked :: "('v, 's) spec_graph \<Rightarrow> (mref \<Rightarrow> 's option) \<Rightarrow> mref list set \<Rightarrow> ('v, 's) spec_graph" where
  "checked g cs H = g\<lparr>call_state := cs,
     justified := (\<lambda>x. justified g x \<or> (\<exists>xs \<in> H. x \<in> set xs \<and> justifies g xs x))\<rparr>"

lemma checked_simps [simp]:
  "same_spec g (checked g cs H)"
  "exist (checked g cs H) = exist g"
  "gr_cyclic (checked g cs H) = gr_cyclic g"
  "checks_only g (checked g cs H)"
  by (simp_all add: checked_def checks_onlyI)

lemma checked_checked: "checked (checked g cs H) cs' H' = checked g cs' (H \<union> H')"
  by (simp add: checked_def same_spec_eqs [OF same_spec_simps(4)] bex_Un disj_assoc)

lemma checked_none: "checked g (call_state g) {} = g"
  by (simp add: checked_def)

lemma justify_calls_mark:
  assumes "spec_complete g" and "set xs \<subseteq> set (methodList g)" and "set ms \<subseteq> set (methodList g)"
  shows "\<exists>cs. fold_opt (justify_call xs) ms g = Some (g\<lparr>call_state := cs,
    justified := (\<lambda>x. justified g x \<or> x \<in> set ms \<and> justifies g xs x)\<rparr>)"
  using assms
proof (induction ms arbitrary: g)
  case Nil
  show ?case by (auto intro!: exI [of _ "call_state g"])
next
  case (Cons m ms)
  have "m \<in> set (methodList g)" using Cons.prems(3) by simp
  from justify_call_marks [OF Cons.prems(1,2) this] obtain cs where cs:
    "justify_call xs m g = Some (g\<lparr>call_state := cs,
      justified := (\<lambda>x. justified g x \<or> x = m \<and> justifies g xs x)\<rparr>)" (is "_ = Some ?g") by blast
  note eq = same_spec_eqs [OF same_spec_simps(4)]
  have "\<exists>cs. fold_opt (justify_call xs) ms ?g = Some (?g\<lparr>call_state := cs,
      justified := (\<lambda>x. justified ?g x \<or> x \<in> set ms \<and> justifies ?g xs x)\<rparr>)"
    using Cons.prems by (intro Cons.IH) (simp_all add: eq)
  then obtain cs' where cs': "fold_opt (justify_call xs) ms ?g = Some (?g\<lparr>call_state := cs',
      justified := (\<lambda>x. justified ?g x \<or> x \<in> set ms \<and> justifies ?g xs x)\<rparr>)" ..
  have "(\<lambda>x. (justified g x \<or> x = m \<and> justifies g xs x) \<or> x \<in> set ms \<and> justifies g xs x)
      = (\<lambda>x. justified g x \<or> x \<in> set (m # ms) \<and> justifies g xs x)" by (auto simp: fun_eq_iff)
  then have "fold_opt (justify_call xs) (m # ms) g = Some (g\<lparr>call_state := cs',
      justified := (\<lambda>x. justified g x \<or> x \<in> set (m # ms) \<and> justifies g xs x)\<rparr>)"
    using cs' by (simp add: cs eq)
  then show ?case by (intro exI [of _ cs'])
qed

lemma checkStateSpec_exact:
  assumes "spec_complete g" and "set xs \<subseteq> set (methodList g)"
  shows "\<exists>cs. checkStateSpec xs g = Some (obeys_spec g xs, checked g cs {xs})"
proof -
  let ?start = "getStartMethod g"
  have ini: "run_update (initial_fn g) ?start g = Some (put_state ?start (initial_state g ?start) g)"
    and cl: "given (clear_fn g)"
    using assms(1) by (simp_all add: spec_complete_def run_update_given)
  note eq = same_spec_eqs [OF put_state_simps(1)]
  obtain st where run: "run_history ?start xs (put_state ?start (initial_state g ?start) g)
      = Some (obeys_spec g xs, put_state ?start st g)"
    using run_history_obeys [of "put_state ?start (initial_state g ?start) g" xs ?start] assms
    by (auto simp: eq obeys_spec_def)
  obtain st' where clear: "run_update (clear_fn g) ?start (put_state ?start st g)
      = Some (put_state ?start st' g)"
    using run_update_given [OF cl, of ?start "put_state ?start st g"] by simp
  have "\<exists>cs. fold_opt (justify_call xs) xs (put_state ?start st' g)
      = Some ((put_state ?start st' g)\<lparr>call_state := cs,
          justified := (\<lambda>x. justified (put_state ?start st' g) x
             \<or> x \<in> set xs \<and> justifies (put_state ?start st' g) xs x)\<rparr>)"
    using assms by (intro justify_calls_mark) (simp_all add: eq)
  moreover have "(put_state ?start st' g)\<lparr>call_state := cs, justified := j\<rparr>
      = g\<lparr>call_state := cs, justified := j\<rparr>" for cs j
    by (simp add: put_state_def)
  ultimately show ?thesis
    by (auto simp: checkStateSpec_def ini run clear eq checked_def)
qed

section \<open>All histories\<close>

definition histories :: "('v, 's) spec_graph \<Rightarrow> mref list \<Rightarrow> mref list set" where
  "histories g xs = {ys. is_history g ys \<and> (\<exists>zs. ys = xs @ zs)}"

text \<open>The result of checking the histories \<open>H\<close>: all obey, or one does not.\<close>

definition explored_as :: "('v, 's) spec_graph \<Rightarrow> mref list set
    \<Rightarrow> (bool \<times> nat \<times> ('v, 's) spec_graph) option \<Rightarrow> bool" where
  "explored_as g H r \<longleftrightarrow>
     (\<exists>k cs. r = Some (True, k, checked g cs H) \<and> (\<forall>ys \<in> H. obeys_spec g ys))
     \<or> (\<exists>k g'. r = Some (False, k, g') \<and> (\<exists>ys \<in> H. \<not> obeys_spec g ys))"

lemma explored_asE:
  assumes "explored_as g H r"
  obtains k cs where "r = Some (True, k, checked g cs H)" and "\<forall>ys \<in> H. obeys_spec g ys"
    | k g' where "r = Some (False, k, g')" and "\<exists>ys \<in> H. \<not> obeys_spec g ys"
  using assms unfolding explored_as_def by blast

lemma histories_split:
  assumes "taken g xs" and "nodes_ok g" and "alive g xs" and "length xs < length (methodList g)"
  shows "histories g xs = (\<Union>m \<in> set (getRootNodes g). histories g (xs @ [m]))"
proof
  show "(\<Union>m \<in> set (getRootNodes g). histories g (xs @ [m])) \<subseteq> histories g xs"
    by (auto simp: histories_def)
  show "histories g xs \<subseteq> (\<Union>m \<in> set (getRootNodes g). histories g (xs @ [m]))"
  proof
    fix ys
    assume ys: "ys \<in> histories g xs"
    then obtain zs where zs: "ys = xs @ zs" "is_history g ys" by (auto simp: histories_def)
    have "length ys = length (methodList g)"
      using zs(2) assms(2) taken_complete unfolding is_history_def by blast
    then obtain m zs' where m: "zs = m # zs'" using assms(4) zs(1) by (cases zs) auto
    have "taken g (take (length xs + 1) ys)"
      using zs(2) taken_take unfolding is_history_def by blast
    then have "taken g (xs @ [m])" by (simp add: zs(1) m)
    then have "m \<in> set (getRootNodes g)" using roots_iff [OF assms(3,2,1)] by blast
    then show "ys \<in> (\<Union>m \<in> set (getRootNodes g). histories g (xs @ [m]))"
      using zs m by (auto simp: histories_def)
  qed
qed

lemma histories_end:
  assumes "taken g xs" and "nodes_ok g" and "length xs = length (methodList g)"
  shows "histories g xs = {xs}"
proof -
  have full: "length ys = length (methodList g)" if "is_history g ys" for ys
    using that assms(2) taken_complete unfolding is_history_def by blast
  have "is_history g xs" using taken_complete [OF assms(1,2)] assms(3) by blast
  then show ?thesis using full assms(3) by (fastforce simp: histories_def)
qed

lemma try_roots_explored:
  assumes "\<And>m k g1. m \<in> set ms \<Longrightarrow> checks_only g g1
      \<Longrightarrow> explored_as (set_exist m False g1) (H m) (rec m k (set_exist m False g1))"
    and "\<And>m. m \<in> set ms \<Longrightarrow> exist g m"
  shows "explored_as g (\<Union>m \<in> set ms. H m) (try_roots rec True ms True k g)"
  using assms
proof (induction ms arbitrary: k g)
  case Nil
  have "checked g (call_state g) {} = g" by (rule checked_none)
  then show ?case by (auto simp: explored_as_def intro!: exI [of _ "call_state g"])
next
  case (Cons m ms)
  let ?g = "set_exist m False g"
  note eq = same_spec_eqs [OF same_spec_simps(5)]
  have "explored_as ?g (H m) (rec m k ?g)" using Cons.prems(1) [OF _ chk.refl] by simp
  then show ?case
  proof (cases rule: explored_asE)
    case (1 k' cs)
    let ?g1 = "checked g cs (H m)"
    have restored: "set_exist m True (checked ?g cs (H m)) = ?g1"
      using Cons.prems(2) [of m] fun_upd_idem [of "exist g" m True]
      by (simp add: checked_def set_exist_def eq [unfolded set_exist_def])
    have "explored_as ?g1 (\<Union>m \<in> set ms. H m) (try_roots rec True ms True k' ?g1)"
    proof (rule Cons.IH)
      fix m' k g1
      assume "m' \<in> set ms" and "checks_only ?g1 g1"
      then show "explored_as (set_exist m' False g1) (H m') (rec m' k (set_exist m' False g1))"
        using Cons.prems(1) chk.trans [of g ?g1 g1] by simp
    qed (use Cons.prems(2) in simp)
    then show ?thesis
      using 1 by (auto simp: explored_as_def restored checked_checked eq same_spec_eqs [OF checked_simps(1)])
  next
    case (2 k' g')
    then show ?thesis by (auto simp: explored_as_def eq)
  qed
qed

lemma all_histories_explored:
  assumes "alive g xs" and "nodes_ok g" and "taken g xs" and "\<not> gr_cyclic g" and "spec_complete g"
    and "n + length xs = length (methodList g)" and "is_history g h"
  shows "explored_as g (histories g xs) (all_histories True n xs k g)"
  using assms
proof (induction n arbitrary: xs k g)
  case 0
  have "set xs \<subseteq> set (methodList g)" using 0(3) by (simp add: taken_def)
  from checkStateSpec_exact [OF 0(5) this] obtain cs where
    "checkStateSpec xs g = Some (obeys_spec g xs, checked g cs {xs})" ..
  moreover have "histories g xs = {xs}" using histories_end [OF 0(3,2)] 0(6) by simp
  ultimately show ?case using 0(4) by (auto simp: explored_as_def)
next
  case (Suc n)
  have roots: "getRootNodes g \<noteq> []"
    using stuck_no_history [OF Suc.prems(1-3)] Suc.prems(6,7) by auto
  have split: "histories g xs = (\<Union>m \<in> set (getRootNodes g). histories g (xs @ [m]))"
    using histories_split [OF Suc.prems(3,2,1)] Suc.prems(6) by simp
  have "explored_as g (\<Union>m \<in> set (getRootNodes g). histories g (xs @ [m]))
      (try_roots (\<lambda>m. all_histories True n (xs @ [m])) True (getRootNodes g) True k g)"
  proof (rule try_roots_explored)
    fix m k g1
    assume m: "m \<in> set (getRootNodes g)" and "checks_only g g1"
    then obtain st j where g1: "g1 = g\<lparr>call_state := st, justified := j\<rparr>"
      unfolding checks_only_def by blast
    note eq = same_spec_eqs [OF same_spec_simps(6)]
    have "taken g (xs @ [m])" using roots_iff [OF Suc.prems(1-3)] m by blast
    moreover have "alive (set_exist m False g1) (xs @ [m])"
      using Suc.prems(1) by (auto simp: alive_def g1 set_exist_def)
    moreover have "\<not> gr_cyclic (set_exist m False g1)"
      using Suc.prems(4) by (simp add: g1 set_exist_def)
    ultimately have "explored_as (set_exist m False g1) (histories (set_exist m False g1) (xs @ [m]))
        (all_histories True n (xs @ [m]) k (set_exist m False g1))"
      using Suc.prems by (intro Suc.IH) (simp_all add: g1 eq)
    then show "explored_as (set_exist m False g1) (histories g (xs @ [m]))
        (all_histories True n (xs @ [m]) k (set_exist m False g1))"
      by (simp add: g1 histories_def eq)
  qed (simp add: getRootNodes_def)
  then show ?case using Suc.prems(4) roots split by (simp add: Let_def)
qed

end
