(* ===== verification/SpecBuild.thy ===== *)
theory SpecBuild
  imports SpecVerdict
begin

text \<open>
  What \<open>buildGraph\<close> establishes (\<open>spec_graph_ok\<close>): the nodes are distinct and closed under what is
  ordered before them, every call exists, none is justified yet, no history is kept, and a graph
  with a cycle is broken unless cycles are allowed. And what \<open>AssertEdges\<close> has checked about the
  edges when it returns.
\<close>

section \<open>The flags\<close>

text \<open>Building never unsets a flag, and finds a cycle only where that is allowed or breaks the graph.\<close>

definition flags_kept :: "('v, 's) spec_graph \<Rightarrow> ('v, 's) spec_graph \<Rightarrow> bool" where
  "flags_kept g g' \<longleftrightarrow> exist g' = exist g \<and> randomHistory g' = randomHistory g
     \<and> allowCyclic g' = allowCyclic g \<and> (\<forall>m. justified g' m \<longrightarrow> justified g m)
     \<and> (broken g \<longrightarrow> broken g') \<and> (gr_cyclic g' \<longrightarrow> gr_cyclic g \<or> allowCyclic g \<or> broken g')"

interpretation flags: frame flags_kept
  by unfold_locales (auto simp: flags_kept_def)

definition order_kept :: "('v, 's) spec_graph \<Rightarrow> ('v, 's) spec_graph \<Rightarrow> bool" where
  "order_kept g g' \<longleftrightarrow> methodList g' = methodList g \<and> next_call g' = next_call g
     \<and> (\<forall>m. allPrev (call_of g' m) = allPrev (call_of g m)) \<and> flags_kept g g'"

interpretation order: frame order_kept
  by unfold_locales (auto simp: order_kept_def intro: flags.refl flags.trans)

text \<open>The nodes on a set of calls.\<close>

definition closed_on :: "mref set \<Rightarrow> ('v, 's) spec_graph \<Rightarrow> bool" where
  "closed_on S g \<longleftrightarrow> (\<forall>m \<in> S. set (allPrev (call_of g m)) \<subseteq> S)"

definition nodes_built :: "('v, 's) spec_graph \<Rightarrow> bool" where
  "nodes_built g \<longleftrightarrow> distinct (methodList g) \<and> closed_on (set (methodList g)) g
     \<and> (\<forall>m \<in> set (methodList g). m < next_call g)"

lemma nodes_built_ok: "nodes_built g \<Longrightarrow> nodes_ok g"
  by (auto simp: nodes_built_def nodes_ok_def closed_on_def)

lemma order_kept_closed: "order_kept g g' \<Longrightarrow> closed_on S g' = closed_on S g"
  by (simp add: order_kept_def closed_on_def)

lemma order_kept_nodes: "order_kept g g' \<Longrightarrow> nodes_built g' = nodes_built g"
  by (auto simp: order_kept_def nodes_built_def closed_on_def)

lemma call_of_upd [simp]:
  "call_of (upd_call m f g) x = (if x = m then f (call_of g m) else call_of g x)"
  by (simp add: upd_call_def call_of_def)

lemma upd_call_flags [simp]:
  "flags_kept g (upd_call m f g)" "methodList (upd_call m f g) = methodList g"
  "next_call (upd_call m f g) = next_call g"
  by (auto simp: upd_call_def flags_kept_def)

lemma upd_call_order:
  "(\<And>c. allPrev (f c) = allPrev c) \<Longrightarrow> order_kept g (upd_call m f g)"
  by (simp add: order_kept_def)

section \<open>The operations\<close>

lemma conflict_result:
  assumes "conflict e m1 m2 g = Some (val, g')"
  shows "order_kept g g'" and "calls g' = calls g" and "val = conflict_value e (call_of g m1) (call_of g m2)"
    and "m1 \<noteq> m2"
  using assms
  by (auto simp: conflict_def order_kept_def flags_kept_def call_of_def Let_def split: if_splits)

lemma add_order_kept:
  "flags_kept g (add_order m1 m2 g)" "methodList (add_order m1 m2 g) = methodList g"
  "next_call (add_order m1 m2 g) = next_call g"
  by (simp_all add: add_order_def flags.trans [OF upd_call_flags(1) upd_call_flags(1)])

lemma set_set_insert [simp]: "set (set_insert m s) = insert m (set s)"
  by (auto simp: set_insert_def belong_def)

lemma add_order_closed: "closed_on S g \<Longrightarrow> m1 \<in> S \<Longrightarrow> closed_on S (add_order m1 m2 g)"
  by (auto simp: closed_on_def add_order_def)

lemma add_order_nodes:
  "nodes_built g \<Longrightarrow> m1 \<in> set (methodList g) \<Longrightarrow> nodes_built (add_order m1 m2 g)"
  by (simp add: nodes_built_def add_order_kept add_order_closed)

lemma edge_step_kept:
  assumes "edge_step e p g = Some g'" and "nodes_built g" and "p \<in> set (methodList g) \<times> set (methodList g)"
  shows "flags_kept g g' \<and> nodes_built g' \<and> methodList g' = methodList g"
proof -
  obtain m1 m2 where p: "p = (m1, m2)" by (cases p)
  obtain val g1 where c: "conflict e m1 m2 g = Some (val, g1)"
    and g': "g' = (if val = 1 then add_order m1 m2 g1 else if val = - 1 then add_order m2 m1 g1
      else if val = SELF_CYCLE \<and> allowCyclic g1 then add_order m2 m1 (add_order m1 m2 g1) else g1)"
    using assms(1) unfolding p edge_step_def by (auto simp: bind_eq_Some_conv)
  note o1 = conflict_result(1) [OF c]
  have n1: "nodes_built g1" and l1: "methodList g1 = methodList g" and f1: "flags_kept g g1"
    using o1 assms(2) order_kept_nodes [OF o1] by (simp_all add: order_kept_def)
  have mem: "m1 \<in> set (methodList g1)" "m2 \<in> set (methodList g1)" using assms(3) p l1 by simp_all
  have "flags_kept g1 g'" "methodList g' = methodList g1" "nodes_built g'"
    using mem n1 unfolding g'
    by (auto simp: add_order_kept add_order_nodes flags.refl
        intro: flags.trans [OF add_order_kept(1) add_order_kept(1)])
  then show ?thesis using flags.trans [OF f1] l1 by simp
qed

lemma later_pairs_mem: "p \<in> set (later_pairs xs) \<Longrightarrow> p \<in> set xs \<times> set xs"
  by (induction xs) auto

lemma edges_kept:
  assumes "fold_opt (edge_step e) ps g = Some g'" and "nodes_built g"
    and "set ps \<subseteq> set (methodList g) \<times> set (methodList g)"
  shows "flags_kept g g' \<and> nodes_built g' \<and> methodList g' = methodList g"
  using assms
proof (induction ps arbitrary: g)
  case Nil
  then show ?case by (simp add: flags.refl)
next
  case (Cons p ps)
  then obtain g1 where g1: "edge_step e p g = Some g1" "fold_opt (edge_step e) ps g1 = Some g'"
    by (auto simp: bind_eq_Some_conv)
  have "flags_kept g g1 \<and> nodes_built g1 \<and> methodList g1 = methodList g"
    using Cons.prems by (intro edge_step_kept [OF g1(1)]) auto
  then show ?case using Cons.IH [OF g1(2)] Cons.prems(3) by (auto intro: flags.trans)
qed

lemma new_call_kept:
  assumes "new_call c g = (m, g')"
  shows "m = next_call g" "next_call g' = Suc m" "methodList g' = methodList g" "flags_kept g g'"
    "call_of g' x = (if x = m then c else call_of g x)"
  using assms by (auto simp: new_call_def flags_kept_def call_of_def)

lemma new_call_nodes: "new_call c g = (m, g') \<Longrightarrow> nodes_built g \<Longrightarrow> nodes_built g'"
  using new_call_kept [of c g m g'] by (fastforce simp: nodes_built_def closed_on_def)

lemma MethodCall_new_allPrev: "MethodCall_new e name val b = Some c \<Longrightarrow> allPrev c = []"
  by (auto simp: MethodCall_new_def Let_def split: cstr.splits option.splits)

lemma add_fake_nodes_kept:
  fixes g :: "('v, 's) spec_graph"
  assumes "add_fake_nodes e g = Some g'" and "nodes_built g"
  shows "flags_kept g g' \<and> nodes_built g'"
proof -
  obtain cs cf :: "'v method_call" where c: "MethodCall_new e GRAPH_START None None = Some cs"
    "MethodCall_new e GRAPH_FINISH None None = Some cf"
    using assms(1) unfolding add_fake_nodes_def by (auto simp: bind_eq_Some_conv)
  obtain start g1 finish g2 where n: "new_call cs g = (start, g1)" "new_call cf g1 = (finish, g2)"
    by (metis surj_pair)
  note k1 = new_call_kept [OF n(1)] and k2 = new_call_kept [OF n(2)]
  define step where "step = (\<lambda>m (g :: ('v, 's) spec_graph). add_order m finish (add_order start m g))"
  define g3 where "g3 = add_order start finish g2"
  define g4 where "g4 = fold step (methodList g) g3"
  have g': "g' = g4\<lparr>methodList := start # methodList g4 @ [finish]\<rparr>"
    using assms(1) unfolding add_fake_nodes_def
    by (simp add: c n Let_def g3_def step_def g4_def add_order_kept k1 k2)
  let ?S = "insert start (insert finish (set (methodList g)))"
  have "closed_on ?S g2"
    using assms(2) k1 k2 c [THEN MethodCall_new_allPrev] by (auto simp: closed_on_def nodes_built_def)
  then have "closed_on ?S g3" by (simp add: g3_def add_order_closed)
  moreover have "flags_kept g g3" "methodList g3 = methodList g" "next_call g3 = next_call g2"
    using k1 k2 flags.trans [OF k1(4) k2(4)] flags.trans [OF _ add_order_kept(1)]
    by (auto simp: g3_def add_order_kept)
  ultimately have "closed_on ?S g4 \<and> flags_kept g g4 \<and> methodList g4 = methodList g
      \<and> next_call g4 = next_call g2"
    unfolding g4_def
  proof (rule_tac fold_invariant [where Q = "\<lambda>m. m \<in> set (methodList g)"], goal_cases)
    case (3 m h)
    then show ?case
      by (auto simp: step_def add_order_closed add_order_kept
          intro: flags.trans [OF flags.trans [OF _ add_order_kept(1)] add_order_kept(1)])
  qed simp_all
  moreover have "closed_on ?S g' = closed_on ?S g4" "flags_kept g4 g'"
    by (auto simp: g' closed_on_def call_of_def flags_kept_def)
  moreover have "set (methodList g') = ?S" if "methodList g4 = methodList g" using that by (auto simp: g')
  moreover have "distinct (methodList g')" if "methodList g4 = methodList g"
    using that assms(2) k1 k2 by (auto simp: g' nodes_built_def)
  moreover have "\<forall>m \<in> ?S. m < next_call g2" using assms(2) k1 k2 by (fastforce simp: nodes_built_def)
  ultimately show ?thesis by (auto simp: nodes_built_def g' intro: flags.trans)
qed

lemma extractMethod_kept:
  assumes "extractMethod mem e info act behind ahead g = Some (r, g')" and "nodes_built g"
  shows "flags_kept g g' \<and> nodes_built g'"
    and "r = Some (m, rest) \<Longrightarrow> nodes_built (g'\<lparr>methodList := methodList g' @ [m]\<rparr>)"
proof -
  obtain c ops where c: "MethodCall_new e (info_name info) (info_value info) (Some act) = Some c"
    and or: "extract_loop mem e 0 [] [] (act # behind) ahead = Some ops"
    using assms(1) unfolding extractMethod_def by (auto simp: bind_eq_Some_conv)
  define c' where "c' = (case ops of None \<Rightarrow> c | Some (os, _) \<Rightarrow> c\<lparr>orderingPoints := os\<rparr>)"
  obtain m' g1 where n: "new_call c' g = (m', g1)" by fastforce
  note k = new_call_kept [OF n]
  have e: "allPrev c' = []"
    using MethodCall_new_allPrev [OF c] by (simp add: c'_def split: option.splits prod.splits)
  have g': "flags_kept g1 g'" "methodList g' = methodList g1" "next_call g' = next_call g1"
    "call_of g' = call_of g1" "r = None \<or> (\<exists>rest. r = Some (m', rest))"
    using assms(1) n unfolding extractMethod_def c or c'_def
    by (auto simp: flags_kept_def call_of_def fun_eq_iff split: option.splits prod.splits if_splits)
  have n1: "nodes_built g1" using new_call_nodes [OF n assms(2)] .
  then show "flags_kept g g' \<and> nodes_built g'"
    using flags.trans [OF k(4) g'(1)] g'(2-4) by (simp add: nodes_built_def closed_on_def)
  assume "r = Some (m, rest)"
  then have m: "m = m'" using g'(5) by auto
  have "call_of (g'\<lparr>methodList := ms\<rparr>) = call_of g1" for ms
    using g'(4) by (simp add: call_of_def fun_eq_iff)
  moreover have "methodList g1 = methodList g" "next_call g1 = Suc m" "allPrev (call_of g1 m) = []"
    and "m \<notin> set (methodList g)"
    using k e m assms(2) by (auto simp: nodes_built_def)
  ultimately show "nodes_built (g'\<lparr>methodList := methodList g' @ [m]\<rparr>)"
    using n1 g'(2,3) by (auto simp: nodes_built_def closed_on_def)
qed

lemma append_flags: "flags_kept g (g\<lparr>methodList := ms\<rparr>)" "flags_kept g (g\<lparr>broken := True\<rparr>)"
  by (auto simp: flags_kept_def)

lemma broken_nodes: "nodes_built (g\<lparr>broken := True\<rparr>) = nodes_built g"
  by (simp add: nodes_built_def closed_on_def call_of_def)

lemma buildNodesFromThread_kept:
  assumes "buildNodesFromThread mem e behind ahead g = Some g'" and "nodes_built g"
  shows "flags_kept g g' \<and> nodes_built g'"
  using assms
proof (induction mem e behind ahead g rule: buildNodesFromThread.induct)
  case (1 mem e behind g)
  then show ?case by (simp add: flags.refl)
next
  case (2 mem e behind act ahead g)
  show ?case
  proof (cases "\<exists>info. getAnnotation mem (A e act) = Some (Some (INTERFACE_BEGIN info))")
    case False
    then show ?thesis
      using "2.prems" "2.IH"
      by (auto simp: broken_nodes append_flags split: option.splits spec_annotation.splits)
  next
    case True
    then obtain info where a: "getAnnotation mem (A e act) = Some (Some (INTERFACE_BEGIN info))" ..
    then obtain r g1 where x: "extractMethod mem e info act behind ahead g = Some (r, g1)"
      using "2.prems"(1) by (auto split: option.splits)
    note k = extractMethod_kept [OF x "2.prems"(2)]
    show ?thesis
    proof (cases r)
      case None
      then show ?thesis
        using "2.prems"(1) a x k(1) flags.trans [OF _ append_flags(2)] by (auto simp: broken_nodes)
    next
      case (Some y)
      then obtain m b' a' where y: "r = Some (m, b', a')" by (cases y) auto
      have "flags_kept (g1\<lparr>methodList := methodList g1 @ [m]\<rparr>) g' \<and> nodes_built g'"
        using "2.IH"(3) [OF a refl refl x refl] "2.prems"(1) a x y k(2) [OF y] by simp
      then show ?thesis
        using k(1) flags.trans [OF _ flags.trans [OF append_flags(1)]] by blast
    qed
  qed
qed

lemma buildNodesFromThreads_kept:
  assumes "buildNodesFromThreads mem e ls g = Some g'" and "nodes_built g"
  shows "flags_kept g g' \<and> nodes_built g'"
  using assms
proof (induction mem e ls g rule: buildNodesFromThreads.induct)
  case (3 mem e l ls g)
  obtain g1 where g1: "buildNodesFromThread mem e [] l g = Some g1"
    "(if broken g1 then Some g1 else buildNodesFromThreads mem e ls g1) = Some g'"
    using "3.prems"(1) by (auto simp: bind_eq_Some_conv)
  have k: "flags_kept g g1" "nodes_built g1"
    using buildNodesFromThread_kept [OF g1(1) "3.prems"(2)] by auto
  show ?case
  proof (cases "broken g1")
    case True
    then show ?thesis using g1 k by simp
  next
    case False
    then have "flags_kept g1 g' \<and> nodes_built g'" using g1 k "3.IH" by simp
    then show ?thesis using flags.trans [OF k(1)] by blast
  qed
qed (simp_all add: flags.refl)

lemma order_fold: "(\<And>x h. order_kept h (f x h)) \<Longrightarrow> order_kept g (fold f xs g)"
  by (induction xs arbitrary: g) (auto intro: order.refl order.trans)

lemma link_node_kept: "order_kept g (link_node m g)"
proof -
  have "order_kept h (link_prev m p h)" for p and h :: "('a, 'b) spec_graph"
    by (auto simp: link_prev_def upd_call_order order.refl
        intro: order.trans [OF upd_call_order upd_call_order])
  moreover have "order_kept h (add_concurrent m c h)" for c and h :: "('a, 'b) spec_graph"
    by (simp add: add_concurrent_def upd_call_order order.refl)
  ultimately show ?thesis
    unfolding link_node_def by (intro order.trans [OF order_fold order_fold])
qed

section \<open>The assertions\<close>

definition asserts_only :: "('v, 's) spec_graph \<Rightarrow> ('v, 's) spec_graph \<Rightarrow> bool" where
  "asserts_only g g' \<longleftrightarrow> order_kept g g' \<and> calls g' = calls g"

interpretation asserting: frame asserts_only
  by unfold_locales (auto simp: asserts_only_def intro: order.refl order.trans)

lemma assert_conflict_result:
  assumes "assert_conflict e P m1 m2 g = Some g'"
  shows "asserts_only g g'" and "P (conflict_value e (call_of g m1) (call_of g m2))"
  using assms
  by (auto simp: assert_conflict_def asserts_only_def bind_eq_Some_conv
      dest: conflict_result split: if_splits)

lemma assert_that_result:
  "assert_that b g = Some g' \<Longrightarrow> asserts_only g g'" "assert_that b g = Some g' \<Longrightarrow> b"
  by (auto simp: assert_that_def asserting.refl split: if_splits)

text \<open>A loop of assertions has checked every element, on the calls as they were.\<close>

lemma assert_loop:
  assumes "fold_opt f xs g = Some g'"
    and "\<And>x h h'. x \<in> set xs \<Longrightarrow> f x h = Some h' \<Longrightarrow> asserts_only h h' \<and> P x (calls h)"
  shows "asserts_only g g'" and "\<forall>x \<in> set xs. P x (calls g)"
proof -
  have "asserts_only g g' \<and> (\<forall>x \<in> set xs. P x (calls g))"
    using assms
  proof (induction xs arbitrary: g)
    case Nil
    then show ?case by (simp add: asserting.refl)
  next
    case (Cons x xs)
    then obtain h where h: "f x g = Some h" "fold_opt f xs h = Some g'"
      by (auto simp: bind_eq_Some_conv)
    have a: "asserts_only g h" "P x (calls g)" using Cons.prems(2) [OF _ h(1)] by auto
    have "asserts_only h g' \<and> (\<forall>x \<in> set xs. P x (calls h))"
      using Cons.prems(2) by (intro Cons.IH [OF h(2)]) auto
    then show ?case using a asserting.trans [OF a(1)] by (auto simp: asserts_only_def)
  qed
  then show "asserts_only g g'" and "\<forall>x \<in> set xs. P x (calls g)" by auto
qed

lemmas assert_only_loop = assert_loop(1) [where P = "\<lambda>_ _. True", simplified]

lemma has_middle_kept:
  assumes "has_middle e order_of m middles g = Some (b, g')"
  shows "asserts_only g g'"
proof -
  have "asserts_only (snd (False, g)) (snd (b, g'))"
    using assms unfolding has_middle_def
    by (rule asserting.fold)
      (auto simp: asserts_only_def bind_eq_Some_conv order.refl dest: conflict_result split: if_splits)
  then show ?thesis by simp
qed

lemma assert_unless:
  "(if b then Some g else f g) = Some g' \<Longrightarrow> (\<And>h. f g = Some h \<Longrightarrow> asserts_only g h) \<Longrightarrow> asserts_only g g'"
  by (auto simp: asserting.refl split: if_splits)

text \<open>The conflicts of a call with the others, as the assertions state them.\<close>

definition edges_checked :: "exec \<Rightarrow> mref \<Rightarrow> 'v call_graph \<Rightarrow> bool" where
  "edges_checked e m cs \<longleftrightarrow>
     (\<forall>p \<in> set (allPrev (the (cs m))). conflict_value e (the (cs p)) (the (cs m)) = 1)
     \<and> (\<forall>n \<in> set (allNext (the (cs m))). conflict_value e (the (cs m)) (the (cs n)) = 1)
     \<and> (\<forall>c \<in> set (concurrent (the (cs m))). conflict_value e (the (cs m)) (the (cs c)) = 0)"

lemma assert_node_result:
  assumes "assert_node e m g = Some g'"
  shows "asserts_only g g'" and "edges_checked e m (calls g)"
proof -
  define c where "c = call_of g m"
  obtain g1 g2 g3 g4 g5 g6 g7 where
    s1: "fold_opt (\<lambda>p. assert_conflict e (\<lambda>val. val = 1) p m) (allPrev c) g = Some g1"
    and s2: "fold_opt (\<lambda>n. assert_conflict e (\<lambda>val. val = 1) m n) (allNext c) g1 = Some g2"
    and s3: "fold_opt (\<lambda>x. assert_conflict e (\<lambda>val. val = 0) m x) (concurrent c) g2 = Some g3"
    and s4: "assert_that (1 + length (allPrev c) + length (allNext c) + length (concurrent c)
       = length (methodList g3)) g3 = Some g4"
    and s5: "fold_opt (\<lambda>prev g. do {
            g \<leftarrow> assert_that (belong (allPrev c) prev) g;
            fold_opt (\<lambda>middle g. if middle = prev then Some g
                else assert_conflict e (\<lambda>val. val \<noteq> 1) prev middle g) (allPrev c) g
          }) (prev_set c) g4 = Some g5"
    and s6: "fold_opt (\<lambda>prev g. if belong (prev_set c) prev then Some g
            else do {
              (hasMiddle, g) \<leftarrow> has_middle e (\<lambda>middle. (prev, middle)) prev (allPrev c) g;
              assert_that hasMiddle g
            }) (allPrev c) g5 = Some g6"
    and s7: "fold_opt (\<lambda>nxt g. do {
            g \<leftarrow> assert_that (belong (allNext c) nxt) g;
            fold_opt (\<lambda>middle g. if middle = nxt then Some g
                else assert_conflict e (\<lambda>val. val \<noteq> 1) middle nxt g) (allNext c) g
          }) (next_set c) g6 = Some g7"
    and s8: "fold_opt (\<lambda>nxt g. if belong (next_set c) nxt then Some g
            else do {
              (hasMiddle, g) \<leftarrow> has_middle e (\<lambda>middle. (middle, nxt)) nxt (allNext c) g;
              assert_that hasMiddle g
            }) (allNext c) g7 = Some g'"
    using assms unfolding assert_node_def c_def Let_def by (auto simp: bind_eq_Some_conv)
  note acr = assert_conflict_result [unfolded call_of_def]
  have r1: "asserts_only g g1 \<and> (\<forall>p \<in> set (allPrev c). conflict_value e (the (calls g p)) (the (calls g m)) = 1)"
    using assert_loop [OF s1, where P = "\<lambda>p cs. conflict_value e (the (cs p)) (the (cs m)) = 1"] acr by blast
  have r2: "asserts_only g1 g2 \<and> (\<forall>n \<in> set (allNext c). conflict_value e (the (calls g1 m)) (the (calls g1 n)) = 1)"
    using assert_loop [OF s2, where P = "\<lambda>n cs. conflict_value e (the (cs m)) (the (cs n)) = 1"] acr by blast
  have r3: "asserts_only g2 g3
      \<and> (\<forall>x \<in> set (concurrent c). conflict_value e (the (calls g2 m)) (the (calls g2 x)) = 0)"
    using assert_loop [OF s3, where P = "\<lambda>x cs. conflict_value e (the (cs m)) (the (cs x)) = 0"] acr by blast
  have inner: "fold_opt (\<lambda>middle g. if middle = x then Some g else assert_conflict e P (a middle) (b middle) g)
      ms h = Some h' \<Longrightarrow> asserts_only h h'" for x P a b ms h h'
    by (rule assert_only_loop) (auto dest: assert_conflict_result(1) intro: assert_unless)
  have r5: "asserts_only g4 g5"
    by (rule assert_only_loop [OF s5])
      (auto simp: bind_eq_Some_conv dest!: assert_that_result(1) inner intro: asserting.trans)
  have r6: "asserts_only g5 g6"
    by (rule assert_only_loop [OF s6], erule assert_unless)
      (auto simp: bind_eq_Some_conv dest!: assert_that_result(1) has_middle_kept intro: asserting.trans)
  have r7: "asserts_only g6 g7"
    by (rule assert_only_loop [OF s7])
      (auto simp: bind_eq_Some_conv dest!: assert_that_result(1) inner intro: asserting.trans)
  have r8: "asserts_only g7 g'"
    by (rule assert_only_loop [OF s8], erule assert_unless)
      (auto simp: bind_eq_Some_conv dest!: assert_that_result(1) has_middle_kept intro: asserting.trans)
  show "asserts_only g g'"
    using r1 r2 r3 assert_that_result(1) [OF s4] r5 r6 r7 r8 asserting.trans by metis
  have "calls g1 = calls g" "calls g2 = calls g"
    using r1 r2 by (simp_all add: asserts_only_def)
  then show "edges_checked e m (calls g)"
    using r1 r2 r3 by (simp add: edges_checked_def c_def call_of_def)
qed

lemma AssertEdges_result:
  assumes "AssertEdges e g = Some g'"
  shows "asserts_only g g'" and "\<forall>m \<in> set (methodList g). edges_checked e m (calls g)"
    and "\<not> gr_cyclic g"
proof -
  obtain g1 where g1: "assert_that (\<not> gr_cyclic g) g = Some g1"
    "fold_opt (assert_node e) (methodList g1) g1 = Some g'"
    using assms by (auto simp: AssertEdges_def bind_eq_Some_conv)
  then have [simp]: "g1 = g" and c: "\<not> gr_cyclic g" by (auto simp: assert_that_def split: if_splits)
  show "\<not> gr_cyclic g" by (rule c)
  have r: "asserts_only g g' \<and> (\<forall>m \<in> set (methodList g). edges_checked e m (calls g))"
    using assert_loop [OF g1(2) [simplified], where P = "edges_checked e"] assert_node_result by blast
  show "asserts_only g g'" using r ..
  show "\<forall>m \<in> set (methodList g). edges_checked e m (calls g)" using r ..
qed

section \<open>The whole graph\<close>

lemma edges_checked_kept:
  assumes "\<And>x. allPrev (the (cs' x)) = allPrev (the (cs x))"
    and "\<And>x. allNext (the (cs' x)) = allNext (the (cs x))"
    and "\<And>x. concurrent (the (cs' x)) = concurrent (the (cs x))"
    and "\<And>x y. conflict_value e (the (cs' x)) (the (cs' y)) = conflict_value e (the (cs x)) (the (cs y))"
  shows "edges_checked e m cs' = edges_checked e m cs"
  by (simp add: edges_checked_def assms)

lemma justify_node_kept:
  assumes "justify_node first m g = Some g'"
  shows "order_kept g g' \<and> gr_cyclic g' = gr_cyclic g
    \<and> (\<forall>x. edges_checked e x (calls g') = edges_checked e x (calls g))"
proof -
  obtain j where j: "g' = (upd_call m (\<lambda>c. c\<lparr>justifiedMethod := Some j\<rparr>) g)
      \<lparr>justified := (justified g)(m := False)\<rparr>"
    using assms by (auto simp: justify_node_def bind_eq_Some_conv split: if_splits)
  have "edges_checked e x (calls g') = edges_checked e x (calls g)" for x
    by (rule edges_checked_kept) (auto simp: j upd_call_def call_of_def conflict_value_def)
  moreover have "order_kept g g'"
    by (auto simp: j order_kept_def flags_kept_def upd_call_def call_of_def)
  moreover have "gr_cyclic g' = gr_cyclic g" by (simp add: j upd_call_def)
  ultimately show ?thesis by blast
qed

text \<open>Justifying nodes leaves the edges as they were checked.\<close>

definition justifies_only :: "exec \<Rightarrow> ('v, 's) spec_graph \<Rightarrow> ('v, 's) spec_graph \<Rightarrow> bool" where
  "justifies_only e g g' \<longleftrightarrow> order_kept g g' \<and> gr_cyclic g' = gr_cyclic g
     \<and> (\<forall>x. edges_checked e x (calls g') = edges_checked e x (calls g))"

interpretation justifying: frame "justifies_only e"
  by unfold_locales (auto simp: justifies_only_def intro: order.refl order.trans)

lemma initializeJustifiedNode_kept:
  assumes "initializeJustifiedNode first g = Some g'"
  shows "justifies_only e g g'"
  using assms unfolding initializeJustifiedNode_def
  by (rule justifying.fold [where p = "\<lambda>g. g"]) (use justify_node_kept justifies_only_def in blast)

lemma justifies_only_flags: "justifies_only e g g' \<Longrightarrow> flags_kept g g' \<and> nodes_built g' = nodes_built g
    \<and> methodList g' = methodList g"
  by (auto simp: justifies_only_def order_kept_nodes) (simp_all add: order_kept_def)

lemma fold_link_kept: "order_kept g (fold link_node ms g)"
  by (rule order_fold) (rule link_node_kept)

lemma buildEdges_kept:
  assumes "buildEdges first e g = Some g'" and "nodes_built g"
  shows "flags_kept g g' \<and> nodes_built g'
    \<and> (gr_cyclic g' \<or> (\<forall>m \<in> set (methodList g'). edges_checked e m (calls g')))"
proof -
  obtain g1 g2 g4 where
    s1: "fold_opt (edge_step e) (later_pairs (methodList g)) g = Some g1"
    and s2: "add_fake_nodes e g1 = Some g2"
    and s4: "(if \<not> gr_cyclic (fold link_node (methodList g2) g2)
        then AssertEdges e (fold link_node (methodList g2) g2)
        else Some (fold link_node (methodList g2) g2)) = Some g4"
    and s5: "(if \<not> gr_cyclic g4 then initializeJustifiedNode first g4 else Some g4) = Some g'"
    using assms(1) unfolding buildEdges_def Let_def by (auto simp: bind_eq_Some_conv)
  define g3 where "g3 = fold link_node (methodList g2) g2"
  have k1: "flags_kept g g1 \<and> nodes_built g1"
    using edges_kept [OF s1 assms(2)] later_pairs_mem by blast
  have k2: "flags_kept g1 g2 \<and> nodes_built g2" using add_fake_nodes_kept [OF s2] k1 by blast
  have o3: "order_kept g2 g3" unfolding g3_def by (rule fold_link_kept)
  then have k3: "flags_kept g g3" "nodes_built g3"
    using k1 k2 order_kept_nodes [OF o3] flags.trans unfolding order_kept_def by blast+
  show ?thesis
  proof (cases "gr_cyclic g3")
    case True
    then have "g4 = g3" "g' = g3" using s4 s5 by (auto simp: g3_def)
    then show ?thesis using k3 True by simp
  next
    case False
    then have a: "AssertEdges e g3 = Some g4" using s4 by (simp add: g3_def)
    have a4: "asserts_only g3 g4" "\<forall>m \<in> set (methodList g4). edges_checked e m (calls g4)"
      using AssertEdges_result [OF a] by (auto simp: asserts_only_def order_kept_def)
    then have k4: "flags_kept g3 g4" "nodes_built g4"
      using k3(2) order_kept_nodes by (auto simp: asserts_only_def order_kept_def)
    show ?thesis
    proof (cases "gr_cyclic g4")
      case True
      then show ?thesis using s5 k4 flags.trans [OF k3(1) k4(1)] by auto
    next
      case False
      then have j: "justifies_only e g4 g'" using s5 initializeJustifiedNode_kept by auto
      note jf = justifies_only_flags [OF j]
      have "flags_kept g g'" using flags.trans [OF flags.trans [OF k3(1) k4(1)]] jf by blast
      then show ?thesis using jf k4(2) a4(2) j by (simp add: justifies_only_def)
    qed
  qed
qed

text \<open>What the checks rely on.\<close>

definition spec_graph_ok :: "('v, 's) spec_graph \<Rightarrow> bool" where
  "spec_graph_ok g \<longleftrightarrow> nodes_ok g \<and> (\<forall>m. exist g m \<and> \<not> justified g m) \<and> randomHistory g = None
     \<and> (gr_cyclic g \<longrightarrow> allowCyclic g \<or> broken g)"

lemma buildGraph_result:
  assumes "buildGraph first mem e actions (ExecutionGraph_new junk allow) = Some g"
  shows "spec_graph_ok g \<and> allowCyclic g = allow
    \<and> (broken g \<or> gr_cyclic g \<or> (\<forall>m \<in> set (methodList g). edges_checked e m (calls g)))"
proof -
  let ?new = "ExecutionGraph_new junk allow"
  obtain g0 i where g0: "buildThreadLists e actions ?new = Some g0"
    and i: "first_init mem e actions = Some i"
    and g0': "(case i of
       None \<Rightarrow> Some (g0\<lparr>broken := True\<rparr>)
     | Some annoInit \<Rightarrow> do {
         g \<leftarrow> processInitAnnotation annoInit g0;
         g \<leftarrow> buildNodesFromThreads mem e (tl (threadLists g)) g;
         buildEdges first e g
       }) = Some g"
    using assms unfolding buildGraph_def by (auto simp: bind_eq_Some_conv)
  obtain ls where "g0 = ?new\<lparr>threadLists := ls\<rparr>"
    using g0 by (auto simp: bind_eq_Some_conv buildThreadLists_def)
  note g = g0' [unfolded this]
  have ok: "spec_graph_ok g1 \<and> allowCyclic g1 = allow" if "flags_kept ?new g1" "nodes_built g1"
    for g1 :: "('a, 'b) spec_graph"
    using that nodes_built_ok [OF that(2)]
    by (auto simp: spec_graph_ok_def flags_kept_def ExecutionGraph_new_def)
  show ?thesis
  proof (cases i)
    case None
    then show ?thesis
      using g ok [of g] by (auto simp: flags_kept_def nodes_built_def closed_on_def ExecutionGraph_new_def)
  next
    case (Some a)
    then obtain g1 g2 where g1: "processInitAnnotation a (?new\<lparr>threadLists := ls\<rparr>) = Some g1"
      and g2: "buildNodesFromThreads mem e (tl (threadLists g1)) g1 = Some g2"
      and g3: "buildEdges first e g2 = Some g"
      using g by (auto simp: bind_eq_Some_conv)
    have "g1 = ?new\<lparr>threadLists := ls, gr_spec := Some a\<rparr>"
      using g1 by (auto simp: processInitAnnotation_def bind_eq_Some_conv split: if_splits)
    then have k1: "flags_kept ?new g1" "nodes_built g1"
      by (auto simp: flags_kept_def nodes_built_def closed_on_def ExecutionGraph_new_def)
    have k2: "flags_kept g1 g2 \<and> nodes_built g2" using buildNodesFromThreads_kept [OF g2 k1(2)] .
    have k3: "flags_kept g2 g \<and> nodes_built g
        \<and> (gr_cyclic g \<or> (\<forall>m \<in> set (methodList g). edges_checked e m (calls g)))"
      using buildEdges_kept [OF g3] k2 by blast
    have "flags_kept ?new g" using flags.trans [OF flags.trans [OF k1(1)]] k2 k3 by blast
    then show ?thesis using ok k3 by blast
  qed
qed

end
