(* ===== verification/SpecProps.thy ===== *)
theory SpecProps
  imports SpecBuild
begin

text \<open>
  The properties of the specification checker: the histories of a graph that was built respect
  the order of the ordering points, the check of all histories is exact, and the plugin counts a
  trace as passed exactly when its graph has a history, all of them obey the specification and
  every call is justified in one of them.
\<close>

section \<open>The check of all histories\<close>

text \<open>What the check decides.\<close>

definition meets_spec :: "('v, 's) spec_graph \<Rightarrow> bool" where
  "meets_spec g \<longleftrightarrow> (\<forall>xs. is_history g xs \<longrightarrow> obeys_spec g xs)
     \<and> (\<forall>m \<in> set (methodList g). isFakeMethod g m \<or> (\<exists>xs. is_history g xs \<and> justifies g xs m))"

lemma same_spec_meets: "same_spec g g' \<Longrightarrow> meets_spec g' = meets_spec g"
  by (simp add: meets_spec_def same_spec_eqs)

lemma histories_Nil: "histories g [] = {xs. is_history g xs}"
  by (simp add: histories_def)

text \<open>
  Checking all histories decides the specification: the check returns, and it passes exactly
  when every history obeys the sequential specification and every call is justified in one of
  them, although the states, the marks and the existence of the calls are shared by all the
  checks and the search stops at the first failure.
\<close>

lemma checkAllHistories_exact:
  assumes "nodes_ok g" and "\<And>m. m \<in> set (methodList g) \<Longrightarrow> exist g m \<and> \<not> justified g m"
    and "\<not> gr_cyclic g" and "spec_complete g" and "is_history g h"
  shows "\<exists>pass g'. checkAllHistories stopOnFailure g = Some (pass, g') \<and> (pass \<longleftrightarrow> meets_spec g)"
proof -
  have "alive g []" using assms(2) by (simp add: alive_def)
  then have "explored_as g (histories g []) (all_histories True (length (methodList g)) [] 1 g)"
    using assms by (intro all_histories_explored) simp_all
  then show ?thesis
  proof (cases rule: explored_asE)
    case (1 k cs)
    have mem: "m \<in> set xs" if "is_history g xs" "m \<in> set (methodList g)" for m xs
      using that by (simp add: is_history_def)
    have "list_all (\<lambda>m. isFakeMethod g m \<or> justified (checked g cs (histories g [])) m) (methodList g)
        \<longleftrightarrow> (\<forall>m \<in> set (methodList g). isFakeMethod g m \<or> (\<exists>xs. is_history g xs \<and> justifies g xs m))"
      using mem assms(2) unfolding list_all_iff checked_def histories_Nil by simp blast
    then show ?thesis
      using 1 assms(3)
      by (auto simp: checkAllHistories_def meets_spec_def histories_Nil
          same_spec_base [OF checked_simps(1)])
  next
    case (2 k g')
    then show ?thesis
      using assms(3) by (auto simp: checkAllHistories_def meets_spec_def histories_Nil)
  qed
qed

section \<open>The verdict of the plugin\<close>

lemma hasCycle_keeps:
  assumes "hasCycle rnd g = (False, g')" and "spec_graph_ok g" and "\<not> gr_cyclic g"
  shows "same_spec g g'" and "\<And>m. m \<in> set (methodList g) \<Longrightarrow> exist g' m \<and> \<not> justified g' m"
    and "\<not> gr_cyclic g'"
proof -
  obtain ys g1 where r: "random_history rnd (length (methodList g)) [] g = (ys, g1)" by fastforce
  have ok: "alive g []" "nodes_ok g" "randomHistory g = None" "\<And>m. \<not> justified g m"
    using assms(2) by (simp_all add: alive_def spec_graph_ok_def)
  from random_history_result [OF r ok(1,2) taken_Nil assms(3)] have k: "generates_only g g1" by simp
  have "g' = g1\<lparr>exist := (\<lambda>m. m \<in> set (methodList g1) \<or> exist g1 m), randomHistory := Some ys\<rparr>"
    "\<not> gr_cyclic g1"
    using assms(1,3) ok(3) by (auto simp: hasCycle_def generateOneRandomHistory_def r split: if_splits)
  then show "same_spec g g'" "\<not> gr_cyclic g'"
    and "\<And>m. m \<in> set (methodList g) \<Longrightarrow> exist g' m \<and> \<not> justified g' m"
    using generates_only_static(1-4) [OF k] ok(4) by (simp_all add: same_spec_def)
qed

lemma check_graph_exact:
  assumes "spec_graph_ok g" and "\<not> gr_cyclic g" and "spec_complete g"
    and "\<not> checkCyclic s" and "checkRandomNum s \<le> 0"
  shows "\<exists>s'. check_graph rnd g s = Some ((\<exists>xs. is_history g xs) \<and> meets_spec g, s')
    \<and> passCnt (sp_stats s') = passCnt (sp_stats s) \<and> failedCnt (sp_stats s') = failedCnt (sp_stats s)
    \<and> cyclicCnt (sp_stats s') = cyclicCnt (sp_stats s) + (if \<exists>xs. is_history g xs then 0 else 1)"
proof -
  obtain b g' where c: "hasCycle rnd g = (b, g')" by fastforce
  have "b \<longleftrightarrow> (\<nexists>xs. is_history g xs)"
    using hasCycle_exact [OF c] assms(1,2) by (simp add: spec_graph_ok_def)
  then show ?thesis
  proof (cases b)
    case True
    then show ?thesis
      using \<open>b \<longleftrightarrow> _\<close> assms(4) by (auto simp: check_graph_def c count_def Let_def)
  next
    case False
    then obtain h where h: "is_history g h" using \<open>b \<longleftrightarrow> _\<close> by blast
    have "hasCycle rnd g = (False, g')" using c False by simp
    note k = hasCycle_keeps [OF this assms(1,2)]
    note eq = same_spec_eqs [OF k(1)] same_spec_meets [OF k(1)]
    obtain pass g'' where "checkAllHistories True g' = Some (pass, g'')" "pass \<longleftrightarrow> meets_spec g'"
      using checkAllHistories_exact [of g' h True] k assms(1,3) h by (auto simp: eq spec_graph_ok_def)
    then show ?thesis using False h assms(5) by (auto simp: check_graph_def c eq)
  qed
qed

lemma count_keeps: "checkCyclic (count f s) = checkCyclic s"
  by (simp add: count_def)

text \<open>
  C10: the verdict on a trace. A trace without bugs whose graph is built, not broken and admissible
  is counted as passed exactly when the graph has a history, every history obeys the
  specification and every call is justified in one of them; it is counted as failed otherwise,
  and as cyclic when there is no history. No number \<open>rand\<close> returns matters, nor what fresh memory
  holds_for, nor the order of addresses.
\<close>

theorem spec_verdict:
  assumes "buildGraph (lowest h e) (anno_memory h e) e actions
      (ExecutionGraph_new (fresh_states h e) False) = Some g"
    and "\<not> have_bug_reports e" and "\<not> broken g" and "checkAdmissibility g = Some True"
    and "spec_complete g" and "\<not> checkCyclic s" and "checkRandomNum s \<le> 0"
  shows "\<exists>s'. spec_analyze h e actions s = Some s'
    \<and> passCnt (sp_stats s') = passCnt (sp_stats s)
        + (if (\<exists>xs. is_history g xs) \<and> meets_spec g then 1 else 0)
    \<and> failedCnt (sp_stats s') = failedCnt (sp_stats s)
        + (if (\<exists>xs. is_history g xs) \<and> meets_spec g then 0 else 1)
    \<and> cyclicCnt (sp_stats s') = cyclicCnt (sp_stats s) + (if \<exists>xs. is_history g xs then 0 else 1)"
proof -
  have ok: "spec_graph_ok g" "allowCyclic g = False" using buildGraph_result [OF assms(1)] by auto
  then have "\<not> gr_cyclic g" using assms(3) by (simp add: spec_graph_ok_def)
  from check_graph_exact [OF ok(1) this assms(5)]
  have chk: "\<not> checkCyclic s1 \<Longrightarrow> checkRandomNum s1 \<le> 0 \<Longrightarrow> \<exists>s'. check_graph (random_numbers h e) g s1
        = Some ((\<exists>xs. is_history g xs) \<and> meets_spec g, s')
      \<and> passCnt (sp_stats s') = passCnt (sp_stats s1) \<and> failedCnt (sp_stats s') = failedCnt (sp_stats s1)
      \<and> cyclicCnt (sp_stats s') = cyclicCnt (sp_stats s1) + (if \<exists>xs. is_history g xs then 0 else 1)"
    for s1 by blast
  define s1 where "s1 = count (\<lambda>c. c\<lparr>bugfreeCnt := bugfreeCnt c + 1\<rparr>)
      (count (\<lambda>c. c\<lparr>traceCnt := traceCnt c + 1\<rparr>) s)"
  define s2 where "s2 = (if isNoOrderingPoint g
      then count (\<lambda>c. c\<lparr>noOrderingPointCnt := noOrderingPointCnt c + 1\<rparr>) s1 else s1)"
  have s2: "passCnt (sp_stats s2) = passCnt (sp_stats s)" "failedCnt (sp_stats s2) = failedCnt (sp_stats s)"
    "cyclicCnt (sp_stats s2) = cyclicCnt (sp_stats s)" "\<not> checkCyclic s2" "checkRandomNum s2 \<le> 0"
    "checkCyclic s1 = False"
    using assms(6,7) by (simp_all add: s2_def s1_def count_def)
  obtain s3 where s3: "check_graph (random_numbers h e) g s2
        = Some ((\<exists>xs. is_history g xs) \<and> meets_spec g, s3)"
      "passCnt (sp_stats s3) = passCnt (sp_stats s)" "failedCnt (sp_stats s3) = failedCnt (sp_stats s)"
      "cyclicCnt (sp_stats s3) = cyclicCnt (sp_stats s) + (if \<exists>xs. is_history g xs then 0 else 1)"
    using chk [OF s2(4,5)] s2(1-3) by auto
  have "spec_analyze h e actions s = Some (if \<not> ((\<exists>xs. is_history g xs) \<and> meets_spec g)
      then count (\<lambda>c. c\<lparr>failedCnt := failedCnt c + 1\<rparr>) s3
      else count (\<lambda>c. c\<lparr>passCnt := passCnt c + 1\<rparr>) s3)"
    unfolding spec_analyze_def Let_def
    using assms(2-4,6) s3(1) [unfolded s2_def s1_def]
    by (simp add: s1_def s2_def assms(1) isBroken_def count_keeps split del: if_split)
  then show ?thesis using s3(2-4) by (auto simp: count_def)
qed

section \<open>What the edges mean\<close>

lemma conflict_loop_stays: "val \<noteq> 0 \<Longrightarrow> conflict_loop vs val = val \<or> conflict_loop vs val = SELF_CYCLE"
  by (induction vs val rule: conflict_loop.induct) auto

lemma conflict_loop_one:
  assumes "conflict_loop vs val = 1" and "val = 0 \<or> val = 1"
  shows "set vs \<subseteq> {0, 1} \<and> (val = 1 \<or> 1 \<in> set vs)"
  using assms
proof (induction vs val rule: conflict_loop.induct)
  case (2 res rest val)
  then show ?case
    using conflict_loop_stays [of res rest] by (auto split: if_splits simp: SELF_CYCLE_def)
qed auto

text \<open>
  C16: the order of the graph is that of the ordering points. In a graph that was built from a
  trace and is neither broken nor cyclic, every history lists a call after the calls that are
  ordered before it, and of two calls ordered so no ordering point of the later one comes before
  one of the earlier, and some come after.
\<close>

theorem histories_respect_ordering_points:
  assumes "buildGraph first mem e actions (ExecutionGraph_new junk allow) = Some g"
    and "\<not> broken g" and "\<not> gr_cyclic g" and "is_history g xs" and "i < length xs"
    and "p \<in> set (allPrev (call_of g (xs ! i)))" and "\<not> isFakeMethod g p"
    and "\<not> isFakeMethod g (xs ! i)"
  shows "(\<exists>j < i. xs ! j = p)
    \<and> (\<forall>a \<in> set (orderingPoints (call_of g p)). \<forall>b \<in> set (orderingPoints (call_of g (xs ! i))).
         conflict_actions e a b \<noteq> - 1)
    \<and> (\<exists>a \<in> set (orderingPoints (call_of g p)). \<exists>b \<in> set (orderingPoints (call_of g (xs ! i))).
         conflict_actions e a b = 1)"
proof -
  let ?m = "xs ! i"
  let ?pairs = "List.product (orderingPoints (call_of g p)) (orderingPoints (call_of g ?m))"
  let ?vals = "map (\<lambda>(a, b). conflict_actions e a b) ?pairs"
  have "?m \<in> set (methodList g)" using assms(4) nth_mem [OF assms(5)] by (simp add: is_history_def)
  then have "edges_checked e ?m (calls g)" using buildGraph_result [OF assms(1)] assms(2,3) by blast
  then have "conflict_value e (call_of g p) (call_of g ?m) = 1"
    using assms(6) by (simp add: edges_checked_def call_of_def)
  then have "conflict_loop ?vals 0 = 1"
    using assms(7,8) by (auto simp: conflict_value_def isFakeMethod_def isStartMethod_def
        isFinishMethod_def split: if_splits)
  then have vals: "set ?vals \<subseteq> {0, 1} \<and> 1 \<in> set ?vals"
    using conflict_loop_one [of ?vals 0] zero_neq_one by metis
  then have sub: "set ?vals \<subseteq> {0, 1}" ..
  have one: "1 \<in> set ?vals" using vals ..
  have "set (allPrev (call_of g ?m)) \<subseteq> set (take i xs)"
    using assms(4,5) by (simp add: is_history_def taken_def)
  then have "p \<in> set (take i xs)" using assms(6) by blast
  then have "\<exists>j < i. xs ! j = p" by (auto simp: in_set_conv_nth)
  moreover have "conflict_actions e a b \<in> {0, 1}"
    if "a \<in> set (orderingPoints (call_of g p))" "b \<in> set (orderingPoints (call_of g ?m))" for a b
    using sub that by auto
  then have "conflict_actions e a b \<noteq> - 1"
    if "a \<in> set (orderingPoints (call_of g p))" "b \<in> set (orderingPoints (call_of g ?m))" for a b
    using that by force
  moreover have "\<exists>a \<in> set (orderingPoints (call_of g p)). \<exists>b \<in> set (orderingPoints (call_of g ?m)).
      conflict_actions e a b = 1"
    using one by (simp add: image_iff)
  ultimately show ?thesis by blast
qed

section \<open>Admissibility\<close>

text \<open>A rule that is about two calls lets them commute.\<close>

definition commutes :: "('v, 's) spec_graph \<Rightarrow> 'v commutativity_rule \<Rightarrow> mref \<Rightarrow> mref \<Rightarrow> bool" where
  "commutes g rule m1 m2 \<longleftrightarrow>
     (if call_name (call_of g m1) = method1 rule \<and> call_name (call_of g m2) = method2 rule
      then rule_condition rule (calls g) m1 m2
      else if call_name (call_of g m1) = method2 rule \<and> call_name (call_of g m2) = method1 rule
      then rule_condition rule (calls g) m2 m1
      else True)"

lemma commute_rules_exact:
  assumes "calls g m1 \<noteq> None" and "calls g m2 \<noteq> None"
  shows "commute_rules (calls g) rules m1 m2 = Some (\<forall>rule \<in> set rules. commutes g rule m1 m2)"
proof -
  obtain c1 c2 where c: "calls g m1 = Some c1" "calls g m2 = Some c2" using assms by auto
  have one: "(if \<not> isRightRule rule c1 c2 then rest
      else do { b \<leftarrow> checkCondition (calls g) rule m1 m2; if \<not> b then Some False else rest })
      = (if commutes g rule m1 m2 then rest else Some False)" for rule rest
    by (simp add: commutes_def call_of_def isRightRule_def checkCondition_def c)
  show ?thesis by (induction rules) (simp_all add: c one del: not_Some_eq)
qed


end
