(* ===== verification/SpecSample.thy ===== *)
theory SpecSample
  imports SpecProps ExecSample
begin

text \<open>
  A trace on which the properties of the specification checker are tried: a register that one
  thread writes and another reads, with its annotations and its specification. The graph is built
  by the code's own steps, on calls kept in a table (\<open>on_table\<close>).
\<close>

section \<open>A trace and its graph\<close>

text \<open>
  A register: thread 1 writes 5, then thread 2 reads 5; the state is the value. A read may also be
  justified by what is ordered before it.
\<close>

definition register_write :: "(nat, nat) state_functions" where
  "register_write = \<lparr>
     transition = Some \<lparr>nf_name = Cstr 21, nf_type = TRANSITION,
       nf_function = Some (\<lambda>cs target st m. (True, call_value (the (cs m))))\<rparr>,
     preCondition = Some \<lparr>nf_name = Cstr 22, nf_type = PRE_CONDITION, nf_function = None\<rparr>,
     justifyingPrecondition = Some \<lparr>nf_name = Cstr 23, nf_type = JUSTIFYING_PRECONDITION, nf_function = None\<rparr>,
     justifyingPostcondition = Some \<lparr>nf_name = Cstr 24, nf_type = JUSTIFYING_POSTCONDITION, nf_function = None\<rparr>,
     postCondition = Some \<lparr>nf_name = Cstr 25, nf_type = POST_CONDITION, nf_function = None\<rparr>,
     print_value = None\<rparr>"

definition register_read :: "(nat, nat) state_functions" where
  "register_read = register_write\<lparr>
     transition := Some \<lparr>nf_name = Cstr 31, nf_type = TRANSITION,
       nf_function = Some (\<lambda>cs target st m. (True, st))\<rparr>,
     justifyingPrecondition := Some \<lparr>nf_name = Cstr 33, nf_type = JUSTIFYING_PRECONDITION,
       nf_function = Some (\<lambda>cs target st m. st = call_value (the (cs m)))\<rparr>,
     postCondition := Some \<lparr>nf_name = Cstr 35, nf_type = POST_CONDITION,
       nf_function = Some (\<lambda>cs target st m. st = call_value (the (cs m)))\<rparr>\<rparr>"

definition register_spec :: "(nat, nat) anno_init" where
  "register_spec = \<lparr>
     ai_initial = Some \<lparr>nf_name = Cstr 11, nf_type = INITIAL, nf_function = Some (\<lambda>cs m st. Some 0)\<rparr>,
     ai_final = Some \<lparr>nf_name = Cstr 12, nf_type = FINAL, nf_function = None\<rparr>,
     ai_copy = Some \<lparr>nf_name = Cstr 13, nf_type = COPY, nf_function = None\<rparr>,
     ai_clear = Some \<lparr>nf_name = Cstr 14, nf_type = CLEAR, nf_function = Some (\<lambda>cs m st. None)\<rparr>,
     ai_printState = Some \<lparr>nf_name = Cstr 15, nf_type = PRINT_STATE, nf_function = None\<rparr>,
     ai_funcMap = [Cstr 1 \<mapsto> register_write, Cstr 2 \<mapsto> register_read],
     ai_commuteRules = [], ai_commuteRuleNum = 0\<rparr>"

definition register_memory :: "(nat, nat) annotations" where
  "register_memory = [10 \<mapsto> INIT register_spec,
     11 \<mapsto> INTERFACE_BEGIN \<lparr>info_name = Cstr 1, info_value = Some 5\<rparr>,
     12 \<mapsto> OP_DEFINE, 13 \<mapsto> INTERFACE_END (Cstr 1),
     14 \<mapsto> INTERFACE_BEGIN \<lparr>info_name = Cstr 2, info_value = Some 5\<rparr>,
     15 \<mapsto> INTERFACE_END (Cstr 2)]"

definition register_trace :: exec where
  "register_trace = (sample_exec [
      11 \<mapsto> sample_act ATOMIC_ANNOTATION memory_order_relaxed 10 1 1 1 [0, 1],
      12 \<mapsto> sample_act ATOMIC_ANNOTATION memory_order_relaxed 11 1 1 2 [0, 2],
      13 \<mapsto> sample_act ATOMIC_WRITE memory_order_release 64 5 1 3 [0, 3],
      14 \<mapsto> sample_act ATOMIC_ANNOTATION memory_order_relaxed 12 1 1 4 [0, 4],
      15 \<mapsto> sample_act ATOMIC_ANNOTATION memory_order_relaxed 13 1 1 5 [0, 5],
      16 \<mapsto> sample_act ATOMIC_ANNOTATION memory_order_relaxed 14 1 2 6 [0, 0, 6],
      17 \<mapsto> (sample_act ATOMIC_READ memory_order_acquire 64 0 2 7 [0, 3, 7])\<lparr>reads_from := Some 13\<rparr>,
      18 \<mapsto> sample_act ATOMIC_ANNOTATION memory_order_relaxed 12 1 2 8 [0, 3, 8],
      19 \<mapsto> sample_act ATOMIC_ANNOTATION memory_order_relaxed 15 1 2 9 [0, 3, 9]])
    \<lparr>action_trace := [11, 12, 13, 14, 15, 16, 17, 18, 19]\<rparr>"

definition register_host :: "(nat, nat) spec_host" where
  "register_host = \<lparr>anno_memory = (\<lambda>_. register_memory), lowest = (\<lambda>_. hd),
     random_numbers = (\<lambda>_ _. 0), fresh_states = (\<lambda>_ _. None)\<rparr>"

lemma register_actions:
  "getAnnotation register_memory (A register_trace 11) = Some (Some (INIT register_spec))"
  "getAnnotation register_memory (A register_trace 12)
     = Some (Some (INTERFACE_BEGIN \<lparr>info_name = Cstr 1, info_value = Some 5\<rparr>))"
  "getAnnotation register_memory (A register_trace 13) = Some None"
  "getAnnotation register_memory (A register_trace 14) = Some (Some OP_DEFINE)"
  "getAnnotation register_memory (A register_trace 15) = Some (Some (INTERFACE_END (Cstr 1)))"
  "getAnnotation register_memory (A register_trace 16)
     = Some (Some (INTERFACE_BEGIN \<lparr>info_name = Cstr 2, info_value = Some 5\<rparr>))"
  "getAnnotation register_memory (A register_trace 17) = Some None"
  "getAnnotation register_memory (A register_trace 18) = Some (Some OP_DEFINE)"
  "getAnnotation register_memory (A register_trace 19) = Some (Some (INTERFACE_END (Cstr 2)))"
  "act_type (A register_trace 13) \<noteq> ATOMIC_ANNOTATION" "act_type (A register_trace 17) \<noteq> ATOMIC_ANNOTATION"
  "tid (A register_trace 11) = 1" "tid (A register_trace 12) = 1" "tid (A register_trace 13) = 1"
  "tid (A register_trace 14) = 1" "tid (A register_trace 15) = 1" "tid (A register_trace 16) = 2"
  "tid (A register_trace 17) = 2" "tid (A register_trace 18) = 2" "tid (A register_trace 19) = 2"
  "seq_number (A register_trace 12) = 2" "seq_number (A register_trace 16) = 6"
  "happens register_trace 13 17" "\<not> happens register_trace 17 13"
  "action_trace register_trace = [11, 12, 13, 14, 15, 16, 17, 18, 19]" "bugs register_trace = []"
  by (simp_all add: register_trace_def register_memory_def getAnnotation_def SPEC_ANALYSIS_def sample_simps)

section \<open>Calls in a table\<close>

definition table :: "'v method_call list \<Rightarrow> 'v call_graph" where
  "table l m = (if m < length l then Some (l ! m) else None)"

definition on_table :: "('v, 's) spec_graph \<Rightarrow> 'v method_call list \<Rightarrow> ('v, 's) spec_graph" where
  "on_table g l = g\<lparr>calls := table l\<rparr>"

lemma on_table_fields [simp]:
  "methodList (on_table g l) = methodList g" "gr_cyclic (on_table g l) = gr_cyclic g"
  "(on_table g l)\<lparr>methodList := ms\<rparr> = on_table (g\<lparr>methodList := ms\<rparr>) l"
  "calls (on_table g l) = table l"
  "m < length l \<Longrightarrow> call_of (on_table g l) m = l ! m"
  by (simp_all add: on_table_def call_of_def table_def)

lemma upd_call_table [simp]:
  "m < length l \<Longrightarrow> upd_call m f (on_table g l) = on_table g (l[m := f (l ! m)])"
  by (auto simp: upd_call_def on_table_def call_of_def table_def fun_eq_iff nth_list_update)

lemma new_call_table [simp]:
  "next_call g = length l \<Longrightarrow>
     new_call c (on_table g l) = (length l, on_table (g\<lparr>next_call := length l + 1\<rparr>) (l @ [c]))"
  by (auto simp: new_call_def on_table_def table_def fun_eq_iff nth_append)

lemma add_order_table [simp]:
  "m1 < length l \<Longrightarrow> m2 < length l \<Longrightarrow> add_order m1 m2 (on_table g l)
     = on_table g ((l[m1 := (l ! m1)\<lparr>allNext := set_insert m2 (allNext (l ! m1))\<rparr>])
         [m2 := (l[m1 := (l ! m1)\<lparr>allNext := set_insert m2 (allNext (l ! m1))\<rparr>] ! m2)
           \<lparr>allPrev := set_insert m1 (allPrev (l[m1 := (l ! m1)\<lparr>allNext := set_insert m2 (allNext (l ! m1))\<rparr>] ! m2))\<rparr>])"
  by (simp add: add_order_def)

lemma link_prev_table [simp]:
  "m < length l \<Longrightarrow> p < length l \<Longrightarrow> m \<noteq> p \<Longrightarrow> link_prev m p (on_table g l)
     = on_table g (if disjoint (allPrev (l ! m)) (allNext (l ! p))
         then l[m := (l ! m)\<lparr>prev_set := set_insert p (prev_set (l ! m))\<rparr>,
                p := (l ! p)\<lparr>next_set := set_insert m (next_set (l ! p))\<rparr>] else l)"
  by (simp add: link_prev_def)

lemma add_concurrent_table [simp]:
  "m < length l \<Longrightarrow> add_concurrent m p (on_table g l) = on_table g
     (if p \<noteq> m \<and> \<not> belong (allPrev (l ! m)) p \<and> \<not> belong (allNext (l ! m)) p
      then l[m := (l ! m)\<lparr>concurrent := set_insert p (concurrent (l ! m))\<rparr>] else l)"
  by (simp add: add_concurrent_def)

section \<open>The nodes\<close>

text \<open>Calls 0 and 1 are the write and the read, 2 and 3 the fake ones.\<close>

definition register_call :: "mref \<Rightarrow> mref list \<Rightarrow> mref list \<Rightarrow> mref list \<Rightarrow> mref list \<Rightarrow> mref option
    \<Rightarrow> nat method_call" where
  "register_call m aP aN pS nS j =
     \<lparr>call_id = [2, 6, METHOD_ID_MIN, METHOD_ID_MAX] ! m, call_tid = [1, 2, 1, 1] ! m,
      call_name = [Cstr 1, Cstr 2, GRAPH_START, GRAPH_FINISH] ! m,
      call_value = [Some 5, Some 5, None, None] ! m, prev_set = pS, next_set = nS, concurrent = [],
      justifiedMethod = j, call_begin = [Some 12, Some 16, None, None] ! m,
      orderingPoints = [[13], [17], [], []] ! m, allPrev = aP, allNext = aN\<rparr>"

lemma register_call_fields [simp]:
  "allPrev (register_call m aP aN pS nS j) = aP" "allNext (register_call m aP aN pS nS j) = aN"
  "prev_set (register_call m aP aN pS nS j) = pS" "next_set (register_call m aP aN pS nS j) = nS"
  "concurrent (register_call m aP aN pS nS j) = []"
  "(register_call m aP aN pS nS j)\<lparr>allPrev := x\<rparr> = register_call m x aN pS nS j"
  "(register_call m aP aN pS nS j)\<lparr>allNext := x\<rparr> = register_call m aP x pS nS j"
  "(register_call m aP aN pS nS j)\<lparr>prev_set := x\<rparr> = register_call m aP aN x nS j"
  "(register_call m aP aN pS nS j)\<lparr>next_set := x\<rparr> = register_call m aP aN pS x j"
  "(register_call m aP aN pS nS j)\<lparr>justifiedMethod := y\<rparr> = register_call m aP aN pS nS y"
  by (simp_all add: register_call_def)

definition register_base :: "nat \<Rightarrow> mref list \<Rightarrow> (nat, nat) spec_graph" where
  "register_base n ms = (ExecutionGraph_new (\<lambda>_. None) False)\<lparr>next_call := n,
     threadLists := [None, Some [11, 12, 13, 14, 15], Some [16, 17, 18, 19]], methodList := ms,
     gr_spec := Some register_spec\<rparr>"

lemma register_base_fields [simp]:
  "methodList (register_base n ms) = ms" "next_call (register_base n ms) = n"
  "gr_cyclic (register_base n ms) = False" "allowCyclic (register_base n ms) = False"
  "broken (register_base n ms) = False" "gr_spec (register_base n ms) = Some register_spec"
  "(register_base n ms)\<lparr>next_call := n'\<rparr> = register_base n' ms"
  "(register_base n ms)\<lparr>methodList := ms'\<rparr> = register_base n ms'"
  by (simp_all add: register_base_def ExecutionGraph_new_def)

lemma register_threads:
  "buildThreadLists register_trace [11, 12, 13, 14, 15, 16, 17, 18, 19] (ExecutionGraph_new (\<lambda>_. None) False)
     = Some ((ExecutionGraph_new (\<lambda>_. None) False)
         \<lparr>threadLists := [None, Some [11, 12, 13, 14, 15], Some [16, 17, 18, 19]]\<rparr>)"
  by (simp add: buildThreadLists_def thread_list_step_def register_actions ExecutionGraph_new_def
      vec_resize_def Let_def)

lemma register_init:
  "first_init register_memory register_trace [11, 12, 13, 14, 15, 16, 17, 18, 19] = Some (Some register_spec)"
  by (subst first_init.simps(2)) (simp add: register_actions del: first_init.simps)

lemma register_functions: "processInitAnnotation register_spec g = Some (g\<lparr>gr_spec := Some register_spec\<rparr>)"
  by (simp add: processInitAnnotation_def register_spec_def)

lemma register_table:
  "[0 \<mapsto> c, Suc 0 \<mapsto> d] = table [c, d]"
  by (auto simp: table_def fun_eq_iff less_Suc_eq nth_Cons split: nat.splits)

lemma register_nodes:
  "buildNodesFromThreads register_memory register_trace [Some [11, 12, 13, 14, 15], Some [16, 17, 18, 19]]
     ((ExecutionGraph_new (\<lambda>_. None) False)
         \<lparr>threadLists := [None, Some [11, 12, 13, 14, 15], Some [16, 17, 18, 19]], gr_spec := Some register_spec\<rparr>)
   = Some (on_table (register_base 2 [0, 1])
       [register_call 0 [] [] [] [] None, register_call 1 [] [] [] [] None])"
  by (simp add: register_actions ExecutionGraph_new_def extractMethod_def MethodCall_new_def Let_def
      new_call_def findPrevAction_def addOrderingPoint_def register_base_def on_table_def
      register_table [symmetric] register_call_def)

section \<open>The edges\<close>

lemma register_values:
  "conflict_value register_trace (register_call 0 a b c d j) (register_call 1 a' b' c' d' j') = 1"
  "conflict_value register_trace (register_call 1 a b c d j) (register_call 0 a' b' c' d' j') = - 1"
  "conflict_value register_trace (register_call 2 a b c d j) (register_call m a' b' c' d' j') = 1"
  "conflict_value register_trace (register_call 0 a b c d j) (register_call 3 a' b' c' d' j') = 1"
  "conflict_value register_trace (register_call 1 a b c d j) (register_call 3 a' b' c' d' j') = 1"
  "conflict_value register_trace (register_call 0 a b c d j) (register_call 2 a' b' c' d' j') = 0"
  "conflict_value register_trace (register_call 1 a b c d j) (register_call 2 a' b' c' d' j') = 0"
  "conflict_value register_trace (register_call 3 a b c d j) (register_call 0 a' b' c' d' j') = 0"
  "conflict_value register_trace (register_call 3 a b c d j) (register_call 1 a' b' c' d' j') = 0"
  "conflict_value register_trace (register_call 3 a b c d j) (register_call 2 a' b' c' d' j') = 0"
  by (simp_all add: conflict_value_def register_call_def conflict_actions_def register_actions)

lemma conflict_table:
  "m1 \<noteq> m2 \<Longrightarrow> m1 < length l \<Longrightarrow> m2 < length l \<Longrightarrow> conflict_value e (l ! m1) (l ! m2) \<noteq> SELF_CYCLE
     \<Longrightarrow> conflict e m1 m2 (on_table g l) = Some (conflict_value e (l ! m1) (l ! m2), on_table g l)"
  by (simp add: conflict_def)

lemma register_edges:
  "fold_opt (edge_step register_trace) (later_pairs [0, 1]) (on_table (register_base 2 [0, 1])
       [register_call 0 [] [] [] [] None, register_call 1 [] [] [] [] None])
     = Some (on_table (register_base 2 [0, 1])
       [register_call 0 [] [1] [] [] None, register_call 1 [0] [] [] [] None])"
  by (simp add: edge_step_def conflict_table register_values [simplified] SELF_CYCLE_def set_insert_def belong_def)

lemma register_new_fakes:
  "MethodCall_new e GRAPH_START None None = Some (register_call 2 [] [] [] [] None)"
  "MethodCall_new e GRAPH_FINISH None None = Some (register_call 3 [] [] [] [] None)"
  by (simp_all add: MethodCall_new_def register_call_def)

lemma register_fakes:
  "add_fake_nodes register_trace (on_table (register_base 2 [0, 1])
       [register_call 0 [] [1] [] [] None, register_call 1 [0] [] [] [] None])
   = Some (on_table (register_base 4 [2, 0, 1, 3])
       [register_call 0 [2] [1, 3] [] [] None, register_call 1 [0, 2] [3] [] [] None,
        register_call 2 [] [3, 0, 1] [] [] None, register_call 3 [2, 0, 1] [] [] [] None])"
  by (simp add: add_fake_nodes_def register_new_fakes Let_def set_insert_def belong_def)
    (simp add: eval_nat_numeral)

lemma register_links:
  "fold link_node [2, 0, 1, 3] (on_table (register_base 4 [2, 0, 1, 3])
       [register_call 0 [2] [1, 3] [] [] None, register_call 1 [0, 2] [3] [] [] None,
        register_call 2 [] [3, 0, 1] [] [] None, register_call 3 [2, 0, 1] [] [] [] None])
   = on_table (register_base 4 [2, 0, 1, 3])
       [register_call 0 [2] [1, 3] [2] [1] None, register_call 1 [0, 2] [3] [0] [3] None,
        register_call 2 [] [3, 0, 1] [] [0] None, register_call 3 [2, 0, 1] [] [1] [] None]"
  by (simp add: link_node_def disjoint_def set_insert_def belong_def)

definition register_checked :: "(nat, nat) spec_graph" where
  "register_checked = on_table (register_base 4 [2, 0, 1, 3])
       [register_call 0 [2] [1, 3] [2] [1] None, register_call 1 [0, 2] [3] [0] [3] None,
        register_call 2 [] [3, 0, 1] [] [0] None, register_call 3 [2, 0, 1] [] [1] [] None]"

lemma register_conflicts:
  "conflict register_trace 2 0 register_checked = Some (1, register_checked)"
  "conflict register_trace 2 1 register_checked = Some (1, register_checked)"
  "conflict register_trace 2 3 register_checked = Some (1, register_checked)"
  "conflict register_trace 0 1 register_checked = Some (1, register_checked)"
  "conflict register_trace 0 3 register_checked = Some (1, register_checked)"
  "conflict register_trace 1 3 register_checked = Some (1, register_checked)"
  "conflict register_trace 1 0 register_checked = Some (- 1, register_checked)"
  "conflict register_trace 0 2 register_checked = Some (0, register_checked)"
  "conflict register_trace 1 2 register_checked = Some (0, register_checked)"
  "conflict register_trace 3 0 register_checked = Some (0, register_checked)"
  "conflict register_trace 3 1 register_checked = Some (0, register_checked)"
  "conflict register_trace 3 2 register_checked = Some (0, register_checked)"
  by (simp_all add: register_checked_def conflict_table register_values [simplified] SELF_CYCLE_def)

lemma register_checked_calls:
  "call_of register_checked 0 = register_call 0 [2] [1, 3] [2] [1] None"
  "call_of register_checked 1 = register_call 1 [0, 2] [3] [0] [3] None"
  "call_of register_checked 2 = register_call 2 [] [3, 0, 1] [] [0] None"
  "call_of register_checked 3 = register_call 3 [2, 0, 1] [] [1] [] None"
  "methodList register_checked = [2, 0, 1, 3]" "gr_cyclic register_checked = False"
  by (simp_all add: register_checked_def)

lemma register_asserts:
  "assert_conflict register_trace P m1 m2 register_checked
     = Option.bind (conflict register_trace m1 m2 register_checked) (\<lambda>(val, g). if P val then Some g else None)"
  by (simp add: assert_conflict_def)

lemma register_assertions: "AssertEdges register_trace register_checked = Some register_checked"
  by (simp add: AssertEdges_def register_checked_calls [simplified] assert_node_def Let_def assert_that_def
      register_asserts register_conflicts [simplified] has_middle_def belong_def)

text \<open>The graph that is built.\<close>

definition register_graph :: "(nat, nat) spec_graph" where
  "register_graph = on_table (register_base 4 [2, 0, 1, 3])
       [register_call 0 [2] [1, 3] [2] [1] (Some 2), register_call 1 [0, 2] [3] [0] [3] (Some 0),
        register_call 2 [] [3, 0, 1] [] [0] None, register_call 3 [2, 0, 1] [] [1] [] (Some 1)]"

lemma justified_on_table:
  "(on_table (register_base n ms) l)\<lparr>justified := (justified (on_table (register_base n ms) l'))(m := False)\<rparr>
     = on_table (register_base n ms) l"
  by (simp add: on_table_def register_base_def ExecutionGraph_new_def fun_upd_idem)

lemma justify_node_walked:
  "m < length l \<Longrightarrow> justify_walk first (on_table (register_base n ms) l) m m = Some j \<Longrightarrow> j \<noteq> m \<Longrightarrow>
     justify_node first m (on_table (register_base n ms) l)
       = Some (on_table (register_base n ms) (l[m := (l ! m)\<lparr>justifiedMethod := Some j\<rparr>]))"
  by (simp add: justify_node_def justified_on_table)

lemma register_justified: "initializeJustifiedNode hd register_checked = Some register_graph"
  by (simp add: initializeJustifiedNode_def register_checked_def register_graph_def
      justify_node_walked justify_walk.simps disjoint_def Let_def)

lemma thread_lists_given: "tl (threadLists (g\<lparr>threadLists := t # ts, gr_spec := i\<rparr>)) = ts"
  by simp

lemma register_graph_built:
  "buildGraph hd register_memory register_trace [11, 12, 13, 14, 15, 16, 17, 18, 19]
     (ExecutionGraph_new (\<lambda>_. None) False) = Some register_graph"
  by (simp only: buildGraph_def register_threads register_init register_functions Let_def
      bind.bind_lunit list.sel option.case thread_lists_given buildEdges_def register_nodes
      on_table_fields register_base_fields register_edges register_fakes register_links
      register_checked_def [symmetric] register_assertions register_checked_calls(6) register_justified
      not_False_eq_True if_True)

section \<open>Its history\<close>

lemma register_graph_fields:
  "methodList register_graph = [2, 0, 1, 3]" "broken register_graph = False"
  "gr_spec register_graph = Some register_spec" "gr_cyclic register_graph = False"
  "allPrev (call_of register_graph 0) = [2]" "allPrev (call_of register_graph 1) = [0, 2]"
  "allPrev (call_of register_graph 2) = []" "allPrev (call_of register_graph 3) = [2, 0, 1]"
  "allNext (call_of register_graph 0) = [1, 3]" "allNext (call_of register_graph 1) = [3]"
  "allNext (call_of register_graph 2) = [3, 0, 1]" "allNext (call_of register_graph 3) = []"
  "call_name (call_of register_graph 0) = Cstr 1" "call_name (call_of register_graph 1) = Cstr 2"
  "call_name (call_of register_graph 2) = GRAPH_START" "call_name (call_of register_graph 3) = GRAPH_FINISH"
  "orderingPoints (call_of register_graph 0) = [13]" "orderingPoints (call_of register_graph 1) = [17]"
  "call_value (the (calls register_graph 0)) = Some 5" "call_value (the (calls register_graph 1)) = Some 5"
  "m < 4 \<Longrightarrow> calls register_graph m \<noteq> None"
  by (simp_all add: register_graph_def register_call_def on_table_def register_base_def
      ExecutionGraph_new_def call_of_def table_def)

lemma register_fake:
  "isFakeMethod register_graph 2" "isFakeMethod register_graph 3"
  "\<not> isFakeMethod register_graph 0" "\<not> isFakeMethod register_graph 1"
  by (simp_all add: isFakeMethod_def isStartMethod_def isFinishMethod_def register_graph_fields [simplified])

lemma register_history: "is_history register_graph xs \<longleftrightarrow> xs = [2, 0, 1, 3]"
proof
  assume h: "is_history register_graph xs"
  then have "length xs = 4"
    using distinct_card [of xs] by (simp add: is_history_def taken_def register_graph_fields [simplified])
  then obtain a b c d where xs: "xs = [a, b, c, d]"
    by (auto simp: numeral_eq_Suc length_Suc_conv)
  have "taken register_graph xs" using h by (simp add: is_history_def)
  then have p: "set (allPrev (call_of register_graph a)) \<subseteq> {}"
      "set (allPrev (call_of register_graph b)) \<subseteq> {a}"
      "set (allPrev (call_of register_graph c)) \<subseteq> {a, b}"
    using taken_snoc [of register_graph "[a, b, c]" d] taken_snoc [of register_graph "[a, b]" c]
      taken_snoc [of register_graph "[a]" b] taken_snoc [of register_graph "[]" a]
    by (simp_all add: xs)
  have s: "{a, b, c, d} = {2, 0, 1, 3}" and d: "distinct [a, b, c, d]"
    using h by (simp_all add: is_history_def taken_def xs register_graph_fields(1))
  have mem: "a \<in> {2, 0, 1, 3}" "b \<in> {2, 0, 1, 3}" "c \<in> {2, 0, 1, 3}" "d \<in> {2, 0, 1, 3}"
    using s by blast+
  note prev = register_graph_fields(5-8) [simplified]
  have a2: "a = 2" using mem(1) p(1) by (auto simp: prev)
  have b0: "b = 0" using mem(2) p(2) d a2 by (auto simp: prev)
  have c1: "c = 1" using mem(3) p(3) d a2 b0 by (auto simp: prev)
  have "d = 3" using mem(4) d a2 b0 c1 by auto
  then show "xs = [2, 0, 1, 3]" using xs a2 b0 c1 by simp
next
  assume "xs = [2, 0, 1, 3]"
  then show "is_history register_graph xs"
    using taken_snoc [of register_graph "[2, 0, 1]" 3] taken_snoc [of register_graph "[2, 0]" 1]
      taken_snoc [of register_graph "[2]" 0] taken_snoc [of register_graph "[]" 2]
    by (simp add: is_history_def register_graph_fields [simplified])
qed

lemma register_funcs:
  "funcs_of register_graph 0 = Some register_write" "funcs_of register_graph 1 = Some register_read"
  by (simp_all add: funcs_of_def register_graph_fields [simplified] register_spec_def)

lemma register_complete: "spec_complete register_graph"
  by (simp add: spec_complete_def given_def function_of_def initial_fn_def clear_fn_def
      register_graph_fields [simplified] register_spec_def initial_state_def register_funcs [simplified] register_fake [simplified]
      functions_complete_def register_write_def register_read_def)

lemma register_meets: "meets_spec register_graph"
  by (simp add: meets_spec_def register_history obeys_spec_def register_fake [simplified] register_funcs [simplified]
      holds_for_def after_def register_write_def register_read_def function_of_def register_graph_fields [simplified]
      justifies_def unconditional_def justified_by_def before_call_def initial_state_def initial_fn_def
      register_spec_def Let_def)

lemma register_admissible: "checkAdmissibility register_graph = Some True"
  by (simp add: checkAdmissibility_def register_graph_fields [simplified] pair_admissible_def isReachable_def belong_def)

section \<open>The properties at the trace\<close>

lemma spec_verdict_witness:
  "\<exists>s'. spec_analyze register_host register_trace (action_trace register_trace) SPECAnalysis_new = Some s'
     \<and> passCnt (sp_stats s') = 1 \<and> failedCnt (sp_stats s') = 0 \<and> cyclicCnt (sp_stats s') = 0"
proof -
  have "buildGraph (lowest register_host register_trace) (anno_memory register_host register_trace)
      register_trace (action_trace register_trace)
      (ExecutionGraph_new (fresh_states register_host register_trace) False) = Some register_graph"
    by (simp only: register_host_def spec_host.simps register_actions(25) register_graph_built)
  from spec_verdict [OF this _ _ register_admissible register_complete, of SPECAnalysis_new]
  show ?thesis
    by (auto simp: have_bug_reports_def register_actions(26) register_graph_fields(2) SPECAnalysis_new_def
        register_meets register_history)
qed

lemma histories_respect_ordering_points_witness:
  "\<exists>a \<in> {13}. \<exists>b \<in> {17}. conflict_actions register_trace a b = 1"
  using histories_respect_ordering_points [OF register_graph_built, of "[2, 0, 1, 3]" 2 0]
  by (simp add: register_history register_graph_fields [simplified] register_fake [simplified])


end
