(* ===== verification/SpecList.thy ===== *)
theory SpecList
  imports Prelude
begin

text \<open>
  \<open>spec-analysis/spec_lib.c\<close>: the doubly linked list the specifications may use as their state.
  Nodes lie in a heap; \<open>alloc\<close> is \<open>malloc\<close>, which gives an address that is not in use (and may be
  one that was freed). Following or freeing a pointer to no node is \<open>None\<close>. The list refines a
  list of its data although \<open>pop_back\<close> and \<open>pop_front\<close> leave the link of the new end to the
  freed node; what follows that link is \<open>free_spec_list\<close>.
\<close>

section \<open>The code\<close>

type_synonym addr = nat

record 'a list_node =
  ln_prev :: "addr option"
  ln_next :: "addr option"
  ln_data :: 'a

record spec_list =
  sl_head :: "addr option"
  sl_tail :: "addr option"
  sl_size :: "32 word"

type_synonym 'a node_memory = "addr \<rightharpoonup> 'a list_node"

definition init_spec_list :: spec_list where
  "init_spec_list = \<lparr>sl_head = None, sl_tail = None, sl_size = 0\<rparr>"

text \<open>\<open>free\<close>; a null pointer may be freed.\<close>

definition free_node :: "addr option \<Rightarrow> 'a node_memory \<Rightarrow> 'a node_memory option" where
  "free_node p h = (case p of
     None \<Rightarrow> Some h
   | Some a \<Rightarrow> (case h a of None \<Rightarrow> None | Some _ \<Rightarrow> Some (h(a := None))))"

partial_function (option) free_nodes :: "addr option \<Rightarrow> 'a node_memory \<Rightarrow> 'a node_memory option" where
  "free_nodes cur h = (case cur of
     None \<Rightarrow> Some h
   | Some a \<Rightarrow> do {
       n \<leftarrow> h a;
       h \<leftarrow> free_node cur h;
       free_nodes (ln_next n) h
     })"

definition free_spec_list :: "'a node_memory \<times> spec_list \<Rightarrow> 'a node_memory option" where
  "free_spec_list = (\<lambda>(h, l). free_nodes (sl_head l) h)"

definition front :: "'a node_memory \<times> spec_list \<Rightarrow> 'a option option" where
  "front = (\<lambda>(h, l). case sl_head l of None \<Rightarrow> Some None | Some a \<Rightarrow> map_option (Some \<circ> ln_data) (h a))"

definition back_of :: "'a node_memory \<times> spec_list \<Rightarrow> 'a option option" where
  "back_of = (\<lambda>(h, l). case sl_tail l of None \<Rightarrow> Some None | Some a \<Rightarrow> map_option (Some \<circ> ln_data) (h a))"

definition push_back ::
  "('a node_memory \<Rightarrow> addr) \<Rightarrow> 'a \<Rightarrow> 'a node_memory \<times> spec_list
     \<Rightarrow> ('a node_memory \<times> spec_list) option" where
  "push_back alloc elem = (\<lambda>(h, l). do {
     let new_node = alloc h;
     let h = h(new_node \<mapsto> \<lparr>ln_prev = sl_tail l, ln_next = None, ln_data = elem\<rparr>);
     let l = l\<lparr>sl_size := sl_size l + 1\<rparr>;
     (h, l) \<leftarrow> (case sl_tail l of
         Some t \<Rightarrow> do { n \<leftarrow> h t; Some (h(t \<mapsto> n\<lparr>ln_next := Some new_node\<rparr>), l) }
       | None \<Rightarrow> Some (h, l\<lparr>sl_head := Some new_node\<rparr>));
     Some (h, l\<lparr>sl_tail := Some new_node\<rparr>)
   })"

definition push_front ::
  "('a node_memory \<Rightarrow> addr) \<Rightarrow> 'a \<Rightarrow> 'a node_memory \<times> spec_list
     \<Rightarrow> ('a node_memory \<times> spec_list) option" where
  "push_front alloc elem = (\<lambda>(h, l). do {
     let new_node = alloc h;
     let h = h(new_node \<mapsto> \<lparr>ln_prev = None, ln_next = sl_head l, ln_data = elem\<rparr>);
     let l = l\<lparr>sl_size := sl_size l + 1\<rparr>;
     (h, l) \<leftarrow> (case sl_head l of
         Some t \<Rightarrow> do { n \<leftarrow> h t; Some (h(t \<mapsto> n\<lparr>ln_prev := Some new_node\<rparr>), l) }
       | None \<Rightarrow> Some (h, l\<lparr>sl_tail := Some new_node\<rparr>));
     Some (h, l\<lparr>sl_head := Some new_node\<rparr>)
   })"

definition list_size :: "'a node_memory \<times> spec_list \<Rightarrow> 32 word" where
  "list_size = (\<lambda>(h, l). sl_size l)"

definition pop_back ::
  "'a node_memory \<times> spec_list \<Rightarrow> (bool \<times> 'a node_memory \<times> spec_list) option" where
  "pop_back = (\<lambda>(h, l).
     if sl_size l = 0 then Some (False, h, l)
     else let l = l\<lparr>sl_size := sl_size l - 1\<rparr>
          in if sl_head l = sl_tail l
             then do { h \<leftarrow> free_node (sl_head l) h; Some (True, h, l\<lparr>sl_head := None, sl_tail := None\<rparr>) }
             else do {
               let to_delete = sl_tail l;
               t \<leftarrow> to_delete;
               n \<leftarrow> h t;
               h \<leftarrow> free_node to_delete h;
               Some (True, h, l\<lparr>sl_tail := ln_prev n\<rparr>)
             })"

definition pop_front_node ::
  "'a node_memory \<times> spec_list \<Rightarrow> (bool \<times> 'a node_memory \<times> spec_list) option" where
  "pop_front_node = (\<lambda>(h, l).
     if sl_size l = 0 then Some (False, h, l)
     else let l = l\<lparr>sl_size := sl_size l - 1\<rparr>
          in if sl_head l = sl_tail l
             then do { h \<leftarrow> free_node (sl_head l) h; Some (True, h, l\<lparr>sl_head := None, sl_tail := None\<rparr>) }
             else do {
               let to_delete = sl_head l;
               t \<leftarrow> to_delete;
               n \<leftarrow> h t;
               h \<leftarrow> free_node to_delete h;
               Some (True, h, l\<lparr>sl_head := ln_next n\<rparr>)
             })"

section \<open>The abstraction\<close>

definition nd :: "'a node_memory \<Rightarrow> addr \<Rightarrow> 'a list_node" where
  "nd h a = the (h a)"

definition adjacent :: "'a node_memory \<Rightarrow> addr \<Rightarrow> addr \<Rightarrow> bool" where
  "adjacent h a b \<longleftrightarrow> ln_next (nd h a) = Some b \<and> ln_prev (nd h b) = Some a"

text \<open>The nodes at \<open>as\<close> are the list, with the data \<open>xs\<close>; nothing is said of the outer links.\<close>

definition represents :: "'a node_memory \<times> spec_list \<Rightarrow> addr list \<Rightarrow> 'a list \<Rightarrow> bool" where
  "represents s as xs \<longleftrightarrow> distinct as \<and> set as \<subseteq> dom (fst s) \<and> successively (adjacent (fst s)) as
     \<and> map (ln_data \<circ> nd (fst s)) as = xs
     \<and> sl_head (snd s) = (if as = [] then None else Some (hd as))
     \<and> sl_tail (snd s) = (if as = [] then None else Some (last as))
     \<and> sl_size (snd s) = of_nat (length as)"

definition malloc_ok :: "('a node_memory \<Rightarrow> addr) \<Rightarrow> bool" where
  "malloc_ok alloc \<longleftrightarrow> (\<forall>h. finite (dom h) \<longrightarrow> h (alloc h) = None)"

lemma represents_init: "represents (Map.empty, init_spec_list) [] []"
  by (simp add: represents_def init_spec_list_def)

lemma represents_ends:
  assumes "represents s as xs"
  shows "front s = Some (if xs = [] then None else Some (hd xs))"
    and "back_of s = Some (if xs = [] then None else Some (last xs))"
    and "length as = length xs" and "list_size s = of_nat (length xs)"
proof -
  obtain h l where s: "s = (h, l)" by (cases s)
  have r: "set as \<subseteq> dom h" "map (ln_data \<circ> nd h) as = xs"
    "sl_head l = (if as = [] then None else Some (hd as))"
    "sl_tail l = (if as = [] then None else Some (last as))" "sl_size l = of_nat (length as)"
    using assms by (simp_all add: represents_def s)
  show "length as = length xs" using r(2) by auto
  then show "list_size s = of_nat (length xs)" using r(5) by (simp add: list_size_def s)
  have "as \<noteq> [] \<Longrightarrow> hd as \<in> dom h \<and> last as \<in> dom h"
    using r(1) hd_in_set last_in_set by blast
  then show "front s = Some (if xs = [] then None else Some (hd xs))"
    and "back_of s = Some (if xs = [] then None else Some (last xs))"
    using r(2-4) by (auto simp: front_def back_of_def s hd_map last_map nd_def)
qed

text \<open>Changing nodes outside a stretch of the list, or one outer link, keeps the stretch.\<close>

lemma stretch_kept:
  assumes "successively (adjacent h) as"
    and "\<And>a. a \<in> set as \<Longrightarrow> ln_next (nd h' a) = ln_next (nd h a) \<and> ln_prev (nd h' a) = ln_prev (nd h a)"
  shows "successively (adjacent h') as"
  using assms(1) by (rule successively_mono) (use assms(2) in \<open>auto simp: adjacent_def\<close>)

lemma push_back_refines:
  assumes "represents s as xs" and "malloc_ok alloc" and "finite (dom (fst s))"
  shows "\<exists>s'. push_back alloc x s = Some s' \<and> represents s' (as @ [alloc (fst s)]) (xs @ [x])
    \<and> finite (dom (fst s'))"
proof -
  obtain h l where s: "s = (h, l)" by (cases s)
  define a where "a = alloc h"
  have new: "h a = None" using assms(2,3) by (simp add: malloc_ok_def a_def s)
  note r = assms(1) [unfolded represents_def s, simplified]
  show ?thesis
  proof (cases as rule: rev_cases)
    case Nil
    then show ?thesis
      using r assms(3) by (auto simp: push_back_def s represents_def nd_def Let_def)
  next
    case (snoc bs t)
    then obtain n where n: "h t = Some n" using r by auto
    have at: "a \<noteq> t" and ab: "a \<notin> set bs" using new n r snoc by auto
    define h' where "h' = h(a \<mapsto> \<lparr>ln_prev = Some t, ln_next = None, ln_data = x\<rparr>, t \<mapsto> n\<lparr>ln_next := Some a\<rparr>)"
    have "push_back alloc x s = Some (h', l\<lparr>sl_size := sl_size l + 1, sl_tail := Some a\<rparr>)"
      using r snoc n at by (simp add: push_back_def s h'_def a_def [symmetric])
    moreover have "successively (adjacent h') bs"
      by (rule stretch_kept [of h]) (use r snoc ab in \<open>auto simp: successively_append_iff h'_def nd_def\<close>)
    moreover have "bs = [] \<or> adjacent h' (last bs) t"
    proof (cases "bs = []")
      case False
      then have "last bs \<in> set bs" by simp
      then have "last bs \<noteq> a" "last bs \<noteq> t" using ab r snoc by auto
      then show ?thesis
        using r snoc n False by (auto simp: successively_append_iff adjacent_def h'_def nd_def)
    qed simp
    moreover have "adjacent h' t a" using at by (simp add: adjacent_def h'_def nd_def)
    moreover have "map (ln_data \<circ> nd h') (bs @ [t, a]) = xs @ [x]"
      using r snoc ab at n by (auto simp: h'_def nd_def)
    ultimately show ?thesis
      using r snoc at ab assms(3) n
      by (auto simp: represents_def successively_append_iff h'_def s a_def [symmetric] hd_append)
  qed
qed

lemma push_front_refines:
  assumes "represents s as xs" and "malloc_ok alloc" and "finite (dom (fst s))"
  shows "\<exists>s'. push_front alloc x s = Some s' \<and> represents s' (alloc (fst s) # as) (x # xs)
    \<and> finite (dom (fst s'))"
proof -
  obtain h l where s: "s = (h, l)" by (cases s)
  define a where "a = alloc h"
  have new: "h a = None" using assms(2,3) by (simp add: malloc_ok_def a_def s)
  note r = assms(1) [unfolded represents_def s, simplified]
  show ?thesis
  proof (cases as)
    case Nil
    then show ?thesis
      using r assms(3) by (auto simp: push_front_def s represents_def nd_def Let_def)
  next
    case (Cons t bs)
    then obtain n where n: "h t = Some n" using r by auto
    have at: "a \<noteq> t" and ab: "a \<notin> set bs" using new n r Cons by auto
    define h' where "h' = h(a \<mapsto> \<lparr>ln_prev = None, ln_next = Some t, ln_data = x\<rparr>, t \<mapsto> n\<lparr>ln_prev := Some a\<rparr>)"
    have "push_front alloc x s = Some (h', l\<lparr>sl_size := sl_size l + 1, sl_head := Some a\<rparr>)"
      using r Cons n at by (simp add: push_front_def s h'_def a_def [symmetric])
    moreover have "successively (adjacent h') bs"
      by (rule stretch_kept [of h]) (use r Cons ab in \<open>auto simp: successively_Cons h'_def nd_def\<close>)
    moreover have "bs = [] \<or> adjacent h' t (hd bs)"
    proof (cases "bs = []")
      case False
      then have "hd bs \<in> set bs" by simp
      then have "hd bs \<noteq> a" "hd bs \<noteq> t" using ab r Cons by auto
      then show ?thesis
        using r Cons n False by (auto simp: successively_Cons adjacent_def h'_def nd_def)
    qed simp
    moreover have "adjacent h' a t" using at by (simp add: adjacent_def h'_def nd_def)
    moreover have "map (ln_data \<circ> nd h') (a # t # bs) = x # xs"
      using r Cons ab at n by (auto simp: h'_def nd_def)
    ultimately show ?thesis
      using r Cons at ab assms(3) n
      by (auto simp: represents_def successively_Cons h'_def s a_def [symmetric])
  qed
qed

lemma size_zero: "length as < 2 ^ 31 \<Longrightarrow> (of_nat (length as) :: 32 word) = 0 \<longleftrightarrow> as = []"
  by (auto simp: word_of_nat_eq_0_iff dest: dvd_imp_le)

lemma pop_back_refines:
  assumes "represents s as xs" and "length as < 2 ^ 31" and "finite (dom (fst s))"
  shows "\<exists>s'. pop_back s = Some (xs \<noteq> [], s') \<and> represents s' (butlast as) (butlast xs)
    \<and> finite (dom (fst s'))"
proof -
  obtain h l where s: "s = (h, l)" by (cases s)
  note r = assms(1) [unfolded represents_def s, simplified]
  note z = size_zero [OF assms(2)]
  show ?thesis
  proof (cases as rule: rev_cases)
    case Nil
    then show ?thesis using r assms by (auto simp: pop_back_def s represents_def)
  next
    case (snoc bs t)
    then obtain n where n: "h t = Some n" using r by auto
    have size: "sl_size l \<noteq> 0" "sl_size l - 1 = of_nat (length bs)" using r z snoc by auto
    define h' where "h' = h(t := None)"
    have bs: "t \<notin> set bs" and ne: "xs \<noteq> []" using r snoc by auto
    have same: "nd h' b = nd h b" if "b \<in> set bs" for b using that bs by (auto simp: h'_def nd_def)
    have "successively (adjacent h') bs"
      by (rule stretch_kept [of h]) (use r snoc same in \<open>auto simp: successively_append_iff\<close>)
    moreover have "map (ln_data \<circ> nd h') bs = butlast xs"
      using r snoc same by (auto simp: butlast_append)
    moreover have "set bs \<subseteq> dom h'" using r snoc bs by (auto simp: h'_def)
    ultimately have rep: "represents (h', l') bs (butlast xs)"
      if "sl_head l' = (if bs = [] then None else Some (hd bs))"
        "sl_tail l' = (if bs = [] then None else Some (last bs))" "sl_size l' = of_nat (length bs)" for l'
      using that r snoc by (auto simp: represents_def)
    have fin: "finite (dom h')" using assms(3) by (simp add: h'_def s)
    show ?thesis
    proof (cases "bs = []")
      case True
      then have "pop_back s = Some (True, h', l\<lparr>sl_size := sl_size l - 1, sl_head := None, sl_tail := None\<rparr>)"
        using r snoc n size by (simp add: pop_back_def s free_node_def h'_def)
      then show ?thesis using rep ne fin size True snoc by auto
    next
      case False
      then have "sl_head l \<noteq> sl_tail l" using r snoc bs hd_in_set [of bs] by auto
      moreover have "ln_prev n = Some (last bs)"
        using r snoc False n by (auto simp: successively_append_iff adjacent_def nd_def)
      ultimately have "pop_back s = Some (True, h', l\<lparr>sl_size := sl_size l - 1, sl_tail := Some (last bs)\<rparr>)"
        using r snoc n size by (simp add: pop_back_def s free_node_def h'_def)
      moreover have "sl_head l = Some (hd bs)" using r snoc False by simp
      ultimately show ?thesis using rep ne fin size False snoc by auto
    qed
  qed
qed

lemma pop_front_node_refines:
  assumes "represents s as xs" and "length as < 2 ^ 31" and "finite (dom (fst s))"
  shows "\<exists>s'. pop_front_node s = Some (xs \<noteq> [], s') \<and> represents s' (tl as) (tl xs)
    \<and> finite (dom (fst s'))"
proof -
  obtain h l where s: "s = (h, l)" by (cases s)
  note r = assms(1) [unfolded represents_def s, simplified]
  note z = size_zero [OF assms(2)]
  show ?thesis
  proof (cases as)
    case Nil
    then show ?thesis using r assms by (auto simp: pop_front_node_def s represents_def)
  next
    case (Cons t bs)
    then obtain n where n: "h t = Some n" using r by auto
    have size: "sl_size l \<noteq> 0" "sl_size l - 1 = of_nat (length bs)" using r z Cons by auto
    define h' where "h' = h(t := None)"
    have bs: "t \<notin> set bs" and ne: "xs \<noteq> []" using r Cons by auto
    have same: "nd h' b = nd h b" if "b \<in> set bs" for b using that bs by (auto simp: h'_def nd_def)
    have "successively (adjacent h') bs"
      by (rule stretch_kept [of h]) (use r Cons same in \<open>auto simp: successively_Cons\<close>)
    moreover have "map (ln_data \<circ> nd h') bs = tl xs" using r Cons same by auto
    moreover have "set bs \<subseteq> dom h'" using r Cons bs by (auto simp: h'_def)
    ultimately have rep: "represents (h', l') bs (tl xs)"
      if "sl_head l' = (if bs = [] then None else Some (hd bs))"
        "sl_tail l' = (if bs = [] then None else Some (last bs))" "sl_size l' = of_nat (length bs)" for l'
      using that r Cons by (auto simp: represents_def)
    have fin: "finite (dom h')" using assms(3) by (simp add: h'_def s)
    show ?thesis
    proof (cases "bs = []")
      case True
      then have "pop_front_node s = Some (True, h', l\<lparr>sl_size := sl_size l - 1, sl_head := None, sl_tail := None\<rparr>)"
        using r Cons n size by (simp add: pop_front_node_def s free_node_def h'_def)
      then show ?thesis using rep ne fin size True Cons by auto
    next
      case False
      then have "sl_head l \<noteq> sl_tail l" using r Cons bs last_in_set [of bs] by auto
      moreover have "ln_next n = Some (hd bs)"
        using r Cons False n by (auto simp: successively_Cons adjacent_def nd_def)
      ultimately have "pop_front_node s = Some (True, h', l\<lparr>sl_size := sl_size l - 1, sl_head := Some (hd bs)\<rparr>)"
        using r Cons n size by (simp add: pop_front_node_def s free_node_def h'_def)
      moreover have "sl_tail l = Some (last bs)" using r Cons False by simp
      ultimately show ?thesis using rep ne fin size False Cons by auto
    qed
  qed
qed

section \<open>Any sequence of operations\<close>

datatype 'a list_call = Push_back 'a | Push_front 'a | Pop_back | Pop_front

fun call_list :: "('a node_memory \<Rightarrow> addr) \<Rightarrow> 'a list_call \<Rightarrow> 'a node_memory \<times> spec_list
    \<Rightarrow> ('a node_memory \<times> spec_list) option" where
  "call_list alloc (Push_back x) s = push_back alloc x s"
| "call_list alloc (Push_front x) s = push_front alloc x s"
| "call_list alloc Pop_back s = map_option snd (pop_back s)"
| "call_list alloc Pop_front s = map_option snd (pop_front_node s)"

fun call_abstract :: "'a list_call \<Rightarrow> 'a list \<Rightarrow> 'a list" where
  "call_abstract (Push_back x) xs = xs @ [x]"
| "call_abstract (Push_front x) xs = x # xs"
| "call_abstract Pop_back xs = butlast xs"
| "call_abstract Pop_front xs = tl xs"

lemma call_list_refines:
  assumes "represents s as xs" and "length as < 2 ^ 31" and "malloc_ok alloc" and "finite (dom (fst s))"
  shows "\<exists>s' as'. call_list alloc c s = Some s' \<and> represents s' as' (call_abstract c xs)
    \<and> finite (dom (fst s')) \<and> length as' \<le> Suc (length as)"
proof (cases c)
  case (Push_back x)
  then show ?thesis using push_back_refines [OF assms(1,3,4), of x] by fastforce
next
  case (Push_front x)
  then show ?thesis using push_front_refines [OF assms(1,3,4), of x] by fastforce
next
  case Pop_back
  then show ?thesis using pop_back_refines [OF assms(1,2,4)] by fastforce
next
  case Pop_front
  then show ?thesis using pop_front_node_refines [OF assms(1,2,4)] by fastforce
qed

lemma calls_refine:
  assumes "represents s as xs" and "length as + length cs < 2 ^ 31" and "malloc_ok alloc"
    and "finite (dom (fst s))"
  shows "\<exists>s' as'. fold_opt (call_list alloc) cs s = Some s' \<and> represents s' as' (fold call_abstract cs xs)"
  using assms
proof (induction cs arbitrary: s as xs)
  case Nil
  then show ?case by auto
next
  case (Cons c cs)
  have "length as < 2 ^ 31" using Cons.prems(2) by simp
  from call_list_refines [OF Cons.prems(1) this Cons.prems(3,4), of c] obtain s1 as1 where
    s1: "call_list alloc c s = Some s1" "represents s1 as1 (call_abstract c xs)" "finite (dom (fst s1))"
      "length as1 \<le> Suc (length as)" by blast
  have "length as1 + length cs < 2 ^ 31" using s1(4) Cons.prems(2) by simp
  from Cons.IH [OF s1(2) this Cons.prems(3) s1(3)] show ?case by (simp add: s1(1))
qed

text \<open>
  C27: the list of the specifications is a double-ended queue: after any fewer than \<open>2 ^ 31\<close> calls
  on a new list, none of which follows a pointer to a freed node, \<open>front\<close>, \<open>back\<close> and \<open>size\<close> are
  those of the list the calls make of the empty list, whichever free addresses \<open>malloc\<close> gives,
  those freed before included.
\<close>

theorem spec_list_refines_list:
  assumes "malloc_ok alloc" and "length cs < 2 ^ 31"
  shows "\<exists>s. fold_opt (call_list alloc) cs (Map.empty, init_spec_list) = Some s
    \<and> (let xs = fold call_abstract cs [] in
        front s = Some (if xs = [] then None else Some (hd xs))
        \<and> back_of s = Some (if xs = [] then None else Some (last xs))
        \<and> list_size s = of_nat (length xs))"
proof -
  obtain s as where s: "fold_opt (call_list alloc) cs (Map.empty, init_spec_list) = Some s"
    "represents s as (fold call_abstract cs [])"
    using calls_refine [OF represents_init _ assms(1), of cs] assms(2) by auto
  then show ?thesis using represents_ends [OF s(2)] by (simp add: Let_def)
qed

definition first_free :: "'a node_memory \<Rightarrow> addr" where
  "first_free h = Suc (Max (insert 0 (dom h)))"

lemma first_free_ok: "malloc_ok first_free"
proof -
  have "first_free h \<notin> dom h" if "finite (dom h)" for h :: "'a node_memory"
  proof
    assume "first_free h \<in> dom h"
    then have "first_free h \<le> Max (insert 0 (dom h))" using that by (intro Max_ge) auto
    then show False by (simp add: first_free_def)
  qed
  then show ?thesis by (auto simp: malloc_ok_def)
qed

lemma spec_list_refines_list_witness:
  "\<exists>s. fold_opt (call_list first_free) [Push_back (7 :: nat), Push_front 8, Pop_back, Push_back 9]
      (Map.empty, init_spec_list) = Some s
     \<and> front s = Some (Some 8) \<and> back_of s = Some (Some 9) \<and> list_size s = 2"
  using spec_list_refines_list [OF first_free_ok, of "[Push_back (7 :: nat), Push_front 8, Pop_back, Push_back 9]"]
  by simp

text \<open>
  C40: freeing a list whose last element was popped uses freed memory: \<open>pop_back\<close> leaves the link of
  the new last node to the node it frees, and \<open>free_spec_list\<close> follows it, whatever \<open>malloc\<close> gives.
\<close>

theorem pop_back_then_free_is_use_after_free:
  assumes "malloc_ok alloc"
  shows "\<exists>s. fold_opt (call_list alloc) [Push_back x, Push_back y, Pop_back] (Map.empty, init_spec_list) = Some s
    \<and> free_spec_list s = None"
proof -
  define a where "a = alloc Map.empty"
  define n where "n = \<lparr>ln_prev = None, ln_next = None, ln_data = x\<rparr>"
  define b where "b = alloc [a \<mapsto> n]"
  have ab: "a \<noteq> b" using assms unfolding malloc_ok_def b_def by (metis dom_eq_singleton_conv finite.emptyI
        finite.insertI fun_upd_same option.distinct(1) dom_fun_upd dom_empty)
  let ?s = "([a \<mapsto> n\<lparr>ln_next := Some b\<rparr>],
      \<lparr>sl_head = Some a, sl_tail = Some a, sl_size = 1\<rparr>)"
  have "fold_opt (call_list alloc) [Push_back x, Push_back y, Pop_back] (Map.empty, init_spec_list) = Some ?s"
    using ab by (simp add: push_back_def pop_back_def init_spec_list_def a_def [symmetric] n_def [symmetric]
        b_def [symmetric] free_node_def fun_eq_iff)
  moreover have "free_spec_list ?s = None"
    using ab by (simp add: free_spec_list_def free_nodes.simps free_node_def)
  ultimately show ?thesis by blast
qed

lemma pop_back_then_free_is_use_after_free_witness:
  "\<exists>s. fold_opt (call_list first_free) [Push_back (1 :: nat), Push_back 2, Pop_back] (Map.empty, init_spec_list) = Some s
    \<and> free_spec_list s = None"
  by (rule pop_back_then_free_is_use_after_free [OF first_free_ok])

end
