(* ===== verification/ProgramEntry.thy ===== *)
theory ProgramEntry
  imports ModelRun SCFence SCAnalysisRun SpecCheck
begin

text \<open>
  \<open>main.cc\<close> and \<open>plugins.cc\<close>: options, the registered plugins, and the run of the model checker
  with those that are installed. The command line is given as what \<open>getopt_long\<close> returns one after
  the other, the letter of an option (also for its long name; another one for an error) and its
  argument. The plugins are objects of their own; the driver's plugin state is the three of them,
  and each is lifted to its part of it (\<open>lift_plugin\<close>). Installing a plugin twice puts the same
  object into the list twice, as the code does. The arguments passed on to the program and how much
  is printed are left out.
\<close>

section \<open>Parts of the plugin state\<close>

definition lift_plugin ::
  "('s \<Rightarrow> 'a) \<Rightarrow> (('a \<Rightarrow> 'a) \<Rightarrow> 's \<Rightarrow> 's) \<Rightarrow> 'a trace_analysis \<Rightarrow> 's trace_analysis" where
  "lift_plugin get upd ta =
     \<lparr>analyze = (\<lambda>e s. let (p, r) = analyze ta e (get s) in (upd (\<lambda>_. p) s, r)),
      inspectModelAction = (\<lambda>act s. let (a, p) = inspectModelAction ta act (get s) in (a, upd (\<lambda>_. p) s)),
      actionAtModelCheckingFinish =
        (\<lambda>s. let (p, r) = actionAtModelCheckingFinish ta (get s) in (upd (\<lambda>_. p) s, r)),
      finish_analysis = (\<lambda>s. upd (\<lambda>_. finish_analysis ta (get s)) s)\<rparr>"

text \<open>The contract of a part; \<open>other\<close> is what the part leaves alone.\<close>

locale plugin_part =
  fixes get :: "'s \<Rightarrow> 'a" and upd :: "('a \<Rightarrow> 'a) \<Rightarrow> 's \<Rightarrow> 's" and other :: "'s \<Rightarrow> 'o"
  assumes get_upd: "get (upd f s) = f (get s)"
    and other_upd: "other (upd f s) = other s"
begin

lemma analyze_part:
  "get (fst (analyze (lift_plugin get upd ta) e s)) = fst (analyze ta e (get s))"
  "snd (analyze (lift_plugin get upd ta) e s) = snd (analyze ta e (get s))"
  "other (fst (analyze (lift_plugin get upd ta) e s)) = other s"
  by (simp_all add: lift_plugin_def get_upd other_upd split: prod.split)

lemma inspect_part:
  "fst (inspectModelAction (lift_plugin get upd ta) act s) = fst (inspectModelAction ta act (get s))"
  "get (snd (inspectModelAction (lift_plugin get upd ta) act s)) = snd (inspectModelAction ta act (get s))"
  "other (snd (inspectModelAction (lift_plugin get upd ta) act s)) = other s"
  by (simp_all add: lift_plugin_def get_upd other_upd split: prod.split)

end

section \<open>The registered plugins\<close>

datatype plugin = SC | SPEC | AUTOMO

fun plugin_name :: "plugin \<Rightarrow> string" where
  "plugin_name SC = ''SC''"
| "plugin_name SPEC = ''SPEC''"
| "plugin_name AUTOMO = ''AUTOMO''"

record plugin_states =
  sca_part :: "sc_analysis option"
  spec_part :: "spec_analysis option"
  fence_part :: "scfence option"

text \<open>What the plugins take from outside, and the memory they are allocated in.\<close>

record ('v, 's) entry_host =
  eh_back0 :: "aid option"
  eh_spec :: "('v, 's) spec_host"
  eh_timer :: "exec \<Rightarrow> bool"
  eh_files :: "string \<Rightarrow> (int \<times> memory_order) list list"
  eh_maxthreads :: nat
  eh_changed :: bool
  eh_generator :: sc_gen

definition registered_analysis :: "plugin list" where
  "registered_analysis = [SC, SPEC, AUTOMO]"

definition register_plugins :: "('v, 's) entry_host \<Rightarrow> plugin_states" where
  "register_plugins h =
     \<lparr>sca_part = Some (SCAnalysis_new (eh_maxthreads h) (eh_changed h)),
      spec_part = Some SPECAnalysis_new,
      fence_part = Some (SCFence_new (eh_generator h))\<rparr>"

definition analysis_of :: "('v, 's) entry_host \<Rightarrow> plugin \<Rightarrow> plugin_states trace_analysis" where
  "analysis_of h p = (case p of
     SC \<Rightarrow> lift_plugin sca_part sca_part_update (SCAnalysis_plugin (eh_back0 h))
   | SPEC \<Rightarrow> lift_plugin spec_part spec_part_update (SPECAnalysis_plugin (eh_spec h))
   | AUTOMO \<Rightarrow> lift_plugin fence_part fence_part_update (SCFence_plugin (eh_timer h)))"

definition plugin_option ::
  "('v, 's) entry_host \<Rightarrow> plugin \<Rightarrow> string \<Rightarrow> plugin_states \<Rightarrow> (bool \<times> plugin_states) option" where
  "plugin_option h p opt s = (case p of
     SC \<Rightarrow> do { x \<leftarrow> sca_part s; let (b, x) = sca_option opt x; Some (b, s\<lparr>sca_part := Some x\<rparr>) }
   | SPEC \<Rightarrow> do { x \<leftarrow> spec_part s; let (b, x) = spec_option opt x; Some (b, s\<lparr>spec_part := Some x\<rparr>) }
   | AUTOMO \<Rightarrow> do { x \<leftarrow> fence_part s; (b, x) \<leftarrow> fence_option (eh_files h) opt x;
                  Some (b, s\<lparr>fence_part := Some x\<rparr>) })"

interpretation sca: plugin_part sca_part sca_part_update "\<lambda>s. (spec_part s, fence_part s)"
  by unfold_locales simp_all

interpretation spc: plugin_part spec_part spec_part_update "\<lambda>s. (sca_part s, fence_part s)"
  by unfold_locales simp_all

interpretation fnc: plugin_part fence_part fence_part_update "\<lambda>s. (sca_part s, spec_part s)"
  by unfold_locales simp_all

section \<open>Options\<close>

definition param_defaults :: model_params where
  "param_defaults =
     \<lparr>maxreads = 0, maxfuturedelay = 6, yieldon = False, yieldblock = False, fairwindow = 0,
      enabledcount = 1, bound = 0, uninitvalue = 0, maxexecutions = 0, maxfuturevalues = 0,
      expireslop = 4\<rparr>"

record options_state =
  op_params :: model_params
  op_installed :: "plugin list"
  op_states :: plugin_states

text \<open>\<open>install_plugin\<close>: whether there is no plugin of the name.\<close>

definition install_plugin :: "string \<Rightarrow> options_state \<Rightarrow> bool \<times> options_state" where
  "install_plugin name st = (case find (\<lambda>p. name = plugin_name p) registered_analysis of
     Some p \<Rightarrow> (False, st\<lparr>op_installed := op_installed st @ [p]\<rparr>)
   | None \<Rightarrow> (True, st))"

text \<open>An \<open>unsigned\<close> member takes the number modulo \<open>2 ^ 32\<close>.\<close>

definition unsigned_of :: "int \<Rightarrow> 32 word" where
  "unsigned_of i = word_of_int i"

definition number_option ::
  "string option \<Rightarrow> (int \<Rightarrow> model_params \<Rightarrow> model_params) \<Rightarrow> options_state
     \<Rightarrow> (bool \<times> options_state) option" where
  "number_option arg f st = do {
     a \<leftarrow> arg;
     Some (False, st\<lparr>op_params := f (atoi a) (op_params st)\<rparr>)
   }"

text \<open>One option; the flag says that the usage is printed and the checker exits.\<close>

definition option_step ::
  "('v, 's) entry_host \<Rightarrow> char \<times> string option \<Rightarrow> options_state \<Rightarrow> (bool \<times> options_state) option" where
  "option_step h = (\<lambda>(c, arg) st.
     if c = CHR ''h'' then Some (True, st\<lparr>op_params := param_defaults\<rparr>)
     else if c = CHR ''x'' then number_option arg (\<lambda>n p. p\<lparr>maxexecutions := n\<rparr>) st
     else if c = CHR ''s'' then number_option arg (\<lambda>n p. p\<lparr>maxfuturedelay := n\<rparr>) st
     else if c = CHR ''S'' then number_option arg (\<lambda>n p. p\<lparr>expireslop := unsigned_of n\<rparr>) st
     else if c = CHR ''f'' then number_option arg (\<lambda>n p. p\<lparr>fairwindow := unat (unsigned_of n)\<rparr>) st
     else if c = CHR ''e'' then number_option arg (\<lambda>n p. p\<lparr>enabledcount := unsigned_of n\<rparr>) st
     else if c = CHR ''b'' then number_option arg (\<lambda>n p. p\<lparr>bound := unat (unsigned_of n)\<rparr>) st
     else if c = CHR ''m'' then number_option arg (\<lambda>n p. p\<lparr>maxreads := n\<rparr>) st
     else if c = CHR ''M'' then number_option arg (\<lambda>n p. p\<lparr>maxfuturevalues := n\<rparr>) st
     else if c = CHR ''v'' then Some (False, st)
     else if c = CHR ''u'' then number_option arg (\<lambda>n p. p\<lparr>uninitvalue := unsigned_of n\<rparr>) st
     else if c = CHR ''y'' then Some (False, st\<lparr>op_params := (op_params st)\<lparr>yieldon := True\<rparr>\<rparr>)
     else if c = CHR ''t'' then do { a \<leftarrow> arg; Some (install_plugin a st) }
     else if c = CHR ''o''
     then (if op_installed st = [] then Some (True, st)
           else do {
             a \<leftarrow> arg;
             (wrong, ps) \<leftarrow> plugin_option h (last (op_installed st)) a (op_states st);
             Some (wrong, st\<lparr>op_states := ps\<rparr>)
           })
     else if c = CHR ''Y'' then Some (False, st\<lparr>op_params := (op_params st)\<lparr>yieldblock := True\<rparr>\<rparr>)
     else Some (True, st))"

fun parse_loop ::
  "('v, 's) entry_host \<Rightarrow> (char \<times> string option) list \<Rightarrow> options_state
     \<Rightarrow> (bool \<times> options_state) option" where
  "parse_loop h [] st = Some (False, st)"
| "parse_loop h (opt # opts) st = do {
     (usage, st) \<leftarrow> option_step h opt st;
     if usage then Some (True, st) else parse_loop h opts st
   }"

text \<open>The inner \<open>None\<close>: the usage was printed, and the checker exits without an error.\<close>

definition parse_options ::
  "('v, 's) entry_host \<Rightarrow> (char \<times> string option) list \<Rightarrow> options_state option option" where
  "parse_options h opts = do {
     (usage, st) \<leftarrow> parse_loop h opts \<lparr>op_params = param_defaults, op_installed = [],
                                     op_states = register_plugins h\<rparr>;
     Some (if usage then None else Some st)
   }"

section \<open>The run\<close>

text \<open>\<open>SCFence\<close> becomes the plugin that inspects the actions when it is installed.\<close>

definition install_analysis ::
  "('v, 's) entry_host \<Rightarrow> plugin \<Rightarrow> plugin_states plugins \<Rightarrow> plugin_states plugins" where
  "install_analysis h p pl =
     (let pl = pl\<lparr>trace_analyses := trace_analyses pl @ [analysis_of h p]\<rparr>
      in if p = AUTOMO then pl\<lparr>inspect_plugin := Some (analysis_of h p)\<rparr> else pl)"

definition install_trace_analyses :: "('v, 's) entry_host \<Rightarrow> plugin list \<Rightarrow> plugin_states plugins" where
  "install_trace_analyses h ps =
     fold (install_analysis h) ps \<lparr>trace_analyses = [], inspect_plugin = None\<rparr>"

text \<open>The whole program on the user's \<open>user_main\<close>; \<open>root_at\<close> and \<open>pool_at\<close> are allocations of the race detector.\<close>

definition model_main ::
  "('v, 's) entry_host \<Rightarrow> host \<Rightarrow> (uint64 \<Rightarrow> thread_id_t) \<Rightarrow> (uint64 \<Rightarrow> thread_id_t) \<Rightarrow> uint64 \<Rightarrow> uint64
     \<Rightarrow> user_memory \<Rightarrow> user_prog \<Rightarrow> (char \<times> string option) list
     \<Rightarrow> plugin_states model_checker option option" where
  "model_main h uh priv_of at root_at pool_at mem user_main opts = do {
     r \<leftarrow> parse_options h opts;
     case r of
       None \<Rightarrow> Some None
     | Some st \<Rightarrow> do {
         e \<leftarrow> ModelExecution_new (op_params st) Map.empty priv_of at NodeStack_new
               (initRaceDetector root_at pool_at) 0 0;
         m \<leftarrow> run (install_trace_analyses h (op_installed st)) uh user_main
               (ModelChecker_new e mem (op_states st));
         Some (Some m)
       }
   }"

section \<open>Installing\<close>

lemma install_plugin_name:
  "install_plugin name st = (False, st') \<Longrightarrow> \<exists>p. plugin_name p = name
     \<and> st' = st\<lparr>op_installed := op_installed st @ [p]\<rparr>"
  by (auto simp: install_plugin_def find_Some_iff split: option.splits)

text \<open>The plugins installed are those of the options \<open>-t\<close>, in their order.\<close>

lemma parse_loop_installs:
  assumes "parse_loop h opts st = Some (False, st')"
  shows "map plugin_name (op_installed st')
    = map plugin_name (op_installed st) @ List.map_filter (\<lambda>(c, a). if c = CHR ''t'' then a else None) opts"
  using assms
proof (induction opts arbitrary: st)
  case Nil
  then show ?case by (simp add: map_filter_def)
next
  case (Cons opt opts)
  obtain c a where opt: "opt = (c, a)" by (cases opt)
  obtain st1 where st1: "option_step h (c, a) st = Some (False, st1)" "parse_loop h opts st1 = Some (False, st')"
    using Cons.prems by (auto simp: opt bind_eq_Some_conv split: if_splits)
  have "map plugin_name (op_installed st1)
      = map plugin_name (op_installed st) @ (if c = CHR ''t'' then [the a] else [])"
    and "c = CHR ''t'' \<longrightarrow> a \<noteq> None"
    using st1(1)
    by (auto simp: option_step_def number_option_def bind_eq_Some_conv split: if_splits
        dest!: install_plugin_name)
  then show ?case using Cons.IH [OF st1(2)] by (auto simp: opt map_filter_def)
qed

lemma install_trace_analyses_list:
  "trace_analyses (install_trace_analyses h ps) = map (analysis_of h) ps"
  "inspect_plugin (install_trace_analyses h ps) = (if AUTOMO \<in> set ps then Some (analysis_of h AUTOMO) else None)"
proof -
  have "trace_analyses (fold (install_analysis h) ps pl) = trace_analyses pl @ map (analysis_of h) ps
    \<and> inspect_plugin (fold (install_analysis h) ps pl)
      = (if AUTOMO \<in> set ps then Some (analysis_of h AUTOMO) else inspect_plugin pl)" for pl
    by (induction ps arbitrary: pl) (auto simp: install_analysis_def Let_def)
  then show "trace_analyses (install_trace_analyses h ps) = map (analysis_of h) ps"
    "inspect_plugin (install_trace_analyses h ps) = (if AUTOMO \<in> set ps then Some (analysis_of h AUTOMO) else None)"
    by (simp_all add: install_trace_analyses_def)
qed

section \<open>Plugins side by side\<close>

definition part_after :: "('v, 's) entry_host \<Rightarrow> exec \<Rightarrow> plugin list \<Rightarrow> plugin_states \<Rightarrow> plugin_states" where
  "part_after h e ps s =
     \<lparr>sca_part = (if SC \<in> set ps then fst (analyze (SCAnalysis_plugin (eh_back0 h)) e (sca_part s))
                  else sca_part s),
      spec_part = (if SPEC \<in> set ps then fst (analyze (SPECAnalysis_plugin (eh_spec h)) e (spec_part s))
                   else spec_part s),
      fence_part = (if AUTOMO \<in> set ps then fst (analyze (SCFence_plugin (eh_timer h)) e (fence_part s))
                    else fence_part s)\<rparr>"

lemma run_analysis_of:
  "run_analysis (analysis_of h p) m
     = obey (snd (analyze (analysis_of h p) (exe m) (plugin_state m)))
         (m\<lparr>plugin_state := part_after h (exe m) [p] (plugin_state m)\<rparr>)"
  by (cases p) (auto simp: run_analysis_def analysis_of_def lift_plugin_def part_after_def Let_def
      intro!: arg_cong2 [where f = obey] split: prod.split)

text \<open>Only \<open>AUTOMO\<close> asks the model checker for anything.\<close>

lemma request_of:
  "snd (analyze (analysis_of h p) e s) = (if p = AUTOMO
     then snd (analyze (SCFence_plugin (eh_timer h)) e (fence_part s))
     else \<lparr>wants_restart = False, wants_exit = False\<rparr>)"
  by (cases p) (auto simp: analysis_of_def lift_plugin_def SCAnalysis_plugin_def SPECAnalysis_plugin_def
      Let_def split: prod.split)

lemma part_after_Cons:
  "p \<notin> set ps \<Longrightarrow> part_after h e ps (part_after h e [p] s) = part_after h e (p # ps) s"
  by (auto simp: part_after_def)

lemma obey_plugin_state [simp]:
  "plugin_state (obey r m) = plugin_state m" "exe (obey r m) = exe m"
  "(obey r m)\<lparr>plugin_state := s\<rparr> = obey r (m\<lparr>plugin_state := s\<rparr>)"
  by (simp_all add: obey_def Let_def restart_def exit_model_checker_def)

lemma obey_nothing [simp]: "obey \<lparr>wants_restart = False, wants_exit = False\<rparr> m = m"
  by (simp add: obey_def)

definition fence_request :: "('v, 's) entry_host \<Rightarrow> exec \<Rightarrow> plugin list \<Rightarrow> plugin_states \<Rightarrow> plugin_request" where
  "fence_request h e ps s = (if AUTOMO \<in> set ps
     then snd (analyze (SCFence_plugin (eh_timer h)) e (fence_part s))
     else \<lparr>wants_restart = False, wants_exit = False\<rparr>)"

lemma run_analyses_of:
  assumes "distinct ps"
  shows "fold run_analysis (map (analysis_of h) ps) m = obey (fence_request h (exe m) ps (plugin_state m))
    (m\<lparr>plugin_state := part_after h (exe m) ps (plugin_state m)\<rparr>)"
  using assms
proof (induction ps arbitrary: m)
  case Nil
  show ?case by (simp add: fence_request_def part_after_def)
next
  case (Cons p ps)
  let ?s = "part_after h (exe m) [p] (plugin_state m)"
  have first: "run_analysis (analysis_of h p) m
      = obey (fence_request h (exe m) [p] (plugin_state m)) (m\<lparr>plugin_state := ?s\<rparr>)"
    by (auto simp: run_analysis_of request_of fence_request_def)
  have "fold run_analysis (map (analysis_of h) (p # ps)) m
      = obey (fence_request h (exe m) ps ?s) (obey (fence_request h (exe m) [p] (plugin_state m))
          (m\<lparr>plugin_state := part_after h (exe m) (p # ps) (plugin_state m)\<rparr>))"
    using Cons.IH Cons.prems by (simp add: first part_after_Cons)
  also have "\<dots> = obey (fence_request h (exe m) (p # ps) (plugin_state m))
      (m\<lparr>plugin_state := part_after h (exe m) (p # ps) (plugin_state m)\<rparr>)"
    using Cons.prems by (cases p) (auto simp: fence_request_def part_after_def)
  finally show ?case .
qed



end
