(* ===== verification/Spec2Isabelle.thy ===== *)
theory Spec2Isabelle
  imports HashTable ExecLists ExecRelease ExecRecency ModelRun SCFenceProps SCAnalysisProps SpecSample SpecList ProgramEntry
begin

text \<open>
  The model checker CDSChecker (\<open>cdschecker2\<close>), which runs a C11 program again and again, once for
  every behaviour the C11 memory model allows it.

  \<^bold>\<open>The program.\<close> A program under test hands every atomic operation to the model checker as a
  \<open>ModelAction\<close>. \<open>ModelExecution::take_step\<close> enters it into the trace, decides which earlier store
  (or promised future store) a load reads from, records what that means for the modification
  order in the \<open>CycleGraph\<close>, and works off a queue of consequences: clock vectors change, release
  sequences are resolved, promises are kept or fail. The \<open>NodeStack\<close> holds one \<open>Node\<close> per step with
  the choices not tried yet (threads to run, stores to read, promises to keep); the next
  execution replays a prefix of it and takes the next choice. The \<open>Scheduler\<close> picks the thread
  to run, under fairness and yield priorities. Non-atomic accesses go to the race detector, which keeps
  one shadow word per address.

  \<^bold>\<open>Theories and sources.\<close> Every theory models files of \<open>src/\<close>, in the order the code calls them:
  \<^item> \<open>Prelude\<close>: vectors (\<open>vec_resize\<close>, \<open>vec_erase\<close>), loops that may fail (\<open>fold_opt\<close>, \<open>exists_opt\<close>), the
    locale \<open>frame\<close>, the contract of operations that change only part of a state.
  \<^item> \<open>ClockVector\<close>: \<open>clockvector.cc\<close>. \<open>Actions\<close>: \<open>action.cc\<close>, \<open>action.h\<close>, the memory orders of
    \<open>include/memoryorder.h\<close>. \<open>HashTable\<close>: \<open>hashtable.h\<close>. \<open>Promises\<close>: \<open>promise.cc\<close>.
  \<^item> \<open>CycleGraph\<close>, \<open>CycleRollback\<close>, \<open>ModificationOrder\<close>, \<open>CycleQueries\<close>: \<open>cyclegraph.cc\<close>.
  \<^item> \<open>Nodes\<close>, \<open>NodeChoices\<close>, \<open>NodeStack\<close>, \<open>NodeYield\<close>: \<open>nodestack.cc\<close>. \<open>Scheduler\<close>: \<open>schedule.cc\<close>.
  \<^item> \<open>DataRace\<close>: \<open>datarace.cc\<close>.
  \<^item> \<open>ExecState\<close>, \<open>ExecQueries\<close>, \<open>ExecOrder\<close>, \<open>ExecSync\<close>, \<open>ExecStep\<close>: \<open>execution.cc\<close>, \<open>workqueue.h\<close>,
    the bookkeeping of \<open>threads.cc\<close> and of \<open>include/mutex\<close>. \<open>ExecSample\<close> holds the execution the
    witnesses start from.
  \<^item> \<open>UserLib\<close>: the library of the program under test (\<open>cmodelint.cc\<close>, \<open>include/impatomic.h\<close>, \<open>impatomic.cc\<close>,
    \<open>mutex.cc\<close>, \<open>conditionvariable.cc\<close>, \<open>libthreads.cc\<close>, \<open>librace.cc\<close>, \<open>libannotate.cc\<close>); a program is a
    tree of requests, the codatatype \<open>user_prog\<close>. \<open>Snapshots\<close>: \<open>snapshot-interface.cc\<close>.
    \<open>ModelChecker\<close>: \<open>model.cc\<close>, the driver that runs program and execution together and loops over
    executions. \<open>ModelRun\<close>: what the driver guarantees.
  \<^item> The plugin that infers memory orders, under \<open>scfence/\<close>: \<open>Inference\<close> (\<open>inference.cc\<close>, \<open>patch.cc\<close>, the
    wildcards of \<open>include/wildcard.h\<close>), \<open>InferenceSet\<close> (\<open>inferset.cc\<close>, \<open>inferlist.cc\<close>), \<open>SCGen\<close>
    (\<open>scgen.cc\<close>, \<open>sc_annotation.h\<close>), \<open>SCFence\<close> (\<open>scfence.cc\<close>, an instance of \<open>trace_analysis\<close>).
    \<open>SCOrder\<close> and \<open>SCFenceProps\<close>: what the generator and the plugin guarantee. \<open>CString\<close>: \<open>atoi\<close>.
  \<^item> The plugin that asks whether an execution is sequentially consistent: \<open>SCAnalysis\<close> (the state and
    the clock vectors) and \<open>SCAnalysisRun\<close> (the loop over choices and the verdict) are
    \<open>scanalysis.cc\<close>; it shares a base record and \<open>SCLists\<close>, lists in an order that is built, with
    \<open>SCGen\<close>. \<open>SCAnalysisProps\<close>: what it guarantees.
  \<^item> The plugin that checks executions against a sequential specification, under \<open>spec-analysis/\<close>:
    \<open>SpecGraph\<close> (\<open>specannotation.cc\<close>, \<open>methodcall.cc\<close>, the building of the graph in
    \<open>executiongraph.cc\<close>), \<open>SpecCheck\<close> (the checks of \<open>executiongraph.cc\<close>, \<open>specanalysis.cc\<close>,
    \<open>testanalysis.cc\<close>), \<open>SpecList\<close> (\<open>spec_lib.c\<close>). \<open>SpecHistories\<close>, \<open>SpecVerdict\<close>, \<open>SpecBuild\<close> and
    \<open>SpecProps\<close>: what they guarantee, on the trace of \<open>SpecSample\<close>.
  \<^item> \<open>ProgramEntry\<close>: \<open>main.cc\<close> and \<open>plugins.cc\<close>, the options and the run with the installed plugins.
  \<^item> \<open>ExecCoherence\<close>, \<open>ExecMayRead\<close>, \<open>ExecLists\<close>, \<open>ExecMutex\<close>, \<open>ExecRelease\<close>, \<open>ExecRecency\<close>,
    \<open>ExecVerdict\<close>: what the operations of an execution guarantee.

  \<^bold>\<open>How code becomes definitions.\<close> Classes are records with the members' names; a method is a
  function from the old record to the new one and its result. Objects shared by pointer live
  in stores: actions and promises are numbers (\<open>aid\<close>, \<open>pid\<close>) looked up in maps, nodes of the cycle
  graph are indices of a heap. 32 and 64 bit integers are words, so clocks and sequence numbers
  wrap as they do in the code; container sizes and thread ids are natural numbers. A failed
  \<open>ASSERT\<close>, a null pointer that is followed, an index or iterator out of range is \<open>None\<close>. Loops are
  recursions on the list they walk. A loop that the code cannot bound by its own data (chains of
  reads-from pointers, probing a full hash table, the work queue, the choices of a read) is a
  \<open>partial_function (option)\<close>: a result says that it ended, no fuel is used anywhere. Of the plugin's
  loops these are \<open>computeCV_loop\<close>, \<open>generate_loop\<close> and \<open>path_search\<close>, the last of which is shown to
  end, \<open>computeCVFast\<close>, \<open>computeCVSlow_loop\<close> and \<open>sca_loop\<close>, and \<open>justify_walk\<close>; \<open>free_nodes\<close> follows
  the links of a list in memory.

  \<^bold>\<open>What is shown.\<close>
  \<^item> The modification order. \<open>graph_ok\<close> is the invariant of the cycle graph: edges and back edges
    mirror each other, RMW chains are contiguous, the cycle flag is exact. From it: every graph
    that the operations can reach without a reported cycle has a total modification order that
    respects its edges and RMW atomicity; \<open>addEdge\<close> and \<open>addRMWEdge\<close> detect cycles exactly;
    \<open>rollbackChanges\<close> restores the graph; the reachability queries decide reachability.
  \<^item> Executions. \<open>edges_added\<close>, \<open>edges_sent\<close>, \<open>same_order\<close>, \<open>only_wakes\<close>, \<open>syncs\<close> and \<open>grows\<close> are
    contracts of groups of operations, each an interpretation of \<open>frame\<close>. With them: read and
    write coherence of the edges added for an action; soundness of the stores offered to a read;
    agreement of the two views of an object's actions; mutexes and condition variables; soundness
    of the heads of release sequences; \<open>check_recency\<close> against a declarative definition;
    verdicts are final through a whole \<open>take_step\<close>.
  \<^item> The driver. Every execution starts from the snapshot and is counted in exactly one class;
    replay follows the recorded threads and departs in exactly one choice; the loop ends only on
    request, at the limit or with no choice left; deadlocks count as bugs; the contract \<open>runs\<close>
    extends the finality of verdicts over whole executions, user code and plugins included.
  \<^item> Exploration. The sets of backtracking points are kept exactly, the enumeration of
    behaviours and of stores to read ends and repeats nothing, replaying returns the recorded
    actions, fairness counters agree with the window, yield priorities stay acyclic, the
    scheduler is a fair round robin that never blocks every thread by yields.
  \<^item> Races and tables. A check of a non-atomic access reports exactly the recorded accesses that
    are not ordered before it; shadow words round-trip within the limits the detector keeps; the
    hash table behaves as a map; clock vectors are joined by their least upper bound; promises
    fail exactly when no thread can keep them.

  \<^item> Inference of memory orders. \<open>compareTo\<close> is the pointwise order of assignments of memory orders
    to wildcards, \<open>applyPatch\<close> strengthens by the least amount, the next candidate handed out
    is unexplored and meets what the set promises; the list the generator returns without a cycle
    is a sequentially consistent order of the trace (contract \<open>edges_only\<close>, another \<open>frame\<close>); the
    search for paths of reads-from and sequenced-before ends; the plugin keeps a candidate
    only past executions that are sequentially consistent.

  \<^item> Sequential consistency. An execution the analysis counts as sequentially consistent has such an
    order, one it counts as not was put into a list with a wrong read; its bisections find what a
    scan finds. \<open>write_lists_one_short\<close> shows an index out of range, \<open>own_store_fails\<close> a failed
    assertion.
  \<^item> Sequential specifications. \<open>is_history\<close> is a topological order of the graph; \<open>obeys_spec\<close> and
    \<open>justifies\<close> run the specification on a state of its own, \<open>checkStateSpec_exact\<close> and
    \<open>all_histories_explored\<close> show that the code, whose checks share states, marks and the flags of
    existence (contracts \<open>generates_only\<close>, \<open>checks_only\<close>), computes them on every history.
    \<open>buildGraph_result\<close> is what building the graph establishes (contracts \<open>flags_kept\<close>, \<open>order_kept\<close>,
    \<open>asserts_only\<close>, \<open>justifies_only\<close>). The list of the specifications' library is a double-ended
    queue (\<open>represents\<close>), but freeing it after \<open>pop_back\<close> uses freed memory.
  \<^item> Plugins side by side. A plugin works on its part of the plugin state (locale \<open>plugin_part\<close>), so
    that several of them analyse an execution each as it would alone.

  \<^bold>\<open>Parameters and hypotheses.\<close> The mapping of \<open>thrd_t\<close> values and thread objects to threads
  (\<open>thrd_priv\<close>, \<open>thread_at\<close>), addresses of fresh allocations (\<open>fresh_pointer\<close> in \<open>DataRace\<close>) and what
  the race detector asks of an execution (\<open>race_env\<close>), the addresses of thread objects (\<open>host\<close>), the
  program under test, the plugins, the memory the generator allocates without clearing it (\<open>junk\<close>), the
  clock (\<open>timer\<close>), the files of candidates (\<open>files\<close>), what \<open>back\<close> of an empty list returns (\<open>back0\<close>), the
  memory of the annotations and the functions of a specification (\<open>spec_host\<close>, \<open>anno_init\<close>), the
  order of addresses (\<open>first\<close>), the numbers of \<open>rand\<close> (\<open>rnd\<close>) and \<open>malloc\<close> (\<open>alloc\<close>) are arguments of the
  definitions.
  Hypotheses of the properties are invariants of the states the code builds, such as \<open>graph_ok\<close> or
  \<open>reachable_graph\<close>, or say that the operation returned; for the generator, that the trace lists every
  action after those it depends on (\<open>causal\<close>), for the inference, that assignments have as many
  orders as the program has wildcards (\<open>well_formed\<close>, \<open>patchable\<close>, \<open>infers_alive\<close>), for a
  specification, that its functions are there and the initial one does not look at the old state
  (\<open>spec_complete\<close>), for \<open>malloc\<close>, that it gives an address not in use (\<open>malloc_ok\<close>).

  \<^bold>\<open>Not modelled.\<close> Printing and graph dumps; machine contexts, stacks and the switching between
  them (\<open>context.cc\<close>, parts of \<open>threads.cc\<close>); the copying of pages and allocators (\<open>snapshot.cc\<close>,
  \<open>mymemory.cc\<close>, the vendored \<open>malloc.c\<close>); the C++ wrappers per atomic type and the thread and
  mutex headers that forward to the library (\<open>include/\<close>); how \<open>getopt_long\<close> splits the command
  line. Of \<open>scfence\<close>: the reading of a file of candidates and code nothing calls. Of
  \<open>spec-analysis\<close>: the verbose mode, and \<open>cdsspec.h\<close>, templates and macros for the code generated
  from specifications.
\<close>

end
